(* ===== verification/Prelude.thy ===== *)
theory Prelude
  imports Main "HOL-Library.Word"
begin

text \<open>
  Shared vocabulary of the development: the C integer types as words, byte
  buffers as lists, the little- and big-endian views of integers that the
  sources obtain with \<^verbatim>\<open>memcpy\<close>, \<^verbatim>\<open>htole32\<close>, \<^verbatim>\<open>htons\<close> and friends, the array
  writes that \<^verbatim>\<open>memcpy\<close>/\<^verbatim>\<open>memset\<close> perform, and the generic list, option and
  word lemmas the components use. The host is little-endian, as every
  supported target of the program is.
\<close>

unbundle bit_operations_syntax

section \<open>Types\<close>

type_synonym u8 = "8 word"
type_synonym u16 = "16 word"
type_synonym u32 = "32 word"
type_synonym u64 = "64 word"
type_synonym bytes = "u8 list"

named_theorems wg_defs \<open>small definitions of the model that proofs unfold\<close>
named_theorems wg_bounds \<open>length and range facts of the model's operations\<close>

section \<open>Byte views of integers\<close>

definition byte_of :: "'a::len word \<Rightarrow> nat \<Rightarrow> u8" where
  "byte_of w i = ucast (drop_bit (8 * i) w)"

definition le_bytes :: "nat \<Rightarrow> 'a::len word \<Rightarrow> bytes" where
  "le_bytes n w = map (byte_of w) [0..<n]"

definition le16 :: "u16 \<Rightarrow> bytes" where "le16 w = le_bytes 2 w"
definition le32 :: "u32 \<Rightarrow> bytes" where "le32 w = le_bytes 4 w"
definition le64 :: "u64 \<Rightarrow> bytes" where "le64 w = le_bytes 8 w"
definition be16 :: "u16 \<Rightarrow> bytes" where "be16 w = rev (le16 w)"
definition be32 :: "u32 \<Rightarrow> bytes" where "be32 w = rev (le32 w)"
definition be64 :: "u64 \<Rightarrow> bytes" where "be64 w = rev (le64 w)"

text \<open>Reading: the word whose byte \<open>i\<close> is element \<open>i\<close> of the list.\<close>

fun of_le :: "bytes \<Rightarrow> 'a::len word" where
  "of_le [] = 0"
| "of_le (b # bs) = ucast b OR push_bit 8 (of_le bs)"

definition of_be :: "bytes \<Rightarrow> 'a::len word" where
  "of_be bs = of_le (rev bs)"

lemma length_le_bytes [simp]: "length (le_bytes n w) = n"
  by (simp add: le_bytes_def)

lemma length_views [simp]:
  "length (le16 a) = 2" "length (le32 b) = 4" "length (le64 c) = 8"
  "length (be16 a) = 2" "length (be32 b) = 4" "length (be64 c) = 8"
  by (simp_all add: le16_def le32_def le64_def be16_def be32_def be64_def)

lemma bit_byte_of: "bit (byte_of w i) k \<longleftrightarrow> k < 8 \<and> bit w (8 * i + k)"
  by (auto simp: byte_of_def bit_simps)

lemma bit_of_le:
  "bit (of_le bs :: 'a::len word) k \<longleftrightarrow>
     k < LENGTH('a) \<and> k div 8 < length bs \<and> bit (bs ! (k div 8)) (k mod 8)"
proof (induction bs arbitrary: k)
  case Nil
  then show ?case by simp
next
  case (Cons b bs)
  show ?case
  proof (cases "k < 8")
    case True
    then show ?thesis by (auto simp: bit_simps)
  next
    case False
    then have d: "k div 8 = Suc ((k - 8) div 8)" "k mod 8 = (k - 8) mod 8"
      by (auto simp: le_div_geq le_mod_geq)
    have "\<not> bit b k" using False by (auto dest: bit_imp_le_length)
    with False show ?thesis
      unfolding d by (auto simp: bit_simps Cons.IH)
  qed
qed

lemma of_le_le_bytes:
  assumes "LENGTH('a::len) \<le> 8 * n"
  shows "of_le (le_bytes n w) = (w :: 'a word)"
proof (rule bit_word_eqI)
  fix k assume k: "k < LENGTH('a)"
  with assms have "k div 8 < n" by (simp add: div_less_iff_less_mult)
  with k show "bit (of_le (le_bytes n w) :: 'a word) k = bit w k"
    by (simp add: bit_of_le le_bytes_def bit_byte_of)
qed

lemma le_bytes_of_le:
  assumes "8 * length bs \<le> LENGTH('a::len)"
  shows "le_bytes (length bs) (of_le bs :: 'a word) = bs"
proof (rule nth_equalityI)
  show "length (le_bytes (length bs) (of_le bs :: 'a word)) = length bs" by simp
next
  fix i assume "i < length (le_bytes (length bs) (of_le bs :: 'a word))"
  then have i: "i < length bs" by simp
  show "le_bytes (length bs) (of_le bs :: 'a word) ! i = bs ! i"
  proof (rule bit_word_eqI)
    fix k assume "k < LENGTH(8)"
    then have k: "k < 8" by simp
    with i assms have "8 * i + k < LENGTH('a)" by linarith
    with i k show "bit (le_bytes (length bs) (of_le bs :: 'a word) ! i) k = bit (bs ! i) k"
      by (simp add: le_bytes_def bit_byte_of bit_of_le div_mult2_eq)
  qed
qed

lemma of_le_le [simp]:
  "(of_le (le16 a) :: u16) = a" "(of_le (le32 b) :: u32) = b" "(of_le (le64 c) :: u64) = c"
  by (simp_all add: le16_def le32_def le64_def of_le_le_bytes)

lemma le_of_le:
  "length bs = 4 \<Longrightarrow> le32 (of_le bs) = bs" "length bs = 8 \<Longrightarrow> le64 (of_le bs) = bs"
  using le_bytes_of_le [of bs, where 'a = 32] le_bytes_of_le [of bs, where 'a = 64]
  by (simp_all add: le32_def le64_def)

lemma of_be_be [simp]:
  "(of_be (be16 a) :: u16) = a" "(of_be (be32 b) :: u32) = b" "(of_be (be64 c) :: u64) = c"
  by (simp_all add: of_be_def be16_def be32_def be64_def)

section \<open>Buffers\<close>

text \<open>\<open>slice off n buf\<close> is \<^verbatim>\<open>buf[off .. off+n)\<close>; \<open>put off src buf\<close> is
  \<^verbatim>\<open>memcpy(buf + off, src, len)\<close> for a source that fits.\<close>

definition slice :: "nat \<Rightarrow> nat \<Rightarrow> 'a list \<Rightarrow> 'a list" where
  "slice off n buf = take n (drop off buf)"

definition put :: "nat \<Rightarrow> 'a list \<Rightarrow> 'a list \<Rightarrow> 'a list" where
  "put off src buf = take off buf @ src @ drop (off + length src) buf"

lemma length_slice [simp]: "length (slice off n buf) = min n (length buf - off)"
  by (simp add: slice_def)

lemma length_put [simp]:
  "off + length src \<le> length buf \<Longrightarrow> length (put off src buf) = length buf"
  by (simp add: put_def)

lemma slice_put_same [simp]:
  "off + length src \<le> length buf \<Longrightarrow> n = length src \<Longrightarrow> slice off n (put off src buf) = src"
  by (simp add: slice_def put_def)

lemma slice_put_before:
  "o' + n \<le> off \<Longrightarrow> off \<le> length buf \<Longrightarrow> slice o' n (put off src buf) = slice o' n buf"
  by (simp add: slice_def put_def take_drop min_def)

lemma slice_put_after:
  assumes "off + length src \<le> o'" "off + length src \<le> length buf"
  shows "slice o' n (put off src buf) = slice o' n buf"
  using assms by (simp add: slice_def put_def)

lemma slice_append_skip:
  "length xs = k \<Longrightarrow> k \<le> off \<Longrightarrow> slice off n (xs @ ys) = slice (off - k) n ys"
  by (simp add: slice_def)

lemma slice_append_hd:
  "length xs = n \<Longrightarrow> slice 0 n (xs @ ys) = xs"
  by (simp add: slice_def)

lemma slice_whole: "length xs = n \<Longrightarrow> slice 0 n xs = xs"
  by (simp add: slice_def)

definition zeros :: "nat \<Rightarrow> bytes" where
  "zeros n = replicate n 0"

lemma length_zeros [simp]: "length (zeros n) = n"
  by (simp add: zeros_def)

section \<open>Words\<close>

lemma unat_lt2p: "unat (w::'a::len word) < 2 ^ LENGTH('a)"
  by (rule unsigned_less)

lemma unat_sub_le: "(b::'a::len word) \<le> a \<Longrightarrow> unat (a - b) = unat a - unat b"
  by (simp add: unat_sub)

lemma unat_drop_bit: "unat (drop_bit n (w::'a::len word)) = unat w div 2 ^ n"
  using unsigned_drop_bit_eq [of n w, where 'a = nat] unat_lt2p [of w]
  by (simp only: drop_bit_eq_div [where 'a = nat] take_bit_nat_eq_self)

lemma u64_shift6: "unat (drop_bit 6 (c::u64)) = unat c div 64"
  by (simp add: drop_bit_eq_div unat_div)

lemma lex_div_less: "(i::nat) < c \<longleftrightarrow> i div m < c div m \<or> i div m = c div m \<and> i mod m < c mod m"
proof (cases "i div m = c div m")
  case True
  have "i = i div m * m + i mod m" "c = c div m * m + c mod m" by simp_all
  with True show ?thesis by (metis add_less_cancel_left less_irrefl)
next
  case False
  then show ?thesis by (metis div_le_mono le_neq_implies_less less_imp_le not_less)
qed

lemma div64_window: "x \<le> y + 8128 \<Longrightarrow> x div 64 < y div 64 + (128::nat)"
  using div_le_mono [of x "y + 127 * 64" 64] by simp

lemma mod_eq_close:
  assumes "a mod m = b mod m" "a < b + m" "b < a + (m::nat)"
  shows "a = b"
proof (cases "a \<le> b")
  case True
  with assms(1) obtain s where "b = a + m * s" by (metis mod_eq_nat1E)
  with assms(3) show ?thesis by (cases s) auto
next
  case False
  with assms(1) obtain s where "a = b + m * s" by (metis mod_eq_nat1E nat_le_linear)
  with assms(2) show ?thesis by (cases s) auto
qed

lemma mod_residue: "\<exists>k<m. (a + k) mod m = b mod (m::nat)" if "0 < m"
proof (rule exI [of _ "(b + (m - a mod m)) mod m"], rule conjI)
  show "(b + (m - a mod m)) mod m < m" using that by simp
  have "a mod m \<le> m" using that by (simp add: less_imp_le)
  then have "a mod m + (b + (m - a mod m)) = b + m" by simp
  then have "(a mod m + (b + (m - a mod m)) mod m) mod m = b mod m" by (metis mod_add_right_eq mod_add_self2)
  then show "(a + (b + (m - a mod m)) mod m) mod m = b mod m" by (metis mod_add_left_eq)
qed

lemma unat_take_bit: "unat (take_bit n (w::'a::len word)) = unat w mod 2 ^ n"
  by (simp flip: take_bit_eq_mod) (simp add: unsigned_take_bit_eq)

lemma unat_and_127: "unat ((w::u64) AND 127) = unat w mod 128"
  using unat_take_bit [of 7 w] by (simp add: take_bit_eq_mask mask_eq_exp_minus_1)

lemma unat_and_63: "unat ((w::u64) AND 63) = unat w mod 64"
  using unat_take_bit [of 6 w] by (simp add: take_bit_eq_mask mask_eq_exp_minus_1)

section \<open>Postconditions\<close>

text \<open>A function body is a nest of \<open>let\<close>, \<open>if\<close> and \<open>case\<close>; the rules below walk through it and
  leave one goal per exit, with the bindings and branch conditions on the way as hypotheses.\<close>

definition post :: "('r \<Rightarrow> bool) \<Rightarrow> 'r \<Rightarrow> bool" where
  "post Q r \<longleftrightarrow> Q r"

lemma postI: "Q r \<Longrightarrow> post Q r"
  by (simp add: post_def)

lemma postD: "post Q r \<Longrightarrow> Q r"
  by (simp add: post_def)

lemma post_let: "(\<And>x. x = v \<Longrightarrow> post Q (f x)) \<Longrightarrow> post Q (Let v f)"
  by (simp add: Let_def)

lemma post_if: "(c \<Longrightarrow> post Q a) \<Longrightarrow> (\<not> c \<Longrightarrow> post Q b) \<Longrightarrow> post Q (if c then a else b)"
  by simp

lemma post_option: "(x = None \<Longrightarrow> post Q a) \<Longrightarrow> (\<And>y. x = Some y \<Longrightarrow> post Q (f y)) \<Longrightarrow> post Q (case x of None \<Rightarrow> a | Some y \<Rightarrow> f y)"
  by (cases x) simp_all

lemma post_prod: "(\<And>a b. x = (a, b) \<Longrightarrow> post Q (f a b)) \<Longrightarrow> post Q (case x of (a, b) \<Rightarrow> f a b)"
  by (cases x) simp

lemma post_prod_app: "(\<And>a b. x = (a, b) \<Longrightarrow> post Q (f a b c)) \<Longrightarrow> post Q ((case x of (a, b) \<Rightarrow> f a b) c)"
  by (cases x) simp

lemmas post_rules = post_let post_if post_option post_prod post_prod_app

end
