(* ===== verification/Replay.thy ===== *)
theory Replay
  imports Prelude
begin

text \<open>
  The anti-replay sliding window (\<^verbatim>\<open>src/src/replay.c\<close>, \<^verbatim>\<open>replay.h\<close>): a ring of
  128 blocks of 64 bits and the greatest counter accepted so far. The model
  keeps the ring as a list of 64-bit words. The specification is the set of all
  counters accepted so far; the theory proves that the ring implements it on
  the window and states the contract its clients rely on as the locale
  \<open>anti_replay\<close>.
\<close>

section \<open>The filter\<close>

record replay_filter =
  rf_last :: u64
  rf_ring :: "u64 list"

definition REPLAY_BLOCK_BITS :: u64 where "REPLAY_BLOCK_BITS = 64"
definition REPLAY_RING_BLOCKS :: u64 where "REPLAY_RING_BLOCKS = 128"
definition REPLAY_WINDOW_SIZE :: u64 where
  "REPLAY_WINDOW_SIZE = (REPLAY_RING_BLOCKS - 1) * REPLAY_BLOCK_BITS"

lemmas replay_consts = REPLAY_BLOCK_BITS_def REPLAY_RING_BLOCKS_def REPLAY_WINDOW_SIZE_def

definition replay_reset :: "replay_filter" where
  "replay_reset = \<lparr>rf_last = 0, rf_ring = replicate 128 0\<rparr>"

definition replay_check :: "replay_filter \<Rightarrow> u64 \<Rightarrow> u64 \<Rightarrow> bool" where
  "replay_check f counter limit =
     (if counter \<ge> limit then False
      else if counter \<le> rf_last f then
        (if rf_last f - counter > REPLAY_WINDOW_SIZE then False
         else
           let slot = drop_bit 6 counter AND (REPLAY_RING_BLOCKS - 1);
               b = push_bit (unat (counter AND 63)) 1
           in \<not> (rf_ring f ! unat slot AND b \<noteq> 0))
      else True)"

text \<open>The loop \<^verbatim>\<open>for (i = current + 1; i <= current + diff; i++)\<close> runs exactly
  \<open>diff\<close> times: \<open>current\<close> is below \<open>2^58\<close> and \<open>diff\<close> at most 128, so \<open>i\<close>
  does not wrap.\<close>

primrec replay_clear :: "nat \<Rightarrow> u64 \<Rightarrow> u64 list \<Rightarrow> u64 list" where
  "replay_clear 0 i ring = ring"
| "replay_clear (Suc n) i ring =
     replay_clear n (i + 1) (ring[unat (i AND (REPLAY_RING_BLOCKS - 1)) := 0])"

definition replay_commit :: "replay_filter \<Rightarrow> u64 \<Rightarrow> u64 \<Rightarrow> bool \<times> replay_filter" where
  "replay_commit f counter limit =
     (if \<not> replay_check f counter limit then (False, f)
      else
        let index_block = drop_bit 6 counter;
            f1 = (if counter > rf_last f then
                    let current = drop_bit 6 (rf_last f);
                        diff0 = index_block - current;
                        diff = (if diff0 > REPLAY_RING_BLOCKS then REPLAY_RING_BLOCKS else diff0)
                    in f\<lparr>rf_ring := replay_clear (unat diff) (current + 1) (rf_ring f),
                          rf_last := counter\<rparr>
                  else f);
            slot = unat (index_block AND (REPLAY_RING_BLOCKS - 1));
            b = push_bit (unat (counter AND 63)) 1
        in (True, f1\<lparr>rf_ring := (rf_ring f1)[slot := rf_ring f1 ! slot OR b]\<rparr>))"

definition replay_validate :: "replay_filter \<Rightarrow> u64 \<Rightarrow> u64 \<Rightarrow> bool \<times> replay_filter" where
  "replay_validate f counter limit = replay_commit f counter limit"

section \<open>The ring as a set of counters\<close>

definition seen_bit :: "u64 list \<Rightarrow> nat \<Rightarrow> bool" where
  "seen_bit ring c = bit (ring ! (c div 64 mod 128)) (c mod 64)"

text \<open>The ring describes the set \<open>S\<close> of accepted counters: it agrees with it on the
  window, and the bits of the newest block above \<open>rf_last\<close> are clear.\<close>

definition replay_rel :: "replay_filter \<Rightarrow> nat set \<Rightarrow> bool" where
  "replay_rel f S \<longleftrightarrow>
     length (rf_ring f) = 128 \<and>
     (\<forall>c\<in>S. c \<le> unat (rf_last f)) \<and>
     (\<forall>c. c \<le> unat (rf_last f) \<longrightarrow> unat (rf_last f) - c \<le> 8128 \<longrightarrow>
        (seen_bit (rf_ring f) c \<longleftrightarrow> c \<in> S)) \<and>
     (\<forall>c. unat (rf_last f) < c \<longrightarrow> c div 64 = unat (rf_last f) div 64 \<longrightarrow>
        \<not> seen_bit (rf_ring f) c)"

definition window_accepts :: "nat \<Rightarrow> nat set \<Rightarrow> nat \<Rightarrow> nat \<Rightarrow> bool" where
  "window_accepts hi S c limit \<longleftrightarrow> c < limit \<and> (hi < c \<or> hi - c \<le> 8128 \<and> c \<notin> S)"

lemma and_push_bit_1: "(w::u64) AND push_bit n 1 \<noteq> 0 \<longleftrightarrow> bit w n"
proof
  assume "bit w n"
  then have "bit (w AND push_bit n 1) n"
    by (auto simp: bit_simps dest: bit_imp_le_length)
  then show "w AND push_bit n 1 \<noteq> 0" by auto
next
  assume "w AND push_bit n 1 \<noteq> 0"
  then obtain k where "bit (w AND push_bit n 1) k" by (metis bit_eqI bit_0_eq bot_apply bot_bool_def)
  then show "bit w n" by (auto simp: bit_simps bit_1_iff)
qed

lemma slot_eq: "unat (drop_bit 6 c AND (REPLAY_RING_BLOCKS - 1)) = unat (c::u64) div 64 mod 128"
  by (simp add: REPLAY_RING_BLOCKS_def unat_and_127 u64_shift6)

lemma replay_check_spec:
  assumes "replay_rel f S"
  shows "replay_check f c limit = window_accepts (unat (rf_last f)) S (unat c) (unat limit)"
proof -
  have W: "unat REPLAY_WINDOW_SIZE = 8128" by (simp add: replay_consts)
  have sb: "(rf_ring f ! unat (drop_bit 6 c AND (REPLAY_RING_BLOCKS - 1))
       AND 2 ^ unat (c AND 63) = 0) \<longleftrightarrow> \<not> seen_bit (rf_ring f) (unat c)"
    using and_push_bit_1 [of "rf_ring f ! (unat c div 64 mod 128)" "unat c mod 64"]
    by (simp only: slot_eq unat_and_63 seen_bit_def push_bit_of_1) blast
  have rel: "seen_bit (rf_ring f) (unat c) = (unat c \<in> S)"
    if "unat c \<le> unat (rf_last f)" "unat (rf_last f) - unat c \<le> 8128"
    using assms that by (simp add: replay_rel_def)
  show ?thesis
  proof (cases "c \<le> rf_last f")
    case True
    then have d: "unat (rf_last f - c) = unat (rf_last f) - unat c" by (rule unat_sub_le)
    from True have cl: "unat c \<le> unat (rf_last f)" by (simp add: word_le_nat_alt)
    show ?thesis
      using True cl rel
      by (auto simp: replay_check_def window_accepts_def Let_def sb word_less_nat_alt
          word_le_nat_alt W d not_le not_less)
  next
    case False
    then show ?thesis
      by (auto simp: replay_check_def window_accepts_def word_less_nat_alt word_le_nat_alt)
  qed
qed

lemma length_replay_clear [simp]: "length (replay_clear n i ring) = length ring"
  by (induction n arbitrary: i ring) auto

lemma replay_clear_nth:
  assumes "unat i + n < 2 ^ 64" "s < length ring"
  shows "replay_clear n i ring ! s =
    (if \<exists>k<n. (unat i + k) mod 128 = s then 0 else ring ! s)"
  using assms
proof (induction n arbitrary: i ring)
  case 0
  then show ?case by simp
next
  case (Suc n)
  have i1: "unat (i + 1) = Suc (unat i)"
    using Suc.prems(1) by (simp add: unat_word_ariths)
  have IH: "replay_clear n (i + 1) (ring[unat i mod 128 := 0]) ! s =
    (if \<exists>k<n. (Suc (unat i) + k) mod 128 = s then 0 else ring[unat i mod 128 := 0] ! s)"
    using Suc.IH [of "i + 1" "ring[unat i mod 128 := 0]"] Suc.prems by (simp add: i1)
  have ex: "(\<exists>k<Suc n. (unat i + k) mod 128 = s) \<longleftrightarrow>
    unat i mod 128 = s \<or> (\<exists>k<n. (Suc (unat i) + k) mod 128 = s)"
    by (auto simp: less_Suc_eq_0_disj)
  show ?case
    unfolding ex
    using Suc.prems(2) by (auto simp: IH REPLAY_RING_BLOCKS_def unat_and_127 nth_list_update)
qed

lemma seen_bit_set:
  assumes "length ring = 128"
  shows "seen_bit (ring[c div 64 mod 128 := ring ! (c div 64 mod 128) OR push_bit (c mod 64) 1]) d
    \<longleftrightarrow> seen_bit ring d \<or> (d div 64 mod 128 = c div 64 mod 128 \<and> d mod 64 = c mod 64)"
  using assms by (auto simp: seen_bit_def nth_list_update bit_simps bit_1_iff)

lemma same_slot_in_window:
  assumes "c \<le> l" "d \<le> l" "l - c \<le> 8128" "l - (d::nat) \<le> 8128"
    "d div 64 mod 128 = c div 64 mod 128" "d mod 64 = c mod 64"
  shows "d = c"
proof -
  have "c \<le> d + 8128" "d \<le> c + 8128" using assms(1-4) by linarith+
  note div64_window [OF this(1)] div64_window [OF this(2)]
  then have "d div 64 = c div 64" using mod_eq_close [OF assms(5)] by blast
  with assms(6) show ?thesis by (metis div_mult_mod_eq)
qed

text \<open>Moving the window: the cleared ring still agrees with \<open>S\<close> on the new window.\<close>

lemma seen_bit_clear:
  assumes "length ring = 128" "unat i + n < 2 ^ 64"
  shows "seen_bit (replay_clear n i ring) c \<longleftrightarrow>
    seen_bit ring c \<and> \<not> (\<exists>k<n. (unat i + k) mod 128 = c div 64 mod 128)"
  using replay_clear_nth [OF assms(2), of "c div 64 mod 128" ring] assms(1)
  by (auto simp: seen_bit_def)

lemma not_cleared:
  assumes "d div 64 \<le> cur" "c - d \<le> 8128" "cur < (c::nat) div 64" "n = min 128 (c div 64 - cur)"
  shows "\<not> (\<exists>k<n. (Suc cur + k) mod 128 = d div 64 mod 128)"
proof
  assume "\<exists>k<n. (Suc cur + k) mod 128 = d div 64 mod 128"
  then obtain k where k: "k < n" "(Suc cur + k) mod 128 = d div 64 mod 128" by blast
  have "c \<le> d + 8128" using assms(2) by linarith
  then have "c div 64 < d div 64 + 128" by (rule div64_window)
  then have "Suc cur + k < d div 64 + 128" using k(1) assms(4) by linarith
  moreover have "d div 64 < Suc cur + k" using assms(1) by linarith
  ultimately show False using mod_eq_close [OF k(2)] by linarith
qed

lemma cleared:
  assumes "cur < d div 64" "d div 64 \<le> b" "n = min 128 (b - cur)"
  shows "\<exists>k<n. (Suc cur + k) mod 128 = (d::nat) div 64 mod 128"
proof (cases "b - cur \<le> 128")
  case True
  then show ?thesis
    using assms by (intro exI [of _ "d div 64 - Suc cur"]) auto
next
  case False
  then have "n = 128" using assms(3) by simp
  moreover have "\<exists>k<128. (Suc cur + k) mod 128 = d div 64 mod 128"
    by (rule mod_residue) simp
  ultimately show ?thesis by simp
qed

lemma move_window:
  assumes R: "replay_rel f S" and gt: "rf_last f < c"
    and n: "n = min 128 (unat c div 64 - unat (rf_last f) div 64)"
  defines "ring' \<equiv> replay_clear n (drop_bit 6 (rf_last f) + 1) (rf_ring f)"
  shows "length ring' = 128"
    and "\<lbrakk>d \<le> unat c; unat c - d \<le> 8128\<rbrakk> \<Longrightarrow> seen_bit ring' d \<longleftrightarrow> d \<in> S"
    and "\<lbrakk>unat c < d; d div 64 = unat c div 64\<rbrakk> \<Longrightarrow> \<not> seen_bit ring' d"
proof -
  let ?l = "unat (rf_last f)" and ?c = "unat c"
  have len: "length (rf_ring f) = 128" using R by (simp add: replay_rel_def)
  then show "length ring' = 128" by (simp add: ring'_def)
  have l2: "?l < 2 ^ 64" using unat_lt2p [of "rf_last f"] by simp
  have i: "unat (drop_bit 6 (rf_last f) + 1) = Suc (?l div 64)"
    using l2 by (subst unat_word_ariths) (simp add: u64_shift6)
  have "n \<le> 128" using n by (simp only: min.cobounded1)
  moreover have "?l div 64 < 2 ^ 58" using l2 by (simp add: div_less_iff_less_mult)
  ultimately have small: "unat (drop_bit 6 (rf_last f) + 1) + n < 2 ^ 64" unfolding i by simp
  have lt: "?l < ?c" using gt by (simp add: word_less_nat_alt)
  have sb: "seen_bit ring' d \<longleftrightarrow> seen_bit (rf_ring f) d \<and>
      \<not> (\<exists>k<n. (Suc (?l div 64) + k) mod 128 = d div 64 mod 128)" for d
    unfolding ring'_def using seen_bit_clear [OF len small, of d] by (simp only: i)
  have above: "\<not> seen_bit ring' d" if d: "?l < d" "d div 64 \<le> ?c div 64" for d
  proof (cases "d div 64 = ?l div 64")
    case True
    then show ?thesis using R d(1) by (simp add: sb replay_rel_def)
  next
    case False
    with d(1) have "?l div 64 < d div 64" by (simp add: div_le_mono le_neq_implies_less)
    then show ?thesis using cleared [OF _ d(2) n] by (auto simp: sb)
  qed
  show "\<lbrakk>?c < d; d div 64 = ?c div 64\<rbrakk> \<Longrightarrow> \<not> seen_bit ring' d" using above [of d] lt by simp
  show "seen_bit ring' d \<longleftrightarrow> d \<in> S" if d: "d \<le> ?c" "?c - d \<le> 8128"
  proof (cases "d \<le> ?l")
    case True
    then have "?l - d \<le> 8128" using d lt by linarith
    then have S: "seen_bit (rf_ring f) d \<longleftrightarrow> d \<in> S" using R True by (simp add: replay_rel_def)
    show ?thesis
    proof (cases "?l div 64 < ?c div 64")
      case True
      have "d div 64 \<le> ?l div 64" using \<open>d \<le> ?l\<close> by (rule div_le_mono)
      then show ?thesis using not_cleared [OF _ d(2) True n] S by (simp add: sb)
    next
      case False
      then have "n = 0" using n by simp
      then show ?thesis using S by (simp add: sb)
    qed
  next
    case False
    moreover have "d \<notin> S" using False R by (auto simp: replay_rel_def)
    ultimately show ?thesis using above [of d] d(1) by (simp add: div_le_mono)
  qed
qed

lemma replay_rel_mark:
  assumes len: "length ring = 128" and c: "c \<le> l" "l - c \<le> 8128"
    and S: "\<And>d. d \<le> unat w \<Longrightarrow> unat w - d \<le> 8128 \<Longrightarrow> seen_bit ring d \<longleftrightarrow> d \<in> S"
    and hi: "\<And>d. unat w < d \<Longrightarrow> d div 64 = unat w div 64 \<Longrightarrow> \<not> seen_bit ring d"
    and le: "\<forall>d\<in>S. d \<le> unat w" and w: "unat w = l"
  shows "replay_rel \<lparr>rf_last = w, rf_ring =
      ring[c div 64 mod 128 := ring ! (c div 64 mod 128) OR push_bit (c mod 64) 1]\<rparr> (insert c S)"
proof -
  have slot: "d div 64 mod 128 = c div 64 mod 128 \<and> d mod 64 = c mod 64 \<longleftrightarrow> d = c"
    if "d \<le> l" "l - d \<le> 8128" for d
    using same_slot_in_window [OF c(1) that(1) c(2) that(2)] by auto
  have hi': "\<not> (d div 64 mod 128 = c div 64 mod 128 \<and> d mod 64 = c mod 64)"
    if d: "l < d" "d div 64 = l div 64" for d
  proof
    assume a: "d div 64 mod 128 = c div 64 mod 128 \<and> d mod 64 = c mod 64"
    have "l div 64 < c div 64 + 128" using c by (intro div64_window) linarith
    moreover have "c div 64 < l div 64 + 128"
      using div_le_mono [OF c(1), of 64] by (rule order.strict_trans1) (rule less_add_same_cancel1 [THEN iffD2], rule zero_less_numeral)
    moreover have "l div 64 mod 128 = c div 64 mod 128" using a unfolding d(2) by blast
    ultimately have "d div 64 = c div 64" unfolding d(2) using mod_eq_close by blast
    with a have "d = c" by (metis div_mult_mod_eq)
    with d(1) c(1) show False by simp
  qed
  let ?r = "ring[c div 64 mod 128 := ring ! (c div 64 mod 128) OR push_bit (c mod 64) 1]"
  have win: "seen_bit ?r d \<longleftrightarrow> d \<in> insert c S" if "d \<le> unat w" "unat w - d \<le> 8128" for d
    unfolding seen_bit_set [OF len] using S [OF that] slot [of d] that unfolding w by blast
  have top: "\<not> seen_bit ?r d" if "unat w < d" "d div 64 = unat w div 64" for d
    unfolding seen_bit_set [OF len] using hi [OF that] hi' [of d] that unfolding w by blast
  have len': "length ?r = 128" using len by simp
  have le': "\<forall>d\<in>insert c S. d \<le> unat w" using c(1) le unfolding w by blast
  show ?thesis
    unfolding replay_rel_def replay_filter.select_convs using len' le' win top by blast
qed

lemma replay_rel_reset [simp]: "replay_rel replay_reset {}"
  by (auto simp: replay_rel_def replay_reset_def seen_bit_def)

theorem replay_commit_spec:
  assumes R: "replay_rel f S"
  shows "if window_accepts (unat (rf_last f)) S (unat c) (unat limit)
    then fst (replay_commit f c limit) \<and> replay_rel (snd (replay_commit f c limit)) (insert (unat c) S)
      \<and> unat (rf_last (snd (replay_commit f c limit))) = max (unat (rf_last f)) (unat c)
    else replay_commit f c limit = (False, f)"
proof (cases "replay_check f c limit")
  case False
  then show ?thesis using replay_check_spec [OF R] by (simp add: replay_commit_def)
next
  case ok: True
  then have acc: "window_accepts (unat (rf_last f)) S (unat c) (unat limit)"
    using replay_check_spec [OF R] by simp
  have len: "length (rf_ring f) = 128" using R by (simp add: replay_rel_def)
  show ?thesis
  proof (cases "rf_last f < c")
    case True
    define diff where "diff = (if drop_bit 6 c - drop_bit 6 (rf_last f) > REPLAY_RING_BLOCKS
        then REPLAY_RING_BLOCKS else drop_bit 6 c - drop_bit 6 (rf_last f))"
    have "drop_bit 6 (rf_last f) \<le> drop_bit 6 c"
      using True by (simp add: word_le_nat_alt word_less_nat_alt u64_shift6 div_le_mono)
    then have n: "unat diff = min 128 (unat c div 64 - unat (rf_last f) div 64)"
      by (auto simp: diff_def REPLAY_RING_BLOCKS_def word_less_nat_alt unat_sub_le u64_shift6)
    note mw = move_window [OF R True n]
    have le: "\<forall>d\<in>S. d \<le> unat c" using R True by (fastforce simp: replay_rel_def word_less_nat_alt)
    have eq: "replay_commit f c limit = (True, \<lparr>rf_last = c, rf_ring =
      (let r = replay_clear (unat diff) (drop_bit 6 (rf_last f) + 1) (rf_ring f); s = unat c div 64 mod 128
       in r[s := r ! s OR push_bit (unat c mod 64) 1])\<rparr>)"
      using ok True by (cases f) (simp add: replay_commit_def Let_def slot_eq unat_and_63 diff_def)
    have "replay_rel (snd (replay_commit f c limit)) (insert (unat c) S)"
      unfolding eq Let_def snd_conv
      by (rule replay_rel_mark [where l = "unat c"]) (use mw le in \<open>auto\<close>)
    moreover have "unat (rf_last (snd (replay_commit f c limit))) = max (unat (rf_last f)) (unat c)"
      using True by (simp add: eq word_less_nat_alt)
    ultimately show ?thesis using acc by (simp add: eq)
  next
    case False
    then have le: "unat c \<le> unat (rf_last f)" by (simp add: word_le_nat_alt not_less)
    with acc have w: "unat (rf_last f) - unat c \<le> 8128" by (auto simp: window_accepts_def)
    have eq: "replay_commit f c limit = (True, \<lparr>rf_last = rf_last f, rf_ring =
      (let s = unat c div 64 mod 128 in (rf_ring f)[s := rf_ring f ! s OR push_bit (unat c mod 64) 1])\<rparr>)"
      using ok False by (cases f) (simp add: replay_commit_def Let_def slot_eq unat_and_63)
    have "replay_rel (snd (replay_commit f c limit)) (insert (unat c) S)"
      unfolding eq Let_def snd_conv
      by (rule replay_rel_mark [OF len le w]) (use R in \<open>auto simp: replay_rel_def\<close>)
    then show ?thesis using acc le by (simp add: eq)
  qed
qed

section \<open>The contract of an anti-replay filter\<close>

text \<open>Feeding a sequence of counters to a filter: the counters it accepts, in order,
  and its final state.\<close>

fun run_filter :: "('s \<Rightarrow> 'c \<Rightarrow> bool \<times> 's) \<Rightarrow> 's \<Rightarrow> 'c list \<Rightarrow> 'c list \<times> 's" where
  "run_filter commit s [] = ([], s)"
| "run_filter commit s (c # cs) =
     (let (ok, s') = commit s c; (acc, s'') = run_filter commit s' cs
      in (if ok then c # acc else acc, s''))"

locale anti_replay =
  fixes check :: "'s \<Rightarrow> 'c \<Rightarrow> bool" and commit :: "'s \<Rightarrow> 'c \<Rightarrow> bool \<times> 's" and inv :: "'s \<Rightarrow> bool"
  assumes commit_check: "fst (commit s c) = check s c"
    and inv_commit: "inv s \<Longrightarrow> inv (snd (commit s c))"
    and commit_once: "inv s \<Longrightarrow> \<not> check (snd (commit s c)) c"
    and reject_stays: "inv s \<Longrightarrow> \<not> check s c \<Longrightarrow> \<not> check (snd (commit s d)) c"
begin

lemma rejected_never_accepted:
  "inv s \<Longrightarrow> \<not> check s c \<Longrightarrow> c \<notin> set (fst (run_filter commit s cs))"
proof (induction cs arbitrary: s)
  case Nil
  then show ?case by simp
next
  case (Cons d cs)
  obtain ok s' where d: "commit s d = (ok, s')" by (cases "commit s d")
  from Cons.prems have "inv s'" "\<not> check s' c"
    using inv_commit [of s d] reject_stays [of s c d] by (simp_all add: d)
  then have "c \<notin> set (fst (run_filter commit s' cs))" by (rule Cons.IH)
  moreover have "ok \<longrightarrow> d \<noteq> c" using Cons.prems(2) commit_check [of s d] by (auto simp: d)
  ultimately show ?case by (auto simp: d split: prod.splits)
qed

lemma accepted_distinct: "inv s \<Longrightarrow> distinct (fst (run_filter commit s cs))"
proof (induction cs arbitrary: s)
  case Nil
  then show ?case by simp
next
  case (Cons d cs)
  obtain ok s' where d: "commit s d = (ok, s')" by (cases "commit s d")
  from Cons.prems have s': "inv s'" "\<not> check s' d"
    using inv_commit [of s d] commit_once [of s d] by (simp_all add: d)
  from Cons.IH [OF s'(1)] rejected_never_accepted [OF s', of cs] show ?case
    by (auto simp: d split: prod.splits)
qed

end

lemma window_rejects_mono:
  assumes "\<not> window_accepts hi S c limit" "\<forall>d\<in>S. d \<le> hi"
  shows "\<not> window_accepts (max hi d) (insert d S) c limit"
  using assms by (auto simp: window_accepts_def)

interpretation rp: anti_replay
  "\<lambda>f c. replay_check f c limit" "\<lambda>f c. replay_commit f c limit" "\<lambda>f. \<exists>S. replay_rel f S"
  for limit :: u64
proof (unfold_locales, goal_cases)
  case (1 f c)
  show ?case by (simp add: replay_commit_def Let_def)
next
  case (2 f c)
  then show ?case using replay_commit_spec by (metis snd_conv)
next
  case (3 f c)
  then obtain S where R: "replay_rel f S" by blast
  show ?case
  proof (cases "window_accepts (unat (rf_last f)) S (unat c) (unat limit)")
    case True
    then have R': "replay_rel (snd (replay_commit f c limit)) (insert (unat c) S)"
      and l: "unat (rf_last (snd (replay_commit f c limit))) = max (unat (rf_last f)) (unat c)"
      using replay_commit_spec [OF R, of c limit] by simp_all
    show ?thesis unfolding replay_check_spec [OF R'] l by (simp add: window_accepts_def)
  next
    case False
    then show ?thesis
      using replay_commit_spec [OF R, of c limit] replay_check_spec [OF R] by simp
  qed
next
  case (4 f c d)
  then obtain S where R: "replay_rel f S" by blast
  with 4 have no: "\<not> window_accepts (unat (rf_last f)) S (unat c) (unat limit)"
    by (simp add: replay_check_spec)
  show ?case
  proof (cases "window_accepts (unat (rf_last f)) S (unat d) (unat limit)")
    case True
    then have R': "replay_rel (snd (replay_commit f d limit)) (insert (unat d) S)"
      and l: "unat (rf_last (snd (replay_commit f d limit))) = max (unat (rf_last f)) (unat d)"
      using replay_commit_spec [OF R, of d limit] by simp_all
    show ?thesis
      unfolding replay_check_spec [OF R'] l
      by (rule window_rejects_mono [OF no]) (use R in \<open>simp add: replay_rel_def\<close>)
  next
    case False
    then show ?thesis using replay_commit_spec [OF R, of d limit] 4 by simp
  qed
qed

section \<open>Properties\<close>

text \<open>\<^bold>\<open>C12\<close>. No packet counter is ever accepted twice: over any sequence of counters
  presented to a fresh filter, in any order and with any repetitions, the accepted
  counters are pairwise distinct.\<close>

theorem replay_accepts_once:
  "distinct (fst (run_filter (\<lambda>f c. replay_validate f c limit) replay_reset cs))"
  unfolding replay_validate_def by (rule rp.accepted_distinct) (use replay_rel_reset in blast)

lemma run_filter_rel:
  assumes "replay_rel f S" "run_filter (\<lambda>f c. replay_commit f c limit) f cs = (acc, f')"
  shows "replay_rel f' (S \<union> unat ` set acc) \<and>
    unat (rf_last f') = Max (insert (unat (rf_last f)) (unat ` set acc))"
  using assms
proof (induction cs arbitrary: f S acc)
  case Nil
  then show ?case by simp
next
  case (Cons c cs)
  obtain ok f1 where cm: "replay_commit f c limit = (ok, f1)" by (cases "replay_commit f c limit")
  obtain acc1 where run: "run_filter (\<lambda>f c. replay_commit f c limit) f1 cs = (acc1, f')"
    and acc: "acc = (if ok then c # acc1 else acc1)"
    using Cons.prems(2) by (auto simp: cm split: prod.splits if_splits)
  show ?case
  proof (cases ok)
    case True
    then have R: "replay_rel f1 (insert (unat c) S)"
      and l: "unat (rf_last f1) = max (unat (rf_last f)) (unat c)"
      using replay_commit_spec [OF Cons.prems(1), of c limit] by (auto simp: cm split: if_splits)
    have "Max (insert (max (unat (rf_last f)) (unat c)) (unat ` set acc1))
        = Max (insert (unat (rf_last f)) (insert (unat c) (unat ` set acc1)))"
      by (cases "set acc1 = {}") (auto simp: max.assoc)
    then show ?thesis using Cons.IH [OF R run] by (simp add: acc True l)
  next
    case False
    then have "f1 = f"
      using replay_commit_spec [OF Cons.prems(1), of c limit] by (auto simp: cm split: if_splits)
    then show ?thesis using Cons.IH [OF _ run] Cons.prems(1) by (simp add: acc False)
  qed
qed

text \<open>\<^bold>\<open>C14\<close>. The ring implements the sliding window exactly: after any history, the
  filter accepts a counter precisely when it is below the limit and either exceeds
  every counter accepted so far or lies within 8128 of the greatest one and has not
  been accepted before.\<close>

theorem replay_window_exact:
  "fst (replay_validate (snd (run_filter (\<lambda>f c. replay_validate f c limit) replay_reset cs)) c limit)
   \<longleftrightarrow> window_accepts
         (Max (insert 0 (unat ` set (fst (run_filter (\<lambda>f c. replay_validate f c limit) replay_reset cs)))))
         (unat ` set (fst (run_filter (\<lambda>f c. replay_validate f c limit) replay_reset cs)))
         (unat c) (unat limit)"
proof -
  let ?r = "run_filter (\<lambda>f c. replay_commit f c limit) replay_reset cs"
  have R: "replay_rel (snd ?r) (unat ` set (fst ?r))"
    using run_filter_rel [OF replay_rel_reset, of limit cs] by (cases ?r) simp
  have l: "unat (rf_last (snd ?r)) = Max (insert 0 (unat ` set (fst ?r)))"
    using run_filter_rel [OF replay_rel_reset, of limit cs] by (cases ?r) (simp add: replay_reset_def)
  show ?thesis
    unfolding replay_validate_def rp.commit_check replay_check_spec [OF R] l ..
qed

end
