(* ===== verification/Tai64n.thy ===== *)
theory Tai64n
  imports Prelude
begin

text \<open>
  TAI64N timestamps (\<^verbatim>\<open>src/src/tai64n.c\<close>): twelve bytes, eight of big-endian TAI
  seconds and four of big-endian nanoseconds, compared with \<^verbatim>\<open>memcmp\<close>. The theory
  shows that the byte comparison is the chronological order, which the replay
  protection of handshake initiations depends on.
\<close>

definition TAI64N_SIZE :: nat where "TAI64N_SIZE = 12"

definition TAI64_BASE :: u64 where "TAI64_BASE = 0x400000000000000a"

datatype tai64n = Tai64n (ts_bytes: bytes)

text \<open>\<^verbatim>\<open>memcmp\<close> of the C library, as the sign of the first difference; the
  sources only call it on arrays of one length.\<close>

fun memcmp :: "bytes \<Rightarrow> bytes \<Rightarrow> int" where
  "memcmp [] [] = 0"
| "memcmp [] (b # bs) = -1"
| "memcmp (a # as) [] = 1"
| "memcmp (a # as) (b # bs) = (if a < b then -1 else if b < a then 1 else memcmp as bs)"

text \<open>\<open>tv_sec\<close> and \<open>tv_nsec\<close> are what \<^verbatim>\<open>clock_gettime(CLOCK_REALTIME)\<close> returned,
  after the casts to \<^verbatim>\<open>uint64_t\<close> and \<^verbatim>\<open>uint32_t\<close>.\<close>

definition tai64n_now :: "u64 \<Rightarrow> u32 \<Rightarrow> tai64n" where
  "tai64n_now tv_sec tv_nsec = Tai64n (be64 (TAI64_BASE + tv_sec) @ be32 tv_nsec)"

definition tai64n_after :: "tai64n \<Rightarrow> tai64n \<Rightarrow> bool" where
  "tai64n_after a b \<longleftrightarrow> memcmp (take TAI64N_SIZE (ts_bytes a)) (take TAI64N_SIZE (ts_bytes b)) > 0"

definition tai64n_zero :: tai64n where
  "tai64n_zero = Tai64n (zeros TAI64N_SIZE)"

definition tai64n_is_zero :: "tai64n \<Rightarrow> bool" where
  "tai64n_is_zero ts \<longleftrightarrow> memcmp (take TAI64N_SIZE (ts_bytes ts)) (zeros TAI64N_SIZE) = 0"

section \<open>memcmp is a linear order\<close>

lemma memcmp_refl [simp]: "memcmp xs xs = 0"
  by (induction xs) auto

lemma memcmp_zero_iff: "memcmp xs ys = 0 \<longleftrightarrow> xs = ys"
  by (induction xs ys rule: memcmp.induct) auto

lemma memcmp_antisym: "memcmp xs ys = - memcmp ys xs"
  by (induction xs ys rule: memcmp.induct) auto

lemma memcmp_trans: "memcmp xs ys \<le> 0 \<Longrightarrow> memcmp ys zs \<le> 0 \<Longrightarrow> memcmp xs zs \<le> 0"
proof (induction xs ys arbitrary: zs rule: memcmp.induct)
  case (4 a as b bs)
  then show ?case by (cases zs) (auto split: if_splits)
qed (auto split: if_splits; case_tac zs; auto split: if_splits)+

instantiation tai64n :: linorder
begin

definition less_eq_tai64n :: "tai64n \<Rightarrow> tai64n \<Rightarrow> bool" where
  "a \<le> b \<longleftrightarrow> memcmp (ts_bytes a) (ts_bytes b) \<le> 0"

definition less_tai64n :: "tai64n \<Rightarrow> tai64n \<Rightarrow> bool" where
  "a < b \<longleftrightarrow> memcmp (ts_bytes a) (ts_bytes b) < 0"

instance
proof
  fix a b c :: tai64n
  show "a < b \<longleftrightarrow> a \<le> b \<and> \<not> b \<le> a"
    using memcmp_antisym [of "ts_bytes a" "ts_bytes b"] by (auto simp: less_eq_tai64n_def less_tai64n_def)
  show "a \<le> a" by (simp add: less_eq_tai64n_def)
  show "a \<le> b \<Longrightarrow> b \<le> c \<Longrightarrow> a \<le> c" by (auto simp: less_eq_tai64n_def intro: memcmp_trans)
  show "a \<le> b \<Longrightarrow> b \<le> a \<Longrightarrow> a = b"
    using memcmp_antisym [of "ts_bytes a" "ts_bytes b"] memcmp_zero_iff [of "ts_bytes a" "ts_bytes b"]
    by (simp add: less_eq_tai64n_def tai64n.expand)
  show "a \<le> b \<or> b \<le> a"
    using memcmp_antisym [of "ts_bytes a" "ts_bytes b"] by (auto simp: less_eq_tai64n_def)
qed

end

definition ts_ok :: "tai64n \<Rightarrow> bool" where
  "ts_ok ts \<longleftrightarrow> length (ts_bytes ts) = TAI64N_SIZE"

lemma tai64n_after_less: "ts_ok a \<Longrightarrow> ts_ok b \<Longrightarrow> tai64n_after a b \<longleftrightarrow> b < a"
  using memcmp_antisym [of "ts_bytes a" "ts_bytes b"]
  by (simp add: tai64n_after_def less_tai64n_def ts_ok_def)

lemma ts_ok_now [simp]: "ts_ok (tai64n_now s n)"
  by (simp add: ts_ok_def tai64n_now_def TAI64N_SIZE_def)

lemma ts_ok_zero [simp]: "ts_ok tai64n_zero"
  by (simp add: ts_ok_def tai64n_zero_def)

section \<open>The byte order is the chronological order\<close>

fun be_val :: "bytes \<Rightarrow> nat" where
  "be_val [] = 0"
| "be_val (b # bs) = unat b * 256 ^ length bs + be_val bs"

lemma be_val_less: "be_val bs < 256 ^ length bs"
proof (induction bs)
  case Nil
  then show ?case by simp
next
  case (Cons b bs)
  have "unat b \<le> 255" using unat_lt2p [of b] by simp
  then have "unat b * 256 ^ length bs \<le> 255 * 256 ^ length bs" by (rule mult_right_mono) simp
  with Cons.IH show ?case unfolding be_val.simps length_Cons power_Suc by linarith
qed

lemma memcmp_be_val:
  "length xs = length ys \<Longrightarrow> memcmp xs ys > 0 \<longleftrightarrow> be_val ys < be_val xs"
proof (induction xs ys rule: memcmp.induct)
  case (4 a as b bs)
  have less: "unat x * 256 ^ length us + be_val us < unat y * 256 ^ length us + be_val vs"
    if "x < y" "length us = length vs" for x y and us vs :: bytes
  proof -
    have "Suc (unat x) \<le> unat y" using that(1) by (simp add: word_less_nat_alt)
    then have "Suc (unat x) * 256 ^ length us \<le> unat y * 256 ^ length us" by (rule mult_right_mono) simp
    with be_val_less [of us] show ?thesis by simp
  qed
  show ?case
  proof (cases "a = b")
    case True
    then show ?thesis using 4 by simp
  next
    case False
    then consider "a < b" | "b < a" by fastforce
    then show ?thesis using 4(2) less [of a b as bs] less [of b a bs as] by cases auto
  qed
qed auto

lemma be_val_rev_le_bytes: "be_val (rev (le_bytes n w)) = unat w mod 256 ^ n"
proof (induction n)
  case 0
  then show ?case by (simp add: le_bytes_def)
next
  case (Suc n)
  have p: "(256::nat) ^ k = 2 ^ (8 * k)" for k by (simp add: power_mult)
  have b: "unat (byte_of w n) = unat w div 256 ^ n mod 256"
  proof -
    have "unat (byte_of w n) = unat (drop_bit (8 * n) w) mod 2 ^ 8"
      unfolding byte_of_def by (simp only: unsigned_ucast_eq take_bit_eq_mod len_bit0 len_num1) simp
    also have "unat (drop_bit (8 * n) w) = unat w div 2 ^ (8 * n)"
      by (rule unat_drop_bit)
    finally show ?thesis unfolding p by simp
  qed
  have "be_val (rev (le_bytes (Suc n) w)) = unat (byte_of w n) * 256 ^ n + be_val (rev (le_bytes n w))"
    by (simp add: le_bytes_def)
  also have "\<dots> = unat w mod 256 ^ Suc n"
    unfolding b Suc using mod_mult2_eq [of "unat w" "256 ^ n" 256]
    by (simp only: power_Suc2) (simp add: mult.commute)
  finally show ?case .
qed

lemma be_val_append: "be_val (xs @ ys) = be_val xs * 256 ^ length ys + be_val ys"
  by (induction xs) (simp_all add: power_add algebra_simps)

lemma be_val_be:
  "be_val (be32 a) = unat a" "be_val (be64 b) = unat b"
  using unat_lt2p [of a] unat_lt2p [of b]
  by (simp_all add: be32_def be64_def le32_def le64_def be_val_rev_le_bytes)

lemma lex_compare:
  assumes "n < (k::nat)" "n' < k"
  shows "s' * k + n' < s * k + n \<longleftrightarrow> s' < s \<or> s' = s \<and> n' < n"
proof (cases s s' rule: linorder_cases)
  case less
  then have "Suc s * k \<le> s' * k" by (intro mult_right_mono) auto
  with assms less show ?thesis by auto
next
  case equal
  then show ?thesis by simp
next
  case greater
  then have "Suc s' * k \<le> s * k" by (intro mult_right_mono) auto
  with assms greater show ?thesis by auto
qed

text \<open>\<^bold>\<open>C22\<close>. The byte-wise comparison of two timestamps is the chronological order of
  the clock readings they encode, for every clock value before the TAI64 label
  space ends.\<close>

theorem tai64n_after_chronological:
  assumes "unat s < 2 ^ 62" "unat s' < 2 ^ 62"
  shows "tai64n_after (tai64n_now s n) (tai64n_now s' n') \<longleftrightarrow>
    unat s' < unat s \<or> unat s' = unat s \<and> unat n' < unat n"
proof -
  have base: "unat (TAI64_BASE + x) = unat TAI64_BASE + unat x" if "unat x < 2 ^ 62" for x
    using that by (simp add: TAI64_BASE_def unat_word_ariths)
  have n: "unat n < 256 ^ 4" "unat n' < 256 ^ 4" using unat_lt2p [of n] unat_lt2p [of n'] by simp_all
  have "tai64n_after (tai64n_now s n) (tai64n_now s' n') \<longleftrightarrow>
    be_val (be64 (TAI64_BASE + s') @ be32 n') < be_val (be64 (TAI64_BASE + s) @ be32 n)"
    by (simp add: tai64n_after_def tai64n_now_def TAI64N_SIZE_def memcmp_be_val)
  also have "\<dots> \<longleftrightarrow> unat s' < unat s \<or> unat s' = unat s \<and> unat n' < unat n"
    unfolding be_val_append be_val_be length_views base [OF assms(1)] base [OF assms(2)] lex_compare [OF n]
    by auto
  finally show ?thesis .
qed

theorem tai64n_after_chronological_witness:
  "unat (1700000000 :: u64) < 2 ^ 62 \<and>
   tai64n_after (tai64n_now 1700000001 5) (tai64n_now 1700000000 999999999)"
  using tai64n_after_chronological [of 1700000001 1700000000 5 999999999] by simp

end
