(* ===== verification/Allowedips.thy ===== *)
theory Allowedips
  imports Prelude "HOL-Library.Sublist"
begin

text \<open>
  The AllowedIPs table (\<^verbatim>\<open>src/src/allowedips.c\<close>): one radix trie per address family
  that maps CIDR prefixes to peers and answers longest-prefix queries. A trie is a
  datatype; its nodes carry the fields of \<^verbatim>\<open>allowedip_node_t\<close> (the \<^verbatim>\<open>parent\<close>
  pointer, which no code reads, is left out). \<^verbatim>\<open>calloc\<close> may fail: \<open>ok k\<close> says whether
  the \<open>k\<close>-th allocation of a call succeeds. The specification is the partial map
  from prefixes (bit lists) to peers that a trie represents.
\<close>

section \<open>The trie\<close>

record 'p allowedip_fields =
  aip_peer :: "'p option"
  aip_cidr :: u8
  aip_bit_at_a :: u8
  aip_bit_at_b :: u8
  aip_bits :: bytes
  aip_ip_version :: u8

datatype 'p allowedip_node =
    Null
  | Node (fields: "'p allowedip_fields") (child0: "'p allowedip_node") (child1: "'p allowedip_node")

record 'p allowedips =
  root4 :: "'p allowedip_node"
  root6 :: "'p allowedip_node"

definition allowedips_init :: "'p allowedips" where
  "allowedips_init = \<lparr>root4 = Null, root6 = Null\<rparr>"

text \<open>\<^verbatim>\<open>node_free\<close> returns every node to the allocator; what the program can see
  afterwards is that both roots are \<^verbatim>\<open>NULL\<close>.\<close>

definition allowedips_free :: "'p allowedips \<Rightarrow> 'p allowedips" where
  "allowedips_free table = table\<lparr>root4 := Null, root6 := Null\<rparr>"

definition bit_at :: "bytes \<Rightarrow> u8 \<Rightarrow> bool" where
  "bit_at bits cidr \<longleftrightarrow>
     drop_bit (unat (7 - (cidr AND 7))) (bits ! unat (drop_bit 3 cidr)) AND 1 = 1"

definition addrlen_of :: "u8 \<Rightarrow> nat" where
  "addrlen_of ip_version = (if ip_version = 4 then 4 else 16)"

definition node_new :: "bytes \<Rightarrow> u8 \<Rightarrow> u8 \<Rightarrow> 'p option \<Rightarrow> 'p allowedip_fields" where
  "node_new bits cidr ip_version peer =
     (let addrlen = addrlen_of ip_version;
          nbits = put 0 (take addrlen bits) (zeros 16);
          byte_cidr = unat (drop_bit 3 cidr);
          bit_cidr = cidr AND 7;
          nbits1 = (if bit_cidr \<noteq> 0
                    then nbits[byte_cidr := nbits ! byte_cidr AND push_bit (unat (8 - bit_cidr)) 0xff]
                    else nbits);
          start = byte_cidr + (if bit_cidr \<noteq> 0 then 1 else 0)
      in \<lparr>aip_peer = peer, aip_cidr = cidr, aip_bit_at_a = drop_bit 3 cidr,
          aip_bit_at_b = 7 - (cidr AND 7),
          aip_bits = (if unat cidr < addrlen * 8
                      then fold (\<lambda>i b. b[i := 0]) [start..<addrlen] nbits1 else nbits),
          aip_ip_version = ip_version\<rparr>)"

function common_bits_from :: "bytes \<Rightarrow> bytes \<Rightarrow> u8 \<Rightarrow> u8 \<Rightarrow> u8" where
  "common_bits_from a b max_cidr i =
     (if i < max_cidr then
        let byt = unat (drop_bit 3 i); bt = unat (7 - (i AND 7))
        in if drop_bit bt (a ! byt) AND 1 \<noteq> drop_bit bt (b ! byt) AND 1 then i
           else common_bits_from a b max_cidr (i + 1)
      else i)"
  by pat_completeness auto
termination
proof (relation "measure (\<lambda>(a, b, m, i). unat m - unat i)", simp, clarsimp)
  fix m i :: u8
  assume "i < m"
  moreover from this have "unat (i + 1) = Suc (unat i)"
    using unat_lt2p [of m] by (subst unat_word_ariths) (simp add: word_less_nat_alt)
  ultimately show "unat m - unat (i + 1) < unat m - unat i"
    by (simp add: word_less_nat_alt)
qed

declare common_bits_from.simps [simp del]

definition common_bits :: "bytes \<Rightarrow> bytes \<Rightarrow> u8 \<Rightarrow> u8" where
  "common_bits a b max_cidr = common_bits_from a b max_cidr 0"

text \<open>The loop of \<^verbatim>\<open>insert\<close> follows the child pointer \<^verbatim>\<open>cur\<close>; here it is the
  recursion. The result is the returned int and the tree \<^verbatim>\<open>*root\<close> afterwards.\<close>

fun insert_trie :: "(nat \<Rightarrow> bool) \<Rightarrow> 'p allowedip_node \<Rightarrow> bytes \<Rightarrow> u8 \<Rightarrow> u8 \<Rightarrow> 'p
    \<Rightarrow> int \<times> 'p allowedip_node" where
  "insert_trie ok Null bits cidr ip_version peer =
     (if ok 0 then (0, Node (node_new bits cidr ip_version (Some peer)) Null Null) else (-1, Null))"
| "insert_trie ok (Node d l r) bits cidr ip_version peer =
     (let common = common_bits (aip_bits d) bits (if aip_cidr d < cidr then aip_cidr d else cidr)
      in if common < aip_cidr d then
           (if \<not> ok 0 then (-1, Node d l r)
            else
              let newnode = node_new bits common ip_version None;
                  b = bit_at (aip_bits d) common;
                  c0 = (if b then Null else Node d l r);
                  c1 = (if b then Node d l r else Null)
              in if common = cidr then (0, Node (newnode\<lparr>aip_peer := Some peer\<rparr>) c0 c1)
                 else if \<not> ok 1 then (-1, Node newnode c0 c1)
                 else
                   let leaf = Node (node_new bits cidr ip_version (Some peer)) Null Null
                   in if bit_at bits common then (0, Node newnode c0 leaf)
                      else (0, Node newnode leaf c1))
         else if common = cidr then
           (if aip_cidr d = cidr then (0, Node (d\<lparr>aip_peer := Some peer\<rparr>) l r)
            else if \<not> ok 0 then (-1, Node d l r)
            else
              let newnode = node_new bits cidr ip_version (Some peer);
                  b = bit_at (aip_bits d) cidr
              in (0, Node newnode (if b then Null else Node d l r) (if b then Node d l r else Null)))
         else if bit_at bits (aip_cidr d)
         then (case insert_trie ok r bits cidr ip_version peer of (ret, r') \<Rightarrow> (ret, Node d l r'))
         else (case insert_trie ok l bits cidr ip_version peer of (ret, l') \<Rightarrow> (ret, Node d l' r)))"

definition allowedips_insert_v4 :: "(nat \<Rightarrow> bool) \<Rightarrow> 'p allowedips \<Rightarrow> bytes \<Rightarrow> u8 \<Rightarrow> 'p \<Rightarrow> int \<times> 'p allowedips" where
  "allowedips_insert_v4 ok table addr cidr peer =
     (if cidr > 32 then (-1, table)
      else case insert_trie ok (root4 table) addr cidr 4 peer of (ret, t) \<Rightarrow> (ret, table\<lparr>root4 := t\<rparr>))"

definition allowedips_insert_v6 :: "(nat \<Rightarrow> bool) \<Rightarrow> 'p allowedips \<Rightarrow> bytes \<Rightarrow> u8 \<Rightarrow> 'p \<Rightarrow> int \<times> 'p allowedips" where
  "allowedips_insert_v6 ok table addr cidr peer =
     (if cidr > 128 then (-1, table)
      else case insert_trie ok (root6 table) addr cidr 6 peer of (ret, t) \<Rightarrow> (ret, table\<lparr>root6 := t\<rparr>))"

definition prefix_match :: "'p allowedip_fields \<Rightarrow> bytes \<Rightarrow> bool" where
  "prefix_match d bits =
     (let byt = unat (drop_bit 3 (aip_cidr d)); bt = aip_cidr d AND 7
      in list_all (\<lambda>i. aip_bits d ! i = bits ! i) [0..<byt] \<and>
         (bt \<noteq> 0 \<longrightarrow>
            (let msk = push_bit (unat (8 - bt)) 0xff
             in aip_bits d ! byt AND msk = bits ! byt AND msk)))"

fun lookup_trie :: "'p allowedip_node \<Rightarrow> bytes \<Rightarrow> u8 \<Rightarrow> 'p option \<Rightarrow> 'p option" where
  "lookup_trie Null bits maxbits best = best"
| "lookup_trie (Node d l r) bits maxbits best =
     (if aip_cidr d > maxbits then best
      else if \<not> prefix_match d bits then best
      else
        let best' = (if aip_peer d \<noteq> None then aip_peer d else best)
        in if aip_cidr d = maxbits then best'
           else if bit_at bits (aip_cidr d) then lookup_trie r bits maxbits best'
           else lookup_trie l bits maxbits best')"

definition allowedips_lookup_v4 :: "'p allowedips \<Rightarrow> bytes \<Rightarrow> 'p option" where
  "allowedips_lookup_v4 table addr = lookup_trie (root4 table) addr 32 None"

definition allowedips_lookup_v6 :: "'p allowedips \<Rightarrow> bytes \<Rightarrow> 'p option" where
  "allowedips_lookup_v6 table addr = lookup_trie (root6 table) addr 128 None"

primrec remove_peer_from_tree :: "'p \<Rightarrow> 'p allowedip_node \<Rightarrow> 'p allowedip_node" where
  "remove_peer_from_tree peer Null = Null"
| "remove_peer_from_tree peer (Node d l r) =
     Node (if aip_peer d = Some peer then d\<lparr>aip_peer := None\<rparr> else d)
       (remove_peer_from_tree peer l) (remove_peer_from_tree peer r)"

definition allowedips_remove_peer :: "'p allowedips \<Rightarrow> 'p \<Rightarrow> 'p allowedips" where
  "allowedips_remove_peer table peer =
     table\<lparr>root4 := remove_peer_from_tree peer (root4 table),
           root6 := remove_peer_from_tree peer (root6 table)\<rparr>"

text \<open>The nodes \<^verbatim>\<open>walk_tree\<close> passes to its callback, in order.\<close>

primrec walk_tree :: "'p allowedip_node \<Rightarrow> 'p allowedip_fields list" where
  "walk_tree Null = []"
| "walk_tree (Node d l r) = (if aip_peer d \<noteq> None then [d] else []) @ walk_tree l @ walk_tree r"

definition allowedips_walk :: "'p allowedips \<Rightarrow> 'p allowedip_fields list" where
  "allowedips_walk table = walk_tree (root4 table) @ walk_tree (root6 table)"

section \<open>Bits of an address\<close>

definition abit :: "bytes \<Rightarrow> nat \<Rightarrow> bool" where
  "abit bs i = bit (bs ! (i div 8)) (7 - i mod 8)"

definition addr_bits :: "nat \<Rightarrow> bytes \<Rightarrow> bool list" where
  "addr_bits n bs = map (abit bs) [0..<n]"

lemma length_addr_bits [simp]: "length (addr_bits n bs) = n"
  by (simp add: addr_bits_def)

lemma nth_addr_bits [simp]: "i < n \<Longrightarrow> addr_bits n bs ! i = abit bs i"
  by (simp add: addr_bits_def)

lemma take_addr_bits [simp]: "take k (addr_bits n bs) = addr_bits (min k n) bs"
  by (rule nth_equalityI) auto

lemma addr_bits_Suc: "addr_bits (Suc n) bs = addr_bits n bs @ [abit bs n]"
  by (simp add: addr_bits_def)

lemma addr_bits_eq_iff: "addr_bits n a = addr_bits n b \<longleftrightarrow> (\<forall>i<n. abit a i = abit b i)"
  by (auto simp: addr_bits_def)

lemma prefix_iff_take: "prefix xs ys \<longleftrightarrow> length xs \<le> length ys \<and> take (length xs) ys = xs"
  by (metis append_eq_conv_conj append_take_drop_id prefix_def prefix_length_le)

lemma prefix_addr_bits: "prefix (addr_bits m a) (addr_bits n b) \<longleftrightarrow> m \<le> n \<and> addr_bits m a = addr_bits m b"
  by (auto simp: prefix_iff_take min_def)

lemma unat_u8_shift3: "unat (drop_bit 3 (c::u8)) = unat c div 8"
  by (simp add: unat_drop_bit)

lemma unat_u8_and7: "unat ((c::u8) AND 7) = unat c mod 8"
  using unat_take_bit [of 3 c] by (simp add: take_bit_eq_mask mask_eq_exp_minus_1)

lemma unat_7_minus: "unat (7 - ((c::u8) AND 7)) = 7 - unat c mod 8"
proof -
  have "c AND 7 \<le> 7" by (simp add: word_le_nat_alt unat_u8_and7)
  then show ?thesis by (simp add: unat_sub_le unat_u8_and7)
qed

lemma unat_8_minus: "unat (8 - ((c::u8) AND 7)) = 8 - unat c mod 8"
proof -
  have "c AND 7 \<le> 8" by (simp add: word_le_nat_alt unat_u8_and7)
  then show ?thesis by (simp add: unat_sub_le unat_u8_and7)
qed

lemma drop_bit_and_1: "drop_bit n (w::u8) AND 1 = of_bool (bit w n)"
  by (rule bit_word_eqI) (auto simp: bit_simps bit_1_iff bit_of_bool_iff)

lemma bit_at_abit: "bit_at bs c = abit bs (unat c)"
  by (simp add: bit_at_def abit_def drop_bit_and_1 unat_u8_shift3 unat_7_minus)

lemma common_bits_from_spec:
  assumes "unat i \<le> unat m"
  shows "unat i \<le> unat (common_bits_from a b m i) \<and> unat (common_bits_from a b m i) \<le> unat m \<and>
    (\<forall>k. unat i \<le> k \<and> k < unat (common_bits_from a b m i) \<longrightarrow> abit a k = abit b k) \<and>
    (unat (common_bits_from a b m i) < unat m \<longrightarrow>
       abit a (unat (common_bits_from a b m i)) \<noteq> abit b (unat (common_bits_from a b m i)))"
  using assms
proof (induction a b m i rule: common_bits_from.induct)
  case (1 a b m i)
  have cond: "(drop_bit (unat (7 - (i AND 7))) (a ! unat (drop_bit 3 i)) AND 1 \<noteq>
      drop_bit (unat (7 - (i AND 7))) (b ! unat (drop_bit 3 i)) AND 1) \<longleftrightarrow> abit a (unat i) \<noteq> abit b (unat i)"
    by (simp add: drop_bit_and_1 abit_def unat_u8_shift3 unat_7_minus)
  show ?case
  proof (cases "i < m \<and> abit a (unat i) = abit b (unat i)")
    case True
    then have i1: "unat (i + 1) = Suc (unat i)"
      using unat_lt2p [of m] by (subst unat_word_ariths) (simp add: word_less_nat_alt)
    have eq: "common_bits_from a b m i = common_bits_from a b m (i + 1)"
      using True by (subst common_bits_from.simps) (simp add: Let_def cond)
    have "unat (i + 1) \<le> unat m" using True by (simp add: i1 word_less_nat_alt)
    from "1.IH" [OF _ refl refl _ this] True cond have IH:
      "unat (i + 1) \<le> unat (common_bits_from a b m (i + 1)) \<and> unat (common_bits_from a b m (i + 1)) \<le> unat m \<and>
      (\<forall>k. unat (i + 1) \<le> k \<and> k < unat (common_bits_from a b m (i + 1)) \<longrightarrow> abit a k = abit b k) \<and>
      (unat (common_bits_from a b m (i + 1)) < unat m \<longrightarrow>
        abit a (unat (common_bits_from a b m (i + 1))) \<noteq> abit b (unat (common_bits_from a b m (i + 1))))"
      by simp
    have "abit a k = abit b k" if "unat i \<le> k" "k < unat (common_bits_from a b m (i + 1))" for k
      using IH True that unfolding i1 by (cases "k = unat i") auto
    then show ?thesis
      unfolding eq using IH unfolding i1 by (meson Suc_leD)
  next
    case False
    then have eq: "common_bits_from a b m i = i"
      by (subst common_bits_from.simps) (auto simp: Let_def cond)
    show ?thesis
      unfolding eq using "1.prems" False by (auto simp: word_less_nat_alt)
  qed
qed

lemma common_bits_spec:
  "unat (common_bits a b m) \<le> unat m"
  "k < unat (common_bits a b m) \<Longrightarrow> abit a k = abit b k"
  "unat (common_bits a b m) < unat m \<Longrightarrow>
     abit a (unat (common_bits a b m)) \<noteq> abit b (unat (common_bits a b m))"
  using common_bits_from_spec [of 0 m a b] by (auto simp: common_bits_def)

lemma length_fold_zero [simp]: "length (fold (\<lambda>i b. b[i := 0]) [s..<e] xs) = length xs"
  by (induction e) auto

lemma fold_zero_nth:
  "k < length xs \<Longrightarrow> fold (\<lambda>i b. b[i := 0]) [s..<e] xs ! k = (if s \<le> k \<and> k < e then 0 else xs ! k)"
proof (induction e)
  case 0
  then show ?case by simp
next
  case (Suc e)
  then show ?case by (cases "k = e") auto
qed

lemma bit_mask_push:
  assumes "k < 8" "n < 8" "0 < n"
  shows "bit (push_bit (8 - n) 0xff :: u8) (7 - k) \<longleftrightarrow> k < n"
proof -
  have "(0xff :: u8) = - 1" by simp
  then show ?thesis using assms by (auto simp only: bit_push_bit_iff bit_minus_1_iff) (auto simp: possible_bit_def)
qed

lemma node_new_sel [simp]:
  "aip_peer (node_new bits cidr v p) = p" "aip_cidr (node_new bits cidr v p) = cidr"
  "aip_ip_version (node_new bits cidr v p) = v"
  by (simp_all add: node_new_def Let_def)

lemma length_node_new [simp]: "length bits = addrlen_of v \<Longrightarrow> length (aip_bits (node_new bits cidr v p)) = 16"
  by (auto simp: node_new_def Let_def addrlen_of_def)

lemma node_new_nth:
  assumes len: "length bits = addrlen_of v" and j: "j < addrlen_of v" and c: "unat cidr < addrlen_of v * 8"
  shows "aip_bits (node_new bits cidr v p) ! j =
    (if j < unat cidr div 8 then bits ! j
     else if j = unat cidr div 8 \<and> unat cidr mod 8 \<noteq> 0
     then bits ! j AND push_bit (8 - unat cidr mod 8) 0xff else 0)"
proof -
  let ?n = "put 0 (take (addrlen_of v) bits) (zeros 16)"
  have A: "addrlen_of v \<le> 16" by (simp add: addrlen_of_def)
  have n: "?n ! j = bits ! j" using len j by (simp add: put_def nth_append)
  have ln: "length ?n = 16" using len A by simp
  then have jn: "j < length ?n" using j A by simp
  have bz: "cidr AND 7 = 0 \<longleftrightarrow> unat cidr mod 8 = 0" by (metis unat_u8_and7 unat_eq_zero)
  show ?thesis
  proof (cases "unat cidr mod 8 = 0")
    case True
    then show ?thesis
      using jn j c n by (simp add: node_new_def Let_def bz unat_u8_shift3 fold_zero_nth)
  next
    case False
    let ?m = "?n[unat cidr div 8 := ?n ! (unat cidr div 8) AND push_bit (8 - unat cidr mod 8) 0xff]"
    have m: "?m ! j = (if j = unat cidr div 8 then bits ! j AND push_bit (8 - unat cidr mod 8) 0xff else bits ! j)"
      using n jn by (cases "j = unat cidr div 8") auto
    have "aip_bits (node_new bits cidr v p) ! j
        = fold (\<lambda>i b. b[i := 0]) [Suc (unat cidr div 8)..<addrlen_of v] ?m ! j"
      using False c by (simp add: node_new_def Let_def bz unat_u8_shift3 unat_8_minus)
    also have "\<dots> = (if Suc (unat cidr div 8) \<le> j \<and> j < addrlen_of v then 0 else ?m ! j)"
      by (rule fold_zero_nth) (use jn in simp)
    finally show ?thesis using m j False by auto
  qed
qed

text \<open>A new node keeps the address bits above the prefix length and clears the rest.\<close>

lemma abit_node_new:
  assumes len: "length bits = addrlen_of v" and i: "i < 8 * addrlen_of v" and c: "unat cidr \<le> 8 * addrlen_of v"
  shows "abit (aip_bits (node_new bits cidr v p)) i \<longleftrightarrow> i < unat cidr \<and> abit bits i"
proof (cases "unat cidr < addrlen_of v * 8")
  case False
  have "put 0 (take (addrlen_of v) bits) (zeros 16) ! (i div 8) = bits ! (i div 8)"
    using len i by (simp add: put_def nth_append div_less_iff_less_mult)
  then show ?thesis using False c i by (simp add: node_new_def Let_def abit_def)
next
  case True
  let ?by = "unat cidr div 8" and ?bt = "unat cidr mod 8"
  have j: "i div 8 < addrlen_of v" using i by (simp add: div_less_iff_less_mult)
  have less: "i < unat cidr \<longleftrightarrow> i div 8 < ?by \<or> i div 8 = ?by \<and> i mod 8 < ?bt" by (rule lex_div_less)
  have m: "bit (push_bit (8 - ?bt) 0xff :: u8) (7 - i mod 8) \<longleftrightarrow> i mod 8 < ?bt" if "?bt \<noteq> 0"
    using that by (intro bit_mask_push) auto
  show ?thesis
    unfolding abit_def node_new_nth [OF len j True] less
    using m by (cases "?bt = 0") (auto simp: bit_and_iff)
qed

lemma addr_bits_node_new:
  assumes "length bits = addrlen_of v" "unat cidr \<le> 8 * addrlen_of v" "n \<le> unat cidr"
  shows "addr_bits n (aip_bits (node_new bits cidr v p)) = addr_bits n bits"
  unfolding addr_bits_eq_iff
proof (intro allI impI)
  fix i assume "i < n"
  with assms(2,3) have "i < 8 * addrlen_of v" "i < unat cidr" by linarith+
  then show "abit (aip_bits (node_new bits cidr v p)) i = abit bits i"
    by (simp add: abit_node_new [OF assms(1) _ assms(2)])
qed

text \<open>The byte-wise comparison with a mask in \<^verbatim>\<open>lookup\<close> compares exactly the prefix.\<close>

lemma byte_eq_iff: "(x::u8) = y \<longleftrightarrow> (\<forall>k<8. bit x (7 - k) = bit y (7 - k))"
proof
  assume R: "\<forall>k<8. bit x (7 - k) = bit y (7 - k)"
  show "x = y"
  proof (rule bit_word_eqI)
    fix n assume "n < LENGTH(8)"
    then have "7 - (7 - n) = n" "7 - n < 8" by auto
    with R show "bit x n = bit y n" by metis
  qed
qed simp

lemma masked_eq_iff:
  assumes "0 < n" "n < 8"
  shows "(x::u8) AND push_bit (8 - n) 0xff = y AND push_bit (8 - n) 0xff \<longleftrightarrow>
    (\<forall>k<n. bit x (7 - k) = bit y (7 - k))"
  using assms by (subst byte_eq_iff) (simp add: bit_and_iff bit_mask_push, meson order.strict_trans)

lemma prefix_match_spec:
  "prefix_match d bits \<longleftrightarrow> addr_bits (unat (aip_cidr d)) (aip_bits d) = addr_bits (unat (aip_cidr d)) bits"
proof -
  let ?c = "unat (aip_cidr d)"
  have bz: "aip_cidr d AND 7 = 0 \<longleftrightarrow> ?c mod 8 = 0" by (metis unat_u8_and7 unat_eq_zero)
  have whole: "(\<forall>j<m. x ! j = y ! j) \<longleftrightarrow> (\<forall>i<8 * m. abit x i = abit y i)" for x y :: bytes and m
  proof
    assume L: "\<forall>i<8 * m. abit x i = abit y i"
    show "\<forall>j<m. x ! j = y ! j"
    proof (intro allI impI)
      fix j assume j: "j < m"
      have "bit (x ! j) (7 - k) = bit (y ! j) (7 - k)" if "k < 8" for k
        using L [rule_format, of "8 * j + k"] that j by (simp add: abit_def)
      then show "x ! j = y ! j" by (simp add: byte_eq_iff)
    qed
  qed (auto simp: abit_def div_less_iff_less_mult)
  have part: "(\<forall>i<?c. P i) \<longleftrightarrow> (\<forall>i<8 * (?c div 8). P i) \<and> (\<forall>k<?c mod 8. P (8 * (?c div 8) + k))" for P
  proof
    assume R: "(\<forall>i<8 * (?c div 8). P i) \<and> (\<forall>k<?c mod 8. P (8 * (?c div 8) + k))"
    show "\<forall>i<?c. P i"
    proof (intro allI impI)
      fix i assume i: "i < ?c"
      show "P i"
      proof (cases "i < 8 * (?c div 8)")
        case False
        define k where "k = i - 8 * (?c div 8)"
        have "?c = 8 * (?c div 8) + ?c mod 8" by simp
        with i False have "k < ?c mod 8" unfolding k_def by linarith
        moreover have "i = 8 * (?c div 8) + k" using False by (simp add: k_def)
        ultimately show ?thesis using R by metis
      qed (use R in blast)
    qed
  next
    assume L: "\<forall>i<?c. P i"
    have "?c = 8 * (?c div 8) + ?c mod 8" by simp
    then have "8 * (?c div 8) \<le> ?c" "k < ?c mod 8 \<Longrightarrow> 8 * (?c div 8) + k < ?c" for k by linarith+
    with L show "(\<forall>i<8 * (?c div 8). P i) \<and> (\<forall>k<?c mod 8. P (8 * (?c div 8) + k))"
      by (meson order.strict_trans2)
  qed
  have tail: "(\<forall>k<?c mod 8. abit (aip_bits d) (8 * (?c div 8) + k) = abit bits (8 * (?c div 8) + k)) \<longleftrightarrow>
     (\<forall>k<?c mod 8. bit (aip_bits d ! (?c div 8)) (7 - k) = bit (bits ! (?c div 8)) (7 - k))"
    by (simp add: abit_def)
  show ?thesis
    unfolding addr_bits_eq_iff part whole [symmetric] tail
    by (cases "?c mod 8 = 0")
      (auto simp: prefix_match_def Let_def list_all_iff bz unat_u8_shift3 unat_8_minus masked_eq_iff)
qed

section \<open>The routes a trie represents\<close>

abbreviation node_prefix :: "'p allowedip_fields \<Rightarrow> bool list" where
  "node_prefix d \<equiv> addr_bits (unat (aip_cidr d)) (aip_bits d)"

text \<open>Every node's prefix extends its parent's prefix and the branch taken there.\<close>

primrec trie_inv :: "nat \<Rightarrow> bool list \<Rightarrow> 'p allowedip_node \<Rightarrow> bool" where
  "trie_inv n pre Null = True"
| "trie_inv n pre (Node d l r) \<longleftrightarrow>
     prefix pre (node_prefix d) \<and> unat (aip_cidr d) \<le> n \<and>
     trie_inv n (node_prefix d @ [False]) l \<and> trie_inv n (node_prefix d @ [True]) r"

primrec routes :: "'p allowedip_node \<Rightarrow> bool list \<Rightarrow> 'p option" where
  "routes Null q = None"
| "routes (Node d l r) q =
     (if q = node_prefix d then aip_peer d
      else if prefix (node_prefix d @ [False]) q then routes l q
      else if prefix (node_prefix d @ [True]) q then routes r q
      else None)"

text \<open>Longest-prefix match: the entry for the longest prefix of \<open>a\<close> of at most \<open>k\<close> bits.\<close>

fun lpm_upto :: "(bool list \<Rightarrow> 'p option) \<Rightarrow> bool list \<Rightarrow> nat \<Rightarrow> 'p option" where
  "lpm_upto m a 0 = m []"
| "lpm_upto m a (Suc k) = (case m (take (Suc k) a) of Some p \<Rightarrow> Some p | None \<Rightarrow> lpm_upto m a k)"

definition lpm :: "(bool list \<Rightarrow> 'p option) \<Rightarrow> bool list \<Rightarrow> 'p option" where
  "lpm m a = lpm_upto m a (length a)"

lemma routes_prefix: "trie_inv n pre t \<Longrightarrow> routes t q \<noteq> None \<Longrightarrow> prefix pre q \<and> length q \<le> n"
proof (induction t arbitrary: pre)
  case Null
  then show ?case by simp
next
  case (Node d l r)
  have "prefix (node_prefix d @ [b]) q \<Longrightarrow> prefix pre q" for b
    using Node.prems(1) by (metis append_prefixD prefix_order.order_trans trie_inv.simps(2))
  then show ?case using Node by (auto split: if_splits)
qed

lemma lpm_upto_None: "(\<And>j. j \<le> k \<Longrightarrow> m (take j a) = None) \<Longrightarrow> lpm_upto m a k = None"
  by (induction k) (use take_0 in \<open>fastforce+\<close>)

lemma lpm_upto_cong:
  "(\<And>j. j \<le> k \<Longrightarrow> m (take j a) = m' (take j a)) \<Longrightarrow> lpm_upto m a k = lpm_upto m' a k"
  by (induction k) (use take_0 in \<open>fastforce split: option.splits\<close>)+

lemma lpm_upto_split:
  assumes "\<And>i. j < i \<Longrightarrow> i \<le> k \<Longrightarrow> m (take i a) = None" "j \<le> k"
  shows "lpm_upto m a k = lpm_upto m a j"
  using assms
proof (induction k)
  case (Suc k)
  then show ?case by (cases "j = Suc k") auto
qed simp

text \<open>Splitting the match at a node: either a longer entry below it, or the best at or above it.\<close>

lemma lpm_upto_below:
  "j \<le> k \<Longrightarrow> lpm_upto m a k =
     (case lpm_upto (\<lambda>q. if length q \<le> j then None else m q) a k of Some p \<Rightarrow> Some p | None \<Rightarrow> lpm_upto m a j)"
  if "k \<le> length a"
  using that
proof (induction k)
  case 0
  then show ?case by simp
next
  case (Suc k)
  show ?case
  proof (cases "j = Suc k")
    case True
    have "lpm_upto (\<lambda>q. if length q \<le> j then None else m q) a (Suc k) = None"
      using True by (intro lpm_upto_None) auto
    then show ?thesis using True by simp
  next
    case False
    then show ?thesis using Suc by (simp split: option.splits)
  qed
qed

section \<open>Lookup is longest-prefix match\<close>

lemma prefix_snoc_take: "c < length a \<Longrightarrow> j \<le> length a \<Longrightarrow>
    prefix (take c a @ [b]) (take j a) \<longleftrightarrow> c < j \<and> a ! c = b"
  by (auto simp: prefix_iff_take min_def take_Suc_conv_app_nth Suc_le_eq)

lemma routes_Node_take:
  assumes p: "node_prefix d = take c a" and c: "c = unat (aip_cidr d)" "c \<le> length a" and j: "j \<le> length a"
  shows "routes (Node d l r) (take j a) =
    (if j < c then None else if j = c then aip_peer d
     else if a ! c then routes r (take j a) else routes l (take j a))"
proof (cases "c < length a")
  case True
  have "take j a = take c a \<longleftrightarrow> j = c" using j c(2) by (metis length_take min.absorb2)
  then show ?thesis
    using True j by (simp add: p prefix_snoc_take)
next
  case False
  then have "c = length a" using c by simp
  moreover have "\<not> prefix (take c a @ [b]) (take j a)" for b
    using \<open>c = length a\<close> j by (auto dest!: prefix_length_le)
  moreover have "take j a = take c a \<longleftrightarrow> j = c" using j c(2) by (metis length_take min.absorb2)
  ultimately show ?thesis using j by (simp add: p)
qed

lemma lookup_trie_spec:
  assumes "trie_inv n pre t" "unat maxbits = n"
  shows "lookup_trie t bits maxbits best =
    (case lpm_upto (routes t) (addr_bits n bits) n of Some p \<Rightarrow> Some p | None \<Rightarrow> best)"
  using assms(1)
proof (induction t arbitrary: pre best)
  case Null
  then show ?case by (simp add: lpm_upto_None)
next
  case (Node d l r)
  define a where "a = addr_bits n bits"
  define c where "c = unat (aip_cidr d)"
  have cn: "c \<le> n" "\<not> aip_cidr d > maxbits"
    using Node.prems assms(2) by (simp_all add: c_def word_less_nat_alt)
  have la: "length a = n" by (simp add: a_def)
  show ?case
  proof (cases "prefix_match d bits")
    case False
    have "routes (Node d l r) (take j a) = None" if "j \<le> n" for j
    proof -
      have "\<not> prefix (node_prefix d) (take j a)"
        using False that by (auto simp: prefix_match_spec a_def prefix_addr_bits)
      then show ?thesis by (auto dest: append_prefixD)
    qed
    then have "lpm_upto (routes (Node d l r)) a n = None" by (rule lpm_upto_None)
    then show ?thesis using False cn(2) by (simp add: a_def del: routes.simps)
  next
    case True
    then have p: "node_prefix d = take c a"
      using cn(1) by (simp add: prefix_match_spec a_def c_def)
    note R = routes_Node_take [OF p c_def, unfolded la, OF cn(1)]
    have atc: "lpm_upto (routes (Node d l r)) a c = aip_peer d"
    proof (cases c)
      case 0
      then show ?thesis using R [of 0 l r] by simp
    next
      case (Suc c')
      have "lpm_upto (routes (Node d l r)) a c' = None"
        using R Suc cn(1) by (intro lpm_upto_None) simp
      then show ?thesis using Suc R [of "Suc c'" l r] cn(1) by (simp split: option.split)
    qed
    define best' where "best' = (if aip_peer d \<noteq> None then aip_peer d else best)"
    show ?thesis
    proof (cases "c = n")
      case True
      then have "aip_cidr d = maxbits" using assms(2) by (simp add: c_def word_unat_eq_iff)
      then show ?thesis
        using \<open>prefix_match d bits\<close> atc True
        by (auto simp: a_def simp del: routes.simps split: option.splits)
    next
      case False
      then have ne: "aip_cidr d \<noteq> maxbits" and cl: "c < n" using assms(2) cn(1) by (auto simp: c_def)
      define ch where "ch = (if a ! c then r else l)"
      have inv: "trie_inv n (take c a @ [a ! c]) ch" using Node.prems p by (simp add: ch_def)
      have "bit_at bits (aip_cidr d) = a ! c" using cl by (simp add: bit_at_abit a_def c_def)
      then have L: "lookup_trie (Node d l r) bits maxbits best = lookup_trie ch bits maxbits best'"
        using ne cn(2) \<open>prefix_match d bits\<close> by (simp add: Let_def ch_def best'_def)
      have low: "routes ch (take j a) = None" if "j \<le> c" for j
        using routes_prefix [OF inv, of "take j a"] that cl la by (fastforce dest: prefix_length_le)
      have "lpm_upto (\<lambda>q. if length q \<le> c then None else routes (Node d l r) q) a n = lpm_upto (routes ch) a n"
        using R low la by (intro lpm_upto_cong) (auto simp: ch_def simp del: routes.simps)
      then have "lpm_upto (routes (Node d l r)) a n =
          (case lpm_upto (routes ch) a n of Some p \<Rightarrow> Some p | None \<Rightarrow> aip_peer d)"
        using lpm_upto_below [of n a c "routes (Node d l r)"] cn(1) la unfolding atc by (simp del: routes.simps)
      moreover have "lookup_trie ch bits maxbits best' =
          (case lpm_upto (routes ch) a n of Some p \<Rightarrow> Some p | None \<Rightarrow> best')"
        using Node.IH(1) [of "take c a @ [a ! c]" best'] Node.IH(2) [of "take c a @ [a ! c]" best'] inv
        by (cases "a ! c") (simp_all add: ch_def a_def)
      ultimately show ?thesis
        unfolding L a_def [symmetric] by (auto simp: best'_def split: option.splits simp del: routes.simps)
    qed
  qed
qed

section \<open>Insertion updates one route\<close>

lemma routes_fork:
  assumes e: "node_prefix e = s" and t: "trie_inv n (s @ [b]) t" and lf: "trie_inv n (s @ [\<not> b]) lf"
  shows "routes (Node e (if b then lf else t) (if b then t else lf)) x =
    (if x = s then aip_peer e else case routes t x of Some p \<Rightarrow> Some p | None \<Rightarrow> routes lf x)"
proof -
  have nb: "\<not> (prefix (s @ [True]) x \<and> prefix (s @ [False]) x)"
    by (auto simp: prefix_def)
  have "routes t x = None" if "\<not> prefix (s @ [b]) x" using routes_prefix [OF t] that by blast
  moreover have "routes lf x = None" if "\<not> prefix (s @ [\<not> b]) x" using routes_prefix [OF lf] that by blast
  ultimately show ?thesis
    using nb unfolding routes.simps e by (cases b) (auto split: option.splits)
qed

lemma trie_inv_fork:
  assumes "node_prefix e = s" "unat (aip_cidr e) \<le> n" "prefix pre s"
    "trie_inv n (s @ [b]) t" "trie_inv n (s @ [\<not> b]) lf"
  shows "trie_inv n pre (Node e (if b then lf else t) (if b then t else lf))"
  using assms by (cases b) auto

lemma insert_trie_spec:
  assumes inv: "trie_inv n pre t" and pre: "prefix pre (addr_bits (unat cidr) bits)"
    and cn: "unat cidr \<le> n" and n: "n = 8 * addrlen_of v" and len: "length bits = addrlen_of v"
    and ins: "insert_trie ok t bits cidr v peer = (ret, t')"
  shows "trie_inv n pre t' \<and>
    (if ret = 0 then routes t' = (routes t)(addr_bits (unat cidr) bits \<mapsto> peer) else ret = -1 \<and> routes t' = routes t)
    \<and> (ok 0 \<and> ok 1 \<longrightarrow> ret = 0)"
  using inv pre ins
proof (induction t arbitrary: pre ret t')
  case Null
  have "node_prefix (node_new bits cidr v (Some peer)) = addr_bits (unat cidr) bits"
    using addr_bits_node_new [OF len, of cidr "unat cidr"] cn n by simp
  with Null cn show ?case by (auto simp: fun_eq_iff split: if_splits)
next
  case (Node d l r)
  define q where "q = addr_bits (unat cidr) bits"
  define p where "p = node_prefix d"
  define k where "k = common_bits (aip_bits d) bits (if aip_cidr d < cidr then aip_cidr d else cidr)"
  have kb: "unat k \<le> min (unat (aip_cidr d)) (unat cidr)"
    and keq: "i < unat k \<Longrightarrow> abit (aip_bits d) i = abit bits i"
    and kne: "unat k < min (unat (aip_cidr d)) (unat cidr) \<Longrightarrow> abit (aip_bits d) (unat k) \<noteq> abit bits (unat k)" for i
    using common_bits_spec [where a = "aip_bits d" and b = bits
        and m = "if aip_cidr d < cidr then aip_cidr d else cidr"]
    by (auto simp: k_def word_less_nat_alt split: if_splits)
  note new = addr_bits_node_new [OF len]
  note ins = Node.prems(3) [unfolded insert_trie.simps Let_def k_def [symmetric]]
  show ?case
  proof (cases "k < aip_cidr d")
    case split: True
    then have kd: "unat k < unat (aip_cidr d)" by (simp add: word_less_nat_alt)
    define s where "s = addr_bits (unat k) bits"
    define b where "b = bit_at (aip_bits d) k"
    have sp: "addr_bits (unat k) (aip_bits d) = s" using keq by (simp add: s_def addr_bits_eq_iff)
    have pre_s: "prefix pre s"
    proof -
      have pp: "prefix pre p" "prefix pre q" using Node.prems by (simp_all add: p_def q_def)
      have "length pre \<le> unat k"
      proof (rule ccontr)
        assume "\<not> length pre \<le> unat k"
        then have lt: "unat k < length pre" by simp
        have "length pre \<le> unat (aip_cidr d)" "length pre \<le> unat cidr"
          using pp [THEN prefix_length_le] by (simp_all add: p_def q_def)
        with lt have "p ! unat k \<noteq> q ! unat k" using kne by (simp add: p_def q_def)
        moreover have "p ! unat k = pre ! unat k" "q ! unat k = pre ! unat k"
          using pp lt by (auto simp: prefix_def nth_append)
        ultimately show False by simp
      qed
      then have "prefix pre (take (unat k) q)" using pp(2) by (simp add: prefix_iff_take)
      then show ?thesis using kb by (simp add: q_def s_def)
    qed
    have nd: "node_prefix (node_new bits k v x) = s" for x :: "'a option"
      using new [of k "unat k"] kb cn n by (simp add: s_def)
    have ndp: "node_prefix ((node_new bits k v None)\<lparr>aip_peer := x\<rparr>) = s" for x :: "'a option"
      using nd [of None] by simp
    have old: "trie_inv n (s @ [b]) (Node d l r)"
    proof -
      have "s @ [b] = addr_bits (Suc (unat k)) (aip_bits d)"
        by (simp add: addr_bits_Suc sp b_def bit_at_abit)
      then show ?thesis using Node.prems(1) kd by (simp add: prefix_addr_bits)
    qed
    have kn: "unat k \<le> n" using kb cn by simp
    have rs: "routes (Node d l r) s = None"
      using routes_prefix [OF old, of s] by (fastforce dest: prefix_length_le)
    show ?thesis
    proof (cases "k = cidr")
      case True
      have sq: "s = q" using True by (simp add: s_def q_def)
      show ?thesis
      proof (cases "ok 0")
        case ok: True
        let ?t = "Node ((node_new bits k v None)\<lparr>aip_peer := Some peer\<rparr>)
            (if b then Null else Node d l r) (if b then Node d l r else Null)"
        have t': "ret = 0" "t' = ?t" using ins ok True split by (simp_all add: b_def)
        have "trie_inv n pre ?t" by (rule trie_inv_fork [OF ndp _ pre_s old]) (use kn in auto)
        moreover have "routes ?t = (routes (Node d l r))(q \<mapsto> peer)"
          using routes_fork [OF ndp old, of Null] rs
          by (auto simp: fun_eq_iff sq simp del: routes.simps(2) split: option.split)
        ultimately show ?thesis unfolding t' q_def by simp
      next
        case False
        then show ?thesis using ins split Node.prems by auto
      qed
    next
      case False
      then have kc: "unat k < unat cidr" using kb by (metis le_neq_implies_less min.bounded_iff word_unat_eq_iff)
      let ?lf = "Node (node_new bits cidr v (Some peer)) Null Null"
      have nb: "bit_at bits k = (\<not> b)" using kne kd kc by (auto simp: b_def bit_at_abit)
      have lq: "node_prefix (node_new bits cidr v (Some peer)) = q"
        using new [of cidr "unat cidr"] cn n by (simp add: q_def)
      have leaf: "trie_inv n (s @ [\<not> b]) ?lf"
      proof -
        have "s @ [\<not> b] = addr_bits (Suc (unat k)) bits"
          using nb by (simp add: addr_bits_Suc s_def bit_at_abit)
        then have "prefix (s @ [\<not> b]) q" using kc by (simp add: q_def prefix_addr_bits)
        then show ?thesis unfolding trie_inv.simps lq using cn by simp
      qed
      have sq: "s \<noteq> q" using kc by (metis length_addr_bits less_irrefl q_def s_def)
      have rq: "routes (Node d l r) q = None"
      proof -
        have "\<not> prefix (s @ [b]) q"
          using leaf lq by (auto simp: prefix_def)
        then show ?thesis using routes_prefix [OF old] by blast
      qed
      consider (no0) "\<not> ok 0" | (no1) "ok 0" "\<not> ok 1" | (both) "ok 0" "ok 1" by blast
      then show ?thesis
      proof cases
        case no0
        then show ?thesis using ins split Node.prems by auto
      next
        case no1
        let ?t = "Node (node_new bits k v None) (if b then Null else Node d l r) (if b then Node d l r else Null)"
        have t': "ret = -1" "t' = ?t" using ins no1 False split by (simp_all add: b_def)
        have "trie_inv n pre ?t" by (rule trie_inv_fork [OF nd _ pre_s old]) (use kn in auto)
        moreover have "routes ?t = routes (Node d l r)"
          using routes_fork [OF nd old, of Null] rs
          by (auto simp: fun_eq_iff simp del: routes.simps(2) split: option.split)
        ultimately show ?thesis unfolding t' using no1 by simp
      next
        case both
        let ?t = "Node (node_new bits k v None) (if b then ?lf else Node d l r) (if b then Node d l r else ?lf)"
        have t': "ret = 0" "t' = ?t" using ins both False split nb by (auto simp: b_def)
        have "trie_inv n pre ?t" by (rule trie_inv_fork [OF nd _ pre_s old leaf]) (use kn in auto)
        moreover have "routes ?t = (routes (Node d l r))(q \<mapsto> peer)"
        proof (rule ext)
          fix x
          have "routes ?lf x = (if x = q then Some peer else None)" using lq by auto
          then show "routes ?t x = ((routes (Node d l r))(q \<mapsto> peer)) x"
            using routes_fork [OF nd [of None] old leaf, of x] rs rq sq
            by (cases "x = q"; cases "x = s") (auto simp del: routes.simps split: option.split)
        qed
        ultimately show ?thesis unfolding t' q_def by simp
      qed
    qed
  next
    case False
    then have kd: "unat k = unat (aip_cidr d)" using kb by (simp add: word_less_nat_alt)
    have dc: "unat (aip_cidr d) \<le> unat cidr" using kb kd by simp
    have pq: "p = addr_bits (unat (aip_cidr d)) bits"
      using keq kd by (simp add: p_def addr_bits_eq_iff)
    show ?thesis
    proof (cases "k = cidr")
      case True
      then have dcidr: "aip_cidr d = cidr" using kd by (simp add: word_unat_eq_iff)
      then have t': "ret = 0" "t' = Node (d\<lparr>aip_peer := Some peer\<rparr>) l r" using ins True by simp_all
      have "p = q" using pq dcidr by (simp add: q_def)
      then show ?thesis using Node.prems unfolding t' q_def [symmetric] by (auto simp: fun_eq_iff p_def)
    next
      case ne: False
      then have lt: "unat (aip_cidr d) < unat cidr" using kd dc by (metis le_neq_implies_less word_unat_eq_iff)
      define b where "b = bit_at bits (aip_cidr d)"
      have pb: "prefix (p @ [b]) q"
      proof -
        have "p @ [b] = addr_bits (Suc (unat (aip_cidr d))) bits"
          by (simp add: pq addr_bits_Suc b_def bit_at_abit)
        then show ?thesis using lt by (simp add: q_def prefix_addr_bits)
      qed
      have qp: "q \<noteq> p" using lt by (metis length_addr_bits less_irrefl p_def q_def)
      show ?thesis
      proof (cases b)
        case True
        obtain ret' r' where rec: "insert_trie ok r bits cidr v peer = (ret', r')" by fastforce
        have t': "ret = ret'" "t' = Node d l r'" using ins ne False True rec by (simp_all add: b_def)
        have "trie_inv n (p @ [True]) r" using Node.prems by (simp add: p_def)
        from Node.IH(2) [OF this _ rec] pb True have IH: "trie_inv n (p @ [True]) r' \<and>
          (if ret' = 0 then routes r' = (routes r)(q \<mapsto> peer) else ret' = -1 \<and> routes r' = routes r)
          \<and> (ok 0 \<and> ok 1 \<longrightarrow> ret' = 0)" by (simp add: q_def)
        have "\<not> prefix (p @ [False]) q" using pb True by (auto simp: prefix_def)
        then show ?thesis
          unfolding t' q_def [symmetric] using IH Node.prems qp pb True
          by (auto simp: fun_eq_iff p_def split: if_splits)
      next
        case b: False
        obtain ret' l' where rec: "insert_trie ok l bits cidr v peer = (ret', l')" by fastforce
        have t': "ret = ret'" "t' = Node d l' r" using ins ne False b rec by (simp_all add: b_def)
        have "trie_inv n (p @ [False]) l" using Node.prems by (simp add: p_def)
        from Node.IH(1) [OF this _ rec] pb b have IH: "trie_inv n (p @ [False]) l' \<and>
          (if ret' = 0 then routes l' = (routes l)(q \<mapsto> peer) else ret' = -1 \<and> routes l' = routes l)
          \<and> (ok 0 \<and> ok 1 \<longrightarrow> ret' = 0)" by (simp add: q_def)
        then show ?thesis
          unfolding t' q_def [symmetric] using Node.prems qp pb b
          by (auto simp: fun_eq_iff p_def split: if_splits)
      qed
    qed
  qed
qed

section \<open>Removal and traversal\<close>

lemma remove_peer_spec:
  "trie_inv n pre (remove_peer_from_tree p t) = trie_inv n pre t"
  "routes (remove_peer_from_tree p t) q = (if routes t q = Some p then None else routes t q)"
  by (induction t arbitrary: pre) auto

lemma walk_tree_set:
  "trie_inv n pre t \<Longrightarrow> (\<exists>d \<in> set (walk_tree t). node_prefix d = q \<and> aip_peer d = Some p) \<longleftrightarrow> routes t q = Some p"
proof (induction t arbitrary: pre)
  case Null
  then show ?case by simp
next
  case (Node d l r)
  have l: "routes l q = Some p \<Longrightarrow> prefix (node_prefix d @ [False]) q"
    and r: "routes r q = Some p \<Longrightarrow> prefix (node_prefix d @ [True]) q"
    using Node.prems routes_prefix by (metis option.discI trie_inv.simps(2))+
  have IH: "(\<exists>d \<in> set (walk_tree l). node_prefix d = q \<and> aip_peer d = Some p) \<longleftrightarrow> routes l q = Some p"
    "(\<exists>d \<in> set (walk_tree r). node_prefix d = q \<and> aip_peer d = Some p) \<longleftrightarrow> routes r q = Some p"
    using Node by auto
  have nb: "\<not> (prefix (node_prefix d @ [True]) q \<and> prefix (node_prefix d @ [False]) q)"
    "\<not> prefix (node_prefix d @ [b]) (node_prefix d)" for b
    by (auto simp: prefix_def)
  have "(\<exists>e \<in> set (walk_tree (Node d l r)). node_prefix e = q \<and> aip_peer e = Some p) \<longleftrightarrow>
      node_prefix d = q \<and> aip_peer d = Some p \<or> routes l q = Some p \<or> routes r q = Some p"
    unfolding IH [symmetric] by auto
  then show ?case using l r nb by auto
qed

lemma walk_tree_prefix: "trie_inv n pre t \<Longrightarrow> d \<in> set (walk_tree t) \<Longrightarrow> prefix pre (node_prefix d) \<and> aip_peer d \<noteq> None"
proof (induction t arbitrary: pre)
  case Null
  then show ?case by simp
next
  case (Node e l r)
  have "prefix (node_prefix e @ [b]) x \<Longrightarrow> prefix pre x" for b x
    using Node.prems(1) by (metis append_prefixD prefix_order.order_trans trie_inv.simps(2))
  then show ?case using Node by (auto split: if_splits)
qed

lemma walk_tree_distinct: "trie_inv n pre t \<Longrightarrow> distinct (map (\<lambda>d. node_prefix d) (walk_tree t))"
proof (induction t arbitrary: pre)
  case Null
  then show ?case by simp
next
  case (Node d l r)
  have L: "prefix (node_prefix d @ [False]) x" if "x \<in> (\<lambda>d. node_prefix d) ` set (walk_tree l)" for x
    using Node.prems that walk_tree_prefix [of n "node_prefix d @ [False]" l] by auto
  have R: "prefix (node_prefix d @ [True]) x" if "x \<in> (\<lambda>d. node_prefix d) ` set (walk_tree r)" for x
    using Node.prems that walk_tree_prefix [of n "node_prefix d @ [True]" r] by auto
  have nb: "\<not> (prefix (node_prefix d @ [True]) x \<and> prefix (node_prefix d @ [False]) x)"
    "\<not> prefix (node_prefix d @ [b]) (node_prefix d)" for x b
    by (auto simp: prefix_def)
  have "(\<lambda>d. node_prefix d) ` set (walk_tree l) \<inter> (\<lambda>d. node_prefix d) ` set (walk_tree r) = {}"
    using L R nb(1) by blast
  moreover have "node_prefix d \<notin> (\<lambda>d. node_prefix d) ` set (walk_tree l) \<union> (\<lambda>d. node_prefix d) ` set (walk_tree r)"
    using L R nb(2) by blast
  ultimately show ?case using Node by auto
qed

section \<open>The contract of a routing table\<close>

locale route_table =
  fixes width :: nat
    and inv :: "'t \<Rightarrow> bool"
    and table :: "'t \<Rightarrow> bool list \<Rightarrow> 'p option"
    and lookup :: "'t \<Rightarrow> bytes \<Rightarrow> 'p option"
    and ins :: "(nat \<Rightarrow> bool) \<Rightarrow> 't \<Rightarrow> bytes \<Rightarrow> u8 \<Rightarrow> 'p \<Rightarrow> int \<times> 't"
    and del :: "'t \<Rightarrow> 'p \<Rightarrow> 't"
  assumes lookup_lpm: "inv t \<Longrightarrow> lookup t a = lpm (table t) (addr_bits width a)"
    and ins_inv: "inv t \<Longrightarrow> 8 * length a = width \<Longrightarrow> inv (snd (ins ok t a c p))"
    and ins_ok: "inv t \<Longrightarrow> 8 * length a = width \<Longrightarrow> fst (ins ok t a c p) = 0 \<Longrightarrow>
      unat c \<le> width \<and> table (snd (ins ok t a c p)) = (table t)(addr_bits (unat c) a \<mapsto> p)"
    and ins_fail: "inv t \<Longrightarrow> 8 * length a = width \<Longrightarrow> fst (ins ok t a c p) \<noteq> 0 \<Longrightarrow>
      fst (ins ok t a c p) = -1 \<and> table (snd (ins ok t a c p)) = table t"
    and ins_total: "inv t \<Longrightarrow> 8 * length a = width \<Longrightarrow> unat c \<le> width \<Longrightarrow> ok 0 \<Longrightarrow> ok 1 \<Longrightarrow>
      fst (ins ok t a c p) = 0"
    and del_inv: "inv t \<Longrightarrow> inv (del t p)"
    and del_table: "inv t \<Longrightarrow> table (del t p) q = (if table t q = Some p then None else table t q)"
begin

lemma lpm_upto_range: "lpm_upto m a k = Some p \<Longrightarrow> \<exists>q. m q = Some p"
  by (induction k) (auto split: option.splits)

lemma lookup_routed: "inv t \<Longrightarrow> lookup t a = Some p \<Longrightarrow> \<exists>q. table t q = Some p"
  using lpm_upto_range by (auto simp: lookup_lpm lpm_def)

lemma removed_not_routed: "inv t \<Longrightarrow> lookup (del t p) a \<noteq> Some p"
  using lpm_upto_range [of "table (del t p)"] del_table [of t p]
  by (auto simp: lookup_lpm del_inv lpm_def split: if_splits) (metis option.distinct(1) option.inject)

lemma failed_insert_keeps_routing:
  "inv t \<Longrightarrow> 8 * length a = width \<Longrightarrow> fst (ins ok t a c p) \<noteq> 0 \<Longrightarrow>
     lookup (snd (ins ok t a c p)) x = lookup t x"
  using ins_fail by (simp add: lookup_lpm ins_inv)

lemma lpm_upto_hit: "lpm_upto m a j = Some p" if "m (take j a) = Some p"
  using that by (cases j) auto

lemma inserted_routed:
  assumes "inv t" "8 * length a = width" "fst (ins ok t a c p) = 0"
    and "addr_bits (unat c) x = addr_bits (unat c) a"
    and "\<And>k. unat c < k \<Longrightarrow> k \<le> width \<Longrightarrow> table t (addr_bits k x) = None"
  shows "lookup (snd (ins ok t a c p)) x = Some p"
proof -
  let ?m = "(table t)(addr_bits (unat c) a \<mapsto> p)"
  note ok = ins_ok [OF assms(1-3)]
  have "?m (take k (addr_bits width x)) = None" if "unat c < k" "k \<le> width" for k
  proof -
    have "addr_bits k x \<noteq> addr_bits (unat c) a" using that by (metis length_addr_bits less_irrefl)
    then show ?thesis using assms(5) [OF that] that by (simp add: min_def)
  qed
  then have "lpm_upto ?m (addr_bits width x) width = lpm_upto ?m (addr_bits width x) (unat c)"
    using ok by (intro lpm_upto_split) auto
  also have "\<dots> = Some p" using ok assms(4) by (intro lpm_upto_hit) (simp add: min_def)
  finally show ?thesis
    using lookup_lpm [OF ins_inv [OF assms(1,2), of ok c p]] ok by (simp add: lpm_def)
qed

end

definition allowedips_inv :: "'p allowedips \<Rightarrow> bool" where
  "allowedips_inv t \<longleftrightarrow> trie_inv 32 [] (root4 t) \<and> trie_inv 128 [] (root6 t)"

lemma insert_v4_spec:
  assumes "allowedips_inv t" "8 * length a = 32"
  shows "allowedips_inv (snd (allowedips_insert_v4 ok t a c p)) \<and>
    (if fst (allowedips_insert_v4 ok t a c p) = 0
     then unat c \<le> 32 \<and> routes (root4 (snd (allowedips_insert_v4 ok t a c p)))
       = (routes (root4 t))(addr_bits (unat c) a \<mapsto> p)
     else fst (allowedips_insert_v4 ok t a c p) = -1 \<and>
       routes (root4 (snd (allowedips_insert_v4 ok t a c p))) = routes (root4 t)) \<and>
    (unat c \<le> 32 \<longrightarrow> ok 0 \<longrightarrow> ok 1 \<longrightarrow> fst (allowedips_insert_v4 ok t a c p) = 0)"
proof (cases "c > 32")
  case True
  then show ?thesis using assms(1) by (simp add: allowedips_insert_v4_def word_less_nat_alt)
next
  case False
  then have c: "unat c \<le> 32" by (simp add: word_less_nat_alt not_less)
  obtain ret t' where r: "insert_trie ok (root4 t) a c 4 p = (ret, t')" by fastforce
  then have eq: "allowedips_insert_v4 ok t a c p = (ret, t\<lparr>root4 := t'\<rparr>)"
    using False by (simp add: allowedips_insert_v4_def)
  have "trie_inv 32 [] (root4 t)" using assms(1) by (simp add: allowedips_inv_def)
  from insert_trie_spec [OF this _ c _ _ r] assms(2)
  have "trie_inv 32 [] t' \<and> (if ret = 0 then routes t' = (routes (root4 t))(addr_bits (unat c) a \<mapsto> p)
      else ret = - 1 \<and> routes t' = routes (root4 t)) \<and> (ok 0 \<and> ok 1 \<longrightarrow> ret = 0)"
    by (simp add: addrlen_of_def)
  then show ?thesis using assms(1) c by (auto simp: eq allowedips_inv_def)
qed

lemma insert_v6_spec:
  assumes "allowedips_inv t" "8 * length a = 128"
  shows "allowedips_inv (snd (allowedips_insert_v6 ok t a c p)) \<and>
    (if fst (allowedips_insert_v6 ok t a c p) = 0
     then unat c \<le> 128 \<and> routes (root6 (snd (allowedips_insert_v6 ok t a c p)))
       = (routes (root6 t))(addr_bits (unat c) a \<mapsto> p)
     else fst (allowedips_insert_v6 ok t a c p) = -1 \<and>
       routes (root6 (snd (allowedips_insert_v6 ok t a c p))) = routes (root6 t)) \<and>
    (unat c \<le> 128 \<longrightarrow> ok 0 \<longrightarrow> ok 1 \<longrightarrow> fst (allowedips_insert_v6 ok t a c p) = 0)"
proof (cases "c > 128")
  case True
  then show ?thesis using assms(1) by (simp add: allowedips_insert_v6_def word_less_nat_alt)
next
  case False
  then have c: "unat c \<le> 128" by (simp add: word_less_nat_alt not_less)
  obtain ret t' where r: "insert_trie ok (root6 t) a c 6 p = (ret, t')" by fastforce
  then have eq: "allowedips_insert_v6 ok t a c p = (ret, t\<lparr>root6 := t'\<rparr>)"
    using False by (simp add: allowedips_insert_v6_def)
  have "trie_inv 128 [] (root6 t)" using assms(1) by (simp add: allowedips_inv_def)
  from insert_trie_spec [OF this _ c _ _ r] assms(2)
  have "trie_inv 128 [] t' \<and> (if ret = 0 then routes t' = (routes (root6 t))(addr_bits (unat c) a \<mapsto> p)
      else ret = - 1 \<and> routes t' = routes (root6 t)) \<and> (ok 0 \<and> ok 1 \<longrightarrow> ret = 0)"
    by (simp add: addrlen_of_def)
  then show ?thesis using assms(1) c by (auto simp: eq allowedips_inv_def)
qed

lemma lookup_trie_lpm:
  assumes "trie_inv n [] t" "unat m = n"
  shows "lookup_trie t a m None = lpm (routes t) (addr_bits n a)"
  using lookup_trie_spec [OF assms] by (simp add: lpm_def split: option.split)

lemma unat_numeral32: "unat (32 :: u8) = 32" "unat (128 :: u8) = 128"
  by simp_all

interpretation v4: route_table 32 allowedips_inv "\<lambda>t. routes (root4 t)"
  allowedips_lookup_v4 allowedips_insert_v4 allowedips_remove_peer
proof (unfold_locales, goal_cases)
  case (1 t a)
  then show ?case
    unfolding allowedips_lookup_v4_def allowedips_inv_def
    by (blast intro: lookup_trie_lpm unat_numeral32)
next
  case (2 t a ok c p)
  then show ?case by (rule insert_v4_spec [THEN conjunct1])
next
  case (3 t a ok c p)
  then show ?case using insert_v4_spec [of t a ok c p] by simp
next
  case (4 t a ok c p)
  then show ?case using insert_v4_spec [of t a ok c p] by (simp split: if_splits)
next
  case (5 t a c ok p)
  then show ?case using insert_v4_spec [of t a ok c p, THEN conjunct2, THEN conjunct2] by simp
next
  case (6 t p)
  then show ?case by (simp add: allowedips_remove_peer_def allowedips_inv_def remove_peer_spec)
next
  case (7 t p q)
  then show ?case by (simp add: allowedips_remove_peer_def remove_peer_spec)
qed

interpretation v6: route_table 128 allowedips_inv "\<lambda>t. routes (root6 t)"
  allowedips_lookup_v6 allowedips_insert_v6 allowedips_remove_peer
proof (unfold_locales, goal_cases)
  case (1 t a)
  then show ?case
    unfolding allowedips_lookup_v6_def allowedips_inv_def
    by (blast intro: lookup_trie_lpm unat_numeral32)
next
  case (2 t a ok c p)
  then show ?case by (rule insert_v6_spec [THEN conjunct1])
next
  case (3 t a ok c p)
  then show ?case using insert_v6_spec [of t a ok c p] by simp
next
  case (4 t a ok c p)
  then show ?case using insert_v6_spec [of t a ok c p] by (simp split: if_splits)
next
  case (5 t a c ok p)
  then show ?case using insert_v6_spec [of t a ok c p, THEN conjunct2, THEN conjunct2] by simp
next
  case (6 t p)
  then show ?case by (simp add: allowedips_remove_peer_def allowedips_inv_def remove_peer_spec)
next
  case (7 t p q)
  then show ?case by (simp add: allowedips_remove_peer_def remove_peer_spec)
qed

section \<open>Properties\<close>

text \<open>A configuration history: routes added for either family, and peers removed.\<close>

datatype 'p route_op = Add4 bytes u8 'p | Add6 bytes u8 'p | RemovePeer 'p

fun op_ok :: "'p route_op \<Rightarrow> bool" where
  "op_ok (Add4 a c p) \<longleftrightarrow> length a = 4"
| "op_ok (Add6 a c p) \<longleftrightarrow> length a = 16"
| "op_ok (RemovePeer p) \<longleftrightarrow> True"

fun apply_op :: "'p allowedips \<Rightarrow> 'p route_op \<Rightarrow> 'p allowedips" where
  "apply_op t (Add4 a c p) = snd (allowedips_insert_v4 (\<lambda>_. True) t a c p)"
| "apply_op t (Add6 a c p) = snd (allowedips_insert_v6 (\<lambda>_. True) t a c p)"
| "apply_op t (RemovePeer p) = allowedips_remove_peer t p"

text \<open>The same history on plain maps from IPv4 and IPv6 prefixes to peers.\<close>

fun spec_op :: "(bool list \<Rightarrow> 'p option) \<times> (bool list \<Rightarrow> 'p option) \<Rightarrow> 'p route_op
    \<Rightarrow> (bool list \<Rightarrow> 'p option) \<times> (bool list \<Rightarrow> 'p option)" where
  "spec_op (m4, m6) (Add4 a c p) = (if unat c \<le> 32 then m4(addr_bits (unat c) a \<mapsto> p) else m4, m6)"
| "spec_op (m4, m6) (Add6 a c p) = (m4, if unat c \<le> 128 then m6(addr_bits (unat c) a \<mapsto> p) else m6)"
| "spec_op (m4, m6) (RemovePeer p) =
     (\<lambda>q. if m4 q = Some p then None else m4 q, \<lambda>q. if m6 q = Some p then None else m6 q)"

lemma apply_op_refines:
  assumes "allowedips_inv t" "op_ok x"
  shows "allowedips_inv (apply_op t x) \<and>
    (routes (root4 (apply_op t x)), routes (root6 (apply_op t x)))
      = spec_op (routes (root4 t), routes (root6 t)) x"
proof (cases x)
  case (Add4 a c p)
  have "root6 (snd (allowedips_insert_v4 (\<lambda>_. True) t a c p)) = root6 t"
    by (simp add: allowedips_insert_v4_def split: prod.split)
  then show ?thesis
    using insert_v4_spec [OF assms(1), of a "\<lambda>_. True" c p] assms(2) Add4 by (auto split: if_splits)
next
  case (Add6 a c p)
  have "root4 (snd (allowedips_insert_v6 (\<lambda>_. True) t a c p)) = root4 t"
    by (simp add: allowedips_insert_v6_def split: prod.split)
  then show ?thesis
    using insert_v6_spec [OF assms(1), of a "\<lambda>_. True" c p] assms(2) Add6 by (auto split: if_splits)
next
  case (RemovePeer p)
  then show ?thesis
    using v4.del_inv [OF assms(1)] v4.del_table [OF assms(1)] v6.del_table [OF assms(1)] by auto
qed

lemma foldl_apply_op_refines:
  assumes "allowedips_inv t" "list_all op_ok ops"
  shows "allowedips_inv (foldl apply_op t ops) \<and>
    (routes (root4 (foldl apply_op t ops)), routes (root6 (foldl apply_op t ops)))
      = foldl spec_op (routes (root4 t), routes (root6 t)) ops"
  using assms
proof (induction ops arbitrary: t)
  case (Cons x ops)
  with apply_op_refines [of t x] show ?case by simp
qed simp

lemma allowedips_inv_init [simp]: "allowedips_inv allowedips_init"
  by (simp add: allowedips_inv_def allowedips_init_def)

lemma history_refines:
  assumes "list_all op_ok ops"
  shows "allowedips_inv (foldl apply_op allowedips_init ops) \<and>
    foldl spec_op (\<lambda>_. None, \<lambda>_. None) ops =
      (routes (root4 (foldl apply_op allowedips_init ops)), routes (root6 (foldl apply_op allowedips_init ops)))"
proof -
  have "routes (root4 (allowedips_init :: 'a allowedips)) = (\<lambda>_. None)"
    "routes (root6 (allowedips_init :: 'a allowedips)) = (\<lambda>_. None)"
    by (simp_all add: allowedips_init_def fun_eq_iff)
  then show ?thesis using foldl_apply_op_refines [OF allowedips_inv_init assms] by simp
qed

text \<open>\<^bold>\<open>C13\<close>. The radix tries implement cryptokey routing: after any history of route
  insertions (either family, any prefix lengths, re-assignments included) and peer
  removals, a lookup returns the longest-prefix match in the map the history describes.\<close>

theorem allowedips_lookup_is_lpm:
  assumes "list_all op_ok ops"
  shows "allowedips_lookup_v4 (foldl apply_op allowedips_init ops) a4
      = lpm (fst (foldl spec_op (\<lambda>_. None, \<lambda>_. None) ops)) (addr_bits 32 a4) \<and>
    allowedips_lookup_v6 (foldl apply_op allowedips_init ops) a6
      = lpm (snd (foldl spec_op (\<lambda>_. None, \<lambda>_. None) ops)) (addr_bits 128 a6)"
proof -
  let ?t = "foldl apply_op allowedips_init ops"
  note * = history_refines [OF assms]
  then have inv: "allowedips_inv ?t" by simp
  from * have r: "foldl spec_op (\<lambda>_. None, \<lambda>_. None) ops = (routes (root4 ?t), routes (root6 ?t))" by simp
  show ?thesis unfolding r using v4.lookup_lpm [OF inv] v6.lookup_lpm [OF inv] by simp
qed

theorem allowedips_lookup_is_lpm_witness:
  "list_all op_ok [Add4 [10, 0, 0, 0] 8 (1::nat), Add4 [10, 1, 0, 0] 16 2, Add4 [10, 1, 2, 0] 24 3, RemovePeer 3] \<and>
   allowedips_lookup_v4 (foldl apply_op allowedips_init
      [Add4 [10, 0, 0, 0] 8 (1::nat), Add4 [10, 1, 0, 0] 16 2, Add4 [10, 1, 2, 0] 24 3, RemovePeer 3]) [10, 1, 2, 7]
   = lpm (fst (foldl spec_op (\<lambda>_. None, \<lambda>_. None)
      [Add4 [10, 0, 0, 0] 8 (1::nat), Add4 [10, 1, 0, 0] 16 2, Add4 [10, 1, 2, 0] 24 3, RemovePeer 3]))
      (addr_bits 32 [10, 1, 2, 7]) \<and>
   allowedips_lookup_v4 (foldl apply_op allowedips_init
      [Add4 [10, 0, 0, 0] 8 (1::nat), Add4 [10, 1, 0, 0] 16 2, Add4 [10, 1, 2, 0] 24 3, RemovePeer 3]) [10, 1, 2, 7]
   = Some 2"
proof (intro conjI)
  show ok: "list_all op_ok [Add4 [10, 0, 0, 0] 8 (1::nat), Add4 [10, 1, 0, 0] 16 2, Add4 [10, 1, 2, 0] 24 3, RemovePeer 3]"
    by simp
  show "allowedips_lookup_v4 (foldl apply_op allowedips_init
      [Add4 [10, 0, 0, 0] 8 (1::nat), Add4 [10, 1, 0, 0] 16 2, Add4 [10, 1, 2, 0] 24 3, RemovePeer 3]) [10, 1, 2, 7]
   = lpm (fst (foldl spec_op (\<lambda>_. None, \<lambda>_. None)
      [Add4 [10, 0, 0, 0] 8 (1::nat), Add4 [10, 1, 0, 0] 16 2, Add4 [10, 1, 2, 0] 24 3, RemovePeer 3]))
      (addr_bits 32 [10, 1, 2, 7])"
    by (rule allowedips_lookup_is_lpm [OF ok, THEN conjunct1])
qed code_simp

text \<open>\<^bold>\<open>C40\<close>. A route insertion that fails, because the prefix is too long for the
  family or because either allocation fails, returns -1 and leaves the routing of every
  address of both families as it was, in every state the configuration can reach.\<close>

theorem allowedips_failed_insert_harmless:
  assumes "list_all op_ok ops" "length a = 4" "length b = 16"
    and "t = foldl apply_op allowedips_init ops"
    and "fst (allowedips_insert_v4 ok t a c p) \<noteq> 0" "fst (allowedips_insert_v6 ok t b d q) \<noteq> 0"
  shows "fst (allowedips_insert_v4 ok t a c p) = -1 \<and> fst (allowedips_insert_v6 ok t b d q) = -1 \<and>
    allowedips_lookup_v4 (snd (allowedips_insert_v4 ok t a c p)) x = allowedips_lookup_v4 t x \<and>
    allowedips_lookup_v6 (snd (allowedips_insert_v4 ok t a c p)) y = allowedips_lookup_v6 t y \<and>
    allowedips_lookup_v4 (snd (allowedips_insert_v6 ok t b d q)) x = allowedips_lookup_v4 t x \<and>
    allowedips_lookup_v6 (snd (allowedips_insert_v6 ok t b d q)) y = allowedips_lookup_v6 t y"
proof -
  have inv: "allowedips_inv t"
    using foldl_apply_op_refines [OF allowedips_inv_init assms(1)] assms(4) by simp
  have a: "8 * length a = 32" and b: "8 * length b = 128" using assms(2,3) by simp_all
  have "root6 (snd (allowedips_insert_v4 ok t a c p)) = root6 t"
    "root4 (snd (allowedips_insert_v6 ok t b d q)) = root4 t"
    by (simp_all add: allowedips_insert_v4_def allowedips_insert_v6_def split: prod.split)
  then show ?thesis
    using v4.ins_fail [OF inv a assms(5)] v6.ins_fail [OF inv b assms(6)]
      v4.failed_insert_keeps_routing [OF inv a assms(5)] v6.failed_insert_keeps_routing [OF inv b assms(6)]
    by (simp add: allowedips_lookup_v4_def allowedips_lookup_v6_def)
qed

theorem allowedips_failed_insert_harmless_witness:
  "allowedips_lookup_v4 (snd (allowedips_insert_v4 (\<lambda>n. n \<noteq> 1)
     (foldl apply_op allowedips_init [Add4 [10, 0, 0, 0] 8 (1::nat)]) [11, 0, 0, 0] 8 2)) [11, 0, 0, 5] =
   allowedips_lookup_v4 (foldl apply_op allowedips_init [Add4 [10, 0, 0, 0] 8 (1::nat)]) [11, 0, 0, 5]"
proof -
  let ?ops = "[Add4 [10, 0, 0, 0] 8 (1::nat)]"
  have ok: "list_all op_ok ?ops" "length [11 :: u8, 0, 0, 0] = 4" "length (replicate 16 (0 :: u8)) = 16" by simp_all
  have 4: "fst (allowedips_insert_v4 (\<lambda>n. n \<noteq> 1) (foldl apply_op allowedips_init ?ops) [11, 0, 0, 0] 8 2) \<noteq> 0"
    by code_simp
  have 6: "fst (allowedips_insert_v6 (\<lambda>n. n \<noteq> 1) (foldl apply_op allowedips_init ?ops) (replicate 16 0) 129 2) \<noteq> 0"
    by code_simp
  show ?thesis
    using allowedips_failed_insert_harmless [OF ok refl 4 6] by blast
qed

text \<open> Walking the table visits every configured route exactly once: after any
  configuration history the visited IPv4 (IPv6) nodes are exactly the entries of the
  IPv4 (IPv6) map the history describes, with no prefix visited twice.\<close>

theorem allowedips_walk_exact:
  assumes "list_all op_ok ops"
  shows "((\<exists>d \<in> set (walk_tree (root4 (foldl apply_op allowedips_init ops))). node_prefix d = q \<and> aip_peer d = Some p)
      \<longleftrightarrow> fst (foldl spec_op (\<lambda>_. None, \<lambda>_. None) ops) q = Some p) \<and>
    ((\<exists>d \<in> set (walk_tree (root6 (foldl apply_op allowedips_init ops))). node_prefix d = q \<and> aip_peer d = Some p)
      \<longleftrightarrow> snd (foldl spec_op (\<lambda>_. None, \<lambda>_. None) ops) q = Some p) \<and>
    distinct (map (\<lambda>d. node_prefix d) (walk_tree (root4 (foldl apply_op allowedips_init ops)))) \<and>
    distinct (map (\<lambda>d. node_prefix d) (walk_tree (root6 (foldl apply_op allowedips_init ops))))"
proof -
  let ?t = "foldl apply_op allowedips_init ops"
  from history_refines [OF assms]
  have inv: "trie_inv 32 [] (root4 ?t)" "trie_inv 128 [] (root6 ?t)"
    and r: "foldl spec_op (\<lambda>_. None, \<lambda>_. None) ops = (routes (root4 ?t), routes (root6 ?t))"
    by (simp_all add: allowedips_inv_def)
  show ?thesis
    unfolding r fst_conv snd_conv
    using walk_tree_set [OF inv(1)] walk_tree_set [OF inv(2)]
      walk_tree_distinct [OF inv(1)] walk_tree_distinct [OF inv(2)] by blast
qed

theorem allowedips_walk_exact_witness:
  "list_all op_ok [Add4 [10, 0, 0, 0] 8 (1::nat)] \<and>
   distinct (map (\<lambda>d. node_prefix d) (walk_tree (root4 (foldl apply_op allowedips_init [Add4 [10, 0, 0, 0] 8 (1::nat)]))))"
  using allowedips_walk_exact [of "[Add4 [10, 0, 0, 0] 8 (1::nat)]"] by simp

end
