(* ===== verification/Blake2s.thy ===== *)
theory Blake2s
  imports Prelude
begin

text \<open>
  The incremental BLAKE2s hash (\<^verbatim>\<open>src/src/blake2s.c\<close>, \<^verbatim>\<open>blake2s.h\<close>) on 32-bit
  words. The streaming state is modelled field by field, with the block buffer
  and its stale bytes; the specification is the one-shot definition of RFC 7693
  (all blocks of the padded message, a 64-bit byte counter, the last-block flag).
\<close>

section \<open>Tables and the compression function\<close>

definition BLAKE2S_BLOCKBYTES :: nat where "BLAKE2S_BLOCKBYTES = 64"
definition BLAKE2S_OUTBYTES :: nat where "BLAKE2S_OUTBYTES = 32"
definition BLAKE2S_KEYBYTES :: nat where "BLAKE2S_KEYBYTES = 32"

lemmas blake2s_consts [simp] = BLAKE2S_BLOCKBYTES_def BLAKE2S_OUTBYTES_def BLAKE2S_KEYBYTES_def

definition blake2s_IV :: "u32 list" where
  "blake2s_IV = [0x6A09E667, 0xBB67AE85, 0x3C6EF372, 0xA54FF53A,
                 0x510E527F, 0x9B05688C, 0x1F83D9AB, 0x5BE0CD19]"

definition blake2s_sigma :: "nat list list" where
  "blake2s_sigma =
    [[ 0, 1, 2, 3, 4, 5, 6, 7, 8, 9,10,11,12,13,14,15],
     [14,10, 4, 8, 9,15,13, 6, 1,12, 0, 2,11, 7, 5, 3],
     [11, 8,12, 0, 5, 2,15,13,10,14, 3, 6, 7, 1, 9, 4],
     [ 7, 9, 3, 1,13,12,11,14, 2, 6, 5,10, 4, 0,15, 8],
     [ 9, 0, 5, 7, 2, 4,10,15,14, 1,11,12, 6, 8, 3,13],
     [ 2,12, 6,10, 0,11, 8, 3, 4,13, 7, 5,15,14, 1, 9],
     [12, 5, 1,15,14,13, 4,10, 0, 7, 6, 3, 9, 2, 8,11],
     [13,11, 7,14,12, 1, 3, 9, 5, 0,15, 4, 8, 6, 2,10],
     [ 6,15,14, 9,11, 3, 0, 8,12, 2,13, 7, 1, 4,10, 5],
     [10, 2, 8, 4, 7, 6, 1, 5,15,11, 9,14, 3,12,13, 0]]"

definition rotr32 :: "u32 \<Rightarrow> nat \<Rightarrow> u32" where
  "rotr32 w c = drop_bit c w OR push_bit (32 - c) w"

definition load32 :: "bytes \<Rightarrow> nat \<Rightarrow> u32" where
  "load32 src off = of_le (slice off 4 src)"

definition store32 :: "u32 \<Rightarrow> bytes" where
  "store32 w = le32 w"

text \<open>The macro \<^verbatim>\<open>G\<close> on the work vector \<open>v\<close>, its four lvalues given by index.\<close>

definition G :: "u32 list \<Rightarrow> nat \<Rightarrow> nat \<Rightarrow> nat \<Rightarrow> nat \<Rightarrow> nat \<Rightarrow> nat \<Rightarrow> u32 list \<Rightarrow> u32 list" where
  "G m r i ia ib ic ie v =
     (let a = v ! ia; b = v ! ib; c = v ! ic; d = v ! ie;
          a = a + b + m ! (blake2s_sigma ! r ! (2 * i));
          d = rotr32 (d XOR a) 16;
          c = c + d;
          b = rotr32 (b XOR c) 12;
          a = a + b + m ! (blake2s_sigma ! r ! (2 * i + 1));
          d = rotr32 (d XOR a) 8;
          c = c + d;
          b = rotr32 (b XOR c) 7
      in v[ia := a, ib := b, ic := c, ie := d])"

definition ROUND :: "u32 list \<Rightarrow> nat \<Rightarrow> u32 list \<Rightarrow> u32 list" where
  "ROUND m r v =
     (let v = G m r 0 0 4 8 12 v;
          v = G m r 1 1 5 9 13 v;
          v = G m r 2 2 6 10 14 v;
          v = G m r 3 3 7 11 15 v;
          v = G m r 4 0 5 10 15 v;
          v = G m r 5 1 6 11 12 v;
          v = G m r 6 2 7 8 13 v;
          v = G m r 7 3 4 9 14 v
      in v)"

section \<open>The streaming state\<close>

record blake2s_state =
  bs_h :: "u32 list"
  bs_t0 :: u32
  bs_t1 :: u32
  bs_f0 :: u32
  bs_f1 :: u32
  bs_buf :: bytes
  bs_buflen :: nat
  bs_outlen :: nat
  bs_last_node :: u8

definition blake2s_compress :: "blake2s_state \<Rightarrow> bytes \<Rightarrow> blake2s_state" where
  "blake2s_compress S inp =
     (let m = map (\<lambda>i. load32 inp (i * 4)) [0..<16];
          v = map (\<lambda>i. bs_h S ! i) [0..<8] @
              [blake2s_IV ! 0, blake2s_IV ! 1, blake2s_IV ! 2, blake2s_IV ! 3,
               bs_t0 S XOR blake2s_IV ! 4, bs_t1 S XOR blake2s_IV ! 5,
               bs_f0 S XOR blake2s_IV ! 6, bs_f1 S XOR blake2s_IV ! 7];
          v = fold (ROUND m) [0..<10] v
      in S\<lparr>bs_h := map (\<lambda>i. bs_h S ! i XOR v ! i XOR v ! (i + 8)) [0..<8]\<rparr>)"

record blake2s_param =
  digest_length :: u8
  key_length :: u8
  fanout :: u8
  depth :: u8
  leaf_length :: bytes
  node_offset :: bytes
  node_depth :: u8
  inner_length :: u8
  salt :: bytes
  personal :: bytes

definition param_zero :: blake2s_param where
  "param_zero = \<lparr>digest_length = 0, key_length = 0, fanout = 0, depth = 0, leaf_length = zeros 4,
     node_offset = zeros 6, node_depth = 0, inner_length = 0, salt = zeros 8, personal = zeros 8\<rparr>"

text \<open>The packed struct seen as bytes.\<close>

definition param_bytes :: "blake2s_param \<Rightarrow> bytes" where
  "param_bytes P = [digest_length P, key_length P, fanout P, depth P] @ leaf_length P @ node_offset P @
     [node_depth P, inner_length P] @ salt P @ personal P"

definition blake2s_init_param :: "blake2s_param \<Rightarrow> blake2s_state" where
  "blake2s_init_param P =
     (let p = param_bytes P in
      \<lparr>bs_h = map (\<lambda>i. blake2s_IV ! i XOR load32 p (4 * i)) [0..<8], bs_t0 = 0, bs_t1 = 0,
       bs_f0 = 0, bs_f1 = 0, bs_buf = zeros 64, bs_buflen = 0,
       bs_outlen = unat (digest_length P), bs_last_node = 0\<rparr>)"

definition blake2s_init :: "blake2s_state \<Rightarrow> nat \<Rightarrow> int \<times> blake2s_state" where
  "blake2s_init S outlen =
     (if outlen = 0 \<or> outlen > BLAKE2S_OUTBYTES then (-1, S)
      else (0, blake2s_init_param (param_zero\<lparr>digest_length := of_nat outlen, fanout := 1, depth := 1\<rparr>)))"

definition blake2s_increment_counter :: "blake2s_state \<Rightarrow> u32 \<Rightarrow> blake2s_state" where
  "blake2s_increment_counter S inc =
     (let t0 = bs_t0 S + inc
      in S\<lparr>bs_t0 := t0, bs_t1 := bs_t1 S + (if t0 < inc then 1 else 0)\<rparr>)"

text \<open>The \<^verbatim>\<open>while (inlen > BLAKE2S_BLOCKBYTES)\<close> loop: the state and the bytes left.\<close>

function blake2s_blocks :: "blake2s_state \<Rightarrow> bytes \<Rightarrow> blake2s_state \<times> bytes" where
  "blake2s_blocks S pin =
     (if length pin > BLAKE2S_BLOCKBYTES
      then blake2s_blocks (blake2s_compress (blake2s_increment_counter S 64) (take 64 pin)) (drop 64 pin)
      else (S, pin))"
  by pat_completeness auto
termination by (relation "measure (\<lambda>(S, pin). length pin)") auto

declare blake2s_blocks.simps [simp del]

definition blake2s_update :: "blake2s_state \<Rightarrow> bytes \<Rightarrow> int \<times> blake2s_state" where
  "blake2s_update S pin =
     (if pin = [] then (0, S)
      else
        let left = bs_buflen S;
            fill = BLAKE2S_BLOCKBYTES - left;
            (S, pin) =
              (if length pin > fill then
                 let S = S\<lparr>bs_buflen := 0, bs_buf := put left (take fill pin) (bs_buf S)\<rparr>;
                     S = blake2s_increment_counter S 64;
                     S = blake2s_compress S (bs_buf S)
                 in blake2s_blocks S (drop fill pin)
               else (S, pin))
        in (0, S\<lparr>bs_buf := put (bs_buflen S) pin (bs_buf S), bs_buflen := bs_buflen S + length pin\<rparr>))"

definition blake2s_init_key :: "blake2s_state \<Rightarrow> nat \<Rightarrow> bytes option \<Rightarrow> int \<times> blake2s_state" where
  "blake2s_init_key S outlen key =
     (if outlen = 0 \<or> outlen > BLAKE2S_OUTBYTES then (-1, S)
      else case key of
        None \<Rightarrow> (-1, S)
      | Some k \<Rightarrow>
          if k = [] \<or> length k > BLAKE2S_KEYBYTES then (-1, S)
          else
            let S = blake2s_init_param (param_zero\<lparr>digest_length := of_nat outlen,
                      key_length := of_nat (length k), fanout := 1, depth := 1\<rparr>);
                block = put 0 k (zeros 64)
            in blake2s_update S block)"

text \<open>The result holds what \<^verbatim>\<open>blake2s_final\<close> writes at \<^verbatim>\<open>out\<close>; \<open>None\<close> for an output
  pointer of \<^verbatim>\<open>NULL\<close> and, in the result, for nothing written.\<close>

definition blake2s_final :: "blake2s_state \<Rightarrow> bool \<Rightarrow> nat \<Rightarrow> (int \<times> bytes option) \<times> blake2s_state" where
  "blake2s_final S out_nonnull outlen =
     (if \<not> out_nonnull \<or> outlen < bs_outlen S then ((-1, None), S)
      else
        let S = S\<lparr>bs_f0 := -1\<rparr>;
            S = (if bs_last_node S \<noteq> 0 then S\<lparr>bs_f1 := -1\<rparr> else S);
            S = blake2s_increment_counter S (of_nat (bs_buflen S));
            S = S\<lparr>bs_buf := put (bs_buflen S) (zeros (64 - bs_buflen S)) (bs_buf S)\<rparr>;
            S = blake2s_compress S (bs_buf S);
            buffer = concat (map store32 (bs_h S))
        in ((0, Some (take (bs_outlen S) buffer)), S))"

definition blake2s :: "blake2s_state \<Rightarrow> nat \<Rightarrow> bytes \<Rightarrow> bytes option \<Rightarrow> nat \<Rightarrow> int \<times> bytes option" where
  "blake2s S outlen inp key keylen =
     (let (ret, S) = (if keylen > 0 then blake2s_init_key S outlen key else blake2s_init S outlen)
      in if ret < 0 then (ret, None)
         else
           let (r, S) = blake2s_update S inp
           in if r < 0 then (-1, None)
              else fst (blake2s_final S True outlen))"

section \<open>The specification of RFC 7693\<close>

text \<open>The compression function \<open>F\<close> of section 3.2, with the 64-bit offset counter \<open>t\<close> and
  the final-block flag, and the hash of section 3.3: \<open>dd\<close> blocks of the (key-prefixed)
  message, the last one zero-padded.\<close>

definition rfc_F :: "u32 list \<Rightarrow> bytes \<Rightarrow> u64 \<Rightarrow> bool \<Rightarrow> u32 list" where
  "rfc_F h block t final =
     (let m = map (\<lambda>i. of_le (slice (i * 4) 4 block)) [0..<16];
          v = h @ blake2s_IV;
          v = v[12 := v ! 12 XOR ucast t, 13 := v ! 13 XOR ucast (drop_bit 32 t)];
          v = (if final then v[14 := v ! 14 XOR 0xFFFFFFFF] else v);
          v = fold (ROUND m) [0..<10] v
      in map (\<lambda>i. h ! i XOR v ! i XOR v ! (i + 8)) [0..<8])"

definition rfc_block :: "bytes \<Rightarrow> nat \<Rightarrow> bytes" where
  "rfc_block M i = slice (64 * i) 64 M @ zeros (64 - length (slice (64 * i) 64 M))"

definition rfc_rounds :: "u32 list \<Rightarrow> bytes \<Rightarrow> nat \<Rightarrow> u32 list" where
  "rfc_rounds h M n = fold (\<lambda>i h. rfc_F h (rfc_block M i) (of_nat ((i + 1) * 64)) False) [0..<n] h"

definition rfc_blake2s :: "bytes \<Rightarrow> bytes \<Rightarrow> nat \<Rightarrow> bytes" where
  "rfc_blake2s M key nn =
     (let h = blake2s_IV[0 := blake2s_IV ! 0 XOR 0x01010000 XOR push_bit 8 (of_nat (length key)) XOR of_nat nn];
          d = (if key = [] then [] else key @ zeros (64 - length key)) @ M;
          dd = max 1 ((length d + 63) div 64);
          h = rfc_rounds h d (dd - 1);
          h = rfc_F h (rfc_block d (dd - 1)) (of_nat (length d)) True
      in take nn (concat (map le32 h)))"

section \<open>The byte counter\<close>

definition ctr :: "blake2s_state \<Rightarrow> u64" where
  "ctr S = of_nat (unat (bs_t0 S) + 2 ^ 32 * unat (bs_t1 S))"

lemma unat_add_carry:
  "unat (a + b :: u32) + (if a + b < b then 2 ^ 32 else 0) = unat a + unat b"
proof (cases "unat a + unat b < 2 ^ 32")
  case True
  then have "unat (a + b) = unat a + unat b" by (simp add: unat_word_ariths)
  then show ?thesis by (simp add: word_less_nat_alt)
next
  case False
  then have "unat (a + b) = unat a + unat b - 2 ^ 32"
    using unat_lt2p [of a] unat_lt2p [of b] by (simp add: unat_word_ariths le_mod_geq)
  with False show ?thesis
    using unat_lt2p [of a] by (simp add: word_less_nat_alt)
qed

lemma of_nat_unat_shift:
  "(of_nat (2 ^ 32 * unat (a + 1 :: u32)) :: u64) = of_nat (2 ^ 32 * (unat a + 1))"
proof (cases "a = -1")
  case True
  then have "unat a = 2 ^ 32 - 1" by (simp add: unsigned_minus_1_eq_mask mask_eq_exp_minus_1)
  with True show ?thesis by simp
next
  case False
  then have "unat (a + 1) = unat a + 1"
    using unatSuc [of a] by (metis Suc_eq_plus1 add.commute add_eq_0_iff)
  then show ?thesis by simp
qed

lemma ctr_increment: "ctr (blake2s_increment_counter S inc) = ctr S + of_nat (unat inc)"
proof -
  let ?t = "bs_t0 S + inc" and ?c = "bs_t0 S + inc < inc"
  have "(of_nat (2 ^ 32 * unat (bs_t1 S + (if ?c then 1 else 0))) :: u64)
      = of_nat (2 ^ 32 * unat (bs_t1 S) + (if ?c then 2 ^ 32 else 0))"
    using of_nat_unat_shift [of "bs_t1 S"] by simp
  then have "ctr (blake2s_increment_counter S inc)
      = of_nat (unat ?t + (if ?c then 2 ^ 32 else 0) + 2 ^ 32 * unat (bs_t1 S))"
    unfolding ctr_def blake2s_increment_counter_def Let_def of_nat_add by simp
  also have "\<dots> = of_nat (unat (bs_t0 S) + unat inc + 2 ^ 32 * unat (bs_t1 S))"
    unfolding unat_add_carry ..
  finally show ?thesis by (simp add: ctr_def)
qed

lemma ctr_halves: "ucast (ctr S) = bs_t0 S" "ucast (drop_bit 32 (ctr S)) = bs_t1 S"
proof -
  have "unat (bs_t0 S) + 2 ^ 32 * unat (bs_t1 S) < 2 ^ 64"
    using unat_lt2p [of "bs_t0 S"] unat_lt2p [of "bs_t1 S"] by simp
  then have u: "unat (ctr S) = unat (bs_t0 S) + 2 ^ 32 * unat (bs_t1 S)"
    unfolding ctr_def by (simp only: unat_of_nat) (simp add: mod_less)
  have t0: "unat (bs_t0 S) < 2 ^ 32" using unat_lt2p [of "bs_t0 S"] by simp
  show "ucast (ctr S) = bs_t0 S"
    by (rule word_unat_eq_iff [THEN iffD2]) (use t0 in \<open>simp add: unsigned_ucast_eq u unat_take_bit take_bit_eq_mod\<close>)
  have "unat (drop_bit 32 (ctr S)) = unat (bs_t1 S)"
    unfolding unat_drop_bit u using t0 by simp
  then show "ucast (drop_bit 32 (ctr S)) = bs_t1 S"
    using unat_lt2p [of "bs_t1 S"] by (simp add: word_unat_eq_iff unsigned_ucast_eq take_bit_eq_mod)
qed

section \<open>The streaming state represents the message so far\<close>

lemma compress_fields [simp]:
  "bs_t0 (blake2s_compress S B) = bs_t0 S" "bs_t1 (blake2s_compress S B) = bs_t1 S"
  "bs_f0 (blake2s_compress S B) = bs_f0 S" "bs_f1 (blake2s_compress S B) = bs_f1 S"
  "bs_buf (blake2s_compress S B) = bs_buf S" "bs_buflen (blake2s_compress S B) = bs_buflen S"
  "bs_outlen (blake2s_compress S B) = bs_outlen S" "bs_last_node (blake2s_compress S B) = bs_last_node S"
  "ctr (blake2s_compress S B) = ctr S" "length (bs_h (blake2s_compress S B)) = 8"
  by (simp_all add: blake2s_compress_def ctr_def Let_def)

lemma increment_fields [simp]:
  "bs_h (blake2s_increment_counter S i) = bs_h S"
  "bs_f0 (blake2s_increment_counter S i) = bs_f0 S" "bs_f1 (blake2s_increment_counter S i) = bs_f1 S"
  "bs_buf (blake2s_increment_counter S i) = bs_buf S" "bs_buflen (blake2s_increment_counter S i) = bs_buflen S"
  "bs_outlen (blake2s_increment_counter S i) = bs_outlen S"
  "bs_last_node (blake2s_increment_counter S i) = bs_last_node S"
  by (simp_all add: blake2s_increment_counter_def Let_def)

lemma compress_is_F:
  assumes "length (bs_h S) = 8" "bs_f1 S = 0" "bs_f0 S = (if final then -1 else 0)"
  shows "bs_h (blake2s_compress S B) = rfc_F (bs_h S) B (ctr S) final"
proof -
  have h: "map ((!) (bs_h S)) [0..<8] = bs_h S" using assms(1) by (metis map_nth)
  have "(bs_h S @ w) ! (8 + k) = w ! k" for w k using assms(1) by (simp add: nth_append)
  from this [of _ 4] this [of _ 5] this [of _ 6]
  have "(bs_h S @ w) ! 12 = w ! 4" "(bs_h S @ w) ! 13 = w ! 5" "(bs_h S @ w) ! 14 = w ! 6" for w by simp_all
  moreover have m1: "(0xFFFFFFFF :: u32) = -1" by simp
  ultimately show ?thesis
    using assms by (simp add: m1 blake2s_compress_def rfc_F_def Let_def h ctr_halves load32_def
      blake2s_IV_def list_update_append xor.commute)
qed

lemma length_rfc_F [simp]: "length (rfc_F h B t f) = 8"
  by (simp add: rfc_F_def Let_def)

text \<open>\<open>absorbed h D\<close>: the chaining value after the full blocks \<open>D\<close>.\<close>

definition absorbed :: "u32 list \<Rightarrow> bytes \<Rightarrow> u32 list" where
  "absorbed h D = rfc_rounds h D (length D div 64)"

lemma rfc_block_append: "64 * (i + 1) \<le> length D \<Longrightarrow> rfc_block (D @ x) i = rfc_block D i"
  by (simp add: rfc_block_def slice_def)

lemma rfc_rounds_append:
  assumes "64 * n \<le> length D" shows "rfc_rounds h (D @ x) n = rfc_rounds h D n"
  unfolding rfc_rounds_def
proof (rule fold_cong)
  fix i assume "i \<in> set [0..<n]"
  then have "64 * (i + 1) \<le> length D" using assms by simp
  then show "(\<lambda>h. rfc_F h (rfc_block (D @ x) i) (of_nat ((i + 1) * 64)) False)
      = (\<lambda>h. rfc_F h (rfc_block D i) (of_nat ((i + 1) * 64)) False)"
    by (simp only: rfc_block_append)
qed simp_all

lemma absorbed_snoc:
  assumes "64 dvd length D" "length B = 64"
  shows "absorbed h (D @ B) = rfc_F (absorbed h D) B (of_nat (length D + 64)) False"
proof -
  obtain n where n: "length D = 64 * n" using assms(1) by (rule dvdE)
  have "rfc_block (D @ B) n = B" using assms(2) n by (simp add: rfc_block_def slice_def zeros_def)
  moreover have "rfc_rounds h (D @ B) (Suc n) =
      rfc_F (rfc_rounds h (D @ B) n) (rfc_block (D @ B) n) (of_nat ((n + 1) * 64)) False"
    by (simp add: rfc_rounds_def)
  ultimately show ?thesis
    unfolding absorbed_def using assms(2) n by (simp add: rfc_rounds_append algebra_simps)
qed

lemma absorbed_Nil [simp]: "absorbed h [] = h"
  by (simp add: absorbed_def rfc_rounds_def)

text \<open>\<open>repr h0 nn M S\<close>: \<open>S\<close> is the state after hashing \<open>M\<close> from \<open>h0\<close>; the last block is kept back.\<close>

definition repr :: "u32 list \<Rightarrow> nat \<Rightarrow> bytes \<Rightarrow> blake2s_state \<Rightarrow> bool" where
  "repr h0 nn M S \<longleftrightarrow> length (bs_h S) = 8 \<and> length (bs_buf S) = 64 \<and> bs_buflen S \<le> 64 \<and>
     (bs_buflen S = 0 \<longrightarrow> M = []) \<and> bs_f0 S = 0 \<and> bs_f1 S = 0 \<and> bs_outlen S = nn \<and> bs_last_node S = 0 \<and>
     (\<exists>D. M = D @ take (bs_buflen S) (bs_buf S) \<and> 64 dvd length D \<and> bs_h S = absorbed h0 D \<and>
       ctr S = of_nat (length D))"

text \<open>The state between two blocks of an update: everything in \<open>D\<close> is compressed.\<close>

definition drained :: "u32 list \<Rightarrow> nat \<Rightarrow> bytes \<Rightarrow> blake2s_state \<Rightarrow> bool" where
  "drained h0 nn D S \<longleftrightarrow> length (bs_h S) = 8 \<and> length (bs_buf S) = 64 \<and> bs_buflen S = 0 \<and>
     bs_f0 S = 0 \<and> bs_f1 S = 0 \<and> bs_outlen S = nn \<and> bs_last_node S = 0 \<and>
     64 dvd length D \<and> bs_h S = absorbed h0 D \<and> ctr S = of_nat (length D)"

lemma compress_drained:
  assumes "length (bs_h S) = 8" "length (bs_buf S) = 64" "bs_buflen S = 0" "bs_f0 S = 0" "bs_f1 S = 0"
    "bs_outlen S = nn" "bs_last_node S = 0" "64 dvd length D" "bs_h S = absorbed h0 D"
    "ctr S = of_nat (length D)" "length B = 64"
  shows "drained h0 nn (D @ B) (blake2s_compress (blake2s_increment_counter S 64) B)"
proof -
  let ?S = "blake2s_increment_counter S 64"
  have c: "ctr ?S = of_nat (length D + 64)" using assms(10) by (simp add: ctr_increment)
  have "bs_h (blake2s_compress ?S B) = rfc_F (absorbed h0 D) B (of_nat (length D + 64)) False"
    using compress_is_F [of ?S False B] assms unfolding c by simp
  then show ?thesis
    using assms c by (simp add: drained_def absorbed_snoc)
qed

lemma blocks_drained:
  assumes "drained h0 nn D S"
  shows "\<exists>D' S' rest. blake2s_blocks S pin = (S', rest) \<and> D @ pin = D' @ rest \<and> length rest \<le> 64 \<and>
    (pin \<noteq> [] \<longrightarrow> rest \<noteq> []) \<and> drained h0 nn D' S'"
  using assms
proof (induction S pin arbitrary: D rule: blake2s_blocks.induct)
  case (1 S pin)
  show ?case
  proof (cases "length pin > 64")
    case False
    then show ?thesis using 1(2) by (subst blake2s_blocks.simps) auto
  next
    case True
    let ?S = "blake2s_compress (blake2s_increment_counter S 64) (take 64 pin)"
    have "drained h0 nn (D @ take 64 pin) ?S"
      using 1(2) True by (intro compress_drained) (auto simp: drained_def)
    from 1(1) [OF _ this] True obtain D' S' rest where
      "blake2s_blocks ?S (drop 64 pin) = (S', rest)" "(D @ take 64 pin) @ drop 64 pin = D' @ rest"
      "length rest \<le> 64" "drop 64 pin \<noteq> [] \<longrightarrow> rest \<noteq> []" "drained h0 nn D' S'" by auto
    moreover have "blake2s_blocks S pin = blake2s_blocks ?S (drop 64 pin)"
      using True by (subst blake2s_blocks.simps) simp
    ultimately show ?thesis using True by auto
  qed
qed

lemma drained_repr:
  assumes "drained h0 nn D S" "length x \<le> 64" "x \<noteq> []"
  shows "repr h0 nn (D @ x) (S\<lparr>bs_buf := put (bs_buflen S) x (bs_buf S), bs_buflen := bs_buflen S + length x\<rparr>)"
  using assms unfolding drained_def repr_def
  by (auto simp: put_def ctr_def intro!: exI [of _ D])

lemma update_repr:
  assumes "repr h0 nn M S"
  shows "fst (blake2s_update S x) = 0 \<and> repr h0 nn (M @ x) (snd (blake2s_update S x))"
proof -
  from assms obtain D where D: "M = D @ take (bs_buflen S) (bs_buf S)" "64 dvd length D"
    "bs_h S = absorbed h0 D" "ctr S = of_nat (length D)" by (auto simp: repr_def)
  consider "x = []" | "x \<noteq> []" "length x \<le> 64 - bs_buflen S" | "length x > 64 - bs_buflen S" by fastforce
  then show ?thesis
  proof cases
    case 1
    then show ?thesis using assms by (simp add: blake2s_update_def)
  next
    case 2
    then show ?thesis using assms D unfolding repr_def
      by (auto simp: blake2s_update_def put_def ctr_def Let_def intro!: exI [of _ D])
  next
    case 3
    let ?fill = "64 - bs_buflen S"
    let ?buf = "put (bs_buflen S) (take ?fill x) (bs_buf S)"
    let ?S1 = "S\<lparr>bs_buflen := 0, bs_buf := ?buf\<rparr>"
    let ?S2 = "blake2s_compress (blake2s_increment_counter ?S1 64) ?buf"
    have buf: "?buf = take (bs_buflen S) (bs_buf S) @ take ?fill x"
      using assms 3 by (simp add: put_def repr_def)
    have "drained h0 nn (D @ ?buf) ?S2"
      using assms 3 D by (intro compress_drained) (simp_all add: repr_def ctr_def put_def)
    from blocks_drained [OF this, of "drop ?fill x"] obtain D' S' rest where
      r: "blake2s_blocks ?S2 (drop ?fill x) = (S', rest)" "(D @ ?buf) @ drop ?fill x = D' @ rest"
        "length rest \<le> 64" "rest \<noteq> []" "drained h0 nn D' S'" using 3 by auto
    have "M @ x = D' @ rest" using r(2) unfolding buf D(1) by (metis append.assoc append_take_drop_id)
    moreover have "x \<noteq> []" using 3 by auto
    ultimately show ?thesis
      using 3 drained_repr [OF r(5,3,4)] r(1) by (simp add: blake2s_update_def Let_def)
  qed
qed

lemma length_concat_le32: "length (concat (map le32 h)) = 4 * length h"
  by (induction h) simp_all

lemma final_digest:
  assumes "repr h0 nn M S" "nn \<le> outlen" "nn \<le> 32"
  shows "fst (blake2s_final S True outlen) =
    (0, Some (take nn (concat (map le32 (let n = (length M + 63) div 64 in
       rfc_F (rfc_rounds h0 M (max 1 n - 1)) (rfc_block M (max 1 n - 1)) (of_nat (length M)) True)))))"
proof -
  from assms(1) obtain D where D: "M = D @ take (bs_buflen S) (bs_buf S)" "64 dvd length D"
    "bs_h S = absorbed h0 D" "ctr S = of_nat (length D)" by (auto simp: repr_def)
  have f: "length (bs_h S) = 8" "length (bs_buf S) = 64" "bs_buflen S \<le> 64" "bs_buflen S = 0 \<longrightarrow> M = []"
    "bs_f0 S = 0" "bs_f1 S = 0" "bs_outlen S = nn" "bs_last_node S = 0" using assms(1) by (auto simp: repr_def)
  obtain k where k: "length D = 64 * k" using D(2) by (rule dvdE)
  have len: "length M = 64 * k + bs_buflen S" using D(1) k f(2,3) by simp
  have blk: "max 1 ((length M + 63) div 64) - 1 = k"
  proof (cases "bs_buflen S = 0")
    case True
    then show ?thesis using f(4) len by simp
  next
    case False
    then have "length M + 63 = (k + 1) * 64 + (bs_buflen S - 1)" "bs_buflen S - 1 < 64" using len f(3) by simp_all
    then have "(length M + 63) div 64 = k + 1" by simp
    then show ?thesis by simp
  qed
  let ?buf = "put (bs_buflen S) (zeros (64 - bs_buflen S)) (bs_buf S)"
  have last: "rfc_block M k = ?buf"
    using D(1) k f(2,3) by (simp add: rfc_block_def slice_def put_def)
  let ?S = "blake2s_increment_counter (S\<lparr>bs_f0 := -1\<rparr>) (of_nat (bs_buflen S))"
  have "unat (of_nat (bs_buflen S) :: u32) = bs_buflen S" using f(3) by (simp add: unat_of_nat)
  then have "ctr (?S\<lparr>bs_buf := ?buf\<rparr>) = of_nat (length M)"
    using D(4) len k ctr_increment [of "S\<lparr>bs_f0 := -1\<rparr>" "of_nat (bs_buflen S)"]
    by (simp add: ctr_def)
  with compress_is_F [of "?S\<lparr>bs_buf := ?buf\<rparr>" True ?buf] f D(3)
  have "bs_h (blake2s_compress (?S\<lparr>bs_buf := ?buf\<rparr>) ?buf) = rfc_F (absorbed h0 D) ?buf (of_nat (length M)) True"
    by (simp only: increment_fields) simp
  moreover have "absorbed h0 D = rfc_rounds h0 M k"
    unfolding absorbed_def k D(1) using k by (simp add: rfc_rounds_append)
  moreover have "map store32 = map le32" by (simp add: store32_def fun_eq_iff)
  ultimately show ?thesis
    unfolding Let_def blk last using f assms(2) D(3) by (simp add: blake2s_final_def Let_def)
qed

lemma or_xor_disjoint:
  assumes "\<And>n. bit (c :: u32) n \<longleftrightarrow> n = 16 \<or> n = 24" "\<And>n. bit (e :: u32) n \<longleftrightarrow> n = 8 \<or> n = 16"
  shows "ucast (a :: u8) OR push_bit 8 (ucast (b :: u8) OR e) = c XOR push_bit 8 (ucast b) XOR ucast a"
proof -
  have "\<not> bit a k" "\<not> bit b k" if "8 \<le> k" for k using that by (auto dest: bit_imp_le_length)
  then show ?thesis
    by (intro bit_word_eqI) (auto simp: bit_simps assms)
qed

lemma param_word:
  "of_le [a, b, 1, 1] = (0x01010000 XOR push_bit 8 (ucast b) XOR ucast a :: u32)"
proof -
  have c: "(0x01010000 :: u32) = push_bit 16 1 OR push_bit 24 1" and e: "(0x010100 :: u32) = push_bit 8 1 OR push_bit 16 1"
    by simp_all
  have "bit (0x01010000 :: u32) n \<longleftrightarrow> n = 16 \<or> n = 24" for n
    unfolding c by (simp only: bit_or_iff bit_push_bit_iff bit_1_iff) auto
  moreover have "bit (0x010100 :: u32) n \<longleftrightarrow> n = 8 \<or> n = 16" for n
    unfolding e by (simp only: bit_or_iff bit_push_bit_iff bit_1_iff) auto
  ultimately have "ucast a OR push_bit 8 (ucast b OR 0x010100) = (0x01010000 XOR push_bit 8 (ucast b) XOR ucast a :: u32)"
    by (rule or_xor_disjoint)
  then show ?thesis by simp
qed

lemma load_zeros: "i < 7 \<Longrightarrow> length h = 4 \<Longrightarrow> load32 (h @ zeros 28) (4 * Suc i) = 0"
proof -
  have "of_le (replicate n 0) = (0 :: u32)" for n by (induction n) simp_all
  then show "i < 7 \<Longrightarrow> length h = 4 \<Longrightarrow> load32 (h @ zeros 28) (4 * Suc i) = 0"
    by (simp add: load32_def slice_def zeros_def min_def)
qed

lemma init_param_repr:
  assumes "nn \<le> 32" "length k \<le> 32"
  shows "repr (blake2s_IV[0 := blake2s_IV ! 0 XOR 0x01010000 XOR push_bit 8 (of_nat (length k)) XOR of_nat nn]) nn []
    (blake2s_init_param (param_zero\<lparr>digest_length := of_nat nn, key_length := of_nat (length k), fanout := 1, depth := 1\<rparr>))"
proof -
  have "(ucast (of_nat nn :: u8) :: u32) = of_nat nn" "(ucast (of_nat (length k) :: u8) :: u32) = of_nat (length k)"
    using assms by (simp_all add: unsigned_of_nat take_bit_eq_mod)
  with param_word [of "of_nat nn" "of_nat (length k)"]
  have "of_le [of_nat nn, of_nat (length k), 1, 1] =
      (0x01010000 XOR push_bit 8 (of_nat (length k)) XOR of_nat nn :: u32)" by simp
  moreover let ?P = "param_zero\<lparr>digest_length := of_nat nn, key_length := of_nat (length k), fanout := 1, depth := 1\<rparr>"
  have p: "param_bytes ?P = [of_nat nn, of_nat (length k), 1, 1] @ zeros 28"
    unfolding param_bytes_def param_zero_def zeros_def by (simp add: numeral_eq_Suc)
  moreover have "load32 (param_bytes ?P) 0 = of_le [of_nat nn, of_nat (length k), 1, 1]"
    unfolding p by (simp add: load32_def slice_def)
  ultimately have l0: "load32 (param_bytes ?P) 0 = 0x01010000 XOR push_bit 8 (of_nat (length k)) XOR of_nat nn"
    by simp
  have l: "load32 (param_bytes ?P) (4 * Suc i) = 0" if "i < 7" for i
    unfolding p using that by (intro load_zeros) simp_all
  have "[0..<8] = 0 # map Suc [0..<7]" by (simp add: map_Suc_upt upt_rec)
  then have "bs_h (blake2s_init_param ?P) =
      (blake2s_IV ! 0 XOR load32 (param_bytes ?P) 0) # map (\<lambda>i. blake2s_IV ! Suc i XOR 0) [0..<7]"
    unfolding blake2s_init_param_def Let_def using l by simp
  also have "map (\<lambda>i. blake2s_IV ! Suc i XOR 0) [0..<7] = tl blake2s_IV"
    unfolding blake2s_IV_def by (simp add: upt_rec)
  finally have h: "bs_h (blake2s_init_param ?P)
      = blake2s_IV[0 := blake2s_IV ! 0 XOR 0x01010000 XOR push_bit 8 (of_nat (length k)) XOR of_nat nn]"
    unfolding l0 by (simp add: blake2s_IV_def xor.assoc)
  have "unat (of_nat nn :: u8) = nn" using assms(1) by (simp add: unat_of_nat)
  then show ?thesis
    unfolding repr_def h
    by (simp add: blake2s_init_param_def Let_def param_zero_def ctr_def) (simp add: blake2s_IV_def)
qed

lemma blake2s_init_repr:
  assumes "0 < outlen" "outlen \<le> 32"
  shows "\<exists>S'. blake2s_init S outlen = (0, S') \<and>
    repr (blake2s_IV[0 := blake2s_IV ! 0 XOR 0x01010000 XOR push_bit 8 (of_nat (length ([] :: bytes))) XOR of_nat outlen])
      outlen [] S'"
  using assms init_param_repr [of outlen "[]"] by (simp add: blake2s_init_def param_zero_def)

lemma repr_digest:
  assumes "repr (blake2s_IV[0 := blake2s_IV ! 0 XOR 0x01010000 XOR push_bit 8 (of_nat (length ([] :: bytes))) XOR of_nat outlen])
      outlen M S" "outlen \<le> 32"
  shows "fst (blake2s_final S True outlen) = (0, Some (rfc_blake2s M [] outlen))"
  using final_digest [OF assms(1), of outlen] assms(2) by (simp add: rfc_blake2s_def Let_def)

lemma blake2s_none:
  assumes "0 < outlen" "outlen \<le> 32"
  shows "blake2s S outlen inp None 0 = (0, Some (rfc_blake2s inp [] outlen))"
proof -
  obtain S' where S': "blake2s_init S outlen = (0, S')"
    "repr (blake2s_IV[0 := blake2s_IV ! 0 XOR 0x01010000 XOR push_bit 8 (of_nat (length ([] :: bytes))) XOR of_nat outlen])
      outlen [] S'" using blake2s_init_repr [OF assms] by blast
  from repr_digest [OF conjunct2 [OF update_repr [OF S'(2), of inp]] assms(2)] update_repr [OF S'(2), of inp] S'(1)
  show ?thesis by (simp add: blake2s_def case_prod_beta)
qed

lemma length_blake2s:
  assumes "0 < outlen" "outlen \<le> 32" "length key \<le> 32"
  shows "length (rfc_blake2s inp key outlen) = outlen"
  using assms by (simp add: rfc_blake2s_def Let_def length_concat_le32)

lemma blake2s_key:
  assumes "0 < outlen" "outlen \<le> 32" "length key \<le> 32"
  shows "blake2s S outlen inp (Some key) (length key) = (0, Some (rfc_blake2s inp key outlen))"
proof (cases "key = []")
  case True
  let ?S = "blake2s_init_param (param_zero\<lparr>digest_length := of_nat outlen, fanout := 1, depth := 1\<rparr>)"
  have "repr (blake2s_IV[0 := blake2s_IV ! 0 XOR 0x01010000 XOR push_bit 8 (of_nat (length key)) XOR of_nat outlen])
      outlen [] ?S"
    using init_param_repr [OF assms(2,3)] True by (simp add: param_zero_def)
  from final_digest [OF conjunct2 [OF update_repr [OF this, of inp]], of outlen] update_repr [OF this, of inp]
  show ?thesis
    using True assms by (simp add: blake2s_def blake2s_init_def rfc_blake2s_def Let_def case_prod_beta)
next
  case False
  let ?S = "blake2s_init_param (param_zero\<lparr>digest_length := of_nat outlen, key_length := of_nat (length key),
    fanout := 1, depth := 1\<rparr>)"
  have blk: "put 0 key (zeros 64) = key @ zeros (64 - length key)"
    using assms(3) by (simp add: put_def zeros_def)
  note r1 = update_repr [OF init_param_repr [OF assms(2,3)], of "key @ zeros (64 - length key)"]
  note r2 = update_repr [OF conjunct2 [OF r1], of inp]
  from final_digest [OF conjunct2 [OF r2], of outlen] r1 r2
  show ?thesis
    using False assms by (simp add: blake2s_def blake2s_init_key_def rfc_blake2s_def Let_def blk case_prod_beta)
qed

section \<open>Properties\<close>



text \<open>\<^bold>\<open>C16\<close>. Hashing is independent of how the input is cut into updates: any sequence of
  updates after a successful initialisation gives the digest of the concatenated input.\<close>

theorem blake2s_streaming:
  assumes "0 < outlen" "outlen \<le> 32" "blake2s_init S outlen = (0, S0)"
  shows "fst (blake2s_final (fold (\<lambda>x S. snd (blake2s_update S x)) parts S0) True outlen)
    = blake2s S outlen (concat parts) None 0"
proof -
  define h0 where "h0 = blake2s_IV[0 := blake2s_IV ! 0 XOR 0x01010000 XOR push_bit 8 (of_nat (length ([] :: bytes)))
    XOR of_nat outlen]"
  have S0: "repr h0 outlen [] S0"
    using init_param_repr [of outlen "[]"] assms by (simp add: blake2s_init_def h0_def param_zero_def)
  have "repr h0 outlen (M @ concat parts) (fold (\<lambda>x S. snd (blake2s_update S x)) parts T)"
    if "repr h0 outlen M T" for M T
    using that
  proof (induction parts arbitrary: M T)
    case (Cons x parts)
    from Cons.IH [OF conjunct2 [OF update_repr [OF Cons.prems, of x]]] show ?case by simp
  qed simp
  from final_digest [OF this [OF S0], of outlen]
    final_digest [OF conjunct2 [OF update_repr [OF S0, of "concat parts"]], of outlen]
    update_repr [OF S0, of "concat parts"]
  show ?thesis using assms by (simp add: blake2s_def case_prod_beta)
qed

theorem blake2s_streaming_witness:
  "fst (blake2s_final (fold (\<lambda>x S. snd (blake2s_update S x)) [[1, 2], [], [3]]
      (snd (blake2s_init (blake2s_init_param param_zero) 16))) True 16)
    = blake2s (blake2s_init_param param_zero) 16 [1, 2, 3] None 0"
  using blake2s_streaming [of 16 "blake2s_init_param param_zero" "snd (blake2s_init (blake2s_init_param param_zero) 16)"
    "[[1, 2], [], [3]]"] by (simp add: blake2s_init_def)

text \<open>Rejected parameters: the error paths of the initialisers.\<close>

lemma blake2s_rejects:
  "outlen = 0 \<or> outlen > 32 \<Longrightarrow> blake2s S outlen inp key keylen = (-1, None)"
  "length k > 32 \<Longrightarrow> blake2s S outlen inp (Some k) (length k) = (-1, None)"
  "keylen > 0 \<Longrightarrow> blake2s S outlen inp None keylen = (-1, None)"
  by (auto simp: blake2s_def blake2s_init_def blake2s_init_key_def)

end
