(* ===== verification/Crypto.thy ===== *)
theory Crypto
  imports Blake2s
begin

text \<open>
  The crypto wrappers (\<^verbatim>\<open>src/src/crypto.c\<close>, \<^verbatim>\<open>crypto.h\<close>). libsodium is not part of
  the sources: its functions are the fields of the record \<open>sodium\<close>, an argument of
  every wrapper that calls it, and \<open>sodium_laws\<close> collects the documented behaviour the
  protocol proofs rely on. BLAKE2s, HMAC and the KDFs are the program's own code and
  are proved equal to RFC 2104 HMAC and RFC 5869 HKDF over RFC 7693 BLAKE2s.
\<close>

section \<open>libsodium as a parameter\<close>

text \<open>\<open>s_scalarmult old n p\<close> is the return value and the output buffer, whose contents
  were \<open>old\<close>; decryption gives \<open>None\<close> when authentication fails.\<close>

record sodium =
  s_init :: int
  s_memzero :: "bytes \<Rightarrow> bytes"
  s_memcmp :: "bytes \<Rightarrow> bytes \<Rightarrow> int"
  s_scalarmult_base :: "bytes \<Rightarrow> bytes"
  s_scalarmult :: "bytes \<Rightarrow> bytes \<Rightarrow> bytes \<Rightarrow> int \<times> bytes"
  s_aead_encrypt :: "bytes \<Rightarrow> bytes \<Rightarrow> bytes \<Rightarrow> bytes \<Rightarrow> bytes"
  s_aead_decrypt :: "bytes \<Rightarrow> bytes \<Rightarrow> bytes \<Rightarrow> bytes \<Rightarrow> bytes option"
  s_xaead_encrypt :: "bytes \<Rightarrow> bytes \<Rightarrow> bytes \<Rightarrow> bytes \<Rightarrow> bytes"
  s_xaead_decrypt :: "bytes \<Rightarrow> bytes \<Rightarrow> bytes \<Rightarrow> bytes \<Rightarrow> bytes option"

text \<open>The bytes \<^verbatim>\<open>randombytes_buf\<close> will deliver, in order.\<close>

type_synonym rng = "nat \<Rightarrow> u8"

definition WG_KEY_LEN :: nat where "WG_KEY_LEN = 32"
definition WG_HASH_LEN :: nat where "WG_HASH_LEN = 32"
definition WG_MAC_LEN :: nat where "WG_MAC_LEN = 16"
definition WG_COOKIE_LEN :: nat where "WG_COOKIE_LEN = 16"
definition WG_AEAD_TAG_LEN :: nat where "WG_AEAD_TAG_LEN = 16"
definition WG_NONCE_LEN :: nat where "WG_NONCE_LEN = 12"
definition WG_XNONCE_LEN :: nat where "WG_XNONCE_LEN = 24"
definition WG_PSK_LEN :: nat where "WG_PSK_LEN = 32"

lemmas wg_lens [simp] = WG_KEY_LEN_def WG_HASH_LEN_def WG_MAC_LEN_def WG_COOKIE_LEN_def
  WG_AEAD_TAG_LEN_def WG_NONCE_LEN_def WG_XNONCE_LEN_def WG_PSK_LEN_def

section \<open>Wrappers\<close>

definition wg_sodium_init :: "sodium \<Rightarrow> int" where
  "wg_sodium_init sd = (if s_init sd < 0 then -1 else 0)"

definition wg_memzero :: "sodium \<Rightarrow> bytes \<Rightarrow> bytes" where
  "wg_memzero sd p = s_memzero sd p"

definition wg_ct_equal :: "sodium \<Rightarrow> bytes \<Rightarrow> bytes \<Rightarrow> bool" where
  "wg_ct_equal sd a b \<longleftrightarrow> s_memcmp sd a b = 0"

definition wg_random_bytes :: "sodium \<Rightarrow> rng \<Rightarrow> bytes \<Rightarrow> nat \<Rightarrow> int \<times> bytes \<times> rng" where
  "wg_random_bytes sd r out len =
     (if wg_sodium_init sd \<noteq> 0 then (-1, out, r)
      else (0, map r [0..<len], \<lambda>i. r (i + len)))"

definition wg_clamp_private_key :: "bytes \<Rightarrow> bytes" where
  "wg_clamp_private_key priv =
     (let priv = priv[0 := priv ! 0 AND 248] in priv[31 := (priv ! 31 AND 127) OR 64])"

definition wg_generate_private_key :: "sodium \<Rightarrow> rng \<Rightarrow> bytes \<Rightarrow> int \<times> bytes \<times> rng" where
  "wg_generate_private_key sd r priv =
     (let (ret, priv, r) = wg_random_bytes sd r priv WG_KEY_LEN
      in if ret \<noteq> 0 then (-1, priv, r) else (0, wg_clamp_private_key priv, r))"

definition wg_generate_public_key :: "sodium \<Rightarrow> bytes \<Rightarrow> bytes \<Rightarrow> bytes" where
  "wg_generate_public_key sd pub priv =
     (if wg_sodium_init sd \<noteq> 0 then pub else s_scalarmult_base sd priv)"

definition wg_dh :: "sodium \<Rightarrow> bytes \<Rightarrow> bytes \<Rightarrow> bytes \<Rightarrow> int \<times> bytes" where
  "wg_dh sd shared priv pub =
     (if wg_sodium_init sd \<noteq> 0 then (-1, shared) else s_scalarmult sd shared priv pub)"

text \<open>The AEAD wrappers give the bytes written at \<^verbatim>\<open>out\<close>, or \<open>None\<close> for a return value
  of -1 (nothing usable written).\<close>

definition wg_chacha20poly1305_encrypt :: "sodium \<Rightarrow> bytes \<Rightarrow> bytes \<Rightarrow> bytes \<Rightarrow> bytes \<Rightarrow> bytes option" where
  "wg_chacha20poly1305_encrypt sd key nonce plaintext aad =
     (if wg_sodium_init sd \<noteq> 0 then None else Some (s_aead_encrypt sd key nonce plaintext aad))"

definition wg_chacha20poly1305_decrypt :: "sodium \<Rightarrow> bytes \<Rightarrow> bytes \<Rightarrow> bytes \<Rightarrow> bytes \<Rightarrow> bytes option" where
  "wg_chacha20poly1305_decrypt sd key nonce ciphertext aad =
     (if length ciphertext < WG_AEAD_TAG_LEN then None
      else if wg_sodium_init sd \<noteq> 0 then None
      else s_aead_decrypt sd key nonce ciphertext aad)"

definition wg_xchacha20poly1305_encrypt :: "sodium \<Rightarrow> bytes \<Rightarrow> bytes \<Rightarrow> bytes \<Rightarrow> bytes \<Rightarrow> bytes option" where
  "wg_xchacha20poly1305_encrypt sd key nonce plaintext aad =
     (if wg_sodium_init sd \<noteq> 0 then None else Some (s_xaead_encrypt sd key nonce plaintext aad))"

definition wg_xchacha20poly1305_decrypt :: "sodium \<Rightarrow> bytes \<Rightarrow> bytes \<Rightarrow> bytes \<Rightarrow> bytes \<Rightarrow> bytes option" where
  "wg_xchacha20poly1305_decrypt sd key nonce ciphertext aad =
     (if wg_sodium_init sd \<noteq> 0 then None else s_xaead_decrypt sd key nonce ciphertext aad)"

section \<open>Hash, MAC, HMAC and KDF\<close>

text \<open>The uninitialised stack variable \<^verbatim>\<open>blake2s_state S\<close>; no result depends on it.\<close>

definition stack_state :: blake2s_state where
  "stack_state = blake2s_init_param param_zero"

text \<open>What a callee leaves in an output buffer that held \<open>out\<close>.\<close>

definition written :: "bytes \<Rightarrow> int \<times> bytes option \<Rightarrow> bytes" where
  "written out r = (case snd r of Some d \<Rightarrow> put 0 d out | None \<Rightarrow> out)"

definition wg_blake2s256 :: "bytes \<Rightarrow> bytes" where
  "wg_blake2s256 data = written (zeros 32) (blake2s stack_state WG_HASH_LEN data None 0)"

definition wg_blake2s128_mac :: "bytes \<Rightarrow> bytes \<Rightarrow> bytes \<Rightarrow> bytes" where
  "wg_blake2s128_mac out key data = written out (blake2s stack_state WG_MAC_LEN data (Some key) (length key))"

definition wg_hmac_blake2s :: "bytes \<Rightarrow> bytes \<Rightarrow> bytes option \<Rightarrow> bytes" where
  "wg_hmac_blake2s key in0 in1 =
     (let k = zeros 64;
          k = (if length key > BLAKE2S_BLOCKBYTES
               then written k (blake2s stack_state WG_HASH_LEN key None 0)
               else put 0 key k);
          ipad = map (\<lambda>i. k ! i XOR 0x36) [0..<64];
          opad = map (\<lambda>i. k ! i XOR 0x5c) [0..<64];
          S = snd (blake2s_init stack_state WG_HASH_LEN);
          S = snd (blake2s_update S ipad);
          S = snd (blake2s_update S in0);
          S = (case in1 of Some x \<Rightarrow> if x \<noteq> [] then snd (blake2s_update S x) else S | None \<Rightarrow> S);
          (r, S) = blake2s_final S True WG_HASH_LEN;
          inner = written (zeros 32) r;
          S = snd (blake2s_init S WG_HASH_LEN);
          S = snd (blake2s_update S opad);
          S = snd (blake2s_update S inner)
      in written (zeros 32) (fst (blake2s_final S True WG_HASH_LEN)))"

definition wg_kdf1 :: "bytes \<Rightarrow> bytes \<Rightarrow> bytes" where
  "wg_kdf1 key input =
     (let prk = wg_hmac_blake2s key input None in wg_hmac_blake2s prk [1] None)"

definition wg_kdf2 :: "bytes \<Rightarrow> bytes \<Rightarrow> bytes \<times> bytes" where
  "wg_kdf2 key input =
     (let prk = wg_hmac_blake2s key input None;
          t0 = wg_hmac_blake2s prk [1] None;
          t1 = wg_hmac_blake2s prk t0 (Some [2])
      in (t0, t1))"

definition wg_kdf3 :: "bytes \<Rightarrow> bytes \<Rightarrow> bytes \<times> bytes \<times> bytes" where
  "wg_kdf3 key input =
     (let prk = wg_hmac_blake2s key input None;
          t0 = wg_hmac_blake2s prk [1] None;
          t1 = wg_hmac_blake2s prk t0 (Some [2]);
          t2 = wg_hmac_blake2s prk t1 (Some [3])
      in (t0, t1, t2))"

section \<open>The documented behaviour of libsodium\<close>

text \<open>Initialisation succeeds; \<open>sodium_memcmp\<close> decides equality; \<open>sodium_memzero\<close> zeroes;
  public keys and shared secrets have 32 bytes; X25519 is commutative through the base
  point (and fails, if at all, on both sides); the AEADs append a 16-byte tag and
  decryption inverts encryption.\<close>

definition sodium_laws :: "sodium \<Rightarrow> bool" where
  "sodium_laws sd \<longleftrightarrow>
     0 \<le> s_init sd \<and>
     (\<forall>a b. length a = length b \<longrightarrow> (s_memcmp sd a b = 0 \<longleftrightarrow> a = b)) \<and>
     (\<forall>p. s_memzero sd p = zeros (length p)) \<and>
     (\<forall>n. length n = 32 \<longrightarrow> length (s_scalarmult_base sd n) = 32) \<and>
     (\<forall>old n p. fst (s_scalarmult sd old n p) = -1 \<or>
        fst (s_scalarmult sd old n p) = 0 \<and> length (snd (s_scalarmult sd old n p)) = 32) \<and>
     (\<forall>o1 o2 n p. length n = 32 \<longrightarrow> length p = 32 \<longrightarrow> fst (s_scalarmult sd o1 n (s_scalarmult_base sd p)) = 0 \<longrightarrow>
        s_scalarmult sd o2 p (s_scalarmult_base sd n) = s_scalarmult sd o1 n (s_scalarmult_base sd p)) \<and>
     (\<forall>k n m a. length (s_aead_encrypt sd k n m a) = length m + 16 \<and>
        s_aead_decrypt sd k n (s_aead_encrypt sd k n m a) a = Some m) \<and>
     (\<forall>k n m a. length (s_xaead_encrypt sd k n m a) = length m + 16 \<and>
        s_xaead_decrypt sd k n (s_xaead_encrypt sd k n m a) a = Some m)"

lemma sodium_lawsD:
  assumes "sodium_laws sd"
  shows "wg_sodium_init sd = 0"
    "length a = length b \<Longrightarrow> wg_ct_equal sd a b \<longleftrightarrow> a = b"
    "wg_memzero sd p = zeros (length p)"
    "length n = 32 \<Longrightarrow> length (wg_generate_public_key sd pub n) = 32"
    "wg_chacha20poly1305_encrypt sd k no m ad = Some (s_aead_encrypt sd k no m ad)"
    "length (s_aead_encrypt sd k no m ad) = length m + 16"
    "wg_chacha20poly1305_decrypt sd k no (s_aead_encrypt sd k no m ad) ad = Some m"
    "wg_xchacha20poly1305_encrypt sd k no m ad = Some (s_xaead_encrypt sd k no m ad)"
    "length (s_xaead_encrypt sd k no m ad) = length m + 16"
    "wg_xchacha20poly1305_decrypt sd k no (s_xaead_encrypt sd k no m ad) ad = Some m"
  using assms unfolding sodium_laws_def
  by (simp_all add: wg_sodium_init_def wg_ct_equal_def wg_memzero_def wg_generate_public_key_def
    wg_chacha20poly1305_encrypt_def wg_chacha20poly1305_decrypt_def
    wg_xchacha20poly1305_encrypt_def wg_xchacha20poly1305_decrypt_def)

lemma wg_dh_commutes:
  assumes "sodium_laws sd" "length n = 32" "length p = 32"
    and "wg_dh sd o1 n (wg_generate_public_key sd b1 p) = (0, sh)"
  shows "wg_dh sd o2 p (wg_generate_public_key sd b2 n) = (0, sh)"
  using assms unfolding sodium_laws_def
  by (auto simp: wg_dh_def wg_generate_public_key_def wg_sodium_init_def) (metis fst_conv)

lemma wg_dh_length:
  assumes "sodium_laws sd" "wg_dh sd old n p = (0, sh)"
  shows "length sh = 32"
proof -
  have "s_scalarmult sd old n p = (0, sh)" using assms(2) by (simp add: wg_dh_def split: if_splits)
  moreover have "fst (s_scalarmult sd old n p) = -1 \<or> length (snd (s_scalarmult sd old n p)) = 32"
    using assms(1) unfolding sodium_laws_def by blast
  ultimately show ?thesis by simp
qed

lemma wg_dh_ret:
  assumes "sodium_laws sd"
  shows "\<not> fst (wg_dh sd old n p) < 0 \<longleftrightarrow> fst (wg_dh sd old n p) = 0"
proof -
  have "fst (s_scalarmult sd old n p) = -1 \<or> fst (s_scalarmult sd old n p) = 0"
    using assms unfolding sodium_laws_def by blast
  then show ?thesis using sodium_lawsD(1) [OF assms] by (auto simp: wg_dh_def)
qed

lemma wg_generate_private_key_laws:
  assumes "sodium_laws sd"
  shows "wg_generate_private_key sd r old = (0, wg_clamp_private_key (map r [0..<32]), \<lambda>i. r (i + 32))"
  by (simp add: wg_generate_private_key_def wg_random_bytes_def sodium_lawsD(1) [OF assms])

lemma length_clamp [simp]: "length (wg_clamp_private_key priv) = length priv"
  by (simp add: wg_clamp_private_key_def Let_def)

lemma wg_generate_public_key_laws:
  assumes "sodium_laws sd"
  shows "wg_generate_public_key sd old priv = s_scalarmult_base sd priv"
  by (simp add: wg_generate_public_key_def sodium_lawsD(1) [OF assms])

text \<open>The laws are satisfiable: exclusive-or in place of X25519 and a constant tag in place of
  Poly1305 obey them. Witnesses use this instance.\<close>

definition sodium_example :: sodium where
  "sodium_example = \<lparr>s_init = 0, s_memzero = \<lambda>p. zeros (length p), s_memcmp = \<lambda>a b. if a = b then 0 else -1,
     s_scalarmult_base = \<lambda>n. n,
     s_scalarmult = \<lambda>old n p. if length n = 32 \<and> length p = 32 then (0, map2 (XOR) n p) else (-1, old),
     s_aead_encrypt = \<lambda>k n m a. m @ zeros 16, s_aead_decrypt = \<lambda>k n c a. Some (take (length c - 16) c),
     s_xaead_encrypt = \<lambda>k n m a. m @ zeros 16, s_xaead_decrypt = \<lambda>k n c a. Some (take (length c - 16) c)\<rparr>"

lemma map2_xor_commute: "map2 (XOR) a b = map2 (XOR) b (a :: bytes)"
  by (simp add: zip_commute [of a b] xor.commute case_prod_unfold)

lemma sodium_example_laws: "sodium_laws sodium_example"
  by (auto simp: sodium_laws_def sodium_example_def map2_xor_commute)

section \<open>Functional correctness\<close>

lemma wg_blake2s256_rfc: "wg_blake2s256 data = rfc_blake2s data [] 32"
  using blake2s_none [of 32 stack_state data]
  by (simp add: wg_blake2s256_def written_def put_def length_blake2s)

lemma length_wg_blake2s256 [simp]: "length (wg_blake2s256 data) = 32"
  by (simp add: wg_blake2s256_rfc length_blake2s)

lemma wg_blake2s128_mac_rfc:
  "length key \<le> 32 \<Longrightarrow> length out = 16 \<Longrightarrow> wg_blake2s128_mac out key data = rfc_blake2s data key 16"
  using blake2s_key [of 16 key stack_state data]
  by (simp add: wg_blake2s128_mac_def written_def put_def length_blake2s)

text \<open>RFC 2104: \<open>H(K XOR opad, H(K XOR ipad, text))\<close> with \<open>B = 64\<close>; longer keys are hashed first.\<close>

definition rfc_hmac :: "bytes \<Rightarrow> bytes \<Rightarrow> bytes" where
  "rfc_hmac key txt =
     (let K = (if length key > 64 then rfc_blake2s key [] 32 else key);
          K = K @ zeros (64 - length K)
      in rfc_blake2s (map (\<lambda>b. b XOR 0x5c) K @ rfc_blake2s (map (\<lambda>b. b XOR 0x36) K @ txt) [] 32) [] 32)"

lemma length_rfc_hmac [simp]: "length (rfc_hmac key txt) = 32"
  by (simp add: rfc_hmac_def Let_def length_blake2s)

text \<open>Three updates and a final, as \<^verbatim>\<open>wg_hmac_blake2s\<close> chains them.\<close>

lemma blake2s_updates:
  assumes "blake2s_init S 32 = (0, S0)"
  shows "fst (blake2s_final (snd (blake2s_update S0 a)) True 32) = (0, Some (rfc_blake2s a [] 32)) \<and>
    fst (blake2s_final (snd (blake2s_update (snd (blake2s_update S0 a)) b)) True 32)
      = (0, Some (rfc_blake2s (a @ b) [] 32)) \<and>
    fst (blake2s_final (snd (blake2s_update (snd (blake2s_update (snd (blake2s_update S0 a)) b)) c)) True 32)
      = (0, Some (rfc_blake2s (a @ b @ c) [] 32))"
proof -
  from blake2s_init_repr [of 32 S] assms
  have r0: "repr (blake2s_IV[0 := blake2s_IV ! 0 XOR 0x01010000 XOR push_bit 8 (of_nat (length ([] :: bytes))) XOR of_nat 32])
      32 [] S0" by auto
  note r1 = conjunct2 [OF update_repr [OF r0, of a]]
  note r2 = conjunct2 [OF update_repr [OF r1, of b]]
  note r3 = conjunct2 [OF update_repr [OF r2, of c]]
  show ?thesis
    using repr_digest [OF r1] repr_digest [OF r2] repr_digest [OF r3] by simp
qed

lemma map_nth_64: "length k = 64 \<Longrightarrow> map (\<lambda>i. f (k ! i)) [0..<64] = map f k"
  by (rule nth_equalityI) simp_all

lemma hmac_rfc:
  "wg_hmac_blake2s key in0 in1 = rfc_hmac key (in0 @ (case in1 of Some x \<Rightarrow> x | None \<Rightarrow> []))"
proof -
  define k where "k = (if length key > 64 then written (zeros 64) (blake2s stack_state 32 key None 0) else put 0 key (zeros 64))"
  define K where "K = (if length key > 64 then rfc_blake2s key [] 32 else key)"
  have k: "k = K @ zeros (64 - length K)"
    unfolding k_def K_def using blake2s_none [of 32 stack_state key]
    by (simp add: written_def put_def zeros_def length_blake2s)
  have "length k = 64" unfolding k K_def by (simp add: length_blake2s)
  then have pads: "map (\<lambda>i. k ! i XOR 0x36) [0..<64] = map (\<lambda>b. b XOR 0x36) k"
    "map (\<lambda>i. k ! i XOR 0x5c) [0..<64] = map (\<lambda>b. b XOR 0x5c) k" by (rule map_nth_64)+
  have init: "\<exists>S0. blake2s_init S 32 = (0, S0)" for S using blake2s_init_repr [of 32 S] by auto
  obtain S0 where S0: "blake2s_init stack_state 32 = (0, S0)" using init by blast
  let ?i = "map (\<lambda>b. b XOR 0x36) k" and ?o = "map (\<lambda>b. b XOR 0x5c) k"
  let ?S = "case in1 of Some x \<Rightarrow> if x \<noteq> [] then snd (blake2s_update (snd (blake2s_update (snd (blake2s_update S0 ?i)) in0)) x)
      else snd (blake2s_update (snd (blake2s_update S0 ?i)) in0)
    | None \<Rightarrow> snd (blake2s_update (snd (blake2s_update S0 ?i)) in0)"
  let ?t = "in0 @ (case in1 of Some x \<Rightarrow> x | None \<Rightarrow> [])"
  have inner: "fst (blake2s_final ?S True 32) = (0, Some (rfc_blake2s (?i @ ?t) [] 32))"
    using blake2s_updates [OF S0, of ?i in0] by (simp split: option.split)
  obtain S1 where S1: "blake2s_init (snd (blake2s_final ?S True 32)) 32 = (0, S1)" using init by blast
  have w: "written (zeros 32) (0, Some (rfc_blake2s x [] 32)) = rfc_blake2s x [] 32" for x
    by (simp add: written_def put_def length_blake2s)
  have "wg_hmac_blake2s key in0 in1 = rfc_blake2s (?o @ rfc_blake2s (?i @ ?t) [] 32) [] 32"
    unfolding wg_hmac_blake2s_def Let_def case_prod_beta wg_lens blake2s_consts k_def [symmetric] pads S0 snd_conv
      inner S1 w conjunct1 [OF conjunct2 [OF blake2s_updates [OF S1]]] ..
  then show ?thesis
    unfolding rfc_hmac_def Let_def K_def [symmetric] k by simp
qed

lemma length_hmac [simp]: "length (wg_hmac_blake2s key a b) = 32"
  by (simp add: hmac_rfc)

primrec hkdf_T :: "bytes \<Rightarrow> nat \<Rightarrow> bytes" where
  "hkdf_T prk 0 = []"
| "hkdf_T prk (Suc i) = rfc_hmac prk (hkdf_T prk i @ [of_nat (Suc i)])"

text \<open>\<^bold>\<open>C17\<close>. \<^verbatim>\<open>wg_hmac_blake2s\<close> is HMAC (RFC 2104) over BLAKE2s-256 for keys and inputs of
  any length, the second input optional.\<close>

theorem wg_hmac_blake2s_rfc2104:
  "wg_hmac_blake2s key in0 in1 = rfc_hmac key (in0 @ (case in1 of Some x \<Rightarrow> x | None \<Rightarrow> []))"
  by (rule hmac_rfc)

text \<open>\<^bold>\<open>C18\<close>. The three KDFs are HKDF (RFC 5869) with HMAC-BLAKE2s: extract with the chaining
  key as salt, then the blocks \<open>T(1), T(2), T(3)\<close> of the expand step with empty info.\<close>

theorem wg_kdf_rfc5869:
  "wg_kdf1 key input = hkdf_T (rfc_hmac key input) 1 \<and>
   wg_kdf2 key input = (hkdf_T (rfc_hmac key input) 1, hkdf_T (rfc_hmac key input) 2) \<and>
   wg_kdf3 key input = (hkdf_T (rfc_hmac key input) 1, hkdf_T (rfc_hmac key input) 2, hkdf_T (rfc_hmac key input) 3)"
  by (simp add: wg_kdf1_def wg_kdf2_def wg_kdf3_def hmac_rfc Let_def eval_nat_numeral)

lemma length_kdf [simp]:
  "length (wg_kdf1 key input) = 32"
  "length (fst (wg_kdf2 key input)) = 32" "length (snd (wg_kdf2 key input)) = 32"
  "length (fst (wg_kdf3 key input)) = 32" "length (fst (snd (wg_kdf3 key input))) = 32"
  "length (snd (snd (wg_kdf3 key input))) = 32"
  by (simp_all add: wg_kdf1_def wg_kdf2_def wg_kdf3_def Let_def)

text \<open>Clamping yields a valid X25519 scalar (RFC 7748: a multiple of 8 between \<open>2^254\<close> and
  \<open>2^255\<close>) whatever the random bytes, and clamping again changes nothing.\<close>

theorem wg_clamp_valid:
  assumes "length priv = 32"
  shows "(of_le (wg_clamp_private_key priv) :: 256 word) AND 7 = 0 \<and>
    bit (of_le (wg_clamp_private_key priv) :: 256 word) 254 \<and>
    \<not> bit (of_le (wg_clamp_private_key priv) :: 256 word) 255 \<and>
    wg_clamp_private_key (wg_clamp_private_key priv) = wg_clamp_private_key priv"
proof -
  let ?c = "wg_clamp_private_key priv"
  have c: "?c ! 0 = priv ! 0 AND 248" "?c ! 31 = (priv ! 31 AND 127) OR 64" "length ?c = 32"
    using assms by (simp_all add: wg_clamp_private_key_def Let_def)
  have b0: "\<not> bit (?c ! 0) k" if "k < 3" for k
  proof -
    have "k = 0 \<or> k = 1 \<or> k = 2" using that by auto
    then show ?thesis unfolding c(1) by (auto simp: bit_simps)
  qed
  have "\<not> bit ((of_le ?c :: 256 word) AND 7) k" for k
  proof (cases "k < 3")
    case True
    then show ?thesis using b0 by (simp add: bit_simps bit_of_le)
  next
    case False
    have "(7 :: 256 word) = mask 3" by (simp add: mask_eq_exp_minus_1)
    then show ?thesis using False by (simp only: bit_and_iff bit_mask_iff) simp
  qed
  then have "(of_le ?c :: 256 word) AND 7 = 0" by (simp add: bit_eq_iff)
  moreover have "bit (of_le ?c :: 256 word) 254" "\<not> bit (of_le ?c :: 256 word) 255"
    using c by (simp_all add: bit_of_le bit_simps)
  moreover have "wg_clamp_private_key ?c = ?c"
  proof -
    have "(x AND 248) AND 248 = x AND 248" "(((x AND 127) OR 64) AND 127) OR 64 = (x AND 127) OR 64" for x :: u8
      by (auto simp: bit_eq_iff bit_simps)
    then have "?c ! 0 AND 248 = ?c ! 0" "(?c ! 31 AND 127) OR 64 = ?c ! 31" unfolding c by simp_all
    then show ?thesis
      unfolding wg_clamp_private_key_def [of ?c] Let_def by (metis list_update_id)
  qed
  ultimately show ?thesis by blast
qed

theorem wg_clamp_valid_witness:
  "length (replicate 32 (0xFF :: u8)) = 32 \<and>
   wg_clamp_private_key (wg_clamp_private_key (replicate 32 0xFF)) = wg_clamp_private_key (replicate 32 0xFF)"
  using wg_clamp_valid [of "replicate 32 0xFF"] by simp

end
