(* ===== verification/Wg.thy ===== *)
theory Wg
  imports Crypto Tai64n Replay Allowedips
begin

text \<open>
  The data model shared by the protocol components (\<^verbatim>\<open>src/src/wg.h\<close>): protocol
  constants, keypairs, handshakes, cookies, the index table, peers and the device.
  Peers and keypairs are heap objects: pointers are natural numbers, the heap is a
  partial map from live addresses to contents, and \<^verbatim>\<open>free\<close> removes an address from it.
  The device record also carries the environment a callback sees: the loop time
  (\<^verbatim>\<open>uv_now\<close>), the wall clock, the random bytes to come, which allocations succeed,
  what the socket calls return, and the datagrams and packets handed out so far. Locks
  are left out: every modelled callback runs on the one event-loop thread.
\<close>

section \<open>Protocol constants\<close>

definition WG_DEFAULT_MTU :: nat where "WG_DEFAULT_MTU = 1420"
definition WG_MAX_MESSAGE_SIZE :: nat where "WG_MAX_MESSAGE_SIZE = WG_DEFAULT_MTU + 80"
definition REKEY_AFTER_TIME_MS :: u64 where "REKEY_AFTER_TIME_MS = 120 * 1000"
definition REJECT_AFTER_TIME_MS :: u64 where "REJECT_AFTER_TIME_MS = 180 * 1000"
definition REKEY_TIMEOUT_MS :: u64 where "REKEY_TIMEOUT_MS = 5 * 1000"
definition KEEPALIVE_TIMEOUT_MS :: u64 where "KEEPALIVE_TIMEOUT_MS = 10 * 1000"
definition COOKIE_REFRESH_TIME_MS :: u64 where "COOKIE_REFRESH_TIME_MS = 120 * 1000"
definition HANDSHAKE_INIT_RATE_MS :: u64 where "HANDSHAKE_INIT_RATE_MS = 20"
definition REKEY_TIMEOUT_JITTER_MAX_MS :: u32 where "REKEY_TIMEOUT_JITTER_MAX_MS = 334"
definition MAX_TIMER_HANDSHAKES :: u32 where "MAX_TIMER_HANDSHAKES = 18"
definition REKEY_AFTER_MESSAGES :: u64 where "REKEY_AFTER_MESSAGES = push_bit 60 1"
definition REJECT_AFTER_MESSAGES :: u64 where "REJECT_AFTER_MESSAGES = - 1 - push_bit 13 1 - 1"
definition PADDING_MULTIPLE :: nat where "PADDING_MULTIPLE = 16"
definition MSG_INITIATION :: u32 where "MSG_INITIATION = 1"
definition MSG_RESPONSE :: u32 where "MSG_RESPONSE = 2"
definition MSG_COOKIE_REPLY :: u32 where "MSG_COOKIE_REPLY = 3"
definition MSG_TRANSPORT :: u32 where "MSG_TRANSPORT = 4"
definition MSG_INITIATION_SIZE :: nat where "MSG_INITIATION_SIZE = 148"
definition MSG_RESPONSE_SIZE :: nat where "MSG_RESPONSE_SIZE = 92"
definition MSG_COOKIE_REPLY_SIZE :: nat where "MSG_COOKIE_REPLY_SIZE = 64"
definition MSG_TRANSPORT_HDR_SIZE :: nat where "MSG_TRANSPORT_HDR_SIZE = 16"
definition MSG_TRANSPORT_SIZE :: nat where "MSG_TRANSPORT_SIZE = MSG_TRANSPORT_HDR_SIZE + WG_AEAD_TAG_LEN"
definition WG_TX_BUFFER_SIZE :: nat where
  "WG_TX_BUFFER_SIZE = MSG_TRANSPORT_HDR_SIZE + WG_DEFAULT_MTU + WG_AEAD_TAG_LEN"
definition WG_RX_BUFFER_SIZE :: nat where "WG_RX_BUFFER_SIZE = WG_MAX_MESSAGE_SIZE + 64"
definition WG_BUFFER_POOL_SIZE :: nat where "WG_BUFFER_POOL_SIZE = 512"
definition INDEX_TABLE_SIZE :: nat where "INDEX_TABLE_SIZE = 65536"
definition PEER_QUEUE_SIZE :: nat where "PEER_QUEUE_SIZE = 512"

lemmas wg_sizes = WG_DEFAULT_MTU_def WG_MAX_MESSAGE_SIZE_def PADDING_MULTIPLE_def
  MSG_INITIATION_SIZE_def MSG_RESPONSE_SIZE_def MSG_COOKIE_REPLY_SIZE_def MSG_TRANSPORT_HDR_SIZE_def
  MSG_TRANSPORT_SIZE_def WG_TX_BUFFER_SIZE_def WG_RX_BUFFER_SIZE_def WG_BUFFER_POOL_SIZE_def
  INDEX_TABLE_SIZE_def PEER_QUEUE_SIZE_def

text \<open>C string literals as bytes.\<close>

definition str_bytes :: "string \<Rightarrow> bytes" where
  "str_bytes s = map of_char s"

definition NOISE_CONSTRUCTION :: bytes where
  "NOISE_CONSTRUCTION = str_bytes ''Noise_IKpsk2_25519_ChaChaPoly_BLAKE2s''"
definition WG_IDENTIFIER :: bytes where
  "WG_IDENTIFIER = str_bytes ''WireGuard v1 zx2c4 Jason@zx2c4.com''"
definition WG_LABEL_MAC1 :: bytes where "WG_LABEL_MAC1 = str_bytes ''mac1----''"
definition WG_LABEL_COOKIE :: bytes where "WG_LABEL_COOKIE = str_bytes ''cookie--''"

section \<open>Heap objects\<close>

type_synonym peer_ref = nat
type_synonym kp_ref = nat

text \<open>A socket address: family, address and port in network order, and the remaining
  bytes (flow label, scope).\<close>

record sockaddr_storage =
  ss_family :: nat
  ss_addr :: bytes
  ss_port :: bytes
  ss_rest :: bytes

definition AF_INET :: nat where "AF_INET = 2"
definition AF_INET6 :: nat where "AF_INET6 = 10"

record wg_keypair =
  kp_send_nonce :: u64
  kp_send_key :: bytes
  kp_recv_key :: bytes
  kp_replay :: replay_filter
  kp_is_initiator :: bool
  kp_created_at_ms :: u64
  kp_local_index :: u32
  kp_remote_index :: u32

datatype hs_state = HS_ZEROED | HS_INITIATION_CREATED | HS_INITIATION_CONSUMED
  | HS_RESPONSE_CREATED | HS_RESPONSE_CONSUMED

record wg_handshake =
  hs_state :: hs_state
  hs_hash :: bytes
  hs_chain_key :: bytes
  hs_psk :: bytes
  hs_local_ephemeral_priv :: bytes
  hs_local_ephemeral_pub :: bytes
  hs_local_index :: u32
  hs_remote_index :: u32
  hs_remote_static :: bytes
  hs_remote_ephemeral :: bytes
  hs_precomputed_static_static :: bytes
  hs_last_timestamp :: tai64n
  hs_last_initiation_consumption_ms :: u64
  hs_last_sent_handshake_ms :: u64

record wg_cookie_gen =
  cg_mac1_key :: bytes
  cg_mac2_key :: bytes
  cg_cookie :: bytes
  cg_cookie_set_ms :: u64
  cg_has_last_mac1 :: bool
  cg_last_mac1 :: bytes

record wg_cookie_checker =
  cc_mac1_key :: bytes
  cc_mac2_secret :: bytes
  cc_mac2_secret_set_ms :: u64
  cc_mac2_encrypt_key :: bytes

datatype idx_type = IDX_HANDSHAKE | IDX_KEYPAIR

text \<open>The handshake of a peer is embedded in it: a pointer to it is the peer's address.\<close>

record index_entry =
  ie_type :: idx_type
  ie_index :: u32
  ie_peer :: "peer_ref option"
  ie_handshake :: "peer_ref option"
  ie_keypair :: "kp_ref option"

record index_table =
  it_entries :: "nat \<Rightarrow> index_entry"
  it_occupied :: "nat \<Rightarrow> bool"

text \<open>A libuv timer of a peer: its due time while active, and whether it was closed. Each
  timer is only ever started with its own callback.\<close>

record uv_timer =
  tm_due :: "u64 option"
  tm_closing :: bool

record wg_peer =
  p_public_key :: bytes
  p_psk :: bytes
  p_handshake :: wg_handshake
  p_cookie :: wg_cookie_gen
  p_current_keypair :: "kp_ref option"
  p_next_keypair :: "kp_ref option"
  p_prev_keypair :: "kp_ref option"
  p_endpoint :: sockaddr_storage
  p_endpoint_len :: nat
  p_tx_bytes :: u64
  p_rx_bytes :: u64
  p_last_handshake_ns :: u64
  p_persistent_keepalive_ms :: u32
  p_timer_retransmit_handshake :: uv_timer
  p_timer_send_keepalive :: uv_timer
  p_timer_new_handshake :: uv_timer
  p_timer_zero_key_material :: uv_timer
  p_timer_persistent_keepalive :: uv_timer
  p_timer_close_count :: nat
  p_handshake_attempts :: u32
  p_need_another_keepalive :: bool
  p_timers_active :: bool
  p_staged_pkts :: "nat \<Rightarrow> bytes"
  p_staged_lens :: "nat \<Rightarrow> nat"
  p_staged_head :: nat
  p_staged_tail :: nat
  p_staged_count :: nat
  p_allowedips :: "peer_ref allowedips"

section \<open>Buffer pools\<close>

text \<open>A transmit, send-request or receive buffer: a node of the preallocated array or a
  heap block; the pool is the chain of free nodes.\<close>

datatype buffer = Pooled nat | Unpooled nat

type_synonym pool = "nat list"

section \<open>Device and environment\<close>

record wg_device =
  d_private_key :: bytes
  d_public_key :: bytes
  d_peers :: "peer_ref list"
  d_peer_count :: int
  d_listen_port :: u16
  d_fwmark :: u32
  d_allowedips :: "peer_ref allowedips"
  d_index_table :: index_table
  d_cookie_checker :: wg_cookie_checker
  d_under_load_until_ms :: u64
  d_udp6_active :: bool
  d_noise_init_chain_key :: bytes
  d_noise_init_hash :: bytes
  d_socks5_mode :: bool
  d_tcp_worker :: bool
  d_tcpstack :: bool
  d_tun_fd :: int
  d_tx_buffer_pool :: pool
  d_udp_send_req_pool :: pool
  d_rx_buffer_pool :: pool
  peer_mem :: "peer_ref \<Rightarrow> wg_peer option"
  kp_mem :: "kp_ref \<Rightarrow> wg_keypair option"
  e_brk :: nat
  e_now :: u64
  e_clock :: "nat \<Rightarrow> u64 \<times> u32"
  e_rng :: rng
  e_calloc :: "nat \<Rightarrow> bool"
  e_try_send :: "nat \<Rightarrow> int"
  e_send :: "nat \<Rightarrow> int"
  e_udp_out :: "(bool \<times> sockaddr_storage \<times> bytes) list"
  e_udp_pending :: "buffer list"
  e_tun_out :: "bytes list"
  e_worker_in :: "bytes list"
  e_stack_in :: "bytes list"

text \<open>Reading the next outcome of an environment stream.\<close>

definition calloc :: "wg_device \<Rightarrow> nat option \<times> wg_device" where
  "calloc dev =
     (if e_calloc dev 0
      then (Some (e_brk dev), dev\<lparr>e_brk := e_brk dev + 1, e_calloc := \<lambda>i. e_calloc dev (i + 1)\<rparr>)
      else (None, dev\<lparr>e_calloc := \<lambda>i. e_calloc dev (i + 1)\<rparr>))"

definition clock_gettime :: "wg_device \<Rightarrow> (u64 \<times> u32) \<times> wg_device" where
  "clock_gettime dev = (e_clock dev 0, dev\<lparr>e_clock := \<lambda>i. e_clock dev (i + 1)\<rparr>)"

definition random_bytes :: "sodium \<Rightarrow> wg_device \<Rightarrow> bytes \<Rightarrow> nat \<Rightarrow> int \<times> bytes \<times> wg_device" where
  "random_bytes sd dev out len =
     (let (ret, b, r) = wg_random_bytes sd (e_rng dev) out len in (ret, b, dev\<lparr>e_rng := r\<rparr>))"

text \<open>Dereferencing and updating heap objects; \<open>upd_peer\<close> of an address that is not
  live changes nothing (no modelled code does it, see \<open>Device_Inv\<close>).\<close>

definition peer_at :: "wg_device \<Rightarrow> peer_ref \<Rightarrow> wg_peer" where
  "peer_at dev p = the (peer_mem dev p)"

definition kp_at :: "wg_device \<Rightarrow> kp_ref \<Rightarrow> wg_keypair" where
  "kp_at dev k = the (kp_mem dev k)"

definition upd_peer :: "peer_ref \<Rightarrow> (wg_peer \<Rightarrow> wg_peer) \<Rightarrow> wg_device \<Rightarrow> wg_device" where
  "upd_peer p f dev = dev\<lparr>peer_mem := (peer_mem dev)(p := map_option f (peer_mem dev p))\<rparr>"

definition upd_hs :: "peer_ref \<Rightarrow> (wg_handshake \<Rightarrow> wg_handshake) \<Rightarrow> wg_device \<Rightarrow> wg_device" where
  "upd_hs p f dev = upd_peer p (\<lambda>q. q\<lparr>p_handshake := f (p_handshake q)\<rparr>) dev"

definition upd_kp :: "kp_ref \<Rightarrow> (wg_keypair \<Rightarrow> wg_keypair) \<Rightarrow> wg_device \<Rightarrow> wg_device" where
  "upd_kp k f dev = dev\<lparr>kp_mem := (kp_mem dev)(k := map_option f (kp_mem dev k))\<rparr>"

definition kp_release :: "kp_ref \<Rightarrow> wg_device \<Rightarrow> wg_device" where
  "kp_release k dev = dev\<lparr>kp_mem := (kp_mem dev)(k := None)\<rparr>"

section \<open>Zero-initialised objects\<close>

text \<open>What \<^verbatim>\<open>calloc\<close> and \<^verbatim>\<open>memset(..., 0, ...)\<close> produce.\<close>

definition sockaddr_zero :: sockaddr_storage where
  "sockaddr_zero = \<lparr>ss_family = 0, ss_addr = zeros 16, ss_port = zeros 2, ss_rest = []\<rparr>"

definition timer_zero :: uv_timer where
  "timer_zero = \<lparr>tm_due = None, tm_closing = False\<rparr>"

definition handshake_zero :: wg_handshake where
  "handshake_zero = \<lparr>hs_state = HS_ZEROED, hs_hash = zeros 32, hs_chain_key = zeros 32, hs_psk = zeros 32,
     hs_local_ephemeral_priv = zeros 32, hs_local_ephemeral_pub = zeros 32, hs_local_index = 0, hs_remote_index = 0,
     hs_remote_static = zeros 32, hs_remote_ephemeral = zeros 32, hs_precomputed_static_static = zeros 32,
     hs_last_timestamp = Tai64n (zeros 12), hs_last_initiation_consumption_ms = 0, hs_last_sent_handshake_ms = 0\<rparr>"

definition cookie_gen_zero :: wg_cookie_gen where
  "cookie_gen_zero = \<lparr>cg_mac1_key = zeros 32, cg_mac2_key = zeros 32, cg_cookie = zeros 16, cg_cookie_set_ms = 0,
     cg_has_last_mac1 = False, cg_last_mac1 = zeros 16\<rparr>"

definition cookie_checker_zero :: wg_cookie_checker where
  "cookie_checker_zero = \<lparr>cc_mac1_key = zeros 32, cc_mac2_secret = zeros 32, cc_mac2_secret_set_ms = 0,
     cc_mac2_encrypt_key = zeros 32\<rparr>"

definition peer_zero :: wg_peer where
  "peer_zero = \<lparr>p_public_key = zeros 32, p_psk = zeros 32, p_handshake = handshake_zero, p_cookie = cookie_gen_zero,
     p_current_keypair = None, p_next_keypair = None, p_prev_keypair = None, p_endpoint = sockaddr_zero,
     p_endpoint_len = 0, p_tx_bytes = 0, p_rx_bytes = 0, p_last_handshake_ns = 0, p_persistent_keepalive_ms = 0,
     p_timer_retransmit_handshake = timer_zero, p_timer_send_keepalive = timer_zero, p_timer_new_handshake = timer_zero,
     p_timer_zero_key_material = timer_zero, p_timer_persistent_keepalive = timer_zero, p_timer_close_count = 0,
     p_handshake_attempts = 0, p_need_another_keepalive = False, p_timers_active = False,
     p_staged_pkts = \<lambda>_. zeros WG_MAX_MESSAGE_SIZE, p_staged_lens = \<lambda>_. 0, p_staged_head = 0, p_staged_tail = 0,
     p_staged_count = 0, p_allowedips = allowedips_init\<rparr>"

definition entry_zero :: index_entry where
  "entry_zero = \<lparr>ie_type = IDX_HANDSHAKE, ie_index = 0, ie_peer = None, ie_handshake = None, ie_keypair = None\<rparr>"

text \<open>A device record of zeros in an environment where every call succeeds.\<close>

definition device_zero :: wg_device where
  "device_zero = \<lparr>d_private_key = zeros 32, d_public_key = zeros 32, d_peers = [], d_peer_count = 0, d_listen_port = 0,
     d_fwmark = 0, d_allowedips = allowedips_init, d_index_table = \<lparr>it_entries = \<lambda>_. entry_zero, it_occupied = \<lambda>_. False\<rparr>,
     d_cookie_checker = cookie_checker_zero, d_under_load_until_ms = 0, d_udp6_active = False,
     d_noise_init_chain_key = zeros 32, d_noise_init_hash = zeros 32, d_socks5_mode = False, d_tcp_worker = False,
     d_tcpstack = False, d_tun_fd = -1, d_tx_buffer_pool = [], d_udp_send_req_pool = [], d_rx_buffer_pool = [],
     peer_mem = \<lambda>_. None, kp_mem = \<lambda>_. None, e_brk = 0, e_now = 1000, e_clock = \<lambda>i. (of_nat i + 1, 0), e_rng = \<lambda>_. 7,
     e_calloc = \<lambda>_. True, e_try_send = \<lambda>_. 0, e_send = \<lambda>_. 0, e_udp_out = [], e_udp_pending = [], e_tun_out = [], e_worker_in = [], e_stack_in = []\<rparr>"

end
