(* ===== verification/Messages.thy ===== *)
theory Messages
  imports Wg
begin

text \<open>
  The wire formats (\<^verbatim>\<open>src/src/noise.h\<close>): the packed message structs, the bytes they occupy,
  and the cast from a received buffer back to the struct. Multi-byte fields are stored
  little-endian.
\<close>

section \<open>Structs\<close>

record msg_initiation =
  mi_type :: u32
  mi_sender :: u32
  mi_ephemeral :: bytes
  mi_static_enc :: bytes
  mi_timestamp_enc :: bytes
  mi_mac1 :: bytes
  mi_mac2 :: bytes

record msg_response =
  mr_type :: u32
  mr_sender :: u32
  mr_receiver :: u32
  mr_ephemeral :: bytes
  mr_empty_enc :: bytes
  mr_mac1 :: bytes
  mr_mac2 :: bytes

record msg_cookie_reply =
  mc_type :: u32
  mc_receiver :: u32
  mc_nonce :: bytes
  mc_cookie_enc :: bytes

record msg_transport_hdr =
  mt_type :: u32
  mt_receiver :: u32
  mt_counter :: u64

section \<open>The structs as bytes\<close>

definition initiation_bytes :: "msg_initiation \<Rightarrow> bytes" where
  "initiation_bytes m = le32 (mi_type m) @ le32 (mi_sender m) @ mi_ephemeral m @ mi_static_enc m @
     mi_timestamp_enc m @ mi_mac1 m @ mi_mac2 m"

definition initiation_of :: "bytes \<Rightarrow> msg_initiation" where
  "initiation_of b = \<lparr>mi_type = of_le (slice 0 4 b), mi_sender = of_le (slice 4 4 b), mi_ephemeral = slice 8 32 b,
     mi_static_enc = slice 40 48 b, mi_timestamp_enc = slice 88 28 b, mi_mac1 = slice 116 16 b, mi_mac2 = slice 132 16 b\<rparr>"

definition initiation_ok :: "msg_initiation \<Rightarrow> bool" where
  "initiation_ok m \<longleftrightarrow> length (mi_ephemeral m) = 32 \<and> length (mi_static_enc m) = 48 \<and>
     length (mi_timestamp_enc m) = 28 \<and> length (mi_mac1 m) = 16 \<and> length (mi_mac2 m) = 16"

definition response_bytes :: "msg_response \<Rightarrow> bytes" where
  "response_bytes m = le32 (mr_type m) @ le32 (mr_sender m) @ le32 (mr_receiver m) @ mr_ephemeral m @
     mr_empty_enc m @ mr_mac1 m @ mr_mac2 m"

definition response_of :: "bytes \<Rightarrow> msg_response" where
  "response_of b = \<lparr>mr_type = of_le (slice 0 4 b), mr_sender = of_le (slice 4 4 b), mr_receiver = of_le (slice 8 4 b),
     mr_ephemeral = slice 12 32 b, mr_empty_enc = slice 44 16 b, mr_mac1 = slice 60 16 b, mr_mac2 = slice 76 16 b\<rparr>"

definition response_ok :: "msg_response \<Rightarrow> bool" where
  "response_ok m \<longleftrightarrow> length (mr_ephemeral m) = 32 \<and> length (mr_empty_enc m) = 16 \<and>
     length (mr_mac1 m) = 16 \<and> length (mr_mac2 m) = 16"

definition cookie_reply_bytes :: "msg_cookie_reply \<Rightarrow> bytes" where
  "cookie_reply_bytes m = le32 (mc_type m) @ le32 (mc_receiver m) @ mc_nonce m @ mc_cookie_enc m"

definition cookie_reply_of :: "bytes \<Rightarrow> msg_cookie_reply" where
  "cookie_reply_of b = \<lparr>mc_type = of_le (slice 0 4 b), mc_receiver = of_le (slice 4 4 b), mc_nonce = slice 8 24 b,
     mc_cookie_enc = slice 32 32 b\<rparr>"

definition cookie_reply_ok :: "msg_cookie_reply \<Rightarrow> bool" where
  "cookie_reply_ok m \<longleftrightarrow> length (mc_nonce m) = 24 \<and> length (mc_cookie_enc m) = 32"

definition transport_hdr_bytes :: "msg_transport_hdr \<Rightarrow> bytes" where
  "transport_hdr_bytes m = le32 (mt_type m) @ le32 (mt_receiver m) @ le64 (mt_counter m)"

definition transport_hdr_of :: "bytes \<Rightarrow> msg_transport_hdr" where
  "transport_hdr_of b = \<lparr>mt_type = of_le (slice 0 4 b), mt_receiver = of_le (slice 4 4 b), mt_counter = of_le (slice 8 8 b)\<rparr>"

text \<open>\<^verbatim>\<open>offsetof\<close> of the MAC fields.\<close>

definition INITIATION_MAC1 :: nat where "INITIATION_MAC1 = 116"
definition INITIATION_MAC2 :: nat where "INITIATION_MAC2 = 132"
definition RESPONSE_MAC1 :: nat where "RESPONSE_MAC1 = 60"
definition RESPONSE_MAC2 :: nat where "RESPONSE_MAC2 = 76"

lemmas mac_offsets = INITIATION_MAC1_def INITIATION_MAC2_def RESPONSE_MAC1_def RESPONSE_MAC2_def

lemmas msg_defs = initiation_bytes_def initiation_of_def initiation_ok_def response_bytes_def response_of_def
  response_ok_def cookie_reply_bytes_def cookie_reply_of_def cookie_reply_ok_def transport_hdr_bytes_def transport_hdr_of_def

lemma length_messages:
  "initiation_ok i \<Longrightarrow> length (initiation_bytes i) = MSG_INITIATION_SIZE"
  "response_ok r \<Longrightarrow> length (response_bytes r) = MSG_RESPONSE_SIZE"
  "cookie_reply_ok c \<Longrightarrow> length (cookie_reply_bytes c) = MSG_COOKIE_REPLY_SIZE"
  "length (transport_hdr_bytes h) = MSG_TRANSPORT_HDR_SIZE"
  by (simp_all add: msg_defs wg_sizes)

text \<open>Fields of a buffer assembled from consecutive pieces.\<close>

lemma slice_skip: "length xs \<le> off \<Longrightarrow> slice off n (xs @ ys) = slice (off - length xs) n ys"
  by (simp add: slice_def)

lemma slice_here: "length xs = n \<Longrightarrow> slice 0 n (xs @ ys) = xs" "length xs = n \<Longrightarrow> slice 0 n xs = xs"
  by (simp_all add: slice_def)

lemma initiation_of_bytes [simp]: "initiation_ok m \<Longrightarrow> initiation_of (initiation_bytes m) = m"
  by (simp add: initiation_of_def initiation_bytes_def initiation_ok_def slice_skip slice_here)

lemma response_of_bytes [simp]: "response_ok m \<Longrightarrow> response_of (response_bytes m) = m"
  by (simp add: response_of_def response_bytes_def response_ok_def slice_skip slice_here)

lemma cookie_reply_of_bytes [simp]: "cookie_reply_ok m \<Longrightarrow> cookie_reply_of (cookie_reply_bytes m) = m"
  by (simp add: cookie_reply_of_def cookie_reply_bytes_def cookie_reply_ok_def slice_skip slice_here)

lemma transport_hdr_of_bytes [simp]: "transport_hdr_of (transport_hdr_bytes m @ payload) = m"
  by (simp add: transport_hdr_of_def transport_hdr_bytes_def slice_skip slice_here)

lemma slice_join: "slice a n b @ drop (a + n) b = drop a b"
  using append_take_drop_id [of n "drop a b"] by (simp add: slice_def add.commute)

lemma initiation_bytes_of: "length b = 148 \<Longrightarrow> initiation_bytes (initiation_of b) = b \<and> initiation_ok (initiation_of b)"
proof -
  assume b: "length b = 148"
  have "b = slice 0 4 b @ slice 4 4 b @ slice 8 32 b @ slice 40 48 b @ slice 88 28 b @ slice 116 16 b @ slice 132 16 b @ drop 148 b"
    using slice_join [of 0 4 b] slice_join [of 4 4 b] slice_join [of 8 32 b] slice_join [of 40 48 b]
      slice_join [of 88 28 b] slice_join [of 116 16 b] slice_join [of 132 16 b] by simp
  then show ?thesis using b by (simp add: initiation_bytes_def initiation_of_def initiation_ok_def le_of_le)
qed

lemma response_bytes_of: "length b = 92 \<Longrightarrow> response_bytes (response_of b) = b \<and> response_ok (response_of b)"
proof -
  assume b: "length b = 92"
  have "b = slice 0 4 b @ slice 4 4 b @ slice 8 4 b @ slice 12 32 b @ slice 44 16 b @ slice 60 16 b @ slice 76 16 b @ drop 92 b"
    using slice_join [of 0 4 b] slice_join [of 4 4 b] slice_join [of 8 4 b] slice_join [of 12 32 b]
      slice_join [of 44 16 b] slice_join [of 60 16 b] slice_join [of 76 16 b] by simp
  then show ?thesis using b by (simp add: response_bytes_def response_of_def response_ok_def le_of_le)
qed

lemma cookie_reply_bytes_of:
  "length b = 64 \<Longrightarrow> cookie_reply_bytes (cookie_reply_of b) = b \<and> cookie_reply_ok (cookie_reply_of b)"
proof -
  assume b: "length b = 64"
  have "b = slice 0 4 b @ slice 4 4 b @ slice 8 24 b @ slice 32 32 b @ drop 64 b"
    using slice_join [of 0 4 b] slice_join [of 4 4 b] slice_join [of 8 24 b] slice_join [of 32 32 b] by simp
  then show ?thesis using b by (simp add: cookie_reply_bytes_def cookie_reply_of_def cookie_reply_ok_def le_of_le)
qed



end
