(* ===== verification/Cookie.thy ===== *)
theory Cookie
  imports Messages
begin

text \<open>
  Message authentication codes and the cookie mechanism (\<^verbatim>\<open>src/src/noise.c\<close>, lines
  206-374): the per-peer generator that adds MAC1 and MAC2 to outgoing handshake messages,
  and the per-device checker that verifies them and, under load, hands out cookies bound
  to the sender's address.
\<close>

section \<open>Initialisation\<close>

text \<open>\<^verbatim>\<open>BLAKE2s(label || pub)\<close> with the incremental interface, as both initialisers chain it.\<close>

definition labelled_key :: "bytes \<Rightarrow> bytes \<Rightarrow> bytes" where
  "labelled_key label pub =
     (let S = snd (blake2s_init stack_state WG_HASH_LEN);
          S = snd (blake2s_update S label);
          S = snd (blake2s_update S pub)
      in written (zeros 32) (fst (blake2s_final S True WG_HASH_LEN)))"

definition cookie_checker_init :: "wg_cookie_checker \<Rightarrow> bytes \<Rightarrow> wg_cookie_checker" where
  "cookie_checker_init cc pub =
     cc\<lparr>cc_mac1_key := labelled_key WG_LABEL_MAC1 pub, cc_mac2_encrypt_key := labelled_key WG_LABEL_COOKIE pub,
        cc_mac2_secret := zeros WG_HASH_LEN, cc_mac2_secret_set_ms := 0\<rparr>"

definition cookie_gen_init :: "wg_cookie_gen \<Rightarrow> bytes \<Rightarrow> wg_cookie_gen" where
  "cookie_gen_init cg pub =
     cg\<lparr>cg_mac1_key := labelled_key WG_LABEL_MAC1 pub, cg_mac2_key := labelled_key WG_LABEL_COOKIE pub,
        cg_cookie := zeros WG_COOKIE_LEN, cg_cookie_set_ms := 0, cg_has_last_mac1 := False\<rparr>"

section \<open>Adding and validating MACs\<close>

definition cookie_add_macs :: "wg_cookie_gen \<Rightarrow> bytes \<Rightarrow> nat \<Rightarrow> nat \<Rightarrow> u64 \<Rightarrow> wg_cookie_gen \<times> bytes" where
  "cookie_add_macs cg msg mac1_off mac2_off now_ms =
     (let msg = put mac1_off (wg_blake2s128_mac (slice mac1_off WG_MAC_LEN msg) (cg_mac1_key cg) (take mac1_off msg)) msg;
          cg = cg\<lparr>cg_last_mac1 := slice mac1_off WG_MAC_LEN msg, cg_has_last_mac1 := True\<rparr>;
          cookie_valid = (cg_cookie_set_ms cg \<noteq> 0 \<and> now_ms - cg_cookie_set_ms cg < COOKIE_REFRESH_TIME_MS);
          msg = (if cookie_valid
                 then put mac2_off (wg_blake2s128_mac (slice mac2_off WG_MAC_LEN msg) (cg_cookie cg) (take mac2_off msg)) msg
                 else put mac2_off (zeros WG_MAC_LEN) msg)
      in (cg, msg))"

definition compute_cookie :: "wg_cookie_checker \<Rightarrow> sockaddr_storage \<Rightarrow> bytes" where
  "compute_cookie cc src =
     (let src_buf = (if ss_family src = AF_INET then take 4 (ss_addr src) @ take 2 (ss_port src)
                     else take 16 (ss_addr src) @ take 2 (ss_port src))
      in wg_blake2s128_mac (zeros WG_COOKIE_LEN) (cc_mac2_secret cc) src_buf)"

text \<open>\<^verbatim>\<open>if (!cc->mac2_secret_set_ms || now_ms - cc->mac2_secret_set_ms >= COOKIE_REFRESH_TIME_MS)\<close>
  \<^verbatim>\<open>{ wg_random_bytes(cc->mac2_secret); cc->mac2_secret_set_ms = now_ms; }\<close>\<close>

definition refresh_secret :: "sodium \<Rightarrow> wg_cookie_checker \<Rightarrow> rng \<Rightarrow> u64 \<Rightarrow> wg_cookie_checker \<times> rng" where
  "refresh_secret sd cc r now_ms =
     (if cc_mac2_secret_set_ms cc = 0 \<or> now_ms - cc_mac2_secret_set_ms cc \<ge> COOKIE_REFRESH_TIME_MS
      then let (ret, b, r) = wg_random_bytes sd r (cc_mac2_secret cc) WG_HASH_LEN
           in (cc\<lparr>cc_mac2_secret := b, cc_mac2_secret_set_ms := now_ms\<rparr>, r)
      else (cc, r))"

definition cookie_validate_macs :: "sodium \<Rightarrow> wg_cookie_checker \<Rightarrow> rng \<Rightarrow> sockaddr_storage \<Rightarrow> bytes \<Rightarrow> nat \<Rightarrow> nat \<Rightarrow>
    u64 \<Rightarrow> bool \<Rightarrow> int \<times> wg_cookie_checker \<times> rng" where
  "cookie_validate_macs sd cc r src msg mac1_off mac2_off now_ms under_load =
     (let expected_mac1 = wg_blake2s128_mac (zeros WG_MAC_LEN) (cc_mac1_key cc) (take mac1_off msg)
      in if \<not> wg_ct_equal sd expected_mac1 (slice mac1_off WG_MAC_LEN msg) then (-1, cc, r)
         else if \<not> under_load then (0, cc, r)
         else
           let (cc, r) = refresh_secret sd cc r now_ms;
               expected_cookie = compute_cookie cc src;
               expected_mac2 = wg_blake2s128_mac (zeros WG_MAC_LEN) expected_cookie (take mac2_off msg)
           in if \<not> wg_ct_equal sd expected_mac2 (slice mac2_off WG_MAC_LEN msg) then (1, cc, r)
              else (0, cc, r))"

section \<open>Cookie replies\<close>

text \<open>\<open>reply\<close> is the caller's uninitialised struct.\<close>

definition cookie_create_reply :: "sodium \<Rightarrow> wg_cookie_checker \<Rightarrow> rng \<Rightarrow> sockaddr_storage \<Rightarrow> bytes \<Rightarrow> u32 \<Rightarrow>
    msg_cookie_reply \<Rightarrow> u64 \<Rightarrow> msg_cookie_reply \<times> wg_cookie_checker \<times> rng" where
  "cookie_create_reply sd cc r src last_mac1 receiver reply now_ms =
     (let reply = reply\<lparr>mc_type := MSG_COOKIE_REPLY, mc_receiver := receiver\<rparr>;
          (ret, nonce, r) = wg_random_bytes sd r (mc_nonce reply) WG_XNONCE_LEN;
          reply = reply\<lparr>mc_nonce := nonce\<rparr>;
          (cc, r) = refresh_secret sd cc r now_ms;
          cookie = compute_cookie cc src;
          reply = (case wg_xchacha20poly1305_encrypt sd (cc_mac2_encrypt_key cc) (mc_nonce reply) cookie last_mac1 of
                     Some c \<Rightarrow> reply\<lparr>mc_cookie_enc := c\<rparr> | None \<Rightarrow> reply)
      in (reply, cc, r))"

definition cookie_consume_reply :: "sodium \<Rightarrow> wg_cookie_gen \<Rightarrow> msg_cookie_reply \<Rightarrow> u64 \<Rightarrow> int \<times> wg_cookie_gen" where
  "cookie_consume_reply sd cg reply now_ms =
     (if mc_type reply \<noteq> MSG_COOKIE_REPLY then (-1, cg)
      else if \<not> cg_has_last_mac1 cg then (-1, cg)
      else case wg_xchacha20poly1305_decrypt sd (cg_mac2_key cg) (mc_nonce reply) (mc_cookie_enc reply) (cg_last_mac1 cg) of
             Some cookie \<Rightarrow> (0, cg\<lparr>cg_cookie := take WG_COOKIE_LEN cookie, cg_cookie_set_ms := now_ms\<rparr>)
           | None \<Rightarrow> (-1, cg))"

section \<open>Lemmas\<close>

lemma labelled_key_rfc: "labelled_key label pub = rfc_blake2s (label @ pub) [] 32"
proof -
  obtain S0 where S0: "blake2s_init stack_state 32 = (0, S0)" using blake2s_init_repr [of 32 stack_state] by auto
  show ?thesis
    using blake2s_updates [OF S0, of label pub]
    by (simp add: labelled_key_def S0 written_def put_def length_blake2s)
qed

lemma length_labelled_key [simp]: "length (labelled_key label pub) = 32"
  by (simp add: labelled_key_rfc length_blake2s)

lemma length_mac [simp]: "length out = 16 \<Longrightarrow> length key \<le> 32 \<Longrightarrow> length (wg_blake2s128_mac out key data) = 16"
  by (simp add: wg_blake2s128_mac_rfc length_blake2s)

lemma mac_out_irrelevant:
  "length key \<le> 32 \<Longrightarrow> length o1 = 16 \<Longrightarrow> length o2 = 16 \<Longrightarrow> wg_blake2s128_mac o1 key d = wg_blake2s128_mac o2 key d"
  by (simp add: wg_blake2s128_mac_rfc)

text \<open>What \<^verbatim>\<open>cookie_add_macs\<close> leaves in the message, for MAC fields that fit behind the body.\<close>

lemma add_macs_spec:
  assumes "mac1_off + 16 \<le> mac2_off" "mac2_off + 16 \<le> length msg" "length (cg_mac1_key cg) = 32" "length (cg_cookie cg) = 16"
    and "cookie_add_macs cg msg mac1_off mac2_off now = (cg', msg')"
  shows "length msg' = length msg" "take mac1_off msg' = take mac1_off msg"
    "slice mac1_off 16 msg' = wg_blake2s128_mac (zeros 16) (cg_mac1_key cg) (take mac1_off msg)"
    "slice mac2_off 16 msg' = (if cg_cookie_set_ms cg \<noteq> 0 \<and> now - cg_cookie_set_ms cg < COOKIE_REFRESH_TIME_MS
       then wg_blake2s128_mac (zeros 16) (cg_cookie cg) (take mac2_off msg') else zeros 16)"
    "cg' = cg\<lparr>cg_last_mac1 := slice mac1_off 16 msg', cg_has_last_mac1 := True\<rparr>"
proof -
  let ?m1 = "wg_blake2s128_mac (slice mac1_off 16 msg) (cg_mac1_key cg) (take mac1_off msg)"
  define msg1 where "msg1 = put mac1_off ?m1 msg"
  define valid where "valid \<longleftrightarrow> cg_cookie_set_ms cg \<noteq> 0 \<and> now - cg_cookie_set_ms cg < COOKIE_REFRESH_TIME_MS"
  let ?m2 = "if valid then wg_blake2s128_mac (slice mac2_off 16 msg1) (cg_cookie cg) (take mac2_off msg1) else zeros 16"
  have m1: "length ?m1 = 16" using assms(1-3) by simp
  have l1: "length msg1 = length msg" using m1 assms(1,2) by (simp add: msg1_def)
  have m2: "length ?m2 = 16" using l1 assms(2,4) by simp
  have r: "msg' = put mac2_off ?m2 msg1" "cg' = cg\<lparr>cg_last_mac1 := slice mac1_off 16 msg1, cg_has_last_mac1 := True\<rparr>"
    using assms(5) by (auto simp: cookie_add_macs_def Let_def msg1_def valid_def)
  show "length msg' = length msg" using r m2 l1 assms(2) by simp
  have t2: "take mac2_off msg' = take mac2_off msg1" unfolding r(1) put_def using l1 assms(2) by simp
  have s1: "slice mac1_off 16 msg' = slice mac1_off 16 msg1"
    unfolding r(1) using l1 assms(1,2) by (intro slice_put_before) simp_all
  have "take mac1_off msg' = take mac1_off msg1" using t2 assms(1) by (metis add_leD1 min.absorb1 take_take)
  also have "\<dots> = take mac1_off msg" unfolding msg1_def put_def using assms(1,2) by simp
  finally show "take mac1_off msg' = take mac1_off msg" .
  have "slice mac1_off 16 msg1 = ?m1" unfolding msg1_def using m1 assms(1,2) by (intro slice_put_same) simp_all
  also have "\<dots> = wg_blake2s128_mac (zeros 16) (cg_mac1_key cg) (take mac1_off msg)"
    using assms(1-3) by (intro mac_out_irrelevant) simp_all
  finally show "slice mac1_off 16 msg' = wg_blake2s128_mac (zeros 16) (cg_mac1_key cg) (take mac1_off msg)"
    using s1 by simp
  have "slice mac2_off 16 msg' = ?m2" unfolding r(1) using m2 l1 assms(2) by (intro slice_put_same) simp_all
  then show "slice mac2_off 16 msg' = (if cg_cookie_set_ms cg \<noteq> 0 \<and> now - cg_cookie_set_ms cg < COOKIE_REFRESH_TIME_MS
       then wg_blake2s128_mac (zeros 16) (cg_cookie cg) (take mac2_off msg') else zeros 16)"
    unfolding t2 valid_def [symmetric]
    using assms(2,4) l1 mac_out_irrelevant [of "cg_cookie cg" "slice mac2_off 16 msg1" "zeros 16" "take mac2_off msg1"] by auto
  show "cg' = cg\<lparr>cg_last_mac1 := slice mac1_off 16 msg', cg_has_last_mac1 := True\<rparr>" using r(2) s1 by simp
qed

lemma refresh_secret_keys:
  assumes "refresh_secret sd cc r now = (cc', r')" "length (cc_mac2_secret cc) = 32"
  shows "cc_mac1_key cc' = cc_mac1_key cc" "cc_mac2_encrypt_key cc' = cc_mac2_encrypt_key cc"
    "length (cc_mac2_secret cc') = 32"
  using assms by (auto simp: refresh_secret_def wg_random_bytes_def split: if_splits)

lemma refresh_secret_idle:
  "cc_mac2_secret_set_ms cc \<noteq> 0 \<Longrightarrow> now - cc_mac2_secret_set_ms cc < COOKIE_REFRESH_TIME_MS \<Longrightarrow>
     refresh_secret sd cc r now = (cc, r)"
  by (simp add: refresh_secret_def not_le [symmetric])

lemma length_compute_cookie [simp]: "length (cc_mac2_secret cc) = 32 \<Longrightarrow> length (compute_cookie cc src) = 16"
  by (simp add: compute_cookie_def Let_def)

lemma create_reply_spec:
  assumes "sodium_laws sd" "length (cc_mac2_secret cc) = 32"
    and "cookie_create_reply sd cc r src mac1 rcv reply0 now = (reply, cc', r')"
  shows "mc_type reply = MSG_COOKIE_REPLY \<and> mc_receiver reply = rcv \<and> length (mc_nonce reply) = 24 \<and>
    mc_cookie_enc reply = s_xaead_encrypt sd (cc_mac2_encrypt_key cc) (mc_nonce reply) (compute_cookie cc' src) mac1 \<and>
    cc_mac1_key cc' = cc_mac1_key cc \<and> length (cc_mac2_secret cc') = 32 \<and>
    (\<exists>r0. refresh_secret sd cc r0 now = (cc', r'))"
proof -
  note z = sodium_lawsD [OF assms(1)]
  obtain cc1 r1 where rs: "refresh_secret sd cc (\<lambda>i. r (i + 24)) now = (cc1, r1)" by fastforce
  note k = refresh_secret_keys [OF rs assms(2)]
  have "reply = reply0\<lparr>mc_type := MSG_COOKIE_REPLY, mc_receiver := rcv, mc_nonce := map r [0..<24],
      mc_cookie_enc := s_xaead_encrypt sd (cc_mac2_encrypt_key cc) (map r [0..<24]) (compute_cookie cc1 src) mac1\<rparr>"
    "cc' = cc1" "r' = r1"
    using assms(3) rs k by (auto simp: cookie_create_reply_def wg_random_bytes_def z(1,8))
  then show ?thesis using k rs by auto
qed

section \<open>Properties\<close>


definition checker_example :: wg_cookie_checker where
  "checker_example = cookie_checker_init \<lparr>cc_mac1_key = [], cc_mac2_secret = [], cc_mac2_secret_set_ms = 0,
     cc_mac2_encrypt_key = []\<rparr> (zeros 32)"

definition gen_example :: wg_cookie_gen where
  "gen_example = cookie_gen_init \<lparr>cg_mac1_key = [], cg_mac2_key = [], cg_cookie = [], cg_cookie_set_ms = 0,
     cg_has_last_mac1 = False, cg_last_mac1 = zeros 16\<rparr> (zeros 32)"

definition src_example :: sockaddr_storage where
  "src_example = \<lparr>ss_family = AF_INET, ss_addr = [192, 0, 2, 1], ss_port = [0xCA, 0x6C], ss_rest = []\<rparr>"

lemma example_keys:
  "cc_mac1_key checker_example = labelled_key WG_LABEL_MAC1 (zeros 32)"
  "cc_mac2_encrypt_key checker_example = labelled_key WG_LABEL_COOKIE (zeros 32)"
  "length (cc_mac2_secret checker_example) = 32" "cc_mac2_secret_set_ms checker_example = 0"
  "cg_mac1_key gen_example = labelled_key WG_LABEL_MAC1 (zeros 32)" "length (cg_cookie gen_example) = 16"
  by (simp_all add: checker_example_def gen_example_def cookie_checker_init_def cookie_gen_init_def)


text \<open>\<^bold>\<open>C19\<close>. The cookie exchange works end to end: an initiator whose message was answered with
  a cookie reply accepts that reply, and its next message (sent while the cookie is fresh)
  passes the full MAC1 and MAC2 validation of the loaded responder, from the same source
  address and while the responder's secret is current.\<close>

theorem cookie_exchange_unlocks:
  assumes "sodium_laws sd"
    and "cc_mac1_key cc = labelled_key WG_LABEL_MAC1 pub" "cc_mac2_encrypt_key cc = labelled_key WG_LABEL_COOKIE pub"
    and "length (cc_mac2_secret cc) = 32" "cg = cookie_gen_init cg0 pub"
    and "mac1_off + 16 \<le> mac2_off" "mac2_off + 16 \<le> length msg1" "mac2_off + 16 \<le> length msg2"
    and "cookie_add_macs cg msg1 mac1_off mac2_off t0 = (cg1, m1)"
    and "cookie_create_reply sd cc r src (slice mac1_off 16 m1) rcv reply0 t1 = (reply, cc1, r1)"
    and "cookie_consume_reply sd cg1 reply t2 = (ret, cg2)"
    and "cookie_add_macs cg2 msg2 mac1_off mac2_off t3 = (cg3, m2)"
    and "t2 \<noteq> 0" "t3 - t2 < COOKIE_REFRESH_TIME_MS"
    and "cc_mac2_secret_set_ms cc1 \<noteq> 0" "t4 - cc_mac2_secret_set_ms cc1 < COOKIE_REFRESH_TIME_MS"
  shows "ret = 0 \<and> cookie_validate_macs sd cc1 r2 src m2 mac1_off mac2_off t4 True = (0, cc1, r2)"
proof -
  note z = sodium_lawsD [OF assms(1)]
  have cg: "cg_mac1_key cg = labelled_key WG_LABEL_MAC1 pub" "cg_mac2_key cg = labelled_key WG_LABEL_COOKIE pub"
    "length (cg_cookie cg) = 16" using assms(5) by (simp_all add: cookie_gen_init_def)
  have k1: "length (cg_mac1_key cg) = 32" using cg(1) by simp
  note a1 = add_macs_spec [OF assms(6,7) k1 cg(3) assms(9)]
  note rep = create_reply_spec [OF assms(1,4,10)]
  have cg1: "cg_has_last_mac1 cg1" "cg_last_mac1 cg1 = slice mac1_off 16 m1" "cg_mac2_key cg1 = cc_mac2_encrypt_key cc"
    "cg_mac1_key cg1 = cg_mac1_key cg" using a1(5) cg(2) assms(3) by simp_all
  have len: "length (compute_cookie cc1 src) = 16" using rep by simp
  have "wg_xchacha20poly1305_decrypt sd (cg_mac2_key cg1) (mc_nonce reply) (mc_cookie_enc reply) (cg_last_mac1 cg1)
      = Some (compute_cookie cc1 src)"
    using rep cg1(2,3) z(10) by simp
  then have c: "ret = 0" "cg2 = cg1\<lparr>cg_cookie := compute_cookie cc1 src, cg_cookie_set_ms := t2\<rparr>"
    using assms(11) rep cg1(1) len by (auto simp: cookie_consume_reply_def)
  have k2: "length (cg_mac1_key cg2) = 32" "length (cg_cookie cg2) = 16" using c cg1(4) k1 len by simp_all
  note a2 = add_macs_spec [OF assms(6,8) k2 assms(12)]
  let ?e1 = "wg_blake2s128_mac (zeros 16) (cc_mac1_key cc1) (take mac1_off m2)"
  let ?e2 = "wg_blake2s128_mac (zeros 16) (compute_cookie cc1 src) (take mac2_off m2)"
  have "slice mac1_off 16 m2 = ?e1"
    using a2(2,3) rep assms(2) c(2) cg1(4) cg(1) by simp
  moreover have "slice mac2_off 16 m2 = ?e2"
    using a2(4) c(2) assms(13,14) by simp
  moreover have "length ?e1 = 16" "length ?e2 = 16" using rep assms(2) len by simp_all
  ultimately show ?thesis
    using c(1) refresh_secret_idle [OF assms(15,16)] by (simp add: cookie_validate_macs_def Let_def z(2))
qed

theorem cookie_exchange_unlocks_witness:
  "\<exists>cg1 m1 reply cc1 r1 ret cg2 cg3 m2 r2.
     cookie_add_macs gen_example (zeros 148) 116 132 4 = (cg1, m1) \<and>
     cookie_create_reply sodium_example checker_example (\<lambda>_. 9) src_example (slice 116 16 m1) 77
       \<lparr>mc_type = 0, mc_receiver = 0, mc_nonce = zeros 24, mc_cookie_enc = zeros 32\<rparr> 5 = (reply, cc1, r1) \<and>
     cookie_consume_reply sodium_example cg1 reply 6 = (ret, cg2) \<and>
     cookie_add_macs cg2 (zeros 148) 116 132 5006 = (cg3, m2) \<and>
     ret = 0 \<and> cookie_validate_macs sodium_example cc1 r2 src_example m2 116 132 5007 True = (0, cc1, r2)"
proof -
  obtain cg1 m1 where a: "cookie_add_macs gen_example (zeros 148) 116 132 4 = (cg1, m1)" by fastforce
  obtain reply cc1 r1 where b: "cookie_create_reply sodium_example checker_example (\<lambda>_. 9) src_example (slice 116 16 m1) 77
       \<lparr>mc_type = 0, mc_receiver = 0, mc_nonce = zeros 24, mc_cookie_enc = zeros 32\<rparr> 5 = (reply, cc1, r1)"
    by (metis prod_cases3)
  obtain ret cg2 where c: "cookie_consume_reply sodium_example cg1 reply 6 = (ret, cg2)" by fastforce
  obtain cg3 m2 where d: "cookie_add_macs cg2 (zeros 148) 116 132 5006 = (cg3, m2)" by fastforce
  obtain r0 where "refresh_secret sodium_example checker_example r0 5 = (cc1, r1)"
    using create_reply_spec [OF sodium_example_laws example_keys(3) b] by blast
  then have "cc_mac2_secret_set_ms cc1 = 5"
    by (auto simp: refresh_secret_def example_keys split: prod.splits)
  then have e: "cc_mac2_secret_set_ms cc1 \<noteq> 0" "(5007 :: u64) - cc_mac2_secret_set_ms cc1 < COOKIE_REFRESH_TIME_MS"
    "(5006 :: u64) - 6 < COOKIE_REFRESH_TIME_MS" "(6 :: u64) \<noteq> 0"
    by (simp_all add: COOKIE_REFRESH_TIME_MS_def)
  have l: "116 + 16 \<le> (132 :: nat)" "132 + 16 \<le> length (zeros 148)" by simp_all
  show ?thesis
    using cookie_exchange_unlocks [OF sodium_example_laws example_keys(1,2,3) gen_example_def l l(2) a b c d e(4,3,1,2)] a b c d
    by blast
qed

end
