(* ===== verification/Index_Table.thy ===== *)
theory Index_Table
  imports Wg
begin

text \<open>
  The table of local indices (\<^verbatim>\<open>src/src/noise.c\<close>, lines 85-204): 65536 slots, addressed
  by the low 16 bits of a random 32-bit index, each holding at most one entry. The
  contract the protocol code relies on - a fresh index never collides, a lookup finds
  exactly the last entry stored under that index - is the locale \<open>index_store\<close>.
\<close>

section \<open>Operations\<close>

definition index_slot :: "u32 \<Rightarrow> nat" where
  "index_slot idx = unat (idx AND (of_nat INDEX_TABLE_SIZE - 1))"

definition index_table_init :: "index_table \<Rightarrow> index_table" where
  "index_table_init t = t\<lparr>it_occupied := \<lambda>_. False\<rparr>"

text \<open>The random probing loop: at most \<open>n\<close> attempts; \<open>idx\<close> is the C variable, left
  alone when no randomness is available.\<close>

primrec pick_random_try :: "nat \<Rightarrow> sodium \<Rightarrow> index_table \<Rightarrow> rng \<Rightarrow> u32 \<Rightarrow> u32 option \<times> u32 \<times> rng" where
  "pick_random_try 0 sd t r idx = (None, idx, r)"
| "pick_random_try (Suc n) sd t r idx =
     (let (ret, b, r) = wg_random_bytes sd r (le32 idx) 4;
          idx = of_le b
      in if idx \<noteq> 0 \<and> \<not> it_occupied t (index_slot idx) then (Some idx, idx, r)
         else pick_random_try n sd t r idx)"

text \<open>The linear scan over the slots \<open>slot, slot + 1, ...\<close>, \<open>n\<close> of them left.\<close>

primrec pick_scan :: "nat \<Rightarrow> nat \<Rightarrow> sodium \<Rightarrow> index_table \<Rightarrow> rng \<Rightarrow> u32 \<Rightarrow> u32 \<times> rng" where
  "pick_scan 0 slot sd t r idx = (0, r)"
| "pick_scan (Suc n) slot sd t r idx =
     (if it_occupied t slot then pick_scan n (slot + 1) sd t r idx
      else
        let (ret, b, r) = wg_random_bytes sd r (le32 idx) 4;
            idx = of_le b AND NOT (of_nat INDEX_TABLE_SIZE - 1);
            idx = idx OR of_nat slot;
            idx = (if idx = 0 then of_nat INDEX_TABLE_SIZE else idx)
        in (idx, r))"

definition pick_random_index :: "sodium \<Rightarrow> index_table \<Rightarrow> rng \<Rightarrow> u32 \<times> rng" where
  "pick_random_index sd t r =
     (let (found, idx, r) = pick_random_try 4096 sd t r 0
      in case found of
           Some idx \<Rightarrow> (idx, r)
         | None \<Rightarrow> pick_scan INDEX_TABLE_SIZE 0 sd t r idx)"

definition index_table_put :: "index_table \<Rightarrow> index_entry \<Rightarrow> index_table" where
  "index_table_put t e =
     (let slot = index_slot (ie_index e)
      in t\<lparr>it_occupied := (it_occupied t)(slot := True), it_entries := (it_entries t)(slot := e)\<rparr>)"

definition index_table_new_for_handshake ::
    "sodium \<Rightarrow> index_table \<Rightarrow> rng \<Rightarrow> peer_ref \<Rightarrow> peer_ref \<Rightarrow> u32 \<times> index_table \<times> rng" where
  "index_table_new_for_handshake sd t r peer hs =
     (let (idx, r) = pick_random_index sd t r
      in if idx \<noteq> 0
         then (idx, index_table_put t \<lparr>ie_type = IDX_HANDSHAKE, ie_index = idx, ie_peer = Some peer,
                 ie_handshake = Some hs, ie_keypair = None\<rparr>, r)
         else (idx, t, r))"

definition index_table_new_for_keypair ::
    "sodium \<Rightarrow> index_table \<Rightarrow> rng \<Rightarrow> peer_ref \<Rightarrow> kp_ref \<Rightarrow> u32 \<times> index_table \<times> rng" where
  "index_table_new_for_keypair sd t r peer kp =
     (let (idx, r) = pick_random_index sd t r
      in if idx \<noteq> 0
         then (idx, index_table_put t \<lparr>ie_type = IDX_KEYPAIR, ie_index = idx, ie_peer = Some peer,
                 ie_handshake = None, ie_keypair = Some kp\<rparr>, r)
         else (idx, t, r))"

definition index_table_lookup :: "index_table \<Rightarrow> u32 \<Rightarrow> index_entry option" where
  "index_table_lookup t idx =
     (let slot = index_slot idx
      in if it_occupied t slot \<and> ie_index (it_entries t slot) = idx then Some (it_entries t slot) else None)"

definition index_table_delete :: "index_table \<Rightarrow> u32 \<Rightarrow> index_table" where
  "index_table_delete t idx =
     (if idx = 0 then t
      else
        let slot = index_slot idx
        in if it_occupied t slot \<and> ie_index (it_entries t slot) = idx
           then t\<lparr>it_occupied := (it_occupied t)(slot := False),
                  it_entries := (it_entries t)(slot := entry_zero)\<rparr>
           else t)"

text \<open>The boolean says whether the code also stores \<open>old_idx\<close> in \<^verbatim>\<open>kp->local_index\<close>.\<close>

definition index_table_swap_keypair :: "index_table \<Rightarrow> u32 \<Rightarrow> kp_ref \<Rightarrow> bool \<times> index_table" where
  "index_table_swap_keypair t old_idx kp =
     (if old_idx = 0 then (False, t)
      else
        let slot = index_slot old_idx
        in if it_occupied t slot \<and> ie_index (it_entries t slot) = old_idx
           then (True, t\<lparr>it_entries := (it_entries t)(slot :=
                   (it_entries t slot)\<lparr>ie_type := IDX_KEYPAIR, ie_keypair := Some kp\<rparr>)\<rparr>)
           else (False, t))"

section \<open>Picking an index\<close>

lemma index_slot_mod: "index_slot idx = unat idx mod 65536"
  using unat_take_bit [of 16 idx] by (simp add: index_slot_def INDEX_TABLE_SIZE_def take_bit_eq_mask mask_eq_exp_minus_1)

lemma index_slot_less [simp]: "index_slot idx < 65536"
  by (simp add: index_slot_mod)

lemma index_slot_0 [simp]: "index_slot 0 = 0"
  by (simp add: index_slot_mod)

lemma index_slot_or:
  assumes "slot < 65536"
  shows "index_slot ((x AND NOT (of_nat INDEX_TABLE_SIZE - 1)) OR of_nat slot) = slot"
proof -
  have m: "(of_nat INDEX_TABLE_SIZE - 1 :: u32) = mask 16" by (simp add: INDEX_TABLE_SIZE_def mask_eq_exp_minus_1)
  have "(x AND NOT (mask 16) OR of_nat slot) AND mask 16 = of_nat slot AND (mask 16 :: u32)"
    by (auto simp: bit_eq_iff bit_simps)
  also have "\<dots> = of_nat slot"
    using assms by (simp flip: take_bit_eq_mask add: take_bit_of_nat take_bit_nat_eq_self)
  finally show ?thesis using assms by (simp add: index_slot_def m unat_of_nat)
qed

lemma pick_random_try_free:
  "pick_random_try n sd t r idx = (Some i, x, r') \<Longrightarrow> i \<noteq> 0 \<and> \<not> it_occupied t (index_slot i)"
  by (induction n arbitrary: r idx) (auto simp: Let_def split: prod.splits if_splits)

lemma pick_scan_spec:
  assumes "slot + n \<le> 65536"
  shows "if \<forall>s. slot \<le> s \<and> s < slot + n \<longrightarrow> it_occupied t s then fst (pick_scan n slot sd t r idx) = 0
    else fst (pick_scan n slot sd t r idx) \<noteq> 0 \<and>
      \<not> it_occupied t (index_slot (fst (pick_scan n slot sd t r idx)))"
  using assms
proof (induction n arbitrary: slot)
  case (Suc n)
  show ?case
  proof (cases "it_occupied t slot")
    case True
    have split: "slot \<le> s \<and> s < slot + Suc n \<longleftrightarrow> s = slot \<or> slot + 1 \<le> s \<and> s < slot + 1 + n" for s by auto
    have "(\<forall>s. slot \<le> s \<and> s < slot + Suc n \<longrightarrow> it_occupied t s) \<longleftrightarrow>
        (\<forall>s. slot + 1 \<le> s \<and> s < slot + 1 + n \<longrightarrow> it_occupied t s)"
      unfolding split using True by blast
    moreover have "pick_scan (Suc n) slot sd t r idx = pick_scan n (slot + 1) sd t r idx" using True by simp
    moreover have "slot + 1 + n \<le> 65536" using Suc.prems by simp
    ultimately show ?thesis using Suc.IH [of "slot + 1"] by presburger
  next
    case False
    then have "\<not> (\<forall>s. slot \<le> s \<and> s < slot + Suc n \<longrightarrow> it_occupied t s)" by auto
    moreover have "index_slot (of_nat INDEX_TABLE_SIZE) = 0" by (simp add: index_slot_mod INDEX_TABLE_SIZE_def)
    moreover have "(of_nat INDEX_TABLE_SIZE :: u32) \<noteq> 0" by (simp add: INDEX_TABLE_SIZE_def)
    moreover have s: "index_slot ((x AND NOT (of_nat INDEX_TABLE_SIZE - 1)) OR of_nat slot) = slot" for x
      using Suc.prems by (intro index_slot_or) simp
    moreover have "slot = 0" if "(x AND NOT (of_nat INDEX_TABLE_SIZE - 1)) OR of_nat slot = 0" for x :: u32
      using s [of x] that by simp
    ultimately show ?thesis using False by (auto simp: Let_def split: prod.split)
  qed
qed auto

lemma pick_random_index_spec:
  "if \<forall>s < 65536. it_occupied t s then fst (pick_random_index sd t r) = 0
   else fst (pick_random_index sd t r) \<noteq> 0 \<and> \<not> it_occupied t (index_slot (fst (pick_random_index sd t r)))"
proof -
  obtain f x r' where p: "pick_random_try 4096 sd t r 0 = (f, x, r')" by (metis prod_cases3)
  show ?thesis
  proof (cases f)
    case None
    then show ?thesis
      using p pick_scan_spec [of 0 65536 t sd r' x] by (simp add: pick_random_index_def INDEX_TABLE_SIZE_def)
  next
    case (Some i)
    then have "i \<noteq> 0 \<and> \<not> it_occupied t (index_slot i)" using p pick_random_try_free by blast
    moreover from this have "\<not> (\<forall>s < 65536. it_occupied t s)" using index_slot_less by blast
    ultimately show ?thesis using p Some by (simp add: pick_random_index_def)
  qed
qed

section \<open>The table as a finite map\<close>

lemma lookup_put:
  assumes "\<not> it_occupied t (index_slot (ie_index e))"
  shows "index_table_lookup (index_table_put t e) = (index_table_lookup t)(ie_index e \<mapsto> e)"
proof (rule ext)
  fix j
  show "index_table_lookup (index_table_put t e) j = ((index_table_lookup t)(ie_index e \<mapsto> e)) j"
    using assms by (cases "j = ie_index e"; cases "index_slot j = index_slot (ie_index e)")
      (simp_all add: index_table_lookup_def index_table_put_def Let_def)
qed

lemma lookup_delete:
  "index_table_lookup (index_table_delete t i) = (index_table_lookup t)(i := if i = 0 then index_table_lookup t 0 else None)"
proof (rule ext)
  fix j
  show "index_table_lookup (index_table_delete t i) j =
      ((index_table_lookup t)(i := if i = 0 then index_table_lookup t 0 else None)) j"
    by (cases "i = 0"; cases "j = i"; cases "index_slot j = index_slot i")
      (simp_all add: index_table_lookup_def index_table_delete_def Let_def)
qed

lemma lookup_swap:
  assumes "i \<noteq> 0"
  shows "index_table_lookup (snd (index_table_swap_keypair t i k)) =
    (index_table_lookup t)(i := map_option (\<lambda>e. e\<lparr>ie_type := IDX_KEYPAIR, ie_keypair := Some k\<rparr>) (index_table_lookup t i))"
proof (rule ext)
  fix j
  show "index_table_lookup (snd (index_table_swap_keypair t i k)) j = ((index_table_lookup t)
      (i := map_option (\<lambda>e. e\<lparr>ie_type := IDX_KEYPAIR, ie_keypair := Some k\<rparr>) (index_table_lookup t i))) j"
    using assms by (cases "j = i"; cases "index_slot j = index_slot i")
      (simp_all add: index_table_lookup_def index_table_swap_keypair_def Let_def)
qed

lemma swap_found: "i \<noteq> 0 \<Longrightarrow> fst (index_table_swap_keypair t i k) \<longleftrightarrow> index_table_lookup t i \<noteq> None"
  by (simp add: index_table_lookup_def index_table_swap_keypair_def Let_def)

lemma lookup_Some_index: "index_table_lookup t i = Some e \<Longrightarrow> ie_index e = i"
  by (auto simp: index_table_lookup_def Let_def split: if_splits)

lemma lookup_init [simp]: "index_table_lookup (index_table_init t) i = None"
  by (simp add: index_table_lookup_def index_table_init_def Let_def)

definition table_full :: "index_table \<Rightarrow> bool" where
  "table_full t \<longleftrightarrow> (\<forall>s < 65536. it_occupied t s)"

lemma free_slot_lookup: "\<not> it_occupied t (index_slot i) \<Longrightarrow> index_table_lookup t i = None"
  by (simp add: index_table_lookup_def)

section \<open>The contract\<close>

locale index_store =
  fixes lookup :: "'t \<Rightarrow> u32 \<Rightarrow> 'e option"
    and full :: "'t \<Rightarrow> bool"
    and new :: "'t \<Rightarrow> rng \<Rightarrow> 'a \<Rightarrow> u32 \<times> 't \<times> rng"
    and mk :: "'a \<Rightarrow> u32 \<Rightarrow> 'e"
    and delete :: "'t \<Rightarrow> u32 \<Rightarrow> 't"
  assumes new_full: "fst (new t r x) = 0 \<longleftrightarrow> full t"
    and new_fresh: "fst (new t r x) \<noteq> 0 \<Longrightarrow> lookup t (fst (new t r x)) = None"
    and new_lookup: "fst (new t r x) \<noteq> 0 \<Longrightarrow>
      lookup (fst (snd (new t r x))) = (lookup t)(fst (new t r x) \<mapsto> mk x (fst (new t r x)))"
    and new_fail: "fst (new t r x) = 0 \<Longrightarrow> fst (snd (new t r x)) = t"
    and delete_lookup: "i \<noteq> 0 \<Longrightarrow> lookup (delete t i) = (lookup t)(i := None)"
begin

text \<open>An allocation that succeeds adds exactly one entry, and deleting it undoes it.\<close>

lemma new_dom: "dom (lookup (fst (snd (new t r x)))) =
    (if full t then dom (lookup t) else insert (fst (new t r x)) (dom (lookup t)))"
  using new_full [of t r x] new_lookup [of t r x] new_fail [of t r x] by auto

lemma new_delete:
  assumes "\<not> full t"
  shows "lookup (delete (fst (snd (new t r x))) (fst (new t r x))) = lookup t"
proof -
  have "fst (new t r x) \<noteq> 0" using assms new_full by blast
  then show ?thesis
    using new_fresh [of t r x] by (simp add: delete_lookup new_lookup fun_upd_idem)
qed

lemma new_keeps:
  assumes "lookup t i = Some e"
  shows "lookup (fst (snd (new t r x))) i = Some e"
proof (cases "fst (new t r x) = 0")
  case True
  then show ?thesis using assms new_fail by simp
next
  case False
  then have "fst (new t r x) \<noteq> i" using assms new_fresh [of t r x] by auto
  then show ?thesis using assms False new_lookup [of t r x] by simp
qed

end

interpretation hs_index: index_store index_table_lookup table_full
  "\<lambda>t r (p, h). index_table_new_for_handshake sd t r p h"
  "\<lambda>(p, h) idx. \<lparr>ie_type = IDX_HANDSHAKE, ie_index = idx, ie_peer = Some p, ie_handshake = Some h, ie_keypair = None\<rparr>"
  index_table_delete for sd
proof (unfold_locales, goal_cases)
  case (1 t r x)
  then show ?case using pick_random_index_spec [of t sd r]
    by (auto simp: index_table_new_for_handshake_def table_full_def Let_def split: prod.splits if_splits)
next
  case (2 t r x)
  then show ?case using pick_random_index_spec [of t sd r]
    by (auto simp: index_table_new_for_handshake_def Let_def free_slot_lookup split: prod.splits if_splits)
next
  case (3 t r x)
  then show ?case using pick_random_index_spec [of t sd r]
    by (auto simp: index_table_new_for_handshake_def Let_def lookup_put split: prod.splits if_splits)
next
  case (4 t r x)
  then show ?case by (auto simp: index_table_new_for_handshake_def Let_def split: prod.splits if_splits)
next
  case (5 i t)
  then show ?case by (simp add: lookup_delete)
qed

interpretation kp_index: index_store index_table_lookup table_full
  "\<lambda>t r (p, k). index_table_new_for_keypair sd t r p k"
  "\<lambda>(p, k) idx. \<lparr>ie_type = IDX_KEYPAIR, ie_index = idx, ie_peer = Some p, ie_handshake = None, ie_keypair = Some k\<rparr>"
  index_table_delete for sd
proof (unfold_locales, goal_cases)
  case (1 t r x)
  then show ?case using pick_random_index_spec [of t sd r]
    by (auto simp: index_table_new_for_keypair_def table_full_def Let_def split: prod.splits if_splits)
next
  case (2 t r x)
  then show ?case using pick_random_index_spec [of t sd r]
    by (auto simp: index_table_new_for_keypair_def Let_def free_slot_lookup split: prod.splits if_splits)
next
  case (3 t r x)
  then show ?case using pick_random_index_spec [of t sd r]
    by (auto simp: index_table_new_for_keypair_def Let_def lookup_put split: prod.splits if_splits)
next
  case (4 t r x)
  then show ?case by (auto simp: index_table_new_for_keypair_def Let_def split: prod.splits if_splits)
next
  case (5 i t)
  then show ?case by (simp add: lookup_delete)
qed

section \<open>Properties\<close>

text \<open>\<^bold>\<open>C21\<close>. Allocating a local index never disturbs a live session: the new index was
  unused, every index that resolved before still resolves to the same entry, the new
  index resolves to the new handshake, and allocation fails only when all 65536 slots
  are taken - whatever the random numbers are.\<close>

theorem index_table_new_never_collides:
  "case index_table_new_for_handshake sd t r peer hs of (idx, t', r') \<Rightarrow>
     (idx = 0 \<longleftrightarrow> (\<forall>s < 65536. it_occupied t s)) \<and>
     (idx = 0 \<longrightarrow> t' = t) \<and>
     (idx \<noteq> 0 \<longrightarrow> index_table_lookup t idx = None \<and>
        index_table_lookup t' idx = Some \<lparr>ie_type = IDX_HANDSHAKE, ie_index = idx, ie_peer = Some peer,
          ie_handshake = Some hs, ie_keypair = None\<rparr>) \<and>
     (\<forall>i e. index_table_lookup t i = Some e \<longrightarrow> index_table_lookup t' i = Some e)"
proof -
  obtain idx t' r' where n: "index_table_new_for_handshake sd t r peer hs = (idx, t', r')" by (metis prod_cases3)
  have "index_table_lookup t' i = Some e" if "index_table_lookup t i = Some e" for i e
    using hs_index.new_keeps [OF that, of sd r "(peer, hs)"] n by simp
  moreover have "index_table_lookup t' idx = Some \<lparr>ie_type = IDX_HANDSHAKE, ie_index = idx, ie_peer = Some peer,
          ie_handshake = Some hs, ie_keypair = None\<rparr>" if "idx \<noteq> 0"
    using hs_index.new_lookup [of sd t r "(peer, hs)"] n that by simp
  ultimately show ?thesis
    using hs_index.new_full [of sd t r "(peer, hs)"] hs_index.new_fresh [of sd t r "(peer, hs)"]
      hs_index.new_fail [of sd t r "(peer, hs)"] n by (simp add: table_full_def)
qed

theorem index_table_new_never_collides_witness:
  "case index_table_new_for_handshake sodium_example (d_index_table device_zero) (\<lambda>_. 7) 3 3 of (idx, t', r') \<Rightarrow>
     idx \<noteq> 0 \<and> index_table_lookup (d_index_table device_zero) idx = None \<and>
     map_option ie_peer (index_table_lookup t' idx) = Some (Some 3)"
proof -
  have "\<not> (\<forall>s < 65536. it_occupied (d_index_table device_zero) s)"
    by (simp add: device_zero_def) (rule exI [of _ 0], simp)
  then show ?thesis
    using index_table_new_never_collides [where sd = sodium_example and t = "d_index_table device_zero" and r = "\<lambda>_. 7" and peer = 3 and hs = 3]
    by (auto split: prod.splits)
qed

end
