(* ===== verification/Noise.thy ===== *)
theory Noise
  imports Index_Table Cookie
begin

text \<open>
  The Noise IKpsk2 handshake (\<^verbatim>\<open>src/src/noise.c\<close>): the four message functions, which
  mutate the handshake embedded in a peer and the device's index table, and the
  derivation and rotation of session keypairs. Each function returns its C result and
  the new device; the partial updates a failing call leaves behind are kept.
\<close>

section \<open>Mixing\<close>

definition mix_hash :: "bytes \<Rightarrow> bytes \<Rightarrow> bytes" where
  "mix_hash h data =
     (let S = snd (blake2s_init stack_state WG_HASH_LEN);
          S = snd (blake2s_update S h);
          S = snd (blake2s_update S data)
      in written h (fst (blake2s_final S True WG_HASH_LEN)))"

definition mix_key :: "bytes \<Rightarrow> bytes \<Rightarrow> bytes" where
  "mix_key ck data = wg_kdf1 ck data"

definition noise_init_device :: "wg_device \<Rightarrow> wg_device" where
  "noise_init_device dev =
     (let ck = wg_blake2s256 NOISE_CONSTRUCTION
      in dev\<lparr>d_noise_init_chain_key := ck, d_noise_init_hash := mix_hash ck WG_IDENTIFIER\<rparr>)"

definition noise_precompute_static_static :: "sodium \<Rightarrow> wg_device \<Rightarrow> peer_ref \<Rightarrow> wg_device" where
  "noise_precompute_static_static sd dev p =
     upd_hs p (\<lambda>hs. hs\<lparr>hs_precomputed_static_static :=
       snd (wg_dh sd (hs_precomputed_static_static hs) (d_private_key dev) (p_public_key (peer_at dev p)))\<rparr>) dev"

definition noise_set_static_key :: "sodium \<Rightarrow> wg_device \<Rightarrow> bytes \<Rightarrow> wg_device" where
  "noise_set_static_key sd dev priv =
     (let dev = dev\<lparr>d_private_key := priv, d_public_key := wg_generate_public_key sd (d_public_key dev) priv\<rparr>
      in fold (\<lambda>p dev. noise_precompute_static_static sd dev p) (d_peers dev) dev)"

definition noise_handshake_init :: "wg_handshake \<Rightarrow> bytes \<Rightarrow> bytes option \<Rightarrow> wg_handshake" where
  "noise_handshake_init hs remote_static psk =
     hs\<lparr>hs_state := HS_ZEROED, hs_remote_static := remote_static,
        hs_psk := (case psk of Some k \<Rightarrow> k | None \<Rightarrow> zeros WG_PSK_LEN),
        hs_last_timestamp := tai64n_zero, hs_last_initiation_consumption_ms := 0,
        hs_last_sent_handshake_ms := 0\<rparr>"

definition noise_handshake_clear :: "sodium \<Rightarrow> wg_handshake \<Rightarrow> wg_handshake" where
  "noise_handshake_clear sd hs =
     hs\<lparr>hs_hash := wg_memzero sd (hs_hash hs), hs_chain_key := wg_memzero sd (hs_chain_key hs),
        hs_local_ephemeral_priv := wg_memzero sd (hs_local_ephemeral_priv hs),
        hs_local_ephemeral_pub := wg_memzero sd (hs_local_ephemeral_pub hs),
        hs_remote_ephemeral := wg_memzero sd (hs_remote_ephemeral hs),
        hs_local_index := 0, hs_remote_index := 0, hs_last_sent_handshake_ms := 0, hs_state := HS_ZEROED\<rparr>"

text \<open>\<^verbatim>\<open>index_table_delete(&dev->index_table, idx)\<close> and
  \<^verbatim>\<open>index_table_new_for_handshake(&dev->index_table, peer, hs)\<close> on the device.\<close>

definition dev_index_delete :: "wg_device \<Rightarrow> u32 \<Rightarrow> wg_device" where
  "dev_index_delete dev idx = dev\<lparr>d_index_table := index_table_delete (d_index_table dev) idx\<rparr>"

definition dev_index_new :: "sodium \<Rightarrow> wg_device \<Rightarrow> peer_ref \<Rightarrow> u32 \<times> wg_device" where
  "dev_index_new sd dev p =
     (let (idx, t, r) = index_table_new_for_handshake sd (d_index_table dev) (e_rng dev) p p
      in (idx, dev\<lparr>d_index_table := t, e_rng := r\<rparr>))"

definition set_hs :: "peer_ref \<Rightarrow> wg_handshake \<Rightarrow> wg_device \<Rightarrow> wg_device" where
  "set_hs p hs dev = upd_hs p (\<lambda>_. hs) dev"

definition zero_nonce :: bytes where "zero_nonce = zeros WG_NONCE_LEN"

section \<open>Initiation\<close>

text \<open>\<open>msg\<close> is the caller's uninitialised struct; the result is the return value, the
  message and the device.\<close>

definition noise_create_initiation :: "sodium \<Rightarrow> wg_device \<Rightarrow> peer_ref \<Rightarrow> msg_initiation \<Rightarrow> int \<times> msg_initiation \<times> wg_device" where
  "noise_create_initiation sd dev p msg =
    (let hs = p_handshake (peer_at dev p);
         (ret, priv, r) = wg_generate_private_key sd (e_rng dev) (hs_local_ephemeral_priv hs);
         dev = dev\<lparr>e_rng := r\<rparr>;
         hs = hs\<lparr>hs_local_ephemeral_priv := priv\<rparr>
     in if ret < 0 then (-1, msg, set_hs p hs dev) else
     let hs = hs\<lparr>hs_local_ephemeral_pub := wg_generate_public_key sd (hs_local_ephemeral_pub hs) priv,
                 hs_hash := d_noise_init_hash dev, hs_chain_key := d_noise_init_chain_key dev\<rparr>;
         hs = hs\<lparr>hs_hash := mix_hash (hs_hash hs) (hs_remote_static hs)\<rparr>;
         msg = msg\<lparr>mi_type := MSG_INITIATION, mi_ephemeral := hs_local_ephemeral_pub hs\<rparr>;
         hs = hs\<lparr>hs_chain_key := mix_key (hs_chain_key hs) (mi_ephemeral msg),
                 hs_hash := mix_hash (hs_hash hs) (mi_ephemeral msg)\<rparr>;
         (dret, ss) = wg_dh sd (zeros WG_KEY_LEN) priv (hs_remote_static hs)
     in if dret < 0 then (-1, msg, set_hs p hs dev) else
     let (ck, key) = wg_kdf2 (hs_chain_key hs) ss;
         hs = hs\<lparr>hs_chain_key := ck\<rparr>
     in case wg_chacha20poly1305_encrypt sd key zero_nonce (d_public_key dev) (hs_hash hs) of
          None \<Rightarrow> (-1, msg, set_hs p hs dev)
        | Some static_enc \<Rightarrow>
     let msg = msg\<lparr>mi_static_enc := static_enc\<rparr>;
         hs = hs\<lparr>hs_hash := mix_hash (hs_hash hs) static_enc\<rparr>
     in if wg_ct_equal sd (hs_precomputed_static_static hs) (zeros WG_KEY_LEN) then (-1, msg, set_hs p hs dev) else
     let (ck, key) = wg_kdf2 (hs_chain_key hs) (hs_precomputed_static_static hs);
         hs = hs\<lparr>hs_chain_key := ck\<rparr>;
         ((sec, nsec), dev) = clock_gettime dev;
         ts = tai64n_now sec nsec
     in case wg_chacha20poly1305_encrypt sd key zero_nonce (ts_bytes ts) (hs_hash hs) of
          None \<Rightarrow> (-1, msg, set_hs p hs dev)
        | Some timestamp_enc \<Rightarrow>
     let msg = msg\<lparr>mi_timestamp_enc := timestamp_enc\<rparr>;
         dev = dev_index_delete dev (hs_local_index hs);
         (sender, dev) = dev_index_new sd dev p
     in if sender = 0 then (-1, msg, set_hs p hs dev) else
     let msg = msg\<lparr>mi_sender := sender\<rparr>;
         hs = hs\<lparr>hs_local_index := sender, hs_hash := mix_hash (hs_hash hs) timestamp_enc,
                 hs_state := HS_INITIATION_CREATED\<rparr>;
         dev = set_hs p hs dev;
         (cg, b) = cookie_add_macs (p_cookie (peer_at dev p)) (initiation_bytes msg) INITIATION_MAC1 INITIATION_MAC2 (e_now dev);
         dev = upd_peer p (\<lambda>q. q\<lparr>p_cookie := cg\<rparr>) dev
     in (0, initiation_of b, dev))"

text \<open>The first peer of the list whose public key matches (lines 506-513).\<close>

definition find_peer_by_key :: "sodium \<Rightarrow> wg_device \<Rightarrow> bytes \<Rightarrow> peer_ref option" where
  "find_peer_by_key sd dev pk = find (\<lambda>p. wg_ct_equal sd (p_public_key (peer_at dev p)) pk) (d_peers dev)"

definition noise_consume_initiation :: "sodium \<Rightarrow> wg_device \<Rightarrow> msg_initiation \<Rightarrow> peer_ref option \<times> wg_device" where
  "noise_consume_initiation sd dev msg =
    (if mi_type msg \<noteq> MSG_INITIATION then (None, dev) else
     let hash = mix_hash (d_noise_init_hash dev) (d_public_key dev);
         hash = mix_hash hash (mi_ephemeral msg);
         chain_key = mix_key (d_noise_init_chain_key dev) (mi_ephemeral msg);
         (dret, ss) = wg_dh sd (zeros WG_KEY_LEN) (d_private_key dev) (mi_ephemeral msg)
     in if dret < 0 then (None, dev) else
     let (chain_key, key) = wg_kdf2 chain_key ss
     in case wg_chacha20poly1305_decrypt sd key zero_nonce (mi_static_enc msg) hash of
          None \<Rightarrow> (None, dev)
        | Some peer_pk \<Rightarrow>
     let hash = mix_hash hash (mi_static_enc msg)
     in case find_peer_by_key sd dev peer_pk of
          None \<Rightarrow> (None, dev)
        | Some p \<Rightarrow>
     let hs = p_handshake (peer_at dev p)
     in if wg_ct_equal sd (hs_precomputed_static_static hs) (zeros WG_KEY_LEN) then (None, dev) else
     let (chain_key, key) = wg_kdf2 chain_key (hs_precomputed_static_static hs)
     in case wg_chacha20poly1305_decrypt sd key zero_nonce (mi_timestamp_enc msg) hash of
          None \<Rightarrow> (None, dev)
        | Some tsb \<Rightarrow>
     let ts = Tai64n tsb;
         hash = mix_hash hash (mi_timestamp_enc msg);
         replay = (\<not> tai64n_after ts (hs_last_timestamp hs));
         now_ms = e_now dev;
         flood = (now_ms - hs_last_initiation_consumption_ms hs \<le> HANDSHAKE_INIT_RATE_MS)
     in if replay \<or> flood then (None, dev) else
     let hs = hs\<lparr>hs_hash := hash, hs_chain_key := chain_key, hs_remote_ephemeral := mi_ephemeral msg,
                 hs_remote_index := mi_sender msg\<rparr>;
         hs = (if tai64n_after ts (hs_last_timestamp hs) then hs\<lparr>hs_last_timestamp := ts\<rparr> else hs);
         hs = (if now_ms > hs_last_initiation_consumption_ms hs
               then hs\<lparr>hs_last_initiation_consumption_ms := now_ms\<rparr> else hs);
         hs = hs\<lparr>hs_state := HS_INITIATION_CONSUMED\<rparr>
     in (Some p, set_hs p hs dev))"

section \<open>Response\<close>

definition noise_create_response :: "sodium \<Rightarrow> wg_device \<Rightarrow> peer_ref \<Rightarrow> msg_response \<Rightarrow> int \<times> msg_response \<times> wg_device" where
  "noise_create_response sd dev p msg =
    (let hs = p_handshake (peer_at dev p)
     in if hs_state hs \<noteq> HS_INITIATION_CONSUMED then (-1, msg, dev) else
     let dev = dev_index_delete dev (hs_local_index hs);
         (idx, dev) = dev_index_new sd dev p;
         hs = hs\<lparr>hs_local_index := idx\<rparr>
     in if idx = 0 then (-1, msg, set_hs p hs dev) else
     let msg = msg\<lparr>mr_type := MSG_RESPONSE, mr_sender := hs_local_index hs, mr_receiver := hs_remote_index hs\<rparr>;
         (ret, priv, r) = wg_generate_private_key sd (e_rng dev) (hs_local_ephemeral_priv hs);
         dev = dev\<lparr>e_rng := r\<rparr>;
         hs = hs\<lparr>hs_local_ephemeral_priv := priv\<rparr>
     in if ret < 0 then (-1, msg, set_hs p hs dev) else
     let hs = hs\<lparr>hs_local_ephemeral_pub := wg_generate_public_key sd (hs_local_ephemeral_pub hs) priv\<rparr>;
         msg = msg\<lparr>mr_ephemeral := hs_local_ephemeral_pub hs\<rparr>;
         hs = hs\<lparr>hs_hash := mix_hash (hs_hash hs) (mr_ephemeral msg),
                 hs_chain_key := mix_key (hs_chain_key hs) (mr_ephemeral msg)\<rparr>;
         (dret, ss) = wg_dh sd (zeros WG_KEY_LEN) priv (hs_remote_ephemeral hs)
     in if dret < 0 then (-1, msg, set_hs p hs dev) else
     let hs = hs\<lparr>hs_chain_key := mix_key (hs_chain_key hs) ss\<rparr>;
         (dret, ss) = wg_dh sd (wg_memzero sd ss) priv (hs_remote_static hs)
     in if dret < 0 then (-1, msg, set_hs p hs dev) else
     let hs = hs\<lparr>hs_chain_key := mix_key (hs_chain_key hs) ss\<rparr>;
         (ck, tau, key) = wg_kdf3 (hs_chain_key hs) (hs_psk hs);
         hs = hs\<lparr>hs_chain_key := ck, hs_hash := mix_hash (hs_hash hs) tau\<rparr>
     in case wg_chacha20poly1305_encrypt sd key zero_nonce [] (hs_hash hs) of
          None \<Rightarrow> (-1, msg, set_hs p hs dev)
        | Some empty_enc \<Rightarrow>
     let msg = msg\<lparr>mr_empty_enc := empty_enc\<rparr>;
         hs = hs\<lparr>hs_hash := mix_hash (hs_hash hs) empty_enc, hs_state := HS_RESPONSE_CREATED\<rparr>;
         dev = set_hs p hs dev;
         (cg, b) = cookie_add_macs (p_cookie (peer_at dev p)) (response_bytes msg) RESPONSE_MAC1 RESPONSE_MAC2 (e_now dev);
         dev = upd_peer p (\<lambda>q. q\<lparr>p_cookie := cg\<rparr>) dev
     in (0, response_of b, dev))"

definition noise_consume_response :: "sodium \<Rightarrow> wg_device \<Rightarrow> msg_response \<Rightarrow> peer_ref option \<times> wg_device" where
  "noise_consume_response sd dev msg =
    (if mr_type msg \<noteq> MSG_RESPONSE then (None, dev) else
     case index_table_lookup (d_index_table dev) (mr_receiver msg) of
       None \<Rightarrow> (None, dev)
     | Some entry \<Rightarrow>
     if ie_type entry \<noteq> IDX_HANDSHAKE then (None, dev) else
     case ie_handshake entry of
       None \<Rightarrow> (None, dev)
     | Some h \<Rightarrow>
     let hs = p_handshake (peer_at dev h)
     in if hs_state hs \<noteq> HS_INITIATION_CREATED then (None, dev) else
     let hash = mix_hash (hs_hash hs) (mr_ephemeral msg);
         chain_key = mix_key (hs_chain_key hs) (mr_ephemeral msg);
         (dret, ss) = wg_dh sd (zeros WG_KEY_LEN) (hs_local_ephemeral_priv hs) (mr_ephemeral msg)
     in if dret < 0 then (None, dev) else
     let chain_key = mix_key chain_key ss;
         (dret, ss) = wg_dh sd (wg_memzero sd ss) (d_private_key dev) (mr_ephemeral msg)
     in if dret < 0 then (None, dev) else
     let chain_key = mix_key chain_key ss;
         (chain_key, tau, key) = wg_kdf3 chain_key (hs_psk hs);
         hash = mix_hash hash tau
     in case wg_chacha20poly1305_decrypt sd key zero_nonce (mr_empty_enc msg) hash of
          None \<Rightarrow> (None, dev)
        | Some dummy \<Rightarrow>
     let hash = mix_hash hash (mr_empty_enc msg);
         hs = hs\<lparr>hs_hash := hash, hs_chain_key := chain_key, hs_remote_index := mr_sender msg,
                 hs_state := HS_RESPONSE_CONSUMED\<rparr>
     in (ie_peer entry, set_hs h hs dev))"

section \<open>Sessions\<close>

definition keypair_zero :: wg_keypair where
  "keypair_zero = \<lparr>kp_send_nonce = 0, kp_send_key = zeros 32, kp_recv_key = zeros 32,
     kp_replay = \<lparr>rf_last = 0, rf_ring = replicate 128 0\<rparr>, kp_is_initiator = False, kp_created_at_ms = 0,
     kp_local_index = 0, kp_remote_index = 0\<rparr>"

text \<open>\<^verbatim>\<open>index_table_delete(&dev->index_table, old->local_index); free(old);\<close> for a non-null \<open>old\<close>\<close>

definition retire_keypair :: "wg_device \<Rightarrow> kp_ref option \<Rightarrow> wg_device" where
  "retire_keypair dev old =
     (case old of None \<Rightarrow> dev
      | Some k \<Rightarrow> kp_release k (dev_index_delete dev (kp_local_index (kp_at dev k))))"

definition rotate_keypairs :: "wg_device \<Rightarrow> peer_ref \<Rightarrow> kp_ref \<Rightarrow> bool \<Rightarrow> wg_device" where
  "rotate_keypairs dev p kp is_initiator =
    (let q = peer_at dev p;
         old_prev = p_prev_keypair q;
         old_next = p_next_keypair q;
         old_cur = p_current_keypair q
     in if is_initiator then
          let dev = (if old_next \<noteq> None
                     then retire_keypair (upd_peer p (\<lambda>q. q\<lparr>p_prev_keypair := old_next\<rparr>) dev) old_cur
                     else upd_peer p (\<lambda>q. q\<lparr>p_prev_keypair := old_cur\<rparr>) dev);
              dev = retire_keypair dev old_prev
          in upd_peer p (\<lambda>q. q\<lparr>p_current_keypair := Some kp, p_next_keypair := None\<rparr>) dev
        else
          let dev = upd_peer p (\<lambda>q. q\<lparr>p_next_keypair := Some kp\<rparr>) dev;
              dev = retire_keypair dev old_next;
              dev = upd_peer p (\<lambda>q. q\<lparr>p_prev_keypair := None\<rparr>) dev
          in retire_keypair dev old_prev)"

definition noise_begin_session :: "sodium \<Rightarrow> wg_device \<Rightarrow> peer_ref \<Rightarrow> int \<times> wg_device" where
  "noise_begin_session sd dev p =
    (let hs = p_handshake (peer_at dev p)
     in if hs_state hs \<noteq> HS_RESPONSE_CONSUMED \<and> hs_state hs \<noteq> HS_RESPONSE_CREATED then (-1, dev) else
     case calloc dev of
       (None, dev) \<Rightarrow> (-1, dev)
     | (Some k, dev) \<Rightarrow>
     let kp = keypair_zero\<lparr>kp_send_nonce := 0, kp_created_at_ms := e_now dev, kp_replay := replay_reset\<rparr>;
         kp = (if hs_state hs = HS_RESPONSE_CONSUMED
               then let (sk, rk) = wg_kdf2 (hs_chain_key hs) []
                    in kp\<lparr>kp_send_key := sk, kp_recv_key := rk, kp_is_initiator := True\<rparr>
               else let (rk, sk) = wg_kdf2 (hs_chain_key hs) []
                    in kp\<lparr>kp_recv_key := rk, kp_send_key := sk, kp_is_initiator := False\<rparr>);
         kp = kp\<lparr>kp_local_index := hs_local_index hs, kp_remote_index := hs_remote_index hs\<rparr>;
         (found, t) = index_table_swap_keypair (d_index_table dev) (hs_local_index hs) k;
         kp = (if found then kp\<lparr>kp_local_index := hs_local_index hs\<rparr> else kp);
         dev = dev\<lparr>d_index_table := t, kp_mem := (kp_mem dev)(k \<mapsto> kp)\<rparr>;
         hs = hs\<lparr>hs_local_index := 0\<rparr>;
         ((sec, nsec), dev) = clock_gettime dev;
         dev = upd_peer p (\<lambda>q. q\<lparr>p_last_handshake_ns := sec * 1000000000 + ucast nsec\<rparr>) dev;
         dev = set_hs p (noise_handshake_clear sd hs) dev
     in (0, rotate_keypairs dev p k (kp_is_initiator kp)))"

section \<open>Lemmas on mixing\<close>

lemma mix_hash_rfc: "length h = 32 \<Longrightarrow> mix_hash h data = rfc_blake2s (h @ data) [] 32"
proof -
  assume h: "length h = 32"
  obtain S0 where S0: "blake2s_init stack_state 32 = (0, S0)" using blake2s_init_repr [of 32 stack_state] by auto
  show ?thesis
    using blake2s_updates [OF S0, of h data] h
    by (simp add: mix_hash_def S0 written_def put_def length_blake2s)
qed

end
