(* ===== verification/Handshake.thy ===== *)
theory Handshake
  imports Noise
begin

text \<open>
  Correctness of the handshake across two devices. The transcript functions
  \<open>ik_initiation\<close> and \<open>ik_response\<close> are the Noise IKpsk2 message patterns written as pure
  functions of the Diffie-Hellman results; the four C functions are shown to compute
  them, and the agreement theorem follows from the commutativity of X25519.
\<close>

section \<open>The pattern as pure functions\<close>

definition ik_initiation :: "sodium \<Rightarrow> bytes \<Rightarrow> bytes \<Rightarrow> bytes \<Rightarrow> bytes \<Rightarrow> bytes \<Rightarrow> bytes \<Rightarrow> bytes \<Rightarrow> bytes
    \<Rightarrow> bytes \<times> bytes \<times> bytes \<times> bytes" where
  "ik_initiation sd ck0 h0 epub spub_i spub_r es ss ts =
    (let h = mix_hash (mix_hash h0 spub_r) epub;
         c = mix_key ck0 epub;
         (c, k) = wg_kdf2 c es;
         static_enc = s_aead_encrypt sd k zero_nonce spub_i h;
         h = mix_hash h static_enc;
         (c, k) = wg_kdf2 c ss;
         timestamp_enc = s_aead_encrypt sd k zero_nonce ts h
     in (c, mix_hash h timestamp_enc, static_enc, timestamp_enc))"

definition ik_response :: "sodium \<Rightarrow> bytes \<Rightarrow> bytes \<Rightarrow> bytes \<Rightarrow> bytes \<Rightarrow> bytes \<Rightarrow> bytes \<Rightarrow> bytes \<times> bytes \<times> bytes" where
  "ik_response sd ck h epub ee se psk =
    (let h = mix_hash h epub;
         c = mix_key (mix_key (mix_key ck epub) ee) se;
         (c, tau, k) = wg_kdf3 c psk;
         h = mix_hash h tau;
         empty_enc = s_aead_encrypt sd k zero_nonce [] h
     in (c, mix_hash h empty_enc, empty_enc))"

lemma hs_at_set_hs [simp]:
  "peer_mem dev p = Some q \<Longrightarrow> peer_mem (set_hs p hs dev) p = Some (q\<lparr>p_handshake := hs\<rparr>)"
  by (simp add: set_hs_def upd_hs_def upd_peer_def)

lemma dev_index_delete_fields [simp]:
  "peer_mem (dev_index_delete dev i) = peer_mem dev" "d_public_key (dev_index_delete dev i) = d_public_key dev"
  "e_rng (dev_index_delete dev i) = e_rng dev" "e_now (dev_index_delete dev i) = e_now dev"
  by (simp_all add: dev_index_delete_def)

lemma dev_index_new_spec:
  assumes "dev_index_new sd dev p = (idx, dev')"
  shows "\<exists>t r. dev' = dev\<lparr>d_index_table := t, e_rng := r\<rparr> \<and>
    (idx \<noteq> 0 \<longrightarrow> index_table_lookup (d_index_table dev) idx = None \<and>
      index_table_lookup t = (index_table_lookup (d_index_table dev))(idx \<mapsto>
        \<lparr>ie_type = IDX_HANDSHAKE, ie_index = idx, ie_peer = Some p, ie_handshake = Some p, ie_keypair = None\<rparr>)) \<and>
    (idx = 0 \<longrightarrow> t = d_index_table dev)"
proof -
  obtain t r where n: "index_table_new_for_handshake sd (d_index_table dev) (e_rng dev) p p = (idx, t, r)"
    "dev' = dev\<lparr>d_index_table := t, e_rng := r\<rparr>"
    using assms by (auto simp: dev_index_new_def split: prod.splits)
  then show ?thesis
    using hs_index.new_fresh [of sd "d_index_table dev" "e_rng dev" "(p, p)"]
      hs_index.new_lookup [of sd "d_index_table dev" "e_rng dev" "(p, p)"]
      hs_index.new_fail [of sd "d_index_table dev" "e_rng dev" "(p, p)"] by auto
qed

text \<open>The MACs do not touch the part of a message the handshake reads.\<close>

lemma initiation_prefix:
  assumes "take 116 b = take 116 (initiation_bytes m)" "length b = 148" "initiation_ok m"
  shows "\<exists>m1 m2. initiation_of b = m\<lparr>mi_mac1 := m1, mi_mac2 := m2\<rparr>"
proof -
  have "slice off n b = slice off n (initiation_bytes m)" if "off + n \<le> 116" for off n
  proof -
    have "slice off n x = slice off n (take 116 x)" for x :: bytes using that by (simp add: slice_def drop_take min_def)
    then show ?thesis using assms(1) by metis
  qed
  then have "initiation_of b = (initiation_of (initiation_bytes m))\<lparr>mi_mac1 := slice 116 16 b, mi_mac2 := slice 132 16 b\<rparr>"
    by (simp add: initiation_of_def)
  then show ?thesis using assms(3) by auto
qed

lemma response_prefix:
  assumes "take 60 b = take 60 (response_bytes m)" "length b = 92" "response_ok m"
  shows "\<exists>m1 m2. response_of b = m\<lparr>mr_mac1 := m1, mr_mac2 := m2\<rparr>"
proof -
  have "slice off n b = slice off n (response_bytes m)" if "off + n \<le> 60" for off n
  proof -
    have "slice off n x = slice off n (take 60 x)" for x :: bytes using that by (simp add: slice_def drop_take min_def)
    then show ?thesis using assms(1) by metis
  qed
  then have "response_of b = (response_of (response_bytes m))\<lparr>mr_mac1 := slice 60 16 b, mr_mac2 := slice 76 16 b\<rparr>"
    by (simp add: response_of_def)
  then show ?thesis using assms(3) by auto
qed

section \<open>What each function computes\<close>

text \<open>Buffers have their declared sizes: a peer's cookie keys, the device key and the
  caller's message struct.\<close>

definition cookie_ok :: "wg_cookie_gen \<Rightarrow> bool" where
  "cookie_ok cg \<longleftrightarrow> length (cg_mac1_key cg) = 32 \<and> length (cg_cookie cg) = 16"

lemma create_initiation_ok:
  assumes laws: "sodium_laws sd" and mem: "peer_mem dev p = Some q" and hs: "hs = p_handshake q"
    and sizes: "length (d_public_key dev) = 32" "cookie_ok (p_cookie q)" "initiation_ok msg0"
    and run: "noise_create_initiation sd dev p msg0 = (0, msg, dev')"
  shows "\<exists>priv epub es ts c h se te t r clk cg.
    priv = wg_clamp_private_key (map (e_rng dev) [0..<32]) \<and> epub = s_scalarmult_base sd priv \<and>
    wg_dh sd (zeros 32) priv (hs_remote_static hs) = (0, es) \<and>
    \<not> wg_ct_equal sd (hs_precomputed_static_static hs) (zeros 32) \<and>
    ts = tai64n_now (fst (e_clock dev 0)) (snd (e_clock dev 0)) \<and>
    (c, h, se, te) = ik_initiation sd (d_noise_init_chain_key dev) (d_noise_init_hash dev) epub (d_public_key dev)
       (hs_remote_static hs) es (hs_precomputed_static_static hs) (ts_bytes ts) \<and>
    mi_type msg = MSG_INITIATION \<and> mi_ephemeral msg = epub \<and> mi_static_enc msg = se \<and> mi_timestamp_enc msg = te \<and>
    mi_sender msg \<noteq> 0 \<and>
    index_table_lookup t (mi_sender msg) = Some \<lparr>ie_type = IDX_HANDSHAKE, ie_index = mi_sender msg, ie_peer = Some p,
       ie_handshake = Some p, ie_keypair = None\<rparr> \<and>
    dev' = dev\<lparr>d_index_table := t, e_rng := r, e_clock := clk, peer_mem := (peer_mem dev)(p \<mapsto>
       q\<lparr>p_handshake := hs\<lparr>hs_local_ephemeral_priv := priv, hs_local_ephemeral_pub := epub, hs_hash := h, hs_chain_key := c,
         hs_local_index := mi_sender msg, hs_state := HS_INITIATION_CREATED\<rparr>, p_cookie := cg\<rparr>)\<rparr>"
proof -
  note z = sodium_lawsD [OF laws] wg_generate_private_key_laws [OF laws] wg_generate_public_key_laws [OF laws]
  define priv where "priv = wg_clamp_private_key (map (e_rng dev) [0..<32])"
  define epub where "epub = s_scalarmult_base sd priv"
  define h1 where "h1 = mix_hash (mix_hash (d_noise_init_hash dev) (hs_remote_static hs)) epub"
  obtain d es where dh: "wg_dh sd (zeros 32) priv (hs_remote_static hs) = (d, es)" by fastforce
  obtain c2 k1 where k1: "wg_kdf2 (mix_key (d_noise_init_chain_key dev) epub) es = (c2, k1)" by fastforce
  define se where "se = s_aead_encrypt sd k1 zero_nonce (d_public_key dev) h1"
  obtain c3 k2 where k2: "wg_kdf2 c2 (hs_precomputed_static_static hs) = (c3, k2)" by fastforce
  obtain sec nsec where clk: "e_clock dev 0 = (sec, nsec)" by fastforce
  define te where "te = s_aead_encrypt sd k2 zero_nonce (ts_bytes (tai64n_now sec nsec)) (mix_hash h1 se)"
  define dev1 where "dev1 = dev_index_delete (dev\<lparr>e_rng := \<lambda>i. e_rng dev (i + 32), e_clock := \<lambda>i. e_clock dev (Suc i)\<rparr>) (hs_local_index hs)"
  obtain idx dev2 where new: "dev_index_new sd dev1 p = (idx, dev2)" by fastforce
  obtain t r where dev2: "dev2 = dev1\<lparr>d_index_table := t, e_rng := r\<rparr>" and idx: "idx \<noteq> 0 \<longrightarrow> index_table_lookup t idx =
      Some \<lparr>ie_type = IDX_HANDSHAKE, ie_index = idx, ie_peer = Some p, ie_handshake = Some p, ie_keypair = None\<rparr>"
    using dev_index_new_spec [OF new] by (metis fun_upd_same)
  define hs' where "hs' = hs\<lparr>hs_local_ephemeral_priv := priv, hs_local_ephemeral_pub := epub,
    hs_chain_key := c3, hs_local_index := idx, hs_hash := mix_hash (mix_hash h1 se) te, hs_state := HS_INITIATION_CREATED\<rparr>"
  define m where "m = msg0\<lparr>mi_type := MSG_INITIATION, mi_ephemeral := epub, mi_static_enc := se, mi_timestamp_enc := te, mi_sender := idx\<rparr>"
  have pa: "peer_at dev p = q" using mem by (simp add: peer_at_def)
  have mem2: "peer_mem dev2 p = Some q" using mem by (simp add: dev2 dev1_def)
  have pa2: "peer_at (set_hs p X dev2) p = q\<lparr>p_handshake := X\<rparr>" for X
    using hs_at_set_hs [OF mem2] by (simp add: peer_at_def)
  have now: "e_now (set_hs p X dev2) = e_now dev" for X by (simp add: set_hs_def upd_hs_def upd_peer_def dev2 dev1_def)
  have "\<exists>cg b. cookie_add_macs (p_cookie q) (initiation_bytes m) INITIATION_MAC1 INITIATION_MAC2 (e_now dev) = (cg, b) \<and>
     \<not> d < 0 \<and> \<not> wg_ct_equal sd (hs_precomputed_static_static hs) (zeros 32) \<and> idx \<noteq> 0 \<and>
     msg = initiation_of b \<and> dev' = upd_peer p (\<lambda>q. q\<lparr>p_cookie := cg\<rparr>) (set_hs p hs' dev2)"
    using run unfolding noise_create_initiation_def Let_def
    by (simp add: z pa hs [symmetric] dh k1 k2 clk clock_gettime_def priv_def [symmetric] epub_def [symmetric]
      h1_def [symmetric] se_def [symmetric] te_def [symmetric] dev1_def [symmetric] new
      pa2 now hs'_def m_def split: if_splits prod.splits)
  then obtain cg b where macs: "cookie_add_macs (p_cookie q) (initiation_bytes m) INITIATION_MAC1 INITIATION_MAC2 (e_now dev) = (cg, b)"
    and cond: "\<not> d < 0" "\<not> wg_ct_equal sd (hs_precomputed_static_static hs) (zeros 32)" "idx \<noteq> 0"
    and res: "msg = initiation_of b" "dev' = upd_peer p (\<lambda>q. q\<lparr>p_cookie := cg\<rparr>) (set_hs p hs' dev2)"
    by blast
  have "d = 0" using wg_dh_ret [OF laws, of "zeros 32" priv "hs_remote_static hs"] cond(1) dh by simp
  have "length priv = 32" by (simp add: priv_def)
  then have "length epub = 32" using z(4) [of priv] by (simp add: epub_def z)
  moreover have "length se = 48" "length te = 28" using sizes(1) by (simp_all add: se_def te_def z tai64n_now_def TAI64N_SIZE_def)
  ultimately have mok: "initiation_ok m" using sizes(3) by (simp add: m_def initiation_ok_def)
  have len: "length (initiation_bytes m) = 148" using length_messages(1) [OF mok] by (simp add: MSG_INITIATION_SIZE_def)
  note a = add_macs_spec [OF _ _ _ _ macs]
  have "take 116 b = take 116 (initiation_bytes m)" "length b = 148"
    using a(1,2) sizes(2) len by (simp_all add: mac_offsets cookie_ok_def)
  then obtain m1 m2 where msg: "msg = m\<lparr>mi_mac1 := m1, mi_mac2 := m2\<rparr>" using initiation_prefix [OF _ _ mok] res(1) by metis
  have ik: "(c3, mix_hash (mix_hash h1 se) te, se, te) = ik_initiation sd (d_noise_init_chain_key dev) (d_noise_init_hash dev) epub
      (d_public_key dev) (hs_remote_static hs) es (hs_precomputed_static_static hs) (ts_bytes (tai64n_now sec nsec))"
    by (simp add: ik_initiation_def k1 k2 h1_def [symmetric] se_def [symmetric] te_def [symmetric])
  have dev': "dev' = dev\<lparr>d_index_table := t, e_rng := r, e_clock := \<lambda>i. e_clock dev (Suc i), peer_mem := (peer_mem dev)(p \<mapsto>
      q\<lparr>p_handshake := hs', p_cookie := cg\<rparr>)\<rparr>"
    unfolding res(2) upd_peer_def using mem
    by (simp add: set_hs_def upd_hs_def upd_peer_def dev2 dev1_def dev_index_delete_def)
  have f: "mi_type msg = MSG_INITIATION" "mi_ephemeral msg = epub" "mi_static_enc msg = se" "mi_timestamp_enc msg = te"
    "mi_sender msg = idx" by (simp_all add: msg m_def)
  have hs': "hs' = hs\<lparr>hs_local_ephemeral_priv := priv, hs_local_ephemeral_pub := epub, hs_hash := mix_hash (mix_hash h1 se) te,
      hs_chain_key := c3, hs_local_index := mi_sender msg, hs_state := HS_INITIATION_CREATED\<rparr>" by (simp add: hs'_def f)
  have ts: "tai64n_now sec nsec = tai64n_now (fst (e_clock dev 0)) (snd (e_clock dev 0))" by (simp add: clk)
  have dh0: "wg_dh sd (zeros 32) priv (hs_remote_static hs) = (0, es)" using dh \<open>d = 0\<close> by simp
  have lk: "mi_sender msg \<noteq> 0" "index_table_lookup t (mi_sender msg) = Some \<lparr>ie_type = IDX_HANDSHAKE,
      ie_index = mi_sender msg, ie_peer = Some p, ie_handshake = Some p, ie_keypair = None\<rparr>"
    using cond(3) idx by (simp_all add: f(5))
  show ?thesis
    by (rule exI [of _ priv], rule exI [of _ epub], rule exI [of _ es], rule exI [of _ "tai64n_now sec nsec"], rule exI [of _ c3],
      rule exI [of _ "mix_hash (mix_hash h1 se) te"], rule exI [of _ se], rule exI [of _ te], rule exI [of _ t], rule exI [of _ r],
      rule exI [of _ "\<lambda>i. e_clock dev (Suc i)"], rule exI [of _ cg])
      (intro conjI; fact priv_def epub_def dh0 cond ts ik f lk dev' [unfolded hs'])
qed

lemma consume_initiation_ok:
  assumes laws: "sodium_laws sd"
    and msg: "mi_type msg = MSG_INITIATION" "mi_ephemeral msg = epub" "mi_static_enc msg = se" "mi_timestamp_enc msg = te"
    and ik: "(c, h, se, te) = ik_initiation sd (d_noise_init_chain_key dev) (d_noise_init_hash dev) epub spub
      (d_public_key dev) es (hs_precomputed_static_static hs) ts"
    and dh: "wg_dh sd (zeros 32) (d_private_key dev) epub = (0, es)"
    and peer: "find_peer_by_key sd dev spub = Some p" "peer_mem dev p = Some q" "hs = p_handshake q"
    and nz: "\<not> wg_ct_equal sd (hs_precomputed_static_static hs) (zeros 32)"
    and fresh: "tai64n_after (Tai64n ts) (hs_last_timestamp hs)"
      "\<not> e_now dev - hs_last_initiation_consumption_ms hs \<le> HANDSHAKE_INIT_RATE_MS"
  shows "\<exists>lc. noise_consume_initiation sd dev msg = (Some p, dev\<lparr>peer_mem := (peer_mem dev)(p \<mapsto>
    q\<lparr>p_handshake := hs\<lparr>hs_hash := h, hs_chain_key := c, hs_remote_ephemeral := epub, hs_remote_index := mi_sender msg,
      hs_last_timestamp := Tai64n ts, hs_last_initiation_consumption_ms := lc, hs_state := HS_INITIATION_CONSUMED\<rparr>\<rparr>)\<rparr>)"
proof -
  note z = sodium_lawsD [OF laws]
  define h1 where "h1 = mix_hash (mix_hash (d_noise_init_hash dev) (d_public_key dev)) epub"
  obtain c2 k1 where k1: "wg_kdf2 (mix_key (d_noise_init_chain_key dev) epub) es = (c2, k1)" by fastforce
  obtain c3 k2 where k2: "wg_kdf2 c2 (hs_precomputed_static_static hs) = (c3, k2)" by fastforce
  from ik have ik': "se = s_aead_encrypt sd k1 zero_nonce spub h1" "te = s_aead_encrypt sd k2 zero_nonce ts (mix_hash h1 se)"
    "c = c3" "h = mix_hash (mix_hash h1 se) te"
    by (simp_all add: ik_initiation_def k1 k2 h1_def [symmetric] Let_def)
  have dec: "wg_chacha20poly1305_decrypt sd k1 zero_nonce se h1 = Some spub"
    "wg_chacha20poly1305_decrypt sd k2 zero_nonce te (mix_hash h1 se) = Some ts"
    using z(7) unfolding ik' by simp_all
  have pa: "peer_at dev p = q" using peer(2) by (simp add: peer_at_def)
  define lc where "lc = (if e_now dev > hs_last_initiation_consumption_ms hs then e_now dev else hs_last_initiation_consumption_ms hs)"
  have "noise_consume_initiation sd dev msg = (Some p, dev\<lparr>peer_mem := (peer_mem dev)(p \<mapsto>
    q\<lparr>p_handshake := hs\<lparr>hs_hash := h, hs_chain_key := c, hs_remote_ephemeral := epub, hs_remote_index := mi_sender msg,
      hs_last_timestamp := Tai64n ts, hs_last_initiation_consumption_ms := lc, hs_state := HS_INITIATION_CONSUMED\<rparr>\<rparr>)\<rparr>)"
    unfolding noise_consume_initiation_def Let_def
    using fresh nz by (simp add: msg dh k1 h1_def [symmetric] dec peer(1) pa peer(3) [symmetric] k2 ik'(3,4)
      set_hs_def upd_hs_def upd_peer_def peer(2) lc_def)
  then show ?thesis by blast
qed

lemma create_response_ok:
  assumes laws: "sodium_laws sd" and mem: "peer_mem dev p = Some q" and hs: "hs = p_handshake q"
    and sizes: "cookie_ok (p_cookie q)" "response_ok msg0"
    and run: "noise_create_response sd dev p msg0 = (0, msg, dev')"
  shows "\<exists>priv r0 epub ee se c h em t r cg.
    priv = wg_clamp_private_key (map r0 [0..<32]) \<and> epub = s_scalarmult_base sd priv \<and>
    wg_dh sd (zeros 32) priv (hs_remote_ephemeral hs) = (0, ee) \<and> wg_dh sd (zeros 32) priv (hs_remote_static hs) = (0, se) \<and>
    (c, h, em) = ik_response sd (hs_chain_key hs) (hs_hash hs) epub ee se (hs_psk hs) \<and>
    hs_state hs = HS_INITIATION_CONSUMED \<and>
    mr_type msg = MSG_RESPONSE \<and> mr_ephemeral msg = epub \<and> mr_empty_enc msg = em \<and> mr_receiver msg = hs_remote_index hs \<and>
    mr_sender msg \<noteq> 0 \<and>
    index_table_lookup t (mr_sender msg) = Some \<lparr>ie_type = IDX_HANDSHAKE, ie_index = mr_sender msg, ie_peer = Some p,
       ie_handshake = Some p, ie_keypair = None\<rparr> \<and>
    dev' = dev\<lparr>d_index_table := t, e_rng := r, peer_mem := (peer_mem dev)(p \<mapsto>
       q\<lparr>p_handshake := hs\<lparr>hs_local_ephemeral_priv := priv, hs_local_ephemeral_pub := epub, hs_hash := h, hs_chain_key := c,
         hs_local_index := mr_sender msg, hs_state := HS_RESPONSE_CREATED\<rparr>, p_cookie := cg\<rparr>)\<rparr>"
proof -
  note z = sodium_lawsD [OF laws] wg_generate_private_key_laws [OF laws] wg_generate_public_key_laws [OF laws]
  define dev1 where "dev1 = dev_index_delete dev (hs_local_index hs)"
  obtain idx dev2 where new: "dev_index_new sd dev1 p = (idx, dev2)" by fastforce
  obtain t r where dev2: "dev2 = dev1\<lparr>d_index_table := t, e_rng := r\<rparr>" and idx: "idx \<noteq> 0 \<longrightarrow> index_table_lookup t idx =
      Some \<lparr>ie_type = IDX_HANDSHAKE, ie_index = idx, ie_peer = Some p, ie_handshake = Some p, ie_keypair = None\<rparr>"
    using dev_index_new_spec [OF new] by (metis fun_upd_same)
  define priv where "priv = wg_clamp_private_key (map r [0..<32])"
  define epub where "epub = s_scalarmult_base sd priv"
  obtain d ee where ee: "wg_dh sd (zeros 32) priv (hs_remote_ephemeral hs) = (d, ee)" by fastforce
  obtain d' se where se: "wg_dh sd (zeros (length ee)) priv (hs_remote_static hs) = (d', se)" by fastforce
  obtain c tau k where kdf: "wg_kdf3 (mix_key (mix_key (mix_key (hs_chain_key hs) epub) ee) se) (hs_psk hs) = (c, tau, k)"
    by (metis prod_cases3)
  define h1 where "h1 = mix_hash (mix_hash (hs_hash hs) epub) tau"
  define em where "em = s_aead_encrypt sd k zero_nonce [] h1"
  define dev3 where "dev3 = dev1\<lparr>d_index_table := t, e_rng := \<lambda>i. r (i + 32)\<rparr>"
  define hs' where "hs' = hs\<lparr>hs_local_index := idx, hs_local_ephemeral_priv := priv, hs_local_ephemeral_pub := epub,
    hs_chain_key := c, hs_hash := mix_hash h1 em, hs_state := HS_RESPONSE_CREATED\<rparr>"
  define m where "m = msg0\<lparr>mr_type := MSG_RESPONSE, mr_sender := idx, mr_receiver := hs_remote_index hs,
    mr_ephemeral := epub, mr_empty_enc := em\<rparr>"
  have pa: "peer_at dev p = q" using mem by (simp add: peer_at_def)
  have mem3: "peer_mem dev3 p = Some q" using mem by (simp add: dev3_def dev1_def)
  have pa3: "peer_at (set_hs p X dev3) p = q\<lparr>p_handshake := X\<rparr>" for X
    using hs_at_set_hs [OF mem3] by (simp add: peer_at_def)
  have now: "e_now (set_hs p X dev3) = e_now dev" for X by (simp add: set_hs_def upd_hs_def upd_peer_def dev3_def dev1_def)
  have "\<exists>cg b. cookie_add_macs (p_cookie q) (response_bytes m) RESPONSE_MAC1 RESPONSE_MAC2 (e_now dev) = (cg, b) \<and>
     hs_state hs = HS_INITIATION_CONSUMED \<and> \<not> d < 0 \<and> \<not> d' < 0 \<and> idx \<noteq> 0 \<and>
     msg = response_of b \<and> dev' = upd_peer p (\<lambda>q. q\<lparr>p_cookie := cg\<rparr>) (set_hs p hs' dev3)"
    using run unfolding noise_create_response_def Let_def
    by (simp add: z pa hs [symmetric] dev1_def [symmetric] new dev2 priv_def [symmetric] epub_def [symmetric] ee se kdf
      h1_def [symmetric] em_def [symmetric] dev3_def [symmetric] pa3 now hs'_def m_def split: if_splits prod.splits)
  then obtain cg b where macs: "cookie_add_macs (p_cookie q) (response_bytes m) RESPONSE_MAC1 RESPONSE_MAC2 (e_now dev) = (cg, b)"
    and cond: "hs_state hs = HS_INITIATION_CONSUMED" "\<not> d < 0" "\<not> d' < 0" "idx \<noteq> 0"
    and res: "msg = response_of b" "dev' = upd_peer p (\<lambda>q. q\<lparr>p_cookie := cg\<rparr>) (set_hs p hs' dev3)"
    by blast
  have d: "d = 0" "d' = 0"
    using wg_dh_ret [OF laws, of "zeros 32" priv "hs_remote_ephemeral hs"]
      wg_dh_ret [OF laws, of "zeros (length ee)" priv "hs_remote_static hs"] cond ee se by simp_all
  then have lee: "length ee = 32" using wg_dh_length [OF laws] ee by blast
  have "length priv = 32" by (simp add: priv_def)
  then have "length epub = 32" using z(4) [of priv] by (simp add: epub_def z)
  moreover have "length em = 16" by (simp add: em_def z)
  ultimately have mok: "response_ok m" using sizes(2) by (simp add: m_def response_ok_def)
  have len: "length (response_bytes m) = 92" using length_messages(2) [OF mok] by (simp add: MSG_RESPONSE_SIZE_def)
  note a = add_macs_spec [OF _ _ _ _ macs]
  have "take 60 b = take 60 (response_bytes m)" "length b = 92"
    using a(1,2) sizes(1) len by (simp_all add: mac_offsets cookie_ok_def)
  then obtain m1 m2 where msg: "msg = m\<lparr>mr_mac1 := m1, mr_mac2 := m2\<rparr>" using response_prefix [OF _ _ mok] res(1) by metis
  have ik: "(c, mix_hash h1 em, em) = ik_response sd (hs_chain_key hs) (hs_hash hs) epub ee se (hs_psk hs)"
    by (simp add: ik_response_def kdf h1_def [symmetric] em_def [symmetric])
  have dev': "dev' = dev\<lparr>d_index_table := t, e_rng := \<lambda>i. r (i + 32), peer_mem := (peer_mem dev)(p \<mapsto>
      q\<lparr>p_handshake := hs', p_cookie := cg\<rparr>)\<rparr>"
    unfolding res(2) upd_peer_def using mem
    by (simp add: set_hs_def upd_hs_def upd_peer_def dev3_def dev1_def dev_index_delete_def)
  have f: "mr_type msg = MSG_RESPONSE" "mr_ephemeral msg = epub" "mr_empty_enc msg = em" "mr_receiver msg = hs_remote_index hs"
    "mr_sender msg = idx" by (simp_all add: msg m_def)
  have hs': "hs' = hs\<lparr>hs_local_ephemeral_priv := priv, hs_local_ephemeral_pub := epub, hs_hash := mix_hash h1 em,
      hs_chain_key := c, hs_local_index := mr_sender msg, hs_state := HS_RESPONSE_CREATED\<rparr>" by (simp add: hs'_def f)
  have dh0: "wg_dh sd (zeros 32) priv (hs_remote_ephemeral hs) = (0, ee)" "wg_dh sd (zeros 32) priv (hs_remote_static hs) = (0, se)"
    using ee se d lee by simp_all
  have lk: "mr_sender msg \<noteq> 0" "index_table_lookup t (mr_sender msg) = Some \<lparr>ie_type = IDX_HANDSHAKE,
      ie_index = mr_sender msg, ie_peer = Some p, ie_handshake = Some p, ie_keypair = None\<rparr>"
    using cond(4) idx by (simp_all add: f(5))
  show ?thesis
    by (rule exI [of _ priv], rule exI [of _ r], rule exI [of _ epub], rule exI [of _ ee], rule exI [of _ se], rule exI [of _ c],
      rule exI [of _ "mix_hash h1 em"], rule exI [of _ em], rule exI [of _ t], rule exI [of _ "\<lambda>i. r (i + 32)"], rule exI [of _ cg])
      (intro conjI; fact priv_def epub_def dh0 cond ik f lk dev' [unfolded hs'])
qed

lemma consume_response_ok:
  assumes laws: "sodium_laws sd"
    and msg: "mr_type msg = MSG_RESPONSE" "mr_ephemeral msg = epub" "mr_empty_enc msg = em"
    and entry: "index_table_lookup (d_index_table dev) (mr_receiver msg) = Some \<lparr>ie_type = IDX_HANDSHAKE,
      ie_index = mr_receiver msg, ie_peer = Some p, ie_handshake = Some p, ie_keypair = None\<rparr>"
    and peer: "peer_mem dev p = Some q" "hs = p_handshake q" "hs_state hs = HS_INITIATION_CREATED"
    and dh: "wg_dh sd (zeros 32) (hs_local_ephemeral_priv hs) epub = (0, ee)" "wg_dh sd (zeros 32) (d_private_key dev) epub = (0, se)"
    and ik: "(c, h, em) = ik_response sd (hs_chain_key hs) (hs_hash hs) epub ee se (hs_psk hs)"
  shows "noise_consume_response sd dev msg = (Some p, dev\<lparr>peer_mem := (peer_mem dev)(p \<mapsto>
    q\<lparr>p_handshake := hs\<lparr>hs_hash := h, hs_chain_key := c, hs_remote_index := mr_sender msg, hs_state := HS_RESPONSE_CONSUMED\<rparr>\<rparr>)\<rparr>)"
proof -
  note z = sodium_lawsD [OF laws]
  have l: "length ee = 32" using wg_dh_length [OF laws] dh(1) by blast
  obtain c' tau k where kdf: "wg_kdf3 (mix_key (mix_key (mix_key (hs_chain_key hs) epub) ee) se) (hs_psk hs) = (c', tau, k)"
    by (metis prod_cases3)
  define h1 where "h1 = mix_hash (mix_hash (hs_hash hs) epub) tau"
  from ik have ik': "em = s_aead_encrypt sd k zero_nonce [] h1" "c = c'" "h = mix_hash h1 em"
    by (simp_all add: ik_response_def kdf h1_def Let_def)
  have dec: "wg_chacha20poly1305_decrypt sd k zero_nonce em h1 = Some []" using z(7) unfolding ik' by simp
  have pa: "peer_at dev p = q" using peer(1) by (simp add: peer_at_def)
  show ?thesis
    unfolding noise_consume_response_def Let_def
    by (simp add: msg entry pa peer(2) [symmetric] peer(3) dh z(3) l kdf h1_def [symmetric] dec ik'(2,3)
      set_hs_def upd_hs_def upd_peer_def peer(1))
qed

section \<open>Session derivation\<close>

text \<open>The keypair pointers of a peer were obtained from earlier allocations.\<close>

definition kps_below :: "wg_device \<Rightarrow> wg_peer \<Rightarrow> bool" where
  "kps_below dev q \<longleftrightarrow> (\<forall>k \<in> set_option (p_current_keypair q) \<union> set_option (p_next_keypair q) \<union> set_option (p_prev_keypair q).
     k < e_brk dev)"

lemma retire_keypair_kp: "old \<noteq> Some k \<Longrightarrow> kp_mem (retire_keypair dev old) k = kp_mem dev k"
  by (auto simp: retire_keypair_def kp_release_def dev_index_delete_def split: option.split)

lemma retire_keypair_peer [simp]: "peer_mem (retire_keypair dev old) = peer_mem dev"
  by (auto simp: retire_keypair_def kp_release_def dev_index_delete_def split: option.split)

lemma upd_peer_kp [simp]: "kp_mem (upd_peer p f dev) = kp_mem dev"
  by (simp add: upd_peer_def)

lemma upd_peer_mem: "peer_mem (upd_peer p f dev) = (peer_mem dev)(p := map_option f (peer_mem dev p))"
  by (simp add: upd_peer_def)

lemma rotate_keypairs_new:
  assumes "peer_mem dev p = Some q" "p_current_keypair q \<noteq> Some k" "p_next_keypair q \<noteq> Some k" "p_prev_keypair q \<noteq> Some k"
  shows "kp_mem (rotate_keypairs dev p k init) k = kp_mem dev k \<and>
    (\<exists>q'. peer_mem (rotate_keypairs dev p k init) p = Some q' \<and>
      (if init then p_current_keypair q' = Some k else p_next_keypair q' = Some k))"
  using assms by (auto simp: rotate_keypairs_def Let_def peer_at_def retire_keypair_kp upd_peer_mem)

lemma begin_session_ok:
  assumes mem: "peer_mem dev p = Some q" "hs = p_handshake q" and low: "kps_below dev q"
    and run: "noise_begin_session sd dev p = (0, dev')"
    and kdf: "wg_kdf2 (hs_chain_key hs) [] = (t1, t2)"
  shows "\<exists>k q' kp. peer_mem dev' p = Some q' \<and> kp_mem dev' k = Some kp \<and> kp_send_nonce kp = 0 \<and>
    kp_local_index kp = hs_local_index hs \<and> kp_remote_index kp = hs_remote_index hs \<and>
    (if hs_state hs = HS_RESPONSE_CONSUMED
     then p_current_keypair q' = Some k \<and> kp_send_key kp = t1 \<and> kp_recv_key kp = t2 \<and> kp_is_initiator kp
     else p_next_keypair q' = Some k \<and> kp_send_key kp = t2 \<and> kp_recv_key kp = t1 \<and> \<not> kp_is_initiator kp)"
proof -
  have pa: "peer_at dev p = q" using mem(1) by (simp add: peer_at_def)
  have k: "p_current_keypair q \<noteq> Some (e_brk dev)" "p_next_keypair q \<noteq> Some (e_brk dev)" "p_prev_keypair q \<noteq> Some (e_brk dev)"
    using low by (auto simp: kps_below_def)
  obtain found t where sw: "index_table_swap_keypair (d_index_table dev) (hs_local_index hs) (e_brk dev) = (found, t)" by fastforce
  obtain sec nsec where clk: "e_clock dev 0 = (sec, nsec)" by fastforce
  define init where "init \<longleftrightarrow> hs_state hs = HS_RESPONSE_CONSUMED"
  define kp where "kp = (if init
    then keypair_zero\<lparr>kp_send_nonce := 0, kp_created_at_ms := e_now dev, kp_replay := replay_reset, kp_send_key := t1, kp_recv_key := t2,
      kp_is_initiator := True, kp_local_index := hs_local_index hs, kp_remote_index := hs_remote_index hs\<rparr>
    else keypair_zero\<lparr>kp_send_nonce := 0, kp_created_at_ms := e_now dev, kp_replay := replay_reset, kp_recv_key := t1, kp_send_key := t2,
      kp_is_initiator := False, kp_local_index := hs_local_index hs, kp_remote_index := hs_remote_index hs\<rparr>)"
  have "\<exists>D q1. dev' = rotate_keypairs D p (e_brk dev) init \<and> peer_mem D p = Some q1 \<and> kp_mem D (e_brk dev) = Some kp \<and>
      p_current_keypair q1 = p_current_keypair q \<and> p_next_keypair q1 = p_next_keypair q \<and> p_prev_keypair q1 = p_prev_keypair q"
    using run unfolding noise_begin_session_def Let_def
    by (auto simp: pa mem(1) mem(2) [symmetric] calloc_def clock_gettime_def kdf sw clk set_hs_def upd_hs_def upd_peer_def kp_def init_def
      split: if_splits)
  then obtain D q1 where D: "dev' = rotate_keypairs D p (e_brk dev) init" "peer_mem D p = Some q1" "kp_mem D (e_brk dev) = Some kp"
    "p_current_keypair q1 = p_current_keypair q" "p_next_keypair q1 = p_next_keypair q" "p_prev_keypair q1 = p_prev_keypair q" by blast
  from rotate_keypairs_new [of D p q1 "e_brk dev" init] D k obtain q' where
    q': "kp_mem dev' (e_brk dev) = Some kp" "peer_mem dev' p = Some q'"
      "if init then p_current_keypair q' = Some (e_brk dev) else p_next_keypair q' = Some (e_brk dev)" by auto
  show ?thesis
    using q' by (intro exI [of _ "e_brk dev"] exI [of _ q'] exI [of _ kp]) (auto simp: kp_def init_def)
qed

section \<open>Agreement\<close>

text \<open>A device whose key pair is consistent and a peer entry for the holder of \<open>pub\<close>.\<close>

definition identity_ok :: "sodium \<Rightarrow> wg_device \<Rightarrow> bool" where
  "identity_ok sd dev \<longleftrightarrow> length (d_private_key dev) = 32 \<and> d_public_key dev = s_scalarmult_base sd (d_private_key dev)"

definition knows_peer :: "sodium \<Rightarrow> wg_device \<Rightarrow> peer_ref \<Rightarrow> wg_peer \<Rightarrow> bytes \<Rightarrow> bool" where
  "knows_peer sd dev p q pub \<longleftrightarrow> peer_mem dev p = Some q \<and> hs_remote_static (p_handshake q) = pub \<and>
     wg_dh sd (zeros 32) (d_private_key dev) pub = (0, hs_precomputed_static_static (p_handshake q)) \<and>
     cookie_ok (p_cookie q) \<and> kps_below dev q"

lemma identity_facts:
  assumes "sodium_laws sd" "identity_ok sd dev"
  shows "length (d_private_key dev) = 32" "d_public_key dev = s_scalarmult_base sd (d_private_key dev)"
    "length (d_public_key dev) = 32"
  using assms(2) sodium_lawsD(4) [OF assms(1), of "d_private_key dev"]
  by (simp_all add: identity_ok_def wg_generate_public_key_laws [OF assms(1)])

lemma dh_comm:
  assumes "sodium_laws sd" "wg_dh sd o1 x (s_scalarmult_base sd y) = (0, s)" "length x = 32" "length y = 32"
  shows "wg_dh sd o2 y (s_scalarmult_base sd x) = (0, s)"
  using wg_dh_commutes [OF assms(1,3,4), of o1 _ s o2] assms(2) by (simp add: wg_generate_public_key_laws [OF assms(1)])

text \<open>First half: the responder accepts the initiation and ends with the initiator's transcript.\<close>

lemma initiation_accepted:
  assumes laws: "sodium_laws sd"
    and ids: "identity_ok sd A" "identity_ok sd B"
    and A: "knows_peer sd A pB qB (d_public_key B)" and B: "knows_peer sd B pA qA (d_public_key A)"
    and init: "d_noise_init_hash A = d_noise_init_hash B" "d_noise_init_chain_key A = d_noise_init_chain_key B"
    and found: "find_peer_by_key sd B (d_public_key A) = Some pA"
    and fresh: "tai64n_after (tai64n_now (fst (e_clock A 0)) (snd (e_clock A 0))) (hs_last_timestamp (p_handshake qA))"
      "\<not> e_now B - hs_last_initiation_consumption_ms (p_handshake qA) \<le> HANDSHAKE_INIT_RATE_MS"
    and bufs: "initiation_ok mi0"
    and step: "noise_create_initiation sd A pB mi0 = (0, mi, A1)"
  shows "\<exists>e1 c h t r clk cg ts lc. length e1 = 32 \<and>
    index_table_lookup t (mi_sender mi) = Some \<lparr>ie_type = IDX_HANDSHAKE, ie_index = mi_sender mi, ie_peer = Some pB,
       ie_handshake = Some pB, ie_keypair = None\<rparr> \<and>
    A1 = A\<lparr>d_index_table := t, e_rng := r, e_clock := clk, peer_mem := (peer_mem A)(pB \<mapsto>
       qB\<lparr>p_handshake := (p_handshake qB)\<lparr>hs_local_ephemeral_priv := e1, hs_local_ephemeral_pub := s_scalarmult_base sd e1,
         hs_hash := h, hs_chain_key := c, hs_local_index := mi_sender mi, hs_state := HS_INITIATION_CREATED\<rparr>, p_cookie := cg\<rparr>)\<rparr> \<and>
    noise_consume_initiation sd B mi = (Some pA, B\<lparr>peer_mem := (peer_mem B)(pA \<mapsto>
       qA\<lparr>p_handshake := (p_handshake qA)\<lparr>hs_hash := h, hs_chain_key := c, hs_remote_ephemeral := s_scalarmult_base sd e1,
         hs_remote_index := mi_sender mi, hs_last_timestamp := ts,
         hs_last_initiation_consumption_ms := lc, hs_state := HS_INITIATION_CONSUMED\<rparr>\<rparr>)\<rparr>)"
proof -
  note pubA = identity_facts [OF laws ids(1)] and pubB = identity_facts [OF laws ids(2)]
  note a = A [unfolded knows_peer_def] and b = B [unfolded knows_peer_def]
  have pre: "hs_precomputed_static_static (p_handshake qA) = hs_precomputed_static_static (p_handshake qB)"
    using dh_comm [OF laws, of "zeros 32" "d_private_key A" "d_private_key B" _ "zeros 32"] a b pubA pubB by simp
  have memA: "peer_mem A pB = Some qB" "cookie_ok (p_cookie qB)" and memB: "peer_mem B pA = Some qA"
    using a b by simp_all
  from create_initiation_ok [OF laws memA(1) refl pubA(3) memA(2) bufs step]
  obtain e1 ep1 es ts c h se te t r clk cg where i: "e1 = wg_clamp_private_key (map (e_rng A) [0..<32])"
    "ep1 = s_scalarmult_base sd e1" "wg_dh sd (zeros 32) e1 (hs_remote_static (p_handshake qB)) = (0, es)"
    "\<not> wg_ct_equal sd (hs_precomputed_static_static (p_handshake qB)) (zeros 32)"
    "(c, h, se, te) = ik_initiation sd (d_noise_init_chain_key A) (d_noise_init_hash A) ep1 (d_public_key A)
       (hs_remote_static (p_handshake qB)) es (hs_precomputed_static_static (p_handshake qB)) (ts_bytes ts)"
    "mi_type mi = MSG_INITIATION" "mi_ephemeral mi = ep1" "mi_static_enc mi = se" "mi_timestamp_enc mi = te"
    "index_table_lookup t (mi_sender mi) = Some \<lparr>ie_type = IDX_HANDSHAKE, ie_index = mi_sender mi, ie_peer = Some pB,
       ie_handshake = Some pB, ie_keypair = None\<rparr>"
    "A1 = A\<lparr>d_index_table := t, e_rng := r, e_clock := clk, peer_mem := (peer_mem A)(pB \<mapsto>
       qB\<lparr>p_handshake := (p_handshake qB)\<lparr>hs_local_ephemeral_priv := e1, hs_local_ephemeral_pub := ep1, hs_hash := h,
         hs_chain_key := c, hs_local_index := mi_sender mi, hs_state := HS_INITIATION_CREATED\<rparr>, p_cookie := cg\<rparr>)\<rparr>"
    "ts = tai64n_now (fst (e_clock A 0)) (snd (e_clock A 0))"
    by blast
  have le1: "length e1 = 32" using i(1) by simp
  have es: "wg_dh sd (zeros 32) (d_private_key B) ep1 = (0, es)"
    using dh_comm [OF laws, of "zeros 32" e1 "d_private_key B" es "zeros 32"] i(2,3) a pubB le1 by simp
  have ik: "(c, h, se, te) = ik_initiation sd (d_noise_init_chain_key B) (d_noise_init_hash B) ep1 (d_public_key A)
       (d_public_key B) es (hs_precomputed_static_static (p_handshake qA)) (ts_bytes ts)"
    using i(5) a pre init by simp
  have nz: "\<not> wg_ct_equal sd (hs_precomputed_static_static (p_handshake qA)) (zeros 32)" using i(4) pre by simp
  have "tai64n_after (Tai64n (ts_bytes ts)) (hs_last_timestamp (p_handshake qA))" using fresh(1) i(12) by simp
  from consume_initiation_ok [OF laws i(6-9) ik es found memB refl nz this fresh(2)]
  show ?thesis using le1 i(10,11) unfolding i(2) by blast
qed

text \<open>Second half: the initiator accepts the response to its transcript.\<close>

lemma response_accepted:
  assumes laws: "sodium_laws sd" and id: "identity_ok sd A" and e1: "length e1 = 32"
    and memB: "peer_mem B1 pA = Some qA" "cookie_ok (p_cookie qA)" "hB = p_handshake qA"
    and memA: "peer_mem A1 pB = Some qB" "hA = p_handshake qB" "hs_state hA = HS_INITIATION_CREATED"
    and link: "hs_local_ephemeral_priv hA = e1" "hs_remote_ephemeral hB = s_scalarmult_base sd e1"
      "hs_remote_static hB = d_public_key A" "d_private_key A1 = d_private_key A"
      "hs_hash hA = hs_hash hB" "hs_chain_key hA = hs_chain_key hB" "hs_psk hA = hs_psk hB"
    and entry: "index_table_lookup (d_index_table A1) (hs_remote_index hB) = Some \<lparr>ie_type = IDX_HANDSHAKE,
      ie_index = hs_remote_index hB, ie_peer = Some pB, ie_handshake = Some pB, ie_keypair = None\<rparr>"
    and bufs: "response_ok mr0" and step: "noise_create_response sd B1 pA mr0 = (0, mr, B2)"
  shows "\<exists>c h e2 ep2 t r cg.
    B2 = B1\<lparr>d_index_table := t, e_rng := r, peer_mem := (peer_mem B1)(pA \<mapsto>
       qA\<lparr>p_handshake := hB\<lparr>hs_local_ephemeral_priv := e2, hs_local_ephemeral_pub := ep2, hs_hash := h, hs_chain_key := c,
         hs_local_index := mr_sender mr, hs_state := HS_RESPONSE_CREATED\<rparr>, p_cookie := cg\<rparr>)\<rparr> \<and>
    noise_consume_response sd A1 mr = (Some pB, A1\<lparr>peer_mem := (peer_mem A1)(pB \<mapsto>
       qB\<lparr>p_handshake := hA\<lparr>hs_hash := h, hs_chain_key := c, hs_remote_index := mr_sender mr, hs_state := HS_RESPONSE_CONSUMED\<rparr>\<rparr>)\<rparr>)"
proof -
  note pubA = identity_facts [OF laws id]
  from create_response_ok [OF laws memB(1) memB(3) memB(2) bufs step]
  obtain e2 r0 ep2 ee sse c h em t r cg where j: "e2 = wg_clamp_private_key (map r0 [0..<32])" "ep2 = s_scalarmult_base sd e2"
    "wg_dh sd (zeros 32) e2 (hs_remote_ephemeral hB) = (0, ee)" "wg_dh sd (zeros 32) e2 (hs_remote_static hB) = (0, sse)"
    "(c, h, em) = ik_response sd (hs_chain_key hB) (hs_hash hB) ep2 ee sse (hs_psk hB)"
    "mr_type mr = MSG_RESPONSE" "mr_ephemeral mr = ep2" "mr_empty_enc mr = em" "mr_receiver mr = hs_remote_index hB"
    "B2 = B1\<lparr>d_index_table := t, e_rng := r, peer_mem := (peer_mem B1)(pA \<mapsto>
       qA\<lparr>p_handshake := hB\<lparr>hs_local_ephemeral_priv := e2, hs_local_ephemeral_pub := ep2, hs_hash := h, hs_chain_key := c,
         hs_local_index := mr_sender mr, hs_state := HS_RESPONSE_CREATED\<rparr>, p_cookie := cg\<rparr>)\<rparr>"
    by blast
  have le2: "length e2 = 32" using j(1) by simp
  have dhA: "wg_dh sd (zeros 32) (hs_local_ephemeral_priv hA) ep2 = (0, ee)" "wg_dh sd (zeros 32) (d_private_key A1) ep2 = (0, sse)"
    using dh_comm [OF laws, of "zeros 32" e2 e1 ee "zeros 32"] dh_comm [OF laws, of "zeros 32" e2 "d_private_key A" sse "zeros 32"]
      j(2,3,4) link e1 le2 pubA by simp_all
  have entry': "index_table_lookup (d_index_table A1) (mr_receiver mr) = Some \<lparr>ie_type = IDX_HANDSHAKE,
      ie_index = mr_receiver mr, ie_peer = Some pB, ie_handshake = Some pB, ie_keypair = None\<rparr>"
    using entry by (simp add: j(9))
  have ikA: "(c, h, em) = ik_response sd (hs_chain_key hA) (hs_hash hA) ep2 ee sse (hs_psk hA)" using j(5) link by simp
  show ?thesis
    using consume_response_ok [OF laws j(6-8) entry' memA dhA ikA] j(10) by blast
qed

text \<open>\<^bold>\<open>C2\<close>. Two devices that know each other's static keys and share a pre-shared key complete
  the handshake: the responder accepts the initiator's message as coming from that peer,
  the initiator accepts the response, and the two session keypairs mirror each other -
  each side's sending key is the other's receiving key, each side's local index is the
  other's remote index - with both nonces at zero.\<close>

theorem handshake_agreement:
  assumes laws: "sodium_laws sd"
    and ids: "identity_ok sd A" "identity_ok sd B"
    and A: "knows_peer sd A pB qB (d_public_key B)" and B: "knows_peer sd B pA qA (d_public_key A)"
    and psk: "hs_psk (p_handshake qB) = hs_psk (p_handshake qA)"
    and init: "d_noise_init_hash A = d_noise_init_hash B" "d_noise_init_chain_key A = d_noise_init_chain_key B"
    and found: "find_peer_by_key sd B (d_public_key A) = Some pA"
    and fresh: "tai64n_after (tai64n_now (fst (e_clock A 0)) (snd (e_clock A 0))) (hs_last_timestamp (p_handshake qA))"
      "\<not> e_now B - hs_last_initiation_consumption_ms (p_handshake qA) \<le> HANDSHAKE_INIT_RATE_MS"
    and bufs: "initiation_ok mi0" "response_ok mr0"
    and steps: "noise_create_initiation sd A pB mi0 = (0, mi, A1)" "noise_consume_initiation sd B mi = (rB, B1)"
      "noise_create_response sd B1 pA mr0 = (0, mr, B2)" "noise_consume_response sd A1 mr = (rA, A2)"
      "noise_begin_session sd A2 pB = (0, A3)" "noise_begin_session sd B2 pA = (0, B3)"
  shows "rB = Some pA \<and> rA = Some pB \<and>
    (\<exists>qB' qA' ka kb KA KB. peer_mem A3 pB = Some qB' \<and> peer_mem B3 pA = Some qA' \<and>
      p_current_keypair qB' = Some ka \<and> p_next_keypair qA' = Some kb \<and> kp_mem A3 ka = Some KA \<and> kp_mem B3 kb = Some KB \<and>
      kp_send_key KA = kp_recv_key KB \<and> kp_recv_key KA = kp_send_key KB \<and>
      kp_local_index KA = kp_remote_index KB \<and> kp_remote_index KA = kp_local_index KB \<and>
      kp_is_initiator KA \<and> \<not> kp_is_initiator KB \<and> kp_send_nonce KA = 0 \<and> kp_send_nonce KB = 0)"
proof -
  from initiation_accepted [OF laws ids A B init found fresh bufs(1) steps(1)]
  obtain e1 c h t r clk cg ts lc where i: "length e1 = 32"
    "index_table_lookup t (mi_sender mi) = Some \<lparr>ie_type = IDX_HANDSHAKE, ie_index = mi_sender mi, ie_peer = Some pB,
       ie_handshake = Some pB, ie_keypair = None\<rparr>"
    "A1 = A\<lparr>d_index_table := t, e_rng := r, e_clock := clk, peer_mem := (peer_mem A)(pB \<mapsto>
       qB\<lparr>p_handshake := (p_handshake qB)\<lparr>hs_local_ephemeral_priv := e1, hs_local_ephemeral_pub := s_scalarmult_base sd e1,
         hs_hash := h, hs_chain_key := c, hs_local_index := mi_sender mi, hs_state := HS_INITIATION_CREATED\<rparr>, p_cookie := cg\<rparr>)\<rparr>"
    "noise_consume_initiation sd B mi = (Some pA, B\<lparr>peer_mem := (peer_mem B)(pA \<mapsto>
       qA\<lparr>p_handshake := (p_handshake qA)\<lparr>hs_hash := h, hs_chain_key := c, hs_remote_ephemeral := s_scalarmult_base sd e1,
         hs_remote_index := mi_sender mi, hs_last_timestamp := ts,
         hs_last_initiation_consumption_ms := lc, hs_state := HS_INITIATION_CONSUMED\<rparr>\<rparr>)\<rparr>)"
    by blast
  have rB: "rB = Some pA" using i(4) steps(2) by simp
  note a = A [unfolded knows_peer_def] and b = B [unfolded knows_peer_def]
  obtain qA1 where B1: "peer_mem B1 pA = Some qA1" "cookie_ok (p_cookie qA1)" "kps_below B1 qA1"
    "hs_remote_ephemeral (p_handshake qA1) = s_scalarmult_base sd e1" "hs_remote_static (p_handshake qA1) = d_public_key A"
    "hs_hash (p_handshake qA1) = h" "hs_chain_key (p_handshake qA1) = c" "hs_psk (p_handshake qA1) = hs_psk (p_handshake qA)"
    "hs_remote_index (p_handshake qA1) = mi_sender mi"
    using i(4) steps(2) b by (auto simp: kps_below_def)
  obtain qB1 where A1: "peer_mem A1 pB = Some qB1" "hs_state (p_handshake qB1) = HS_INITIATION_CREATED" "kps_below A1 qB1"
    "hs_local_ephemeral_priv (p_handshake qB1) = e1" "d_private_key A1 = d_private_key A" "d_index_table A1 = t"
    "hs_hash (p_handshake qB1) = h" "hs_chain_key (p_handshake qB1) = c" "hs_psk (p_handshake qB1) = hs_psk (p_handshake qB)"
    "hs_local_index (p_handshake qB1) = mi_sender mi"
    using i(3) a by (simp add: kps_below_def)
  from response_accepted [OF laws ids(1) i(1) B1(1,2) refl A1(1) refl A1(2) A1(4) B1(4,5) A1(5) _ _ _ _ bufs(2) steps(3)]
    i(2) psk A1 B1
  obtain c' h' e2 ep2 t' r' cg' where k:
    "B2 = B1\<lparr>d_index_table := t', e_rng := r', peer_mem := (peer_mem B1)(pA \<mapsto>
       qA1\<lparr>p_handshake := (p_handshake qA1)\<lparr>hs_local_ephemeral_priv := e2, hs_local_ephemeral_pub := ep2, hs_hash := h',
         hs_chain_key := c', hs_local_index := mr_sender mr, hs_state := HS_RESPONSE_CREATED\<rparr>, p_cookie := cg'\<rparr>)\<rparr>"
    "noise_consume_response sd A1 mr = (Some pB, A1\<lparr>peer_mem := (peer_mem A1)(pB \<mapsto>
       qB1\<lparr>p_handshake := (p_handshake qB1)\<lparr>hs_hash := h', hs_chain_key := c', hs_remote_index := mr_sender mr,
         hs_state := HS_RESPONSE_CONSUMED\<rparr>\<rparr>)\<rparr>)" by auto
  have rA: "rA = Some pB" using k(2) steps(4) by simp
  obtain qA2 where B2: "peer_mem B2 pA = Some qA2" "kps_below B2 qA2" "hs_chain_key (p_handshake qA2) = c'"
    "hs_state (p_handshake qA2) = HS_RESPONSE_CREATED" "hs_local_index (p_handshake qA2) = mr_sender mr"
    "hs_remote_index (p_handshake qA2) = mi_sender mi"
    using k(1) B1 by (simp add: kps_below_def)
  obtain qB2 where A2: "peer_mem A2 pB = Some qB2" "kps_below A2 qB2" "hs_chain_key (p_handshake qB2) = c'"
    "hs_state (p_handshake qB2) = HS_RESPONSE_CONSUMED" "hs_local_index (p_handshake qB2) = mi_sender mi"
    "hs_remote_index (p_handshake qB2) = mr_sender mr"
    using k(2) A1 steps(4) by (auto simp: kps_below_def)
  obtain t1 t2 where kdf: "wg_kdf2 c' [] = (t1, t2)" by fastforce
  show ?thesis
    using rA rB begin_session_ok [OF A2(1) refl A2(2) steps(5), of t1 t2] begin_session_ok [OF B2(1) refl B2(2) steps(6), of t1 t2]
      kdf A2 B2 by fastforce
qed

section \<open>Progress: when the message functions succeed\<close>

lemma dev_index_new_progress:
  "\<not> table_full (d_index_table dev) \<Longrightarrow> fst (dev_index_new sd dev p) \<noteq> 0"
  using hs_index.new_full [of sd "d_index_table dev" "e_rng dev" "(p, p)"]
  by (auto simp: dev_index_new_def split: prod.splits)

lemma create_initiation_progress:
  assumes laws: "sodium_laws sd" and mem: "peer_mem dev p = Some q"
    and dh: "fst (wg_dh sd (zeros 32) (wg_clamp_private_key (map (e_rng dev) [0..<32])) (hs_remote_static (p_handshake q))) = 0"
    and nz: "\<not> wg_ct_equal sd (hs_precomputed_static_static (p_handshake q)) (zeros 32)"
    and room: "\<not> table_full (index_table_delete (d_index_table dev) (hs_local_index (p_handshake q)))"
  shows "fst (noise_create_initiation sd dev p msg) = 0"
proof -
  note z = sodium_lawsD [OF laws] wg_generate_private_key_laws [OF laws]
  have "fst (dev_index_new sd (dev_index_delete (dev\<lparr>e_rng := x, e_clock := y\<rparr>) (hs_local_index (p_handshake q))) p) \<noteq> 0" for x y
    using room by (intro dev_index_new_progress) (simp add: dev_index_delete_def)
  then show ?thesis
    using dh nz mem unfolding noise_create_initiation_def Let_def
    by (simp add: z peer_at_def clock_gettime_def case_prod_beta)
qed

lemma create_response_progress:
  assumes laws: "sodium_laws sd" and mem: "peer_mem dev p = Some q" and st: "hs_state (p_handshake q) = HS_INITIATION_CONSUMED"
    and dh: "\<And>old e. length e = 32 \<Longrightarrow> fst (wg_dh sd old e (hs_remote_ephemeral (p_handshake q))) = 0"
      "\<And>old e. length e = 32 \<Longrightarrow> fst (wg_dh sd old e (hs_remote_static (p_handshake q))) = 0"
    and room: "\<not> table_full (index_table_delete (d_index_table dev) (hs_local_index (p_handshake q)))"
  shows "fst (noise_create_response sd dev p msg) = 0"
proof -
  note z = sodium_lawsD [OF laws] wg_generate_private_key_laws [OF laws]
  have "fst (dev_index_new sd (dev_index_delete dev (hs_local_index (p_handshake q))) p) \<noteq> 0"
    using room by (intro dev_index_new_progress) (simp add: dev_index_delete_def)
  then show ?thesis
    using dh mem st unfolding noise_create_response_def Let_def
    by (simp add: z peer_at_def case_prod_beta)
qed

lemma begin_session_progress:
  assumes "peer_mem dev p = Some q" "hs_state (p_handshake q) \<in> {HS_RESPONSE_CONSUMED, HS_RESPONSE_CREATED}" "e_calloc dev 0"
  shows "fst (noise_begin_session sd dev p) = 0"
  using assms by (auto simp: noise_begin_session_def peer_at_def calloc_def clock_gettime_def Let_def case_prod_beta)

section \<open>A concrete run\<close>

definition peer_example :: "bytes \<Rightarrow> wg_peer" where
  "peer_example pub = peer_zero\<lparr>p_public_key := pub, p_handshake := handshake_zero\<lparr>hs_remote_static := pub,
     hs_precomputed_static_static := replicate 32 3\<rparr>\<rparr>"

definition device_example :: "bytes \<Rightarrow> bytes \<Rightarrow> wg_device" where
  "device_example priv pub = device_zero\<lparr>d_private_key := priv, d_public_key := priv, d_peers := [0], d_peer_count := 1,
     peer_mem := [0 \<mapsto> peer_example pub], e_brk := 1\<rparr>"

definition initiation_buffer :: msg_initiation where
  "initiation_buffer = \<lparr>mi_type = 0, mi_sender = 0, mi_ephemeral = zeros 32, mi_static_enc = zeros 48,
     mi_timestamp_enc = zeros 28, mi_mac1 = zeros 16, mi_mac2 = zeros 16\<rparr>"

definition response_buffer :: msg_response where
  "response_buffer = \<lparr>mr_type = 0, mr_sender = 0, mr_receiver = 0, mr_ephemeral = zeros 32, mr_empty_enc = zeros 16,
     mr_mac1 = zeros 16, mr_mac2 = zeros 16\<rparr>"

lemma example_dh: "length x = 32 \<Longrightarrow> length y = 32 \<Longrightarrow> wg_dh sodium_example old x y = (0, map2 (XOR) x y)"
  by (simp add: wg_dh_def sodium_example_def wg_sodium_init_def)

lemma example_device:
  assumes "x = 1 \<and> y = 2 \<or> x = 2 \<and> y = (1 :: u8)"
  shows "identity_ok sodium_example (device_example (replicate 32 x) (replicate 32 y))"
    "knows_peer sodium_example (device_example (replicate 32 x) (replicate 32 y)) 0 (peer_example (replicate 32 y)) (replicate 32 y)"
proof -
  have "x XOR y = 3" using assms by auto
  then have "map2 (XOR) (replicate 32 x) (replicate 32 y) = replicate 32 3" by (simp add: zip_replicate)
  then show "knows_peer sodium_example (device_example (replicate 32 x) (replicate 32 y)) 0 (peer_example (replicate 32 y)) (replicate 32 y)"
    by (simp add: knows_peer_def device_example_def peer_example_def peer_zero_def example_dh cookie_ok_def cookie_gen_zero_def kps_below_def)
  show "identity_ok sodium_example (device_example (replicate 32 x) (replicate 32 y))"
    by (simp add: identity_ok_def device_example_def sodium_example_def)
qed

lemma example_table: "\<not> table_full (index_table_delete (d_index_table (device_example x y)) 0)"
proof -
  have "\<not> it_occupied (index_table_delete (d_index_table (device_example x y)) 0) 0"
    by (simp add: device_example_def device_zero_def index_table_delete_def)
  then show ?thesis unfolding table_full_def by (metis zero_less_numeral)
qed

theorem handshake_agreement_witness:
  "\<exists>mi A1 rB B1 mr B2 rA A2 A3 B3.
    noise_create_initiation sodium_example (device_example (replicate 32 1) (replicate 32 2)) 0 initiation_buffer = (0, mi, A1) \<and>
    noise_consume_initiation sodium_example (device_example (replicate 32 2) (replicate 32 1)) mi = (rB, B1) \<and>
    noise_create_response sodium_example B1 0 response_buffer = (0, mr, B2) \<and>
    noise_consume_response sodium_example A1 mr = (rA, A2) \<and>
    noise_begin_session sodium_example A2 0 = (0, A3) \<and> noise_begin_session sodium_example B2 0 = (0, B3) \<and>
    rB = Some 0 \<and> rA = Some 0"
proof -
  let ?sd = sodium_example and ?A = "device_example (replicate 32 1) (replicate 32 2)" and ?B = "device_example (replicate 32 2) (replicate 32 1)"
  let ?qB = "peer_example (replicate 32 2)" and ?qA = "peer_example (replicate 32 1)"
  note laws = sodium_example_laws and exA = example_device [of 1 2, simplified] and exB = example_device [of 2 1, simplified]
  have pub: "d_public_key ?A = replicate 32 1" "d_public_key ?B = replicate 32 2" by (simp_all add: device_example_def)
  have mem: "peer_mem ?A 0 = Some ?qB" "peer_mem ?B 0 = Some ?qA" by (simp_all add: device_example_def)
  have bufs: "initiation_ok initiation_buffer" "response_ok response_buffer"
    by (simp_all add: initiation_ok_def initiation_buffer_def response_ok_def response_buffer_def)
  have nz: "replicate 32 (3 :: u8) \<noteq> zeros 32" by (simp add: zeros_def)
  have "fst (noise_create_initiation ?sd ?A 0 initiation_buffer) = 0"
    using nz by (intro create_initiation_progress [OF laws mem(1)])
      (simp_all add: example_dh peer_example_def handshake_zero_def example_table sodium_lawsD(2) [OF laws])
  then obtain mi A1 where s1: "noise_create_initiation ?sd ?A 0 initiation_buffer = (0, mi, A1)" by (metis prod.collapse)
  obtain rB B1 where s2: "noise_consume_initiation ?sd ?B mi = (rB, B1)" by fastforce
  have init: "d_noise_init_hash ?A = d_noise_init_hash ?B" "d_noise_init_chain_key ?A = d_noise_init_chain_key ?B"
    by (simp_all add: device_example_def device_zero_def)
  have found: "find_peer_by_key ?sd ?B (d_public_key ?A) = Some 0"
    by (simp add: find_peer_by_key_def device_example_def peer_at_def peer_example_def sodium_lawsD(2) [OF laws])
  have "tai64n_after (tai64n_now 1 0) (Tai64n (zeros 12))" by code_simp
  then have fresh: "tai64n_after (tai64n_now (fst (e_clock ?A 0)) (snd (e_clock ?A 0))) (hs_last_timestamp (p_handshake ?qA))"
      "\<not> e_now ?B - hs_last_initiation_consumption_ms (p_handshake ?qA) \<le> HANDSHAKE_INIT_RATE_MS"
    by (simp_all add: device_example_def device_zero_def peer_example_def handshake_zero_def HANDSHAKE_INIT_RATE_MS_def)
  have A: "knows_peer ?sd ?A 0 ?qB (d_public_key ?B)" and B: "knows_peer ?sd ?B 0 ?qA (d_public_key ?A)"
    using exA exB by (simp_all add: pub)
  have psk: "hs_psk (p_handshake ?qB) = hs_psk (p_handshake ?qA)" by (simp add: peer_example_def handshake_zero_def)
  from initiation_accepted [OF laws exA(1) exB(1) A B init found fresh bufs(1) s1]
  obtain e1 c h t r clk cg ts lc where i: "length e1 = 32"
    "index_table_lookup t (mi_sender mi) = Some \<lparr>ie_type = IDX_HANDSHAKE, ie_index = mi_sender mi, ie_peer = Some 0,
       ie_handshake = Some 0, ie_keypair = None\<rparr>"
    "A1 = ?A\<lparr>d_index_table := t, e_rng := r, e_clock := clk, peer_mem := (peer_mem ?A)(0 \<mapsto>
       ?qB\<lparr>p_handshake := (p_handshake ?qB)\<lparr>hs_local_ephemeral_priv := e1, hs_local_ephemeral_pub := s_scalarmult_base ?sd e1,
         hs_hash := h, hs_chain_key := c, hs_local_index := mi_sender mi, hs_state := HS_INITIATION_CREATED\<rparr>, p_cookie := cg\<rparr>)\<rparr>"
    "noise_consume_initiation ?sd ?B mi = (Some 0, ?B\<lparr>peer_mem := (peer_mem ?B)(0 \<mapsto>
       ?qA\<lparr>p_handshake := (p_handshake ?qA)\<lparr>hs_hash := h, hs_chain_key := c, hs_remote_ephemeral := s_scalarmult_base ?sd e1,
         hs_remote_index := mi_sender mi, hs_last_timestamp := ts,
         hs_last_initiation_consumption_ms := lc, hs_state := HS_INITIATION_CONSUMED\<rparr>\<rparr>)\<rparr>)"
    by blast
  define qA1 where "qA1 = ?qA\<lparr>p_handshake := (p_handshake ?qA)\<lparr>hs_hash := h, hs_chain_key := c,
    hs_remote_ephemeral := s_scalarmult_base ?sd e1, hs_remote_index := mi_sender mi, hs_last_timestamp := ts,
    hs_last_initiation_consumption_ms := lc, hs_state := HS_INITIATION_CONSUMED\<rparr>\<rparr>"
  define qB1 where "qB1 = ?qB\<lparr>p_handshake := (p_handshake ?qB)\<lparr>hs_local_ephemeral_priv := e1, hs_local_ephemeral_pub := s_scalarmult_base ?sd e1,
    hs_hash := h, hs_chain_key := c, hs_local_index := mi_sender mi, hs_state := HS_INITIATION_CREATED\<rparr>, p_cookie := cg\<rparr>"
  have B1: "B1 = ?B\<lparr>peer_mem := (peer_mem ?B)(0 \<mapsto> qA1)\<rparr>" using s2 i(4) unfolding qA1_def by (simp only: prod.inject)
  have A1: "A1 = ?A\<lparr>d_index_table := t, e_rng := r, e_clock := clk, peer_mem := (peer_mem ?A)(0 \<mapsto> qB1)\<rparr>"
    using i(3) unfolding qB1_def .
  have mem1: "peer_mem B1 0 = Some qA1" "peer_mem A1 0 = Some qB1" unfolding A1 B1 by simp_all
  have base: "s_scalarmult_base ?sd e1 = e1" by (simp add: sodium_example_def)
  have hB: "hs_state (p_handshake qA1) = HS_INITIATION_CONSUMED" "hs_remote_ephemeral (p_handshake qA1) = s_scalarmult_base ?sd e1"
    "hs_remote_static (p_handshake qA1) = replicate 32 1" "hs_local_index (p_handshake qA1) = 0" "cookie_ok (p_cookie qA1)"
    by (simp_all add: qA1_def peer_example_def handshake_zero_def peer_zero_def cookie_ok_def cookie_gen_zero_def)
  have "fst (noise_create_response ?sd B1 0 response_buffer) = 0"
    using hB i(1) example_table [of "replicate 32 2" "replicate 32 1"]
    by (intro create_response_progress [OF laws mem1(1)]) (simp_all add: example_dh base B1)
  then obtain mr B2 where s3: "noise_create_response ?sd B1 0 response_buffer = (0, mr, B2)" by (metis prod.collapse)
  obtain rA A2 where s4: "noise_consume_response ?sd A1 mr = (rA, A2)" by fastforce
  have "\<exists>c h e2 ep2 t r cg. B2 = B1\<lparr>d_index_table := t, e_rng := r, peer_mem := (peer_mem B1)(0 \<mapsto>
       qA1\<lparr>p_handshake := (p_handshake qA1)\<lparr>hs_local_ephemeral_priv := e2, hs_local_ephemeral_pub := ep2, hs_hash := h, hs_chain_key := c,
         hs_local_index := mr_sender mr, hs_state := HS_RESPONSE_CREATED\<rparr>, p_cookie := cg\<rparr>)\<rparr> \<and>
    noise_consume_response ?sd A1 mr = (Some 0, A1\<lparr>peer_mem := (peer_mem A1)(0 \<mapsto>
       qB1\<lparr>p_handshake := (p_handshake qB1)\<lparr>hs_hash := h, hs_chain_key := c, hs_remote_index := mr_sender mr, hs_state := HS_RESPONSE_CONSUMED\<rparr>\<rparr>)\<rparr>)"
    by (rule response_accepted [OF laws exA(1) i(1) mem1(1) hB(5) refl mem1(2) refl _ _ hB(2) _ _ _ _ _ _ bufs(2) s3])
      (use i(2) psk in \<open>simp_all add: qA1_def qB1_def A1 pub peer_example_def handshake_zero_def\<close>)
  then have st: "\<exists>q. peer_mem B2 0 = Some q \<and> hs_state (p_handshake q) = HS_RESPONSE_CREATED" "e_calloc B2 0"
    "\<exists>q. peer_mem A2 0 = Some q \<and> hs_state (p_handshake q) = HS_RESPONSE_CONSUMED" "e_calloc A2 0"
    using s4 by (auto simp: A1 B1 device_example_def device_zero_def)
  then obtain A3 B3 where s5: "noise_begin_session ?sd A2 0 = (0, A3)" and s6: "noise_begin_session ?sd B2 0 = (0, B3)"
    using begin_session_progress [of A2 0 _ ?sd] begin_session_progress [of B2 0 _ ?sd] by (metis insertI1 insertI2 prod.collapse)
  show ?thesis
    using handshake_agreement [OF laws exA(1) exB(1) A B psk init found fresh bufs s1 s2 s3 s4 s5 s6] s1 s2 s3 s4 s5 s6 by blast
qed

end
