(* ===== verification/Pool.thy ===== *)
theory Pool
  imports Wg "HOL-Library.Multiset"
begin

text \<open>
  The three buffer pools of the device (\<^verbatim>\<open>src/src/device.c\<close>, lines 80-196): transmit
  buffers, UDP send requests and receive buffers. Each is a free list over an array of
  512 preallocated nodes; when it is empty a block is allocated and freed on release.
\<close>

section \<open>Operations\<close>

definition buffer_acquire :: "pool \<Rightarrow> wg_device \<Rightarrow> buffer option \<times> pool \<times> wg_device" where
  "buffer_acquire pool dev =
     (case pool of
        b # rest \<Rightarrow> (Some (Pooled b), rest, dev)
      | [] \<Rightarrow> (case calloc dev of
                (None, dev) \<Rightarrow> (None, [], dev)
              | (Some a, dev) \<Rightarrow> (Some (Unpooled a), [], dev)))"

definition buffer_release :: "buffer option \<Rightarrow> pool \<Rightarrow> pool" where
  "buffer_release buf pool =
     (case buf of None \<Rightarrow> pool | Some (Unpooled a) \<Rightarrow> pool | Some (Pooled b) \<Rightarrow> b # pool)"

definition tx_buffer_acquire :: "wg_device \<Rightarrow> buffer option \<times> wg_device" where
  "tx_buffer_acquire dev =
     (let (b, pool, dev) = buffer_acquire (d_tx_buffer_pool dev) dev in (b, dev\<lparr>d_tx_buffer_pool := pool\<rparr>))"

definition tx_buffer_release :: "wg_device \<Rightarrow> buffer option \<Rightarrow> wg_device" where
  "tx_buffer_release dev b = dev\<lparr>d_tx_buffer_pool := buffer_release b (d_tx_buffer_pool dev)\<rparr>"

definition udp_send_req_acquire :: "wg_device \<Rightarrow> buffer option \<times> wg_device" where
  "udp_send_req_acquire dev =
     (let (b, pool, dev) = buffer_acquire (d_udp_send_req_pool dev) dev in (b, dev\<lparr>d_udp_send_req_pool := pool\<rparr>))"

definition udp_send_req_release :: "wg_device \<Rightarrow> buffer option \<Rightarrow> wg_device" where
  "udp_send_req_release dev b = dev\<lparr>d_udp_send_req_pool := buffer_release b (d_udp_send_req_pool dev)\<rparr>"

text \<open>libuv calls \<^verbatim>\<open>udp_send_done\<close> once for every request it accepted.\<close>

definition udp_send_done :: "wg_device \<Rightarrow> buffer \<Rightarrow> wg_device" where
  "udp_send_done dev req =
     udp_send_req_release (dev\<lparr>e_udp_pending := remove1 req (e_udp_pending dev)\<rparr>) (Some req)"

definition rx_buffer_acquire :: "wg_device \<Rightarrow> buffer option \<times> wg_device" where
  "rx_buffer_acquire dev =
     (let (b, pool, dev) = buffer_acquire (d_rx_buffer_pool dev) dev in (b, dev\<lparr>d_rx_buffer_pool := pool\<rparr>))"

definition rx_buffer_release :: "wg_device \<Rightarrow> buffer option \<Rightarrow> wg_device" where
  "rx_buffer_release dev b = dev\<lparr>d_rx_buffer_pool := buffer_release b (d_rx_buffer_pool dev)\<rparr>"

definition udp_recv_buffer_release :: "wg_device \<Rightarrow> buffer option \<Rightarrow> wg_device" where
  "udp_recv_buffer_release dev b = (case b of None \<Rightarrow> dev | Some x \<Rightarrow> rx_buffer_release dev (Some x))"

text \<open>The initialisation loop: node \<open>i\<close> is pushed in front of nodes \<open>0 .. i - 1\<close>.\<close>

definition pool_init :: "nat \<Rightarrow> pool" where
  "pool_init n = fold (#) [0..<n] []"

lemma pool_init_rev: "pool_init n = rev [0..<n]"
  by (simp add: pool_init_def fold_Cons_rev)

section \<open>The ownership contract\<close>

text \<open>The preallocated nodes among the buffers in use.\<close>

fun nodes :: "buffer list \<Rightarrow> nat list" where
  "nodes [] = []"
| "nodes (Pooled n # bs) = n # nodes bs"
| "nodes (Unpooled a # bs) = nodes bs"

lemma nodes_append [simp]: "nodes (xs @ ys) = nodes xs @ nodes ys"
  by (induction xs rule: nodes.induct) simp_all

text \<open>A client acquires buffers and later releases, in any order, ones it holds (\<open>Rel i\<close>
  the \<open>i\<close>-th; nothing happens when there is none).\<close>

datatype pool_op = Acq | Rel nat

locale buffer_pool =
  fixes free :: "'s \<Rightarrow> nat list"
    and acquire :: "'s \<Rightarrow> buffer option \<times> 's"
    and release :: "'s \<Rightarrow> buffer option \<Rightarrow> 's"
  assumes acquire_pooled: "acquire s = (Some (Pooled n), s') \<Longrightarrow> free s = n # free s'"
    and acquire_unpooled: "acquire s = (Some (Unpooled a), s') \<Longrightarrow> free s = [] \<and> free s' = []"
    and acquire_fail: "acquire s = (None, s') \<Longrightarrow> free s = [] \<and> free s' = []"
    and release_pooled: "free (release s (Some (Pooled n))) = n # free s"
    and release_unpooled: "free (release s (Some (Unpooled a))) = free s"
begin

fun client :: "'s \<times> buffer list \<Rightarrow> pool_op \<Rightarrow> 's \<times> buffer list" where
  "client (s, held) Acq = (case acquire s of (None, s') \<Rightarrow> (s', held) | (Some b, s') \<Rightarrow> (s', b # held))"
| "client (s, held) (Rel i) =
     (if i < length held then (release s (Some (held ! i)), take i held @ drop (Suc i) held) else (s, held))"

lemma client_conserves:
  "client (s, held) x = (s', held') \<Longrightarrow> mset (free s') + mset (nodes held') = mset (free s) + mset (nodes held)"
proof (cases x)
  case Acq
  assume c: "client (s, held) x = (s', held')"
  obtain b s1 where a: "acquire s = (b, s1)" by fastforce
  show ?thesis
  proof (cases b)
    case None
    then show ?thesis using c a Acq acquire_fail [of s s1] by simp
  next
    case (Some bf)
    then show ?thesis
      using c a Acq acquire_pooled [of s _ s1] acquire_unpooled [of s _ s1] by (cases bf) auto
  qed
next
  case (Rel i)
  assume c: "client (s, held) x = (s', held')"
  show ?thesis
  proof (cases "i < length held")
    case True
    then have h: "nodes held = nodes (take i held) @ nodes [held ! i] @ nodes (drop (Suc i) held)"
      by (metis append_Cons append_Nil id_take_nth_drop nodes_append)
    then show ?thesis
      using c Rel True by (cases "held ! i") (auto simp: release_pooled release_unpooled)
  next
    case False
    then show ?thesis using c Rel by simp
  qed
qed

lemma clients_conserve:
  "foldl client (s, held) ops = (s', held') \<Longrightarrow> mset (free s') + mset (nodes held') = mset (free s) + mset (nodes held)"
proof (induction ops arbitrary: s held)
  case (Cons x ops)
  obtain s1 h1 where "client (s, held) x = (s1, h1)" by fastforce
  with Cons client_conserves show ?case by (metis foldl_Cons)
qed simp

lemma exclusive:
  assumes "free s = pool_init n" "foldl client (s, []) ops = (s', held)"
  shows "distinct (free s' @ nodes held) \<and> set (free s') \<union> set (nodes held) = {..<n}"
proof -
  have "mset (free s' @ nodes held) = mset (rev [0..<n])"
    using clients_conserve [OF assms(2)] assms(1) by (simp add: pool_init_rev)
  then have "set (free s' @ nodes held) = set [0..<n]" "distinct (free s' @ nodes held)"
    by (metis mset_rev set_mset_mset, metis distinct_rev distinct_upt mset_eq_imp_distinct_iff)
  then show ?thesis by auto
qed

end

lemma buffer_acquire_cases:
  assumes "buffer_acquire pool dev = (b, pool', dev')"
  shows "case b of Some (Pooled n) \<Rightarrow> pool = n # pool' | _ \<Rightarrow> pool = [] \<and> pool' = []"
  using assms by (auto simp: buffer_acquire_def split: list.splits option.splits prod.splits)

interpretation tx: buffer_pool d_tx_buffer_pool tx_buffer_acquire tx_buffer_release
proof
  fix s s' n a
  show "tx_buffer_acquire s = (Some (Pooled n), s') \<Longrightarrow> d_tx_buffer_pool s = n # d_tx_buffer_pool s'"
    "tx_buffer_acquire s = (Some (Unpooled a), s') \<Longrightarrow> d_tx_buffer_pool s = [] \<and> d_tx_buffer_pool s' = []"
    "tx_buffer_acquire s = (None, s') \<Longrightarrow> d_tx_buffer_pool s = [] \<and> d_tx_buffer_pool s' = []"
    using buffer_acquire_cases [of "d_tx_buffer_pool s" s] by (fastforce simp: tx_buffer_acquire_def split: prod.splits)+
  show "d_tx_buffer_pool (tx_buffer_release s (Some (Pooled n))) = n # d_tx_buffer_pool s"
    "d_tx_buffer_pool (tx_buffer_release s (Some (Unpooled a))) = d_tx_buffer_pool s"
    by (simp_all add: tx_buffer_release_def buffer_release_def)
qed

interpretation req: buffer_pool d_udp_send_req_pool udp_send_req_acquire udp_send_req_release
proof
  fix s s' n a
  show "udp_send_req_acquire s = (Some (Pooled n), s') \<Longrightarrow> d_udp_send_req_pool s = n # d_udp_send_req_pool s'"
    "udp_send_req_acquire s = (Some (Unpooled a), s') \<Longrightarrow> d_udp_send_req_pool s = [] \<and> d_udp_send_req_pool s' = []"
    "udp_send_req_acquire s = (None, s') \<Longrightarrow> d_udp_send_req_pool s = [] \<and> d_udp_send_req_pool s' = []"
    using buffer_acquire_cases [of "d_udp_send_req_pool s" s] by (fastforce simp: udp_send_req_acquire_def split: prod.splits)+
  show "d_udp_send_req_pool (udp_send_req_release s (Some (Pooled n))) = n # d_udp_send_req_pool s"
    "d_udp_send_req_pool (udp_send_req_release s (Some (Unpooled a))) = d_udp_send_req_pool s"
    by (simp_all add: udp_send_req_release_def buffer_release_def)
qed

interpretation rx: buffer_pool d_rx_buffer_pool rx_buffer_acquire rx_buffer_release
proof
  fix s s' n a
  show "rx_buffer_acquire s = (Some (Pooled n), s') \<Longrightarrow> d_rx_buffer_pool s = n # d_rx_buffer_pool s'"
    "rx_buffer_acquire s = (Some (Unpooled a), s') \<Longrightarrow> d_rx_buffer_pool s = [] \<and> d_rx_buffer_pool s' = []"
    "rx_buffer_acquire s = (None, s') \<Longrightarrow> d_rx_buffer_pool s = [] \<and> d_rx_buffer_pool s' = []"
    using buffer_acquire_cases [of "d_rx_buffer_pool s" s] by (fastforce simp: rx_buffer_acquire_def split: prod.splits)+
  show "d_rx_buffer_pool (rx_buffer_release s (Some (Pooled n))) = n # d_rx_buffer_pool s"
    "d_rx_buffer_pool (rx_buffer_release s (Some (Unpooled a))) = d_rx_buffer_pool s"
    by (simp_all add: rx_buffer_release_def buffer_release_def)
qed

text \<open>\<^bold>\<open>C33\<close>. Pool buffers are never shared and never lost: after any interleaving of
  acquisitions and releases on any of the three pools, the 512 nodes are partitioned
  between the free list and the buffers in use, and no node is in use twice.\<close>

theorem pool_exclusive:
  assumes "d_tx_buffer_pool s = pool_init 512" "d_udp_send_req_pool s = pool_init 512" "d_rx_buffer_pool s = pool_init 512"
    and "foldl tx.client (s, []) ops = (s1, held1)" "foldl req.client (s, []) ops = (s2, held2)"
      "foldl rx.client (s, []) ops = (s3, held3)"
  shows "distinct (d_tx_buffer_pool s1 @ nodes held1) \<and> set (d_tx_buffer_pool s1) \<union> set (nodes held1) = {..<512} \<and>
    distinct (d_udp_send_req_pool s2 @ nodes held2) \<and> set (d_udp_send_req_pool s2) \<union> set (nodes held2) = {..<512} \<and>
    distinct (d_rx_buffer_pool s3 @ nodes held3) \<and> set (d_rx_buffer_pool s3) \<union> set (nodes held3) = {..<512}"
  using tx.exclusive [OF assms(1,4)] req.exclusive [OF assms(2,5)] rx.exclusive [OF assms(3,6)] by blast

theorem pool_exclusive_witness:
  "\<exists>s1 held1. foldl tx.client (device_zero\<lparr>d_tx_buffer_pool := pool_init 512, d_udp_send_req_pool := pool_init 512,
       d_rx_buffer_pool := pool_init 512\<rparr>, []) [Acq, Acq, Rel 1] = (s1, held1) \<and>
     distinct (d_tx_buffer_pool s1 @ nodes held1) \<and> set (d_tx_buffer_pool s1) \<union> set (nodes held1) = {..<512}"
proof -
  let ?s = "device_zero\<lparr>d_tx_buffer_pool := pool_init 512, d_udp_send_req_pool := pool_init 512, d_rx_buffer_pool := pool_init 512\<rparr>"
  obtain s1 h1 s2 h2 s3 h3 where r: "foldl tx.client (?s, []) [Acq, Acq, Rel 1] = (s1, h1)"
    "foldl req.client (?s, []) [Acq, Acq, Rel 1] = (s2, h2)" "foldl rx.client (?s, []) [Acq, Acq, Rel 1] = (s3, h3)"
    by (metis surj_pair)
  have init: "d_tx_buffer_pool ?s = pool_init 512" "d_udp_send_req_pool ?s = pool_init 512" "d_rx_buffer_pool ?s = pool_init 512"
    by simp_all
  from pool_exclusive [OF init r] r(1) show ?thesis by blast
qed

end
