(* ===== verification/Timers.thy ===== *)
theory Timers
  imports Noise Pool
begin

text \<open>
  Per-peer timers (\<^verbatim>\<open>src/src/timers.c\<close>) over libuv's timer primitives
  (\<^verbatim>\<open>libuv/src/timer.c\<close>): starting a timer sets its due time, saturating at the largest
  64-bit value, and does nothing on a closing handle; the callbacks that send packets
  are in \<open>Device\<close>.
\<close>

section \<open>libuv timers\<close>

definition uv_timer_start :: "u64 \<Rightarrow> u64 \<Rightarrow> uv_timer \<Rightarrow> uv_timer" where
  "uv_timer_start now timeout t =
     (if tm_closing t then t
      else
        let clamped_timeout = now + timeout;
            clamped_timeout = (if clamped_timeout < timeout then - 1 else clamped_timeout)
        in t\<lparr>tm_due := Some clamped_timeout\<rparr>)"

definition uv_timer_stop :: "uv_timer \<Rightarrow> uv_timer" where
  "uv_timer_stop t = t\<lparr>tm_due := None\<rparr>"

definition uv_timer_init :: uv_timer where
  "uv_timer_init = \<lparr>tm_due = None, tm_closing = False\<rparr>"

definition uv_is_active :: "uv_timer \<Rightarrow> bool" where
  "uv_is_active t \<longleftrightarrow> tm_due t \<noteq> None"

definition uv_close :: "uv_timer \<Rightarrow> uv_timer" where
  "uv_close t = \<lparr>tm_due = None, tm_closing = True\<rparr>"

section \<open>Timer management\<close>

definition timers_init :: "wg_device \<Rightarrow> peer_ref \<Rightarrow> wg_device" where
  "timers_init dev p =
     upd_peer p (\<lambda>q. q\<lparr>p_timer_retransmit_handshake := uv_timer_init, p_timer_send_keepalive := uv_timer_init,
       p_timer_new_handshake := uv_timer_init, p_timer_zero_key_material := uv_timer_init,
       p_timer_persistent_keepalive := uv_timer_init, p_timers_active := True, p_timer_close_count := 5\<rparr>) dev"

definition timers_stop :: "wg_device \<Rightarrow> peer_ref \<Rightarrow> wg_device" where
  "timers_stop dev p =
     (if \<not> p_timers_active (peer_at dev p) then dev
      else upd_peer p (\<lambda>q. q\<lparr>p_timer_retransmit_handshake := uv_timer_stop (p_timer_retransmit_handshake q),
        p_timer_send_keepalive := uv_timer_stop (p_timer_send_keepalive q),
        p_timer_new_handshake := uv_timer_stop (p_timer_new_handshake q),
        p_timer_zero_key_material := uv_timer_stop (p_timer_zero_key_material q),
        p_timer_persistent_keepalive := uv_timer_stop (p_timer_persistent_keepalive q),
        p_timers_active := False\<rparr>) dev)"

definition timers_close :: "wg_device \<Rightarrow> peer_ref \<Rightarrow> wg_device" where
  "timers_close dev p =
     (if p_timer_close_count (peer_at dev p) = 0 then dev
      else upd_peer p (\<lambda>q. q\<lparr>p_timer_retransmit_handshake := uv_close (p_timer_retransmit_handshake q),
        p_timer_send_keepalive := uv_close (p_timer_send_keepalive q),
        p_timer_new_handshake := uv_close (p_timer_new_handshake q),
        p_timer_zero_key_material := uv_close (p_timer_zero_key_material q),
        p_timer_persistent_keepalive := uv_close (p_timer_persistent_keepalive q)\<rparr>) dev)"

definition timers_data_sent :: "wg_device \<Rightarrow> peer_ref \<Rightarrow> wg_device" where
  "timers_data_sent dev p =
     (if \<not> p_timers_active (peer_at dev p) then dev
      else upd_peer p (\<lambda>q. q\<lparr>p_timer_send_keepalive :=
        uv_timer_start (e_now dev) KEEPALIVE_TIMEOUT_MS (p_timer_send_keepalive q)\<rparr>) dev)"

definition timers_data_received :: "wg_device \<Rightarrow> peer_ref \<Rightarrow> wg_device" where
  "timers_data_received dev p =
     (if \<not> p_timers_active (peer_at dev p) then dev
      else if \<not> uv_is_active (p_timer_send_keepalive (peer_at dev p))
      then upd_peer p (\<lambda>q. q\<lparr>p_timer_send_keepalive :=
        uv_timer_start (e_now dev) KEEPALIVE_TIMEOUT_MS (p_timer_send_keepalive q)\<rparr>) dev
      else upd_peer p (\<lambda>q. q\<lparr>p_need_another_keepalive := True\<rparr>) dev)"

definition timers_keepalive_received :: "wg_device \<Rightarrow> peer_ref \<Rightarrow> wg_device" where
  "timers_keepalive_received dev p =
     (if \<not> p_timers_active (peer_at dev p) then dev
      else upd_peer p (\<lambda>q. q\<lparr>p_timer_send_keepalive := uv_timer_stop (p_timer_send_keepalive q)\<rparr>) dev)"

text \<open>\<^verbatim>\<open>wg_random_bytes(&jitter, 4); jitter %= REKEY_TIMEOUT_JITTER_MAX_MS\<close> and the restart of the
  retransmit timer, as both callers write it; the uninitialised \<^verbatim>\<open>jitter\<close> is only read when
  no randomness is available.\<close>

definition start_retransmit :: "sodium \<Rightarrow> wg_device \<Rightarrow> peer_ref \<Rightarrow> wg_device" where
  "start_retransmit sd dev p =
     (let (ret, b, dev) = random_bytes sd dev (zeros 4) 4;
          jitter = (of_le b :: u32) mod REKEY_TIMEOUT_JITTER_MAX_MS
      in upd_peer p (\<lambda>q. q\<lparr>p_timer_retransmit_handshake :=
           uv_timer_start (e_now dev) (REKEY_TIMEOUT_MS + ucast jitter) (p_timer_retransmit_handshake q)\<rparr>) dev)"

definition timers_handshake_initiated :: "sodium \<Rightarrow> wg_device \<Rightarrow> peer_ref \<Rightarrow> wg_device" where
  "timers_handshake_initiated sd dev p =
     (if \<not> p_timers_active (peer_at dev p) then dev else start_retransmit sd dev p)"

definition timers_handshake_complete :: "wg_device \<Rightarrow> peer_ref \<Rightarrow> wg_device" where
  "timers_handshake_complete dev p =
     (if \<not> p_timers_active (peer_at dev p) then dev
      else upd_peer p (\<lambda>q. q\<lparr>p_handshake_attempts := 0,
        p_timer_retransmit_handshake := uv_timer_stop (p_timer_retransmit_handshake q),
        p_timer_new_handshake := uv_timer_start (e_now dev) REKEY_AFTER_TIME_MS (p_timer_new_handshake q),
        p_timer_zero_key_material := uv_timer_start (e_now dev) (REJECT_AFTER_TIME_MS * 3) (p_timer_zero_key_material q)\<rparr>) dev)"

definition timers_persistent_keepalive_set :: "wg_device \<Rightarrow> peer_ref \<Rightarrow> wg_device" where
  "timers_persistent_keepalive_set dev p =
     (if \<not> p_timers_active (peer_at dev p) then dev
      else
        let interval = p_persistent_keepalive_ms (peer_at dev p);
            dev = upd_peer p (\<lambda>q. q\<lparr>p_timer_persistent_keepalive := uv_timer_stop (p_timer_persistent_keepalive q)\<rparr>) dev
        in if interval \<noteq> 0
           then upd_peer p (\<lambda>q. q\<lparr>p_timer_persistent_keepalive :=
             uv_timer_start (e_now dev) (ucast interval) (p_timer_persistent_keepalive q)\<rparr>) dev
           else dev)"

definition timers_zero_key_material :: "wg_device \<Rightarrow> peer_ref \<Rightarrow> wg_device" where
  "timers_zero_key_material dev p =
     (if \<not> p_timers_active (peer_at dev p) then dev
      else upd_peer p (\<lambda>q. q\<lparr>p_timer_zero_key_material := uv_timer_start (e_now dev) 0 (p_timer_zero_key_material q)\<rparr>) dev)"

end
