(* ===== verification/Device.thy ===== *)
theory Device
  imports Timers
begin

text \<open>
  The device (\<^verbatim>\<open>src/src/device.c\<close>) and the timer callbacks that drive it
  (\<^verbatim>\<open>src/src/timers.c\<close>): peer management, sending, the handlers of the four message
  types, the libuv callbacks, initialisation. Every function takes the device (with
  its heap and environment) and returns it updated. The two loops that flush the queue of
  staged packets may not terminate; they are partial functions into \<open>option\<close>, and
  \<open>None\<close> means that the callback never returns.
\<close>

section \<open>Sockets\<close>

definition UV_EAGAIN :: int where "UV_EAGAIN = -11"
definition UV_EMSGSIZE :: int where "UV_EMSGSIZE = -90"
definition UV_ENOMEM :: int where "UV_ENOMEM = -12"

text \<open>\<open>True\<close> stands for the IPv6 socket.\<close>

definition udp_for_family :: "wg_device \<Rightarrow> nat \<Rightarrow> bool" where
  "udp_for_family dev family \<longleftrightarrow> family = AF_INET6 \<and> d_udp6_active dev"

definition udp_send_copy :: "wg_device \<Rightarrow> sockaddr_storage \<Rightarrow> nat \<Rightarrow> bytes \<Rightarrow> int \<times> wg_device" where
  "udp_send_copy dev addr family data =
     (let ret = e_try_send dev 0;
          dev = dev\<lparr>e_try_send := \<lambda>i. e_try_send dev (i + 1)\<rparr>
      in if ret \<ge> 0 then (0, dev\<lparr>e_udp_out := e_udp_out dev @ [(udp_for_family dev family, addr, data)]\<rparr>)
      else if ret \<noteq> UV_EAGAIN then (ret, dev)
      else if length data > WG_TX_BUFFER_SIZE then (UV_EMSGSIZE, dev)
      else case udp_send_req_acquire dev of
        (None, dev) \<Rightarrow> (UV_ENOMEM, dev)
      | (Some sreq, dev) \<Rightarrow>
          let ret = e_send dev 0;
              dev = dev\<lparr>e_send := \<lambda>i. e_send dev (i + 1)\<rparr>
          in if ret < 0 then (ret, udp_send_req_release dev (Some sreq))
             else (ret, dev\<lparr>e_udp_pending := sreq # e_udp_pending dev,
                            e_udp_out := e_udp_out dev @ [(udp_for_family dev family, addr, data)]\<rparr>))"

section \<open>Peers and keypairs\<close>

definition device_find_peer :: "sodium \<Rightarrow> wg_device \<Rightarrow> bytes \<Rightarrow> peer_ref option" where
  "device_find_peer sd dev pk = find (\<lambda>p. wg_ct_equal sd (p_public_key (peer_at dev p)) pk) (d_peers dev)"

definition device_add_peer :: "sodium \<Rightarrow> wg_device \<Rightarrow> bytes \<Rightarrow> peer_ref option \<times> wg_device" where
  "device_add_peer sd dev pk =
     (if device_find_peer sd dev pk \<noteq> None then (None, dev)
      else case calloc dev of
        (None, dev) \<Rightarrow> (None, dev)
      | (Some p, dev) \<Rightarrow>
          let peer = peer_zero\<lparr>p_public_key := pk,
                p_handshake := noise_handshake_init (p_handshake peer_zero) pk (Some (zeros WG_PSK_LEN)),
                p_cookie := cookie_gen_init (p_cookie peer_zero) pk,
                p_allowedips := allowedips_init\<rparr>;
              dev = dev\<lparr>peer_mem := (peer_mem dev)(p \<mapsto> peer)\<rparr>;
              dev = noise_precompute_static_static sd dev p;
              dev = timers_init dev p
          in (Some p, dev\<lparr>d_peers := p # d_peers dev, d_peer_count := d_peer_count dev + 1\<rparr>))"

definition peer_close_cb :: "wg_device \<Rightarrow> peer_ref \<Rightarrow> wg_device" where
  "peer_close_cb dev p =
     (let n = p_timer_close_count (peer_at dev p) - 1;
          dev = upd_peer p (\<lambda>q. q\<lparr>p_timer_close_count := n\<rparr>) dev
      in if n = 0 then dev\<lparr>peer_mem := (peer_mem dev)(p := None)\<rparr> else dev)"

definition keypair_free :: "sodium \<Rightarrow> wg_device \<Rightarrow> kp_ref option \<Rightarrow> wg_device" where
  "keypair_free sd dev kp =
     (case kp of None \<Rightarrow> dev
      | Some k \<Rightarrow>
          let dev = dev_index_delete dev (kp_local_index (kp_at dev k));
              dev = upd_kp k (\<lambda>x. x\<lparr>kp_send_key := wg_memzero sd (kp_send_key x), kp_recv_key := wg_memzero sd (kp_recv_key x)\<rparr>) dev
          in kp_release k dev)"

text \<open>The three lines that free the keypairs of a peer, shared by teardown and the zero-key timer.\<close>

definition free_keypairs :: "sodium \<Rightarrow> wg_device \<Rightarrow> peer_ref \<Rightarrow> wg_device" where
  "free_keypairs sd dev p =
     (let dev = upd_peer p (\<lambda>q. q\<lparr>p_current_keypair := None\<rparr>) (keypair_free sd dev (p_current_keypair (peer_at dev p)));
          dev = upd_peer p (\<lambda>q. q\<lparr>p_next_keypair := None\<rparr>) (keypair_free sd dev (p_next_keypair (peer_at dev p)))
      in upd_peer p (\<lambda>q. q\<lparr>p_prev_keypair := None\<rparr>) (keypair_free sd dev (p_prev_keypair (peer_at dev p))))"

definition peer_teardown :: "sodium \<Rightarrow> wg_device \<Rightarrow> peer_ref \<Rightarrow> wg_device" where
  "peer_teardown sd dev p =
     (let dev = timers_stop dev p;
          dev = dev\<lparr>d_allowedips := allowedips_remove_peer (d_allowedips dev) p\<rparr>;
          dev = free_keypairs sd dev p;
          dev = dev_index_delete dev (hs_local_index (p_handshake (peer_at dev p)));
          dev = upd_peer p (\<lambda>q. q\<lparr>p_allowedips := allowedips_free (p_allowedips q)\<rparr>) dev
      in timers_close dev p)"

definition device_remove_peer :: "sodium \<Rightarrow> wg_device \<Rightarrow> peer_ref \<Rightarrow> wg_device" where
  "device_remove_peer sd dev p =
     (let dev = (if p \<in> set (d_peers dev)
                 then dev\<lparr>d_peers := remove1 p (d_peers dev), d_peer_count := d_peer_count dev - 1\<rparr> else dev)
      in peer_teardown sd dev p)"

definition device_remove_all_peers :: "sodium \<Rightarrow> wg_device \<Rightarrow> wg_device" where
  "device_remove_all_peers sd dev =
     fold (\<lambda>p dev. peer_teardown sd dev p) (d_peers dev) (dev\<lparr>d_peers := [], d_peer_count := 0\<rparr>)"

definition peer_get_current_keypair :: "wg_device \<Rightarrow> peer_ref \<Rightarrow> kp_ref option" where
  "peer_get_current_keypair dev p = p_current_keypair (peer_at dev p)"

section \<open>Sending\<close>

definition device_pad_packet :: "nat \<Rightarrow> nat" where
  "device_pad_packet pktlen =
     (if pktlen = 0 then 0
      else
        let padded = (pktlen + PADDING_MULTIPLE - 1) div PADDING_MULTIPLE * PADDING_MULTIPLE
        in if padded > WG_DEFAULT_MTU then WG_DEFAULT_MTU else padded)"

definition stage :: "bytes \<Rightarrow> wg_peer \<Rightarrow> wg_peer" where
  "stage pkt q =
     (if pkt = [] \<or> length pkt > WG_DEFAULT_MTU then q
      else if p_staged_count q < PEER_QUEUE_SIZE then
        let tail = p_staged_tail q
        in q\<lparr>p_staged_pkts := (p_staged_pkts q)(tail := put 0 pkt (p_staged_pkts q tail)),
             p_staged_lens := (p_staged_lens q)(tail := length pkt),
             p_staged_tail := (tail + 1) mod PEER_QUEUE_SIZE,
             p_staged_count := p_staged_count q + 1\<rparr>
      else q)"

definition peer_stage_packet :: "wg_device \<Rightarrow> peer_ref \<Rightarrow> bytes \<Rightarrow> wg_device" where
  "peer_stage_packet dev p pkt = upd_peer p (stage pkt) dev"

text \<open>The uninitialised stack structs \<^verbatim>\<open>msg\<close>, \<^verbatim>\<open>resp\<close> and \<^verbatim>\<open>reply\<close>.\<close>

definition initiation_stack :: msg_initiation where
  "initiation_stack = \<lparr>mi_type = 0, mi_sender = 0, mi_ephemeral = zeros 32, mi_static_enc = zeros 48,
     mi_timestamp_enc = zeros 28, mi_mac1 = zeros 16, mi_mac2 = zeros 16\<rparr>"

definition response_stack :: msg_response where
  "response_stack = \<lparr>mr_type = 0, mr_sender = 0, mr_receiver = 0, mr_ephemeral = zeros 32, mr_empty_enc = zeros 16,
     mr_mac1 = zeros 16, mr_mac2 = zeros 16\<rparr>"

definition cookie_reply_stack :: msg_cookie_reply where
  "cookie_reply_stack = \<lparr>mc_type = 0, mc_receiver = 0, mc_nonce = zeros 24, mc_cookie_enc = zeros 32\<rparr>"

definition device_initiate_handshake_inner :: "sodium \<Rightarrow> wg_device \<Rightarrow> peer_ref \<Rightarrow> bool \<Rightarrow> int \<times> wg_device" where
  "device_initiate_handshake_inner sd dev p force =
     (let now_ms = e_now dev
      in if \<not> force \<and> now_ms - hs_last_sent_handshake_ms (p_handshake (peer_at dev p)) < REKEY_TIMEOUT_MS
         then (0, dev)
         else
           let dev = upd_hs p (\<lambda>hs. hs\<lparr>hs_last_sent_handshake_ms := now_ms\<rparr>) dev;
               (ret, msg, dev) = noise_create_initiation sd dev p initiation_stack
           in if ret < 0 then (-1, dev)
              else if p_endpoint_len (peer_at dev p) = 0 then (-1, dev)
              else
                let ep = p_endpoint (peer_at dev p);
                    (ret, dev) = udp_send_copy dev ep (ss_family ep) (initiation_bytes msg);
                    dev = timers_handshake_initiated sd dev p
                in (if ret < 0 then -1 else 0, dev))"

definition device_initiate_handshake :: "sodium \<Rightarrow> wg_device \<Rightarrow> peer_ref \<Rightarrow> int \<times> wg_device" where
  "device_initiate_handshake sd dev p = device_initiate_handshake_inner sd dev p False"

definition device_initiate_handshake_force :: "sodium \<Rightarrow> wg_device \<Rightarrow> peer_ref \<Rightarrow> int \<times> wg_device" where
  "device_initiate_handshake_force sd dev p = device_initiate_handshake_inner sd dev p True"

definition timers_handshake_begin :: "sodium \<Rightarrow> wg_device \<Rightarrow> peer_ref \<Rightarrow> wg_device" where
  "timers_handshake_begin sd dev p =
     (if \<not> p_timers_active (peer_at dev p) then dev
      else if \<not> uv_is_active (p_timer_retransmit_handshake (peer_at dev p))
      then snd (device_initiate_handshake sd dev p)
      else dev)"

text \<open>The 12-byte AEAD nonce of a counter: four zero bytes and the counter, little-endian.\<close>

definition transport_nonce :: "u64 \<Rightarrow> bytes" where
  "transport_nonce counter = put 4 (le64 counter) (zeros WG_NONCE_LEN)"

definition device_send_to_peer :: "sodium \<Rightarrow> wg_device \<Rightarrow> peer_ref \<Rightarrow> bytes \<Rightarrow> int \<times> wg_device" where
  "device_send_to_peer sd dev p pkt =
    (if length pkt > WG_DEFAULT_MTU then (-1, dev) else
     let kp = p_current_keypair (peer_at dev p);
         kp = (if kp = None then p_next_keypair (peer_at dev p) else kp)
     in case kp of
       None \<Rightarrow>
         let dev = peer_stage_packet dev p pkt in (0, snd (device_initiate_handshake sd dev p))
     | Some k \<Rightarrow>
     if e_now dev - kp_created_at_ms (kp_at dev k) \<ge> REJECT_AFTER_TIME_MS then
       let dev = peer_stage_packet dev p pkt in (0, timers_handshake_begin sd dev p)
     else
     let nonce = kp_send_nonce (kp_at dev k);
         dev = upd_kp k (\<lambda>x. x\<lparr>kp_send_nonce := kp_send_nonce x + 1\<rparr>) dev
     in if nonce \<ge> REJECT_AFTER_MESSAGES then
       let dev = peer_stage_packet dev p pkt in (0, timers_handshake_begin sd dev p)
     else
     let dev = (if nonce \<ge> REKEY_AFTER_MESSAGES then timers_handshake_begin sd dev p else dev);
         padded = device_pad_packet (length pkt)
     in case tx_buffer_acquire dev of
       (None, dev) \<Rightarrow> (-1, dev)
     | (Some txb, dev) \<Rightarrow>
     let hdr = transport_hdr_bytes \<lparr>mt_type = MSG_TRANSPORT, mt_receiver = kp_remote_index (kp_at dev k), mt_counter = nonce\<rparr>;
         plaintext = put 0 pkt (zeros padded)
     in case wg_chacha20poly1305_encrypt sd (kp_send_key (kp_at dev k)) (transport_nonce nonce) plaintext [] of
       None \<Rightarrow> (-1, tx_buffer_release dev (Some txb))
     | Some ciphertext \<Rightarrow>
     let buf = hdr @ ciphertext
     in if p_endpoint_len (peer_at dev p) = 0 then (-1, tx_buffer_release dev (Some txb))
     else
     let ep = p_endpoint (peer_at dev p);
         (sent, dev) = udp_send_copy dev ep (ss_family ep) buf;
         dev = tx_buffer_release dev (Some txb);
         dev = (if sent < 0 then dev else upd_peer p (\<lambda>q. q\<lparr>p_tx_bytes := p_tx_bytes q + of_nat (length buf)\<rparr>) dev);
         dev = timers_data_sent dev p;
         dev = (if nonce \<ge> REKEY_AFTER_MESSAGES then timers_handshake_begin sd dev p else dev)
     in (0, dev))"

definition device_send_keepalive :: "sodium \<Rightarrow> wg_device \<Rightarrow> peer_ref \<Rightarrow> int \<times> wg_device" where
  "device_send_keepalive sd dev p = device_send_to_peer sd dev p []"

text \<open>\<open>enqueue\<close> is \<^verbatim>\<open>tcp_worker_enqueue_outbound\<close> of the worker component.\<close>

definition device_send_ip_packet :: "sodium \<Rightarrow> (wg_device \<Rightarrow> bytes \<Rightarrow> int \<times> wg_device) \<Rightarrow> wg_device \<Rightarrow> bytes \<Rightarrow> int \<times> wg_device" where
  "device_send_ip_packet sd enqueue dev pkt =
     (if d_socks5_mode dev \<and> d_tcp_worker dev then enqueue dev pkt
      else if length pkt < 20 then (-1, dev)
      else
        let version = drop_bit 4 (pkt ! 0)
        in if version = 4 then
             (case allowedips_lookup_v4 (d_allowedips dev) (slice 16 4 pkt) of
                None \<Rightarrow> (-1, dev) | Some p \<Rightarrow> device_send_to_peer sd dev p pkt)
           else if version = 6 then
             (if length pkt < 40 then (-1, dev)
              else case allowedips_lookup_v6 (d_allowedips dev) (slice 24 16 pkt) of
                None \<Rightarrow> (-1, dev) | Some p \<Rightarrow> device_send_to_peer sd dev p pkt)
           else (-1, dev))"

section \<open>Receiving\<close>

definition update_endpoint :: "wg_device \<Rightarrow> peer_ref \<Rightarrow> sockaddr_storage \<Rightarrow> wg_device" where
  "update_endpoint dev p src =
     upd_peer p (\<lambda>q. q\<lparr>p_endpoint := src, p_endpoint_len := (if ss_family src = AF_INET then 16 else 28)\<rparr>) dev"

definition pop_staged :: "wg_peer \<Rightarrow> wg_peer" where
  "pop_staged q = q\<lparr>p_staged_head := (p_staged_head q + 1) mod PEER_QUEUE_SIZE, p_staged_count := p_staged_count q - 1\<rparr>"

text \<open>The loop \<^verbatim>\<open>while (peer->staged_count > 0)\<close> of both handshake handlers.\<close>

partial_function (option) flush_staged :: "sodium \<Rightarrow> wg_device \<Rightarrow> peer_ref \<Rightarrow> wg_device option" where
  "flush_staged sd dev p =
     (if p_staged_count (peer_at dev p) > 0 then
        let head = p_staged_head (peer_at dev p);
            pkt = take (p_staged_lens (peer_at dev p) head) (p_staged_pkts (peer_at dev p) head);
            dev = upd_peer p pop_staged dev;
            (ret, dev) = device_send_to_peer sd dev p pkt
        in flush_staged sd dev p
      else Some dev)"

definition handle_initiation :: "sodium \<Rightarrow> wg_device \<Rightarrow> sockaddr_storage \<Rightarrow> bytes \<Rightarrow> wg_device option" where
  "handle_initiation sd dev src buf =
    (if length buf \<noteq> MSG_INITIATION_SIZE then Some dev else
     let msg = initiation_of buf;
         now_ms = e_now dev;
         under_load = (now_ms < d_under_load_until_ms dev);
         (mac_ret, cc, r) = cookie_validate_macs sd (d_cookie_checker dev) (e_rng dev) src buf INITIATION_MAC1 INITIATION_MAC2 now_ms under_load;
         dev = dev\<lparr>d_cookie_checker := cc, e_rng := r\<rparr>
     in if mac_ret < 0 then Some dev
     else if mac_ret = 1 then
       let (reply, cc, r) = cookie_create_reply sd (d_cookie_checker dev) (e_rng dev) src (mi_mac1 msg) (mi_sender msg) cookie_reply_stack now_ms;
           dev = dev\<lparr>d_cookie_checker := cc, e_rng := r\<rparr>
       in Some (snd (udp_send_copy dev src (ss_family src) (cookie_reply_bytes reply)))
     else case noise_consume_initiation sd dev msg of
       (None, dev) \<Rightarrow> Some dev
     | (Some p, dev) \<Rightarrow>
     let dev = update_endpoint dev p src;
         (ret, resp, dev) = noise_create_response sd dev p response_stack
     in if ret < 0 then Some dev
     else
     let dev = snd (udp_send_copy dev src (ss_family src) (response_bytes resp));
         (ret, dev) = noise_begin_session sd dev p
     in if ret < 0 then Some dev
     else flush_staged sd (timers_handshake_complete dev p) p)"

definition handle_response :: "sodium \<Rightarrow> wg_device \<Rightarrow> sockaddr_storage \<Rightarrow> bytes \<Rightarrow> wg_device option" where
  "handle_response sd dev src buf =
    (if length buf \<noteq> MSG_RESPONSE_SIZE then Some dev else
     let msg = response_of buf;
         now_ms = e_now dev;
         under_load = (now_ms < d_under_load_until_ms dev);
         (mac_ret, cc, r) = cookie_validate_macs sd (d_cookie_checker dev) (e_rng dev) src buf RESPONSE_MAC1 RESPONSE_MAC2 now_ms under_load;
         dev = dev\<lparr>d_cookie_checker := cc, e_rng := r\<rparr>
     in if mac_ret < 0 then Some dev
     else case noise_consume_response sd dev msg of
       (None, dev) \<Rightarrow> Some dev
     | (Some p, dev) \<Rightarrow>
     let dev = update_endpoint dev p src;
         (ret, dev) = noise_begin_session sd dev p
     in if ret < 0 then Some dev
     else
     let dev = timers_handshake_complete dev p;
         flushed = (p_staged_count (peer_at dev p) > 0)
     in case flush_staged sd dev p of
          None \<Rightarrow> None
        | Some dev \<Rightarrow> Some (if flushed then dev else snd (device_send_keepalive sd dev p)))"

definition handle_cookie_reply :: "sodium \<Rightarrow> wg_device \<Rightarrow> bytes \<Rightarrow> wg_device" where
  "handle_cookie_reply sd dev buf =
    (if length buf \<noteq> MSG_COOKIE_REPLY_SIZE then dev else
     let msg = cookie_reply_of buf
     in case index_table_lookup (d_index_table dev) (mc_receiver msg) of
       None \<Rightarrow> dev
     | Some entry \<Rightarrow>
     case ie_peer entry of
       None \<Rightarrow> dev
     | Some p \<Rightarrow>
     let (ret, cg) = cookie_consume_reply sd (p_cookie (peer_at dev p)) msg (e_now dev)
     in upd_peer p (\<lambda>q. q\<lparr>p_cookie := cg\<rparr>) dev)"

definition transport_plaintext_len :: "bytes \<Rightarrow> nat option" where
  "transport_plaintext_len plaintext =
     (let padded_len = length plaintext
      in if padded_len = 0 then Some 0
      else
        let version = drop_bit 4 (plaintext ! 0) AND 0xf
        in if version = 4 then
             (if padded_len < 20 then None
              else
                let ihl = unat (plaintext ! 0 AND 0x0f) * 4;
                    total_len = unat (of_be (slice 2 2 plaintext) :: u16)
                in if ihl < 20 \<or> total_len < ihl \<or> total_len > padded_len then None else Some total_len)
           else if version = 6 then
             (if padded_len < 40 then None
              else
                let total_len = 40 + unat (of_be (slice 4 2 plaintext) :: u16)
                in if total_len > padded_len then None else Some total_len)
           else None)"

text \<open>\<^verbatim>\<open>if (peer->next_keypair == kp)\<close>: the first packet under the next keypair confirms it.\<close>

definition confirm_keypair :: "sodium \<Rightarrow> wg_device \<Rightarrow> peer_ref \<Rightarrow> kp_ref \<Rightarrow> wg_device" where
  "confirm_keypair sd dev p k =
     (if p_next_keypair (peer_at dev p) = Some k then
        let old = p_prev_keypair (peer_at dev p);
            dev = upd_peer p (\<lambda>q. q\<lparr>p_prev_keypair := p_current_keypair q, p_current_keypair := Some k, p_next_keypair := None\<rparr>) dev
        in keypair_free sd dev old
      else dev)"

definition source_allowed :: "wg_device \<Rightarrow> peer_ref \<Rightarrow> bytes \<Rightarrow> bool" where
  "source_allowed dev p pt =
     (let version = drop_bit 4 (pt ! 0) AND 0xf
      in if version = 4 \<and> length pt \<ge> 20 then
           allowedips_lookup_v4 (p_allowedips (peer_at dev p)) (slice 12 4 pt) = Some p \<or>
           allowedips_lookup_v4 (d_allowedips dev) (slice 12 4 pt) = Some p
         else if version = 6 \<and> length pt \<ge> 40 then
           allowedips_lookup_v6 (p_allowedips (peer_at dev p)) (slice 8 16 pt) = Some p \<or>
           allowedips_lookup_v6 (d_allowedips dev) (slice 8 16 pt) = Some p
         else False)"

text \<open>The delivery of a decrypted packet to the TCP worker, the in-process stack or the TUN.\<close>

definition deliver :: "wg_device \<Rightarrow> peer_ref \<Rightarrow> bytes \<Rightarrow> wg_device" where
  "deliver dev p pt =
     (if pt \<noteq> [] then
        (if d_socks5_mode dev \<and> d_tcp_worker dev then dev\<lparr>e_worker_in := e_worker_in dev @ [pt]\<rparr>
         else if d_socks5_mode dev \<and> d_tcpstack dev then dev\<lparr>e_stack_in := e_stack_in dev @ [pt]\<rparr>
         else if source_allowed dev p pt then dev\<lparr>e_tun_out := e_tun_out dev @ [pt]\<rparr>
         else dev)
      else timers_keepalive_received dev p)"

definition handle_transport :: "sodium \<Rightarrow> wg_device \<Rightarrow> sockaddr_storage \<Rightarrow> bytes \<Rightarrow> wg_device" where
  "handle_transport sd dev src buf =
    (if length buf < MSG_TRANSPORT_SIZE then dev else
     let hdr = transport_hdr_of buf
     in case index_table_lookup (d_index_table dev) (mt_receiver hdr) of
       None \<Rightarrow> dev
     | Some entry \<Rightarrow>
     if ie_type entry \<noteq> IDX_KEYPAIR then dev else
     case (ie_keypair entry, ie_peer entry) of
       (Some k, Some p) \<Rightarrow>
     (let counter = mt_counter hdr
     in if \<not> replay_check (kp_replay (kp_at dev k)) counter REJECT_AFTER_MESSAGES then dev
     else case rx_buffer_acquire dev of
       (None, dev) \<Rightarrow> dev
     | (Some ptbuf, dev) \<Rightarrow>
     case wg_chacha20poly1305_decrypt sd (kp_recv_key (kp_at dev k)) (transport_nonce counter) (drop MSG_TRANSPORT_HDR_SIZE buf) [] of
       None \<Rightarrow> rx_buffer_release dev (Some ptbuf)
     | Some plaintext \<Rightarrow>
     let (ok, f) = replay_commit (kp_replay (kp_at dev k)) counter REJECT_AFTER_MESSAGES;
         dev = upd_kp k (\<lambda>x. x\<lparr>kp_replay := f\<rparr>) dev
     in if \<not> ok then rx_buffer_release dev (Some ptbuf)
     else case transport_plaintext_len plaintext of
       None \<Rightarrow> rx_buffer_release dev (Some ptbuf)
     | Some ptlen \<Rightarrow>
     let dev = upd_peer p (\<lambda>q. q\<lparr>p_rx_bytes := p_rx_bytes q + of_nat (length buf)\<rparr>) dev;
         dev = timers_data_received dev p;
         dev = confirm_keypair sd dev p k;
         dev = update_endpoint dev p src;
         dev = deliver dev p (take ptlen plaintext)
     in rx_buffer_release dev (Some ptbuf))
     | _ \<Rightarrow> dev)"

text \<open>\<open>rxbuf\<close> is the buffer \<^verbatim>\<open>on_udp_alloc\<close> provided, \<open>data\<close> its first \<^verbatim>\<open>nread\<close> bytes. Every
  branch ends by releasing it.\<close>

definition on_udp_alloc :: "wg_device \<Rightarrow> (buffer option \<times> nat) \<times> wg_device" where
  "on_udp_alloc dev =
     (let (rxbuf, dev) = rx_buffer_acquire dev
      in ((rxbuf, if rxbuf \<noteq> None then WG_RX_BUFFER_SIZE else 0), dev))"

definition on_udp_recv :: "sodium \<Rightarrow> wg_device \<Rightarrow> int \<Rightarrow> buffer option \<Rightarrow> bytes \<Rightarrow> sockaddr_storage option \<Rightarrow> wg_device option" where
  "on_udp_recv sd dev nread rxbuf data addr =
     (if nread < 0 then Some (udp_recv_buffer_release dev rxbuf)
      else if nread = 0 then Some (udp_recv_buffer_release dev rxbuf)
      else case addr of
        None \<Rightarrow> Some (udp_recv_buffer_release dev rxbuf)
      | Some src \<Rightarrow>
          if length data < 4 then Some (udp_recv_buffer_release dev rxbuf)
          else
            let msg_type = (of_le (slice 0 4 data) :: u32);
                r = (if msg_type = MSG_INITIATION then handle_initiation sd dev src data
                     else if msg_type = MSG_RESPONSE then handle_response sd dev src data
                     else if msg_type = MSG_COOKIE_REPLY then Some (handle_cookie_reply sd dev data)
                     else if msg_type = MSG_TRANSPORT then Some (handle_transport sd dev src data)
                     else Some dev)
            in case r of None \<Rightarrow> None | Some dev \<Rightarrow> Some (udp_recv_buffer_release dev rxbuf))"

text \<open>\<open>pkts\<close> are the packets \<^verbatim>\<open>tun_read\<close> returns before it would block.\<close>

definition tun_packet :: "sodium \<Rightarrow> bytes \<Rightarrow> wg_device \<Rightarrow> wg_device" where
  "tun_packet sd buf dev =
     (let peer =
        (if buf = [] then None
         else
           let version = drop_bit 4 (buf ! 0) AND 0xf
           in if version = 4 \<and> length buf \<ge> 20 then allowedips_lookup_v4 (d_allowedips dev) (slice 16 4 buf)
              else if version = 6 \<and> length buf \<ge> 40 then allowedips_lookup_v6 (d_allowedips dev) (slice 24 16 buf)
              else None)
      in case peer of None \<Rightarrow> dev | Some p \<Rightarrow> snd (device_send_to_peer sd dev p buf))"

definition on_tun_readable :: "sodium \<Rightarrow> wg_device \<Rightarrow> int \<Rightarrow> bytes list \<Rightarrow> wg_device" where
  "on_tun_readable sd dev status pkts = (if status < 0 then dev else fold (tun_packet sd) pkts dev)"

section \<open>Timer callbacks\<close>

definition cb_retransmit_handshake :: "sodium \<Rightarrow> wg_device \<Rightarrow> peer_ref \<Rightarrow> wg_device" where
  "cb_retransmit_handshake sd dev p =
     (let attempts = p_handshake_attempts (peer_at dev p);
          dev = upd_peer p (\<lambda>q. q\<lparr>p_handshake_attempts := p_handshake_attempts q + 1\<rparr>) dev
      in if attempts \<ge> MAX_TIMER_HANDSHAKES then
           let dev = upd_peer p (\<lambda>q. q\<lparr>p_timer_retransmit_handshake := uv_timer_stop (p_timer_retransmit_handshake q),
                                       p_handshake_attempts := 0\<rparr>) dev
           in timers_zero_key_material dev p
         else
           let dev = snd (device_initiate_handshake_force sd dev p)
           in start_retransmit sd dev p)"

definition cb_send_keepalive :: "sodium \<Rightarrow> wg_device \<Rightarrow> peer_ref \<Rightarrow> wg_device" where
  "cb_send_keepalive sd dev p =
     (let dev = snd (device_send_keepalive sd dev p)
      in if p_need_another_keepalive (peer_at dev p)
         then upd_peer p (\<lambda>q. q\<lparr>p_need_another_keepalive := False,
                p_timer_send_keepalive := uv_timer_start (e_now dev) KEEPALIVE_TIMEOUT_MS (p_timer_send_keepalive q)\<rparr>) dev
         else dev)"

definition cb_new_handshake :: "sodium \<Rightarrow> wg_device \<Rightarrow> peer_ref \<Rightarrow> wg_device" where
  "cb_new_handshake sd dev p = snd (device_initiate_handshake sd dev p)"

definition cb_zero_key_material :: "sodium \<Rightarrow> wg_device \<Rightarrow> peer_ref \<Rightarrow> wg_device" where
  "cb_zero_key_material sd dev p =
     (let dev = free_keypairs sd dev p;
          dev = dev_index_delete dev (hs_local_index (p_handshake (peer_at dev p)))
      in upd_hs p (noise_handshake_clear sd) dev)"

definition cb_persistent_keepalive :: "sodium \<Rightarrow> wg_device \<Rightarrow> peer_ref \<Rightarrow> wg_device" where
  "cb_persistent_keepalive sd dev p =
     (let dev = snd (device_send_keepalive sd dev p);
          interval = p_persistent_keepalive_ms (peer_at dev p)
      in if interval \<noteq> 0
         then upd_peer p (\<lambda>q. q\<lparr>p_timer_persistent_keepalive :=
                uv_timer_start (e_now dev) (ucast interval) (p_timer_persistent_keepalive q)\<rparr>) dev
         else dev)"

section \<open>Initialisation\<close>

text \<open>\<open>memset(dev, 0, ...)\<close> and the three node arrays; the environment is kept. The first
  boolean of each \<^verbatim>\<open>calloc\<close> decides.\<close>

definition device_clear :: "wg_device \<Rightarrow> wg_device" where
  "device_clear dev = dev\<lparr>d_private_key := zeros 32, d_public_key := zeros 32, d_peers := [], d_peer_count := 0,
     d_listen_port := 0, d_fwmark := 0, d_allowedips := allowedips_init,
     d_index_table := \<lparr>it_entries = \<lambda>_. entry_zero, it_occupied = \<lambda>_. False\<rparr>, d_cookie_checker := cookie_checker_zero,
     d_under_load_until_ms := 0, d_udp6_active := False, d_noise_init_chain_key := zeros 32, d_noise_init_hash := zeros 32,
     d_socks5_mode := False, d_tcp_worker := False, d_tcpstack := False, d_tun_fd := -1,
     d_tx_buffer_pool := [], d_udp_send_req_pool := [], d_rx_buffer_pool := []\<rparr>"

definition device_init :: "wg_device \<Rightarrow> int \<times> wg_device" where
  "device_init dev =
     (let dev = device_clear dev
      in case calloc dev of (None, dev) \<Rightarrow> (-1, dev) | (Some _, dev) \<Rightarrow>
     let dev = dev\<lparr>d_tx_buffer_pool := pool_init WG_BUFFER_POOL_SIZE\<rparr>
      in case calloc dev of (None, dev) \<Rightarrow> (-1, dev) | (Some _, dev) \<Rightarrow>
     let dev = dev\<lparr>d_udp_send_req_pool := pool_init WG_BUFFER_POOL_SIZE\<rparr>
      in case calloc dev of (None, dev) \<Rightarrow> (-1, dev) | (Some _, dev) \<Rightarrow>
     let dev = dev\<lparr>d_rx_buffer_pool := pool_init WG_BUFFER_POOL_SIZE\<rparr>;
         dev = dev\<lparr>d_index_table := index_table_init (d_index_table dev), d_allowedips := allowedips_init\<rparr>
      in (0, noise_init_device dev))"

definition device_free :: "sodium \<Rightarrow> wg_device \<Rightarrow> wg_device" where
  "device_free sd dev =
     (let dev = device_remove_all_peers sd dev
      in dev\<lparr>d_allowedips := allowedips_free (d_allowedips dev), d_tx_buffer_pool := [], d_udp_send_req_pool := [],
             d_rx_buffer_pool := []\<rparr>)"

end
