(* ===== verification/Device_Inv.thy ===== *)
theory Device_Inv
  imports Device Handshake
begin

text \<open>
  Memory safety of the device: an invariant that ties the index table, the keypair
  pointers of the peers, the routing table and the heap together, and its preservation
  by every callback and configuration call. It says that no table entry, route or
  keypair pointer dangles, that no keypair has two owners and that none is leaked.
\<close>

section \<open>The invariant\<close>

text \<open>What the invariant reads of a peer: its three keypair pointers and its handshake index.\<close>

type_synonym peer_view = "kp_ref option \<times> kp_ref option \<times> kp_ref option \<times> u32"

definition view :: "wg_peer \<Rightarrow> peer_view" where
  "view q = (p_current_keypair q, p_next_keypair q, p_prev_keypair q, hs_local_index (p_handshake q))"

fun kps :: "peer_view option \<Rightarrow> kp_ref list" where
  "kps None = []"
| "kps (Some (c, n, r, i)) = concat (map (\<lambda>x. case x of None \<Rightarrow> [] | Some k \<Rightarrow> [k]) [c, n, r])"

fun hs_idx :: "peer_view option \<Rightarrow> u32" where
  "hs_idx None = 0"
| "hs_idx (Some (c, n, r, i)) = i"

text \<open>\<open>X\<close> is the set of keypairs in flight: allocated but not yet, or no longer, owned by a peer.
  Between callbacks it is empty.\<close>

definition entry_ok :: "(peer_ref \<Rightarrow> peer_view option) \<Rightarrow> (kp_ref \<Rightarrow> u32 option) \<Rightarrow> kp_ref set \<Rightarrow> u32 \<Rightarrow> index_entry \<Rightarrow> peer_ref \<Rightarrow> bool" where
  "entry_ok V K X i e p \<longleftrightarrow>
     (case ie_type e of
        IDX_HANDSHAKE \<Rightarrow> ie_handshake e = Some p \<and> hs_idx (V p) = i
      | IDX_KEYPAIR \<Rightarrow> (\<exists>k \<in> set (kps (V p)) \<union> X. ie_keypair e = Some k \<and> K k = Some i))"

definition core_inv :: "peer_ref list \<Rightarrow> (u32 \<Rightarrow> index_entry option) \<Rightarrow> (peer_ref \<Rightarrow> peer_view option) \<Rightarrow>
    (kp_ref \<Rightarrow> u32 option) \<Rightarrow> nat \<Rightarrow> kp_ref set \<Rightarrow> bool" where
  "core_inv P L V K b X \<longleftrightarrow>
     distinct P \<and> (\<forall>p \<in> set P. V p \<noteq> None) \<and> (\<forall>p \<in> set P. distinct (kps (V p)) \<and> set (kps (V p)) \<inter> X = {}) \<and>
     (\<forall>p \<in> set P. \<forall>p' \<in> set P. p \<noteq> p' \<longrightarrow> set (kps (V p)) \<inter> set (kps (V p')) = {}) \<and>
     (\<forall>k. K k \<noteq> None \<longleftrightarrow> k \<in> X \<or> (\<exists>p \<in> set P. k \<in> set (kps (V p)))) \<and>
     (\<forall>i e. L i = Some e \<longrightarrow> i \<noteq> 0 \<and> (\<exists>p \<in> set P. ie_peer e = Some p \<and> entry_ok V K X i e p)) \<and>
     (\<forall>k. K k \<noteq> None \<longrightarrow> k < b) \<and> (\<forall>p. V p \<noteq> None \<longrightarrow> p < b)"

definition views :: "wg_device \<Rightarrow> peer_ref \<Rightarrow> peer_view option" where
  "views dev p = map_option view (peer_mem dev p)"

definition kp_idx :: "wg_device \<Rightarrow> kp_ref \<Rightarrow> u32 option" where
  "kp_idx dev k = map_option kp_local_index (kp_mem dev k)"

definition heap_inv :: "kp_ref set \<Rightarrow> wg_device \<Rightarrow> bool" where
  "heap_inv X dev \<longleftrightarrow> core_inv (d_peers dev) (index_table_lookup (d_index_table dev)) (views dev) (kp_idx dev) (e_brk dev) X"

text \<open>Every configured route leads to a peer of the list.\<close>

definition routes_inv :: "wg_device \<Rightarrow> bool" where
  "routes_inv dev \<longleftrightarrow> allowedips_inv (d_allowedips dev) \<and>
     (\<forall>q p. routes (root4 (d_allowedips dev)) q = Some p \<or> routes (root6 (d_allowedips dev)) q = Some p \<longrightarrow> p \<in> set (d_peers dev))"

section \<open>Atomic changes of the core\<close>

lemma core_inv_brk: "core_inv P L V K b X \<Longrightarrow> b \<le> b' \<Longrightarrow> core_inv P L V K b' X"
  unfolding core_inv_def by (meson less_le_trans)

lemma core_invD:
  assumes "core_inv P L V K b X"
  shows "distinct P" "p \<in> set P \<Longrightarrow> V p \<noteq> None" "p \<in> set P \<Longrightarrow> distinct (kps (V p))"
    "p \<in> set P \<Longrightarrow> set (kps (V p)) \<inter> X = {}"
    "p \<in> set P \<Longrightarrow> p' \<in> set P \<Longrightarrow> p \<noteq> p' \<Longrightarrow> set (kps (V p)) \<inter> set (kps (V p')) = {}"
    "K k \<noteq> None \<longleftrightarrow> k \<in> X \<or> (\<exists>p \<in> set P. k \<in> set (kps (V p)))"
    "L i = Some e \<Longrightarrow> i \<noteq> 0" "L i = Some e \<Longrightarrow> \<exists>p \<in> set P. ie_peer e = Some p \<and> entry_ok V K X i e p"
    "K k \<noteq> None \<Longrightarrow> k < b" "V p \<noteq> None \<Longrightarrow> p < b"
  using assms unfolding core_inv_def by blast+

lemma core_invI:
  assumes "distinct P" "\<And>p. p \<in> set P \<Longrightarrow> V p \<noteq> None" "\<And>p. p \<in> set P \<Longrightarrow> distinct (kps (V p))"
    "\<And>p. p \<in> set P \<Longrightarrow> set (kps (V p)) \<inter> X = {}"
    "\<And>p p'. p \<in> set P \<Longrightarrow> p' \<in> set P \<Longrightarrow> p \<noteq> p' \<Longrightarrow> set (kps (V p)) \<inter> set (kps (V p')) = {}"
    "\<And>k. K k \<noteq> None \<longleftrightarrow> k \<in> X \<or> (\<exists>p \<in> set P. k \<in> set (kps (V p)))"
    "\<And>i e. L i = Some e \<Longrightarrow> i \<noteq> 0 \<and> (\<exists>p \<in> set P. ie_peer e = Some p \<and> entry_ok V K X i e p)"
    "\<And>k. K k \<noteq> None \<Longrightarrow> k < b" "\<And>p. V p \<noteq> None \<Longrightarrow> p < b"
  shows "core_inv P L V K b X"
  using assms unfolding core_inv_def by simp

lemma core_inv_sub:
  assumes "core_inv P L V K b X" "L' \<subseteq>\<^sub>m L"
  shows "core_inv P L' V K b X"
proof -
  have "L i = Some e" if "L' i = Some e" for i e using assms(2) that by (metis domI map_le_def)
  note d = core_invD [OF assms(1)] and d7 = core_invD(7,8) [OF assms(1) this]
  show ?thesis
    by (rule core_invI, rule d(1), erule d(2), erule d(3), erule d(4), erule (2) d(5), rule d(6),
      rule conjI, erule d7(1), erule d7(2), erule d(9), erule d(10))
qed

text \<open>A fresh keypair is in flight.\<close>

lemma core_inv_alloc:
  assumes "core_inv P L V K b X"
  shows "core_inv P L V (K(b \<mapsto> i)) (Suc b) (insert b X)"
proof -
  note d = core_invD [OF assms]
  have "K b = None" using d(9) [of b] by blast
  then have no: "K b = None" "b \<notin> X" "\<And>p. p \<in> set P \<Longrightarrow> b \<notin> set (kps (V p))" using d(6) [of b] by auto
  have "entry_ok V (K(b \<mapsto> i)) (insert b X) j e p" if "entry_ok V K X j e p" "p \<in> set P" for j e p
    using that no by (auto simp: entry_ok_def split: idx_type.splits)
  then have L: "j \<noteq> 0 \<and> (\<exists>p \<in> set P. ie_peer e = Some p \<and> entry_ok V (K(b \<mapsto> i)) (insert b X) j e p)" if "L j = Some e" for j e
    using d(7,8) [OF that] by blast
  have K: "(K(b \<mapsto> i)) k \<noteq> None \<longleftrightarrow> k \<in> insert b X \<or> (\<exists>p \<in> set P. k \<in> set (kps (V p)))" for k
    using d(6) [of k] by auto
  have X: "set (kps (V p)) \<inter> insert b X = {}" if "p \<in> set P" for p using d(4) [OF that] no(3) [OF that] by auto
  have B: "k < Suc b" if "(K(b \<mapsto> i)) k \<noteq> None" for k using d(9) [of k] that by (auto simp: less_Suc_eq split: if_splits)
  have B': "p < Suc b" if "V p \<noteq> None" for p using d(10) [OF that] by simp
  show ?thesis
    by (rule core_invI, rule d(1), erule d(2), erule d(3), erule X, erule (2) d(5), rule K, erule L, erule B, erule B')
qed

text \<open>A keypair in flight is deleted from the table and freed.\<close>

lemma core_inv_free:
  assumes "core_inv P L V K b X" "k \<in> X" "K k = Some i"
  shows "core_inv P (L(i := None)) V (K(k := None)) b (X - {k})"
proof -
  note d = core_invD [OF assms(1)]
  have no: "k \<notin> set (kps (V p))" if "p \<in> set P" for p using d(4) [OF that] assms(2) by blast
  have e: "entry_ok V (K(k := None)) (X - {k}) j e p" if h: "j \<noteq> i" "entry_ok V K X j e p" "p \<in> set P" for j e p
  proof (cases "ie_type e")
    case IDX_HANDSHAKE
    then show ?thesis using h by (simp add: entry_ok_def)
  next
    case IDX_KEYPAIR
    then obtain k' where "k' \<in> set (kps (V p)) \<union> X" "ie_keypair e = Some k'" "K k' = Some j" using h by (auto simp: entry_ok_def)
    moreover from this h(1) assms(3) have "k' \<noteq> k" by auto
    ultimately show ?thesis using IDX_KEYPAIR by (auto simp: entry_ok_def)
  qed
  have L: "j \<noteq> 0 \<and> (\<exists>p \<in> set P. ie_peer e = Some p \<and> entry_ok V (K(k := None)) (X - {k}) j e p)" if "(L(i := None)) j = Some e" for j e
  proof -
    from that have j: "L j = Some e" "j \<noteq> i" by (auto split: if_splits)
    from d(8) [OF j(1)] obtain p where "p \<in> set P" "ie_peer e = Some p" "entry_ok V K X j e p" by blast
    with e [OF j(2)] d(7) [OF j(1)] show ?thesis by blast
  qed
  have K: "(K(k := None)) j \<noteq> None \<longleftrightarrow> j \<in> X - {k} \<or> (\<exists>p \<in> set P. j \<in> set (kps (V p)))" for j
    using d(6) [of j] no by auto
  have X: "set (kps (V p)) \<inter> (X - {k}) = {}" if "p \<in> set P" for p using d(4) [OF that] by blast
  have B: "j < b" if "(K(k := None)) j \<noteq> None" for j using d(9) [of j] that by (auto split: if_splits)
  show ?thesis
    by (rule core_invI, rule d(1), erule d(2), erule d(3), erule X, erule (2) d(5), rule K, erule L, erule B, erule d(10))
qed

text \<open>A peer's pointers change: keypairs it drops become in flight, those it takes stop being so.\<close>

lemma core_inv_view:
  assumes "core_inv P L V K b X" "p \<in> set P" "distinct (kps (Some v))"
    and "set (kps (Some v)) \<subseteq> set (kps (V p)) \<union> X"
    and "X' = (X \<union> set (kps (V p))) - set (kps (Some v))"
    and "hs_idx (Some v) = hs_idx (V p) \<or> (\<forall>i e. L i = Some e \<longrightarrow> ie_type e = IDX_HANDSHAKE \<longrightarrow> ie_peer e \<noteq> Some p)"
    and "\<And>i e k. L i = Some e \<Longrightarrow> ie_type e = IDX_KEYPAIR \<Longrightarrow> ie_keypair e = Some k \<Longrightarrow> k \<in> X \<Longrightarrow> k \<in> set (kps (Some v)) \<Longrightarrow>
      ie_peer e = Some p"
  shows "core_inv P L (V(p \<mapsto> v)) K b X'"
proof -
  note d = core_invD [OF assms(1)]
  let ?V = "V(p \<mapsto> v)"
  have dis: "set (kps (V p)) \<inter> X = {}" "\<And>p'. p' \<in> set P \<Longrightarrow> p' \<noteq> p \<Longrightarrow> set (kps (V p')) \<inter> (set (kps (V p)) \<union> X) = {}"
    using d(4,5) assms(2) by blast+
  have ent: "entry_ok ?V K X' i e p'" if h: "entry_ok V K X i e p'" "L i = Some e" "p' \<in> set P" "ie_peer e = Some p'" for i e p'
  proof (cases "ie_type e")
    case IDX_HANDSHAKE
    then show ?thesis using h assms(6) by (cases "p' = p") (auto simp: entry_ok_def)
  next
    case IDX_KEYPAIR
    then obtain k where k: "k \<in> set (kps (V p')) \<union> X" "ie_keypair e = Some k" "K k = Some i" using h by (auto simp: entry_ok_def)
    have "k \<in> set (kps (?V p')) \<union> X'"
      using k(1) assms(5) assms(7) [OF h(2) IDX_KEYPAIR k(2)] h(4) dis(1) by (cases "p' = p") auto
    then show ?thesis using IDX_KEYPAIR k by (auto simp: entry_ok_def)
  qed
  have L: "i \<noteq> 0 \<and> (\<exists>q \<in> set P. ie_peer e = Some q \<and> entry_ok ?V K X' i e q)" if le: "L i = Some e" for i e
  proof -
    from d(8) [OF le] obtain q where "q \<in> set P" "ie_peer e = Some q" "entry_ok V K X i e q" by blast
    with ent [OF _ le] d(7) [OF le] show ?thesis by blast
  qed
  have K: "K k \<noteq> None \<longleftrightarrow> k \<in> X' \<or> (\<exists>q \<in> set P. k \<in> set (kps (?V q)))" for k
  proof -
    have "(\<exists>q \<in> set P. k \<in> set (kps (?V q))) \<longleftrightarrow> k \<in> set (kps (Some v)) \<or> (\<exists>q \<in> set P. q \<noteq> p \<and> k \<in> set (kps (V q)))"
      using assms(2) by auto
    moreover have "(\<exists>q \<in> set P. k \<in> set (kps (V q))) \<longleftrightarrow> k \<in> set (kps (V p)) \<or> (\<exists>q \<in> set P. q \<noteq> p \<and> k \<in> set (kps (V q)))"
      using assms(2) by auto
    ultimately show ?thesis unfolding d(6) using assms(4,5) by blast
  qed
  have D: "distinct (kps (?V q))" "set (kps (?V q)) \<inter> X' = {}" if q: "q \<in> set P" for q
    using d(3) [OF q] dis(2) [OF q] assms(3,5) by (cases "q = p"; auto)+
  have S: "set (kps (?V q)) \<inter> set (kps (?V q')) = {}" if q: "q \<in> set P" "q' \<in> set P" "q \<noteq> q'" for q q'
    using d(5) [OF q] dis(2) [OF q(1)] dis(2) [OF q(2)] assms(4) q(3) by (cases "q = p"; cases "q' = p") auto
  have N: "?V q \<noteq> None" if "q \<in> set P" for q using d(2) [OF that] by (cases "q = p") (simp_all only: fun_upd_same fun_upd_other option.distinct not_False_eq_True)
  have B: "q < b" if "?V q \<noteq> None" for q using d(10) [of q] d(10) [OF d(2) [OF assms(2)]] that by (cases "q = p") simp_all
  show ?thesis
    by (rule core_invI, rule d(1), erule N, erule D(1), erule D(2), erule (2) S, rule K, erule L, erule d(9), erule B)
qed

text \<open>The handshake entry of a peer is turned into the entry of a keypair in flight.\<close>

lemma core_inv_swap:
  assumes "core_inv P L V K b X" "L i = Some e" "k \<in> X" "K k = Some i"
  shows "core_inv P (L(i \<mapsto> e\<lparr>ie_type := IDX_KEYPAIR, ie_keypair := Some k\<rparr>)) V K b X"
proof -
  note d = core_invD [OF assms(1)]
  have L: "j \<noteq> 0 \<and> (\<exists>p \<in> set P. ie_peer e' = Some p \<and> entry_ok V K X j e' p)"
    if "(L(i \<mapsto> e\<lparr>ie_type := IDX_KEYPAIR, ie_keypair := Some k\<rparr>)) j = Some e'" for j e'
  proof (cases "j = i")
    case True
    with that have e': "e' = e\<lparr>ie_type := IDX_KEYPAIR, ie_keypair := Some k\<rparr>" by simp
    obtain p where "p \<in> set P" "ie_peer e = Some p" using d(8) [OF assms(2)] by blast
    then show ?thesis using d(7) [OF assms(2)] assms(3,4) True by (auto simp: e' entry_ok_def)
  next
    case False
    then show ?thesis using that d(7,8) [of j e'] by simp
  qed
  show ?thesis
    by (rule core_invI, rule d(1), erule d(2), erule d(3), erule d(4), erule (2) d(5), rule d(6), erule L, erule d(9), erule d(10))
qed

lemma core_inv_new:
  assumes "core_inv P L V K b X" "p \<in> set P" "i \<noteq> 0" "hs_idx (V p) = i"
    and "e = \<lparr>ie_type = IDX_HANDSHAKE, ie_index = i, ie_peer = Some p, ie_handshake = Some p, ie_keypair = None\<rparr>"
  shows "core_inv P (L(i \<mapsto> e)) V K b X"
proof -
  note d = core_invD [OF assms(1)]
  have L: "j \<noteq> 0 \<and> (\<exists>p \<in> set P. ie_peer e' = Some p \<and> entry_ok V K X j e' p)" if "(L(i \<mapsto> e)) j = Some e'" for j e'
  proof (cases "j = i")
    case True
    with that have "e' = e" by simp
    then show ?thesis using assms(2-5) True by (simp add: entry_ok_def)
  next
    case False
    then show ?thesis using that d(7,8) [of j e'] by simp
  qed
  show ?thesis
    by (rule core_invI, rule d(1), erule d(2), erule d(3), erule d(4), erule (2) d(5), rule d(6), erule L, erule d(9), erule d(10))
qed

text \<open>A peer is added, removed (once nothing refers to it) and its memory freed.\<close>

lemma core_inv_add:
  assumes "core_inv P L V K b X"
  shows "core_inv (b # P) L (V(b \<mapsto> (None, None, None, 0))) K (Suc b) X"
proof -
  note d = core_invD [OF assms]
  let ?V = "V(b \<mapsto> (None, None, None, 0))"
  have b: "b \<notin> set P" using d(2) [of b] d(10) [of b] by blast
  then have same: "?V p = V p" if "p \<in> set P" for p using that by auto
  have kb: "kps (?V b) = []" by simp
  have L: "i \<noteq> 0 \<and> (\<exists>p \<in> set (b # P). ie_peer e = Some p \<and> entry_ok ?V K X i e p)" if "L i = Some e" for i e
  proof -
    from d(8) [OF that] obtain p where p: "p \<in> set P" "ie_peer e = Some p" "entry_ok V K X i e p" by blast
    then have "entry_ok ?V K X i e p" using same [OF p(1)] by (simp only: entry_ok_def)
    then show ?thesis using p(1,2) d(7) [OF that] by auto
  qed
  have K: "K k \<noteq> None \<longleftrightarrow> k \<in> X \<or> (\<exists>p \<in> set (b # P). k \<in> set (kps (?V p)))" for k
    unfolding d(6) using same kb by auto
  show ?thesis
  proof (rule core_invI)
    show "distinct (b # P)" using b d(1) by simp
    show "?V p \<noteq> None" if "p \<in> set (b # P)" for p using that d(2) [of p] by (cases "p = b") auto
    show "distinct (kps (?V p))" "set (kps (?V p)) \<inter> X = {}" if "p \<in> set (b # P)" for p
      using that d(3,4) [of p] kb by (cases "p = b"; simp)+
    show "set (kps (?V p)) \<inter> set (kps (?V p')) = {}" if "p \<in> set (b # P)" "p' \<in> set (b # P)" "p \<noteq> p'" for p p'
      using that d(5) [of p p'] kb by (cases "p = b"; cases "p' = b") auto
    show "K k \<noteq> None \<longleftrightarrow> k \<in> X \<or> (\<exists>p \<in> set (b # P). k \<in> set (kps (?V p)))" for k by (rule K)
    show "i \<noteq> 0 \<and> (\<exists>p \<in> set (b # P). ie_peer e = Some p \<and> entry_ok ?V K X i e p)" if "L i = Some e" for i e by (rule L [OF that])
    show "k < Suc b" if "K k \<noteq> None" for k using d(9) [OF that] by simp
    show "p < Suc b" if "?V p \<noteq> None" for p using d(10) [of p] that by (cases "p = b") auto
  qed
qed

lemma core_inv_remove:
  assumes "core_inv P L V K b X" "kps (V p) = []" "\<And>i e. L i = Some e \<Longrightarrow> ie_peer e \<noteq> Some p"
  shows "core_inv (remove1 p P) L V K b X"
proof -
  note d = core_invD [OF assms(1)]
  have set: "set (remove1 p P) = set P - {p}" using d(1) by (rule set_remove1_eq)
  show ?thesis
  proof (rule core_invI)
    show "distinct (remove1 p P)" using d(1) by simp
    show "V q \<noteq> None" "distinct (kps (V q))" "set (kps (V q)) \<inter> X = {}" if "q \<in> set (remove1 p P)" for q
      using that d(2-4) [of q] unfolding set by blast+
    show "set (kps (V q)) \<inter> set (kps (V q')) = {}" if "q \<in> set (remove1 p P)" "q' \<in> set (remove1 p P)" "q \<noteq> q'" for q q'
      using that d(5) [of q q'] unfolding set by blast
    show "K k \<noteq> None \<longleftrightarrow> k \<in> X \<or> (\<exists>q \<in> set (remove1 p P). k \<in> set (kps (V q)))" for k
      unfolding d(6) set using assms(2) by (metis Diff_iff empty_iff empty_set insert_iff)
    show "i \<noteq> 0 \<and> (\<exists>q \<in> set (remove1 p P). ie_peer e = Some q \<and> entry_ok V K X i e q)" if "L i = Some e" for i e
      using d(7,8) [OF that] assms(3) [OF that] unfolding set by blast
    show "k < b" if "K k \<noteq> None" for k using d(9) [OF that] .
    show "q < b" if "V q \<noteq> None" for q using d(10) [OF that] .
  qed
qed

lemma core_inv_free_peer:
  assumes "core_inv P L V K b X" "p \<notin> set P"
  shows "core_inv P L (V(p := None)) K b X"
proof -
  note d = core_invD [OF assms(1)]
  have same: "(V(p := None)) q = V q" if "q \<in> set P" for q using that assms(2) by auto
  have L: "i \<noteq> 0 \<and> (\<exists>q \<in> set P. ie_peer e = Some q \<and> entry_ok (V(p := None)) K X i e q)" if le: "L i = Some e" for i e
  proof -
    from d(8) [OF le] obtain q where q: "q \<in> set P" "ie_peer e = Some q" "entry_ok V K X i e q" by blast
    then have "entry_ok (V(p := None)) K X i e q" using same [OF q(1)] by (simp only: entry_ok_def)
    then show ?thesis using q(1,2) d(7) [OF le] by blast
  qed
  show ?thesis
  proof (rule core_invI)
    show "(V(p := None)) q \<noteq> None" "distinct (kps ((V(p := None)) q))" "set (kps ((V(p := None)) q)) \<inter> X = {}" if "q \<in> set P" for q
      using d(2-4) [OF that] unfolding same [OF that] by blast+
    show "set (kps ((V(p := None)) q)) \<inter> set (kps ((V(p := None)) q')) = {}" if "q \<in> set P" "q' \<in> set P" "q \<noteq> q'" for q q'
      using d(5) [OF that] unfolding same [OF that(1)] same [OF that(2)] .
    show "K k \<noteq> None \<longleftrightarrow> k \<in> X \<or> (\<exists>q \<in> set P. k \<in> set (kps ((V(p := None)) q)))" for k
      unfolding d(6) using same by (metis (no_types))
    show "q < b" if "(V(p := None)) q \<noteq> None" for q using d(10) [of q] that by (auto split: if_splits)
  qed (rule d(1), erule L, erule d(9))
qed

section \<open>Calls that do not touch the core\<close>

lemma views_cong: "peer_mem dev' = peer_mem dev \<Longrightarrow> views dev' = views dev"
  by (simp add: views_def fun_eq_iff)

lemma kp_idx_cong: "kp_mem dev' = kp_mem dev \<Longrightarrow> kp_idx dev' = kp_idx dev"
  by (simp add: kp_idx_def fun_eq_iff)

lemma views_updates [simp]:
  "views (dev\<lparr>d_index_table := t\<rparr>) = views dev" "views (dev\<lparr>e_rng := r\<rparr>) = views dev" "views (dev\<lparr>kp_mem := m\<rparr>) = views dev"
  "views (dev\<lparr>d_peers := P\<rparr>) = views dev" "views (dev\<lparr>d_allowedips := a\<rparr>) = views dev" "views (dev\<lparr>d_peer_count := n\<rparr>) = views dev"
  "views (dev\<lparr>e_brk := b\<rparr>) = views dev" "views (dev\<lparr>e_calloc := c\<rparr>) = views dev" "views (dev\<lparr>e_clock := k\<rparr>) = views dev"
  by (rule views_cong, simp)+

lemma kp_idx_updates [simp]:
  "kp_idx (dev\<lparr>d_index_table := t\<rparr>) = kp_idx dev" "kp_idx (dev\<lparr>e_rng := r\<rparr>) = kp_idx dev" "kp_idx (dev\<lparr>peer_mem := m\<rparr>) = kp_idx dev"
  "kp_idx (dev\<lparr>d_peers := P\<rparr>) = kp_idx dev" "kp_idx (dev\<lparr>d_allowedips := a\<rparr>) = kp_idx dev" "kp_idx (dev\<lparr>d_peer_count := n\<rparr>) = kp_idx dev"
  "kp_idx (dev\<lparr>e_brk := b\<rparr>) = kp_idx dev" "kp_idx (dev\<lparr>e_calloc := c\<rparr>) = kp_idx dev" "kp_idx (dev\<lparr>e_clock := k\<rparr>) = kp_idx dev"
  by (rule kp_idx_cong, simp)+

text \<open>A peer whose timer handles have all been closed. No call but the teardown closes them, and none reopens them.\<close>

definition closed :: "wg_peer \<Rightarrow> bool" where
  "closed q \<longleftrightarrow> (\<forall>t \<in> {p_timer_retransmit_handshake q, p_timer_send_keepalive q, p_timer_new_handshake q,
     p_timer_zero_key_material q, p_timer_persistent_keepalive q}. tm_closing t)"

definition tstate :: "wg_peer \<Rightarrow> bool \<times> nat" where
  "tstate q = (closed q, p_timer_close_count q)"

definition quiet :: "wg_device \<Rightarrow> wg_device \<Rightarrow> bool" where
  "quiet dev dev' \<longleftrightarrow> (\<forall>p. rel_option (\<lambda>q q'. tstate q' = tstate q) (peer_mem dev p) (peer_mem dev' p))"

lemma quiet_same [simp]: "peer_mem dev' = peer_mem dev \<Longrightarrow> quiet dev dev'"
  by (simp add: quiet_def option.rel_refl)

lemma quiet_trans:
  assumes "quiet a b" "quiet b c"
  shows "quiet a c"
  unfolding quiet_def
proof
  fix p
  show "rel_option (\<lambda>q q'. tstate q' = tstate q) (peer_mem a p) (peer_mem c p)"
    using assms [unfolded quiet_def, THEN spec, of p]
    by (cases "peer_mem a p"; cases "peer_mem b p"; cases "peer_mem c p") auto
qed

lemma quiet_upd_peer: "(\<And>q. tstate (f q) = tstate q) \<Longrightarrow> quiet dev (upd_peer p f dev)"
  by (auto simp: quiet_def upd_peer_def rel_option_iff split: option.splits)

lemma quiet_hs [simp]: "quiet dev (upd_hs p f dev)" "quiet dev (set_hs p hs dev)"
  unfolding set_hs_def upd_hs_def by (rule quiet_upd_peer, simp add: tstate_def closed_def)+

text \<open>A peer in memory is either in the list, with five open timer handles, or on its way out: its timers
  are closed and the count of close callbacks still to come is not zero.\<close>

definition live_inv :: "wg_device \<Rightarrow> bool" where
  "live_inv dev \<longleftrightarrow> (\<forall>p q. peer_mem dev p = Some q \<longrightarrow>
     (if p \<in> set (d_peers dev) then tstate q = (False, 5) else fst (tstate q) \<and> snd (tstate q) \<noteq> 0))"

definition dev_inv :: "wg_device \<Rightarrow> bool" where
  "dev_inv dev \<longleftrightarrow> heap_inv {} dev \<and> routes_inv dev \<and> live_inv dev"

lemma quiet_live: "quiet dev dev' \<Longrightarrow> d_peers dev' = d_peers dev \<Longrightarrow> live_inv dev \<Longrightarrow> live_inv dev'"
proof (unfold live_inv_def, intro allI impI)
  fix p q'
  assume q: "quiet dev dev'" "d_peers dev' = d_peers dev" "\<forall>p q. peer_mem dev p = Some q \<longrightarrow>
     (if p \<in> set (d_peers dev) then tstate q = (False, 5) else fst (tstate q) \<and> snd (tstate q) \<noteq> 0)"
    and m: "peer_mem dev' p = Some q'"
  from q(1) have "rel_option (\<lambda>q q'. tstate q' = tstate q) (peer_mem dev p) (peer_mem dev' p)" by (simp add: quiet_def)
  with m obtain q0 where "peer_mem dev p = Some q0" "tstate q' = tstate q0" by (cases "peer_mem dev p") auto
  with q(2,3) show "if p \<in> set (d_peers dev') then tstate q' = (False, 5) else fst (tstate q') \<and> snd (tstate q') \<noteq> 0" by simp
qed

text \<open>An update of a peer that leaves alone what the invariant reads and neither closes nor reopens a timer.\<close>

definition mild :: "(wg_peer \<Rightarrow> wg_peer) \<Rightarrow> bool" where
  "mild f \<longleftrightarrow> (\<forall>q. view (f q) = view q \<and> tstate (f q) = tstate q)"

lemmas mild_defs = mild_def view_def tstate_def closed_def uv_timer_start_def uv_timer_stop_def uv_close_def Let_def

definition same_core :: "wg_device \<Rightarrow> wg_device \<Rightarrow> bool" where
  "same_core dev dev' \<longleftrightarrow> d_peers dev' = d_peers dev \<and> d_index_table dev' = d_index_table dev \<and> views dev' = views dev \<and>
     kp_idx dev' = kp_idx dev \<and> d_allowedips dev' = d_allowedips dev \<and> e_brk dev \<le> e_brk dev' \<and> quiet dev dev'"

lemma same_core_refl [simp]: "same_core dev dev"
  by (simp add: same_core_def)

lemma same_core_trans: "same_core a b \<Longrightarrow> same_core b c \<Longrightarrow> same_core a c"
  by (auto simp: same_core_def intro: quiet_trans)

lemma same_core_heap_inv: "same_core dev dev' \<Longrightarrow> heap_inv X dev \<Longrightarrow> heap_inv X dev'"
  unfolding same_core_def heap_inv_def by (metis core_inv_brk)

named_theorems core_same \<open>calls that leave the core alone\<close>

lemma same_core_upd_peer [core_same]: "mild f \<Longrightarrow> same_core dev (upd_peer p f dev)"
  using quiet_upd_peer [of f dev p]
  by (auto simp: same_core_def mild_def upd_peer_def views_def kp_idx_def fun_eq_iff option.map_comp o_def)

lemma same_core_upd_kp [core_same]: "(\<And>x. kp_local_index (f x) = kp_local_index x) \<Longrightarrow> same_core dev (upd_kp k f dev)"
  by (auto simp: same_core_def upd_kp_def views_def kp_idx_def fun_eq_iff option.map_comp o_def)

lemma same_core_calloc: "same_core dev (snd (calloc dev))"
  by (auto simp: same_core_def calloc_def views_def kp_idx_def)

lemma same_core_env [core_same]:
  "same_core dev (dev\<lparr>e_rng := a\<rparr>)" "same_core dev (dev\<lparr>e_clock := b\<rparr>)" "same_core dev (dev\<lparr>e_try_send := c\<rparr>)"
  "same_core dev (dev\<lparr>e_send := d\<rparr>)" "same_core dev (dev\<lparr>e_udp_out := e\<rparr>)" "same_core dev (dev\<lparr>e_udp_pending := f\<rparr>)"
  "same_core dev (dev\<lparr>e_tun_out := g\<rparr>)" "same_core dev (dev\<lparr>e_worker_in := h\<rparr>)" "same_core dev (dev\<lparr>e_stack_in := i\<rparr>)"
  "same_core dev (dev\<lparr>d_tx_buffer_pool := j\<rparr>)" "same_core dev (dev\<lparr>d_udp_send_req_pool := j\<rparr>)"
  "same_core dev (dev\<lparr>d_rx_buffer_pool := j\<rparr>)" "same_core dev (dev\<lparr>d_cookie_checker := k\<rparr>)"
  "same_core dev (dev\<lparr>e_now := n\<rparr>)"
  by (simp_all add: same_core_def views_def kp_idx_def fun_eq_iff)

lemma same_core_buffers [core_same]:
  "same_core dev (snd (tx_buffer_acquire dev))" "same_core dev (tx_buffer_release dev x)"
  "same_core dev (snd (udp_send_req_acquire dev))" "same_core dev (udp_send_req_release dev x)"
  "same_core dev (snd (rx_buffer_acquire dev))" "same_core dev (rx_buffer_release dev x)"
  "same_core dev (udp_recv_buffer_release dev x)"
  by (auto simp: same_core_def views_def kp_idx_def fun_eq_iff tx_buffer_acquire_def tx_buffer_release_def
    udp_send_req_acquire_def udp_send_req_release_def rx_buffer_acquire_def rx_buffer_release_def udp_recv_buffer_release_def
    buffer_acquire_def calloc_def split: list.splits option.splits prod.splits)

lemma same_core_send_done [core_same]: "same_core dev (udp_send_done dev b)"
  unfolding udp_send_done_def by (rule same_core_trans [OF same_core_env(6) same_core_buffers(4)])

lemma same_core_step: "same_core D D' \<Longrightarrow> same_core dev D \<Longrightarrow> same_core dev D'"
  by (rule same_core_trans)

lemma same_core_udp [core_same]: "same_core dev (snd (udp_send_copy dev addr fam data))"
proof (rule postD [of "\<lambda>r. same_core dev (snd r)"])
  have ret: "same_core dev D \<Longrightarrow> post (\<lambda>r. same_core dev (snd r)) (a, D)" for a :: int and D by (simp add: post_def)
  have eq: "D = E \<Longrightarrow> same_core dev E \<Longrightarrow> same_core dev D" for D E by simp
  have acq: "udp_send_req_acquire E = (a, D) \<Longrightarrow> same_core dev E \<Longrightarrow> same_core dev D" for a D E
    using same_core_step [OF same_core_buffers(3)] by (metis snd_conv)
  have out: "same_core dev E \<Longrightarrow> same_core dev (E\<lparr>e_udp_pending := a, e_udp_out := b\<rparr>)" for E a b
    by (erule same_core_step [OF same_core_env(5) same_core_step [OF same_core_env(6)]])
  show "post (\<lambda>r. same_core dev (snd r)) (udp_send_copy dev addr fam data)"
    unfolding udp_send_copy_def
    by (intro post_rules; rule ret;
      (rule same_core_refl out same_core_env(3-5) [THEN same_core_step] same_core_buffers(4) [THEN same_core_step]
       | (rule eq, assumption) | (rule acq, assumption))+)
qed

lemma same_core_timers [core_same]:
  "same_core dev (timers_stop dev p)"
  "same_core dev (timers_data_sent dev p)" "same_core dev (timers_data_received dev p)"
  "same_core dev (timers_keepalive_received dev p)" "same_core dev (timers_handshake_complete dev p)"
  "same_core dev (timers_zero_key_material dev p)" "same_core dev (timers_persistent_keepalive_set dev p)"
  "same_core dev (start_retransmit sd dev p)" "same_core dev (timers_handshake_initiated sd dev p)"
proof -
  show r: "same_core dev (start_retransmit sd dev p)"
  proof -
    obtain ret b dev' where rb: "random_bytes sd dev (zeros 4) 4 = (ret, b, dev')" by (metis prod_cases3)
    then have "same_core dev dev'" using same_core_env(1) by (auto simp: random_bytes_def split: prod.splits)
    then show ?thesis
      unfolding start_retransmit_def rb by (auto intro!: same_core_trans [OF _ same_core_upd_peer] simp: mild_defs)
  qed
  then show "same_core dev (timers_handshake_initiated sd dev p)" by (simp add: timers_handshake_initiated_def)
  show "same_core dev (timers_persistent_keepalive_set dev p)"
    unfolding timers_persistent_keepalive_set_def Let_def
    by (simp add: same_core_upd_peer same_core_trans [OF same_core_upd_peer same_core_upd_peer] mild_defs)
qed (auto simp: timers_stop_def timers_data_sent_def timers_data_received_def
    timers_keepalive_received_def timers_handshake_complete_def timers_zero_key_material_def mild_defs intro!: same_core_upd_peer)

lemma same_core_misc [core_same]:
  "same_core dev (peer_stage_packet dev p pkt)" "same_core dev (update_endpoint dev p src)"
  "same_core dev (upd_peer p pop_staged dev)" "same_core dev (deliver dev p pt)"
  "same_core dev (noise_precompute_static_static sd dev p)"
  by (auto simp: peer_stage_packet_def update_endpoint_def deliver_def noise_precompute_static_static_def
    upd_hs_def stage_def pop_staged_def mild_defs intro: core_same intro!: same_core_upd_peer)

section \<open>Calls that change the core\<close>

lemma heap_inv_peer:
  assumes "heap_inv X dev" "p \<in> set (d_peers dev)"
  shows "\<exists>q. peer_mem dev p = Some q \<and> peer_at dev p = q"
proof -
  have "views dev p \<noteq> None" using assms core_invD(2) unfolding heap_inv_def by blast
  then show ?thesis by (auto simp: views_def peer_at_def)
qed

lemma heap_inv_delete:
  assumes "heap_inv X dev"
  shows "heap_inv X (dev_index_delete dev i)"
proof -
  have "index_table_lookup (index_table_delete (d_index_table dev) i) \<subseteq>\<^sub>m index_table_lookup (d_index_table dev)"
    unfolding lookup_delete by (auto simp: map_le_def split: if_splits)
  then show ?thesis
    using core_inv_sub assms
    unfolding heap_inv_def dev_index_delete_def views_def kp_idx_def by fastforce
qed

lemma retire_keypair_eq:
  "retire_keypair dev (Some k) = kp_release k (dev_index_delete dev (kp_local_index (kp_at dev k)))"
  by (simp add: retire_keypair_def)

lemma heap_inv_retire:
  assumes "heap_inv X dev" "k \<in> X"
  shows "heap_inv (X - {k}) (retire_keypair dev (Some k))"
proof -
  let ?L = "index_table_lookup (d_index_table dev)" and ?i = "kp_local_index (kp_at dev k)"
  note d = core_invD [OF assms(1) [unfolded heap_inv_def]]
  have "kp_idx dev k \<noteq> None" using d(6) assms(2) by blast
  then have k: "kp_idx dev k = Some ?i" by (auto simp: kp_idx_def kp_at_def)
  have "?L 0 = None" using d(7) by (metis not_None_eq)
  then have "index_table_lookup (index_table_delete (d_index_table dev) ?i) = ?L(?i := None)"
    unfolding lookup_delete by (auto simp: fun_eq_iff)
  moreover have "kp_idx (retire_keypair dev (Some k)) = (kp_idx dev)(k := None)"
    by (auto simp: kp_idx_def retire_keypair_eq kp_release_def dev_index_delete_def fun_eq_iff)
  moreover have "views (retire_keypair dev (Some k)) = views dev"
    by (auto simp: views_def retire_keypair_eq kp_release_def dev_index_delete_def fun_eq_iff)
  ultimately show ?thesis
    using core_inv_free [OF assms(1) [unfolded heap_inv_def] assms(2) k]
    by (simp add: heap_inv_def retire_keypair_eq kp_release_def dev_index_delete_def)
qed

text \<open>\<^verbatim>\<open>keypair_free\<close> has the same effect on the core as the two lines in the rotation.\<close>

lemma keypair_free_core:
  "same_core (retire_keypair dev old) (keypair_free sd dev old)"
  by (cases old) (auto simp: same_core_def retire_keypair_def keypair_free_def Let_def kp_release_def upd_kp_def dev_index_delete_def
    views_def kp_idx_def fun_eq_iff)

lemma views_upd_peer:
  "views (upd_peer p f dev) = (views dev)(p := map_option (view \<circ> f) (peer_mem dev p))"
  by (auto simp: views_def upd_peer_def fun_eq_iff option.map_comp)

lemma heap_inv_view:
  assumes "heap_inv X dev" "p \<in> set (d_peers dev)" "peer_mem dev p = Some q" "view (f q) = v" "distinct (kps (Some v))"
    and "set (kps (Some v)) \<subseteq> set (kps (views dev p)) \<union> X" "X' = (X \<union> set (kps (views dev p))) - set (kps (Some v))"
    and "hs_idx (Some v) = hs_idx (views dev p) \<or>
      (\<forall>i e. index_table_lookup (d_index_table dev) i = Some e \<longrightarrow> ie_type e = IDX_HANDSHAKE \<longrightarrow> ie_peer e \<noteq> Some p)"
    and "\<And>i e k. index_table_lookup (d_index_table dev) i = Some e \<Longrightarrow> ie_type e = IDX_KEYPAIR \<Longrightarrow> ie_keypair e = Some k \<Longrightarrow>
      k \<in> X \<Longrightarrow> k \<in> set (kps (Some v)) \<Longrightarrow> ie_peer e = Some p"
  shows "heap_inv X' (upd_peer p f dev)"
proof -
  have "views (upd_peer p f dev) = (views dev)(p \<mapsto> v)" using assms(3,4) by (simp add: views_upd_peer)
  moreover have "kp_idx (upd_peer p f dev) = kp_idx dev" by (auto simp: kp_idx_def upd_peer_def)
  ultimately show ?thesis
    using core_inv_view [OF assms(1) [unfolded heap_inv_def] assms(2) assms(5-9)] by (simp add: heap_inv_def upd_peer_def)
qed

text \<open>The handshake index of a peer without handshake entries may change freely.\<close>

lemma heap_inv_index:
  assumes inv: "heap_inv X dev" and p: "p \<in> set (d_peers dev)" and q: "peer_mem dev p = Some q"
    and v: "view (f q) = (p_current_keypair q, p_next_keypair q, p_prev_keypair q, i)"
    and none: "\<And>i e. index_table_lookup (d_index_table dev) i = Some e \<Longrightarrow> ie_type e = IDX_HANDSHAKE \<Longrightarrow> ie_peer e \<noteq> Some p"
  shows "heap_inv X (upd_peer p f dev)"
proof (rule heap_inv_view [OF inv p q, of f, OF refl])
  note d = core_invD [OF inv [unfolded heap_inv_def]]
  have k: "kps (Some (view (f q))) = kps (views dev p)" using q v by (simp add: views_def view_def)
  show "distinct (kps (Some (view (f q))))" unfolding k by (rule d(3) [OF p])
  show "set (kps (Some (view (f q)))) \<subseteq> set (kps (views dev p)) \<union> X" unfolding k by blast
  show "X = X \<union> set (kps (views dev p)) - set (kps (Some (view (f q))))" unfolding k using d(4) [OF p] by auto
  show "ie_peer e = Some p" if "k \<in> X" "k \<in> set (kps (Some (view (f q))))" for e k using that d(4) [OF p] unfolding k by auto
  show "hs_idx (Some (view (f q))) = hs_idx (views dev p) \<or>
      (\<forall>i e. index_table_lookup (d_index_table dev) i = Some e \<longrightarrow> ie_type e = IDX_HANDSHAKE \<longrightarrow> ie_peer e \<noteq> Some p)"
    using none by blast
qed

text \<open>Allocating a new handshake index for a peer.\<close>

lemma heap_inv_new_index:
  assumes inv: "heap_inv X dev" and p: "p \<in> set (d_peers dev)" and q: "peer_mem dev p = Some q"
    and new: "dev_index_new sd (dev_index_delete dev (hs_local_index (p_handshake q))) p = (idx, dev2)"
    and hs: "hs_local_index hs = idx \<or> idx = 0 \<and> hs_local_index hs = hs_local_index (p_handshake q)"
  shows "heap_inv X (set_hs p hs dev2)" "peer_mem dev2 = peer_mem dev" "d_peers dev2 = d_peers dev"
    "d_allowedips dev2 = d_allowedips dev"
proof -
  let ?i = "hs_local_index (p_handshake q)" and ?d1 = "dev_index_delete dev (hs_local_index (p_handshake q))"
  from dev_index_new_spec [OF new] obtain t r where d2: "dev2 = ?d1\<lparr>d_index_table := t, e_rng := r\<rparr>"
    and n: "idx \<noteq> 0 \<longrightarrow> index_table_lookup t = (index_table_lookup (d_index_table ?d1))(idx \<mapsto>
        \<lparr>ie_type = IDX_HANDSHAKE, ie_index = idx, ie_peer = Some p, ie_handshake = Some p, ie_keypair = None\<rparr>)"
      "idx = 0 \<longrightarrow> t = d_index_table ?d1" by blast
  show mem: "peer_mem dev2 = peer_mem dev" "d_peers dev2 = d_peers dev" "d_allowedips dev2 = d_allowedips dev"
    unfolding d2 by (simp_all add: dev_index_delete_def)
  have inv1: "heap_inv X ?d1" by (rule heap_inv_delete [OF inv])
  have v: "views dev p = Some (view q)" "hs_idx (views dev p) = ?i" using q by (simp_all add: views_def view_def)
  have sv: "views ?d1 = views dev" "d_peers ?d1 = d_peers dev" by (auto simp: views_def dev_index_delete_def)
  have none: "ie_peer e \<noteq> Some p" if "index_table_lookup (d_index_table ?d1) i = Some e" "ie_type e = IDX_HANDSHAKE" for i e
  proof
    assume "ie_peer e = Some p"
    with core_invD(7,8) [OF inv1 [unfolded heap_inv_def] that(1)] that(2)
    have "i \<noteq> 0" "i = ?i" using v(2) sv(1) by (auto simp: entry_ok_def)
    then show False using that(1) by (simp add: dev_index_delete_def lookup_delete)
  qed
  define f :: "wg_peer \<Rightarrow> wg_peer" where "f = (\<lambda>q. q\<lparr>p_handshake := hs\<rparr>)"
  have inv2: "heap_inv X (upd_peer p f ?d1)"
    by (rule heap_inv_index [OF inv1]) (use p q sv none in \<open>auto simp: f_def view_def dev_index_delete_def\<close>)
  have eq: "set_hs p hs dev2 = (upd_peer p f ?d1)\<lparr>d_index_table := t, e_rng := r\<rparr>"
    by (simp add: set_hs_def upd_hs_def upd_peer_def d2 f_def)
  show "heap_inv X (set_hs p hs dev2)"
  proof (cases "idx = 0")
    case True
    then have "set_hs p hs dev2 = (upd_peer p f ?d1)\<lparr>e_rng := r\<rparr>" using n(2) eq by (simp add: upd_peer_def)
    then show ?thesis using same_core_heap_inv [OF same_core_env(1) inv2] by simp
  next
    case False
    have hi: "hs_idx (views (upd_peer p f ?d1) p) = idx" using q hs False by (simp add: views_upd_peer f_def view_def dev_index_delete_def)
    have pp: "p \<in> set (d_peers (upd_peer p f ?d1))" using p by (simp add: upd_peer_def dev_index_delete_def)
    have "core_inv (d_peers (upd_peer p f ?d1)) (index_table_lookup t) (views (upd_peer p f ?d1)) (kp_idx (upd_peer p f ?d1))
        (e_brk (upd_peer p f ?d1)) X"
      using core_inv_new [OF inv2 [unfolded heap_inv_def] pp False hi refl] n(1) False by (simp add: upd_peer_def)
    then show ?thesis unfolding eq heap_inv_def by simp
  qed
qed

lemma same_core_set_hs:
  assumes "peer_mem dev p = Some q" "hs_local_index hs = hs_local_index (p_handshake q)"
  shows "same_core dev (set_hs p hs dev)"
  using assms by (auto simp: same_core_def set_hs_def upd_hs_def upd_peer_def views_def kp_idx_def view_def quiet_def tstate_def closed_def rel_option_iff fun_eq_iff split: option.splits)

text \<open>\<open>keeps X dev dev'\<close>: the call that leads from \<open>dev\<close> to \<open>dev'\<close> preserves the heap invariant and
  touches neither the list of peers nor the routes.\<close>

definition keeps :: "kp_ref set \<Rightarrow> wg_device \<Rightarrow> wg_device \<Rightarrow> bool" where
  "keeps X dev dev' \<longleftrightarrow> (heap_inv X dev \<longrightarrow> heap_inv X dev') \<and> d_peers dev' = d_peers dev \<and> d_allowedips dev' = d_allowedips dev \<and>
     quiet dev dev'"

lemma keeps_trans: "keeps X a b \<Longrightarrow> keeps X b c \<Longrightarrow> keeps X a c"
  by (auto simp: keeps_def intro: quiet_trans)

lemma keeps_core: "same_core dev dev' \<Longrightarrow> keeps X dev dev'"
  using same_core_heap_inv [of dev dev' X] by (simp add: keeps_def same_core_def)

lemma keeps_dev_inv: "keeps {} dev dev' \<Longrightarrow> dev_inv dev \<Longrightarrow> dev_inv dev'"
  using quiet_live [of dev dev'] by (simp add: keeps_def dev_inv_def routes_inv_def)

lemma keeps_set_hs:
  assumes "same_core dev D" "peer_mem D = peer_mem dev" "p \<in> set (d_peers dev)" "hs_local_index hs = hs_local_index (p_handshake (peer_at dev p))"
  shows "keeps X dev (set_hs p hs D)"
proof (cases "heap_inv X dev")
  case True
  then obtain q where q: "peer_mem dev p = Some q" "peer_at dev p = q" using heap_inv_peer assms(3) by blast
  show ?thesis by (rule keeps_core [OF same_core_trans [OF assms(1) same_core_set_hs]]) (use q assms in simp_all)
next
  case False
  moreover have "quiet dev (set_hs p hs D)" using assms(1) quiet_trans [OF _ quiet_hs(2)] by (simp add: same_core_def)
  ultimately show ?thesis using assms(1) by (simp add: keeps_def same_core_def) (simp add: set_hs_def upd_hs_def upd_peer_def)
qed

lemma keeps_new_index:
  assumes del: "x1 = dev_index_delete D i" "x2 = dev_index_new sd x1 p" "x2 = (idx, dev2)" "i = hs_local_index (p_handshake (peer_at dev p))"
    and as: "same_core dev D" "peer_mem D = peer_mem dev" "p \<in> set (d_peers dev)"
      "hs_local_index hs = idx \<or> idx = 0 \<and> hs_local_index hs = i" "same_core dev2 dev3" "peer_mem dev3 = peer_mem dev2"
  shows "keeps X dev (set_hs p hs dev3)"
proof -
  have new: "dev_index_new sd (dev_index_delete D i) p = (idx, dev2)" using del by simp
  have p: "d_peers (set_hs p hs dev3) = d_peers dev \<and> d_allowedips (set_hs p hs dev3) = d_allowedips dev"
    using dev_index_new_spec [OF new] as
    by (auto simp: same_core_def set_hs_def upd_hs_def upd_peer_def dev_index_delete_def)
  have "peer_mem dev3 = peer_mem dev" using dev_index_new_spec [OF new] as by (auto simp: dev_index_delete_def)
  then have qu: "quiet dev (set_hs p hs dev3)" by (intro quiet_trans [OF _ quiet_hs(2)] quiet_same)
  have "heap_inv X (set_hs p hs dev3)" if inv: "heap_inv X dev"
  proof -
    obtain q where q: "peer_mem dev p = Some q" "peer_at dev p = q" using heap_inv_peer [OF inv as(3)] by blast
    note n = heap_inv_new_index [OF same_core_heap_inv [OF as(1) inv], of p q sd idx dev2 hs]
    have "p \<in> set (d_peers D)" using as(1,3) by (simp add: same_core_def)
    then have "heap_inv X (set_hs p hs dev2)" "peer_mem dev2 p = Some q" using n new as del(4) q by auto
    moreover have "same_core (set_hs p hs dev2) (set_hs p hs dev3)"
      using as(5,6) by (auto simp: same_core_def set_hs_def upd_hs_def upd_peer_def kp_idx_def views_def fun_eq_iff)
    ultimately show ?thesis using same_core_heap_inv by blast
  qed
  with p qu show ?thesis by (simp add: keeps_def)
qed

lemma keeps_upd_peer: "x = upd_peer p f D \<Longrightarrow> mild f \<Longrightarrow> keeps X dev D \<Longrightarrow> keeps X dev x"
  by (metis keeps_trans keeps_core same_core_upd_peer)

lemma post_keeps:
  "keeps X dev D \<Longrightarrow> post (\<lambda>r. keeps X dev (snd r)) (a, D)"
  "keeps X dev D \<Longrightarrow> post (\<lambda>r. keeps X dev (snd (snd r))) (b, c, D)"
  by (simp_all add: post_def)

lemma clock_gettimeD: "x = clock_gettime D \<Longrightarrow> x = (t, D') \<Longrightarrow> D' = D\<lparr>e_clock := \<lambda>i. e_clock D (i + 1)\<rparr>"
  by (simp add: clock_gettime_def)

lemma same_core_clock: "same_core dev (dev\<lparr>e_rng := r, e_clock := c\<rparr>)"
  by (rule same_core_trans [OF same_core_env(1) same_core_env(2)])

lemma noise_create_initiation_keeps:
  assumes p: "p \<in> set (d_peers dev)"
  shows "keeps X dev (snd (snd (noise_create_initiation sd dev p msg)))"
proof (rule postD [of "\<lambda>r. keeps X dev (snd (snd r))"])
  note early = keeps_set_hs [OF _ _ p] and late = keeps_new_index [OF _ _ _ _ _ _ p]
  show "post (\<lambda>r. keeps X dev (snd (snd r))) (noise_create_initiation sd dev p msg)"
    unfolding noise_create_initiation_def
    apply (intro post_rules)
    apply (rule post_keeps, rule early; simp add: core_same; fail)+
    apply (rule post_keeps, frule (1) clock_gettimeD, rule early; simp add: same_core_clock; fail)
    apply (rule post_keeps, frule (1) clock_gettimeD, rule late, assumption+; simp add: same_core_clock; fail)
    apply (rule post_keeps, frule (1) clock_gettimeD, rule keeps_upd_peer, assumption, simp add: mild_defs, erule ssubst, rule late, assumption+;
      simp add: same_core_clock; fail)
    done
qed

lemma find_in: "find P xs = Some x \<Longrightarrow> x \<in> set xs"
  by (auto simp: find_Some_iff)

lemma noise_consume_initiation_keeps:
  "keeps X dev (snd (noise_consume_initiation sd dev msg)) \<and> (\<forall>p. fst (noise_consume_initiation sd dev msg) = Some p \<longrightarrow> p \<in> set (d_peers dev))"
proof (rule postD [of "\<lambda>r. keeps X dev (snd r) \<and> (\<forall>p. fst r = Some p \<longrightarrow> p \<in> set (d_peers dev))"])
  have none: "post (\<lambda>r. keeps X dev (snd r) \<and> (\<forall>p. fst r = Some p \<longrightarrow> p \<in> set (d_peers dev))) (None, dev)"
    by (simp add: post_def keeps_core)
  have some: "post (\<lambda>r. keeps X dev (snd r) \<and> (\<forall>p. fst r = Some p \<longrightarrow> p \<in> set (d_peers dev))) (Some p, set_hs p hs dev)"
    if "find_peer_by_key sd dev pk = Some p" "hs_local_index hs = hs_local_index (p_handshake (peer_at dev p))" for p hs pk
    using that find_in [of _ "d_peers dev" p] by (auto simp: post_def find_peer_by_key_def intro!: keeps_set_hs)
  show "post (\<lambda>r. keeps X dev (snd r) \<and> (\<forall>p. fst r = Some p \<longrightarrow> p \<in> set (d_peers dev))) (noise_consume_initiation sd dev msg)"
    unfolding noise_consume_initiation_def
    by (intro post_rules none) (rule some, assumption, simp)
qed

lemma noise_create_response_keeps:
  assumes p: "p \<in> set (d_peers dev)"
  shows "keeps X dev (snd (snd (noise_create_response sd dev p msg)))"
proof (rule postD [of "\<lambda>r. keeps X dev (snd (snd r))"])
  note late = keeps_new_index [OF _ _ _ _ _ _ p]
  have none: "post (\<lambda>r. keeps X dev (snd (snd r))) (a, m, dev)" for a m by (simp add: post_def keeps_core)
  show "post (\<lambda>r. keeps X dev (snd (snd r))) (noise_create_response sd dev p msg)"
    unfolding noise_create_response_def
    apply (intro post_rules none)
    apply (rule post_keeps, rule late, assumption+; simp add: core_same; fail)+
    apply (rule post_keeps, rule keeps_upd_peer, assumption, simp add: mild_defs, erule ssubst, rule late, assumption+;
      simp add: core_same; fail)
    done
qed

lemma noise_consume_response_keeps:
  "keeps X dev (snd (noise_consume_response sd dev msg))"
proof (cases "heap_inv X dev")
  case True
  have none: "post (\<lambda>r. keeps X dev (snd r)) (a, dev)" for a by (simp add: post_def keeps_core)
  have some: "post (\<lambda>r. keeps X dev (snd r)) (ie_peer e, set_hs h hs dev)"
    if h: "index_table_lookup (d_index_table dev) i = Some e" "\<not> ie_type e \<noteq> IDX_HANDSHAKE" "ie_handshake e = Some h"
      "hs_local_index hs = hs_local_index (p_handshake (peer_at dev h))" for e h hs i
  proof -
    have "h \<in> set (d_peers dev)" using core_invD(8) [OF True [unfolded heap_inv_def] h(1)] h(2,3) by (auto simp: entry_ok_def)
    then show ?thesis using h(4) by (intro post_keeps keeps_set_hs) auto
  qed
  have "post (\<lambda>r. keeps X dev (snd r)) (noise_consume_response sd dev msg)"
    unfolding noise_consume_response_def
    by (intro post_rules none) (rule some, assumption+, simp)
  then show ?thesis by (rule postD)
next
  case False
  have s: "d_peers (set_hs p hs dev) = d_peers dev \<and> d_allowedips (set_hs p hs dev) = d_allowedips dev \<and> quiet dev (set_hs p hs dev)" for p hs
    by simp (simp add: set_hs_def upd_hs_def upd_peer_def)
  have "post (\<lambda>r. d_peers (snd r) = d_peers dev \<and> d_allowedips (snd r) = d_allowedips dev \<and> quiet dev (snd r)) (noise_consume_response sd dev msg)"
    unfolding noise_consume_response_def
    by (intro post_rules; rule postI; simp add: s)
  then show ?thesis using False by (simp add: keeps_def post_def)
qed

section \<open>Session derivation\<close>

lemma upd_peer_upd_peer: "upd_peer p f (upd_peer p g dev) = upd_peer p (f \<circ> g) dev"
  by (simp add: upd_peer_def option.map_comp)

lemma upd_peer_retire: "upd_peer p f (retire_keypair dev o1) = retire_keypair (upd_peer p f dev) o1"
  by (cases o1) (auto simp: retire_keypair_def upd_peer_def kp_release_def dev_index_delete_def kp_at_def)

lemma heap_inv_retire_opt:
  assumes "heap_inv X dev" "set_option k \<subseteq> X" "X' = X - set_option k"
  shows "heap_inv X' (retire_keypair dev k)"
  using heap_inv_retire [OF assms(1)] assms by (cases k) (auto simp: retire_keypair_def)

lemma retire_same [simp]: "d_peers (retire_keypair dev k) = d_peers dev" "d_allowedips (retire_keypair dev k) = d_allowedips dev"
  by (cases k; simp add: retire_keypair_def kp_release_def dev_index_delete_def)+

lemma upd_peer_same [simp]: "d_peers (upd_peer p f dev) = d_peers dev" "d_allowedips (upd_peer p f dev) = d_allowedips dev"
  "d_index_table (upd_peer p f dev) = d_index_table dev" "peer_mem (upd_peer p f dev) p = map_option f (peer_mem dev p)"
  by (simp_all add: upd_peer_def)

lemma rotate_initiator:
  assumes "peer_mem dev p = Some q"
  shows "rotate_keypairs dev p k True =
    (let D = upd_peer p (\<lambda>x. x\<lparr>p_prev_keypair := (if p_next_keypair q = None then p_current_keypair q else p_next_keypair q),
       p_current_keypair := Some k, p_next_keypair := None\<rparr>) dev
     in retire_keypair (retire_keypair D (if p_next_keypair q = None then None else p_current_keypair q)) (p_prev_keypair q))"
  using assms by (cases "p_next_keypair q")
    (simp_all add: rotate_keypairs_def peer_at_def upd_peer_retire upd_peer_upd_peer Let_def o_def retire_keypair_def [of _ None])

lemma rotate_responder:
  assumes "peer_mem dev p = Some q"
  shows "rotate_keypairs dev p k False =
    retire_keypair (retire_keypair (upd_peer p (\<lambda>x. x\<lparr>p_next_keypair := Some k, p_prev_keypair := None\<rparr>) dev)
      (p_next_keypair q)) (p_prev_keypair q)"
  using assms by (simp add: rotate_keypairs_def peer_at_def upd_peer_retire upd_peer_upd_peer Let_def o_def)

lemma kps_opt: "set (kps (Some (c, n, r, i))) = set_option c \<union> set_option n \<union> set_option r"
  by (auto split: option.splits)

lemma distinct_kps: "distinct (kps (Some (c, n, r, i))) \<longleftrightarrow>
   set_option c \<inter> set_option n = {} \<and> set_option c \<inter> set_option r = {} \<and> set_option n \<inter> set_option r = {}"
  by (auto split: option.splits)

lemma heap_inv_rotate:
  assumes inv: "heap_inv {k} dev" and p: "p \<in> set (d_peers dev)" and q: "peer_mem dev p = Some q"
    and held: "\<And>i e. index_table_lookup (d_index_table dev) i = Some e \<Longrightarrow> ie_type e = IDX_KEYPAIR \<Longrightarrow> ie_keypair e = Some k \<Longrightarrow> ie_peer e = Some p"
  shows "heap_inv {} (rotate_keypairs dev p k b)"
proof -
  let ?c = "p_current_keypair q" and ?n = "p_next_keypair q" and ?r = "p_prev_keypair q" and ?i = "hs_local_index (p_handshake q)"
  note d = core_invD [OF inv [unfolded heap_inv_def]]
  have v: "views dev p = Some (?c, ?n, ?r, ?i)" using q by (simp add: views_def view_def)
  have dis: "set_option ?c \<inter> set_option ?n = {}" "set_option ?c \<inter> set_option ?r = {}" "set_option ?n \<inter> set_option ?r = {}"
    "k \<notin> set_option ?c" "k \<notin> set_option ?n" "k \<notin> set_option ?r"
    using d(3) [OF p] d(4) [OF p] unfolding v distinct_kps kps_opt by auto
  have change: "heap_inv X (upd_peer p f dev)"
    if "view (f q) = (c, n, r, ?i)" "distinct (kps (Some (c, n, r, ?i)))" "set_option c \<union> set_option n \<union> set_option r \<subseteq> set_option ?c \<union> set_option ?n \<union> set_option ?r \<union> {k}"
      "X = ({k} \<union> set_option ?c \<union> set_option ?n \<union> set_option ?r) - (set_option c \<union> set_option n \<union> set_option r)" for f c n r X
    by (rule heap_inv_view [OF inv p q, of f, OF that(1,2)]) (use that(3,4) held in \<open>auto simp: v kps_opt simp del: kps.simps\<close>)
  show ?thesis
  proof (cases b)
    case True
    then have b: "b = True" by simp
    show ?thesis
      unfolding b rotate_initiator [OF q] Let_def
      by (rule heap_inv_retire_opt [OF heap_inv_retire_opt [OF change
          [of _ "Some k" None "if ?n = None then ?c else ?n", OF _ _ _ refl] _ refl]])
        (use dis in \<open>auto simp: view_def distinct_kps simp del: kps.simps\<close>)
  next
    case False
    then have b: "b = False" by simp
    show ?thesis
      unfolding b rotate_responder [OF q]
      by (rule heap_inv_retire_opt [OF heap_inv_retire_opt [OF change [of _ ?c "Some k" None, OF _ _ _ refl] _ refl]])
        (use dis in \<open>auto simp: view_def distinct_kps simp del: kps.simps\<close>)
  qed
qed

lemma noise_handshake_clear_index [simp]: "hs_local_index (noise_handshake_clear sd hs) = 0"
  by (simp add: noise_handshake_clear_def)

text \<open>The handshake index of a peer, if it is in the table at all, is the peer's own.\<close>

definition own_index :: "wg_device \<Rightarrow> peer_ref \<Rightarrow> bool" where
  "own_index dev p \<longleftrightarrow> (\<forall>e. index_table_lookup (d_index_table dev) (hs_local_index (p_handshake (peer_at dev p))) = Some e \<longrightarrow> ie_peer e = Some p)"

lemma heap_inv_swap:
  assumes inv: "heap_inv {} dev" and p: "p \<in> set (d_peers dev)" and q: "peer_mem dev p = Some q" and own: "own_index dev p"
    and i: "i = hs_local_index (p_handshake q)"
    and sw: "index_table_swap_keypair (d_index_table dev) i (e_brk dev) = (found, t)" and kp: "kp_local_index kp = i"
    and dev': "dev' = dev\<lparr>d_index_table := t, kp_mem := (kp_mem dev)(e_brk dev \<mapsto> kp), e_brk := Suc (e_brk dev)\<rparr>"
  shows "heap_inv {e_brk dev} dev'"
    and "index_table_lookup t j = Some e \<Longrightarrow> ie_type e = IDX_KEYPAIR \<Longrightarrow> ie_keypair e = Some (e_brk dev) \<Longrightarrow> ie_peer e = Some p"
    and "index_table_lookup t j = Some e \<Longrightarrow> ie_type e = IDX_HANDSHAKE \<Longrightarrow> ie_peer e \<noteq> Some p"
proof -
  let ?k = "e_brk dev" and ?L = "index_table_lookup (d_index_table dev)"
  have zero: "?L 0 = None" using core_invD(7) [OF inv [unfolded heap_inv_def]] by (metis not_None_eq)
  have t: "index_table_lookup t = (case ?L i of None \<Rightarrow> ?L | Some e \<Rightarrow> ?L(i \<mapsto> e\<lparr>ie_type := IDX_KEYPAIR, ie_keypair := Some ?k\<rparr>))"
  proof (cases "i = 0")
    case True
    then show ?thesis using sw zero by (simp add: index_table_swap_keypair_def)
  next
    case False
    then show ?thesis using lookup_swap [of i "d_index_table dev" ?k] sw by (auto simp: fun_eq_iff split: option.splits)
  qed
  have kpi: "kp_idx dev' = (kp_idx dev)(?k \<mapsto> i)" using kp by (auto simp: dev' kp_idx_def fun_eq_iff)
  have a: "core_inv (d_peers dev) ?L (views dev) ((kp_idx dev)(?k \<mapsto> i)) (Suc ?k) {?k}"
    using core_inv_alloc [OF inv [unfolded heap_inv_def]] by simp
  then have b: "core_inv (d_peers dev) (index_table_lookup t) (views dev) ((kp_idx dev)(?k \<mapsto> i)) (Suc ?k) {?k}"
    using core_inv_swap [OF a, of i _ ?k] t by (auto split: option.splits)
  then show "heap_inv {e_brk dev} dev'" unfolding heap_inv_def kpi by (simp add: dev' views_def)
  show "ie_peer e = Some p" if h: "index_table_lookup t j = Some e" "ie_type e = IDX_KEYPAIR" "ie_keypair e = Some ?k"
  proof -
    have "((kp_idx dev)(?k \<mapsto> i)) ?k = Some j" using core_invD(8) [OF b h(1)] h(2,3) by (auto simp: entry_ok_def)
    then have j: "j = i" by simp
    then have "\<exists>e0. ?L i = Some e0 \<and> ie_peer e = ie_peer e0"
      using h(1) t by (cases "?L i") auto
    then show ?thesis using own i q by (auto simp: own_index_def peer_at_def)
  qed
  show "ie_peer e \<noteq> Some p" if h: "index_table_lookup t j = Some e" "ie_type e = IDX_HANDSHAKE"
  proof
    assume "ie_peer e = Some p"
    then have "hs_idx (views dev p) = j" using core_invD(8) [OF b h(1)] h(2) by (auto simp: entry_ok_def)
    then have "j = i" using q i by (simp add: views_def view_def)
    then show False using h t by (auto split: option.splits)
  qed
qed

lemma rotate_same [simp]: "d_peers (rotate_keypairs dev p k b) = d_peers dev" "d_allowedips (rotate_keypairs dev p k b) = d_allowedips dev"
  by (simp_all add: rotate_keypairs_def Let_def)

lemma quiet_retire [simp]: "quiet dev (retire_keypair dev k)"
  by (cases k) (simp_all add: retire_keypair_def kp_release_def dev_index_delete_def)

lemma quiet_retire': "quiet dev D \<Longrightarrow> quiet dev (retire_keypair D k)"
  by (erule quiet_trans) simp

lemma quiet_ptr: "quiet dev D \<Longrightarrow> (\<And>q. tstate (f q) = tstate q) \<Longrightarrow> quiet dev (upd_peer p f D)"
  by (erule quiet_trans) (rule quiet_upd_peer)

lemma quiet_rotate: "quiet dev (rotate_keypairs dev p k b)"
  unfolding rotate_keypairs_def Let_def
  by (auto intro!: quiet_ptr quiet_retire' simp: tstate_def closed_def)

lemma session_keeps:
  assumes p: "p \<in> set (d_peers dev)" and own: "own_index dev p" and hs: "hs = p_handshake (peer_at dev p)"
    and ca: "calloc dev = (a, dev1)" "a = Some k"
    and sw: "x = index_table_swap_keypair (d_index_table dev1) (hs_local_index hs) k" "x = (found, t)"
    and dev2: "dev2 = dev1\<lparr>d_index_table := t, kp_mem := (kp_mem dev1)(k \<mapsto> kp)\<rparr>"
    and clk: "y = clock_gettime dev2" "y = (c, dev3)"
    and dev4: "dev4 = upd_peer p (p_last_handshake_ns_update (\<lambda>_. ns)) dev3" and dev5: "dev5 = set_hs p hs' dev4"
    and z: "kp_local_index kp = hs_local_index hs" "hs_local_index hs' = 0"
  shows "keeps {} dev (rotate_keypairs dev5 p k b)"
proof -
  have dev1: "dev1 = dev\<lparr>e_brk := e_brk dev + 1, e_calloc := \<lambda>i. e_calloc dev (i + 1)\<rparr>" "k = e_brk dev"
    using ca by (auto simp: calloc_def split: if_splits)
  have dev3: "dev3 = dev2\<lparr>e_clock := \<lambda>i. e_clock dev2 (i + 1)\<rparr>" by (rule clock_gettimeD [OF clk])
  have inv: "heap_inv {} (rotate_keypairs dev5 p k b)" if inv: "heap_inv {} dev"
  proof -
    obtain q where q: "peer_mem dev p = Some q" using heap_inv_peer [OF inv p] by blast
    have sw': "index_table_swap_keypair (d_index_table dev) (hs_local_index (p_handshake q)) (e_brk dev) = (found, t)"
      using sw dev1 hs q by (simp add: peer_at_def)
    note s = heap_inv_swap [OF inv p q own refl sw' _ refl, of kp]
    let ?D = "dev\<lparr>d_index_table := t, kp_mem := (kp_mem dev)(e_brk dev \<mapsto> kp), e_brk := Suc (e_brk dev)\<rparr>"
    have z': "kp_local_index kp = hs_local_index (p_handshake q)" using z hs q by (simp add: peer_at_def)
    have "same_core ?D dev3" unfolding dev3 dev2 dev1 by (simp add: same_core_def views_def kp_idx_def fun_eq_iff)
    then have "heap_inv {e_brk dev} dev3" using s(1) [OF z'] by (rule same_core_heap_inv)
    then have "heap_inv {e_brk dev} dev5"
      unfolding dev5 dev4 set_hs_def upd_hs_def upd_peer_upd_peer
      by (rule heap_inv_index) (use p q s(3) [OF z'] in \<open>auto simp: view_def dev3 dev2 dev1\<close>)
    then show ?thesis
      unfolding dev1(2) by (rule heap_inv_rotate) (use p q s(2) [OF z'] in \<open>auto simp: dev5 dev4 dev3 dev2 dev1 set_hs_def upd_hs_def\<close>)
  qed
  have "quiet dev dev3" by (rule quiet_same) (simp add: dev3 dev2 dev1)
  then have "quiet dev dev5" unfolding dev5 dev4 set_hs_def upd_hs_def by (intro quiet_ptr) (auto simp: tstate_def closed_def)
  then have "quiet dev (rotate_keypairs dev5 p k b)" by (rule quiet_trans [OF _ quiet_rotate])
  then show ?thesis
    using inv by (simp add: keeps_def) (simp add: dev5 dev4 dev3 dev2 dev1 set_hs_def upd_hs_def)
qed

lemma noise_begin_session_keeps:
  assumes p: "p \<in> set (d_peers dev)" and own: "own_index dev p"
  shows "keeps {} dev (snd (noise_begin_session sd dev p))"
proof (rule postD [of "\<lambda>r. keeps {} dev (snd r)"])
  have none: "post (\<lambda>r. keeps {} dev (snd r)) (a, dev)" for a by (simp add: post_def keeps_core)
  have call: "keeps {} dev D" if "calloc dev = (a, D)" for a D using same_core_calloc [of dev] that by (simp add: keeps_core)
  show "post (\<lambda>r. keeps {} dev (snd r)) (noise_begin_session sd dev p)"
    unfolding noise_begin_session_def
    apply (intro post_rules none)
     apply (rule post_keeps, erule call)
    apply (rule post_keeps, rule session_keeps [OF p own], assumption+)
     apply (simp_all split: prod.splits)
    done
qed
end
