(* ===== verification/Uapi.thy ===== *)
theory Uapi
  imports Device
begin

text \<open>
  The configuration protocol (\<^verbatim>\<open>src/src/uapi.c\<close>).
\<close>

section \<open>Effects of the settings\<close>

text \<open>\<^verbatim>\<open>private_key\<close>, \<^verbatim>\<open>preshared_key\<close>, \<^verbatim>\<open>endpoint\<close>, \<^verbatim>\<open>persistent_keepalive_interval\<close>, \<^verbatim>\<open>replace_allowed_ips\<close> and
  \<^verbatim>\<open>allowed_ip\<close> of \<^verbatim>\<open>src/src/uapi.c\<close> (\<^verbatim>\<open>process_set\<close>), after their values have been parsed.\<close>

definition install_static_key :: "sodium \<Rightarrow> wg_device \<Rightarrow> bytes \<Rightarrow> wg_device" where
  "install_static_key sd dev priv =
     (let dev = noise_set_static_key sd dev priv
      in dev\<lparr>d_cookie_checker := cookie_checker_init (d_cookie_checker dev) (d_public_key dev)\<rparr>)"

definition set_private_key :: "sodium \<Rightarrow> wg_device \<Rightarrow> bytes \<Rightarrow> wg_device" where
  "set_private_key sd dev priv = install_static_key sd dev (wg_clamp_private_key priv)"

definition set_preshared_key :: "wg_device \<Rightarrow> peer_ref \<Rightarrow> bytes \<Rightarrow> wg_device" where
  "set_preshared_key dev p psk = upd_peer p (\<lambda>q. q\<lparr>p_psk := psk\<rparr>) (upd_hs p (\<lambda>hs. hs\<lparr>hs_psk := psk\<rparr>) dev)"

definition set_endpoint :: "wg_device \<Rightarrow> peer_ref \<Rightarrow> sockaddr_storage \<Rightarrow> nat \<Rightarrow> wg_device" where
  "set_endpoint dev p ss ss_len = upd_peer p (\<lambda>q. q\<lparr>p_endpoint := ss, p_endpoint_len := ss_len\<rparr>) dev"

definition set_persistent_keepalive :: "wg_device \<Rightarrow> peer_ref \<Rightarrow> u32 \<Rightarrow> wg_device" where
  "set_persistent_keepalive dev p sec =
     timers_persistent_keepalive_set (upd_peer p (\<lambda>q. q\<lparr>p_persistent_keepalive_ms := sec * 1000\<rparr>) dev) p"

definition replace_allowed_ips :: "wg_device \<Rightarrow> peer_ref \<Rightarrow> wg_device" where
  "replace_allowed_ips dev p =
     upd_peer p (\<lambda>q. q\<lparr>p_allowedips := allowedips_init\<rparr>) (dev\<lparr>d_allowedips := allowedips_remove_peer (d_allowedips dev) p\<rparr>)"

text \<open>\<open>ok1\<close> and \<open>ok2\<close> say which node allocations of the two inserts succeed.\<close>

definition add_allowed_ip4 :: "(nat \<Rightarrow> bool) \<Rightarrow> (nat \<Rightarrow> bool) \<Rightarrow> wg_device \<Rightarrow> peer_ref \<Rightarrow> bytes \<Rightarrow> u8 \<Rightarrow> wg_device" where
  "add_allowed_ip4 ok1 ok2 dev p a4 cidr =
     upd_peer p (\<lambda>q. q\<lparr>p_allowedips := snd (allowedips_insert_v4 ok2 (p_allowedips q) a4 cidr p)\<rparr>)
       (dev\<lparr>d_allowedips := snd (allowedips_insert_v4 ok1 (d_allowedips dev) a4 cidr p)\<rparr>)"

definition add_allowed_ip6 :: "(nat \<Rightarrow> bool) \<Rightarrow> (nat \<Rightarrow> bool) \<Rightarrow> wg_device \<Rightarrow> peer_ref \<Rightarrow> bytes \<Rightarrow> u8 \<Rightarrow> wg_device" where
  "add_allowed_ip6 ok1 ok2 dev p a6 cidr =
     upd_peer p (\<lambda>q. q\<lparr>p_allowedips := snd (allowedips_insert_v6 ok2 (p_allowedips q) a6 cidr p)\<rparr>)
       (dev\<lparr>d_allowedips := snd (allowedips_insert_v6 ok1 (d_allowedips dev) a6 cidr p)\<rparr>)"

end
