(* ===== verification/Device_Safe.thy ===== *)
theory Device_Safe
  imports Device_Inv Uapi
begin

text \<open>
  Every callback and configuration call of the device preserves the memory-safety
  invariant of \<open>Device_Inv\<close>; the event loop as a step relation, and the invariant in
  every state it reaches.
\<close>

section \<open>Sending\<close>

lemma keeps_refl [simp]: "keeps X dev dev"
  by (simp add: keeps_def)

lemma keeps_peers: "keeps X dev dev' \<Longrightarrow> d_peers dev' = d_peers dev"
  by (simp add: keeps_def)

lemma same_core_peers: "same_core dev dev' \<Longrightarrow> d_peers dev' = d_peers dev"
  by (simp add: same_core_def)

lemma keeps_then_core: "keeps X dev D \<Longrightarrow> same_core D D' \<Longrightarrow> keeps X dev D'"
  using keeps_trans keeps_core by blast

lemma keeps_coreI: "same_core D D' \<Longrightarrow> keeps X dev D \<Longrightarrow> keeps X dev D'"
  by (rule keeps_then_core)

lemmas keeps_calls = core_same [THEN keeps_coreI]

text \<open>Following a device backwards through the bindings that \<open>post_rules\<close> leaves.\<close>

lemma keeps_eq: "D = E \<Longrightarrow> keeps X dev E \<Longrightarrow> keeps X dev D"
  by simp

lemma keeps_pair: "c = (a, D) \<Longrightarrow> keeps X dev (snd c) \<Longrightarrow> keeps X dev D"
  by simp

lemma keeps_snd: "x = c \<Longrightarrow> keeps X dev (snd c) \<Longrightarrow> keeps X dev (snd x)"
  by simp

lemma keeps_triple: "b = (m, D) \<Longrightarrow> x = (a, b) \<Longrightarrow> x = c \<Longrightarrow> keeps X dev (snd (snd c)) \<Longrightarrow> keeps X dev D"
  by simp

lemma noise_create_initiation_keeps':
  "p \<in> set (d_peers dev) \<Longrightarrow> keeps X dev D \<Longrightarrow> keeps X dev (snd (snd (noise_create_initiation sd D p msg)))"
  using keeps_trans [OF _ noise_create_initiation_keeps] keeps_peers by metis

lemma device_initiate_handshake_inner_keeps:
  assumes p: "p \<in> set (d_peers dev)"
  shows "keeps X dev (snd (device_initiate_handshake_inner sd dev p force))"
proof (rule postD [of "\<lambda>r. keeps X dev (snd r)"])
  have D: "keeps X dev (upd_hs p (\<lambda>hs. hs\<lparr>hs_last_sent_handshake_ms := n\<rparr>) dev)" for n
    unfolding upd_hs_def by (rule keeps_core, rule same_core_upd_peer) (simp add: mild_defs)
  show "post (\<lambda>r. keeps X dev (snd r)) (device_initiate_handshake_inner sd dev p force)"
    unfolding device_initiate_handshake_inner_def
    by (intro post_rules; rule post_keeps;
      (rule keeps_refl D noise_create_initiation_keeps' [OF p] same_core_udp [THEN keeps_coreI] same_core_timers(9) [THEN keeps_coreI]
       | (rule keeps_eq, assumption) | (rule keeps_triple, assumption, assumption, assumption)
       | (rule keeps_pair, assumption) | (rule keeps_snd, assumption))+)
qed

lemma device_initiate_handshake_keeps:
  assumes p: "p \<in> set (d_peers dev)"
  shows "keeps X dev (snd (device_initiate_handshake sd dev p))" "keeps X dev (snd (device_initiate_handshake_force sd dev p))"
    "keeps X dev (timers_handshake_begin sd dev p)"
  by (simp_all add: device_initiate_handshake_def device_initiate_handshake_force_def timers_handshake_begin_def
    device_initiate_handshake_inner_keeps [OF p])

lemma keeps_then_begin:
  "p \<in> set (d_peers dev) \<Longrightarrow> keeps X dev D \<Longrightarrow> keeps X dev (timers_handshake_begin sd D p)"
  "p \<in> set (d_peers dev) \<Longrightarrow> keeps X dev D \<Longrightarrow> keeps X dev (snd (device_initiate_handshake sd D p))"
  by (metis keeps_trans keeps_peers device_initiate_handshake_keeps(3)) (metis keeps_trans keeps_peers device_initiate_handshake_keeps(1))

lemma device_send_to_peer_keeps:
  assumes p: "p \<in> set (d_peers dev)"
  shows "keeps X dev (snd (device_send_to_peer sd dev p pkt))"
proof (rule postD [of "\<lambda>r. keeps X dev (snd r)"])
  have nonce: "keeps X dev D \<Longrightarrow> keeps X dev (upd_kp k (\<lambda>x. x\<lparr>kp_send_nonce := kp_send_nonce x + 1\<rparr>) D)" for k D
    by (rule keeps_then_core, assumption, rule same_core_upd_kp) simp
  have bytes: "keeps X dev D \<Longrightarrow> keeps X dev (upd_peer p (\<lambda>q. q\<lparr>p_tx_bytes := p_tx_bytes q + n\<rparr>) D)" for D n
    by (rule keeps_then_core, assumption, rule same_core_upd_peer) (simp add: mild_defs)
  have ifs: "keeps X dev D \<Longrightarrow> keeps X dev (if b then timers_handshake_begin sd D p else D)"
    "keeps X dev D \<Longrightarrow> keeps X dev (if b then D else upd_peer p (\<lambda>q. q\<lparr>p_tx_bytes := p_tx_bytes q + n\<rparr>) D)" for b D n
    by (simp_all add: keeps_then_begin [OF p] bytes)
  show "post (\<lambda>r. keeps X dev (snd r)) (device_send_to_peer sd dev p pkt)"
    unfolding device_send_to_peer_def
    by (intro post_rules; rule post_keeps;
      (rule keeps_refl nonce bytes ifs keeps_then_begin [OF p] same_core_udp [THEN keeps_coreI]
         same_core_misc(1) [THEN keeps_coreI] same_core_timers(2) [THEN keeps_coreI] same_core_buffers(1,2) [THEN keeps_coreI]
       | (rule keeps_eq, assumption) | (rule keeps_pair, assumption) | (rule keeps_snd, assumption))+)
qed

lemma device_send_keepalive_keeps:
  "p \<in> set (d_peers dev) \<Longrightarrow> keeps X dev (snd (device_send_keepalive sd dev p))"
  by (simp add: device_send_keepalive_def device_send_to_peer_keeps)

text \<open>The loop that flushes the staged packets, by induction on its iterations.\<close>

lemma flush_staged_keeps:
  assumes "flush_staged sd dev p = Some dev'" "p \<in> set (d_peers dev)"
  shows "keeps X dev dev'"
proof -
  have "p \<in> set (d_peers dev) \<longrightarrow> keeps X dev dev'"
  proof (rule flush_staged.raw_induct [of "\<lambda>sd dev p dev'. p \<in> set (d_peers dev) \<longrightarrow> keeps X dev dev'", OF _ assms(1)], goal_cases)
    case (1 loop sd dev p dev')
    show ?case
    proof
      assume p: "p \<in> set (d_peers dev)"
      let ?D = "upd_peer p pop_staged dev" and ?pkt = "take (p_staged_lens (peer_at dev p) (p_staged_head (peer_at dev p)))
        (p_staged_pkts (peer_at dev p) (p_staged_head (peer_at dev p)))"
      show "keeps X dev dev'"
      proof (cases "p_staged_count (peer_at dev p) > 0")
        case True
        have D: "keeps X dev ?D" by (rule keeps_core) (rule same_core_misc)
        have S: "keeps X dev (snd (device_send_to_peer sd ?D p ?pkt))"
          by (rule keeps_trans [OF D device_send_to_peer_keeps]) (use p in simp)
        have "loop sd (snd (device_send_to_peer sd ?D p ?pkt)) p = Some dev'"
          using 1(2) True by (simp add: Let_def case_prod_beta)
        from 1(1) [OF this] show ?thesis using keeps_trans [OF S] keeps_peers [OF S] p by simp
      next
        case False
        then show ?thesis using 1(2) by simp
      qed
    qed
  qed
  then show ?thesis using assms(2) by blast
qed

section \<open>Handshake messages\<close>

lemma own_index_core: "same_core D D' \<Longrightarrow> own_index D p \<Longrightarrow> own_index D' p"
proof -
  assume c: "same_core D D'" and o: "own_index D p"
  from c have v: "views D' p = views D p" and t: "d_index_table D' = d_index_table D" by (simp_all add: same_core_def)
  have "hs_local_index (p_handshake (peer_at D' p)) = hs_local_index (p_handshake (peer_at D p))"
    using v by (cases "peer_mem D p"; cases "peer_mem D' p") (auto simp: views_def view_def peer_at_def)
  then show "own_index D' p" using o t by (simp add: own_index_def)
qed

lemma own_index_new:
  assumes "x = set_hs p hs D'" "x1 = dev_index_new sd x0 p" "x1 = (idx, D)" "idx \<noteq> 0" "peer_mem D p \<noteq> None" "hs_local_index hs = idx"
    "d_index_table D' = d_index_table D" "peer_mem D' = peer_mem D"
  shows "own_index x p"
proof -
  have "index_table_lookup (d_index_table D) idx = Some \<lparr>ie_type = IDX_HANDSHAKE, ie_index = idx, ie_peer = Some p, ie_handshake = Some p, ie_keypair = None\<rparr>"
    using dev_index_new_spec [of sd x0 p idx D] assms by auto
  then show ?thesis using assms by (auto simp: own_index_def set_hs_def upd_hs_def upd_peer_def peer_at_def)
qed

lemma noise_create_response_own:
  assumes inv: "heap_inv X dev" and p: "p \<in> set (d_peers dev)"
  shows "case noise_create_response sd dev p msg of (ret, m, D) \<Rightarrow> \<not> ret < 0 \<longrightarrow> own_index D p"
proof (rule postD [of "\<lambda>(ret, m, D). \<not> ret < 0 \<longrightarrow> own_index D p"])
  obtain q where q: "peer_mem dev p = Some q" using heap_inv_peer [OF inv p] by blast
  have m: "peer_mem D p \<noteq> None" if "x1 = dev_index_new sd x0 p" "x1 = (idx, D)" "x0 = dev_index_delete dev i" for x1 x0 idx D i
    using dev_index_new_spec [of sd x0 p idx D] that q by (auto simp: dev_index_delete_def)
  have cg: "own_index x p" if "x = upd_peer p (p_cookie_update (\<lambda>_. cg)) D" "own_index D p" for x cg D
    using own_index_core [OF same_core_upd_peer that(2)] that(1) by (simp add: mild_defs)
  show "post (\<lambda>(ret, m, D). \<not> ret < 0 \<longrightarrow> own_index D p) (noise_create_response sd dev p msg)"
    unfolding noise_create_response_def
    apply (intro post_rules)
    apply (rule postI, simp (no_asm); fail)+
    apply (rule postI, simp (no_asm), rule cg, assumption)
    apply (rule own_index_new, assumption, assumption, assumption, assumption)
    apply (rule m, assumption, assumption, assumption)
    apply simp_all
    done
qed

lemma noise_consume_response_own:
  assumes inv: "heap_inv X dev" and run: "noise_consume_response sd dev msg = (Some p, D)"
  shows "own_index D p \<and> p \<in> set (d_peers dev)"
proof -
  have "post (\<lambda>r. \<forall>p. fst r = Some p \<longrightarrow> own_index (snd r) p \<and> p \<in> set (d_peers dev)) (noise_consume_response sd dev msg)"
  proof -
    have ok: "post (\<lambda>r. \<forall>p. fst r = Some p \<longrightarrow> own_index (snd r) p \<and> p \<in> set (d_peers dev)) (ie_peer e, set_hs h hs dev)"
      if h: "index_table_lookup (d_index_table dev) i = Some e" "\<not> ie_type e \<noteq> IDX_HANDSHAKE" "ie_handshake e = Some h"
        "hs_local_index hs = hs_local_index (p_handshake (peer_at dev h))" for e h hs i
    proof -
      from core_invD(8) [OF inv [unfolded heap_inv_def] h(1)] h(2,3)
      have e: "h \<in> set (d_peers dev)" "ie_peer e = Some h" "hs_idx (views dev h) = i" by (auto simp: entry_ok_def)
      obtain q where q: "peer_mem dev h = Some q" "peer_at dev h = q" using heap_inv_peer [OF inv e(1)] by blast
      have "own_index dev h" using e q h(1) by (auto simp: own_index_def views_def view_def)
      then show ?thesis using own_index_core [OF same_core_set_hs [OF q(1)]] h(4) q(2) e by (auto simp: post_def)
    qed
    show ?thesis
      unfolding noise_consume_response_def
      by (intro post_rules; (rule ok, assumption, assumption, assumption, simp; fail)?; rule postI; simp (no_asm))
  qed
  then show ?thesis using run by (simp add: post_def)
qed

text \<open>What a handler that may not return promises.\<close>

definition safe :: "wg_device \<Rightarrow> wg_device option \<Rightarrow> bool" where
  "safe dev r \<longleftrightarrow> (\<forall>D. r = Some D \<longrightarrow> keeps {} dev D)"

lemma safe_some: "keeps {} dev D \<Longrightarrow> post (safe dev) (Some D)"
  by (simp add: post_def safe_def)

lemma safe_flush: "p \<in> set (d_peers dev) \<Longrightarrow> keeps {} dev D \<Longrightarrow> post (safe dev) (flush_staged sd D p)"
  unfolding post_def safe_def by (metis keeps_trans keeps_peers flush_staged_keeps)

lemma keeps_upd: "mild f \<Longrightarrow> keeps X dev D \<Longrightarrow> keeps X dev (upd_peer p f D)"
  by (rule keeps_coreI, rule same_core_upd_peer)

lemma keeps_cookie: "keeps X dev (dev\<lparr>d_cookie_checker := cc, e_rng := r\<rparr>)"
  by (rule keeps_core, rule same_core_trans [OF same_core_env(13) same_core_env(1)])

lemma session_started:
  assumes inv: "heap_inv {} dev" and "keeps {} dev D" "p \<in> set (d_peers dev)" "own_index D p"
  shows "keeps {} dev (snd (noise_begin_session sd D p))"
  using keeps_trans [OF assms(2) noise_begin_session_keeps] assms keeps_peers by metis

lemma own_eq: "D = E \<Longrightarrow> own_index E p \<Longrightarrow> own_index D p"
  by simp

lemma own_udp: "own_index D p \<Longrightarrow> own_index (snd (udp_send_copy D a f b)) p"
  by (rule own_index_core [OF same_core_udp])

lemma own_endpoint: "own_index D p \<Longrightarrow> own_index (update_endpoint D p' src) p"
  by (rule own_index_core [OF same_core_misc(2)])

lemma handle_initiation_safe:
  assumes inv: "heap_inv {} dev"
  shows "safe dev (handle_initiation sd dev src buf)"
proof (rule postD [of "safe dev"])
  have mem: "p \<in> set (d_peers dev)" if "a = Some p" "noise_consume_initiation sd D0 msg = (a, D)" "keeps {} dev D0" for D0 msg a D p
    using noise_consume_initiation_keeps [of "{}" D0 sd msg] that keeps_peers by (metis fst_conv)
  have consume: "keeps {} dev (snd (noise_consume_initiation sd D0 msg))" if "keeps {} dev D0" for D0 msg
    using noise_consume_initiation_keeps [of "{}" D0 sd msg] that keeps_trans by blast
  have resp: "keeps {} dev (snd (snd (noise_create_response sd D p m)))" if "keeps {} dev D" "p \<in> set (d_peers dev)" for D p m
    using keeps_trans [OF that(1) noise_create_response_keeps] that keeps_peers by metis
  have own: "own_index D' p"
    if "b = (m', D')" "x = (ret, b)" "x = noise_create_response sd D p m" "\<not> ret < 0" "keeps {} dev D" "p \<in> set (d_peers dev)" for x D p m ret b m' D'
    using noise_create_response_own [of "{}" D p sd m] that inv by (auto simp: keeps_def split: prod.splits)
  show "post (safe dev) (handle_initiation sd dev src buf)"
    unfolding handle_initiation_def
    by (intro post_rules; (rule safe_some safe_flush)?;
      (rule keeps_refl keeps_cookie keeps_trans [OF _ keeps_cookie] consume resp own_udp session_started [OF inv]
         same_core_misc(2) [THEN keeps_coreI] same_core_udp [THEN keeps_coreI] same_core_timers(5) [THEN keeps_coreI]
       | (rule keeps_eq, assumption) | (rule keeps_triple, assumption, assumption, assumption) | (rule keeps_pair, assumption)
       | (rule keeps_snd, assumption) | (rule mem, assumption, assumption) | (rule own_eq, assumption)
       | (rule own, assumption, assumption, assumption, assumption))+)
qed

lemma handle_response_safe:
  assumes inv: "heap_inv {} dev"
  shows "safe dev (handle_response sd dev src buf)"
proof (rule postD [of "safe dev"])
  have mem: "p \<in> set (d_peers dev)" if "a = Some p" "noise_consume_response sd D0 msg = (a, D)" "keeps {} dev D0" for D0 msg a D p
    using noise_consume_response_own [of "{}" D0 sd msg p D] that inv by (simp add: keeps_def)
  have own: "own_index D p" if "noise_consume_response sd D0 msg = (a, D)" "a = Some p" "keeps {} dev D0" for D0 msg a D p
    using noise_consume_response_own [of "{}" D0 sd msg p D] that inv by (simp add: keeps_def)
  have consume: "keeps {} dev (snd (noise_consume_response sd D0 msg))" if "keeps {} dev D0" for D0 msg
    using noise_consume_response_keeps [of "{}" D0 sd msg] that keeps_trans by blast
  have tail: "post (safe dev) (case flush_staged sd D p of None \<Rightarrow> None | Some D' \<Rightarrow> Some (if b then D' else snd (device_send_keepalive sd D' p)))"
    if D: "keeps {} dev D" and p: "p \<in> set (d_peers dev)" for D p b
  proof -
    have "keeps {} dev D'" if "flush_staged sd D p = Some D'" for D'
      using keeps_trans [OF D flush_staged_keeps [OF that]] keeps_peers [OF D] p by simp
    moreover from this have "keeps {} dev (snd (device_send_keepalive sd D' p))" if "flush_staged sd D p = Some D'" for D'
      using keeps_trans device_send_keepalive_keeps keeps_peers p that by metis
    ultimately show ?thesis by (auto simp: post_def safe_def split: option.splits)
  qed
  show "post (safe dev) (handle_response sd dev src buf)"
    unfolding handle_response_def
    by (intro post_let post_if post_prod_app post_prod tail post_option; (rule safe_some)?;
      (rule keeps_refl keeps_cookie consume own_endpoint session_started [OF inv]
         same_core_misc(2) [THEN keeps_coreI] same_core_timers(5) [THEN keeps_coreI]
       | (rule keeps_eq, assumption) | (rule keeps_pair, assumption)
       | (rule keeps_snd, assumption) | (rule mem, assumption, assumption) | (rule own_eq, assumption)
       | (rule own, assumption, assumption))+)
qed

lemma handle_cookie_reply_keeps: "keeps X dev (handle_cookie_reply sd dev buf)"
proof (rule postD [of "keeps X dev"])
  show "post (keeps X dev) (handle_cookie_reply sd dev buf)"
    unfolding handle_cookie_reply_def
    by (intro post_rules; rule postI; (rule keeps_refl | rule keeps_upd [OF _ keeps_refl]); simp add: mild_defs)
qed

section \<open>Freeing keypairs\<close>

lemma upd_peer_keypair_free: "upd_peer p f (keypair_free sd dev o1) = keypair_free sd (upd_peer p f dev) o1"
  by (cases o1) (auto simp: keypair_free_def upd_peer_def upd_kp_def kp_release_def dev_index_delete_def kp_at_def Let_def)

lemma keypair_free_same [simp]: "d_peers (keypair_free sd dev k) = d_peers dev" "d_allowedips (keypair_free sd dev k) = d_allowedips dev"
  "peer_mem (keypair_free sd dev k) = peer_mem dev" "peer_at (keypair_free sd dev k) p = peer_at dev p"
  by (cases k; simp add: keypair_free_def kp_release_def dev_index_delete_def upd_kp_def Let_def peer_at_def)+

lemma quiet_free: "quiet dev D \<Longrightarrow> quiet dev (keypair_free sd D k)"
  by (erule quiet_trans) simp

lemma heap_inv_keypair_free:
  assumes "heap_inv X dev" "set_option k \<subseteq> X" "X' = X - set_option k"
  shows "heap_inv X' (keypair_free sd dev k)"
  by (rule same_core_heap_inv [OF keypair_free_core heap_inv_retire_opt [OF assms]])

lemma free_keypairs_eq:
  assumes "peer_mem dev p = Some q"
  shows "free_keypairs sd dev p = keypair_free sd (keypair_free sd (keypair_free sd
    (upd_peer p (\<lambda>x. x\<lparr>p_current_keypair := None, p_next_keypair := None, p_prev_keypair := None\<rparr>) dev)
    (p_current_keypair q)) (p_next_keypair q)) (p_prev_keypair q)"
  using assms
  by (simp add: free_keypairs_def Let_def upd_peer_keypair_free upd_peer_upd_peer o_def) (simp add: peer_at_def)

text \<open>A change of the pointers of a peer that takes no new keypair.\<close>

lemma heap_inv_drop:
  assumes inv: "heap_inv {} dev" and p: "p \<in> set (d_peers dev)" and q: "peer_mem dev p = Some q"
    and v: "view (f q) = (c, n, r, hs_local_index (p_handshake q))"
    and dis: "set_option c \<inter> set_option n = {}" "set_option c \<inter> set_option r = {}" "set_option n \<inter> set_option r = {}"
    and sub: "set_option c \<union> set_option n \<union> set_option r \<subseteq> set_option (p_current_keypair q) \<union> set_option (p_next_keypair q) \<union> set_option (p_prev_keypair q)"
    and X: "X = set_option (p_current_keypair q) \<union> set_option (p_next_keypair q) \<union> set_option (p_prev_keypair q) -
      (set_option c \<union> set_option n \<union> set_option r)"
  shows "heap_inv X (upd_peer p f dev)"
proof (rule heap_inv_view [OF inv p q, of f, OF v])
  have vp: "views dev p = Some (p_current_keypair q, p_next_keypair q, p_prev_keypair q, hs_local_index (p_handshake q))"
    using q by (simp add: views_def view_def)
  show "distinct (kps (Some (c, n, r, hs_local_index (p_handshake q))))" using dis unfolding distinct_kps by blast
  show "set (kps (Some (c, n, r, hs_local_index (p_handshake q)))) \<subseteq> set (kps (views dev p)) \<union> {}"
    using sub unfolding vp kps_opt by blast
  show "X = {} \<union> set (kps (views dev p)) - set (kps (Some (c, n, r, hs_local_index (p_handshake q))))"
    unfolding X vp kps_opt by blast
  show "hs_idx (Some (c, n, r, hs_local_index (p_handshake q))) = hs_idx (views dev p) \<or>
      (\<forall>i e. index_table_lookup (d_index_table dev) i = Some e \<longrightarrow> ie_type e = IDX_HANDSHAKE \<longrightarrow> ie_peer e \<noteq> Some p)"
    unfolding vp by simp
qed blast

lemma heap_inv_disjoint:
  assumes "heap_inv {} dev" "p \<in> set (d_peers dev)" "peer_mem dev p = Some q"
  shows "set_option (p_current_keypair q) \<inter> set_option (p_next_keypair q) = {}"
    "set_option (p_current_keypair q) \<inter> set_option (p_prev_keypair q) = {}"
    "set_option (p_next_keypair q) \<inter> set_option (p_prev_keypair q) = {}"
proof -
  have "views dev p = Some (p_current_keypair q, p_next_keypair q, p_prev_keypair q, hs_local_index (p_handshake q))"
    using assms(3) by (simp add: views_def view_def)
  then have "distinct (kps (Some (p_current_keypair q, p_next_keypair q, p_prev_keypair q, hs_local_index (p_handshake q))))"
    using core_invD(3) [OF assms(1) [unfolded heap_inv_def] assms(2)] by simp
  then show "set_option (p_current_keypair q) \<inter> set_option (p_next_keypair q) = {}"
    "set_option (p_current_keypair q) \<inter> set_option (p_prev_keypair q) = {}"
    "set_option (p_next_keypair q) \<inter> set_option (p_prev_keypair q) = {}" unfolding distinct_kps by blast+
qed

lemma free_keypairs_inv:
  assumes inv: "heap_inv {} dev" and p: "p \<in> set (d_peers dev)"
  shows "heap_inv {} (free_keypairs sd dev p)"
proof -
  obtain q where q: "peer_mem dev p = Some q" using heap_inv_peer [OF inv p] by blast
  note dis = heap_inv_disjoint [OF inv p q]
  show ?thesis
    unfolding free_keypairs_eq [OF q]
    by (rule heap_inv_keypair_free [OF heap_inv_keypair_free [OF heap_inv_keypair_free [OF heap_inv_drop
        [OF inv p q, of _ None None None, OF _ _ _ _ _ refl] _ refl] _ refl]])
      (use dis in \<open>auto simp: view_def\<close>)
qed

lemma free_keypairs_same [simp]: "d_peers (free_keypairs sd dev p) = d_peers dev" "d_allowedips (free_keypairs sd dev p) = d_allowedips dev"
  by (simp_all add: free_keypairs_def Let_def)

lemma confirm_keypair_keeps:
  assumes p: "p \<in> set (d_peers dev)"
  shows "keeps {} dev (confirm_keypair sd dev p k)"
proof -
  have "heap_inv {} (confirm_keypair sd dev p k)" if inv: "heap_inv {} dev"
  proof -
    obtain q where q: "peer_mem dev p = Some q" "peer_at dev p = q" using heap_inv_peer [OF inv p] by blast
    note dis = heap_inv_disjoint [OF inv p q(1)]
    show ?thesis
    proof (cases "p_next_keypair q = Some k")
      case True
      show ?thesis
        unfolding confirm_keypair_def q(2) Let_def if_P [OF True]
        by (rule heap_inv_keypair_free [OF heap_inv_drop [OF inv p q(1), of _ "Some k" None "p_current_keypair q", OF _ _ _ _ _ refl]])
          (use dis True in \<open>auto simp: view_def\<close>)
    next
      case False
      then show ?thesis using inv q by (simp add: confirm_keypair_def)
    qed
  qed
  moreover have "quiet dev (confirm_keypair sd dev p k)"
    unfolding confirm_keypair_def Let_def by (auto intro!: quiet_free quiet_ptr simp: tstate_def closed_def)
  ultimately show ?thesis by (simp add: keeps_def) (simp add: confirm_keypair_def Let_def)
qed

section \<open>Transport messages and timers\<close>

lemma handle_transport_keeps:
  assumes inv: "heap_inv {} dev"
  shows "keeps {} dev (handle_transport sd dev src buf)"
proof (rule postD [of "keeps {} dev"])
  have mem: "p \<in> set (d_peers dev)" if "index_table_lookup (d_index_table dev) i = Some e" "ie_peer e = Some p" for i e p
    using core_invD(8) [OF inv [unfolded heap_inv_def] that(1)] that(2) by auto
  have confirm: "keeps {} dev (confirm_keypair sd D p k)" if "keeps {} dev D" "p \<in> set (d_peers dev)" for D p k
    using keeps_trans [OF that(1) confirm_keypair_keeps] that keeps_peers by metis
  have commit: "keeps {} dev (upd_kp k (\<lambda>x. x\<lparr>kp_replay := f\<rparr>) D)" if "keeps {} dev D" for D k f
    by (rule keeps_coreI [OF same_core_upd_kp that]) simp
  have bytes: "keeps {} dev D \<Longrightarrow> keeps {} dev (upd_peer p (\<lambda>q. q\<lparr>p_rx_bytes := p_rx_bytes q + n\<rparr>) D)" for D n p
    by (rule keeps_upd) (simp_all add: mild_defs)
  show "post (keeps {} dev) (handle_transport sd dev src buf)"
    unfolding handle_transport_def
    by (intro post_rules; rule postI;
      (rule keeps_refl commit bytes confirm same_core_misc(2,4) [THEN keeps_coreI] same_core_buffers(5,6) [THEN keeps_coreI]
         same_core_timers(3) [THEN keeps_coreI]
       | (rule keeps_eq, assumption) | (rule keeps_pair, assumption) | (rule keeps_snd, assumption)
       | (rule mem, assumption, simp; fail))+)
qed

lemma on_udp_recv_safe:
  assumes inv: "heap_inv {} dev"
  shows "safe dev (on_udp_recv sd dev nread rxbuf data addr)"
proof (rule postD [of "safe dev"])
  have rel: "keeps {} dev (udp_recv_buffer_release D b)" if "keeps {} dev D" for D b
    using that by (rule same_core_buffers(7) [THEN keeps_coreI])
  have h: "safe dev (if t = MSG_INITIATION then handle_initiation sd dev src data
      else if t = MSG_RESPONSE then handle_response sd dev src data
      else if t = MSG_COOKIE_REPLY then Some (handle_cookie_reply sd dev data)
      else if t = MSG_TRANSPORT then Some (handle_transport sd dev src data) else Some dev)" for t src
    using handle_initiation_safe [OF inv] handle_response_safe [OF inv] handle_cookie_reply_keeps handle_transport_keeps [OF inv]
    by (simp add: safe_def)
  have k: "keeps {} dev D" if "x = Some D" "x = r" "safe dev r" for x r D using that by (simp add: safe_def)
  have loop: "post (safe dev) None" by (simp add: post_def safe_def)
  show "post (safe dev) (on_udp_recv sd dev nread rxbuf data addr)"
    unfolding on_udp_recv_def
    by (intro post_rules safe_some rel keeps_refl loop; rule k, assumption, assumption, rule h)
qed

text \<open>A route leads to a peer of the list.\<close>

lemma routed_peer:
  assumes "routes_inv dev"
  shows "allowedips_lookup_v4 (d_allowedips dev) a = Some p \<Longrightarrow> p \<in> set (d_peers dev)"
    "allowedips_lookup_v6 (d_allowedips dev) a = Some p \<Longrightarrow> p \<in> set (d_peers dev)"
proof -
  have i: "allowedips_inv (d_allowedips dev)" using assms by (simp add: routes_inv_def)
  show "p \<in> set (d_peers dev)" if "allowedips_lookup_v4 (d_allowedips dev) a = Some p"
    using v4.lookup_routed [OF i that] assms unfolding routes_inv_def by blast
  show "p \<in> set (d_peers dev)" if "allowedips_lookup_v6 (d_allowedips dev) a = Some p"
    using v6.lookup_routed [OF i that] assms unfolding routes_inv_def by blast
qed

lemma tun_packet_keeps:
  assumes "routes_inv dev"
  shows "keeps X dev (tun_packet sd buf dev)"
  using routed_peer [OF assms] device_send_to_peer_keeps
  by (auto simp: tun_packet_def Let_def split: option.splits if_splits)

lemma on_tun_readable_keeps:
  assumes "routes_inv dev"
  shows "keeps X dev (on_tun_readable sd dev status pkts)"
proof -
  have "keeps X dev (fold (tun_packet sd) pkts D)" if "keeps X dev D" for D
    using that
  proof (induction pkts arbitrary: D)
    case (Cons b pkts)
    have "routes_inv D" using Cons.prems assms by (simp add: keeps_def routes_inv_def)
    from Cons.IH [OF keeps_trans [OF Cons.prems tun_packet_keeps [OF this]]] show ?case by simp
  qed simp
  then show ?thesis by (simp add: on_tun_readable_def)
qed

lemma device_send_ip_packet_keeps:
  assumes "routes_inv dev" "\<not> (d_socks5_mode dev \<and> d_tcp_worker dev)"
  shows "keeps X dev (snd (device_send_ip_packet sd enq dev pkt))"
  using routed_peer [OF assms(1)] device_send_to_peer_keeps assms(2)
  by (auto simp: device_send_ip_packet_def Let_def split: option.splits)

lemma timer_callbacks_keep:
  assumes p: "p \<in> set (d_peers dev)"
  shows "keeps {} dev (cb_retransmit_handshake sd dev p)" "keeps {} dev (cb_send_keepalive sd dev p)"
    "keeps {} dev (cb_new_handshake sd dev p)" "keeps {} dev (cb_persistent_keepalive sd dev p)"
proof -
  have force: "keeps {} dev D \<Longrightarrow> keeps {} dev (snd (device_initiate_handshake_force sd D p))" for D
    using keeps_trans device_initiate_handshake_keeps(2) keeps_peers p by metis
  show "keeps {} dev (cb_retransmit_handshake sd dev p)"
    unfolding cb_retransmit_handshake_def Let_def
    by (auto intro!: same_core_timers(6,8) [THEN keeps_coreI] keeps_upd force simp: mild_defs)
  show "keeps {} dev (cb_send_keepalive sd dev p)" "keeps {} dev (cb_persistent_keepalive sd dev p)"
    unfolding cb_send_keepalive_def cb_persistent_keepalive_def Let_def
    by (auto intro!: keeps_upd device_send_keepalive_keeps p simp: mild_defs)
  show "keeps {} dev (cb_new_handshake sd dev p)"
    by (simp add: cb_new_handshake_def device_initiate_handshake_keeps(1) [OF p])
qed

section \<open>Zeroing keys, removing and adding peers\<close>

lemma no_handshake_entry:
  assumes inv: "heap_inv X dev" and q: "peer_mem dev p = Some q"
    and e: "index_table_lookup (d_index_table (dev_index_delete dev (hs_local_index (p_handshake q)))) i = Some e" "ie_type e = IDX_HANDSHAKE"
  shows "ie_peer e \<noteq> Some p"
proof
  assume p: "ie_peer e = Some p"
  have "index_table_lookup (d_index_table dev) i = Some e" using e(1) by (simp add: dev_index_delete_def lookup_delete split: if_splits)
  from core_invD(7,8) [OF inv [unfolded heap_inv_def] this] p e(2)
  have "i \<noteq> 0" "i = hs_local_index (p_handshake q)" using q by (auto simp: entry_ok_def views_def view_def)
  then show False using e(1) by (simp add: dev_index_delete_def lookup_delete)
qed

lemma quiet_free_keypairs: "quiet dev D \<Longrightarrow> quiet dev (free_keypairs sd D p)"
  unfolding free_keypairs_def Let_def by (intro quiet_ptr quiet_free) (auto simp: tstate_def closed_def)

lemma free_keypairs_peer:
  assumes "peer_mem dev p = Some q"
  shows "peer_mem (free_keypairs sd dev p) p = Some (q\<lparr>p_current_keypair := None, p_next_keypair := None, p_prev_keypair := None\<rparr>)"
  using assms by (simp add: free_keypairs_eq)

lemma dev_index_delete_same [simp]: "d_peers (dev_index_delete dev i) = d_peers dev" "d_allowedips (dev_index_delete dev i) = d_allowedips dev"
  "peer_mem (dev_index_delete dev i) = peer_mem dev" "peer_at (dev_index_delete dev i) p = peer_at dev p"
  by (simp_all add: dev_index_delete_def peer_at_def)

lemma cb_zero_key_material_keeps:
  assumes p: "p \<in> set (d_peers dev)"
  shows "keeps {} dev (cb_zero_key_material sd dev p)"
proof -
  let ?F = "free_keypairs sd dev p"
  have "heap_inv {} (cb_zero_key_material sd dev p)" if inv: "heap_inv {} dev"
  proof -
    obtain q where q: "peer_mem dev p = Some q" using heap_inv_peer [OF inv p] by blast
    note F = free_keypairs_inv [OF inv p, of sd] and f = free_keypairs_peer [OF q, of sd]
    have at: "peer_at ?F p = q\<lparr>p_current_keypair := None, p_next_keypair := None, p_prev_keypair := None\<rparr>" using f by (simp add: peer_at_def)
    show ?thesis
      unfolding cb_zero_key_material_def Let_def upd_hs_def
      by (rule heap_inv_index [OF heap_inv_delete [OF F]])
        (use p f no_handshake_entry [OF F f] in \<open>auto simp: view_def at\<close>)
  qed
  moreover have "quiet dev (cb_zero_key_material sd dev p)"
    unfolding cb_zero_key_material_def Let_def upd_hs_def
    by (rule quiet_ptr, rule quiet_trans [OF quiet_free_keypairs [OF quiet_same [OF refl], where sd = sd and p = p] quiet_same])
      (auto simp: tstate_def closed_def)
  ultimately show ?thesis by (simp add: keeps_def) (simp add: cb_zero_key_material_def Let_def upd_hs_def)
qed

text \<open>After the teardown nothing refers to the peer any more.\<close>

definition unreferenced :: "wg_device \<Rightarrow> peer_ref \<Rightarrow> bool" where
  "unreferenced dev p \<longleftrightarrow> kps (views dev p) = [] \<and>
     (\<forall>i e. index_table_lookup (d_index_table dev) i = Some e \<longrightarrow> ie_peer e \<noteq> Some p) \<and>
     (\<forall>x. routes (root4 (d_allowedips dev)) x \<noteq> Some p \<and> routes (root6 (d_allowedips dev)) x \<noteq> Some p)"

lemma heap_inv_cong:
  "d_peers D = d_peers dev \<Longrightarrow> d_index_table D = d_index_table dev \<Longrightarrow> views D = views dev \<Longrightarrow> kp_idx D = kp_idx dev \<Longrightarrow>
     e_brk D = e_brk dev \<Longrightarrow> heap_inv X D = heap_inv X dev"
  by (simp add: heap_inv_def)


text \<open>The teardown up to the point where the timer handles are closed.\<close>

definition teardown_core :: "sodium \<Rightarrow> wg_device \<Rightarrow> peer_ref \<Rightarrow> wg_device" where
  "teardown_core sd dev p =
     (let dev = timers_stop dev p;
          dev = dev\<lparr>d_allowedips := allowedips_remove_peer (d_allowedips dev) p\<rparr>;
          dev = free_keypairs sd dev p;
          dev = dev_index_delete dev (hs_local_index (p_handshake (peer_at dev p)))
      in upd_peer p (\<lambda>q. q\<lparr>p_allowedips := allowedips_free (p_allowedips q)\<rparr>) dev)"

lemma peer_teardown_split: "peer_teardown sd dev p = timers_close (teardown_core sd dev p) p"
  by (simp add: peer_teardown_def teardown_core_def Let_def)

lemma teardown_core_spec:
  assumes inv: "heap_inv {} dev" and r: "allowedips_inv (d_allowedips dev)" and p: "p \<in> set (d_peers dev)"
  shows "heap_inv {} (teardown_core sd dev p) \<and> d_peers (teardown_core sd dev p) = d_peers dev \<and> quiet dev (teardown_core sd dev p) \<and>
    d_allowedips (teardown_core sd dev p) = allowedips_remove_peer (d_allowedips dev) p \<and> unreferenced (teardown_core sd dev p) p"
proof -
  let ?r = "allowedips_remove_peer (d_allowedips dev) p"
  define d1 where "d1 = timers_stop dev p"
  define d2 where "d2 = d1\<lparr>d_allowedips := ?r\<rparr>"
  define d3 where "d3 = free_keypairs sd d2 p"
  define d4 where "d4 = dev_index_delete d3 (hs_local_index (p_handshake (peer_at d3 p)))"
  define d5 where "d5 = upd_peer p (\<lambda>q. q\<lparr>p_allowedips := allowedips_free (p_allowedips q)\<rparr>) d4"
  have s1: "same_core dev d1" unfolding d1_def by (rule same_core_timers)
  then have a1: "d_allowedips d1 = d_allowedips dev" by (simp add: same_core_def)
  have eq: "teardown_core sd dev p = d5" by (simp add: teardown_core_def Let_def d5_def d4_def d3_def d2_def d1_def a1 [unfolded d1_def])
  have i2: "heap_inv {} d2" "d_peers d2 = d_peers dev" "quiet dev d2"
    using same_core_heap_inv [OF s1 inv] s1 heap_inv_cong [of d2 d1 "{}"]
    by (simp_all add: d2_def same_core_def) (simp add: quiet_def)
  have p2: "p \<in> set (d_peers d2)" using p i2 by simp
  obtain q where q: "peer_mem d2 p = Some q" using heap_inv_peer [OF i2(1) p2] by blast
  have i3: "heap_inv {} d3" unfolding d3_def by (rule free_keypairs_inv [OF i2(1) p2])
  have q3: "peer_mem d3 p = Some (q\<lparr>p_current_keypair := None, p_next_keypair := None, p_prev_keypair := None\<rparr>)"
    unfolding d3_def by (rule free_keypairs_peer [OF q])
  have i5: "heap_inv {} d5"
    unfolding d5_def by (rule same_core_heap_inv [OF same_core_upd_peer]) (simp_all add: mild_defs d4_def heap_inv_delete [OF i3])
  have k5: "kps (views d5 p) = []" using q3 by (simp add: d5_def d4_def views_def upd_peer_def view_def)
  have "ie_peer e \<noteq> Some p" if e: "index_table_lookup (d_index_table d5) i = Some e" for i e
  proof
    assume pe: "ie_peer e = Some p"
    from core_invD(8) [OF i5 [unfolded heap_inv_def] e] pe have "entry_ok (views d5) (kp_idx d5) {} i e p" by auto
    then have "ie_type e = IDX_HANDSHAKE" using k5 by (auto simp: entry_ok_def split: idx_type.splits)
    moreover have "index_table_lookup (d_index_table d4) i = Some e" using e by (simp add: d5_def)
    ultimately show False using no_handshake_entry [OF i3 q3] pe q3 by (simp add: d4_def peer_at_def)
  qed
  then have u: "unreferenced d5 p"
    using k5 v4.del_table [OF r] v6.del_table [OF r] a1
    by (simp add: unreferenced_def d5_def d4_def d3_def d2_def)
  have "quiet dev d3" unfolding d3_def by (rule quiet_free_keypairs [OF i2(3)])
  then have "quiet dev d4" unfolding d4_def by (rule quiet_trans) (rule quiet_same, simp)
  then have "quiet dev d5" unfolding d5_def by (rule quiet_ptr) (simp add: tstate_def closed_def)
  then show ?thesis using i5 u i2(2) unfolding eq by (simp add: d5_def d4_def d3_def) (simp add: d2_def)
qed

text \<open>Closing the handles of a peer only changes its timers.\<close>

lemma timers_close_core:
  "d_peers (timers_close dev p) = d_peers dev" "d_allowedips (timers_close dev p) = d_allowedips dev"
  "d_index_table (timers_close dev p) = d_index_table dev" "views (timers_close dev p) = views dev"
  "kp_idx (timers_close dev p) = kp_idx dev" "e_brk (timers_close dev p) = e_brk dev"
  "p' \<noteq> p \<Longrightarrow> peer_mem (timers_close dev p) p' = peer_mem dev p'"
  by (auto simp: timers_close_def upd_peer_def views_def kp_idx_def fun_eq_iff view_def option.map_comp intro!: option.map_cong0)

lemma peer_teardown_list:
  "peer_teardown sd (dev\<lparr>d_peers := P, d_peer_count := n\<rparr>) p = (peer_teardown sd dev p)\<lparr>d_peers := P, d_peer_count := n\<rparr>"
proof -
  have kf: "keypair_free sd (D\<lparr>d_peers := P, d_peer_count := n\<rparr>) k = (keypair_free sd D k)\<lparr>d_peers := P, d_peer_count := n\<rparr>" for D k
    by (cases k) (simp_all add: keypair_free_def dev_index_delete_def upd_kp_def kp_release_def kp_at_def Let_def)
  have up: "upd_peer p f (D\<lparr>d_peers := P, d_peer_count := n\<rparr>) = (upd_peer p f D)\<lparr>d_peers := P, d_peer_count := n\<rparr>" for f D
    by (simp add: upd_peer_def)
  have pa: "peer_at (D\<lparr>d_peers := P, d_peer_count := n\<rparr>) p = peer_at D p" for D by (simp add: peer_at_def)
  have id: "dev_index_delete (D\<lparr>d_peers := P, d_peer_count := n\<rparr>) i = (dev_index_delete D i)\<lparr>d_peers := P, d_peer_count := n\<rparr>" for D i
    by (simp add: dev_index_delete_def)
  have fk: "free_keypairs sd (D\<lparr>d_peers := P, d_peer_count := n\<rparr>) p = (free_keypairs sd D p)\<lparr>d_peers := P, d_peer_count := n\<rparr>" for D
    by (simp add: free_keypairs_def Let_def kf up pa)
  have ts: "timers_stop (D\<lparr>d_peers := P, d_peer_count := n\<rparr>) p = (timers_stop D p)\<lparr>d_peers := P, d_peer_count := n\<rparr>" for D
    by (simp add: timers_stop_def up pa)
  have tc: "timers_close (D\<lparr>d_peers := P, d_peer_count := n\<rparr>) p = (timers_close D p)\<lparr>d_peers := P, d_peer_count := n\<rparr>" for D
    by (simp add: timers_close_def up pa)
  have sel: "d_allowedips (D\<lparr>d_peers := P, d_peer_count := n\<rparr>) = d_allowedips D" for D by simp
  have al: "D\<lparr>d_peers := P, d_peer_count := n\<rparr>\<lparr>d_allowedips := a\<rparr> = D\<lparr>d_allowedips := a\<rparr>\<lparr>d_peers := P, d_peer_count := n\<rparr>" for D a by simp
  show ?thesis
    by (simp only: peer_teardown_def Let_def ts al sel fk id up pa tc)
qed

lemma device_remove_peer_eq:
  assumes "p \<in> set (d_peers dev)"
  shows "device_remove_peer sd dev p = (peer_teardown sd dev p)\<lparr>d_peers := remove1 p (d_peers dev), d_peer_count := d_peer_count dev - 1\<rparr>"
  using assms by (simp add: device_remove_peer_def peer_teardown_list)

lemma peer_teardown_inv:
  assumes inv: "dev_inv dev" and p: "p \<in> set (d_peers dev)"
  shows "dev_inv ((peer_teardown sd dev p)\<lparr>d_peers := remove1 p (d_peers dev), d_peer_count := n\<rparr>)"
proof -
  let ?c = "teardown_core sd dev p" and ?P = "remove1 p (d_peers dev)"
  let ?D = "(timers_close ?c p)\<lparr>d_peers := ?P, d_peer_count := n\<rparr>"
  have h: "heap_inv {} dev" and r: "allowedips_inv (d_allowedips dev)" and l: "live_inv dev" and rt: "routes_inv dev"
    using inv by (simp_all add: dev_inv_def routes_inv_def)
  note t = teardown_core_spec [OF h r p, of sd]
  have ind: "distinct (d_peers dev)" using core_invD(1) [OF h [unfolded heap_inv_def]] .
  have set: "set ?P = set (d_peers dev) - {p}" using ind by (rule set_remove1_eq)
  have "core_inv ?P (index_table_lookup (d_index_table ?c)) (views ?c) (kp_idx ?c) (e_brk ?c) {}"
    using core_inv_remove [of "d_peers dev" _ "views ?c" "kp_idx ?c" _ "{}" p] t
    unfolding heap_inv_def unreferenced_def by auto
  then have H: "heap_inv {} ?D" by (simp add: heap_inv_def timers_close_core)
  have R: "routes_inv ?D"
    using rt t v4.del_inv [OF r] v4.del_table [OF r] v6.del_table [OF r]
    unfolding routes_inv_def by (auto simp: timers_close_core set split: if_splits)
  have "live_inv ?c" using quiet_live [OF _ _ l] t by blast
  then have lc: "peer_mem ?c p' = Some q \<Longrightarrow> if p' \<in> set (d_peers dev) then tstate q = (False, 5) else fst (tstate q) \<and> snd (tstate q) \<noteq> 0" for p' q
    using t unfolding live_inv_def by auto
  have L: "live_inv ?D"
    unfolding live_inv_def
  proof (intro allI impI)
    fix p' q
    assume m: "peer_mem ?D p' = Some q"
    show "if p' \<in> set (d_peers ?D) then tstate q = (False, 5) else fst (tstate q) \<and> snd (tstate q) \<noteq> 0"
    proof (cases "p' = p")
      case True
      obtain q0 where q0: "peer_mem ?c p = Some q0" using m True by (auto simp: timers_close_def upd_peer_def split: if_splits)
      then have "p_timer_close_count q0 = 5" using lc [OF q0] p by (simp add: tstate_def)
      then have "closed q \<and> p_timer_close_count q = 5"
        using m q0 True by (auto simp: timers_close_def upd_peer_def peer_at_def closed_def uv_close_def)
      then show ?thesis using True set by (simp add: tstate_def)
    next
      case False
      then show ?thesis using lc [of p' q] m set by (simp add: timers_close_core)
    qed
  qed
  show ?thesis unfolding peer_teardown_split dev_inv_def using H R L by blast
qed

lemma device_remove_peer_inv:
  "dev_inv dev \<Longrightarrow> p \<in> set (d_peers dev) \<Longrightarrow> dev_inv (device_remove_peer sd dev p)"
  by (simp add: device_remove_peer_eq peer_teardown_inv)

lemma device_remove_all_peers_inv:
  assumes "dev_inv dev"
  shows "dev_inv (device_remove_all_peers sd dev)"
proof -
  have com: "fold (\<lambda>p d. peer_teardown sd d p) L (D\<lparr>d_peers := P, d_peer_count := n\<rparr>) =
      (fold (\<lambda>p d. peer_teardown sd d p) L D)\<lparr>d_peers := P, d_peer_count := n\<rparr>" for L D P n
    by (induction L arbitrary: D) (simp_all add: peer_teardown_list)
  have "dev_inv ((fold (\<lambda>p d. peer_teardown sd d p) L D)\<lparr>d_peers := [], d_peer_count := 0\<rparr>)"
    if "dev_inv D" "d_peers D = L" for L D
    using that
  proof (induction L arbitrary: D)
    case Nil
    then show ?case by (simp add: dev_inv_def heap_inv_def routes_inv_def live_inv_def views_def kp_idx_def)
  next
    case (Cons p L)
    let ?D = "(peer_teardown sd D p)\<lparr>d_peers := L, d_peer_count := d_peer_count D\<rparr>"
    have "dev_inv ?D" using peer_teardown_inv [OF Cons.prems(1), where p = p and sd = sd and n = "d_peer_count D"] Cons.prems(2) by simp
    from Cons.IH [OF this] show ?case by (simp add: com)
  qed
  from this [OF assms refl] show ?thesis by (simp add: device_remove_all_peers_def com)
qed

text \<open>The close callbacks: the last one frees the peer.\<close>

lemma peer_close_cb_inv:
  assumes inv: "dev_inv dev" and q: "peer_mem dev p = Some q" "closed q"
  shows "dev_inv (peer_close_cb dev p)"
proof -
  let ?n = "p_timer_close_count q - 1"
  let ?D = "upd_peer p (\<lambda>q. q\<lparr>p_timer_close_count := ?n\<rparr>) dev"
  have h: "heap_inv {} dev" and r: "routes_inv dev" and l: "live_inv dev" using inv by (simp_all add: dev_inv_def)
  have p: "p \<notin> set (d_peers dev)" using l q by (auto simp: live_inv_def tstate_def split: if_splits)
  have v: "views ?D = views dev" "kp_idx ?D = kp_idx dev" "e_brk ?D = e_brk dev"
    by (auto simp: views_def kp_idx_def upd_peer_def fun_eq_iff view_def option.map_comp intro!: option.map_cong0)
  then have h1: "heap_inv {} ?D" using heap_inv_cong [of ?D dev "{}"] h by simp
  have eq: "peer_close_cb dev p = (if ?n = 0 then ?D\<lparr>peer_mem := (peer_mem ?D)(p := None)\<rparr> else ?D)"
    using q by (simp add: peer_close_cb_def Let_def peer_at_def)
  show ?thesis
  proof (cases "?n = 0")
    case True
    let ?E = "?D\<lparr>peer_mem := (peer_mem ?D)(p := None)\<rparr>"
    have "views ?E = (views ?D)(p := None)" by (auto simp: views_def fun_eq_iff)
    then have "heap_inv {} ?E" using core_inv_free_peer [OF h1 [unfolded heap_inv_def]] p by (simp add: heap_inv_def)
    moreover have "live_inv ?E" using l by (auto simp: live_inv_def upd_peer_def)
    ultimately show ?thesis using True r by (simp add: eq dev_inv_def routes_inv_def)
  next
    case False
    have "live_inv ?D" using l p q False by (auto simp: live_inv_def upd_peer_def tstate_def closed_def split: if_splits)
    then show ?thesis using False r h1 by (simp add: eq dev_inv_def routes_inv_def)
  qed
qed

lemma device_add_peer_inv:
  assumes inv: "dev_inv dev"
  shows "dev_inv (snd (device_add_peer sd dev pk))"
proof -
  have h: "heap_inv {} dev" and r: "routes_inv dev" and l: "live_inv dev" using inv by (simp_all add: dev_inv_def)
  have call: "dev_inv D" if "calloc dev = (a, D)" for a D
    using keeps_dev_inv [OF keeps_core [OF same_core_calloc [of dev]] inv] that by simp
  show ?thesis
  proof (cases "device_find_peer sd dev pk = None \<and> fst (calloc dev) \<noteq> None")
    case True
    then obtain D where D: "calloc dev = (Some (e_brk dev), D)" "D = dev\<lparr>e_brk := e_brk dev + 1, e_calloc := \<lambda>i. e_calloc dev (i + 1)\<rparr>"
      by (auto simp: calloc_def split: if_splits)
    define b where "b = e_brk dev"
    obtain q where q: "snd (device_add_peer sd dev pk) = D\<lparr>peer_mem := (peer_mem D)(b \<mapsto> q), d_peers := b # d_peers D, d_peer_count := d_peer_count D + 1\<rparr>"
      and v: "view q = (None, None, None, 0)" and t: "tstate q = (False, 5)"
      using True unfolding device_add_peer_def Let_def D(1)
      by (simp add: timers_init_def noise_precompute_static_static_def upd_hs_def upd_peer_def peer_at_def Let_def b_def split: prod.splits if_splits)
        (auto simp: view_def tstate_def closed_def uv_timer_init_def noise_handshake_init_def peer_zero_def handshake_zero_def)
    let ?E = "snd (device_add_peer sd dev pk)"
    have fresh: "peer_mem dev b = None"
    proof -
      have "views dev b = None" using core_invD(10) [OF h [unfolded heap_inv_def], of b] unfolding b_def by blast
      then show ?thesis by (simp add: views_def)
    qed
    have "views ?E = (views dev)(b \<mapsto> (None, None, None, 0))" "kp_idx ?E = kp_idx dev" "e_brk ?E = Suc b" "d_index_table ?E = d_index_table dev"
      using v by (auto simp: q D(2) views_def kp_idx_def fun_eq_iff b_def)
    then have "heap_inv {} ?E" using core_inv_add [OF h [unfolded heap_inv_def]] by (simp add: heap_inv_def q D(2) b_def)
    moreover have "routes_inv ?E" using r by (auto simp: routes_inv_def q D(2))
    moreover have "live_inv ?E" using l t fresh by (auto simp: live_inv_def q D(2))
    ultimately show ?thesis by (simp add: dev_inv_def)
  next
    case False
    then show ?thesis using call inv by (auto simp: device_add_peer_def split: option.splits prod.splits)
  qed
qed

section \<open>Configuration\<close>

lemma noise_set_static_key_keeps: "keeps X dev (noise_set_static_key sd dev priv)"
proof -
  have "keeps X dev (fold (\<lambda>p d. noise_precompute_static_static sd d p) L D)" if "keeps X dev D" for L D
    using that by (induction L arbitrary: D) (auto intro: same_core_misc(5) [THEN keeps_coreI])
  moreover have "same_core dev (dev\<lparr>d_private_key := a, d_public_key := b\<rparr>)" for a b
    by (simp add: same_core_def views_def kp_idx_def fun_eq_iff)
  ultimately show ?thesis by (simp add: noise_set_static_key_def Let_def keeps_core)
qed

lemma config_keeps:
  "keeps X dev (install_static_key sd dev priv)" "keeps X dev (set_preshared_key dev p psk)"
  "keeps X dev (set_endpoint dev p ss len)" "keeps X dev (set_persistent_keepalive dev p sec)"
  "keeps X dev (upd_peer p (\<lambda>q. q\<lparr>p_persistent_keepalive_ms := ms\<rparr>) dev)" "keeps X dev (timers_persistent_keepalive_set dev p)"
  unfolding install_static_key_def set_preshared_key_def set_endpoint_def set_persistent_keepalive_def upd_hs_def Let_def
  by (auto intro!: same_core_env(13) [THEN keeps_coreI] same_core_timers(7) [THEN keeps_coreI] noise_set_static_key_keeps keeps_upd simp: mild_defs)

lemma config_keeps_ports: "keeps X dev (dev\<lparr>d_listen_port := lp\<rparr>)" "keeps X dev (dev\<lparr>d_fwmark := fw\<rparr>)"
  by (rule keeps_core, simp add: same_core_def views_def kp_idx_def fun_eq_iff)+

text \<open>Changing the device-wide table to one whose routes lead to listed peers, and the table of one peer.\<close>

lemma dev_inv_routes:
  assumes inv: "dev_inv dev" and "allowedips_inv t"
    and "\<And>x p. routes (root4 t) x = Some p \<or> routes (root6 t) x = Some p \<Longrightarrow> p \<in> set (d_peers dev)"
  shows "dev_inv (upd_peer p (\<lambda>q. q\<lparr>p_allowedips := g q\<rparr>) (dev\<lparr>d_allowedips := t\<rparr>))"
proof -
  have "dev_inv (dev\<lparr>d_allowedips := t\<rparr>)"
    using assms heap_inv_cong [of "dev\<lparr>d_allowedips := t\<rparr>" dev "{}"] by (auto simp: dev_inv_def routes_inv_def live_inv_def)
  then show ?thesis by (rule keeps_dev_inv [rotated]) (rule keeps_upd [OF _ keeps_refl], simp add: mild_defs)
qed

lemma replace_allowed_ips_inv:
  assumes inv: "dev_inv dev"
  shows "dev_inv (replace_allowed_ips dev p)"
  unfolding replace_allowed_ips_def
proof (rule dev_inv_routes [OF inv])
  have r: "routes_inv dev" and a: "allowedips_inv (d_allowedips dev)" using inv by (simp_all add: dev_inv_def routes_inv_def)
  show "allowedips_inv (allowedips_remove_peer (d_allowedips dev) p)" by (rule v4.del_inv [OF a])
  show "p' \<in> set (d_peers dev)" if "routes (root4 (allowedips_remove_peer (d_allowedips dev) p)) x = Some p' \<or>
      routes (root6 (allowedips_remove_peer (d_allowedips dev) p)) x = Some p'" for x p'
    using that r v4.del_table [OF a] v6.del_table [OF a] unfolding routes_inv_def by (auto split: if_splits)
qed

lemma add_allowed_ip_inv:
  assumes inv: "dev_inv dev" and p: "p \<in> set (d_peers dev)"
  shows "length a = 4 \<Longrightarrow> dev_inv (add_allowed_ip4 ok1 ok2 dev p a c)" "length a = 16 \<Longrightarrow> dev_inv (add_allowed_ip6 ok1 ok2 dev p a c)"
proof -
  have r: "\<And>x p. routes (root4 (d_allowedips dev)) x = Some p \<or> routes (root6 (d_allowedips dev)) x = Some p \<Longrightarrow> p \<in> set (d_peers dev)"
    and a: "allowedips_inv (d_allowedips dev)" using inv by (auto simp: dev_inv_def routes_inv_def)
  have o4: "root6 (snd (allowedips_insert_v4 ok t b c p)) = root6 t" for ok b and t :: "peer_ref allowedips"
    by (simp add: allowedips_insert_v4_def split: prod.splits)
  have o6: "root4 (snd (allowedips_insert_v6 ok t b c p)) = root4 t" for ok b and t :: "peer_ref allowedips"
    by (simp add: allowedips_insert_v6_def split: prod.splits)
  show "dev_inv (add_allowed_ip4 ok1 ok2 dev p a c)" if "length a = 4"
  proof -
    have l: "8 * length a = 32" using that by simp
    show ?thesis
      unfolding add_allowed_ip4_def
      by (rule dev_inv_routes [OF inv v4.ins_inv [OF a l]])
        (use insert_v4_spec [OF a l, of ok1 c p] p r in \<open>auto simp: o4 split: if_splits\<close>)
  qed
  show "dev_inv (add_allowed_ip6 ok1 ok2 dev p a c)" if "length a = 16"
  proof -
    have l: "8 * length a = 128" using that by simp
    show ?thesis
      unfolding add_allowed_ip6_def
      by (rule dev_inv_routes [OF inv v6.ins_inv [OF a l]])
        (use insert_v6_spec [OF a l, of ok1 c p] p r in \<open>auto simp: o6 split: if_splits\<close>)
  qed
qed

end
