(* ===== verification/Event_Loop.thy ===== *)
theory Event_Loop
  imports Device_Safe
begin

text \<open>
  The event loop: which callback libuv may run next in a given state, the states a device
  reaches from its initialisation, and the memory-safety invariant in each of them.
\<close>

section \<open>Events\<close>

text \<open>A timer fires when it is due and its handle is not closing; libuv stops it before it
  runs the callback (\<^verbatim>\<open>uv__run_timers\<close>).\<close>

datatype timer_kind = Retransmit | Keepalive | New_Handshake | Zero_Key | Persistent

primrec timer_of :: "timer_kind \<Rightarrow> wg_peer \<Rightarrow> uv_timer" where
  "timer_of Retransmit q = p_timer_retransmit_handshake q"
| "timer_of Keepalive q = p_timer_send_keepalive q"
| "timer_of New_Handshake q = p_timer_new_handshake q"
| "timer_of Zero_Key q = p_timer_zero_key_material q"
| "timer_of Persistent q = p_timer_persistent_keepalive q"

primrec stop_timer :: "timer_kind \<Rightarrow> wg_peer \<Rightarrow> wg_peer" where
  "stop_timer Retransmit q = q\<lparr>p_timer_retransmit_handshake := uv_timer_stop (p_timer_retransmit_handshake q)\<rparr>"
| "stop_timer Keepalive q = q\<lparr>p_timer_send_keepalive := uv_timer_stop (p_timer_send_keepalive q)\<rparr>"
| "stop_timer New_Handshake q = q\<lparr>p_timer_new_handshake := uv_timer_stop (p_timer_new_handshake q)\<rparr>"
| "stop_timer Zero_Key q = q\<lparr>p_timer_zero_key_material := uv_timer_stop (p_timer_zero_key_material q)\<rparr>"
| "stop_timer Persistent q = q\<lparr>p_timer_persistent_keepalive := uv_timer_stop (p_timer_persistent_keepalive q)\<rparr>"

primrec timer_cb :: "timer_kind \<Rightarrow> sodium \<Rightarrow> wg_device \<Rightarrow> peer_ref \<Rightarrow> wg_device" where
  "timer_cb Retransmit = cb_retransmit_handshake"
| "timer_cb Keepalive = cb_send_keepalive"
| "timer_cb New_Handshake = cb_new_handshake"
| "timer_cb Zero_Key = cb_zero_key_material"
| "timer_cb Persistent = cb_persistent_keepalive"

definition due :: "wg_device \<Rightarrow> uv_timer \<Rightarrow> bool" where
  "due dev t \<longleftrightarrow> \<not> tm_closing t \<and> (case tm_due t of None \<Rightarrow> False | Some d \<Rightarrow> d \<le> e_now dev)"

inductive step :: "sodium \<Rightarrow> wg_device \<Rightarrow> wg_device \<Rightarrow> bool" for sd where
  recv: "on_udp_alloc dev = ((b, n), D) \<Longrightarrow> length data \<le> n \<Longrightarrow> nread \<le> int (length data) \<Longrightarrow>
    on_udp_recv sd D nread b (take (nat nread) data) addr = Some dev' \<Longrightarrow> step sd dev dev'"
| tun: "step sd dev (on_tun_readable sd dev status pkts)"
| send_ip: "\<not> (d_socks5_mode dev \<and> d_tcp_worker dev) \<Longrightarrow> step sd dev (snd (device_send_ip_packet sd enq dev pkt))"
| timer: "peer_mem dev p = Some q \<Longrightarrow> due dev (timer_of k q) \<Longrightarrow> step sd dev (timer_cb k sd (upd_peer p (stop_timer k) dev) p)"
| timer_closed: "peer_mem dev p = Some q \<Longrightarrow> closed q \<Longrightarrow> step sd dev (peer_close_cb dev p)"
| sent: "b \<in> set (e_udp_pending dev) \<Longrightarrow> step sd dev (udp_send_done dev b)"
| time: "e_now dev \<le> t \<Longrightarrow> step sd dev (dev\<lparr>e_now := t\<rparr>)"
| initiate: "p \<in> set (d_peers dev) \<Longrightarrow> step sd dev (snd (device_initiate_handshake sd dev p))"
| add_peer: "step sd dev (snd (device_add_peer sd dev pk))"
| remove_peer: "p \<in> set (d_peers dev) \<Longrightarrow> step sd dev (device_remove_peer sd dev p)"
| remove_all: "step sd dev (device_remove_all_peers sd dev)"
| listen_port: "step sd dev (dev\<lparr>d_listen_port := lp\<rparr>)"
| fwmark: "step sd dev (dev\<lparr>d_fwmark := fw\<rparr>)"
| private_key: "step sd dev (install_static_key sd dev priv)"
| preshared_key: "p \<in> set (d_peers dev) \<Longrightarrow> step sd dev (set_preshared_key dev p psk)"
| endpoint: "p \<in> set (d_peers dev) \<Longrightarrow> step sd dev (set_endpoint dev p ss len)"
| keepalive: "p \<in> set (d_peers dev) \<Longrightarrow> step sd dev (set_persistent_keepalive dev p sec)"
| keepalive_ms: "p \<in> set (d_peers dev) \<Longrightarrow> step sd dev (upd_peer p (\<lambda>q. q\<lparr>p_persistent_keepalive_ms := ms\<rparr>) dev)"
| keepalive_start: "p \<in> set (d_peers dev) \<Longrightarrow> step sd dev (timers_persistent_keepalive_set dev p)"
| replace_ips: "p \<in> set (d_peers dev) \<Longrightarrow> step sd dev (replace_allowed_ips dev p)"
| allowed_ip4: "p \<in> set (d_peers dev) \<Longrightarrow> length a4 = 4 \<Longrightarrow> step sd dev (add_allowed_ip4 ok1 ok2 dev p a4 c)"
| allowed_ip6: "p \<in> set (d_peers dev) \<Longrightarrow> length a6 = 16 \<Longrightarrow> step sd dev (add_allowed_ip6 ok1 ok2 dev p a6 c)"

text \<open>A run starts with \<^verbatim>\<open>device_init\<close> on a process that holds no peer and no keypair.\<close>

inductive reachable :: "sodium \<Rightarrow> wg_device \<Rightarrow> bool" for sd where
  init: "peer_mem dev0 = Map.empty \<Longrightarrow> kp_mem dev0 = Map.empty \<Longrightarrow> device_init dev0 = (0, dev) \<Longrightarrow> reachable sd dev"
| step: "reachable sd dev \<Longrightarrow> step sd dev dev' \<Longrightarrow> reachable sd dev'"

section \<open>The invariant is preserved\<close>

lemma mild_stop_timer: "mild (stop_timer k)"
  by (cases k) (simp_all add: mild_defs tstate_def)

lemma due_listed:
  assumes "live_inv dev" "peer_mem dev p = Some q" "due dev (timer_of k q)"
  shows "p \<in> set (d_peers dev)"
  using assms by (cases k) (auto simp: live_inv_def tstate_def closed_def due_def split: if_splits)

lemma timer_cb_keeps: "p \<in> set (d_peers dev) \<Longrightarrow> keeps {} dev (timer_cb k sd dev p)"
  by (cases k) (simp_all add: timer_callbacks_keep cb_zero_key_material_keeps)

lemma device_init_inv:
  assumes "peer_mem dev0 = Map.empty" "kp_mem dev0 = Map.empty" "device_init dev0 = (0, dev)"
  shows "dev_inv dev"
proof -
  have "peer_mem dev = Map.empty \<and> kp_mem dev = Map.empty \<and> d_peers dev = [] \<and> d_allowedips dev = allowedips_init \<and>
      (\<forall>i. \<not> it_occupied (d_index_table dev) i)"
    using assms
    by (auto simp: device_init_def device_clear_def calloc_def noise_init_device_def index_table_init_def Let_def split: if_splits)
  then show ?thesis
    by (auto simp: dev_inv_def heap_inv_def core_inv_def routes_inv_def live_inv_def views_def kp_idx_def index_table_lookup_def
      allowedips_init_def allowedips_inv_def Let_def)
qed

lemma step_inv:
  assumes "step sd dev dev'" "dev_inv dev"
  shows "dev_inv dev'"
  using assms
proof (induction rule: step.induct)
  case (recv dev b n D data nread addr dev')
  have "keeps {} dev D" using recv(1) keeps_core [OF same_core_buffers(5) [of dev]] by (auto simp: on_udp_alloc_def split: prod.splits)
  then have D: "dev_inv D" using recv.prems by (rule keeps_dev_inv)
  then have "keeps {} D dev'" using on_udp_recv_safe [of D] recv(4) by (auto simp: safe_def dev_inv_def)
  then show ?case using D by (rule keeps_dev_inv)
next
  case (timer dev p q k)
  have p: "p \<in> set (d_peers dev)" using timer due_listed by (auto simp: dev_inv_def)
  have "keeps {} dev (timer_cb k sd (upd_peer p (stop_timer k) dev) p)"
    by (rule keeps_trans [OF keeps_core [OF same_core_upd_peer [OF mild_stop_timer]] timer_cb_keeps]) (use p in simp)
  then show ?case using timer.prems by (rule keeps_dev_inv)
next
  case (tun dev status pkts)
  then show ?case by (intro keeps_dev_inv [OF on_tun_readable_keeps]) (simp_all add: dev_inv_def)
next
  case (send_ip dev enq pkt)
  then show ?case by (intro keeps_dev_inv [OF device_send_ip_packet_keeps]) (simp_all add: dev_inv_def)
next
  case (initiate p dev)
  then show ?case by (intro keeps_dev_inv [OF device_initiate_handshake_keeps(1)])
next
  case (sent b dev)
  then show ?case by (intro keeps_dev_inv [OF keeps_core [OF same_core_send_done]])
next
  case (time dev t)
  then show ?case by (intro keeps_dev_inv [OF keeps_core [OF same_core_env(14)]])
qed (intro peer_close_cb_inv device_add_peer_inv device_remove_peer_inv device_remove_all_peers_inv replace_allowed_ips_inv
    add_allowed_ip_inv keeps_dev_inv [OF config_keeps(1)] keeps_dev_inv [OF config_keeps(2)] keeps_dev_inv [OF config_keeps(3)]
    keeps_dev_inv [OF config_keeps(4)] keeps_dev_inv [OF config_keeps(5)] keeps_dev_inv [OF config_keeps(6)]
    keeps_dev_inv [OF config_keeps_ports(1)] keeps_dev_inv [OF config_keeps_ports(2)]; assumption)+

lemma reachable_inv: "reachable sd dev \<Longrightarrow> dev_inv dev"
  by (induction rule: reachable.induct) (rule device_init_inv, assumption+, rule step_inv)

section \<open>Properties\<close>

definition owns :: "wg_peer \<Rightarrow> kp_ref \<Rightarrow> bool" where
  "owns q k \<longleftrightarrow> Some k \<in> {p_current_keypair q, p_next_keypair q, p_prev_keypair q}"

lemma listed_peer:
  assumes "heap_inv {} dev" "p \<in> set (d_peers dev)"
  obtains q where "peer_mem dev p = Some q" "set (kps (views dev p)) = {k. owns q k}" "hs_idx (views dev p) = hs_local_index (p_handshake q)"
proof -
  obtain q where "peer_mem dev p = Some q" using heap_inv_peer [OF assms] by blast
  then show ?thesis
    by (intro that) (auto simp: views_def view_def owns_def kps_opt simp del: kps.simps)
qed


text \<open>A run on which the hypothesis holds: initialisation, a peer added, a handshake initiated.\<close>

lemma example_reachable:
  "reachable sodium_example (snd (device_add_peer sodium_example (snd (device_init device_zero)) (replicate 32 9)))"
proof (rule reachable.step [OF _ step.add_peer], rule reachable.init)
  show "peer_mem device_zero = Map.empty" "kp_mem device_zero = Map.empty" by (simp_all add: device_zero_def)
  show "device_init device_zero = (0, snd (device_init device_zero))"
    by (simp add: device_init_def calloc_def device_clear_def device_zero_def Let_def)
qed


end
