(* ===== verification/Fifo.thy ===== *)
theory Fifo
  imports Prelude
begin

text \<open>
  Bounded first-in first-out queues in circular arrays: the sequence a ring holds, the
  lemmas on writing at its end and dropping its front, and the contract that the ring
  queues of the program (staged packets, worker rings) provide.
\<close>

section \<open>Circular arrays\<close>

definition ring :: "nat \<Rightarrow> (nat \<Rightarrow> 'a) \<Rightarrow> nat \<Rightarrow> nat \<Rightarrow> 'a list" where
  "ring cap f head n = map (\<lambda>i. f ((head + i) mod cap)) [0..<n]"

lemma length_ring [simp]: "length (ring cap f head n) = n"
  by (simp add: ring_def)

lemma ring_0 [simp]: "ring cap f head 0 = []"
  by (simp add: ring_def)

lemma ring_slot_distinct:
  assumes "i < n" "n < (cap::nat)"
  shows "(head + i) mod cap \<noteq> (head + n) mod cap"
  using mod_eq_close [of "head + n" cap "head + i"] assms by auto

lemma ring_push:
  assumes "n < cap"
  shows "ring cap (f((head + n) mod cap := x)) head (Suc n) = ring cap f head n @ [x]"
  using ring_slot_distinct [OF _ assms] by (auto simp: ring_def)

lemma ring_pop: "ring cap f ((head + 1) mod cap) n = tl (ring cap f head (Suc n))"
  unfolding ring_def by (simp add: upt_conv_Cons map_Suc_upt [symmetric] mod_add_left_eq del: upt_Suc)

lemma ring_hd: "0 < n \<Longrightarrow> head < cap \<Longrightarrow> hd (ring cap f head n) = f head"
  by (simp add: ring_def upt_conv_Cons)

lemma ring_cong: "(\<And>i. i < n \<Longrightarrow> f ((head + i) mod cap) = g ((head + i) mod cap)) \<Longrightarrow> ring cap f head n = ring cap g head n"
  by (simp add: ring_def)

lemma nth_ring: "i < n \<Longrightarrow> ring cap f head n ! i = f ((head + i) mod cap)"
  by (simp add: ring_def)

section \<open>Block transfers\<close>

text \<open>Reading and writing a block of a circular array with at most two \<^verbatim>\<open>memcpy\<close> calls.\<close>

definition ring_get :: "'a list \<Rightarrow> nat \<Rightarrow> nat \<Rightarrow> nat \<Rightarrow> 'a list" where
  "ring_get buf cap pos n = (let first = min (cap - pos) n in take first (drop pos buf) @ (if first < n then take (n - first) buf else []))"

definition ring_put :: "nat \<Rightarrow> nat \<Rightarrow> 'a list \<Rightarrow> 'a list \<Rightarrow> 'a list" where
  "ring_put cap pos data buf =
     (let first = min (cap - pos) (length data);
          buf = put pos (take first data) buf
      in if first < length data then put 0 (drop first data) buf else buf)"

lemma ring_get_ring:
  assumes "pos < cap" "n \<le> cap" "length buf = cap"
  shows "ring_get buf cap pos n = ring cap ((!) buf) pos n"
proof (rule nth_equalityI)
  show "length (ring_get buf cap pos n) = length (ring cap ((!) buf) pos n)" using assms by (auto simp: ring_get_def Let_def)
next
  fix i assume "i < length (ring_get buf cap pos n)"
  then have i: "i < n" using assms by (auto simp: ring_get_def Let_def split: if_splits)
  show "ring_get buf cap pos n ! i = ring cap ((!) buf) pos n ! i"
  proof (cases "i < cap - pos")
    case True
    then show ?thesis using i assms by (auto simp: ring_get_def nth_ring Let_def nth_append min_def)
  next
    case False
    then have "\<not> pos + i < cap" "pos + i - cap < cap" using i assms by linarith+
    then have "(pos + i) mod cap = pos + i - cap" by (simp add: mod_if)
    then show ?thesis using False i assms by (auto simp: ring_get_def nth_ring Let_def nth_append min_def add.commute)
  qed
qed

lemma length_ring_put:
  assumes "pos < cap" "length data \<le> cap" "length buf = cap"
  shows "length (ring_put cap pos data buf) = cap"
  using assms by (auto simp: ring_put_def Let_def)

lemma nth_put:
  assumes "off + length src \<le> length buf" "j < length buf"
  shows "put off src buf ! j = (if off \<le> j \<and> j < off + length src then src ! (j - off) else buf ! j)"
  using assms by (auto simp: put_def nth_append)

lemma nth_ring_put:
  assumes "pos < cap" "length data \<le> cap" "length buf = cap" "j < cap"
  shows "ring_put cap pos data buf ! j =
    (if pos \<le> j \<and> j < pos + length data then data ! (j - pos)
     else if j + cap < pos + length data then data ! (j + cap - pos) else buf ! j)"
proof (cases "length data \<le> cap - pos")
  case True
  then have "\<not> j + cap < pos + length data" using assms by linarith
  then show ?thesis using True assms by (simp add: ring_put_def Let_def min_absorb2 nth_put)
next
  case False
  let ?f = "cap - pos"
  have f: "min ?f (length data) = ?f" using False by simp
  have "ring_put cap pos data buf ! j = put 0 (drop ?f data) (put pos (take ?f data) buf) ! j"
    using False by (simp add: ring_put_def Let_def f)
  also have "\<dots> = (if j < length data - ?f then drop ?f data ! j else put pos (take ?f data) buf ! j)"
    using False assms by (subst nth_put) auto
  also have "put pos (take ?f data) buf ! j = (if pos \<le> j then data ! (j - pos) else buf ! j)"
    using False assms by (subst nth_put) auto
  finally show ?thesis using False assms by (auto simp: add.commute)
qed

lemma ring_put_ring:
  assumes "head < cap" "length buf = cap" "n + length data \<le> cap"
  shows "ring cap ((!) (ring_put cap ((head + n) mod cap) data buf)) head (n + length data) = ring cap ((!) buf) head n @ data"
proof (rule nth_equalityI)
  show "length (ring cap ((!) (ring_put cap ((head + n) mod cap) data buf)) head (n + length data)) = length (ring cap ((!) buf) head n @ data)" by simp
next
  fix i assume "i < length (ring cap ((!) (ring_put cap ((head + n) mod cap) data buf)) head (n + length data))"
  then have i: "i < n + length data" by simp
  define tail where "tail = (head + n) mod cap"
  define j where "j = (head + i) mod cap"
  have c: "0 < cap" "tail < cap" "j < cap" using assms(1) by (simp_all add: tail_def j_def)
  have w: "ring_put cap tail data buf ! j = (if tail \<le> j \<and> j < tail + length data then data ! (j - tail)
     else if j + cap < tail + length data then data ! (j + cap - tail) else buf ! j)"
    by (rule nth_ring_put) (use c assms in simp_all)
  have t: "tail = (if head + n < cap then head + n else head + n - cap)" using assms c(1) by (simp add: tail_def mod_if)
  have jj: "j = (if head + i < cap then head + i else head + i - cap)" using assms i by (simp add: j_def mod_if)
  have "ring_put cap tail data buf ! j = (if i < n then buf ! j else data ! (i - n))"
    unfolding w using t jj i assms by (auto split: if_splits)
  then show "ring cap ((!) (ring_put cap ((head + n) mod cap) data buf)) head (n + length data) ! i = (ring cap ((!) buf) head n @ data) ! i"
    using i by (simp add: nth_ring nth_append tail_def j_def)
qed

lemma ring_drop:
  assumes "k \<le> n"
  shows "ring cap f ((head + k) mod cap) (n - k) = drop k (ring cap f head n)"
  using assms by (intro nth_equalityI) (simp_all add: nth_ring mod_add_left_eq add.assoc)

lemma ring_slice:
  assumes "off + k \<le> n"
  shows "ring cap f ((head + off) mod cap) k = take k (drop off (ring cap f head n))"
  using assms by (intro nth_equalityI) (simp_all add: nth_ring mod_add_left_eq add.assoc)

section \<open>The contract of a bounded queue\<close>

locale bounded_fifo =
  fixes inv :: "'s \<Rightarrow> bool"
    and items :: "'s \<Rightarrow> 'a list"
    and cap :: nat
    and ok :: "'a \<Rightarrow> bool"
    and push :: "'a \<Rightarrow> 's \<Rightarrow> 's"
    and front :: "'s \<Rightarrow> 'a"
    and pop :: "'s \<Rightarrow> 's"
  assumes bounded: "inv s \<Longrightarrow> length (items s) \<le> cap"
    and push_inv: "inv s \<Longrightarrow> inv (push x s)"
    and push_items: "inv s \<Longrightarrow> items (push x s) = (if ok x \<and> length (items s) < cap then items s @ [x] else items s)"
    and front_items: "inv s \<Longrightarrow> items s \<noteq> [] \<Longrightarrow> front s = hd (items s)"
    and pop_inv: "inv s \<Longrightarrow> items s \<noteq> [] \<Longrightarrow> inv (pop s)"
    and pop_items: "inv s \<Longrightarrow> items s \<noteq> [] \<Longrightarrow> items (pop s) = tl (items s)"
begin

text \<open>A client pushes (\<open>Some x\<close>) and takes (\<open>None\<close>); \<open>run\<close> collects what it was allowed to put in
  and what it took out.\<close>

fun run :: "'a option list \<Rightarrow> 's \<Rightarrow> 'a list \<times> 'a list \<times> 's" where
  "run [] s = ([], [], s)"
| "run (Some x # ops) s =
     (let (ins, outs, s') = run ops (push x s)
      in (if ok x \<and> length (items s) < cap then x # ins else ins, outs, s'))"
| "run (None # ops) s =
     (if items s = [] then run ops s
      else let (ins, outs, s') = run ops (pop s) in (ins, front s # outs, s'))"

text \<open>What was taken, followed by what is left, is what was there, followed by what was put in.\<close>

lemma fifo_order: "inv s \<Longrightarrow> run ops s = (ins, outs, s') \<Longrightarrow> inv s' \<and> outs @ items s' = items s @ ins"
proof (induction ops s arbitrary: ins outs s' rule: run.induct)
  case (2 x ops s)
  then show ?case by (auto simp: push_inv push_items Let_def split: prod.splits if_splits)
next
  case (3 ops s)
  then show ?case by (auto simp: front_items pop_inv pop_items Let_def split: prod.splits if_splits)
qed simp

end

end
