(* ===== verification/Staged.thy ===== *)
theory Staged
  imports Event_Loop Fifo
begin

text \<open>
  The queue of packets staged while a handshake is pending (\<^verbatim>\<open>peer_stage_packet\<close> and the flush loops
  of \<^verbatim>\<open>src/src/device.c\<close>): it is a bounded FIFO, and when the loop that flushes it ends.
\<close>

definition staged :: "wg_peer \<Rightarrow> bytes list" where
  "staged q = ring PEER_QUEUE_SIZE (\<lambda>i. take (p_staged_lens q i) (p_staged_pkts q i)) (p_staged_head q) (p_staged_count q)"

definition staged_inv :: "wg_peer \<Rightarrow> bool" where
  "staged_inv q \<longleftrightarrow> p_staged_head q < PEER_QUEUE_SIZE \<and> p_staged_count q \<le> PEER_QUEUE_SIZE \<and>
     p_staged_tail q = (p_staged_head q + p_staged_count q) mod PEER_QUEUE_SIZE \<and>
     (\<forall>i. length (p_staged_pkts q i) = WG_MAX_MESSAGE_SIZE)"

definition stageable :: "bytes \<Rightarrow> bool" where
  "stageable pkt \<longleftrightarrow> pkt \<noteq> [] \<and> length pkt \<le> WG_DEFAULT_MTU"

definition staged_front :: "wg_peer \<Rightarrow> bytes" where
  "staged_front q = take (p_staged_lens q (p_staged_head q)) (p_staged_pkts q (p_staged_head q))"

lemma length_staged [simp]: "length (staged q) = p_staged_count q"
  by (simp add: staged_def)

lemma staged_Nil: "staged q = [] \<longleftrightarrow> p_staged_count q = 0"
  by (metis length_staged length_0_conv)

lemma stage_items:
  assumes "staged_inv q"
  shows "staged_inv (stage pkt q) \<and> staged (stage pkt q) = (if stageable pkt \<and> length (staged q) < PEER_QUEUE_SIZE then staged q @ [pkt] else staged q)"
proof (cases "stageable pkt \<and> p_staged_count q < PEER_QUEUE_SIZE")
  case True
  let ?f = "\<lambda>i. take (p_staged_lens q i) (p_staged_pkts q i)" and ?t = "p_staged_tail q"
  have t: "?t = (p_staged_head q + p_staged_count q) mod PEER_QUEUE_SIZE" and l: "length (p_staged_pkts q ?t) = WG_MAX_MESSAGE_SIZE"
    using assms by (simp_all add: staged_inv_def)
  have le: "length pkt \<le> WG_MAX_MESSAGE_SIZE" using True by (simp add: stageable_def WG_MAX_MESSAGE_SIZE_def)
  have st: "stage pkt q = q\<lparr>p_staged_pkts := (p_staged_pkts q)(?t := put 0 pkt (p_staged_pkts q ?t)),
      p_staged_lens := (p_staged_lens q)(?t := length pkt), p_staged_tail := (?t + 1) mod PEER_QUEUE_SIZE,
      p_staged_count := p_staged_count q + 1\<rparr>"
    using True by (auto simp: stage_def stageable_def Let_def)
  have "take (length pkt) (put 0 pkt (p_staged_pkts q ?t)) = pkt" by (simp add: put_def)
  then have "(\<lambda>i. take (p_staged_lens (stage pkt q) i) (p_staged_pkts (stage pkt q) i)) = ?f(?t := pkt)"
    by (auto simp: st fun_eq_iff)
  then have "staged (stage pkt q) = staged q @ [pkt]"
    using ring_push [of "p_staged_count q" PEER_QUEUE_SIZE ?f "p_staged_head q" pkt] True by (simp add: staged_def st t)
  moreover have "staged_inv (stage pkt q)"
    using assms True l le by (auto simp: staged_inv_def st t mod_Suc_eq)
  ultimately show ?thesis using True by simp
next
  case False
  then have "stage pkt q = q" by (auto simp: stage_def stageable_def)
  then show ?thesis using assms False by simp
qed

lemma pop_staged_items:
  assumes "staged_inv q" "staged q \<noteq> []"
  shows "staged_inv (pop_staged q) \<and> staged (pop_staged q) = tl (staged q) \<and> staged_front q = hd (staged q)"
proof -
  obtain n where n: "p_staged_count q = Suc n" using assms(2) staged_Nil by (cases "p_staged_count q") auto
  have h: "p_staged_head q < PEER_QUEUE_SIZE" using assms(1) by (simp add: staged_inv_def)
  have "staged (pop_staged q) = tl (staged q)"
    using ring_pop [of PEER_QUEUE_SIZE _ "p_staged_head q" n] n by (simp add: staged_def pop_staged_def)
  moreover have "staged_front q = hd (staged q)" using n h by (simp add: staged_def staged_front_def ring_hd)
  moreover have "staged_inv (pop_staged q)" using assms(1) n by (auto simp: staged_inv_def pop_staged_def mod_simps PEER_QUEUE_SIZE_def)
  ultimately show ?thesis by simp
qed

interpretation stq: bounded_fifo staged_inv staged PEER_QUEUE_SIZE stageable stage staged_front pop_staged
  by unfold_locales (simp_all add: stage_items pop_staged_items, simp add: staged_inv_def)

section \<open>Calls that leave the queue and the keypairs alone\<close>

definition txv :: "wg_peer \<Rightarrow> kp_ref option \<times> kp_ref option \<times> (nat \<Rightarrow> bytes) \<times> (nat \<Rightarrow> nat) \<times> nat \<times> nat \<times> nat" where
  "txv q = (p_current_keypair q, p_next_keypair q, p_staged_pkts q, p_staged_lens q, p_staged_head q, p_staged_tail q, p_staged_count q)"

definition still :: "wg_device \<Rightarrow> wg_device \<Rightarrow> bool" where
  "still dev dev' \<longleftrightarrow> e_now dev' = e_now dev \<and> kp_mem dev' = kp_mem dev \<and> e_brk dev \<le> e_brk dev' \<and>
     (\<forall>p. map_option txv (peer_mem dev' p) = map_option txv (peer_mem dev p))"

lemma still_refl: "still dev dev"
  by (simp add: still_def)

lemma still_step: "still D D' \<Longrightarrow> still dev D \<Longrightarrow> still dev D'"
  by (simp add: still_def)

lemma still_upd_peer: "(\<And>q. txv (f q) = txv q) \<Longrightarrow> still dev (upd_peer p f dev)"
  by (auto simp: still_def upd_peer_def option.map_comp o_def)

lemma still_env:
  "still dev (dev\<lparr>e_rng := a\<rparr>)" "still dev (dev\<lparr>e_clock := b\<rparr>)" "still dev (dev\<lparr>e_try_send := c\<rparr>)"
  "still dev (dev\<lparr>e_send := d\<rparr>)" "still dev (dev\<lparr>e_udp_out := e\<rparr>)"
  "still dev (dev\<lparr>e_udp_pending := f, e_udp_out := e\<rparr>)" "still dev (dev\<lparr>d_index_table := t\<rparr>)"
  by (simp_all add: still_def)

lemma still_buffers:
  "still dev (snd (tx_buffer_acquire dev))" "still dev (tx_buffer_release dev x)"
  "still dev (snd (udp_send_req_acquire dev))" "still dev (udp_send_req_release dev x)"
  by (auto simp: still_def tx_buffer_acquire_def tx_buffer_release_def udp_send_req_acquire_def udp_send_req_release_def
    buffer_acquire_def calloc_def split: list.splits option.splits prod.splits)

lemma still_set_hs: "still dev (set_hs p hs dev)" "still dev (upd_hs p f dev)"
  by (auto simp: set_hs_def upd_hs_def txv_def intro!: still_upd_peer)

lemma still_index: "still dev (dev_index_delete dev i)" "still dev (snd (dev_index_new sd dev p))"
  by (auto simp: dev_index_delete_def dev_index_new_def still_def Let_def split: prod.splits)

lemma still_eq: "D = E \<Longrightarrow> still dev E \<Longrightarrow> still dev D"
  by simp

lemma still_pair: "x = (a, D) \<Longrightarrow> still dev (snd x) \<Longrightarrow> still dev D"
  by simp

lemma still_pair_eq: "x = y \<Longrightarrow> still dev (snd y) \<Longrightarrow> still dev (snd x)"
  by simp

lemma still_triple: "b = (c, D) \<Longrightarrow> x = (a, b) \<Longrightarrow> x = y \<Longrightarrow> still dev (snd (snd y)) \<Longrightarrow> still dev D"
  by simp

lemma post_still: "still dev D \<Longrightarrow> post (\<lambda>r. still dev (snd r)) (a, D)"
  "still dev D \<Longrightarrow> post (\<lambda>r. still dev (snd (snd r))) (a, b, D)"
  "still dev D \<Longrightarrow> post (still dev) D"
  by (simp_all add: post_def)

lemma still_udp: "still dev (snd (udp_send_copy dev addr fam data))"
proof (rule postD [of "\<lambda>r. still dev (snd r)"])
  show "post (\<lambda>r. still dev (snd r)) (udp_send_copy dev addr fam data)"
    unfolding udp_send_copy_def
    by (intro post_rules; rule post_still(1);
      (rule still_refl still_env(3-6) [THEN still_step] still_buffers(4) [THEN still_step]
         still_buffers(3) [THEN still_step]
       | (rule still_eq, assumption) | (rule still_pair, assumption))+)
qed

lemma still_timers: "still dev (timers_handshake_initiated sd dev p)" "still dev (timers_data_sent dev p)"
proof -
  obtain ret b dev' where rb: "random_bytes sd dev (zeros 4) 4 = (ret, b, dev')" by (metis prod_cases3)
  then have "still dev dev'" using still_env(1) by (auto simp: random_bytes_def split: prod.splits)
  then have "still dev (start_retransmit sd dev p)"
    unfolding start_retransmit_def rb by (auto intro!: still_upd_peer [THEN still_step] simp: txv_def)
  then show "still dev (timers_handshake_initiated sd dev p)" by (simp add: timers_handshake_initiated_def still_refl)
  show "still dev (timers_data_sent dev p)"
    by (auto simp: timers_data_sent_def still_refl txv_def intro!: still_upd_peer)
qed

lemma still_clock: "still dev (snd (clock_gettime dev))"
  by (auto simp: clock_gettime_def Let_def intro: still_env)

lemma still_create: "still dev (snd (snd (noise_create_initiation sd dev p msg)))"
proof (rule postD [of "\<lambda>r. still dev (snd (snd r))"])
  have ck: "still dev (E\<lparr>e_rng := r\<rparr>)" if "still dev E" for E r using still_step [OF still_env(1) that] .
  have pc: "still dev (upd_peer p (\<lambda>q. q\<lparr>p_cookie := cg\<rparr>) E)" if "still dev E" for E p cg
    using still_step [OF still_upd_peer that] by (simp add: txv_def)
  show "post (\<lambda>r. still dev (snd (snd r))) (noise_create_initiation sd dev p msg)"
    unfolding noise_create_initiation_def
    by (intro post_rules; rule post_still(2);
      (rule still_refl ck pc still_set_hs(1) [THEN still_step] still_index(1) [THEN still_step]
         still_clock [THEN still_step] still_index(2) [THEN still_step]
       | (rule still_eq, assumption) | (rule still_pair_eq, assumption) | (rule still_pair, assumption))+)
qed

lemma still_inner: "still dev (snd (device_initiate_handshake_inner sd dev p force))"
proof (rule postD [of "\<lambda>r. still dev (snd r)"])
  show "post (\<lambda>r. still dev (snd r)) (device_initiate_handshake_inner sd dev p force)"
    unfolding device_initiate_handshake_inner_def
    by (intro post_rules; rule post_still(1);
      (rule still_refl still_set_hs(2) [THEN still_step] still_timers(1) [THEN still_step]
         still_udp [THEN still_step] still_create [THEN still_step]
       | (rule still_eq, assumption) | (rule still_triple, assumption, assumption, assumption)
       | (rule still_pair_eq, assumption) | (rule still_pair, assumption))+)
qed

lemma still_initiate: "still dev (snd (device_initiate_handshake sd dev p))"
  by (simp add: device_initiate_handshake_def still_inner)

lemma still_begin: "still dev (timers_handshake_begin sd dev p)"
  by (simp add: timers_handshake_begin_def still_refl still_initiate)

section \<open>The flush loop\<close>

text \<open>One round of the loop: the front packet is taken and handed to \<^verbatim>\<open>device_send_to_peer\<close>.\<close>

definition flush_round :: "sodium \<Rightarrow> wg_device \<Rightarrow> peer_ref \<Rightarrow> wg_device" where
  "flush_round sd dev p = snd (device_send_to_peer sd (upd_peer p pop_staged dev) p (staged_front (peer_at dev p)))"

lemma flush_staged_round:
  "flush_staged sd dev p = (if p_staged_count (peer_at dev p) > 0 then flush_staged sd (flush_round sd dev p) p else Some dev)"
  by (subst flush_staged.simps) (simp add: flush_round_def staged_front_def Let_def split: prod.splits)

lemma still_peer:
  assumes "still dev D" "peer_mem dev p = Some q"
  shows "\<exists>q'. peer_mem D p = Some q' \<and> txv q' = txv q"
  using assms unfolding still_def by (metis map_option_eq_Some option.simps(9))

lemma txv_eq:
  assumes "txv q' = txv q"
  shows "p_current_keypair q' = p_current_keypair q" "p_staged_count q' = p_staged_count q"
    "staged q' = staged q" "staged_inv q' = staged_inv q"
  using assms by (simp_all add: txv_def staged_def staged_inv_def)

text \<open>The keypair in use is too old, and every packet of the queue may be staged again.\<close>

definition expired :: "wg_device \<Rightarrow> peer_ref \<Rightarrow> bool" where
  "expired dev p \<longleftrightarrow> (\<exists>q k. peer_mem dev p = Some q \<and> staged_inv q \<and> staged q \<noteq> [] \<and> list_all stageable (staged q) \<and>
     p_current_keypair q = Some k \<and> e_now dev - kp_created_at_ms (kp_at dev k) \<ge> REJECT_AFTER_TIME_MS)"

lemma expired_round:
  assumes "expired dev p"
  shows "expired (flush_round sd dev p) p"
proof -
  obtain q k where q: "peer_mem dev p = Some q" "staged_inv q" "staged q \<noteq> []" "list_all stageable (staged q)"
    and k: "p_current_keypair q = Some k" "e_now dev - kp_created_at_ms (kp_at dev k) \<ge> REJECT_AFTER_TIME_MS"
    using assms by (auto simp: expired_def)
  note pop = pop_staged_items [OF q(2,3)]
  let ?pkt = "hd (staged q)"
  let ?q1 = "pop_staged q"
  let ?E = "peer_stage_packet (upd_peer p pop_staged dev) p ?pkt"
  have pk: "stageable ?pkt" using q(3,4) by (cases "staged q") auto
  have room: "length (staged ?q1) < PEER_QUEUE_SIZE" using stq.bounded [OF q(2)] pop q(3) by (cases "staged q") auto
  have r: "flush_round sd dev p = timers_handshake_begin sd ?E p"
    using q k pk pop
    by (simp add: flush_round_def device_send_to_peer_def stageable_def upd_peer_def peer_at_def pop_staged_def kp_at_def Let_def)
  have E: "peer_mem ?E p = Some (stage ?pkt ?q1)" "e_now ?E = e_now dev" "kp_mem ?E = kp_mem dev"
    using q(1) by (simp_all add: peer_stage_packet_def upd_peer_def)
  obtain q' where q': "peer_mem (flush_round sd dev p) p = Some q'" "txv q' = txv (stage ?pkt ?q1)"
    using still_peer [OF still_begin E(1)] r by auto
  have "staged q' = tl (staged q) @ [?pkt]" "staged_inv q'"
    using stage_items [of ?q1 ?pkt] pop pk room txv_eq(3,4) [OF q'(2)] by auto
  moreover have "p_current_keypair q' = Some k" using txv_eq(1) [OF q'(2)] k(1) by (simp add: stage_def pop_staged_def Let_def)
  moreover have "e_now (flush_round sd dev p) = e_now dev" "kp_mem (flush_round sd dev p) = kp_mem dev"
    using still_begin [of ?E sd p] E r by (simp_all add: still_def)
  moreover have "list_all stageable (tl (staged q) @ [?pkt])" using q(3,4) pk by (cases "staged q") auto
  ultimately show ?thesis using q'(1) k(2) by (auto simp: expired_def kp_at_def)
qed

lemma expired_diverges:
  assumes "expired dev p"
  shows "flush_staged sd dev p = None"
proof (rule ccontr)
  assume "flush_staged sd dev p \<noteq> None"
  then obtain dev' where d: "flush_staged sd dev p = Some dev'" by blast
  have "expired dev p \<longrightarrow> False"
  proof (rule flush_staged.raw_induct [of "\<lambda>sd dev p dev'. expired dev p \<longrightarrow> False", OF _ d], goal_cases)
    case (1 f sd dev p dev')
    show ?case
    proof
      assume e: "expired dev p"
      then have "p_staged_count (peer_at dev p) > 0" using staged_Nil by (auto simp: expired_def peer_at_def)
      then have "f sd (flush_round sd dev p) p = Some dev'"
        using 1(2) by (simp add: flush_round_def staged_front_def Let_def split: prod.splits)
      then show False using 1(1) expired_round [OF e] by blast
    qed
  qed
  then show False using assms by simp
qed

text \<open>The keypair in use is young enough, and has nonces left for \<open>n\<close> packets.\<close>

definition ready :: "wg_device \<Rightarrow> peer_ref \<Rightarrow> nat \<Rightarrow> bool" where
  "ready dev p n \<longleftrightarrow> (\<exists>q k kp. peer_mem dev p = Some q \<and> p_staged_count q = n \<and> p_current_keypair q = Some k \<and> kp_mem dev k = Some kp \<and>
     e_now dev - kp_created_at_ms kp < REJECT_AFTER_TIME_MS \<and> unat (kp_send_nonce kp) + n \<le> unat REJECT_AFTER_MESSAGES)"

lemma send_fresh:
  assumes "p_current_keypair (peer_at dev p) = Some k" "kp_mem dev k = Some kp"
    and "e_now dev - kp_created_at_ms kp < REJECT_AFTER_TIME_MS" "kp_send_nonce kp < REJECT_AFTER_MESSAGES"
  shows "still dev (snd (device_send_to_peer sd dev p pkt)) \<or>
    still (upd_kp k (\<lambda>x. x\<lparr>kp_send_nonce := kp_send_nonce x + 1\<rparr>) dev) (snd (device_send_to_peer sd dev p pkt))"
proof (rule postD [of "\<lambda>r. still dev (snd r) \<or> still (upd_kp k (\<lambda>x. x\<lparr>kp_send_nonce := kp_send_nonce x + 1\<rparr>) dev) (snd r)"])
  let ?U = "upd_kp k (\<lambda>x. x\<lparr>kp_send_nonce := kp_send_nonce x + 1\<rparr>) dev"
  have k: "kp_at dev k = kp" using assms(2) by (simp add: kp_at_def)
  have ret: "still ?U D \<Longrightarrow> post (\<lambda>r. still dev (snd r) \<or> still ?U (snd r)) (a, D)" for a :: int and D by (simp add: post_def)
  have tx: "still ?U D \<Longrightarrow> still ?U (upd_peer p (\<lambda>q. q\<lparr>p_tx_bytes := f q\<rparr>) D)" for D f
    by (rule still_step [OF still_upd_peer]) (simp add: txv_def)
  have br: "(c \<Longrightarrow> still ?U A) \<Longrightarrow> (\<not> c \<Longrightarrow> still ?U B) \<Longrightarrow> still ?U (if c then A else B)" for c A B by simp
  have kk: "(if Some k = None then x else Some k) = Some k" for x by simp
  have nn: "\<not> kp_send_nonce (kp_at dev k) \<ge> REJECT_AFTER_MESSAGES" "\<not> e_now dev - kp_created_at_ms (kp_at dev k) \<ge> REJECT_AFTER_TIME_MS"
    using assms(3,4) k by simp_all
  show "post (\<lambda>r. still dev (snd r) \<or> still ?U (snd r)) (device_send_to_peer sd dev p pkt)"
  proof (cases "length pkt > WG_DEFAULT_MTU")
    case True
    then show ?thesis by (simp add: device_send_to_peer_def post_def still_refl)
  next
    case False
    show ?thesis
      unfolding device_send_to_peer_def if_not_P [OF False] assms(1) Let_def kk option.case if_not_P [OF nn(1)] if_not_P [OF nn(2)]
      by (intro post_rules; rule ret;
        (rule still_refl tx br still_begin [THEN still_step] still_udp [THEN still_step] still_timers(2) [THEN still_step]
           still_buffers(1,2) [THEN still_step]
         | (rule still_eq, assumption) | (rule still_pair_eq, assumption) | (rule still_pair, assumption))+)
  qed
qed

lemma ready_round:
  assumes "ready dev p (Suc n)"
  shows "ready (flush_round sd dev p) p n"
proof -
  obtain q k kp where q: "peer_mem dev p = Some q" "p_staged_count q = Suc n" "p_current_keypair q = Some k"
    and k: "kp_mem dev k = Some kp" "e_now dev - kp_created_at_ms kp < REJECT_AFTER_TIME_MS"
      "unat (kp_send_nonce kp) + Suc n \<le> unat REJECT_AFTER_MESSAGES"
    using assms by (auto simp: ready_def)
  let ?E = "upd_peer p pop_staged dev" and ?D = "flush_round sd dev p" and ?inc = "\<lambda>x. x\<lparr>kp_send_nonce := kp_send_nonce x + 1\<rparr>"
  have E: "peer_mem ?E p = Some (pop_staged q)" "kp_mem ?E = kp_mem dev" "e_now ?E = e_now dev" "p_current_keypair (peer_at ?E p) = Some k"
    using q by (simp_all add: upd_peer_def peer_at_def pop_staged_def)
  have lt: "kp_send_nonce kp < REJECT_AFTER_MESSAGES" using k(3) by (simp add: word_less_nat_alt)
  have "unat (kp_send_nonce kp + 1) = unat (kp_send_nonce kp) + 1"
    using k(3) unat_lt2p [of REJECT_AFTER_MESSAGES] by (simp add: unat_word_ariths)
  then have inc: "unat (kp_send_nonce (?inc kp)) + n \<le> unat REJECT_AFTER_MESSAGES" using k(3) by simp
  have "still ?E ?D \<or> still (upd_kp k ?inc ?E) ?D"
    unfolding flush_round_def by (rule send_fresh) (use E k lt in simp_all)
  then have "\<exists>q' kp'. peer_mem ?D p = Some q' \<and> txv q' = txv (pop_staged q) \<and> kp_mem ?D k = Some kp' \<and> e_now ?D = e_now dev \<and>
      kp_created_at_ms kp' = kp_created_at_ms kp \<and> unat (kp_send_nonce kp') + n \<le> unat REJECT_AFTER_MESSAGES"
  proof
    assume s: "still ?E ?D"
    show ?thesis using still_peer [OF s E(1)] s k E by (auto simp: still_def)
  next
    assume s: "still (upd_kp k ?inc ?E) ?D"
    have "peer_mem (upd_kp k ?inc ?E) p = Some (pop_staged q)" using E by (simp add: upd_kp_def)
    from still_peer [OF s this] s k E inc show ?thesis by (auto simp: still_def upd_kp_def)
  qed
  then obtain q' kp' where d: "peer_mem ?D p = Some q'" "txv q' = txv (pop_staged q)" "kp_mem ?D k = Some kp'" "e_now ?D = e_now dev"
      "kp_created_at_ms kp' = kp_created_at_ms kp" "unat (kp_send_nonce kp') + n \<le> unat REJECT_AFTER_MESSAGES" by blast
  have "p_current_keypair q' = Some k" "p_staged_count q' = n"
    using d(2) q by (simp_all add: txv_def pop_staged_def)
  then show ?thesis using d k(2) by (auto simp: ready_def)
qed

lemma ready_flushes: "ready dev p n \<Longrightarrow> \<exists>dev'. flush_staged sd dev p = Some dev' \<and> ready dev' p 0"
proof (induction n arbitrary: dev)
  case 0
  then show ?case by (subst flush_staged_round) (auto simp: ready_def peer_at_def)
next
  case (Suc n)
  have "p_staged_count (peer_at dev p) > 0" using Suc.prems by (auto simp: ready_def peer_at_def)
  then show ?case using Suc.IH [OF ready_round [OF Suc.prems]] by (subst flush_staged_round) simp
qed

section \<open>Properties\<close>

text \<open>The staged queue is a bounded FIFO: over any sequence of \<^verbatim>\<open>peer_stage_packet\<close> calls and dequeues,
  the packets taken, followed by the packets still staged, are the packets staged at the beginning followed by
  those accepted since, byte for byte and in order; at most \<^verbatim>\<open>PEER_QUEUE_SIZE\<close> are ever held.\<close>

theorem staged_queue_fifo:
  assumes "staged_inv q"
    and "bounded_fifo.run staged PEER_QUEUE_SIZE stageable stage staged_front pop_staged ops q = (accepted, taken, q')"
  shows "staged_inv q' \<and> taken @ staged q' = staged q @ accepted \<and> length (staged q') \<le> PEER_QUEUE_SIZE"
  using stq.fifo_order [OF assms] stq.bounded by blast

text \<open>\<^bold>\<open>C34\<close>. A handshake handler whose peer has a current keypair that is young enough and has nonces left for the
  staged packets gets through its flush loop, and leaves the staged queue empty.\<close>

theorem flush_staged_terminates:
  assumes "peer_mem dev p = Some q" "p_current_keypair q = Some k" "kp_mem dev k = Some kp"
    and "e_now dev - kp_created_at_ms kp < REJECT_AFTER_TIME_MS"
    and "unat (kp_send_nonce kp) + p_staged_count q \<le> unat REJECT_AFTER_MESSAGES"
  shows "\<exists>dev'. flush_staged sd dev p = Some dev' \<and> staged (peer_at dev' p) = []"
proof -
  have "ready dev p (p_staged_count q)" using assms by (auto simp: ready_def)
  then show ?thesis using ready_flushes [of dev p _ sd] by (fastforce simp: ready_def peer_at_def staged_Nil)
qed

text \<open>\<^bold>\<open>C35\<close>. When the current keypair has expired, every packet the loop takes from the staged queue is put back at
  its end by \<^verbatim>\<open>device_send_to_peer\<close>, so the loop of the handshake handlers never ends: the device hangs. The
  responder reaches this state when it consumes an initiation while its own last session is older than
  \<^verbatim>\<open>REJECT_AFTER_TIME\<close> and a packet is staged, because the new session goes to the next keypair, not the current one.\<close>

theorem flush_staged_hangs:
  assumes "peer_mem dev p = Some q" "staged_inv q" "staged q \<noteq> []" "list_all stageable (staged q)"
    and "p_current_keypair q = Some k" "e_now dev - kp_created_at_ms (kp_at dev k) \<ge> REJECT_AFTER_TIME_MS"
  shows "flush_staged sd dev p = None"
  by (rule expired_diverges) (use assms in \<open>auto simp: expired_def\<close>)

text \<open>A peer with a keypair made at time 0 and one staged packet, at a given time.\<close>

definition peer_staged :: wg_peer where
  "peer_staged = stage [1, 2, 3] (peer_zero\<lparr>p_current_keypair := Some 1, p_staged_pkts := \<lambda>_. zeros WG_MAX_MESSAGE_SIZE\<rparr>)"

definition device_staged :: "u64 \<Rightarrow> wg_device" where
  "device_staged t = device_zero\<lparr>d_peers := [0], peer_mem := [0 \<mapsto> peer_staged], kp_mem := [1 \<mapsto> keypair_zero], e_now := t\<rparr>"

lemma peer_staged_ok: "staged_inv peer_staged" "staged peer_staged = [[1, 2, 3]]" "p_current_keypair peer_staged = Some 1"
proof -
  let ?q = "peer_zero\<lparr>p_current_keypair := Some 1, p_staged_pkts := \<lambda>_. zeros WG_MAX_MESSAGE_SIZE\<rparr>"
  have q: "staged_inv ?q" "staged ?q = []" by (simp_all add: staged_inv_def staged_def peer_zero_def PEER_QUEUE_SIZE_def)
  then show "staged_inv peer_staged" "staged peer_staged = [[1, 2, 3]]"
    using stage_items [OF q(1)] by (simp_all add: peer_staged_def stageable_def WG_DEFAULT_MTU_def PEER_QUEUE_SIZE_def)
  show "p_current_keypair peer_staged = Some 1" by (simp add: peer_staged_def stage_def Let_def)
qed

theorem staged_queue_fifo_witness:
  "\<exists>accepted taken q'. bounded_fifo.run staged PEER_QUEUE_SIZE stageable stage staged_front pop_staged [Some [4], None, Some [5]] peer_staged
     = (accepted, taken, q') \<and> taken @ staged q' = [[1, 2, 3]] @ accepted"
proof -
  obtain a t q' where r: "bounded_fifo.run staged PEER_QUEUE_SIZE stageable stage staged_front pop_staged [Some [4], None, Some [5]] peer_staged
     = (a, t, q')" by (metis prod_cases3)
  show ?thesis using staged_queue_fifo [OF peer_staged_ok(1) r] r peer_staged_ok(2) by auto
qed

theorem flush_staged_terminates_witness:
  "\<exists>dev'. flush_staged sodium_example (device_staged 1000) 0 = Some dev' \<and> staged (peer_at dev' 0) = []"
proof (rule flush_staged_terminates)
  show "peer_mem (device_staged 1000) 0 = Some peer_staged" "kp_mem (device_staged 1000) 1 = Some keypair_zero"
    by (simp_all add: device_staged_def)
  show "p_current_keypair peer_staged = Some 1" by (rule peer_staged_ok)
  show "e_now (device_staged 1000) - kp_created_at_ms keypair_zero < REJECT_AFTER_TIME_MS"
    by (simp add: device_staged_def keypair_zero_def REJECT_AFTER_TIME_MS_def)
  have "p_staged_count peer_staged = 1" using peer_staged_ok(2) length_staged by (metis One_nat_def length_Cons list.size(3))
  then show "unat (kp_send_nonce keypair_zero) + p_staged_count peer_staged \<le> unat REJECT_AFTER_MESSAGES"
    by (simp add: keypair_zero_def REJECT_AFTER_MESSAGES_def)
qed

theorem flush_staged_hangs_witness: "flush_staged sodium_example (device_staged 180000) 0 = None"
proof (rule flush_staged_hangs)
  show "peer_mem (device_staged 180000) 0 = Some peer_staged" by (simp add: device_staged_def)
  show "staged_inv peer_staged" "p_current_keypair peer_staged = Some 1" "staged peer_staged \<noteq> []" by (simp_all add: peer_staged_ok)
  show "list_all stageable (staged peer_staged)" by (simp add: peer_staged_ok stageable_def WG_DEFAULT_MTU_def)
  show "e_now (device_staged 180000) - kp_created_at_ms (kp_at (device_staged 180000) 1) \<ge> REJECT_AFTER_TIME_MS"
    by (simp add: device_staged_def kp_at_def keypair_zero_def REJECT_AFTER_TIME_MS_def)
qed

end
