(* ===== verification/Transport.thy ===== *)
theory Transport
  imports Staged
begin

text \<open>
  The data path between two devices (\<^verbatim>\<open>device_send_to_peer\<close> and \<^verbatim>\<open>handle_transport\<close> of \<^verbatim>\<open>src/src/device.c\<close>): a packet
  sent under a session is delivered, unchanged and once, by a device that holds the mirrored keypair.
\<close>

section \<open>Padding\<close>

lemma pad_bounds:
  assumes "n \<le> WG_DEFAULT_MTU"
  shows "n \<le> device_pad_packet n" "device_pad_packet n \<le> WG_DEFAULT_MTU" "device_pad_packet n < n + PADDING_MULTIPLE"
    "16 dvd device_pad_packet n \<or> device_pad_packet n = WG_DEFAULT_MTU"
proof -
  define m where "m = (n + 15) div 16"
  have m: "16 * m \<le> n + 15" "n \<le> 16 * m" unfolding m_def by linarith+
  have e: "device_pad_packet n = (if n = 0 then 0 else if 16 * m > 1420 then 1420 else 16 * m)"
    by (simp add: device_pad_packet_def PADDING_MULTIPLE_def WG_DEFAULT_MTU_def m_def Let_def ac_simps)
  show "n \<le> device_pad_packet n" "device_pad_packet n \<le> WG_DEFAULT_MTU" "device_pad_packet n < n + PADDING_MULTIPLE"
    "16 dvd device_pad_packet n \<or> device_pad_packet n = WG_DEFAULT_MTU"
    using m assms unfolding e WG_DEFAULT_MTU_def PADDING_MULTIPLE_def by auto
qed

text \<open>An IP packet whose header states its own length; the receiver finds its end inside the padding.\<close>

definition ip_packet :: "bytes \<Rightarrow> bool" where
  "ip_packet pkt \<longleftrightarrow> pkt \<noteq> [] \<and> transport_plaintext_len pkt = Some (length pkt)"

lemma transport_len_padded:
  assumes "ip_packet pkt" "length pkt \<le> n"
  shows "transport_plaintext_len (put 0 pkt (zeros n)) = Some (length pkt)"
proof -
  let ?p = "put 0 pkt (zeros n)"
  have len: "length ?p = n" using assms(2) by simp
  have app: "?p = pkt @ zeros (n - length pkt)" by (simp add: put_def zeros_def)
  have ne: "pkt \<noteq> []" and t: "transport_plaintext_len pkt = Some (length pkt)" using assms(1) by (simp_all add: ip_packet_def)
  have h: "?p ! 0 = pkt ! 0" using ne by (simp add: app nth_append)
  have s: "slice 2 2 ?p = slice 2 2 pkt" "slice 4 2 ?p = slice 4 2 pkt" if "20 \<le> length pkt" using that by (simp_all add: app slice_def)
  have "0 < n" using ne assms(2) by (cases pkt) auto
  then show ?thesis
    using t ne assms(2) s unfolding transport_plaintext_len_def len h Let_def by (auto split: if_splits)
qed

section \<open>The sender\<close>

text \<open>The datagram for a packet under a session.\<close>

definition datagram :: "sodium \<Rightarrow> wg_keypair \<Rightarrow> bytes \<Rightarrow> bytes" where
  "datagram sd kp pkt = transport_hdr_bytes \<lparr>mt_type = MSG_TRANSPORT, mt_receiver = kp_remote_index kp, mt_counter = kp_send_nonce kp\<rparr> @
     s_aead_encrypt sd (kp_send_key kp) (transport_nonce (kp_send_nonce kp)) (put 0 pkt (zeros (device_pad_packet (length pkt)))) []"

lemma length_datagram:
  assumes "sodium_laws sd" "length pkt \<le> WG_DEFAULT_MTU"
  shows "length (datagram sd kp pkt) = 32 + device_pad_packet (length pkt)"
  using pad_bounds(1) [OF assms(2)] sodium_lawsD(6) [OF assms(1)] by (simp add: datagram_def transport_hdr_bytes_def)

text \<open>A session that may be used for sending: young enough, nonces left before rekeying is due.\<close>

definition usable :: "wg_device \<Rightarrow> wg_keypair \<Rightarrow> bool" where
  "usable dev kp \<longleftrightarrow> e_now dev - kp_created_at_ms kp < REJECT_AFTER_TIME_MS \<and> kp_send_nonce kp < REKEY_AFTER_MESSAGES"

lemma send_datagram:
  assumes laws: "sodium_laws sd" and pkt: "length pkt \<le> WG_DEFAULT_MTU"
    and q: "peer_mem dev p = Some q" "p_current_keypair q = Some k" "kp_mem dev k = Some kp" "usable dev kp"
    and env: "d_tx_buffer_pool dev = b # rest" "p_endpoint_len q \<noteq> 0" "e_try_send dev 0 \<ge> 0"
  shows "\<exists>dev'. device_send_to_peer sd dev p pkt = (0, dev') \<and>
    e_udp_out dev' = e_udp_out dev @ [(udp_for_family dev (ss_family (p_endpoint q)), p_endpoint q, datagram sd kp pkt)] \<and>
    kp_mem dev' k = Some (kp\<lparr>kp_send_nonce := kp_send_nonce kp + 1\<rparr>)"
proof -
  let ?U = "upd_kp k (\<lambda>x. x\<lparr>kp_send_nonce := kp_send_nonce x + 1\<rparr>) dev"
  let ?T = "?U\<lparr>d_tx_buffer_pool := rest\<rparr>"
  have at: "peer_at dev p = q" "kp_at dev k = kp" using q by (simp_all add: peer_at_def kp_at_def)
  have "REKEY_AFTER_MESSAGES \<le> REJECT_AFTER_MESSAGES" by (simp add: REKEY_AFTER_MESSAGES_def REJECT_AFTER_MESSAGES_def)
  then have u: "\<not> REJECT_AFTER_TIME_MS \<le> e_now dev - kp_created_at_ms kp" "\<not> REKEY_AFTER_MESSAGES \<le> kp_send_nonce kp" "\<not> REJECT_AFTER_MESSAGES \<le> kp_send_nonce kp"
    using q(4) by (auto simp: usable_def)
  have tx: "tx_buffer_acquire ?U = (Some (Pooled b), ?T)" using env(1) by (simp add: tx_buffer_acquire_def buffer_acquire_def upd_kp_def)
  have T: "peer_at ?T p = q" "kp_at ?T k = kp\<lparr>kp_send_nonce := kp_send_nonce kp + 1\<rparr>" "e_try_send ?T 0 \<ge> 0" "udp_for_family ?T f = udp_for_family dev f" for f
    using q env(3) by (simp_all add: upd_kp_def peer_at_def kp_at_def udp_for_family_def)
  let ?S = "?T\<lparr>e_try_send := \<lambda>i. e_try_send ?T (i + 1), e_udp_out := e_udp_out dev @ [(udp_for_family dev (ss_family (p_endpoint q)), p_endpoint q, datagram sd kp pkt)]\<rparr>"
  have out: "udp_send_copy ?T (p_endpoint q) (ss_family (p_endpoint q)) (datagram sd kp pkt) = (0, ?S)"
    using T(3) by (simp add: udp_send_copy_def T(4) upd_kp_def udp_for_family_def Let_def)
  let ?R = "tx_buffer_release ?S (Some (Pooled b))"
  let ?B = "upd_peer p (\<lambda>x. x\<lparr>p_tx_bytes := p_tx_bytes x + of_nat (length (datagram sd kp pkt))\<rparr>) ?R"
  have "device_send_to_peer sd dev p pkt = (0, timers_data_sent ?B p)"
    using pkt u q(2) env(2) out
    by (simp add: device_send_to_peer_def at T(1,2) tx sodium_lawsD(5) [OF laws] Let_def datagram_def [symmetric])
  moreover have "e_udp_out (timers_data_sent ?B p) = e_udp_out ?B" "kp_mem (timers_data_sent ?B p) = kp_mem ?B"
    by (simp_all add: timers_data_sent_def upd_peer_def Let_def)
  ultimately show ?thesis using q(3) by (simp add: tx_buffer_release_def upd_peer_def upd_kp_def)
qed

section \<open>The receiver\<close>

text \<open>The calls of the receive path leave the packets handed to the TUN, the routes and the clock alone.\<close>

definition quiet_rx :: "wg_device \<Rightarrow> wg_device \<Rightarrow> bool" where
  "quiet_rx dev dev' \<longleftrightarrow> e_tun_out dev' = e_tun_out dev \<and> d_allowedips dev' = d_allowedips dev \<and> d_socks5_mode dev' = d_socks5_mode dev \<and>
     (\<forall>p. map_option p_allowedips (peer_mem dev' p) = map_option p_allowedips (peer_mem dev p))"

lemma quiet_rx_trans: "quiet_rx D D' \<Longrightarrow> quiet_rx dev D \<Longrightarrow> quiet_rx dev D'"
  by (simp add: quiet_rx_def)

lemma quiet_rx_upd: "(\<And>q. p_allowedips (f q) = p_allowedips q) \<Longrightarrow> quiet_rx dev (upd_peer p f dev)"
  by (auto simp: quiet_rx_def upd_peer_def option.map_comp o_def)

lemma quiet_rx_calls:
  "quiet_rx dev (rx_buffer_release dev b)" "quiet_rx dev (upd_kp k g dev)" "quiet_rx dev (update_endpoint dev p src)"
  "quiet_rx dev (timers_data_received dev p)" "quiet_rx dev (keypair_free sd dev x)" "quiet_rx dev (confirm_keypair sd dev p k)"
proof -
  show fr: "quiet_rx dev (keypair_free sd dev x)" for dev x
    by (cases x) (simp_all add: quiet_rx_def keypair_free_def kp_release_def dev_index_delete_def upd_kp_def Let_def)
  show "quiet_rx dev (rx_buffer_release dev b)" "quiet_rx dev (upd_kp k g dev)" by (simp_all add: quiet_rx_def rx_buffer_release_def upd_kp_def)
  show "quiet_rx dev (update_endpoint dev p src)" "quiet_rx dev (timers_data_received dev p)"
    by (auto simp: update_endpoint_def timers_data_received_def Let_def quiet_rx_def upd_peer_def option.map_comp o_def)
  show "quiet_rx dev (confirm_keypair sd dev p k)"
    unfolding confirm_keypair_def Let_def by (auto intro!: quiet_rx_trans [OF fr] quiet_rx_upd) (simp add: quiet_rx_def)
qed

lemma quiet_rx_source: "quiet_rx dev D \<Longrightarrow> peer_mem dev p \<noteq> None \<Longrightarrow> source_allowed D p pt = source_allowed dev p pt"
proof -
  assume r: "quiet_rx dev D" and "peer_mem dev p \<noteq> None"
  then obtain q where q: "peer_mem dev p = Some q" by blast
  then obtain q' where "peer_mem D p = Some q'" "p_allowedips q' = p_allowedips q"
    using r unfolding quiet_rx_def by (metis map_option_eq_Some option.simps(9))
  then show "source_allowed D p pt = source_allowed dev p pt" using r q by (simp add: source_allowed_def quiet_rx_def peer_at_def Let_def)
qed

text \<open>What one datagram does when its index, its counter and its tag are good.\<close>

lemma receive_datagram:
  assumes buf: "MSG_TRANSPORT_SIZE \<le> length buf" "index_table_lookup (d_index_table dev) (mt_receiver (transport_hdr_of buf)) = Some e"
      "ie_type e = IDX_KEYPAIR" "ie_keypair e = Some k" "ie_peer e = Some p"
    and kp: "kp_mem dev k = Some kp" "replay_check (kp_replay kp) (mt_counter (transport_hdr_of buf)) REJECT_AFTER_MESSAGES"
    and rx: "d_rx_buffer_pool dev = b # rest"
    and dec: "wg_chacha20poly1305_decrypt sd (kp_recv_key kp) (transport_nonce (mt_counter (transport_hdr_of buf))) (drop MSG_TRANSPORT_HDR_SIZE buf) [] = Some pt"
    and com: "replay_commit (kp_replay kp) (mt_counter (transport_hdr_of buf)) REJECT_AFTER_MESSAGES = (True, f)" and len: "transport_plaintext_len pt = Some n"
  shows "\<exists>D. quiet_rx dev D \<and> handle_transport sd dev src buf = rx_buffer_release (deliver D p (take n pt)) (Some (Pooled b))"
proof -
  let ?R = "dev\<lparr>d_rx_buffer_pool := rest\<rparr>"
  let ?C = "upd_kp k (\<lambda>x. x\<lparr>kp_replay := f\<rparr>) ?R"
  let ?D = "update_endpoint (confirm_keypair sd (timers_data_received (upd_peer p (\<lambda>q. q\<lparr>p_rx_bytes := p_rx_bytes q + of_nat (length buf)\<rparr>) ?C) p) p k) p src"
  have r: "rx_buffer_acquire dev = (Some (Pooled b), ?R)" using rx by (simp add: rx_buffer_acquire_def buffer_acquire_def)
  have at: "kp_at dev k = kp" "kp_at ?R k = kp" using kp(1) by (simp_all add: kp_at_def)
  have "quiet_rx dev ?R" by (simp add: quiet_rx_def)
  then have "quiet_rx dev ?D"
    by (intro quiet_rx_calls(3,6,4) [THEN quiet_rx_trans] quiet_rx_upd [THEN quiet_rx_trans] quiet_rx_calls(2) [THEN quiet_rx_trans]) simp
  moreover have "handle_transport sd dev src buf = rx_buffer_release (deliver ?D p (take n pt)) (Some (Pooled b))"
    using buf kp(2) dec com len by (simp add: handle_transport_def Let_def r at not_less [symmetric] del: not_less)
  ultimately show ?thesis by blast
qed

section \<open>Properties\<close>

text \<open>\<^bold>\<open>C5\<close>. A packet gets through the tunnel: a device with a usable session sends an IP packet to a peer; it emits one
  datagram to the peer's endpoint, of 32 bytes more than the padded packet, and advances the nonce. A device that holds the
  mirrored keypair under the index the datagram carries, has not seen the counter, and routes the packet's source to that
  peer hands exactly the original packet, without the padding, to its TUN.\<close>

theorem transport_delivers:
  assumes laws: "sodium_laws sd" and pkt: "ip_packet pkt" "length pkt \<le> WG_DEFAULT_MTU"
    and A: "peer_mem A p = Some q" "p_current_keypair q = Some k" "kp_mem A k = Some kp" "usable A kp"
      "d_tx_buffer_pool A = b # rest" "p_endpoint_len q \<noteq> 0" "e_try_send A 0 \<ge> 0"
    and B: "index_table_lookup (d_index_table B) (kp_remote_index kp) = Some e" "ie_type e = IDX_KEYPAIR" "ie_keypair e = Some k'" "ie_peer e = Some p'"
      "kp_mem B k' = Some kp'" "kp_recv_key kp' = kp_send_key kp" "replay_check (kp_replay kp') (kp_send_nonce kp) REJECT_AFTER_MESSAGES"
      "d_rx_buffer_pool B = b' # rest'" "\<not> d_socks5_mode B" "peer_mem B p' \<noteq> None" "source_allowed B p' pkt"
  shows "\<exists>A' dg. device_send_to_peer sd A p pkt = (0, A') \<and>
    e_udp_out A' = e_udp_out A @ [(udp_for_family A (ss_family (p_endpoint q)), p_endpoint q, dg)] \<and>
    length dg = 32 + device_pad_packet (length pkt) \<and> kp_mem A' k = Some (kp\<lparr>kp_send_nonce := kp_send_nonce kp + 1\<rparr>) \<and>
    e_tun_out (handle_transport sd B src dg) = e_tun_out B @ [pkt]"
proof -
  let ?dg = "datagram sd kp pkt" and ?pt = "put 0 pkt (zeros (device_pad_packet (length pkt)))"
  have len: "length ?dg = 32 + device_pad_packet (length pkt)" by (rule length_datagram [OF laws pkt(2)])
  have hdr: "transport_hdr_of ?dg = \<lparr>mt_type = MSG_TRANSPORT, mt_receiver = kp_remote_index kp, mt_counter = kp_send_nonce kp\<rparr>"
    by (simp add: datagram_def)
  have body: "drop MSG_TRANSPORT_HDR_SIZE ?dg = s_aead_encrypt sd (kp_send_key kp) (transport_nonce (kp_send_nonce kp)) ?pt []"
    by (simp add: datagram_def MSG_TRANSPORT_HDR_SIZE_def transport_hdr_bytes_def)
  obtain f where f: "replay_commit (kp_replay kp') (kp_send_nonce kp) REJECT_AFTER_MESSAGES = (True, f)"
    using B(7) rp.commit_check [of "kp_replay kp'" "kp_send_nonce kp" REJECT_AFTER_MESSAGES]
    by (cases "replay_commit (kp_replay kp') (kp_send_nonce kp) REJECT_AFTER_MESSAGES") auto
  have "transport_plaintext_len ?pt = Some (length pkt)" by (rule transport_len_padded [OF pkt(1) pad_bounds(1) [OF pkt(2)]])
  moreover have "MSG_TRANSPORT_SIZE \<le> length ?dg" unfolding len by (simp add: MSG_TRANSPORT_SIZE_def MSG_TRANSPORT_HDR_SIZE_def)
  ultimately obtain D where D: "quiet_rx B D" "handle_transport sd B src ?dg = rx_buffer_release (deliver D p' (take (length pkt) ?pt)) (Some (Pooled b'))"
    using receive_datagram [of ?dg B e k' p' kp' b' rest' sd ?pt f "length pkt" src] B f hdr body len sodium_lawsD(7) [OF laws] by auto
  have "take (length pkt) ?pt = pkt" by (simp add: put_def)
  moreover have "source_allowed D p' pkt" using quiet_rx_source [OF D(1) B(10)] B(11) by simp
  ultimately have "e_tun_out (handle_transport sd B src ?dg) = e_tun_out B @ [pkt]"
    using D B(9) pkt(1) by (simp add: deliver_def rx_buffer_release_def quiet_rx_def ip_packet_def)
  then show ?thesis using send_datagram [OF laws pkt(2) A] len by blast
qed

text \<open>Padding hides the length of a packet up to 16 bytes and never breaks the MTU: the padded length is the packet's
  length rounded up to a multiple of 16, capped at the MTU, so it is at least the packet's length and less than 16 above it.\<close>

theorem device_pad_bounds:
  assumes "n \<le> WG_DEFAULT_MTU"
  shows "n \<le> device_pad_packet n \<and> device_pad_packet n \<le> WG_DEFAULT_MTU \<and> device_pad_packet n < n + PADDING_MULTIPLE \<and>
    (PADDING_MULTIPLE dvd device_pad_packet n \<or> device_pad_packet n = WG_DEFAULT_MTU)"
  using pad_bounds [OF assms] by (simp add: PADDING_MULTIPLE_def)

section \<open>Witnesses\<close>

text \<open>A device with one peer and one session whose two ends mirror each other.\<close>

definition kp_loop :: wg_keypair where
  "kp_loop = keypair_zero\<lparr>kp_local_index := 5, kp_remote_index := 5\<rparr>"

definition peer_loop :: wg_peer where
  "peer_loop = peer_zero\<lparr>p_current_keypair := Some 1, p_endpoint_len := 16, p_timer_close_count := 5,
     p_allowedips := snd (allowedips_insert_v4 (\<lambda>_. True) allowedips_init [10, 0, 0, 2] 32 0)\<rparr>"

definition entry_loop :: index_entry where
  "entry_loop = \<lparr>ie_type = IDX_KEYPAIR, ie_index = 5, ie_peer = Some 0, ie_handshake = None, ie_keypair = Some 1\<rparr>"

definition device_loop :: wg_device where
  "device_loop = device_zero\<lparr>d_peers := [0], peer_mem := [0 \<mapsto> peer_loop], kp_mem := [1 \<mapsto> kp_loop], e_brk := 2,
     d_index_table := \<lparr>it_entries = \<lambda>_. entry_loop, it_occupied = (\<lambda>s. s = index_slot 5)\<rparr>,
     d_tx_buffer_pool := [0], d_rx_buffer_pool := [0]\<rparr>"

definition ping :: bytes where
  "ping = [0x45, 0, 0, 20, 0, 0, 0, 0, 64, 1, 0, 0, 10, 0, 0, 2, 10, 0, 0, 1]"

lemma device_loop_simps:
  "index_table_lookup (d_index_table device_loop) 5 = Some entry_loop" "kp_mem device_loop 1 = Some kp_loop" "peer_mem device_loop 0 = Some peer_loop"
  "d_tx_buffer_pool device_loop = [0]" "d_rx_buffer_pool device_loop = [0]" "\<not> d_socks5_mode device_loop" "e_try_send device_loop 0 \<ge> 0"
  "p_current_keypair peer_loop = Some 1" "p_endpoint_len peer_loop \<noteq> 0" "kp_remote_index kp_loop = 5" "kp_recv_key kp_loop = kp_send_key kp_loop"
  by (simp_all add: device_loop_def device_zero_def index_table_lookup_def entry_loop_def peer_loop_def kp_loop_def keypair_zero_def)

lemma kp_loop_fresh: "kp_replay kp_loop = replay_reset" "kp_send_nonce kp_loop = 0" "usable device_loop kp_loop"
  "replay_check (kp_replay kp_loop) 0 REJECT_AFTER_MESSAGES"
proof -
  show r: "kp_replay kp_loop = replay_reset" and n: "kp_send_nonce kp_loop = 0" by (simp_all add: kp_loop_def keypair_zero_def replay_reset_def)
  show "usable device_loop kp_loop"
    by (simp add: usable_def n) (simp add: device_loop_def device_zero_def kp_loop_def keypair_zero_def REJECT_AFTER_TIME_MS_def REKEY_AFTER_MESSAGES_def)
  show "replay_check (kp_replay kp_loop) 0 REJECT_AFTER_MESSAGES"
    unfolding r replay_check_spec [OF replay_rel_reset] by (simp add: window_accepts_def replay_reset_def REJECT_AFTER_MESSAGES_def)
qed

lemma ping_ok: "ip_packet ping" "source_allowed device_loop 0 ping"
proof -
  show "ip_packet ping" unfolding ip_packet_def ping_def by code_simp
  have "allowedips_lookup_v4 (p_allowedips peer_loop) [10, 0, 0, 2] = Some 0" by code_simp
  moreover have "slice 12 4 ping = [10, 0, 0, 2]" "drop_bit 4 (ping ! 0) AND 0xf = 4" "length ping = 20" by (code_simp, code_simp, simp add: ping_def)
  ultimately show "source_allowed device_loop 0 ping" by (simp add: source_allowed_def peer_at_def device_loop_simps)
qed

theorem transport_delivers_witness:
  "\<exists>dg. e_tun_out (handle_transport sodium_example device_loop sockaddr_zero dg) = e_tun_out device_loop @ [ping]"
proof -
  have e: "ie_type entry_loop = IDX_KEYPAIR" "ie_keypair entry_loop = Some 1" "ie_peer entry_loop = Some 0" by (simp_all add: entry_loop_def)
  have "length ping \<le> WG_DEFAULT_MTU" by (simp add: ping_def WG_DEFAULT_MTU_def)
  moreover have "index_table_lookup (d_index_table device_loop) (kp_remote_index kp_loop) = Some entry_loop"
    unfolding device_loop_simps(10) by (rule device_loop_simps(1))
  moreover have "replay_check (kp_replay kp_loop) (kp_send_nonce kp_loop) REJECT_AFTER_MESSAGES"
    unfolding kp_loop_fresh(2) by (rule kp_loop_fresh(4))
  moreover have "peer_mem device_loop 0 \<noteq> None" unfolding device_loop_simps(3) by simp
  ultimately show ?thesis
    using transport_delivers [OF sodium_example_laws ping_ok(1) _ device_loop_simps(3,8,2) kp_loop_fresh(3) device_loop_simps(4,9,7)
      _ e device_loop_simps(2,11) _ device_loop_simps(5,6) _ ping_ok(2), where src = sockaddr_zero] by blast
qed

theorem device_pad_bounds_witness: "41 \<le> device_pad_packet 41 \<and> device_pad_packet 41 < 41 + PADDING_MULTIPLE"
  using device_pad_bounds [of 41] by (simp add: WG_DEFAULT_MTU_def)

end
