(* ===== verification/Sessions.thy ===== *)
theory Sessions
  imports Transport
begin

text \<open>
  What the event loop does to the session keypairs over time: a keypair keeps its receiving key, its replay filter only
  ever rejects more, and the address of a freed one is not used again. Hence a transport counter that a session has
  accepted is never accepted by it again, whatever happens in between.
\<close>

section \<open>Evolution of keypairs\<close>

definition filter_ok :: "wg_keypair \<Rightarrow> bool" where
  "filter_ok kp \<longleftrightarrow> (\<exists>S. replay_rel (kp_replay kp) S)"

definition rejects :: "wg_keypair \<Rightarrow> u64 \<Rightarrow> bool" where
  "rejects kp c \<longleftrightarrow> \<not> replay_check (kp_replay kp) c REJECT_AFTER_MESSAGES"

definition grows :: "wg_keypair \<Rightarrow> wg_keypair \<Rightarrow> bool" where
  "grows kp kp' \<longleftrightarrow> kp_recv_key kp' = kp_recv_key kp \<and>
     (filter_ok kp \<longrightarrow> filter_ok kp' \<and> (\<forall>c. rejects kp c \<longrightarrow> rejects kp' c))"

definition kp_below :: "wg_device \<Rightarrow> bool" where
  "kp_below dev \<longleftrightarrow> (\<forall>k. kp_mem dev k \<noteq> None \<longrightarrow> k < e_brk dev)"

definition evolves :: "wg_device \<Rightarrow> wg_device \<Rightarrow> bool" where
  "evolves dev dev' \<longleftrightarrow> (kp_below dev \<longrightarrow> kp_below dev' \<and> e_brk dev \<le> e_brk dev' \<and>
     (\<forall>k kp'. kp_mem dev' k = Some kp' \<longrightarrow> (if k < e_brk dev then \<exists>kp. kp_mem dev k = Some kp \<and> grows kp kp' else filter_ok kp')))"

lemma grows_refl [simp]: "grows kp kp"
  by (simp add: grows_def)

lemma grows_trans: "grows a b \<Longrightarrow> grows b c \<Longrightarrow> grows a c"
  by (auto simp: grows_def)

lemma grows_same: "kp_recv_key kp' = kp_recv_key kp \<Longrightarrow> kp_replay kp' = kp_replay kp \<Longrightarrow> grows kp kp'"
  by (simp add: grows_def filter_ok_def rejects_def)

lemma grows_commit:
  assumes "replay_commit (kp_replay kp) c REJECT_AFTER_MESSAGES = (ok, f)"
  shows "grows kp (kp\<lparr>kp_replay := f\<rparr>)" "filter_ok kp \<Longrightarrow> rejects (kp\<lparr>kp_replay := f\<rparr>) c"
proof -
  have f: "f = snd (replay_commit (kp_replay kp) c REJECT_AFTER_MESSAGES)" using assms by simp
  show "grows kp (kp\<lparr>kp_replay := f\<rparr>)"
    unfolding grows_def filter_ok_def rejects_def f
    using rp.inv_commit [of "kp_replay kp" c REJECT_AFTER_MESSAGES] rp.reject_stays [of "kp_replay kp" _ REJECT_AFTER_MESSAGES c] by simp
  show "rejects (kp\<lparr>kp_replay := f\<rparr>) c" if "filter_ok kp"
    using rp.commit_once [of "kp_replay kp" c REJECT_AFTER_MESSAGES] that unfolding rejects_def filter_ok_def f by simp
qed

lemma evolves_refl [simp]: "evolves dev dev"
  by (auto simp: evolves_def kp_below_def)

lemma evolves_trans:
  assumes "evolves a b" "evolves b c"
  shows "evolves a c"
  unfolding evolves_def
proof (intro impI conjI allI)
  assume a: "kp_below a"
  then have ab: "kp_below b" "e_brk a \<le> e_brk b"
    "kp_mem b k = Some kp' \<Longrightarrow> (if k < e_brk a then \<exists>kp. kp_mem a k = Some kp \<and> grows kp kp' else filter_ok kp')" for k kp'
    using assms(1) by (simp_all add: evolves_def)
  then have bc: "kp_below c" "e_brk b \<le> e_brk c"
    "kp_mem c k = Some kp' \<Longrightarrow> (if k < e_brk b then \<exists>kp. kp_mem b k = Some kp \<and> grows kp kp' else filter_ok kp')" for k kp'
    using assms(2) by (simp_all add: evolves_def)
  show "kp_below c" "e_brk a \<le> e_brk c" using ab bc by simp_all
  fix k kp''
  assume k: "kp_mem c k = Some kp''"
  show "if k < e_brk a then \<exists>kp. kp_mem a k = Some kp \<and> grows kp kp'' else filter_ok kp''"
  proof (cases "k < e_brk b")
    case True
    then obtain kp' where kp': "kp_mem b k = Some kp'" "grows kp' kp''" using bc(3) [OF k] by auto
    then show ?thesis using ab(3) [OF kp'(1)] grows_trans by (auto simp: grows_def)
  next
    case False
    then show ?thesis using bc(3) [OF k] ab(2) by simp
  qed
qed

text \<open>Steps: what may follow a state that has evolved from \<open>dev\<close>.\<close>

lemma ev_mem: "kp_mem D' = kp_mem D \<Longrightarrow> e_brk D \<le> e_brk D' \<Longrightarrow> evolves dev D \<Longrightarrow> evolves dev D'"
  by (auto simp: evolves_def kp_below_def elim: order_less_le_trans)

lemma ev_still: "still D D' \<Longrightarrow> evolves dev D \<Longrightarrow> evolves dev D'"
  by (rule ev_mem) (simp_all add: still_def)

lemma ev_upd_peer: "evolves dev D \<Longrightarrow> evolves dev (upd_peer p f D)"
  by (rule ev_mem) (simp_all add: upd_peer_def)

lemma ev_hs: "evolves dev D \<Longrightarrow> evolves dev (upd_hs p g D)" "evolves dev D \<Longrightarrow> evolves dev (set_hs p hs D)"
  by (simp_all add: upd_hs_def set_hs_def ev_upd_peer)

lemma ev_upd_kp:
  assumes "\<And>x. kp_mem D k = Some x \<Longrightarrow> grows x (f x)" "evolves dev D"
  shows "evolves dev (upd_kp k f D)"
proof (rule evolves_trans [OF assms(2)])
  show "evolves D (upd_kp k f D)" using assms(1) by (auto simp: evolves_def kp_below_def upd_kp_def)
qed

lemma ev_drop:
  assumes "kp_mem D' = (kp_mem D)(k := None)" "e_brk D' = e_brk D" "evolves dev D"
  shows "evolves dev D'"
proof (rule evolves_trans [OF assms(3)])
  show "evolves D D'" using assms(1,2) by (auto simp: evolves_def kp_below_def)
qed

lemma ev_free: "evolves dev D \<Longrightarrow> evolves dev (keypair_free sd D x)"
  by (cases x) (simp add: keypair_free_def, erule ev_drop [rotated 2],
    auto simp: keypair_free_def kp_release_def dev_index_delete_def upd_kp_def Let_def)

lemma ev_retire: "evolves dev D \<Longrightarrow> evolves dev (retire_keypair D x)"
  by (cases x) (simp add: retire_keypair_def, erule ev_drop [rotated 2],
    auto simp: retire_keypair_def kp_release_def dev_index_delete_def)

lemma ev_rotate: "evolves dev D \<Longrightarrow> evolves dev (rotate_keypairs D p k b)"
  unfolding rotate_keypairs_def Let_def by (auto intro!: ev_upd_peer ev_retire)

lemma ev_eq: "D = E \<Longrightarrow> evolves dev E \<Longrightarrow> evolves dev D"
  by simp

lemma ev_pair: "x = (a, D) \<Longrightarrow> evolves dev (snd x) \<Longrightarrow> evolves dev D"
  by simp

lemma ev_pair_eq: "x = y \<Longrightarrow> evolves dev (snd y) \<Longrightarrow> evolves dev (snd x)"
  by simp

lemma ev_triple: "b = (m, D) \<Longrightarrow> x = (a, b) \<Longrightarrow> x = y \<Longrightarrow> evolves dev (snd (snd y)) \<Longrightarrow> evolves dev D"
  by simp

lemma ev_if: "evolves dev A \<Longrightarrow> evolves dev B \<Longrightarrow> evolves dev (if c then A else B)"
  by simp

lemma post_ev: "evolves dev D \<Longrightarrow> post (\<lambda>r. evolves dev (snd r)) (a, D)"
  "evolves dev D \<Longrightarrow> post (\<lambda>r. evolves dev (snd (snd r))) (b, c, D)"
  by (simp_all add: post_def)

lemma ev_env:
  "evolves dev D \<Longrightarrow> evolves dev (D\<lparr>d_cookie_checker := cc, e_rng := r\<rparr>)" "evolves dev D \<Longrightarrow> evolves dev (D\<lparr>e_rng := r\<rparr>)"
  "evolves dev D \<Longrightarrow> evolves dev (snd (clock_gettime D))" "evolves dev D \<Longrightarrow> evolves dev (snd (rx_buffer_acquire D))"
  "evolves dev D \<Longrightarrow> evolves dev (rx_buffer_release D b)" "evolves dev D \<Longrightarrow> evolves dev (udp_recv_buffer_release D b)"
  by (erule ev_mem [rotated 2]; auto simp: clock_gettime_def rx_buffer_acquire_def rx_buffer_release_def udp_recv_buffer_release_def
    buffer_acquire_def calloc_def Let_def split: list.splits prod.splits option.splits)+

section \<open>Every call lets the keypairs evolve\<close>

lemma ev_timers:
  "evolves dev D \<Longrightarrow> evolves dev (timers_data_received D p)" "evolves dev D \<Longrightarrow> evolves dev (timers_handshake_complete D p)"
  "evolves dev D \<Longrightarrow> evolves dev (timers_keepalive_received D p)" "evolves dev D \<Longrightarrow> evolves dev (timers_zero_key_material D p)"
  "evolves dev D \<Longrightarrow> evolves dev (timers_persistent_keepalive_set D p)" "evolves dev D \<Longrightarrow> evolves dev (timers_stop D p)"
  "evolves dev D \<Longrightarrow> evolves dev (timers_close D p)" "evolves dev D \<Longrightarrow> evolves dev (update_endpoint D p src)"
  "evolves dev D \<Longrightarrow> evolves dev (peer_stage_packet D p pkt)" "evolves dev D \<Longrightarrow> evolves dev (noise_precompute_static_static sd D p)"
  by (erule ev_mem [rotated 2]; simp add: timers_data_received_def timers_handshake_complete_def timers_keepalive_received_def
    timers_zero_key_material_def timers_persistent_keepalive_set_def timers_stop_def timers_close_def update_endpoint_def
    peer_stage_packet_def noise_precompute_static_static_def upd_hs_def upd_peer_def Let_def split: prod.splits)+

lemma ev_initiate:
  "evolves dev D \<Longrightarrow> evolves dev (timers_handshake_begin sd D p)" "evolves dev D \<Longrightarrow> evolves dev (snd (device_initiate_handshake sd D p))"
  "evolves dev D \<Longrightarrow> evolves dev (snd (udp_send_copy D a fam data))" "evolves dev D \<Longrightarrow> evolves dev (timers_data_sent D p)"
  "evolves dev D \<Longrightarrow> evolves dev (snd (tx_buffer_acquire D))" "evolves dev D \<Longrightarrow> evolves dev (tx_buffer_release D x)"
  by (erule ev_still [rotated]; rule still_begin still_initiate still_udp still_timers still_buffers)+

lemma ev_send: 
  assumes "evolves dev D"
  shows "evolves dev (snd (device_send_to_peer sd D p pkt))"
proof (rule postD [of "\<lambda>r. evolves dev (snd r)"])
  have nonce: "evolves dev E \<Longrightarrow> evolves dev (upd_kp k (\<lambda>x. x\<lparr>kp_send_nonce := kp_send_nonce x + 1\<rparr>) E)" for E k
    by (rule ev_upd_kp) (simp add: grows_same)
  show "post (\<lambda>r. evolves dev (snd r)) (device_send_to_peer sd D p pkt)"
    unfolding device_send_to_peer_def
    by (intro post_rules; rule post_ev;
      (rule assms nonce ev_if ev_upd_peer ev_timers(9) ev_initiate
       | (rule ev_eq, assumption) | (rule ev_pair_eq, assumption) | (rule ev_pair, assumption))+)
qed

lemma ev_keepalive: "evolves dev D \<Longrightarrow> evolves dev (snd (device_send_keepalive sd D p))"
  by (simp add: device_send_keepalive_def ev_send)

lemma ev_flush:
  assumes "flush_staged sd D p = Some D'" "evolves dev D"
  shows "evolves dev D'"
proof -
  have "evolves D D'"
  proof (rule flush_staged.raw_induct [of "\<lambda>sd dev p dev'. evolves dev dev'", OF _ assms(1)], goal_cases)
    case (1 loop sd D p D')
    have r: "evolves D (flush_round sd D p)" unfolding flush_round_def by (intro ev_send ev_upd_peer evolves_refl)
    show ?case
    proof (cases "p_staged_count (peer_at D p) > 0")
      case True
      then have "loop sd (flush_round sd D p) p = Some D'" using 1(2) by (simp add: flush_round_def staged_front_def Let_def split: prod.splits)
      then show ?thesis using 1(1) evolves_trans [OF r] by blast
    next
      case False
      then show ?thesis using 1(2) by simp
    qed
  qed
  then show ?thesis by (rule evolves_trans [OF assms(2)])
qed

lemma ev_noise:
  assumes "evolves dev D"
  shows "evolves dev (snd (noise_consume_initiation sd D msg))" "evolves dev (snd (snd (noise_create_response sd D p resp)))"
    "evolves dev (snd (noise_consume_response sd D rmsg))"
proof -
  have ix: "evolves dev (dev_index_delete E i)" "evolves dev (snd (dev_index_new sd E p))" if "evolves dev E" for E i p
    using that by (rule ev_still [OF still_index(1)], rule ev_still [OF still_index(2)])
  show "evolves dev (snd (noise_consume_initiation sd D msg))"
  proof (rule postD [of "\<lambda>r. evolves dev (snd r)"])
    show "post (\<lambda>r. evolves dev (snd r)) (noise_consume_initiation sd D msg)"
      unfolding noise_consume_initiation_def
      by (intro post_rules; rule post_ev;
        (rule assms ev_hs ev_env | (rule ev_eq, assumption) | (rule ev_pair_eq, assumption) | (rule ev_pair, assumption))+)
  qed
  show "evolves dev (snd (noise_consume_response sd D rmsg))"
  proof (rule postD [of "\<lambda>r. evolves dev (snd r)"])
    show "post (\<lambda>r. evolves dev (snd r)) (noise_consume_response sd D rmsg)"
      unfolding noise_consume_response_def
      by (intro post_rules; rule post_ev;
        (rule assms ev_hs ev_env | (rule ev_eq, assumption) | (rule ev_pair_eq, assumption) | (rule ev_pair, assumption))+)
  qed
  show "evolves dev (snd (snd (noise_create_response sd D p resp)))"
  proof (rule postD [of "\<lambda>r. evolves dev (snd (snd r))"])
    show "post (\<lambda>r. evolves dev (snd (snd r))) (noise_create_response sd D p resp)"
      unfolding noise_create_response_def
      by (intro post_rules; rule post_ev(2);
        (rule assms ix ev_hs ev_env ev_upd_peer | (rule ev_eq, assumption) | (rule ev_pair_eq, assumption) | (rule ev_pair, assumption))+)
  qed
qed

lemma ev_session:
  assumes "evolves dev D"
  shows "evolves dev (snd (noise_begin_session sd D p))"
proof (rule postD [of "\<lambda>r. evolves dev (snd r)"])
  have call: "evolves dev E" if "calloc D = (a, E)" for a E
    using that by (intro ev_mem [OF _ _ assms]) (auto simp: calloc_def split: if_splits)
  have new: "evolves dev X" if "X = E\<lparr>d_index_table := t, kp_mem := (kp_mem E)(k \<mapsto> kp)\<rparr>" "calloc D = (a, E)" "a = Some k" "kp_replay kp = replay_reset" for X E a t k kp
  proof (rule evolves_trans [OF assms])
    have "filter_ok kp" using that(4) replay_rel_reset unfolding filter_ok_def by metis
    then show "evolves D X" using that(1-3) by (auto simp: evolves_def kp_below_def calloc_def less_SucI split: if_splits)
  qed
  show "post (\<lambda>r. evolves dev (snd r)) (noise_begin_session sd D p)"
    unfolding noise_begin_session_def
    apply (intro post_rules; rule post_ev)
      apply (rule assms)
     apply (rule call, assumption)
    apply (rule ev_rotate, rule ev_eq, assumption, rule ev_hs, rule ev_eq, assumption, rule ev_upd_peer, rule ev_pair, assumption,
      rule ev_pair_eq, assumption, rule ev_env)
    apply (rule new, assumption, assumption, assumption)
    apply (simp split: prod.splits if_splits)
    done
qed

lemma ev_deliver: "evolves dev D \<Longrightarrow> evolves dev (deliver D p pt)"
  unfolding deliver_def by (auto intro: ev_timers elim: ev_mem [rotated 2])

lemma ev_confirm: "evolves dev D \<Longrightarrow> evolves dev (confirm_keypair sd D p k)"
  unfolding confirm_keypair_def Let_def by (auto intro!: ev_free ev_upd_peer)

lemma ev_transport: 
  assumes "evolves dev D"
  shows "evolves dev (handle_transport sd D src buf)"
proof (rule postD [of "evolves dev"])
  have commit: "evolves dev (upd_kp k (\<lambda>x. x\<lparr>kp_replay := f\<rparr>) E)"
    if "y = (ok, f)" "y = replay_commit (kp_replay (kp_at E k)) c REJECT_AFTER_MESSAGES" "evolves dev E" for k ok f E c y
  proof (rule ev_upd_kp [OF _ that(3)])
    fix x assume "kp_mem E k = Some x"
    then show "grows x (x\<lparr>kp_replay := f\<rparr>)" using grows_commit(1) [of x c ok f] that(1,2) by (simp add: kp_at_def)
  qed
  show "post (evolves dev) (handle_transport sd D src buf)"
    unfolding handle_transport_def
    by (intro post_rules; rule postI;
      (rule assms ev_env ev_timers(1,8) ev_deliver ev_confirm ev_upd_peer
       | (rule ev_eq, assumption) | (rule commit, assumption, assumption) | (rule ev_pair, assumption) | (rule ev_pair_eq, assumption))+)
qed

definition evolves_opt :: "wg_device \<Rightarrow> wg_device option \<Rightarrow> bool" where
  "evolves_opt dev r \<longleftrightarrow> (\<forall>D. r = Some D \<longrightarrow> evolves dev D)"

lemma post_ev_opt: "evolves dev D \<Longrightarrow> post (evolves_opt dev) (Some D)" "post (evolves_opt dev) None"
  "evolves dev D \<Longrightarrow> post (evolves_opt dev) (flush_staged sd D p)"
  "evolves dev D \<Longrightarrow> post (evolves_opt dev) (case flush_staged sd D p of None \<Rightarrow> None | Some E \<Rightarrow> Some (if b then E else snd (device_send_keepalive sd E p)))"
  by (auto simp: post_def evolves_opt_def intro: ev_flush ev_keepalive split: option.splits)

lemma ev_initiation: "evolves_opt dev (handle_initiation sd dev src buf)"
proof (rule postD [of "evolves_opt dev"])
  show "post (evolves_opt dev) (handle_initiation sd dev src buf)"
    unfolding handle_initiation_def
    by (intro post_rules; rule post_ev_opt;
      (rule evolves_refl ev_env ev_noise ev_session ev_timers(2,8) ev_initiate(3)
       | (rule ev_eq, assumption) | (rule ev_triple, assumption, assumption, assumption)
       | (rule ev_pair_eq, assumption) | (rule ev_pair, assumption))+)
qed

lemma ev_response: "evolves_opt dev (handle_response sd dev src buf)"
proof (rule postD [of "evolves_opt dev"])
  show "post (evolves_opt dev) (handle_response sd dev src buf)"
    unfolding handle_response_def
    by (intro post_let post_if post_prod_app post_prod post_ev_opt(4) post_option; (rule post_ev_opt(1))?;
      (rule evolves_refl ev_env ev_noise ev_session ev_timers(2,8)
       | (rule ev_eq, assumption) | (rule ev_pair_eq, assumption) | (rule ev_pair, assumption))+)
qed

lemma ev_cookie: "evolves dev (handle_cookie_reply sd dev buf)"
  by (auto simp: handle_cookie_reply_def Let_def intro: ev_upd_peer split: option.splits prod.splits)

lemma ev_recv: "evolves_opt dev (on_udp_recv sd dev nread b data addr)"
proof (rule postD [of "evolves_opt dev"])
  have h: "evolves_opt dev (if t = MSG_INITIATION then handle_initiation sd dev src data
      else if t = MSG_RESPONSE then handle_response sd dev src data
      else if t = MSG_COOKIE_REPLY then Some (handle_cookie_reply sd dev data)
      else if t = MSG_TRANSPORT then Some (handle_transport sd dev src data) else Some dev)" for t src
    using ev_initiation ev_response ev_cookie ev_transport [OF evolves_refl] by (simp add: evolves_opt_def)
  have k: "evolves dev D" if "x = Some D" "x = r" "evolves_opt dev r" for x r D using that by (simp add: evolves_opt_def)
  show "post (evolves_opt dev) (on_udp_recv sd dev nread b data addr)"
    unfolding on_udp_recv_def
    by (intro post_rules post_ev_opt(1,2) ev_env(6) evolves_refl; rule k, assumption, assumption, rule h)
qed

lemma ev_tun: "evolves dev (on_tun_readable sd dev status pkts)"
proof -
  have t: "evolves dev (tun_packet sd b D)" if "evolves dev D" for b D
    using that by (auto simp: tun_packet_def Let_def ev_send split: option.splits)
  have "evolves dev (fold (tun_packet sd) pkts D)" if "evolves dev D" for D
    using that by (induction pkts arbitrary: D) (auto intro: t)
  then show ?thesis by (simp add: on_tun_readable_def)
qed

lemma ev_callbacks: "evolves dev D \<Longrightarrow> evolves dev (timer_cb k sd D p)"
proof -
  assume D: "evolves dev D"
  have r: "evolves dev (start_retransmit sd E p)" if "evolves dev E" for E
  proof -
    obtain ret b E' where rb: "random_bytes sd E (zeros 4) 4 = (ret, b, E')" by (metis prod_cases3)
    then have "evolves dev E'" using ev_env(2) [OF that] by (auto simp: random_bytes_def split: prod.splits)
    then show ?thesis unfolding start_retransmit_def rb by (auto intro: ev_upd_peer)
  qed
  have f: "evolves dev (snd (device_initiate_handshake_force sd E p))" if "evolves dev E" for E
  proof (rule evolves_trans [OF that], rule ev_still [OF _ evolves_refl])
    show "still E (snd (device_initiate_handshake_force sd E p))"
      unfolding device_initiate_handshake_force_def by (rule still_inner)
  qed
  have z: "evolves dev (dev_index_delete E i)" if "evolves dev E" for E i by (rule ev_still [OF still_index(1) that])
  show ?thesis
    using D by (cases k) (auto simp: cb_retransmit_handshake_def cb_send_keepalive_def cb_new_handshake_def cb_zero_key_material_def
      cb_persistent_keepalive_def free_keypairs_def Let_def intro!: r f z ev_upd_peer ev_timers ev_keepalive ev_initiate ev_hs ev_free)
qed

lemma ev_teardown: "evolves dev D \<Longrightarrow> evolves dev (peer_teardown sd D p)"
proof -
  have a: "evolves dev E \<Longrightarrow> evolves dev (E\<lparr>d_allowedips := t\<rparr>)" for E t by (erule ev_mem [rotated 2]) simp_all
  have z: "evolves dev E \<Longrightarrow> evolves dev (dev_index_delete E i)" for E i by (rule ev_still [OF still_index(1)])
  show "evolves dev D \<Longrightarrow> evolves dev (peer_teardown sd D p)"
    unfolding peer_teardown_def free_keypairs_def Let_def by (intro ev_timers ev_upd_peer z ev_free a)
qed

lemma ev_config:
  "evolves dev (install_static_key sd dev priv)" "evolves dev (set_preshared_key dev p psk)" "evolves dev (set_endpoint dev p ss len)"
  "evolves dev (set_persistent_keepalive dev p sec)" "evolves dev (replace_allowed_ips dev p)"
  "evolves dev (add_allowed_ip4 ok1 ok2 dev p a4 c)" "evolves dev (add_allowed_ip6 ok1 ok2 dev p a6 c)"
proof -
  have f: "evolves dev (fold (\<lambda>p d. noise_precompute_static_static sd d p) L D)" if "evolves dev D" for L D
    using that by (induction L arbitrary: D) (auto intro: ev_timers(10))
  have k: "evolves dev (dev\<lparr>d_private_key := a, d_public_key := b\<rparr>)" for a b by (rule ev_mem [OF _ _ evolves_refl]) simp_all
  have c: "evolves dev D \<Longrightarrow> evolves dev (D\<lparr>d_cookie_checker := cc\<rparr>)" for D cc by (erule ev_mem [rotated 2]) simp_all
  have a: "evolves dev (dev\<lparr>d_allowedips := t\<rparr>)" for t by (rule ev_mem [OF _ _ evolves_refl]) simp_all
  show "evolves dev (install_static_key sd dev priv)"
    unfolding install_static_key_def noise_set_static_key_def Let_def by (intro c f) (auto intro: k)
  show "evolves dev (set_preshared_key dev p psk)" "evolves dev (set_endpoint dev p ss len)" "evolves dev (set_persistent_keepalive dev p sec)"
    "evolves dev (replace_allowed_ips dev p)" "evolves dev (add_allowed_ip4 ok1 ok2 dev p a4 c)" "evolves dev (add_allowed_ip6 ok1 ok2 dev p a6 c)" for c
    unfolding set_preshared_key_def set_endpoint_def set_persistent_keepalive_def replace_allowed_ips_def add_allowed_ip4_def add_allowed_ip6_def
    by (intro ev_timers(5) ev_upd_peer ev_hs evolves_refl a)+
qed

lemma ev_add_peer: "evolves dev (snd (device_add_peer sd dev pk))"
proof (rule postD [of "\<lambda>r. evolves dev (snd r)"])
  have c: "evolves dev D" if "calloc dev = (a, D)" for a D
    using that by (intro ev_mem [OF _ _ evolves_refl]) (auto simp: calloc_def split: if_splits)
  have m: "evolves dev D \<Longrightarrow> evolves dev (D\<lparr>peer_mem := x\<rparr>)" "evolves dev D \<Longrightarrow> evolves dev (D\<lparr>d_peers := l, d_peer_count := n\<rparr>)" for D x l n
    by (erule ev_mem [rotated 2]; simp)+
  have t: "evolves dev D \<Longrightarrow> evolves dev (timers_init D p)" for D p
    by (erule ev_mem [rotated 2]) (simp_all add: timers_init_def upd_peer_def Let_def)
  show "post (\<lambda>r. evolves dev (snd r)) (device_add_peer sd dev pk)"
    unfolding device_add_peer_def
    by (intro post_rules; rule post_ev; (rule evolves_refl m t ev_timers(10) | (rule c, assumption) | (rule ev_eq, assumption))+)
qed

lemma step_evolves: "step sd dev dev' \<Longrightarrow> evolves dev dev'"
proof (induction rule: step.induct)
  case (recv dev b n D data nread addr dev')
  have "evolves dev D" using recv(1) ev_env(4) [OF evolves_refl, of dev] by (auto simp: on_udp_alloc_def split: prod.splits)
  moreover have "evolves D dev'" using ev_recv recv(4) unfolding evolves_opt_def by blast
  ultimately show ?case by (rule evolves_trans)
next
  case (send_ip dev enq pkt)
  then show ?case by (auto simp: device_send_ip_packet_def Let_def ev_send split: option.splits)
next
  case (timer dev p q k)
  show ?case by (intro ev_callbacks ev_upd_peer evolves_refl)
next
  case (timer_closed dev p q)
  have "evolves D (D\<lparr>peer_mem := x\<rparr>)" for D x by (rule ev_mem [OF _ _ evolves_refl]) simp_all
  then show ?case unfolding peer_close_cb_def Let_def by (auto intro: evolves_trans [OF ev_upd_peer [OF evolves_refl]] ev_upd_peer)
next
  case (sent b dev)
  show ?case by (rule ev_mem [OF _ _ evolves_refl]) (simp_all add: udp_send_done_def udp_send_req_release_def)
next
  case (time dev t)
  show ?case by (rule ev_mem [OF _ _ evolves_refl]) simp_all
next
  case (remove_peer p dev)
  have "evolves dev (dev\<lparr>d_peers := l, d_peer_count := n\<rparr>)" for l n by (rule ev_mem [OF _ _ evolves_refl]) simp_all
  then show ?case unfolding device_remove_peer_def Let_def by (auto intro: ev_teardown)
next
  case (remove_all dev)
  have "evolves dev (fold (\<lambda>p d. peer_teardown sd d p) L D)" if "evolves dev D" for L D
    using that by (induction L arbitrary: D) (auto intro: ev_teardown)
  moreover have "evolves dev (dev\<lparr>d_peers := [], d_peer_count := 0\<rparr>)" by (rule ev_mem [OF _ _ evolves_refl]) simp_all
  ultimately show ?case by (simp add: device_remove_all_peers_def)
next
  case (listen_port dev lp)
  show ?case by (rule ev_mem [OF _ _ evolves_refl]) simp_all
next
  case (fwmark dev fw)
  show ?case by (rule ev_mem [OF _ _ evolves_refl]) simp_all
qed (intro ev_tun ev_initiate ev_upd_peer ev_timers(5) evolves_refl ev_add_peer ev_config)+

lemma steps_evolve: "(step sd)\<^sup>*\<^sup>* dev dev' \<Longrightarrow> evolves dev dev'"
  by (induction rule: rtranclp_induct) (auto intro: evolves_trans step_evolves)

section \<open>Reachable states\<close>

lemma reachable_sessions: "reachable sd dev \<Longrightarrow> kp_below dev \<and> (\<forall>k kp. kp_mem dev k = Some kp \<longrightarrow> filter_ok kp)"
proof (induction rule: reachable.induct)
  case (init dev0 dev)
  then have "kp_mem dev = Map.empty"
    by (auto simp: device_init_def device_clear_def calloc_def noise_init_device_def Let_def split: if_splits)
  then show ?case by (simp add: kp_below_def)
next
  case (step dev dev')
  then show ?case using step_evolves [OF step(2)] by (fastforce simp: evolves_def grows_def split: if_splits)
qed

lemma steps_inv: "(step sd)\<^sup>*\<^sup>* dev dev' \<Longrightarrow> dev_inv dev \<Longrightarrow> dev_inv dev'"
  by (induction rule: rtranclp_induct) (auto intro: step_inv)

lemma indexed_keypair_live:
  assumes "dev_inv dev" "index_table_lookup (d_index_table dev) i = Some e" "ie_type e = IDX_KEYPAIR" "ie_keypair e = Some k"
  shows "kp_mem dev k \<noteq> None"
proof -
  have "heap_inv {} dev" using assms(1) by (simp add: dev_inv_def)
  from core_invD(8) [OF this [unfolded heap_inv_def] assms(2)] assms(3,4) show ?thesis by (auto simp: entry_ok_def kp_idx_def)
qed

text \<open>A datagram is accepted under a keypair: the index leads to it, the counter is acceptable, a buffer is there, and the tag
  verifies.\<close>

definition accepted :: "sodium \<Rightarrow> wg_device \<Rightarrow> bytes \<Rightarrow> kp_ref \<Rightarrow> bool" where
  "accepted sd dev buf k \<longleftrightarrow> MSG_TRANSPORT_SIZE \<le> length buf \<and> (\<exists>e p. index_table_lookup (d_index_table dev) (mt_receiver (transport_hdr_of buf)) = Some e \<and>
     ie_type e = IDX_KEYPAIR \<and> ie_keypair e = Some k \<and> ie_peer e = Some p) \<and>
     \<not> rejects (kp_at dev k) (mt_counter (transport_hdr_of buf)) \<and> fst (rx_buffer_acquire dev) \<noteq> None \<and>
     wg_chacha20poly1305_decrypt sd (kp_recv_key (kp_at dev k)) (transport_nonce (mt_counter (transport_hdr_of buf))) (drop MSG_TRANSPORT_HDR_SIZE buf) [] \<noteq> None"

lemma accepted_commits:
  assumes "accepted sd dev buf k"
  shows "\<exists>R f. kp_mem R = kp_mem dev \<and> e_brk dev \<le> e_brk R \<and>
    replay_commit (kp_replay (kp_at dev k)) (mt_counter (transport_hdr_of buf)) REJECT_AFTER_MESSAGES = (True, f) \<and>
    evolves (upd_kp k (\<lambda>x. x\<lparr>kp_replay := f\<rparr>) R) (handle_transport sd dev src buf)"
proof -
  let ?c = "mt_counter (transport_hdr_of buf)"
  obtain e p where e: "index_table_lookup (d_index_table dev) (mt_receiver (transport_hdr_of buf)) = Some e" "ie_type e = IDX_KEYPAIR"
    "ie_keypair e = Some k" "ie_peer e = Some p" and len: "\<not> length buf < MSG_TRANSPORT_SIZE" and
    chk: "replay_check (kp_replay (kp_at dev k)) ?c REJECT_AFTER_MESSAGES" using assms by (auto simp: accepted_def rejects_def)
  obtain b R where R: "rx_buffer_acquire dev = (Some b, R)" using assms by (cases "rx_buffer_acquire dev") (auto simp: accepted_def)
  then have m: "kp_mem R = kp_mem dev" "e_brk dev \<le> e_brk R"
    by (auto simp: rx_buffer_acquire_def buffer_acquire_def calloc_def split: list.splits option.splits prod.splits if_splits)
  then have at: "kp_at R k = kp_at dev k" by (simp add: kp_at_def)
  obtain pt where pt: "wg_chacha20poly1305_decrypt sd (kp_recv_key (kp_at dev k)) (transport_nonce ?c) (drop MSG_TRANSPORT_HDR_SIZE buf) [] = Some pt"
    using assms by (auto simp: accepted_def)
  obtain ok f where f: "replay_commit (kp_replay (kp_at dev k)) ?c REJECT_AFTER_MESSAGES = (ok, f)" by fastforce
  then have ok: "ok" using chk rp.commit_check [of "kp_replay (kp_at dev k)" ?c REJECT_AFTER_MESSAGES] by simp
  let ?C = "upd_kp k (\<lambda>x. x\<lparr>kp_replay := f\<rparr>) R"
  have "handle_transport sd dev src buf = (case transport_plaintext_len pt of None \<Rightarrow> rx_buffer_release ?C (Some b)
    | Some n \<Rightarrow> rx_buffer_release (deliver (update_endpoint (confirm_keypair sd (timers_data_received
        (upd_peer p (\<lambda>q. q\<lparr>p_rx_bytes := p_rx_bytes q + of_nat (length buf)\<rparr>) ?C) p) p k) p src) p (take n pt)) (Some b))"
    using len e chk pt f ok by (cases "transport_plaintext_len pt") (simp_all add: handle_transport_def Let_def R at)
  moreover have "evolves ?C (rx_buffer_release ?C (Some b))"
    "evolves ?C (rx_buffer_release (deliver (update_endpoint (confirm_keypair sd (timers_data_received
        (upd_peer p (\<lambda>q. q\<lparr>p_rx_bytes := p_rx_bytes q + of_nat (length buf)\<rparr>) ?C) p) p k) p src) p (take n pt)) (Some b))" for n
    by (intro ev_env(5) ev_deliver ev_timers(8) ev_confirm ev_timers(1) ev_upd_peer evolves_refl)+
  ultimately have "evolves ?C (handle_transport sd dev src buf)" by (cases "transport_plaintext_len pt") simp_all
  then show ?thesis using m f ok by (intro exI [of _ R] exI [of _ f] conjI) simp_all
qed

text \<open>The invariant of the sessions: the heap is in order, every keypair lies below the allocator's mark and its filter stands for a
  set of counters.\<close>

definition session_inv :: "wg_device \<Rightarrow> bool" where
  "session_inv dev \<longleftrightarrow> dev_inv dev \<and> kp_below dev \<and> (\<forall>k kp. kp_mem dev k = Some kp \<longrightarrow> filter_ok kp)"

lemma reachable_session_inv: "reachable sd dev \<Longrightarrow> session_inv dev"
  using reachable_sessions reachable_inv by (simp add: session_inv_def)

lemma replay_dropped:
  assumes inv: "session_inv dev" and "accepted sd dev buf k" "(step sd)\<^sup>*\<^sup>* (handle_transport sd dev src buf) dev'"
    and later: "index_table_lookup (d_index_table dev') (mt_receiver (transport_hdr_of buf')) = Some e" "ie_type e = IDX_KEYPAIR" "ie_keypair e = Some k"
      "mt_counter (transport_hdr_of buf') = mt_counter (transport_hdr_of buf)"
  shows "handle_transport sd dev' src' buf' = dev'"
proof -
  let ?c = "mt_counter (transport_hdr_of buf)"
  have d: "dev_inv dev" using inv by (simp add: session_inv_def)
  have d': "dev_inv dev'"
    by (rule steps_inv [OF assms(3) keeps_dev_inv [OF handle_transport_keeps d]]) (use d in \<open>simp add: dev_inv_def\<close>)
  obtain kp where kp: "kp_mem dev k = Some kp" using indexed_keypair_live [OF d] assms(2) unfolding accepted_def by blast
  then have kat: "kp_at dev k = kp" and lt: "k < e_brk dev" and ok: "filter_ok kp" using inv by (auto simp: kp_at_def kp_below_def session_inv_def)
  obtain R f where R: "kp_mem R = kp_mem dev" "e_brk dev \<le> e_brk R" "replay_commit (kp_replay kp) ?c REJECT_AFTER_MESSAGES = (True, f)"
    "evolves (upd_kp k (\<lambda>x. x\<lparr>kp_replay := f\<rparr>) R) (handle_transport sd dev src buf)"
    using accepted_commits [OF assms(2), of src] unfolding kat by blast
  let ?C = "upd_kp k (\<lambda>x. x\<lparr>kp_replay := f\<rparr>) R"
  have C: "kp_mem ?C k = Some (kp\<lparr>kp_replay := f\<rparr>)" "kp_below ?C" "k < e_brk ?C"
    using kp R(1,2) lt inv by (auto simp: upd_kp_def kp_below_def session_inv_def elim: order_less_le_trans)
  have fin: "evolves ?C dev'" by (rule evolves_trans [OF R(4) steps_evolve [OF assms(3)]])
  obtain kp' where kp': "kp_mem dev' k = Some kp'" using indexed_keypair_live [OF d' later(1-3)] by blast
  then have "grows (kp\<lparr>kp_replay := f\<rparr>) kp'" using fin C unfolding evolves_def by fastforce
  moreover have "filter_ok (kp\<lparr>kp_replay := f\<rparr>)" using grows_commit(1) [OF R(3)] ok by (simp add: grows_def)
  ultimately have "rejects kp' ?c" using grows_commit(2) [OF R(3) ok] by (simp add: grows_def)
  then show ?thesis using later kp' by (simp add: handle_transport_def kp_at_def rejects_def Let_def split: option.splits)
qed

section \<open>Properties\<close>

text \<open>\<^bold>\<open>C4\<close>. No replay, over the life of the device: once a datagram has been accepted under a session, no datagram with the same
  counter is processed under that session again. Whatever the event loop does in between - other packets, handshakes and
  key rotation, timers, configuration commands, failing allocations - a later datagram that carries the counter and whose index
  leads to the same keypair leaves the device as it is. The invariant this starts from holds in every reachable state.\<close>

theorem transport_no_replay:
  "(\<forall>dev. reachable sd dev \<longrightarrow> session_inv dev) \<and>
   (\<forall>dev buf k src dev' buf' e src'. session_inv dev \<and> accepted sd dev buf k \<and> (step sd)\<^sup>*\<^sup>* (handle_transport sd dev src buf) dev' \<and>
      index_table_lookup (d_index_table dev') (mt_receiver (transport_hdr_of buf')) = Some e \<and> ie_type e = IDX_KEYPAIR \<and> ie_keypair e = Some k \<and>
      mt_counter (transport_hdr_of buf') = mt_counter (transport_hdr_of buf) \<longrightarrow>
      handle_transport sd dev' src' buf' = dev')"
  using reachable_session_inv replay_dropped by blast

section \<open>Witnesses\<close>

lemma session_inv_loop: "session_inv device_loop"
proof -
  have mem: "peer_mem device_loop = [0 \<mapsto> peer_loop]" "kp_mem device_loop = [1 \<mapsto> kp_loop]" "e_brk device_loop = 2" "d_peers device_loop = [0]"
    "d_allowedips device_loop = allowedips_init" by (simp_all add: device_loop_def device_zero_def)
  have L: "i = 5 \<and> e = entry_loop" if "index_table_lookup (d_index_table device_loop) i = Some e" for i e
    using that by (auto simp: index_table_lookup_def device_loop_def entry_loop_def Let_def split: if_splits)
  have k: "view peer_loop = (Some 1, None, None, hs_local_index (p_handshake peer_loop))" by (simp add: view_def peer_loop_def peer_zero_def)
  have "heap_inv {} device_loop"
    unfolding heap_inv_def by (rule core_invI) (auto simp: mem k dest!: L simp: views_def kp_idx_def entry_ok_def entry_loop_def kp_loop_def split: if_splits)
  moreover have "routes_inv device_loop" by (simp add: routes_inv_def mem) (simp add: allowedips_init_def)
  moreover have "live_inv device_loop" by (simp add: live_inv_def mem tstate_def closed_def timer_zero_def peer_loop_def peer_zero_def)
  moreover have "filter_ok kp_loop" using replay_rel_reset unfolding filter_ok_def kp_loop_fresh(1) by metis
  ultimately show ?thesis by (simp add: session_inv_def dev_inv_def kp_below_def mem)
qed

definition keepalive_loop :: bytes where
  "keepalive_loop = transport_hdr_bytes \<lparr>mt_type = MSG_TRANSPORT, mt_receiver = 5, mt_counter = 0\<rparr> @ s_aead_encrypt sodium_example (kp_send_key kp_loop) (transport_nonce 0) [] []"

lemma keepalive_accepted: "accepted sodium_example device_loop keepalive_loop 1"
proof -
  have h: "transport_hdr_of keepalive_loop = \<lparr>mt_type = MSG_TRANSPORT, mt_receiver = 5, mt_counter = 0\<rparr>" by (simp add: keepalive_loop_def)
  have b: "drop MSG_TRANSPORT_HDR_SIZE keepalive_loop = s_aead_encrypt sodium_example (kp_send_key kp_loop) (transport_nonce 0) [] []"
    "MSG_TRANSPORT_SIZE \<le> length keepalive_loop"
    using sodium_lawsD(6) [OF sodium_example_laws]
    by (simp_all add: keepalive_loop_def MSG_TRANSPORT_HDR_SIZE_def MSG_TRANSPORT_SIZE_def transport_hdr_bytes_def)
  have "fst (rx_buffer_acquire device_loop) \<noteq> None" by (simp add: rx_buffer_acquire_def buffer_acquire_def device_loop_simps)
  then show ?thesis
    unfolding accepted_def h b(1) using b(2) device_loop_simps(1,2,11) kp_loop_fresh(4) sodium_lawsD(7) [OF sodium_example_laws]
    by (simp add: kp_at_def rejects_def entry_loop_def)
qed

lemma transport_keeps_index:
  assumes "index_table_lookup (d_index_table dev) (mt_receiver (transport_hdr_of buf)) = Some e" "ie_keypair e = Some k" "ie_peer e = Some p"
    "map_option p_next_keypair (peer_mem dev p) = Some None"
  shows "d_index_table (handle_transport sd dev src buf) = d_index_table dev"
proof -
  define nx where "nx D = map_option p_next_keypair (peer_mem D p)" for D :: wg_device
  have t: "d_index_table (timers_data_received D p) = d_index_table D" "d_index_table (update_endpoint D p src) = d_index_table D"
    "d_index_table (deliver D p pt) = d_index_table D" "d_index_table (rx_buffer_release D b) = d_index_table D"
    "d_index_table (upd_peer p g D) = d_index_table D" "d_index_table (upd_kp k h D) = d_index_table D" for D pt b g h
    by (auto simp: timers_data_received_def update_endpoint_def deliver_def timers_keepalive_received_def rx_buffer_release_def
      upd_peer_def upd_kp_def Let_def)
  have n: "nx (timers_data_received D p) = nx D" "nx (upd_peer p (\<lambda>q. q\<lparr>p_rx_bytes := m q\<rparr>) D) = nx D" "nx (upd_kp k h D) = nx D" for D m h
    by (auto simp: nx_def timers_data_received_def upd_peer_def upd_kp_def Let_def option.map_comp o_def)
  have r: "d_index_table D = d_index_table dev \<and> nx D = Some None" if "rx_buffer_acquire dev = (b, D)" for b D
    using that assms(4) by (auto simp: nx_def rx_buffer_acquire_def buffer_acquire_def calloc_def split: list.splits option.splits prod.splits if_splits)
  have c: "confirm_keypair sd D p k = D" if "nx D = Some None" for D using that by (auto simp: nx_def confirm_keypair_def peer_at_def)
  show ?thesis
    using assms(1-3) r unfolding handle_transport_def Let_def by (auto simp: t c n split: option.splits prod.splits)
qed

theorem transport_no_replay_witness:
  "handle_transport sodium_example (handle_transport sodium_example device_loop sockaddr_zero keepalive_loop) sockaddr_zero keepalive_loop =
   handle_transport sodium_example device_loop sockaddr_zero keepalive_loop"
proof -
  let ?D = "handle_transport sodium_example device_loop sockaddr_zero keepalive_loop"
  have h: "mt_receiver (transport_hdr_of keepalive_loop) = 5" by (simp add: keepalive_loop_def)
  have e: "ie_type entry_loop = IDX_KEYPAIR" "ie_keypair entry_loop = Some 1" "ie_peer entry_loop = Some 0" by (simp_all add: entry_loop_def)
  have "d_index_table ?D = d_index_table device_loop"
    using e by (intro transport_keeps_index [of device_loop keepalive_loop entry_loop 1 0])
      (simp_all add: device_loop_simps h peer_loop_def peer_zero_def)
  then have "index_table_lookup (d_index_table ?D) (mt_receiver (transport_hdr_of keepalive_loop)) = Some entry_loop"
    using device_loop_simps(1) h by simp
  then show ?thesis
    using transport_no_replay [of sodium_example] session_inv_loop keepalive_accepted e(1,2) by blast
qed

end
