(* ===== verification/Cstring.thy ===== *)
theory Cstring
  imports Prelude
begin

text \<open>
  The C library's string functions, as the parsers of the program use them. A C string is the list of its characters up to,
  and without, the terminating NUL; \<^verbatim>\<open>char\<close> is read as an unsigned byte. A pointer into a string is the suffix it
  points to, so the search functions return the parts before and after the character they find.
\<close>

section \<open>Characters and searching\<close>

definition code :: "char \<Rightarrow> nat" where
  "code c = of_char c"

definition isspace :: "char \<Rightarrow> bool" where
  "isspace c \<longleftrightarrow> code c = 32 \<or> 9 \<le> code c \<and> code c \<le> 13"

definition isdigit :: "char \<Rightarrow> bool" where
  "isdigit c \<longleftrightarrow> 48 \<le> code c \<and> code c \<le> 57"

definition tolower :: "char \<Rightarrow> char" where
  "tolower c = (if 65 \<le> code c \<and> code c \<le> 90 then char_of (code c + 32) else c)"

definition strcasecmp_eq :: "string \<Rightarrow> string \<Rightarrow> bool" where
  "strcasecmp_eq s t \<longleftrightarrow> map tolower s = map tolower t"

abbreviation newline :: char where "newline \<equiv> CHR 0x0A"
abbreviation nul :: char where "nul \<equiv> CHR 0x00"

text \<open>The string that a buffer holds ends at its first NUL.\<close>

definition c_str :: "string \<Rightarrow> string" where
  "c_str s = takeWhile (\<lambda>c. c \<noteq> nul) s"

fun strchr :: "string \<Rightarrow> char \<Rightarrow> (string \<times> string) option" where
  "strchr [] x = None"
| "strchr (c # cs) x = (if c = x then Some ([], cs) else map_option (\<lambda>(a, b). (c # a, b)) (strchr cs x))"

definition strrchr :: "string \<Rightarrow> char \<Rightarrow> (string \<times> string) option" where
  "strrchr s x = map_option (\<lambda>(a, b). (rev b, rev a)) (strchr (rev s) x)"

definition strstr :: "string \<Rightarrow> string \<Rightarrow> bool" where
  "strstr s t \<longleftrightarrow> (\<exists>i \<in> set [0..<length s + 1]. take (length t) (drop i s) = t)"

definition strncmp_eq :: "string \<Rightarrow> string \<Rightarrow> nat \<Rightarrow> bool" where
  "strncmp_eq s t n \<longleftrightarrow> take n s = take n t"

lemma strchr_Some: "strchr s x = Some (a, b) \<longleftrightarrow> s = a @ x # b \<and> x \<notin> set a"
proof (induction s arbitrary: a)
  case (Cons c s)
  then show ?case by (cases a) (auto split: prod.splits)
qed simp

lemma strchr_None: "strchr s x = None \<longleftrightarrow> x \<notin> set s"
  by (induction s) auto

lemma strchr_append [simp]: "x \<notin> set a \<Longrightarrow> strchr (a @ x # b) x = Some (a, b)"
  by (simp add: strchr_Some)

lemma strrchr_append [simp]: "x \<notin> set b \<Longrightarrow> strrchr (a @ x # b) x = Some (a, b)"
proof -
  assume b: "x \<notin> set b"
  have "strchr (rev (a @ x # b)) x = strchr (rev b @ x # rev a) x" by simp
  also have "\<dots> = Some (rev b, rev a)" by (rule strchr_append) (simp add: b)
  finally show ?thesis by (simp add: strrchr_def del: rev_append)
qed

section \<open>Numbers\<close>

fun digits_val :: "nat \<Rightarrow> string \<Rightarrow> nat" where
  "digits_val n [] = n"
| "digits_val n (c # cs) = (if isdigit c then digits_val (10 * n + (code c - 48)) cs else n)"

definition scan_sign :: "string \<Rightarrow> bool \<times> string" where
  "scan_sign s =
     (case dropWhile isspace s of
        [] \<Rightarrow> (False, [])
      | c # t \<Rightarrow> if c = CHR ''-'' then (True, t) else if c = CHR ''+'' then (False, t) else (False, c # t))"

text \<open>\<^verbatim>\<open>strtol\<close> and \<^verbatim>\<open>strtoul\<close> in base 10 for 64-bit \<^verbatim>\<open>long\<close>: out-of-range values saturate. \<^verbatim>\<open>atoi\<close> is the conversion of
  \<^verbatim>\<open>strtol\<close>'s value to \<^verbatim>\<open>int\<close>, as the common C libraries implement it (the standard leaves overflow open).\<close>

definition strtol :: "string \<Rightarrow> int" where
  "strtol s = (let (neg, t) = scan_sign s; n = int (digits_val 0 t) in if neg then max (- (2 ^ 63)) (- n) else min (2 ^ 63 - 1) n)"

definition strtoul :: "string \<Rightarrow> u64" where
  "strtoul s = (let (neg, t) = scan_sign s; n = digits_val 0 t
     in if n \<ge> 2 ^ 64 then - 1 else if neg then - of_nat n else of_nat n)"

definition atoi :: "string \<Rightarrow> int" where
  "atoi s = sint (word_of_int (strtol s) :: u32)"

text \<open>\<^verbatim>\<open>%u\<close>, \<^verbatim>\<open>%llu\<close> and \<^verbatim>\<open>%lld\<close>.\<close>

definition digit :: "nat \<Rightarrow> char" where
  "digit n = char_of (48 + n)"

fun show_nat :: "nat \<Rightarrow> string" where
  "show_nat n = (if n < 10 then [digit n] else show_nat (n div 10) @ [digit (n mod 10)])"

declare show_nat.simps [simp del]

definition show_int :: "int \<Rightarrow> string" where
  "show_int i = (if i < 0 then CHR ''-'' # show_nat (nat (- i)) else show_nat (nat i))"

lemma code_digit: "n < 10 \<Longrightarrow> code (digit n) = 48 + n"
  by (simp add: code_def digit_def)

lemma isdigit_digit [simp]: "n < 10 \<Longrightarrow> isdigit (digit n)"
  by (simp add: isdigit_def code_digit)

lemma show_nat_digits: "c \<in> set (show_nat n) \<Longrightarrow> isdigit c"
  by (induction n rule: show_nat.induct) (subst (asm) show_nat.simps, auto split: if_splits)

lemma show_nat_ne [simp]: "show_nat n \<noteq> []"
  by (subst show_nat.simps) simp

lemma digits_val_append: "(\<And>c. c \<in> set a \<Longrightarrow> isdigit c) \<Longrightarrow> digits_val n (a @ b) = digits_val (digits_val n a) b"
  by (induction a arbitrary: n) auto

lemma digits_val_show: "digits_val 0 (show_nat n) = n"
proof (induction n rule: show_nat.induct)
  case (1 n)
  show ?case
  proof (cases "n < 10")
    case True
    then show ?thesis by (subst show_nat.simps) (simp add: code_digit)
  next
    case False
    then have "digits_val 0 (show_nat n) = digits_val (n div 10) [digit (n mod 10)]"
      using digits_val_append [OF show_nat_digits] 1 by (subst show_nat.simps) simp
    then show ?thesis by (simp add: code_digit)
  qed
qed

definition no_digit_first :: "string \<Rightarrow> bool" where
  "no_digit_first r \<longleftrightarrow> (case r of [] \<Rightarrow> True | c # _ \<Rightarrow> \<not> isdigit c)"

lemma digits_val_stop: "no_digit_first r \<Longrightarrow> digits_val n r = n"
  by (cases r) (auto simp: no_digit_first_def)

lemma isdigit_not: "isdigit c \<Longrightarrow> \<not> isspace c \<and> c \<noteq> CHR ''-'' \<and> c \<noteq> CHR ''+''"
  by (auto simp: isdigit_def isspace_def code_def)

lemma scan_show [simp]: "scan_sign (show_nat n @ r) = (False, show_nat n @ r)"
proof -
  obtain c cs where s: "show_nat n = c # cs" by (cases "show_nat n") auto
  then have "isdigit c" using show_nat_digits [of c n] by simp
  from isdigit_not [OF this] show ?thesis by (simp add: s scan_sign_def)
qed

text \<open>Reading back a printed number.\<close>

lemma strtol_show: "no_digit_first r \<Longrightarrow> strtol (show_nat n @ r) = min (2 ^ 63 - 1) (int n)"
  by (simp add: strtol_def Let_def digits_val_append show_nat_digits digits_val_show digits_val_stop)

lemma sint_small: "- (2 ^ 31) \<le> k \<Longrightarrow> k < 2 ^ 31 \<Longrightarrow> sint (word_of_int k :: u32) = k"
  by (simp only: sint_sbintrunc') (simp add: signed_take_bit_int_eq_self)

lemma atoi_show: "no_digit_first r \<Longrightarrow> n < 2 ^ 31 \<Longrightarrow> atoi (show_nat n @ r) = int n"
proof -
  assume r: "no_digit_first r" and n: "n < 2 ^ 31"
  then have "int n < 2 ^ 31" by (metis of_nat_less_iff of_nat_numeral of_nat_power)
  then have "min (2 ^ 63 - 1) (int n) = int n" "sint (word_of_int (int n) :: u32) = int n"
    by (simp, intro sint_small) simp_all
  then show ?thesis using strtol_show [OF r, of n] by (simp add: atoi_def)
qed

section \<open>Internet addresses\<close>

text \<open>\<^verbatim>\<open>inet_pton\<close>: four decimal numbers up to 255 without superfluous zeros; and up to eight groups of at most four hexadecimal
  digits, one run of zero groups abbreviated by \<^verbatim>\<open>::\<close>, the last two groups possibly in dotted form.\<close>

fun pton4_scan :: "nat list \<Rightarrow> nat option \<Rightarrow> string \<Rightarrow> bytes option" where
  "pton4_scan done cur [] = (case cur of None \<Rightarrow> None | Some n \<Rightarrow> if length done = 3 then Some (map of_nat (done @ [n])) else None)"
| "pton4_scan done cur (c # cs) =
     (if isdigit c then
        (case cur of
           None \<Rightarrow> if length done = 4 then None else pton4_scan done (Some (code c - 48)) cs
         | Some n \<Rightarrow> if n = 0 \<or> 10 * n + (code c - 48) > 255 then None else pton4_scan done (Some (10 * n + (code c - 48))) cs)
      else if c = CHR ''.'' then
        (case cur of None \<Rightarrow> None | Some n \<Rightarrow> if length done = 3 then None else pton4_scan (done @ [n]) None cs)
      else None)"

definition inet_pton4 :: "string \<Rightarrow> bytes option" where
  "inet_pton4 s = pton4_scan [] None s"

lemma pton4_scan_length: "pton4_scan d cur s = Some a \<Longrightarrow> length a = 4"
  by (induction d cur s rule: pton4_scan.induct) (auto split: if_splits option.splits)

lemma inet_pton4_length: "inet_pton4 s = Some a \<Longrightarrow> length a = 4"
  unfolding inet_pton4_def by (rule pton4_scan_length)

definition hex_val :: "char \<Rightarrow> nat option" where
  "hex_val c =
     (if 48 \<le> code c \<and> code c \<le> 57 then Some (code c - 48)
      else if 97 \<le> code c \<and> code c \<le> 102 then Some (code c - 87)
      else if 65 \<le> code c \<and> code c \<le> 70 then Some (code c - 55)
      else None)"

text \<open>\<open>out\<close> is what has been written, \<open>colon\<close> where the \<^verbatim>\<open>::\<close> was, \<open>tok\<close> the current group's text, \<open>digs\<close> and \<open>val\<close>
  its digits so far.\<close>

definition pton6_end :: "bytes \<Rightarrow> nat option \<Rightarrow> nat \<Rightarrow> u16 \<Rightarrow> bytes option" where
  "pton6_end out colon digs val =
     (if digs > 0 \<and> length out + 2 > 16 then None else
      let out = (if digs > 0 then out @ be16 val else out)
      in case colon of
           None \<Rightarrow> if length out = 16 then Some out else None
         | Some k \<Rightarrow> if length out = 16 then None else Some (take k out @ zeros (16 - length out) @ drop k out))"

fun pton6_scan :: "bytes \<Rightarrow> nat option \<Rightarrow> string \<Rightarrow> nat \<Rightarrow> u16 \<Rightarrow> string \<Rightarrow> bytes option" where
  "pton6_scan out colon tok digs val [] = pton6_end out colon digs val"
| "pton6_scan out colon tok digs val (c # cs) =
     (case hex_val c of
        Some d \<Rightarrow> if digs = 4 then None else pton6_scan out colon tok (digs + 1) (push_bit 4 val OR of_nat d) cs
      | None \<Rightarrow>
          if c = CHR '':'' then
            if digs = 0 then (if colon \<noteq> None then None else pton6_scan out (Some (length out)) cs 0 0 cs)
            else if cs = [] then None
            else if length out + 2 > 16 then None
            else pton6_scan (out @ be16 val) colon cs 0 0 cs
          else if c = CHR ''.'' \<and> length out + 4 \<le> 16 then
            (case inet_pton4 tok of None \<Rightarrow> None | Some a \<Rightarrow> pton6_end (out @ a) colon 0 0)
          else None)"

definition inet_pton6 :: "string \<Rightarrow> bytes option" where
  "inet_pton6 s =
     (case s of
        [] \<Rightarrow> None
      | c # cs \<Rightarrow>
          if c = CHR '':'' then (case cs of d # _ \<Rightarrow> if d = CHR '':'' then pton6_scan [] None cs 0 0 cs else None | [] \<Rightarrow> None)
          else pton6_scan [] None s 0 0 s)"

lemma pton6_end_length: "pton6_end out colon digs val = Some a \<Longrightarrow> length out \<le> 16 \<Longrightarrow> length a = 16"
  by (auto simp: pton6_end_def Let_def split: if_splits option.splits)

lemma pton6_scan_length: "pton6_scan out colon tok digs val s = Some a \<Longrightarrow> length out \<le> 16 \<Longrightarrow> length a = 16"
proof (induction out colon tok digs val s rule: pton6_scan.induct)
  case (2 out colon tok digs val c cs)
  have "length (out @ x) \<le> 16" if "inet_pton4 tok = Some x" "length out + 4 \<le> 16" for x using inet_pton4_length that by simp
  then show ?case using 2 by (auto split: if_splits option.splits dest: pton6_end_length)
qed (simp add: pton6_end_length)

lemma inet_pton6_length: "inet_pton6 s = Some a \<Longrightarrow> length a = 16"
  unfolding inet_pton6_def by (auto split: list.splits if_splits dest: pton6_scan_length simp del: pton6_scan.simps)

text \<open>\<^verbatim>\<open>inet_ntop\<close> for IPv4 and the fact that it is read back.\<close>

definition inet_ntop4 :: "bytes \<Rightarrow> string" where
  "inet_ntop4 a = concat (map (\<lambda>i. (if i = 0 then [] else ''.'') @ show_nat (unat (a ! i))) [0..<4])"

lemma digits_val_mono: "n \<le> digits_val n ds"
proof (induction ds arbitrary: n)
  case (Cons c ds)
  show ?case using Cons [of "10 * n + (code c - 48)"] by auto
qed simp

lemma pton4_scan_digits:
  assumes "\<And>c. c \<in> set ds \<Longrightarrow> isdigit c" "digits_val n ds \<le> 255" "n \<noteq> 0"
  shows "pton4_scan d (Some n) (ds @ r) = pton4_scan d (Some (digits_val n ds)) r"
  using assms
proof (induction ds arbitrary: n)
  case (Cons c ds)
  then have "10 * n + (code c - 48) \<le> 255" using digits_val_mono [of "10 * n + (code c - 48)" ds] by simp
  then show ?case using Cons by simp
qed simp

lemma show_nat_first: "\<exists>c cs. show_nat n = c # cs \<and> (n \<noteq> 0 \<longrightarrow> code c - 48 \<noteq> 0) \<and> (n < 10 \<longrightarrow> cs = [] \<and> code c - 48 = n)"
proof (induction n rule: show_nat.induct)
  case (1 n)
  show ?case
  proof (cases "n < 10")
    case True
    then show ?thesis by (subst show_nat.simps) (simp add: code_digit)
  next
    case False
    then obtain c cs where "show_nat (n div 10) = c # cs" "code c - 48 \<noteq> 0" using 1 by auto
    then show ?thesis using False by (subst show_nat.simps) simp
  qed
qed

lemma pton4_scan_show:
  assumes "n \<le> 255" "length d \<le> 3"
  shows "pton4_scan d None (show_nat n @ r) = pton4_scan d (Some n) r"
proof -
  obtain c cs where s: "show_nat n = c # cs" "n \<noteq> 0 \<longrightarrow> code c - 48 \<noteq> 0" "n < 10 \<longrightarrow> cs = [] \<and> code c - 48 = n"
    using show_nat_first [of n] by blast
  have dig: "isdigit x" if "x \<in> set (c # cs)" for x using show_nat_digits [of x n] that by (simp add: s)
  have "pton4_scan d None (show_nat n @ r) = pton4_scan d (Some (code c - 48)) (cs @ r)" using assms(2) dig [of c] by (auto simp: s)
  also have "\<dots> = pton4_scan d (Some n) r"
  proof (cases "n < 10")
    case True
    then show ?thesis using s by simp
  next
    case False
    then have "digits_val (code c - 48) cs = n" using digits_val_show [of n] dig [of c] by (simp add: s)
    then show ?thesis using False s(2) assms(1) dig by (subst pton4_scan_digits) auto
  qed
  finally show ?thesis .
qed

lemma not_digit_dot [simp]: "\<not> isdigit CHR ''.''" "\<not> isdigit CHR ''/''" "\<not> isdigit CHR '':''"
  by (simp_all add: isdigit_def code_def)

lemma inet_pton_ntop4:
  assumes "length a = 4"
  shows "inet_pton4 (inet_ntop4 a) = Some a"
proof -
  have w: "unat (x :: u8) \<le> 255" for x using unat_lt2p [of x] by simp
  obtain b c d e where "a = [b, c, d, e]" using assms by (auto simp: length_Suc_conv numeral_eq_Suc)
  then show ?thesis
    by (simp add: inet_ntop4_def inet_pton4_def upt_rec pton4_scan_show w pton4_scan_show [where r = "[]", simplified])
qed

text \<open>\<^verbatim>\<open>inet_ntop\<close> for IPv6: the first longest run of at least two zero groups is abbreviated; an embedded IPv4 address is written in
  dotted form.\<close>

definition words6 :: "bytes \<Rightarrow> nat list" where
  "words6 a = map (\<lambda>i. unat (of_be (slice (2 * i) 2 a) :: u16)) [0..<8]"

definition zero_run :: "nat list \<Rightarrow> nat \<Rightarrow> nat" where
  "zero_run ws i = length (takeWhile (\<lambda>w. w = 0) (drop i ws))"

definition best_run :: "nat list \<Rightarrow> (nat \<times> nat) option" where
  "best_run ws =
     (let (base, len) = fold (\<lambda>i (b, l). if zero_run ws i > l then (i, zero_run ws i) else (b, l)) [0..<8] (0, 0)
      in if len < 2 then None else Some (base, len))"

definition hex_digit :: "nat \<Rightarrow> char" where
  "hex_digit n = ''0123456789abcdef'' ! n"

fun show_hex :: "nat \<Rightarrow> string" where
  "show_hex n = (if n < 16 then [hex_digit n] else show_hex (n div 16) @ [hex_digit (n mod 16)])"

declare show_hex.simps [simp del]

definition group6 :: "(nat \<times> nat) option \<Rightarrow> nat list \<Rightarrow> nat \<Rightarrow> string" where
  "group6 best ws i =
     (case best of
        Some (b, l) \<Rightarrow> if b \<le> i \<and> i < b + l then (if i = b then '':'' else [])
                      else (if i = 0 then [] else '':'') @ show_hex (ws ! i)
      | None \<Rightarrow> (if i = 0 then [] else '':'') @ show_hex (ws ! i))"

definition inet_ntop6 :: "bytes \<Rightarrow> string" where
  "inet_ntop6 a =
     (let ws = words6 a; best = best_run ws
      in case best of
           Some (b, l) \<Rightarrow>
             if b = 0 \<and> (l = 6 \<or> l = 5 \<and> ws ! 5 = 0xffff)
             then concat (map (group6 best ws) [0..<6]) @ '':'' @ inet_ntop4 (drop 12 a)
             else concat (map (group6 best ws) [0..<8]) @ (if b + l = 8 then '':'' else [])
         | None \<Rightarrow> concat (map (group6 best ws) [0..<8]))"

end
