(* ===== verification/Uapi_Request.thy ===== *)
theory Uapi_Request
  imports Sessions Cstring
begin

text \<open>
  The requests of the configuration protocol (\<^verbatim>\<open>src/src/uapi.c\<close>): the hexadecimal codec of the keys, the parser that applies a
  \<^verbatim>\<open>set\<close> request to the device, the response to a \<^verbatim>\<open>get\<close> request in its buffer, and the connection that collects a request.
\<close>

definition EINVAL :: int where "EINVAL = 22"
definition INET_ADDRSTRLEN :: nat where "INET_ADDRSTRLEN = 16"
definition INET6_ADDRSTRLEN :: nat where "INET6_ADDRSTRLEN = 46"

section \<open>Hexadecimal keys\<close>

definition hex_char :: "u8 \<Rightarrow> char" where
  "hex_char n = ''0123456789abcdef'' ! unat n"

definition hex_encode :: "bytes \<Rightarrow> string" where
  "hex_encode bs = concat (map (\<lambda>b. [hex_char (drop_bit 4 b AND 0xf), hex_char (b AND 0xf)]) bs)"

fun hex_decode_loop :: "string \<Rightarrow> bytes option" where
  "hex_decode_loop (h # l # cs) =
     (case hex_val h of
        None \<Rightarrow> None
      | Some hi \<Rightarrow>
          case hex_val l of
            None \<Rightarrow> None
          | Some lo \<Rightarrow> map_option (\<lambda>bs. (push_bit 4 (of_nat hi) OR of_nat lo) # bs) (hex_decode_loop cs))"
| "hex_decode_loop _ = Some []"

definition hex_decode :: "string \<Rightarrow> nat \<Rightarrow> bytes option" where
  "hex_decode s outlen = (if length s \<noteq> outlen * 2 then None else hex_decode_loop s)"

section \<open>The set request\<close>

text \<open>The variables of \<^verbatim>\<open>process_set\<close>. \<open>st_inserts\<close> counts the inserts into the tries, so that each can have its own allocations.\<close>

record set_state =
  st_dev :: wg_device
  st_peer :: "peer_ref option"
  st_replace :: bool
  st_remove :: bool
  st_err :: int
  st_inserts :: nat

abbreviation set_err :: "set_state \<Rightarrow> set_state" where
  "set_err st \<equiv> st\<lparr>st_err := EINVAL\<rparr>"

definition set_public_key :: "sodium \<Rightarrow> string \<Rightarrow> set_state \<Rightarrow> set_state" where
  "set_public_key sd val st =
     (let st = (if st_replace st then st\<lparr>st_dev := device_remove_all_peers sd (st_dev st), st_replace := False\<rparr> else st);
          st = (case st_peer st of
                  Some p \<Rightarrow> if st_remove st then st\<lparr>st_dev := device_remove_peer sd (st_dev st) p\<rparr> else st
                | None \<Rightarrow> st);
          st = st\<lparr>st_remove := False\<rparr>
      in case hex_decode val WG_KEY_LEN of
           None \<Rightarrow> set_err st
         | Some pk \<Rightarrow>
             case device_find_peer sd (st_dev st) pk of
               Some p \<Rightarrow> st\<lparr>st_peer := Some p\<rparr>
             | None \<Rightarrow> let (r, dev) = device_add_peer sd (st_dev st) pk in st\<lparr>st_dev := dev, st_peer := r\<rparr>)"

text \<open>\<open>ss\<close> and its length. The port of an IPv6 endpoint is read two characters behind the bracket; when the value ends with the
  bracket, that is behind the terminator, where the stack holds \<open>junk\<close>.\<close>

definition parse_endpoint :: "string \<Rightarrow> string \<Rightarrow> (sockaddr_storage \<times> nat) option" where
  "parse_endpoint junk val =
     (if val \<noteq> [] \<and> hd val = CHR ''['' then
        case strchr val (CHR '']'') of
          None \<Rightarrow> None
        | Some (a, r) \<Rightarrow>
            if length (tl a) \<ge> INET6_ADDRSTRLEN then None
            else
              let port = word_of_int (atoi (if r = [] then junk else tl r)) :: u16
              in map_option (\<lambda>ip. (\<lparr>ss_family = AF_INET6, ss_addr = ip, ss_port = be16 port, ss_rest = zeros 8\<rparr>, 28)) (inet_pton6 (tl a))
      else
        case strrchr val (CHR '':'') of
          None \<Rightarrow> None
        | Some (a, r) \<Rightarrow>
            if length a \<ge> INET_ADDRSTRLEN then None
            else
              let port = word_of_int (atoi r) :: u16
              in map_option (\<lambda>ip. (\<lparr>ss_family = AF_INET, ss_addr = ip, ss_port = be16 port, ss_rest = zeros 8\<rparr>, 16)) (inet_pton4 a))"

definition set_allowed_ip :: "(nat \<Rightarrow> nat \<Rightarrow> bool) \<Rightarrow> peer_ref \<Rightarrow> string \<Rightarrow> set_state \<Rightarrow> set_state" where
  "set_allowed_ip oks p val st =
     (case strchr val (CHR ''/'') of
        None \<Rightarrow> set_err st
      | Some (a, r) \<Rightarrow>
          if length a \<ge> INET6_ADDRSTRLEN then set_err st
          else
            let cidr = word_of_int (atoi r) :: u8;
                n = st_inserts st
            in case inet_pton4 a of
                 Some a4 \<Rightarrow> st\<lparr>st_dev := add_allowed_ip4 (oks n) (oks (n + 1)) (st_dev st) p a4 cidr, st_inserts := n + 2\<rparr>
               | None \<Rightarrow>
                   case inet_pton6 a of
                     Some a6 \<Rightarrow> st\<lparr>st_dev := add_allowed_ip6 (oks n) (oks (n + 1)) (st_dev st) p a6 cidr, st_inserts := n + 2\<rparr>
                   | None \<Rightarrow> set_err st)"

definition set_device_key :: "sodium \<Rightarrow> string \<Rightarrow> string \<Rightarrow> set_state \<Rightarrow> set_state" where
  "set_device_key sd key val st =
     (if key = ''private_key'' then
        case hex_decode val WG_KEY_LEN of
          Some priv \<Rightarrow> st\<lparr>st_dev := set_private_key sd (st_dev st) priv\<rparr>
        | None \<Rightarrow> set_err st
      else if key = ''listen_port'' then
        let port = atoi val
        in if port < 0 \<or> port > 65535 then set_err st
           else if port > 0 then st\<lparr>st_dev := (st_dev st)\<lparr>d_listen_port := word_of_int port\<rparr>\<rparr>
           else st
      else if key = ''fwmark'' then st\<lparr>st_dev := (st_dev st)\<lparr>d_fwmark := ucast (strtoul val)\<rparr>\<rparr>
      else if key = ''replace_peers'' then (if val = ''true'' then st\<lparr>st_replace := True\<rparr> else st)
      else if key = ''public_key'' then set_public_key sd val st
      else st)"

definition set_peer_key :: "(nat \<Rightarrow> nat \<Rightarrow> bool) \<Rightarrow> string \<Rightarrow> peer_ref \<Rightarrow> string \<Rightarrow> string \<Rightarrow> set_state \<Rightarrow> set_state" where
  "set_peer_key oks junk p key val st =
     (if key = ''remove'' then (if val = ''true'' then st\<lparr>st_remove := True\<rparr> else st)
      else if key = ''preshared_key'' then
        case hex_decode val WG_PSK_LEN of
          Some psk \<Rightarrow> st\<lparr>st_dev := set_preshared_key (st_dev st) p psk\<rparr>
        | None \<Rightarrow> set_err st
      else if key = ''endpoint'' then
        case parse_endpoint junk val of
          Some (ss, ss_len) \<Rightarrow> st\<lparr>st_dev := set_endpoint (st_dev st) p ss ss_len\<rparr>
        | None \<Rightarrow> set_err st
      else if key = ''persistent_keepalive_interval'' then
        st\<lparr>st_dev := set_persistent_keepalive (st_dev st) p (word_of_int (atoi val))\<rparr>
      else if key = ''replace_allowed_ips'' then (if val = ''true'' then st\<lparr>st_dev := replace_allowed_ips (st_dev st) p\<rparr> else st)
      else if key = ''allowed_ip'' then set_allowed_ip oks p val st
      else st)"

definition device_keys :: "string list" where
  "device_keys = [''private_key'', ''listen_port'', ''fwmark'', ''replace_peers'', ''public_key'']"

definition set_key :: "sodium \<Rightarrow> (nat \<Rightarrow> nat \<Rightarrow> bool) \<Rightarrow> string \<Rightarrow> string \<times> string \<Rightarrow> set_state \<Rightarrow> set_state" where
  "set_key sd oks junk kv st =
     (let (key, val) = kv
      in if key \<in> set device_keys then set_device_key sd key val st
         else case st_peer st of None \<Rightarrow> st | Some p \<Rightarrow> set_peer_key oks junk p key val st)"

text \<open>One line, without its newline. Lines of 256 characters and more, and lines without \<^verbatim>\<open>=\<close>, are skipped.\<close>

definition set_line :: "string \<Rightarrow> (string \<times> string) option" where
  "set_line line = (if length line \<ge> 256 then None else strchr line (CHR ''=''))"

function set_loop :: "sodium \<Rightarrow> (nat \<Rightarrow> nat \<Rightarrow> bool) \<Rightarrow> string \<Rightarrow> string \<Rightarrow> set_state \<Rightarrow> set_state" where
  "set_loop sd oks junk data st =
     (case strchr data newline of
        None \<Rightarrow> st
      | Some (line, rest) \<Rightarrow>
          if line = [] then st
          else set_loop sd oks junk rest (case set_line line of None \<Rightarrow> st | Some kv \<Rightarrow> set_key sd oks junk kv st))"
  by pat_completeness auto
termination
  by (relation "measure (\<lambda>(_, _, _, data, _). length data)") (auto simp: strchr_Some)

declare set_loop.simps [simp del]

definition process_set :: "sodium \<Rightarrow> (nat \<Rightarrow> nat \<Rightarrow> bool) \<Rightarrow> string \<Rightarrow> wg_device \<Rightarrow> string \<Rightarrow> int \<times> wg_device" where
  "process_set sd oks junk dev data =
     (let st = set_loop sd oks junk data
                 \<lparr>st_dev = dev, st_peer = None, st_replace = False, st_remove = False, st_err = 0, st_inserts = 0\<rparr>;
          dev = (case st_peer st of
                   Some p \<Rightarrow> if st_remove st then device_remove_peer sd (st_dev st) p else st_dev st
                 | None \<Rightarrow> st_dev st)
      in (st_err st, dev))"

section \<open>The get response\<close>

text \<open>One \<^verbatim>\<open>snprintf\<close> at \<open>pos\<close> into a buffer of \<open>bufsz\<close> characters: it writes what fits and a NUL, and the position moves by the
  whole length. Behind the end of the buffer the size argument \<^verbatim>\<open>bufsz - pos\<close> wraps, and the write goes out of bounds.\<close>

datatype get_result = Get_Overrun | Get_Text nat string

fun get_append :: "nat \<Rightarrow> string \<Rightarrow> get_result \<Rightarrow> get_result" where
  "get_append bufsz s Get_Overrun = Get_Overrun"
| "get_append bufsz s (Get_Text pos buf) =
     (if pos > bufsz then Get_Overrun else Get_Text (pos + length s) (buf @ take (bufsz - pos - 1) s))"

definition c_div :: "int \<Rightarrow> int \<Rightarrow> int" where
  "c_div a b = (if a < 0 then - (- a div b) else a div b)"

definition c_rem :: "int \<Rightarrow> int \<Rightarrow> int" where
  "c_rem a b = a - b * c_div a b"

definition text_line :: "string \<Rightarrow> string \<Rightarrow> string" where
  "text_line key val = key @ ''='' @ val @ [newline]"

definition aip_walk_cb :: "peer_ref \<Rightarrow> peer_ref allowedip_fields \<Rightarrow> string list" where
  "aip_walk_cb p node =
     (if aip_peer node \<noteq> Some p then []
      else
        let ip = (if aip_ip_version node = 4 then inet_ntop4 (take 4 (aip_bits node)) else inet_ntop6 (take 16 (aip_bits node)))
        in [text_line ''allowed_ip'' (ip @ ''/'' @ show_nat (unat (aip_cidr node)))])"

definition endpoint_line :: "wg_peer \<Rightarrow> string list" where
  "endpoint_line q =
     (if p_endpoint_len q > 0 then
        let port = show_nat (unat (of_be (ss_port (p_endpoint q)) :: u16))
        in if ss_family (p_endpoint q) = AF_INET
           then [text_line ''endpoint'' (inet_ntop4 (ss_addr (p_endpoint q)) @ '':'' @ port)]
           else [text_line ''endpoint'' (''['' @ inet_ntop6 (ss_addr (p_endpoint q)) @ '']:'' @ port)]
      else [])"

definition peer_lines :: "sodium \<Rightarrow> wg_device \<Rightarrow> peer_ref \<Rightarrow> string list" where
  "peer_lines sd dev p =
     (let q = peer_at dev p; psk = hs_psk (p_handshake q); lhs = sint (p_last_handshake_ns q)
      in [text_line ''public_key'' (hex_encode (p_public_key q))] @
         (if \<not> wg_ct_equal sd psk (zeros WG_PSK_LEN) then [text_line ''preshared_key'' (hex_encode psk)] else []) @
         endpoint_line q @
         [text_line ''last_handshake_time_sec'' (show_int (c_div lhs 1000000000)),
          text_line ''last_handshake_time_nsec'' (show_int (c_rem lhs 1000000000)),
          text_line ''rx_bytes'' (show_nat (unat (p_rx_bytes q))),
          text_line ''tx_bytes'' (show_nat (unat (p_tx_bytes q))),
          text_line ''persistent_keepalive_interval'' (show_nat (unat (p_persistent_keepalive_ms q div 1000)))] @
         concat (map (aip_walk_cb p) (allowedips_walk (d_allowedips dev))))"

definition get_lines :: "sodium \<Rightarrow> wg_device \<Rightarrow> string list" where
  "get_lines sd dev =
     [text_line ''private_key'' (hex_encode (d_private_key dev)), text_line ''listen_port'' (show_nat (unat (d_listen_port dev)))] @
     (if d_fwmark dev \<noteq> 0 then [text_line ''fwmark'' (show_nat (unat (d_fwmark dev)))] else []) @
     concat (map (peer_lines sd dev) (d_peers dev)) @ [''errno=0'' @ [newline, newline]]"

definition get_bufsz :: "wg_device \<Rightarrow> nat" where
  "get_bufsz dev = 1024 + nat (d_peer_count dev) * 512"

definition build_get_response :: "sodium \<Rightarrow> bool \<Rightarrow> wg_device \<Rightarrow> get_result option" where
  "build_get_response sd malloc_ok dev =
     (if \<not> malloc_ok then None
      else Some (fold (get_append (get_bufsz dev)) (get_lines sd dev) (Get_Text 0 [])))"

section \<open>A connection\<close>

text \<open>What the client sees: nothing when an allocation fails, the response, or the program has left the bounds of a buffer.\<close>

datatype uapi_out = No_Response | Response string | Out_Of_Bounds

definition send_response :: "(nat \<Rightarrow> bool) \<Rightarrow> string \<Rightarrow> uapi_out" where
  "send_response mallocs resp = (if \<not> mallocs 1 then No_Response else if \<not> mallocs 2 then No_Response else Response resp)"

definition process_request :: "sodium \<Rightarrow> (nat \<Rightarrow> nat \<Rightarrow> bool) \<Rightarrow> string \<Rightarrow> (nat \<Rightarrow> bool) \<Rightarrow> wg_device \<Rightarrow> string \<Rightarrow> uapi_out \<times> wg_device" where
  "process_request sd oks junk mallocs dev data =
     (if strncmp_eq data (''get=1'' @ [newline, newline]) 7 \<or> strncmp_eq data (''get=1'' @ [newline]) 6 then
        (case build_get_response sd (mallocs 0) dev of
           None \<Rightarrow> (send_response mallocs (''errno=12'' @ [newline, newline]), dev)
         | Some Get_Overrun \<Rightarrow> (Out_Of_Bounds, dev)
         | Some (Get_Text len buf) \<Rightarrow>
             if len > get_bufsz dev then (Out_Of_Bounds, dev)
             else (send_response mallocs (if length buf = len then buf else buf @ [nul]), dev))
      else if strncmp_eq data (''set=1'' @ [newline]) 6 then
        let (err, dev) = process_set sd oks junk dev (drop 6 data)
        in (send_response mallocs (''errno='' @ show_int err @ [newline, newline]), dev)
      else (send_response mallocs (''errno=95'' @ [newline, newline]), dev))"

record uapi_conn =
  uc_rbuf :: string
  uc_reading :: bool

definition UAPI_RBUF :: nat where "UAPI_RBUF = 65536"

definition on_conn_read :: "sodium \<Rightarrow> (nat \<Rightarrow> nat \<Rightarrow> bool) \<Rightarrow> string \<Rightarrow> (nat \<Rightarrow> bool) \<Rightarrow> wg_device \<Rightarrow> uapi_conn \<Rightarrow> int \<Rightarrow> string \<Rightarrow>
    uapi_out option \<times> uapi_conn \<times> wg_device" where
  "on_conn_read sd oks junk mallocs dev conn nread buf =
     (if nread < 0 then (Some No_Response, conn\<lparr>uc_reading := False\<rparr>, dev)
      else if nread = 0 then (None, conn, dev)
      else
        let avail = UAPI_RBUF - 1 - length (uc_rbuf conn);
            conn = conn\<lparr>uc_rbuf := uc_rbuf conn @ take (min (nat nread) avail) buf\<rparr>
        in if strstr (c_str (uc_rbuf conn)) [newline, newline] then
             let (out, dev) = process_request sd oks junk mallocs dev (c_str (uc_rbuf conn))
             in (Some out, conn\<lparr>uc_reading := False\<rparr>, dev)
           else (None, conn, dev))"

text \<open>The entry points for programs that embed the device.\<close>

definition uapi_set_config :: "sodium \<Rightarrow> (nat \<Rightarrow> nat \<Rightarrow> bool) \<Rightarrow> string \<Rightarrow> wg_device \<Rightarrow> string option \<Rightarrow> int \<times> wg_device" where
  "uapi_set_config sd oks junk dev settings = (case settings of None \<Rightarrow> (EINVAL, dev) | Some s \<Rightarrow> process_set sd oks junk dev s)"

definition uapi_get_config :: "sodium \<Rightarrow> bool \<Rightarrow> wg_device \<Rightarrow> get_result option" where
  "uapi_get_config sd malloc_ok dev = build_get_response sd malloc_ok dev"

section \<open>The codec\<close>

lemma hex_val_char:
  assumes "n < 16"
  shows "hex_val (hex_char n) = Some (unat n)"
proof -
  have "\<forall>k \<in> set [0..<16]. hex_val (''0123456789abcdef'' ! k) = Some k" by (simp add: upt_rec hex_val_def code_def)
  moreover have "unat n < 16" using assms by (simp add: word_less_nat_alt)
  ultimately show ?thesis by (simp add: hex_char_def)
qed

lemma nibbles: "drop_bit 4 b AND 0xf < 16" "b AND 0xf < 16" "push_bit 4 (drop_bit 4 b) AND 240 OR b AND 15 = b" for b :: u8
proof -
  have "(x AND 0xf :: u8) < 16" for x by (rule le_less_trans [OF word_and_le1]) simp
  then show "drop_bit 4 b AND 0xf < 16" "b AND 0xf < 16" by blast+
  show "push_bit 4 (drop_bit 4 b) AND 240 OR b AND 15 = b"
  proof (rule bit_word_eqI)
    fix i assume "i < LENGTH(8)"
    then have "i \<in> {0, 1, 2, 3, 4, 5, 6, 7}" by auto
    then show "bit (push_bit 4 (drop_bit 4 b) AND 240 OR b AND 15) i = bit b i" by (auto simp: bit_simps)
  qed
qed

lemma hex_decode_encode: "hex_decode (hex_encode bs) (length bs) = Some bs"
proof -
  have l: "length (hex_encode bs) = length bs * 2" by (induction bs) (simp_all add: hex_encode_def)
  have "hex_decode_loop (hex_encode bs) = Some bs"
    by (induction bs) (simp_all add: hex_encode_def hex_val_char nibbles)
  with l show ?thesis by (simp add: hex_decode_def)
qed

lemma hex_decode_length: "hex_decode s n = Some bs \<Longrightarrow> length bs = n"
proof -
  have "hex_decode_loop s = Some bs \<Longrightarrow> length bs = length s div 2" for s bs
    by (induction s arbitrary: bs rule: hex_decode_loop.induct) (auto split: option.splits)
  then show "hex_decode s n = Some bs \<Longrightarrow> length bs = n" by (auto simp: hex_decode_def split: if_splits)
qed

lemma char_of_code: "c = char_of (code c)"
  by (simp add: code_def)

lemma hex_char_val:
  assumes "hex_val c = Some n"
  shows "n < 16 \<and> hex_char (of_nat n) = tolower c"
proof -
  have "\<forall>k \<in> set ([48..<58] @ [97..<103] @ [65..<71]). case hex_val (char_of k) of None \<Rightarrow> False | Some n \<Rightarrow> n < 16 \<and> hex_char (of_nat n) = tolower (char_of (k :: nat))"
    by (simp add: upt_rec hex_val_def hex_char_def tolower_def code_def) code_simp
  moreover have "code c \<in> set ([48..<58] @ [97..<103] @ [65..<71])" using assms
    unfolding hex_val_def set_append set_upt Un_iff atLeastLessThan_iff by (auto split: if_splits)
  ultimately have "case hex_val (char_of (code c)) of None \<Rightarrow> False | Some n \<Rightarrow> n < 16 \<and> hex_char (of_nat n) = tolower (char_of (code c))" by blast
  then show ?thesis using assms by (simp flip: char_of_code)
qed

lemma nibbles_of:
  assumes "h < 16" "l < 16"
  shows "drop_bit 4 (push_bit 4 (of_nat h) OR of_nat l) AND 0xf = (of_nat h :: u8)" (is ?H)
    "(push_bit 4 (of_nat h) OR of_nat l) AND 0xf = (of_nat l :: u8)" (is ?L)
proof -
  have top: "\<not> bit (of_nat n :: u8) i" if "n < 16" "4 \<le> i" for n i
  proof -
    have "take_bit 4 n = n" using that(1) by (simp add: take_bit_nat_eq_self_iff)
    then show ?thesis using that(2) by (metis bit_of_nat_iff bit_take_bit_iff linorder_not_le)
  qed
  show ?H
  proof (rule bit_word_eqI)
    fix i assume "i < LENGTH(8)"
    then have "i \<in> {0, 1, 2, 3, 4, 5, 6, 7}" by auto
    then show "bit (drop_bit 4 (push_bit 4 (of_nat h) OR of_nat l) AND 0xf :: u8) i = bit (of_nat h :: u8) i"
      using top [OF assms(1), of i] top [OF assms(2), of "4 + i"] by (auto simp: bit_simps)
  qed
  show ?L
  proof (rule bit_word_eqI)
    fix i assume "i < LENGTH(8)"
    then have "i \<in> {0, 1, 2, 3, 4, 5, 6, 7}" by auto
    then show "bit ((push_bit 4 (of_nat h) OR of_nat l) AND 0xf :: u8) i = bit (of_nat l :: u8) i"
      using top [OF assms(2), of i] by (auto simp: bit_simps)
  qed
qed

lemma hex_encode_decode: "hex_decode s n = Some bs \<Longrightarrow> hex_encode bs = map tolower s"
proof -
  have "even (length s) \<Longrightarrow> hex_decode_loop s = Some bs \<Longrightarrow> hex_encode bs = map tolower s" for s bs
  proof (induction s arbitrary: bs rule: hex_decode_loop.induct)
    case (1 h l cs)
    obtain a b r where v: "hex_val h = Some a" "hex_val l = Some b" "hex_decode_loop cs = Some r" "bs = (push_bit 4 (of_nat a) OR of_nat b) # r"
      using "1.prems" by (auto split: option.splits)
    have "hex_encode r = map tolower cs" using "1.IH" v "1.prems" by simp
    then show ?case using v hex_char_val [OF v(1)] hex_char_val [OF v(2)] nibbles_of [of a b] by (simp add: hex_encode_def)
  qed (simp_all add: hex_encode_def)
  then show "hex_decode s n = Some bs \<Longrightarrow> hex_encode bs = map tolower s" by (auto simp: hex_decode_def split: if_splits)
qed

section \<open>A set request is a sequence of settings\<close>

function settings :: "string \<Rightarrow> (string \<times> string) list" where
  "settings data =
     (case strchr data newline of
        None \<Rightarrow> []
      | Some (line, rest) \<Rightarrow> if line = [] then [] else (case set_line line of None \<Rightarrow> [] | Some kv \<Rightarrow> [kv]) @ settings rest)"
  by pat_completeness auto
termination
  by (relation "measure length") (auto simp: strchr_Some)

declare settings.simps [simp del]

lemma set_loop_fold: "set_loop sd oks junk data st = fold (set_key sd oks junk) (settings data) st"
proof (induction data arbitrary: st rule: settings.induct)
  case (1 data)
  show ?case
    using 1 by (subst set_loop.simps, subst settings.simps) (auto split: option.splits)
qed

lemma settings_line:
  assumes "newline \<notin> set line" "line \<noteq> []"
  shows "settings (line @ newline # rest) = (case set_line line of None \<Rightarrow> [] | Some kv \<Rightarrow> [kv]) @ settings rest"
  using assms by (subst settings.simps) simp

lemma settings_Nil [simp]: "settings [] = []"
  by (subst settings.simps) simp

text \<open>A line \<^verbatim>\<open>key=value\<close>.\<close>

lemma settings_text_line:
  assumes "newline \<notin> set key" "newline \<notin> set val" "CHR ''='' \<notin> set key" "length key + length val < 255"
  shows "settings (text_line key val @ rest) = (key, val) # settings rest"
proof -
  have "settings ((key @ ''='' @ val) @ newline # rest) = (key, val) # settings rest"
    by (subst settings_line) (use assms in \<open>auto simp: set_line_def\<close>)
  then show ?thesis by (simp add: text_line_def)
qed

section \<open>Which requests keep the device in order\<close>

text \<open>A request as \<^verbatim>\<open>wg\<close> writes it: every public key decodes, and \<^verbatim>\<open>replace_peers\<close> comes before the first peer.\<close>

fun wf_settings :: "bool \<Rightarrow> (string \<times> string) list \<Rightarrow> bool" where
  "wf_settings seen [] = True"
| "wf_settings seen ((k, v) # kvs) =
     ((k = ''public_key'' \<longrightarrow> hex_decode v WG_KEY_LEN \<noteq> None) \<and> (k = ''replace_peers'' \<and> v = ''true'' \<longrightarrow> \<not> seen) \<and>
      wf_settings (seen \<or> k = ''public_key'') kvs)"

definition listed :: "set_state \<Rightarrow> bool" where
  "listed st \<longleftrightarrow> (\<forall>p. st_peer st = Some p \<longrightarrow> p \<in> set (d_peers (st_dev st)))"

definition set_inv :: "sodium \<Rightarrow> wg_device \<Rightarrow> bool \<Rightarrow> set_state \<Rightarrow> bool" where
  "set_inv sd dev seen st \<longleftrightarrow> (step sd)\<^sup>*\<^sup>* dev (st_dev st) \<and> listed st \<and> (st_replace st \<longrightarrow> st_peer st = None) \<and> (st_peer st \<noteq> None \<longrightarrow> seen)"

lemma set_inv_step:
  assumes "set_inv sd dev seen st" "step sd (st_dev st) D" "d_peers D = d_peers (st_dev st)"
  shows "set_inv sd dev seen (st\<lparr>st_dev := D\<rparr>)" "set_inv sd dev seen (st\<lparr>st_dev := D, st_inserts := n\<rparr>)"
  using assms by (auto simp: set_inv_def listed_def intro: rtranclp.rtrancl_into_rtrancl)

lemma set_inv_flags:
  "set_inv sd dev seen st \<Longrightarrow> set_inv sd dev seen (st\<lparr>st_err := e\<rparr>)" "set_inv sd dev seen st \<Longrightarrow> set_inv sd dev seen (st\<lparr>st_remove := b\<rparr>)"
  "set_inv sd dev seen st \<Longrightarrow> seen \<longrightarrow> seen' \<Longrightarrow> set_inv sd dev seen' st"
  by (auto simp: set_inv_def listed_def)

lemma set_inv_splits:
  "(c \<Longrightarrow> set_inv sd dev seen A) \<Longrightarrow> (\<not> c \<Longrightarrow> set_inv sd dev seen B) \<Longrightarrow> set_inv sd dev seen (if c then A else B)"
  "(x = None \<Longrightarrow> set_inv sd dev seen A) \<Longrightarrow> (\<And>y. x = Some y \<Longrightarrow> set_inv sd dev seen (F y)) \<Longrightarrow> set_inv sd dev seen (case x of None \<Rightarrow> A | Some y \<Rightarrow> F y)"
  "(\<And>a b. z = (a, b) \<Longrightarrow> set_inv sd dev seen (H a b)) \<Longrightarrow> set_inv sd dev seen (case z of (a, b) \<Rightarrow> H a b)"
  by (simp_all split: option.splits prod.splits)

lemma steps_remove: "(step sd)\<^sup>*\<^sup>* dev D \<Longrightarrow> p \<in> set (d_peers D) \<Longrightarrow> (step sd)\<^sup>*\<^sup>* dev (device_remove_peer sd D p)"
  by (rule rtranclp.rtrancl_into_rtrancl [where b = D]) (assumption, rule step.remove_peer)

lemma add_peer_listed: "fst (device_add_peer sd dev pk) = Some p \<Longrightarrow> p \<in> set (d_peers (snd (device_add_peer sd dev pk)))"
  by (auto simp: device_add_peer_def Let_def split: if_splits option.splits prod.splits)

lemma find_peer_listed: "device_find_peer sd dev pk = Some p \<Longrightarrow> p \<in> set (d_peers dev)"
  by (auto simp: device_find_peer_def find_Some_iff)

lemma config_peers [simp]:
  "d_peers (set_private_key sd dev priv) = d_peers dev" "d_peers (set_preshared_key dev p psk) = d_peers dev"
  "d_peers (set_endpoint dev p ss len) = d_peers dev" "d_peers (set_persistent_keepalive dev p sec) = d_peers dev"
  "d_peers (replace_allowed_ips dev p) = d_peers dev" "d_peers (add_allowed_ip4 ok1 ok2 dev p a c) = d_peers dev"
  "d_peers (add_allowed_ip6 ok1 ok2 dev p a c) = d_peers dev"
  using config_keeps [where X = "{}", THEN keeps_peers] unfolding set_private_key_def
  by (simp_all add: replace_allowed_ips_def add_allowed_ip4_def add_allowed_ip6_def upd_peer_def)

lemma set_device_key_inv:
  assumes "set_inv sd dev seen st" "key \<noteq> ''public_key''" "key = ''replace_peers'' \<and> val = ''true'' \<longrightarrow> \<not> seen"
  shows "set_inv sd dev seen (set_device_key sd key val st)"
proof -
  have "set_inv sd dev seen (st\<lparr>st_dev := set_private_key sd (st_dev st) priv\<rparr>)" for priv
    using assms(1) by (rule set_inv_step(1)) (simp_all add: set_private_key_def step.private_key, simp flip: set_private_key_def)
  moreover have "set_inv sd dev seen (st\<lparr>st_dev := (st_dev st)\<lparr>d_listen_port := lp\<rparr>\<rparr>)" "set_inv sd dev seen (st\<lparr>st_dev := (st_dev st)\<lparr>d_fwmark := fw\<rparr>\<rparr>)" for lp fw
    using assms(1) by (rule set_inv_step(1), intro step.listen_port step.fwmark, simp)+
  moreover have "set_inv sd dev seen (st\<lparr>st_replace := True\<rparr>)" if "\<not> seen" using that assms(1) by (auto simp: set_inv_def listed_def)
  ultimately show ?thesis
    unfolding set_device_key_def Let_def using assms by (intro set_inv_splits set_inv_flags(1)) simp_all
qed

lemma set_peer_key_inv:
  assumes "set_inv sd dev seen st" "st_peer st = Some p"
  shows "set_inv sd dev seen (set_peer_key oks junk p key val st)"
proof -
  have p: "p \<in> set (d_peers (st_dev st))" using assms by (simp add: set_inv_def listed_def)
  note c = step.preshared_key [OF p] step.endpoint [OF p] step.keepalive [OF p] step.replace_ips [OF p]
  have a: "set_inv sd dev seen (set_allowed_ip oks p val st)"
    unfolding set_allowed_ip_def Let_def
    by (intro set_inv_splits set_inv_flags(1) set_inv_step(2) assms(1) step.allowed_ip4 step.allowed_ip6 p config_peers; erule inet_pton4_length inet_pton6_length)
  show ?thesis
    unfolding set_peer_key_def
    by (intro set_inv_splits a set_inv_flags(1,2) set_inv_step(1) [OF assms(1) c(1)] set_inv_step(1) [OF assms(1) c(2)]
      set_inv_step(1) [OF assms(1) c(3)] set_inv_step(1) [OF assms(1) c(4)] assms(1) config_peers)
qed

lemma set_public_key_inv:
  assumes inv: "set_inv sd dev seen st" and val: "hex_decode val WG_KEY_LEN \<noteq> None"
  shows "set_inv sd dev True (set_public_key sd val st)"
proof -
  let ?R = "if st_replace st then st\<lparr>st_dev := device_remove_all_peers sd (st_dev st), st_replace := False\<rparr> else st"
  let ?S = "case st_peer ?R of Some p \<Rightarrow> if st_remove ?R then ?R\<lparr>st_dev := device_remove_peer sd (st_dev ?R) p\<rparr> else ?R | None \<Rightarrow> ?R"
  have R: "(step sd)\<^sup>*\<^sup>* dev (st_dev ?R)" "\<not> st_replace ?R" "\<And>p. st_peer ?R = Some p \<Longrightarrow> p \<in> set (d_peers (st_dev ?R))"
    using inv by (auto simp: set_inv_def listed_def intro: rtranclp.rtrancl_into_rtrancl step.remove_all)
  then have S: "(step sd)\<^sup>*\<^sup>* dev (st_dev ?S)" "\<not> st_replace ?S"
    by (auto split: option.splits intro: steps_remove)
  obtain pk where pk: "hex_decode val WG_KEY_LEN = Some pk" using val by blast
  have "set_inv sd dev True (?S\<lparr>st_remove := False, st_peer := Some p\<rparr>)" if "device_find_peer sd (st_dev ?S) pk = Some p" for p
    using S find_peer_listed [OF that] by (simp add: set_inv_def listed_def)
  moreover have "set_inv sd dev True (?S\<lparr>st_remove := False, st_dev := D, st_peer := r\<rparr>)" if a: "device_add_peer sd (st_dev ?S) pk = (r, D)" for r D
  proof -
    have "step sd (st_dev ?S) D" using step.add_peer [of sd "st_dev ?S" pk] a by simp
    moreover have "p \<in> set (d_peers D)" if "r = Some p" for p using add_peer_listed [of sd "st_dev ?S" pk p] a that by simp
    ultimately show ?thesis using S by (auto simp: set_inv_def listed_def)
  qed
  ultimately show ?thesis unfolding set_public_key_def Let_def pk by (auto split: option.splits prod.splits)
qed

lemma set_key_inv:
  assumes "set_inv sd dev seen st" "wf_settings seen (kv # kvs)"
  shows "set_inv sd dev (seen \<or> fst kv = ''public_key'') (set_key sd oks junk kv st)"
proof (cases "fst kv = ''public_key''")
  case True
  then show ?thesis using set_public_key_inv [OF assms(1), of "snd kv"] assms(2)
    by (cases kv) (simp add: set_key_def device_keys_def set_device_key_def)
next
  case False
  then show ?thesis
    using set_device_key_inv [OF assms(1), of "fst kv" "snd kv"] set_peer_key_inv [OF assms(1)] assms
    by (cases kv) (auto simp: set_key_def split: option.splits)
qed

lemma settings_inv: "set_inv sd dev seen st \<Longrightarrow> wf_settings seen kvs \<Longrightarrow> \<exists>seen'. set_inv sd dev seen' (fold (set_key sd oks junk) kvs st)"
proof (induction kvs arbitrary: seen st)
  case (Cons kv kvs)
  then show ?case using set_key_inv [OF Cons.prems, of oks junk] by (cases kv) auto
qed auto

lemma process_set_steps:
  assumes "wf_settings False (settings data)"
  shows "(step sd)\<^sup>*\<^sup>* dev (snd (process_set sd oks junk dev data))"
proof -
  define s0 where "s0 = \<lparr>st_dev = dev, st_peer = None, st_replace = False, st_remove = False, st_err = 0, st_inserts = 0\<rparr>"
  have "set_inv sd dev False s0" by (simp add: set_inv_def listed_def s0_def)
  then obtain seen where "set_inv sd dev seen (fold (set_key sd oks junk) (settings data) s0)" using settings_inv [OF _ assms] by blast
  then show ?thesis
    unfolding process_set_def set_loop_fold Let_def s0_def [symmetric]
    by (auto simp: set_inv_def listed_def split: option.splits intro: steps_remove)
qed

section \<open>The response buffer\<close>

lemma get_append_overrun: "fold (get_append n) ls Get_Overrun = Get_Overrun"
  by (induction ls) simp_all

lemma get_append_fits:
  assumes "pos + length (concat ls) < n" "length buf = pos"
  shows "fold (get_append n) ls (Get_Text pos buf) = Get_Text (pos + length (concat ls)) (buf @ concat ls)"
  using assms
proof (induction ls arbitrary: pos buf)
  case (Cons s ls)
  then have "fold (get_append n) ls (Get_Text (pos + length s) (buf @ s)) = Get_Text (pos + length s + length (concat ls)) ((buf @ s) @ concat ls)"
    by (intro Cons.IH) simp_all
  moreover have "take (n - pos - 1) s = s" using Cons.prems by simp
  ultimately show ?case using Cons.prems by (simp add: add.assoc)
qed simp

lemma get_append_behind:
  assumes "pos > n" "ls \<noteq> []"
  shows "fold (get_append n) ls (Get_Text pos buf) = Get_Overrun"
  using assms by (cases ls) (simp_all add: get_append_overrun)

lemma get_append_exceeds:
  assumes "pos + length (concat ls) > n" "ls' \<noteq> []"
  shows "fold (get_append n) (ls @ ls') (Get_Text pos buf) = Get_Overrun"
  using assms(1)
proof (induction ls arbitrary: pos buf)
  case Nil
  then show ?case using get_append_behind assms(2) by simp
next
  case (Cons s ls)
  show ?case
  proof (cases "pos > n")
    case True
    then show ?thesis by (simp add: get_append_overrun)
  next
    case False
    then show ?thesis using Cons.IH [of "pos + length s"] Cons.prems by (simp add: add.assoc)
  qed
qed

text \<open>The lines of the response but the last, whose total decides.\<close>

definition get_body :: "sodium \<Rightarrow> wg_device \<Rightarrow> string" where
  "get_body sd dev = concat (butlast (get_lines sd dev))"

lemma get_lines_split: "get_lines sd dev = butlast (get_lines sd dev) @ [''errno=0'' @ [newline, newline]]"
  by (simp add: get_lines_def butlast_append)

lemma get_text_length: "length (concat (get_lines sd dev)) = length (get_body sd dev) + 9"
  by (subst get_lines_split) (simp add: get_body_def)

section \<open>A removed peer that is configured again\<close>

text \<open>What one setting does, for keys and values of the shape the request has.\<close>

lemma set_key_public:
  assumes "st_replace st = False" "st_remove st = False \<or> st_peer st = None" "length pk = 32"
  shows "set_key sd oks junk (''public_key'', hex_encode pk) st =
    (case device_find_peer sd (st_dev st) pk of
       Some p \<Rightarrow> st\<lparr>st_remove := False, st_peer := Some p\<rparr>
     | None \<Rightarrow> let (r, dev) = device_add_peer sd (st_dev st) pk in st\<lparr>st_remove := False, st_dev := dev, st_peer := r\<rparr>)"
proof -
  have "hex_decode (hex_encode pk) WG_KEY_LEN = Some pk" using hex_decode_encode [of pk] assms(3) by (simp add: WG_KEY_LEN_def)
  then show ?thesis
    using assms(1,2) by (auto simp: set_key_def device_keys_def set_device_key_def set_public_key_def Let_def split: option.splits prod.splits)
qed

lemma ntop4_chars: "length a = 4 \<Longrightarrow> c \<in> set (inet_ntop4 a) \<Longrightarrow> isdigit c \<or> c = CHR ''.''"
  by (auto simp: inet_ntop4_def dest: show_nat_digits split: if_splits)

lemma show_nat_length: "n < 10 ^ k \<Longrightarrow> 0 < k \<Longrightarrow> length (show_nat n) \<le> k"
proof (induction k arbitrary: n)
  case (Suc k)
  show ?case
  proof (cases "n < 10")
    case True
    then show ?thesis by (subst show_nat.simps) simp
  next
    case False
    then have "0 < k" using Suc.prems by (cases k) auto
    moreover have "n div 10 < 10 ^ k" using Suc.prems(1) by (simp add: less_mult_imp_div_less mult.commute)
    ultimately show ?thesis using Suc.IH [of "n div 10"] False by (subst show_nat.simps) simp
  qed
qed simp

lemma ntop4_length: "length a = 4 \<Longrightarrow> length (inet_ntop4 a) \<le> 15"
proof -
  assume a: "length a = 4"
  have w: "length (show_nat (unat (x :: u8))) \<le> 3" for x using unat_lt2p [of x] by (intro show_nat_length) simp_all
  obtain b c d e where "a = [b, c, d, e]" using a by (auto simp: length_Suc_conv numeral_eq_Suc)
  then show ?thesis using w [of b] w [of c] w [of d] w [of e] by (simp add: inet_ntop4_def upt_rec)
qed

lemma set_key_allowed_ip:
  assumes "st_peer st = Some p" "length a = 4" "c < 2 ^ 31"
  shows "set_key sd oks junk (''allowed_ip'', inet_ntop4 a @ ''/'' @ show_nat c) st =
    st\<lparr>st_dev := add_allowed_ip4 (oks (st_inserts st)) (oks (st_inserts st + 1)) (st_dev st) p a (of_nat c), st_inserts := st_inserts st + 2\<rparr>"
proof -
  have "CHR ''/'' \<notin> set (inet_ntop4 a)" using ntop4_chars [OF assms(2)] by fastforce
  moreover have "atoi (show_nat c) = int c" using atoi_show [of "[]" c] assms(3) by (simp add: no_digit_first_def)
  ultimately show ?thesis
    using assms(1) ntop4_length [OF assms(2)] inet_pton_ntop4 [OF assms(2)]
    by (simp add: set_key_def device_keys_def set_peer_key_def set_allowed_ip_def INET6_ADDRSTRLEN_def Let_def)
qed

lemma hex_encode_val: "c \<in> set (hex_encode bs) \<Longrightarrow> hex_val c \<noteq> None"
  using hex_val_char [OF nibbles(1)] hex_val_char [OF nibbles(2)] by (auto simp: hex_encode_def)

lemma hex_encode_plain: "newline \<notin> set (hex_encode bs)" "length (hex_encode bs) = 2 * length bs"
proof -
  have "hex_val newline = None" by (simp add: hex_val_def code_def)
  then show "newline \<notin> set (hex_encode bs)" using hex_encode_val by blast
  show "length (hex_encode bs) = 2 * length bs" by (induction bs) (simp_all add: hex_encode_def)
qed

lemma address_plain: "length a = 4 \<Longrightarrow> newline \<notin> set (inet_ntop4 a @ ''/'' @ show_nat c)"
proof -
  assume a: "length a = 4"
  have "\<not> isdigit newline" by (simp add: isdigit_def code_def)
  then show ?thesis using ntop4_chars [OF a, of newline] show_nat_digits [of newline c] by auto
qed

lemma settings_public_key: "length pk = 32 \<Longrightarrow> settings (text_line ''public_key'' (hex_encode pk) @ rest) = (''public_key'', hex_encode pk) # settings rest"
  by (rule settings_text_line) (simp_all add: hex_encode_plain)

lemma settings_allowed_ip:
  "length a = 4 \<Longrightarrow> c \<le> 128 \<Longrightarrow> settings (text_line ''allowed_ip'' (inet_ntop4 a @ ''/'' @ show_nat c) @ rest) = (''allowed_ip'', inet_ntop4 a @ ''/'' @ show_nat c) # settings rest"
  using address_plain [of a c] ntop4_length [of a] show_nat_length [of c 3] by (intro settings_text_line) auto

text \<open>The prefix length is converted to eight bits before its range is checked: 256 becomes 0, the default route.\<close>

lemma allowed_ip_cidr_wraps:
  "st_peer st = Some p \<Longrightarrow> length a = 4 \<Longrightarrow> set_key sd oks junk (''allowed_ip'', inet_ntop4 a @ ''/'' @ show_nat 256) st =
    st\<lparr>st_dev := add_allowed_ip4 (oks (st_inserts st)) (oks (st_inserts st + 1)) (st_dev st) p a 0, st_inserts := st_inserts st + 2\<rparr>"
proof -
  assume st: "st_peer st = Some p" "length a = 4"
  have w: "(of_nat 256 :: u8) = 0" by code_simp
  show ?thesis using set_key_allowed_ip [OF st, of 256] unfolding w by simp
qed

text \<open>The route a full-length prefix installs.\<close>

lemma add_allowed_ip4_routes:
  assumes "allowedips_inv (d_allowedips dev)" "length a = 4" "ok1 0" "ok1 1"
  shows "allowedips_lookup_v4 (d_allowedips (add_allowed_ip4 ok1 ok2 dev p a 32)) a = Some p"
proof -
  let ?t = "snd (allowedips_insert_v4 ok1 (d_allowedips dev) a 32 p)"
  have f: "fst (allowedips_insert_v4 ok1 (d_allowedips dev) a 32 p) = 0"
    by (rule v4.ins_total) (use assms in simp_all)
  have "routes (root4 ?t) = (routes (root4 (d_allowedips dev)))(addr_bits 32 a \<mapsto> p)"
    using v4.ins_ok [OF assms(1) _ f] assms(2) by simp
  moreover have "allowedips_inv ?t" by (rule v4.ins_inv [OF assms(1)]) (simp add: assms(2))
  ultimately have "allowedips_lookup_v4 ?t a = Some p"
    using v4.lookup_lpm [of ?t a] by (simp add: lpm_def numeral_eq_Suc)
  then show ?thesis by (simp add: add_allowed_ip4_def upd_peer_def)
qed

lemma reachable_steps: "(step sd)\<^sup>*\<^sup>* dev D \<Longrightarrow> reachable sd dev \<Longrightarrow> reachable sd D"
  by (induction rule: rtranclp_induct) (auto intro: reachable.step)

text \<open>A request that configures a peer after its removal.\<close>

definition dangling_request :: "bytes \<Rightarrow> bytes \<Rightarrow> string" where
  "dangling_request pk a =
     text_line ''public_key'' (hex_encode pk) @ text_line ''remove'' ''true'' @ text_line ''public_key'' ''?'' @
     text_line ''allowed_ip'' (inet_ntop4 a @ ''/'' @ show_nat 32)"

lemma settings_dangling:
  "length pk = 32 \<Longrightarrow> length a = 4 \<Longrightarrow> settings (dangling_request pk a) =
     [(''public_key'', hex_encode pk), (''remove'', ''true''), (''public_key'', ''?''), (''allowed_ip'', inet_ntop4 a @ ''/'' @ show_nat 32)]"
  using settings_allowed_ip [of a 32 "[]"] by (simp add: dangling_request_def settings_public_key settings_text_line)

section \<open>Properties\<close>

text \<open>\<^bold>\<open>C10\<close>. A configuration request acts as a sequence of the atomic configuration events of the event loop, whatever its text and
  whichever allocations fail, as long as its public keys decode and it does not ask for \<^verbatim>\<open>replace_peers\<close> in the middle of the
  peers: so it takes a reachable device to a reachable device, and all that holds of reachable devices holds afterwards.\<close>

theorem uapi_set_refines_steps:
  assumes "wf_settings False (settings data)"
  shows "(step sd)\<^sup>*\<^sup>* dev (snd (process_set sd oks junk dev data)) \<and>
    (reachable sd dev \<longrightarrow> reachable sd (snd (process_set sd oks junk dev data)))"
  using process_set_steps [OF assms] reachable_steps by blast

text \<open>\<^bold>\<open>C36\<close>. Without that condition it does not: a request that removes a peer, then names a public key that does not decode, and
  then adds an allowed address, installs a route to the removed peer. The peer is no longer in the list and its memory is
  released when its timers have closed, but the routing table still leads to it.\<close>

theorem uapi_removed_peer_routed:
  assumes "dev_inv dev" "device_find_peer sd dev pk = Some p" "length pk = 32" "length a = 4" "oks 0 0" "oks 0 1"
  shows "p \<notin> set (d_peers (snd (process_set sd oks junk dev (dangling_request pk a)))) \<and>
    allowedips_lookup_v4 (d_allowedips (snd (process_set sd oks junk dev (dangling_request pk a)))) a = Some p"
proof -
  define s0 where "s0 = \<lparr>st_dev = dev, st_peer = None, st_replace = False, st_remove = False, st_err = 0, st_inserts = 0\<rparr>"
  let ?D = "device_remove_peer sd dev p"
  have p: "p \<in> set (d_peers dev)" by (rule find_peer_listed [OF assms(2)])
  have D: "dev_inv ?D" by (rule device_remove_peer_inv [OF assms(1) p])
  have "distinct (d_peers dev)" using assms(1) core_invD(1) by (auto simp: dev_inv_def heap_inv_def)
  then have np: "p \<notin> set (d_peers ?D)" by (simp add: device_remove_peer_eq [OF p])
  have bad: "hex_decode ''?'' 32 = None" by (simp add: hex_decode_def)
  let ?ip = "(''allowed_ip'', inet_ntop4 a @ ''/'' @ show_nat 32)"
  have 1: "set_key sd oks junk (''public_key'', hex_encode pk) s0 = s0\<lparr>st_peer := Some p\<rparr>"
    using set_key_public [of s0 pk sd oks junk] assms(2,3) by (simp add: s0_def)
  have 2: "set_key sd oks junk (''remove'', ''true'') (s0\<lparr>st_peer := Some p\<rparr>) = s0\<lparr>st_peer := Some p, st_remove := True\<rparr>"
    by (simp add: set_key_def device_keys_def set_peer_key_def s0_def)
  have 3: "set_key sd oks junk (''public_key'', ''?'') (s0\<lparr>st_peer := Some p, st_remove := True\<rparr>) = s0\<lparr>st_peer := Some p, st_dev := ?D, st_err := EINVAL\<rparr>"
    by (simp add: set_key_def device_keys_def set_device_key_def set_public_key_def bad s0_def Let_def)
  have 4: "set_key sd oks junk ?ip (s0\<lparr>st_peer := Some p, st_dev := ?D, st_err := EINVAL\<rparr>) =
      s0\<lparr>st_peer := Some p, st_dev := add_allowed_ip4 (oks 0) (oks 1) ?D p a 32, st_err := EINVAL, st_inserts := 2\<rparr>"
    using set_key_allowed_ip [of "s0\<lparr>st_peer := Some p, st_dev := ?D, st_err := EINVAL\<rparr>" p a 32 sd oks junk] assms(4) by (simp add: s0_def)
  have "fold (set_key sd oks junk) (settings (dangling_request pk a)) s0 =
      s0\<lparr>st_peer := Some p, st_dev := add_allowed_ip4 (oks 0) (oks 1) ?D p a 32, st_err := EINVAL, st_inserts := 2\<rparr>"
    unfolding settings_dangling [OF assms(3,4)] fold_simps 1 2 3 4 ..
  then have "snd (process_set sd oks junk dev (dangling_request pk a)) = add_allowed_ip4 (oks 0) (oks 1) ?D p a 32"
    unfolding process_set_def set_loop_fold s0_def [symmetric] by (simp add: Let_def) (simp add: s0_def)
  moreover have "allowedips_inv (d_allowedips ?D)" using D by (simp add: dev_inv_def routes_inv_def)
  ultimately show ?thesis using add_allowed_ip4_routes assms(4-6) np by simp
qed

text \<open>\<^bold>\<open>C37\<close>. The response to a \<^verbatim>\<open>get\<close> request: when all of it fits into the buffer, it is exactly the lines that describe the device
  and its peers; but the buffer has room for 1024 characters and 512 per peer, and as soon as the lines before the final
  one exceed that, the program writes behind the buffer.\<close>

theorem uapi_get_response:
  "(length (get_body sd dev) + 9 < get_bufsz dev \<longrightarrow>
     build_get_response sd True dev = Some (Get_Text (length (get_body sd dev) + 9) (concat (get_lines sd dev)))) \<and>
   (length (get_body sd dev) > get_bufsz dev \<longrightarrow> build_get_response sd True dev = Some Get_Overrun)"
proof (intro conjI impI)
  assume "length (get_body sd dev) + 9 < get_bufsz dev"
  then show "build_get_response sd True dev = Some (Get_Text (length (get_body sd dev) + 9) (concat (get_lines sd dev)))"
    using get_append_fits [of 0 "get_lines sd dev" "get_bufsz dev" "[]"] get_text_length [of sd dev] by (simp add: build_get_response_def)
next
  assume "length (get_body sd dev) > get_bufsz dev"
  then show "build_get_response sd True dev = Some Get_Overrun"
    unfolding build_get_response_def by (subst get_lines_split) (simp add: get_append_exceeds get_body_def del: fold_append)
qed

text \<open>Keys in hexadecimal: decoding what was encoded gives the key, and a text that decodes has exactly the right length and is
  the encoding of the result up to the case of its letters.\<close>

theorem uapi_hex_roundtrip:
  "hex_decode (hex_encode bs) (length bs) = Some bs \<and>
   (\<forall>s n. hex_decode s n = Some bs \<longrightarrow> length bs = n \<and> hex_encode bs = map tolower s)"
  using hex_decode_encode hex_decode_length hex_encode_decode by blast

lemma replace_peers_alone: "process_set sd oks junk dev (text_line ''replace_peers'' ''true'') = (0, dev)"
  using settings_text_line [of "''replace_peers''" "''true''" "[]"]
  by (simp add: process_set_def set_loop_fold set_key_def device_keys_def set_device_key_def)

section \<open>Witnesses\<close>

theorem uapi_set_refines_steps_witness:
  "(step sodium_example)\<^sup>*\<^sup>* device_loop (snd (process_set sodium_example (\<lambda>_ _. True) [] device_loop
     (text_line ''replace_peers'' ''true'' @ text_line ''public_key'' (hex_encode (zeros 32)) @
      text_line ''allowed_ip'' (inet_ntop4 [10, 0, 0, 2] @ ''/'' @ show_nat 32))))"
proof -
  have "settings (text_line ''replace_peers'' ''true'' @ text_line ''public_key'' (hex_encode (zeros 32)) @
      text_line ''allowed_ip'' (inet_ntop4 [10, 0, 0, 2] @ ''/'' @ show_nat 32)) =
    [(''replace_peers'', ''true''), (''public_key'', hex_encode (zeros 32)), (''allowed_ip'', inet_ntop4 [10, 0, 0, 2] @ ''/'' @ show_nat 32)]"
    using settings_allowed_ip [of "[10, 0, 0, 2]" 32 "[]"] by (simp add: settings_text_line settings_public_key)
  moreover have "hex_decode (hex_encode (zeros 32)) WG_KEY_LEN = Some (zeros 32)" using hex_decode_encode [of "zeros 32"] by (simp add: WG_KEY_LEN_def)
  ultimately show ?thesis by (intro uapi_set_refines_steps [THEN conjunct1]) simp
qed

lemma find_loop: "device_find_peer sodium_example device_loop (zeros 32) = Some 0"
  using sodium_lawsD(2) [OF sodium_example_laws]
  by (simp add: device_find_peer_def device_loop_def peer_at_def peer_loop_def peer_zero_def wg_ct_equal_def)

theorem uapi_removed_peer_routed_witness:
  "allowedips_lookup_v4 (d_allowedips (snd (process_set sodium_example (\<lambda>_ _. True) [] device_loop (dangling_request (zeros 32) [10, 0, 0, 2])))) [10, 0, 0, 2] = Some 0"
  using uapi_removed_peer_routed [OF _ find_loop, of "[10, 0, 0, 2]" "\<lambda>_ _. True" "[]"] session_inv_loop by (simp add: session_inv_def)

definition route_loop :: "peer_ref allowedip_fields" where
  "route_loop = \<lparr>aip_peer = Some 0, aip_cidr = 32, aip_bit_at_a = 0, aip_bit_at_b = 0, aip_bits = [10, 0, 0, 2], aip_ip_version = 4\<rparr>"

primrec chain :: "nat \<Rightarrow> peer_ref allowedip_node" where
  "chain 0 = Null"
| "chain (Suc n) = Node route_loop (chain n) Null"

definition device_routes :: wg_device where
  "device_routes = device_zero\<lparr>d_peers := [0], d_peer_count := 1, peer_mem := [0 \<mapsto> peer_zero], d_allowedips := \<lparr>root4 = chain 200, root6 = Null\<rparr>\<rparr>"

lemma walk_chain: "walk_tree (chain n) = replicate n route_loop"
  by (induction n) (simp_all add: route_loop_def)

lemma routes_body: "length (get_body sd device_routes) > get_bufsz device_routes"
proof -
  let ?line = "text_line ''allowed_ip'' (inet_ntop4 [10, 0, 0, 2] @ ''/'' @ show_nat 32)"
  have w: "concat (map (aip_walk_cb 0) (allowedips_walk (d_allowedips device_routes))) = replicate 200 ?line"
  proof -
    have "aip_walk_cb 0 route_loop = [?line]" by (simp add: aip_walk_cb_def route_loop_def)
    then show ?thesis by (simp add: device_routes_def allowedips_walk_def walk_chain concat_replicate_trivial del: replicate.simps)
  qed
  have m: "d_peers device_routes = [0]" by (simp add: device_routes_def)
  have "length (concat (replicate n ?line)) = n * length ?line" for n by (induction n) simp_all
  moreover have "11 \<le> length ?line" by (simp add: text_line_def)
  moreover have "length (concat (replicate 200 ?line)) \<le> length (get_body sd device_routes)"
    unfolding get_body_def get_lines_def peer_lines_def Let_def by (simp add: w m butlast_append)
  ultimately show ?thesis by (simp add: get_bufsz_def device_routes_def)
qed

theorem uapi_get_response_witness:
  "build_get_response sodium_example True device_zero = Some (Get_Text (length (get_body sodium_example device_zero) + 9) (concat (get_lines sodium_example device_zero))) \<and>
   build_get_response sodium_example True device_routes = Some Get_Overrun"
proof
  have "length (get_body sodium_example device_zero) + 9 < get_bufsz device_zero"
    by (simp add: get_body_def get_lines_def get_bufsz_def device_zero_def text_line_def hex_encode_plain show_nat.simps)
  then show "build_get_response sodium_example True device_zero = Some (Get_Text (length (get_body sodium_example device_zero) + 9) (concat (get_lines sodium_example device_zero)))"
    using uapi_get_response by blast
  show "build_get_response sodium_example True device_routes = Some Get_Overrun" using uapi_get_response routes_body by blast
qed

theorem uapi_hex_roundtrip_witness: "hex_decode ''00FF'' 2 = Some [0, 255] \<and> hex_encode [0, 255] = map tolower ''00FF''"
proof -
  have "hex_decode ''00FF'' 2 = Some [0, 255]" by code_simp
  then show ?thesis using uapi_hex_roundtrip by blast
qed

end
