(* ===== verification/Conf.thy ===== *)
theory Conf
  imports Uapi_Request
begin

text \<open>
  The configuration file (\<^verbatim>\<open>src/src/conf.c\<close>): base64 keys, the lines of the file, and the loader that applies the
  \<^verbatim>\<open>[Interface]\<close> and \<^verbatim>\<open>[Peer]\<close> sections to the device. The name resolution of endpoints (\<^verbatim>\<open>getaddrinfo\<close>) is a parameter; which
  allocations succeed is an input.
\<close>

section \<open>Base64\<close>

definition b64_tbl :: "int list" where
  "b64_tbl =
    [-1, -1, -1, -1, -1, -1, -1, -1, -1, -1, -1, -1, -1, -1, -1, -1,
    -1, -1, -1, -1, -1, -1, -1, -1, -1, -1, -1, -1, -1, -1, -1, -1,
    -1, -1, -1, -1, -1, -1, -1, -1, -1, -1, -1, 62, -1, -1, -1, 63,
    52, 53, 54, 55, 56, 57, 58, 59, 60, 61, -1, -1, -1, 0, -1, -1,
    -1, 0, 1, 2, 3, 4, 5, 6, 7, 8, 9, 10, 11, 12, 13, 14,
    15, 16, 17, 18, 19, 20, 21, 22, 23, 24, 25, -1, -1, -1, -1, -1,
    -1, 26, 27, 28, 29, 30, 31, 32, 33, 34, 35, 36, 37, 38, 39, 40,
    41, 42, 43, 44, 45, 46, 47, 48, 49, 50, 51, -1, -1, -1, -1, -1,
    -1, -1, -1, -1, -1, -1, -1, -1, -1, -1, -1, -1, -1, -1, -1, -1,
    -1, -1, -1, -1, -1, -1, -1, -1, -1, -1, -1, -1, -1, -1, -1, -1,
    -1, -1, -1, -1, -1, -1, -1, -1, -1, -1, -1, -1, -1, -1, -1, -1,
    -1, -1, -1, -1, -1, -1, -1, -1, -1, -1, -1, -1, -1, -1, -1, -1,
    -1, -1, -1, -1, -1, -1, -1, -1, -1, -1, -1, -1, -1, -1, -1, -1,
    -1, -1, -1, -1, -1, -1, -1, -1, -1, -1, -1, -1, -1, -1, -1, -1,
    -1, -1, -1, -1, -1, -1, -1, -1, -1, -1, -1, -1, -1, -1, -1, -1,
    -1, -1, -1, -1, -1, -1, -1, -1, -1, -1, -1, -1, -1, -1, -1, -1]"

fun b64_loop :: "nat \<Rightarrow> string \<Rightarrow> u32 \<Rightarrow> nat \<Rightarrow> bytes \<Rightarrow> bytes option" where
  "b64_loop outlen [] acc nbits out = Some out"
| "b64_loop outlen (c # cs) acc nbits out =
     (let v = b64_tbl ! code c
      in if v < 0 then None
         else
           let acc = push_bit 6 acc OR word_of_int v;
               nbits = nbits + 6
           in if nbits \<ge> 8 then
                if length out \<ge> outlen then None
                else b64_loop outlen cs acc (nbits - 8) (out @ [ucast (drop_bit (nbits - 8) acc)])
              else b64_loop outlen cs acc nbits out)"

definition strip_pad :: "string \<Rightarrow> string" where
  "strip_pad s = rev (dropWhile (\<lambda>c. c = CHR ''='') (rev s))"

text \<open>The bytes written; their number is the result.\<close>

definition base64_decode :: "string \<Rightarrow> nat \<Rightarrow> bytes option" where
  "base64_decode s outlen =
     (let s = strip_pad s
      in if length s * 6 div 8 > outlen then None else b64_loop outlen s 0 0 [])"

text \<open>A key of the given length, or the error the callers report.\<close>

definition base64_key :: "string \<Rightarrow> nat \<Rightarrow> bytes option" where
  "base64_key s outlen =
     (case base64_decode s outlen of None \<Rightarrow> None | Some bs \<Rightarrow> if length bs = outlen then Some bs else None)"

section \<open>Lines and tokens\<close>

definition trim :: "string \<Rightarrow> string" where
  "trim s = rev (dropWhile isspace (rev (dropWhile isspace s)))"

text \<open>\<^verbatim>\<open>fgets\<close> with a buffer of 512: up to 511 characters, ending after a newline.\<close>

definition fgets :: "string \<Rightarrow> string \<times> string" where
  "fgets s =
     (let n = length (takeWhile (\<lambda>c. c \<noteq> newline) (take 511 s));
          k = (if n < length (take 511 s) then n + 1 else n)
      in (take k s, drop k s))"

lemma fgets_shorter: "s \<noteq> [] \<Longrightarrow> length (snd (fgets s)) < length s"
proof -
  assume s: "s \<noteq> []"
  let ?n = "length (takeWhile (\<lambda>c. c \<noteq> newline) (take 511 s))"
  have "0 < (if ?n < length (take 511 s) then ?n + 1 else ?n)" using s by (cases s) auto
  then show ?thesis using s by (simp add: fgets_def Let_def)
qed

function file_lines :: "string \<Rightarrow> string list" where
  "file_lines s = (if s = [] then [] else c_str (fst (fgets s)) # file_lines (snd (fgets s)))"
  by pat_completeness auto
termination
  by (relation "measure length") (auto simp: fgets_shorter)

declare file_lines.simps [simp del]

text \<open>All the tokens \<^verbatim>\<open>strtok\<close> returns.\<close>

function strtok :: "string \<Rightarrow> string \<Rightarrow> string list" where
  "strtok delims s =
     (case dropWhile (\<lambda>c. c \<in> set delims) s of
        [] \<Rightarrow> []
      | c # cs \<Rightarrow> (c # takeWhile (\<lambda>c. c \<notin> set delims) cs) # strtok delims (dropWhile (\<lambda>c. c \<notin> set delims) cs))"
  by pat_completeness auto
termination
proof (relation "measure (\<lambda>(_, s). length s)")
  fix delims s :: string and c cs
  assume "dropWhile (\<lambda>c. c \<in> set delims) s = c # cs"
  then have "length cs < length s" using length_dropWhile_le [of "\<lambda>c. c \<in> set delims" s] by simp
  then show "((delims, dropWhile (\<lambda>c. c \<notin> set delims) cs), delims, s) \<in> measure (\<lambda>(_, s). length s)"
    using length_dropWhile_le [of "\<lambda>c. c \<notin> set delims" cs] by simp
qed simp

declare strtok.simps [simp del]

definition strip_cidr :: "string \<Rightarrow> string" where
  "strip_cidr s = (case strchr s (CHR ''/'') of None \<Rightarrow> s | Some (a, _) \<Rightarrow> a)"

datatype conf_section = SEC_NONE | SEC_INTERFACE | SEC_PEER

datatype conf_line = Skip | Section string | Setting string string

definition conf_line_of :: "string \<Rightarrow> conf_line" where
  "conf_line_of line =
     (let s = trim line
      in if s = [] \<or> hd s = CHR ''#'' then Skip
         else if hd s = CHR ''['' then
           (case strchr s (CHR '']'') of None \<Rightarrow> Skip | Some (a, _) \<Rightarrow> Section (trim (tl a)))
         else
           (case strchr s (CHR ''='') of None \<Rightarrow> Skip | Some (k, v) \<Rightarrow> Setting (trim k) (trim v)))"

definition section_of :: "string \<Rightarrow> conf_section" where
  "section_of sec =
     (if strcasecmp_eq sec ''interface'' then SEC_INTERFACE
      else if strcasecmp_eq sec ''peer'' then SEC_PEER
      else SEC_NONE)"

section \<open>Addresses and name servers\<close>

text \<open>Which of the two addresses the caller asks for and what has been found.\<close>

record conf_addrs =
  ca_section :: conf_section
  ca_addr4 :: "bytes option"
  ca_addr6 :: "bytes option"
  ca_dups :: nat

definition take_address :: "bool \<Rightarrow> bool \<Rightarrow> string \<Rightarrow> conf_addrs \<Rightarrow> conf_addrs" where
  "take_address want4 want6 tok st =
     (let addr = strip_cidr (trim tok)
      in if want4 \<and> ca_addr4 st = None \<and> inet_pton4 addr \<noteq> None then st\<lparr>ca_addr4 := inet_pton4 addr\<rparr>
         else if want6 \<and> ca_addr6 st = None \<and> inet_pton6 addr \<noteq> None then st\<lparr>ca_addr6 := inet_pton6 addr\<rparr>
         else st)"

definition addresses_line :: "(nat \<Rightarrow> bool) \<Rightarrow> bool \<Rightarrow> bool \<Rightarrow> string \<Rightarrow> conf_addrs \<Rightarrow> conf_addrs" where
  "addresses_line dup_ok want4 want6 line st =
     (case conf_line_of line of
        Skip \<Rightarrow> st
      | Section sec \<Rightarrow> st\<lparr>ca_section := section_of sec\<rparr>
      | Setting key val \<Rightarrow>
          if ca_section st \<noteq> SEC_INTERFACE then st
          else if \<not> strcasecmp_eq key ''Address'' then st
          else
            let ok = dup_ok (ca_dups st); st = st\<lparr>ca_dups := ca_dups st + 1\<rparr>
            in if \<not> ok then st else fold (take_address want4 want6) (strtok '','' val) st)"

definition load_wg_config_addresses :: "(nat \<Rightarrow> bool) \<Rightarrow> bool \<Rightarrow> bool \<Rightarrow> string option \<Rightarrow> int \<times> bytes option \<times> bytes option" where
  "load_wg_config_addresses dup_ok want4 want6 file =
     (case file of
        None \<Rightarrow> (-1, None, None)
      | Some content \<Rightarrow>
          let st = fold (addresses_line dup_ok want4 want6) (file_lines content)
                     \<lparr>ca_section = SEC_NONE, ca_addr4 = None, ca_addr6 = None, ca_dups = 0\<rparr>
          in (if ca_addr4 st \<noteq> None \<or> ca_addr6 st \<noteq> None then 0 else -1, ca_addr4 st, ca_addr6 st))"

record conf_dns =
  cd_section :: conf_section
  cd_csv :: string
  cd_found :: bool
  cd_dups :: nat

definition dns_entry :: "string \<Rightarrow> string option" where
  "dns_entry server =
     (if inet_pton4 server \<noteq> None then Some (take (INET6_ADDRSTRLEN + 1) server)
      else if inet_pton6 server \<noteq> None then Some (take (INET6_ADDRSTRLEN + 1) (''['' @ server @ '']''))
      else None)"

text \<open>\<^verbatim>\<open>strncat\<close> appends at most the given number of characters.\<close>

definition strncat :: "string \<Rightarrow> string \<Rightarrow> nat \<Rightarrow> string" where
  "strncat s t n = s @ take n t"

definition take_server :: "nat \<Rightarrow> string \<Rightarrow> conf_dns \<Rightarrow> conf_dns" where
  "take_server csv_len tok st =
     (case dns_entry (trim tok) of
        None \<Rightarrow> st
      | Some entry \<Rightarrow>
          let used = length (cd_csv st);
              need = length entry + (if used > 0 then 1 else 0)
          in if used + need < csv_len then
               let csv = (if used > 0 then strncat (cd_csv st) '','' (csv_len - used - 1) else cd_csv st)
               in st\<lparr>cd_csv := strncat csv entry (csv_len - length csv - 1), cd_found := True\<rparr>
             else st)"

definition dns_line :: "(nat \<Rightarrow> bool) \<Rightarrow> nat \<Rightarrow> string \<Rightarrow> conf_dns \<Rightarrow> conf_dns" where
  "dns_line dup_ok csv_len line st =
     (case conf_line_of line of
        Skip \<Rightarrow> st
      | Section sec \<Rightarrow> st\<lparr>cd_section := section_of sec\<rparr>
      | Setting key val \<Rightarrow>
          if cd_section st \<noteq> SEC_INTERFACE then st
          else if \<not> strcasecmp_eq key ''DNS'' then st
          else
            let ok = dup_ok (cd_dups st); st = st\<lparr>cd_dups := cd_dups st + 1\<rparr>
            in if \<not> ok then st else fold (take_server csv_len) (strtok '','' val) st)"

definition load_wg_config_dns :: "(nat \<Rightarrow> bool) \<Rightarrow> string option \<Rightarrow> nat \<Rightarrow> int \<times> string" where
  "load_wg_config_dns dup_ok file csv_len =
     (if csv_len = 0 then (-1, [])
      else case file of
        None \<Rightarrow> (-1, [])
      | Some content \<Rightarrow>
          let st = fold (dns_line dup_ok csv_len) (file_lines content) \<lparr>cd_section = SEC_NONE, cd_csv = [], cd_found = False, cd_dups = 0\<rparr>
          in (if cd_found st then 0 else -1, cd_csv st))"

section \<open>The loader\<close>

record conf_state =
  cf_dev :: wg_device
  cf_section :: conf_section
  cf_peer :: "peer_ref option"
  cf_ok :: bool
  cf_inserts :: nat
  cf_dups :: nat

definition apply_allowed_ip :: "(nat \<Rightarrow> nat \<Rightarrow> bool) \<Rightarrow> peer_ref \<Rightarrow> string \<Rightarrow> conf_state \<Rightarrow> conf_state" where
  "apply_allowed_ip oks p cidr_str st =
     (let buf = take 63 cidr_str;
          (ip, cidr) = (case strchr buf (CHR ''/'') of None \<Rightarrow> (buf, None) | Some (a, r) \<Rightarrow> (a, Some (word_of_int (atoi r) :: u8)));
          n = cf_inserts st
      in case inet_pton4 ip of
           Some a4 \<Rightarrow> st\<lparr>cf_dev := add_allowed_ip4 (oks n) (oks (n + 1)) (cf_dev st) p a4 (case cidr of None \<Rightarrow> 32 | Some c \<Rightarrow> c), cf_inserts := n + 2\<rparr>
         | None \<Rightarrow>
             case inet_pton6 ip of
               Some a6 \<Rightarrow> st\<lparr>cf_dev := add_allowed_ip6 (oks n) (oks (n + 1)) (cf_dev st) p a6 (case cidr of None \<Rightarrow> 128 | Some c \<Rightarrow> c), cf_inserts := n + 2\<rparr>
             | None \<Rightarrow> st)"

text \<open>Host and port of an endpoint: the port behind the last colon, at most 15 characters of it; brackets around the host removed.\<close>

definition split_endpoint :: "string \<Rightarrow> (string \<times> string) option" where
  "split_endpoint s =
     (case strrchr s (CHR '':'') of
        None \<Rightarrow> None
      | Some (host, port) \<Rightarrow>
          if length host = 0 \<or> length host \<ge> 256 then None
          else
            let host = (if hd host = CHR ''['' \<and> last host = CHR '']'' then butlast (tl host) else host)
            in Some (host, take 15 port))"

definition apply_endpoint :: "(string \<Rightarrow> string \<Rightarrow> (sockaddr_storage \<times> nat) option) \<Rightarrow> peer_ref \<Rightarrow> string \<Rightarrow> wg_device \<Rightarrow> int \<times> wg_device" where
  "apply_endpoint getaddrinfo p s dev =
     (case split_endpoint s of
        None \<Rightarrow> (-1, dev)
      | Some (host, port) \<Rightarrow>
          case getaddrinfo host port of
            None \<Rightarrow> (-1, dev)
          | Some (ss, len) \<Rightarrow> (0, set_endpoint dev p ss len))"

text \<open>The settings of the two sections. \<open>False\<close> is the jump to \<^verbatim>\<open>done\<close>.\<close>

definition conf_interface :: "sodium \<Rightarrow> string \<Rightarrow> string \<Rightarrow> conf_state \<Rightarrow> bool \<times> conf_state" where
  "conf_interface sd key val st =
     (if strcasecmp_eq key ''PrivateKey'' then
        case base64_key val WG_KEY_LEN of
          None \<Rightarrow> (False, st)
        | Some priv \<Rightarrow> (True, st\<lparr>cf_dev := install_static_key sd (cf_dev st) priv, cf_ok := True\<rparr>)
      else if strcasecmp_eq key ''ListenPort'' then (True, st\<lparr>cf_dev := (cf_dev st)\<lparr>d_listen_port := word_of_int (atoi val)\<rparr>\<rparr>)
      else (True, st))"

definition conf_public_key :: "sodium \<Rightarrow> string \<Rightarrow> conf_state \<Rightarrow> bool \<times> conf_state" where
  "conf_public_key sd val st =
     (case base64_key val WG_KEY_LEN of
        None \<Rightarrow> (False, st)
      | Some pk \<Rightarrow>
          case device_find_peer sd (cf_dev st) pk of
            Some p \<Rightarrow> (True, st\<lparr>cf_peer := Some p\<rparr>)
          | None \<Rightarrow>
              let (r, dev) = device_add_peer sd (cf_dev st) pk
              in (r \<noteq> None, st\<lparr>cf_dev := dev, cf_peer := r\<rparr>))"

definition conf_peer :: "sodium \<Rightarrow> (string \<Rightarrow> string \<Rightarrow> (sockaddr_storage \<times> nat) option) \<Rightarrow> (nat \<Rightarrow> nat \<Rightarrow> bool) \<Rightarrow> (nat \<Rightarrow> bool) \<Rightarrow>
    string \<Rightarrow> string \<Rightarrow> conf_state \<Rightarrow> bool \<times> conf_state" where
  "conf_peer sd getaddrinfo oks dup_ok key val st =
     (if strcasecmp_eq key ''PublicKey'' then conf_public_key sd val st
      else if strcasecmp_eq key ''PresharedKey'' then
        case cf_peer st of
          None \<Rightarrow> (False, st)
        | Some p \<Rightarrow>
            case base64_key val WG_PSK_LEN of
              None \<Rightarrow> (False, st)
            | Some psk \<Rightarrow> (True, st\<lparr>cf_dev := set_preshared_key (cf_dev st) p psk\<rparr>)
      else
        case cf_peer st of
          None \<Rightarrow> (True, st)
        | Some p \<Rightarrow>
            if strcasecmp_eq key ''Endpoint'' then (True, st\<lparr>cf_dev := snd (apply_endpoint getaddrinfo p val (cf_dev st))\<rparr>)
            else if strcasecmp_eq key ''AllowedIPs'' then
              let ok = dup_ok (cf_dups st); st = st\<lparr>cf_dups := cf_dups st + 1\<rparr>
              in (True, if ok then fold (\<lambda>tok. apply_allowed_ip oks p (trim tok)) (strtok '', '' val) st else st)
            else if strcasecmp_eq key ''PersistentKeepalive'' \<or> strcasecmp_eq key ''PersistentKeepaliveInterval'' then
              let secs = atoi val
              in (True, if secs > 0 then st\<lparr>cf_dev := upd_peer p (\<lambda>q. q\<lparr>p_persistent_keepalive_ms := word_of_int (secs * 1000)\<rparr>) (cf_dev st)\<rparr> else st)
            else (True, st))"

definition conf_section_line :: "string \<Rightarrow> conf_state \<Rightarrow> conf_state" where
  "conf_section_line sec st =
     (case section_of sec of
        SEC_NONE \<Rightarrow> st\<lparr>cf_section := SEC_NONE\<rparr>
      | s \<Rightarrow> st\<lparr>cf_section := s, cf_peer := None\<rparr>)"

fun conf_loop :: "sodium \<Rightarrow> (string \<Rightarrow> string \<Rightarrow> (sockaddr_storage \<times> nat) option) \<Rightarrow> (nat \<Rightarrow> nat \<Rightarrow> bool) \<Rightarrow> (nat \<Rightarrow> bool) \<Rightarrow>
    string list \<Rightarrow> conf_state \<Rightarrow> conf_state" where
  "conf_loop sd getaddrinfo oks dup_ok [] st = st"
| "conf_loop sd getaddrinfo oks dup_ok (line # lines) st =
     (case conf_line_of line of
        Skip \<Rightarrow> conf_loop sd getaddrinfo oks dup_ok lines st
      | Section sec \<Rightarrow> conf_loop sd getaddrinfo oks dup_ok lines (conf_section_line sec st)
      | Setting key val \<Rightarrow>
          let (go_on, st) =
                (case cf_section st of
                   SEC_INTERFACE \<Rightarrow> conf_interface sd key val st
                 | SEC_PEER \<Rightarrow> conf_peer sd getaddrinfo oks dup_ok key val st
                 | SEC_NONE \<Rightarrow> (True, st))
          in if go_on then conf_loop sd getaddrinfo oks dup_ok lines st else st)"

definition start_keepalive :: "peer_ref \<Rightarrow> wg_device \<Rightarrow> wg_device" where
  "start_keepalive p dev =
     (if p_persistent_keepalive_ms (peer_at dev p) > 0 \<and> p_endpoint_len (peer_at dev p) > 0 then timers_persistent_keepalive_set dev p else dev)"

definition load_wg_config :: "sodium \<Rightarrow> (string \<Rightarrow> string \<Rightarrow> (sockaddr_storage \<times> nat) option) \<Rightarrow> (nat \<Rightarrow> nat \<Rightarrow> bool) \<Rightarrow> (nat \<Rightarrow> bool) \<Rightarrow>
    wg_device \<Rightarrow> string option \<Rightarrow> int \<times> wg_device" where
  "load_wg_config sd getaddrinfo oks dup_ok dev file =
     (case file of
        None \<Rightarrow> (-1, dev)
      | Some content \<Rightarrow>
          let st = conf_loop sd getaddrinfo oks dup_ok (file_lines content)
                     \<lparr>cf_dev = dev, cf_section = SEC_NONE, cf_peer = None, cf_ok = False, cf_inserts = 0, cf_dups = 0\<rparr>
          in if \<not> cf_ok st then (-1, cf_dev st) else (0, fold start_keepalive (d_peers (cf_dev st)) (cf_dev st)))"

section \<open>Base64 as RFC 4648 defines it\<close>

text \<open>The most significant of the \<open>n\<close> low bits of a word first.\<close>

definition bits_of :: "nat \<Rightarrow> 'a::len word \<Rightarrow> bool list" where
  "bits_of n w = map (bit w) (rev [0..<n])"

definition b64_alphabet :: string where
  "b64_alphabet = ''ABCDEFGHIJKLMNOPQRSTUVWXYZabcdefghijklmnopqrstuvwxyz0123456789+/''"

fun sextets :: "bool list \<Rightarrow> bool list list" where
  "sextets [] = []"
| "sextets bs = take 6 (bs @ replicate 5 False) # sextets (drop 6 bs)"

definition bits_val :: "bool list \<Rightarrow> nat" where
  "bits_val bs = foldl (\<lambda>n b. 2 * n + of_bool b) 0 bs"

definition base64_encode :: "bytes \<Rightarrow> string" where
  "base64_encode bs =
     (let cs = map (\<lambda>x. b64_alphabet ! bits_val x) (sextets (concat (map (bits_of 8) bs)))
      in cs @ replicate ((4 - length cs mod 4) mod 4) (CHR ''=''))"

lemma length_bits_of [simp]: "length (bits_of n w) = n"
  by (simp add: bits_of_def)

lemma bits_of_split: "bits_of (m + n) w = bits_of m (drop_bit n w) @ bits_of n w"
proof -
  have "[0..<m + n] = [0..<n] @ map (\<lambda>i. i + n) [0..<m]" using upt_add_eq_append [of 0 n m] by (simp add: map_add_upt add.commute)
  then show ?thesis by (simp add: bits_of_def rev_map o_def bit_simps add.commute)
qed

lemma bits_of_cong: "(\<And>i. i < n \<Longrightarrow> bit w i = bit v i) \<Longrightarrow> bits_of n w = bits_of n v"
  by (simp add: bits_of_def)

lemma bits_of_inj: "bits_of 8 a = bits_of 8 b \<Longrightarrow> a = b" for a b :: u8
proof (rule bit_word_eqI)
  fix i assume "bits_of 8 a = bits_of 8 b" "i < LENGTH(8)"
  then have "\<forall>i \<in> set (rev [0..<8]). bit a i = bit b i" "i < 8" by (simp_all add: bits_of_def)
  then show "bit a i = bit b i" by simp
qed

text \<open>The bits a character stands for.\<close>

definition char_bits :: "char \<Rightarrow> bool list" where
  "char_bits c = bits_of 6 (word_of_int (b64_tbl ! code c) :: u32)"

lemma b64_range: "b64_tbl ! code c < 64"
proof -
  have "list_all (\<lambda>v. v < 64) b64_tbl" "length b64_tbl = 256" by (simp_all add: b64_tbl_def)
  moreover have "code c < 256" by (simp add: code_def)
  ultimately show ?thesis by (simp add: list_all_length)
qed

lemma sextet_low:
  assumes "0 \<le> v" "v < 64" "6 \<le> i"
  shows "\<not> bit (word_of_int v :: u32) i"
proof -
  have "take_bit 6 v = v" using assms(1,2) by (simp add: take_bit_int_eq_self_iff)
  then have "\<not> bit v i" using assms(3) by (metis bit_take_bit_iff linorder_not_le)
  then show ?thesis by (simp add: bit_word_of_int_iff)
qed

lemma acc_bits:
  assumes "0 \<le> v" "v < 64" "n + 6 \<le> 32"
  shows "bits_of (n + 6) (push_bit 6 acc OR word_of_int v :: u32) = bits_of n acc @ bits_of 6 (word_of_int v :: u32)"
proof -
  let ?a = "push_bit 6 acc OR word_of_int v :: u32"
  have "bits_of n (drop_bit 6 ?a) = bits_of n acc"
    by (rule bits_of_cong) (use assms sextet_low [OF assms(1,2)] in \<open>auto simp: bit_simps\<close>)
  moreover have "bits_of 6 ?a = bits_of 6 (word_of_int v :: u32)" by (rule bits_of_cong) (simp add: bit_simps)
  ultimately show ?thesis by (simp add: bits_of_split)
qed

text \<open>The loop: what has been written, followed by the bits still in the accumulator, is what has been read.\<close>

lemma b64_loop_bits:
  assumes "b64_loop outlen cs acc n out = Some r" "n < 8" "even n"
  shows "\<exists>rest. concat (map (bits_of 8) out) @ bits_of n acc @ concat (map char_bits cs) = concat (map (bits_of 8) r) @ rest \<and> length rest < 8"
  using assms
proof (induction outlen cs acc n out rule: b64_loop.induct)
  case (1 outlen acc n out)
  then show ?case by auto
next
  case (2 outlen c cs acc n out)
  let ?v = "b64_tbl ! code c"
  let ?acc = "push_bit 6 acc OR word_of_int ?v :: u32"
  have v: "0 \<le> ?v" using "2.prems"(1) by (simp add: Let_def split: if_splits)
  have bits: "bits_of (n + 6) ?acc = bits_of n acc @ char_bits c"
    unfolding char_bits_def by (rule acc_bits) (use v b64_range "2.prems"(2) in simp_all)
  let ?w = "ucast (drop_bit (n + 6 - 8) ?acc) :: u8"
  show ?case
  proof (cases "n + 6 \<ge> 8")
    case True
    have "b64_loop outlen cs ?acc (n + 6 - 8) (out @ [ucast (drop_bit (n + 6 - 8) ?acc)]) = Some r"
      using "2.prems"(1) v True by (simp add: Let_def split: if_splits)
    moreover have "\<not> outlen \<le> length out" using "2.prems"(1) v True by (simp add: Let_def split: if_splits)
    ultimately have "\<exists>rest. concat (map (bits_of 8) (out @ [?w])) @ bits_of (n + 6 - 8) ?acc @ concat (map char_bits cs) = concat (map (bits_of 8) r) @ rest \<and> length rest < 8"
      using "2.IH"(1) v True "2.prems"(2,3) by (simp add: Let_def)
    then obtain rest where rest: "concat (map (bits_of 8) out) @ (bits_of 8 ?w @ bits_of (n + 6 - 8) ?acc) @ concat (map char_bits cs) = concat (map (bits_of 8) r) @ rest" "length rest < 8"
      by (simp only: map_append concat_append list.map concat.simps append_assoc append_Nil2 append_Nil) blast
    have "bits_of 8 ?w = bits_of 8 (drop_bit (n + 6 - 8) ?acc)" by (simp add: bits_of_def bit_ucast_iff)
    then have "bits_of 8 ?w @ bits_of (n + 6 - 8) ?acc = bits_of n acc @ char_bits c"
      using bits_of_split [of 8 "n + 6 - 8" ?acc] True bits by (simp add: add.commute)
    from rest(1) [unfolded this] show ?thesis using rest(2) by (intro exI [of _ rest]) simp
  next
    case False
    have "b64_loop outlen cs ?acc (n + 6) out = Some r" using "2.prems"(1) v False by (simp add: Let_def split: if_splits)
    then show ?thesis using "2.IH"(2) v False "2.prems"(2,3) bits by (simp add: Let_def)
  qed
qed

text \<open>It fails only on characters outside the table, as long as there is room.\<close>

lemma b64_loop_total:
  assumes "\<And>c. c \<in> set cs \<Longrightarrow> 0 \<le> b64_tbl ! code c" "length out + (n + 6 * length cs) div 8 \<le> outlen" "n < 8"
  shows "\<exists>r. b64_loop outlen cs acc n out = Some r"
  using assms
proof (induction outlen cs acc n out rule: b64_loop.induct)
  case (2 outlen c cs acc n out)
  have v: "0 \<le> b64_tbl ! code c" using "2.prems"(1) by simp
  show ?case
  proof (cases "n + 6 \<ge> 8")
    case True
    then have e: "n + 6 * length (c # cs) = (n + 6 - 8 + 6 * length cs) + 8" by simp
    then have "(n + 6 * length (c # cs)) div 8 = (n + 6 - 8 + 6 * length cs) div 8 + 1" by (simp only: e)
    then have "length out < outlen" "length out + 1 + (n + 6 - 8 + 6 * length cs) div 8 \<le> outlen" using "2.prems"(2) by linarith+
    then show ?thesis using "2.IH"(1) v True "2.prems" by (simp add: Let_def not_less)
  next
    case False
    then show ?thesis using "2.IH"(2) v "2.prems" by (simp add: Let_def ac_simps not_less)
  qed
qed simp

lemma alphabet_code:
  assumes "n < 64"
  shows "b64_tbl ! code (b64_alphabet ! n) = int n"
proof -
  have "map (\<lambda>c. b64_tbl ! code c) b64_alphabet = map int [0..<64]" by (simp add: b64_alphabet_def b64_tbl_def code_def upt_rec)
  then have "map (\<lambda>c. b64_tbl ! code c) b64_alphabet ! n = map int [0..<64] ! n" by (rule arg_cong)
  moreover have "length b64_alphabet = 64" by (simp add: b64_alphabet_def)
  ultimately show ?thesis using assms by simp
qed

lemma bits_val_append: "bits_val (x @ [b]) = 2 * bits_val x + of_bool b"
  by (simp add: bits_val_def)

lemma bits_val_nat: "bits_val x < 2 ^ length x \<and> map (bit (bits_val x)) (rev [0..<length x]) = x"
proof (induction x rule: rev_induct)
  case Nil
  then show ?case by (simp add: bits_val_def)
next
  case (snoc b x)
  have "rev [0..<Suc n] = map Suc (rev [0..<n]) @ [0]" for n
    by (simp add: upt_conv_Cons map_Suc_upt rev_map [symmetric] del: upt_Suc)
  then show ?case using snoc by (auto simp: bits_val_append o_def bit_Suc bit_0 of_bool_def simp del: upt_Suc)
qed

lemma bits_val_bits:
  assumes "length x = 6"
  shows "bits_val x < 64 \<and> bits_of 6 (word_of_int (int (bits_val x)) :: u32) = x"
proof -
  have "bits_of 6 (word_of_int (int k) :: u32) = map (bit k) (rev [0..<6])" for k
    by (auto simp add: bits_of_def bit_word_of_int_iff bit_of_nat_iff_bit simp del: of_int_of_nat_eq)
  then show ?thesis using bits_val_nat [of x] assms by simp
qed

lemma char_bits_alphabet: "length x = 6 \<Longrightarrow> char_bits (b64_alphabet ! bits_val x) = x"
  using bits_val_bits [of x] alphabet_code [of "bits_val x"] by (simp add: char_bits_def)

lemma sextets_six: "x \<in> set (sextets bs) \<Longrightarrow> length x = 6"
  by (induction bs rule: sextets.induct) auto

lemma length_concat_six: "(\<And>x. x \<in> set xs \<Longrightarrow> length x = 6) \<Longrightarrow> length (concat xs) = 6 * length xs"
  by (induction xs) auto

lemma concat_sextets: "\<exists>k < 6. concat (sextets bs) = bs @ replicate k False"
proof (induction bs rule: sextets.induct)
  case (2 b bs)
  let ?l = "b # bs"
  show ?case
  proof (cases "6 \<le> length ?l")
    case True
    then have "take 6 (?l @ replicate 5 False) = take 6 ?l" by simp
    moreover obtain k where k: "k < 6" "concat (sextets (drop 6 ?l)) = drop 6 ?l @ replicate k False" using 2 by blast
    ultimately have "concat (sextets ?l) = take 6 ?l @ drop 6 ?l @ replicate k False" by simp
    also have "\<dots> = ?l @ replicate k False" by (metis append.assoc append_take_drop_id)
    finally show ?thesis using k(1) by blast
  next
    case False
    then have "concat (sextets ?l) = take 6 (?l @ replicate 5 False)" by simp
    also have "\<dots> = ?l @ replicate (6 - length ?l) False" using False by (simp add: take_Cons' min_def)
    finally show ?thesis by (intro exI [of _ "6 - length ?l"]) simp
  qed
qed simp

lemma concat_bytes_inj: "concat (map (bits_of 8) a) = concat (map (bits_of 8) b) \<Longrightarrow> a = b" for a b :: bytes
proof (induction a arbitrary: b)
  case Nil
  then show ?case by (cases b) (auto dest: arg_cong [where f = length])
next
  case (Cons x a)
  then obtain y c where b: "b = y # c" by (cases b) (auto dest: arg_cong [where f = length])
  then have "bits_of 8 x = bits_of 8 y \<and> concat (map (bits_of 8) a) = concat (map (bits_of 8) c)" using Cons.prems by simp
  then show ?case using Cons.IH bits_of_inj b by blast
qed

lemma length_concat_bytes: "length (concat (map (bits_of 8) bs)) = 8 * length bs"
  by (induction bs) simp_all

lemma bytes_bits_unique:
  assumes "concat (map (bits_of 8) a) @ p = concat (map (bits_of 8) b) @ q" "length p < 8" "length q < 8"
  shows "a = (b :: bytes)"
proof -
  have "8 * length a + length p = 8 * length b + length q" using arg_cong [OF assms(1), of length] by (simp add: length_concat_bytes)
  then have "length a = length b" using assms(2,3) by linarith
  then have "concat (map (bits_of 8) a) = concat (map (bits_of 8) b)" using assms(1) length_concat_bytes by (metis append_eq_append_conv)
  then show ?thesis by (rule concat_bytes_inj)
qed

lemma strip_pad_append: "s = [] \<or> last s \<noteq> CHR ''='' \<Longrightarrow> strip_pad (s @ replicate k (CHR ''='')) = s"
proof -
  assume s: "s = [] \<or> last s \<noteq> CHR ''=''"
  have "dropWhile (\<lambda>c. c = CHR ''='') (replicate k (CHR ''='') @ rev s) = dropWhile (\<lambda>c. c = CHR ''='') (rev s)" by (induction k) simp_all
  also have "\<dots> = rev s" using s by (cases s rule: rev_cases) auto
  finally show ?thesis by (simp add: strip_pad_def)
qed

lemma base64_encode_decode:
  assumes "length bs \<le> n"
  shows "base64_decode (base64_encode bs) n = Some bs"
proof -
  let ?x = "sextets (concat (map (bits_of 8) bs))"
  define cs where "cs = map (\<lambda>x. b64_alphabet ! bits_val x) ?x"
  obtain k where k: "k < 6" "concat ?x = concat (map (bits_of 8) bs) @ replicate k False" using concat_sextets by blast
  have six: "length x = 6" if "x \<in> set ?x" for x using sextets_six that .
  have bits: "concat (map char_bits cs) = concat ?x" unfolding cs_def using six by (simp add: o_def char_bits_alphabet cong: map_cong)
  have val: "0 \<le> b64_tbl ! code c" "c \<noteq> CHR ''=''" if c: "c \<in> set cs" for c
  proof -
    obtain x where x: "x \<in> set ?x" "c = b64_alphabet ! bits_val x" using c by (auto simp: cs_def)
    then have l: "bits_val x < 64" using six bits_val_bits by blast
    then show "0 \<le> b64_tbl ! code c" using alphabet_code x by simp
    have "CHR ''='' \<notin> set b64_alphabet" "length b64_alphabet = 64" by (simp_all add: b64_alphabet_def)
    then show "c \<noteq> CHR ''=''" using x(2) l nth_mem [of "bits_val x" b64_alphabet] by metis
  qed
  have "length (concat ?x) = 6 * length ?x" using length_concat_six six by blast
  then have len: "6 * length cs = 8 * length bs + k" using k(2) by (simp add: cs_def length_concat_bytes)
  then have fit: "length cs * 6 div 8 = length bs" using k(1) by (simp add: mult.commute)
  obtain r where r: "b64_loop n cs 0 0 [] = Some r" using b64_loop_total [of cs "[]" 0 n 0] val(1) fit assms by (auto simp: mult.commute)
  obtain rest where "concat (map char_bits cs) = concat (map (bits_of 8) r) @ rest" "length rest < 8"
    using b64_loop_bits [OF r] by (auto simp: bits_of_def)
  then have "bs = r" using bits k by (intro bytes_bits_unique [of bs "replicate k False" r rest]) auto
  moreover have "strip_pad (base64_encode bs) = cs"
    unfolding base64_encode_def cs_def [symmetric] Let_def by (rule strip_pad_append) (use val(2) last_in_set in blast)
  ultimately show ?thesis using r fit assms by (simp add: base64_decode_def)
qed

lemma base64_decode_bits:
  assumes "base64_decode s n = Some r"
  shows "\<exists>rest. concat (map char_bits (strip_pad s)) = concat (map (bits_of 8) r) @ rest \<and> length rest < 8"
  using assms b64_loop_bits [of n "strip_pad s" 0 0 "[]" r] by (auto simp: base64_decode_def bits_of_def Let_def split: if_splits)

text \<open>The table gives \<^verbatim>\<open>=\<close> the value 0, so that the character is accepted inside a key.\<close>

lemma base64_inner_pad: "base64_decode ''AA=A'' 3 = Some [0, 0, 0]"
  by code_simp

section \<open>What loading a file does to the device\<close>

definition conf_inv :: "sodium \<Rightarrow> wg_device \<Rightarrow> conf_state \<Rightarrow> bool" where
  "conf_inv sd dev st \<longleftrightarrow> (step sd)\<^sup>*\<^sup>* dev (cf_dev st) \<and> (\<forall>p. cf_peer st = Some p \<longrightarrow> p \<in> set (d_peers (cf_dev st)))"

lemma conf_inv_step:
  assumes "conf_inv sd dev st" "step sd (cf_dev st) D" "d_peers D = d_peers (cf_dev st)"
  shows "conf_inv sd dev (st\<lparr>cf_dev := D\<rparr>)" "conf_inv sd dev (st\<lparr>cf_dev := D, cf_ok := b\<rparr>)" "conf_inv sd dev (st\<lparr>cf_dev := D, cf_inserts := n\<rparr>)"
  using assms by (auto simp: conf_inv_def intro: rtranclp.rtrancl_into_rtrancl)

lemma conf_inv_flags:
  "conf_inv sd dev st \<Longrightarrow> conf_inv sd dev (st\<lparr>cf_dups := n\<rparr>)" "conf_inv sd dev st \<Longrightarrow> conf_inv sd dev (st\<lparr>cf_section := s\<rparr>)"
  "conf_inv sd dev st \<Longrightarrow> conf_inv sd dev (st\<lparr>cf_section := s, cf_peer := None\<rparr>)"
  by (simp_all add: conf_inv_def)

lemma conf_interface_inv:
  assumes "conf_inv sd dev st"
  shows "conf_inv sd dev (snd (conf_interface sd key val st))"
proof -
  have "d_peers (install_static_key sd D priv) = d_peers D" for D priv using keeps_peers [OF config_keeps(1) [where X = "{}"]] .
  then have "conf_inv sd dev (st\<lparr>cf_dev := install_static_key sd (cf_dev st) priv, cf_ok := True\<rparr>)" for priv
    by (intro conf_inv_step(2) [OF assms step.private_key])
  moreover have "conf_inv sd dev (st\<lparr>cf_dev := (cf_dev st)\<lparr>d_listen_port := lp\<rparr>\<rparr>)" for lp
    by (intro conf_inv_step(1) [OF assms step.listen_port]) simp
  ultimately show ?thesis using assms by (simp add: conf_interface_def split: option.splits)
qed

lemma conf_public_key_inv:
  assumes "conf_inv sd dev st"
  shows "conf_inv sd dev (snd (conf_public_key sd val st))"
proof -
  have "conf_inv sd dev (st\<lparr>cf_peer := Some p\<rparr>)" if "device_find_peer sd (cf_dev st) pk = Some p" for p pk
    using assms find_peer_listed [OF that] by (simp add: conf_inv_def)
  moreover have "conf_inv sd dev (st\<lparr>cf_dev := D, cf_peer := r\<rparr>)" if a: "device_add_peer sd (cf_dev st) pk = (r, D)" for r D pk
  proof -
    have "step sd (cf_dev st) D" using step.add_peer [of sd "cf_dev st" pk] a by simp
    moreover have "p \<in> set (d_peers D)" if "r = Some p" for p using add_peer_listed [of sd "cf_dev st" pk p] a that by simp
    ultimately show ?thesis using assms by (auto simp: conf_inv_def)
  qed
  ultimately show ?thesis using assms by (auto simp: conf_public_key_def Let_def split: option.splits prod.splits)
qed

lemma apply_allowed_ip_inv:
  assumes "conf_inv sd dev st" "cf_peer st = Some p"
  shows "conf_inv sd dev (apply_allowed_ip oks p s st) \<and> cf_peer (apply_allowed_ip oks p s st) = Some p"
proof -
  have p: "p \<in> set (d_peers (cf_dev st))" using assms by (simp add: conf_inv_def)
  have "conf_inv sd dev (st\<lparr>cf_dev := add_allowed_ip4 o1 o2 (cf_dev st) p a c, cf_inserts := n\<rparr>)" if "length a = 4" for o1 o2 a c n
    by (intro conf_inv_step(3) [OF assms(1) step.allowed_ip4 [OF p that]]) simp
  moreover have "conf_inv sd dev (st\<lparr>cf_dev := add_allowed_ip6 o1 o2 (cf_dev st) p a c, cf_inserts := n\<rparr>)" if "length a = 16" for o1 o2 a c n
    by (intro conf_inv_step(3) [OF assms(1) step.allowed_ip6 [OF p that]]) simp
  ultimately show ?thesis
    using assms by (auto simp: apply_allowed_ip_def Let_def split: option.splits prod.splits dest: inet_pton4_length inet_pton6_length)
qed

lemma allowed_ips_inv:
  assumes "conf_inv sd dev st" "cf_peer st = Some p"
  shows "conf_inv sd dev (fold (\<lambda>tok. apply_allowed_ip oks p (trim tok)) toks st)"
  using assms
proof (induction toks arbitrary: st)
  case (Cons tok toks)
  show ?case using Cons.IH [of "apply_allowed_ip oks p (trim tok) st"] apply_allowed_ip_inv [OF Cons.prems] by simp
qed simp

lemma conf_peer_inv:
  assumes inv: "conf_inv sd dev st"
  shows "conf_inv sd dev (snd (conf_peer sd gai oks dup_ok key val st))"
proof (cases "cf_peer st")
  case None
  then show ?thesis using inv conf_public_key_inv [OF inv] by (simp add: conf_peer_def)
next
  case (Some p)
  then have p: "p \<in> set (d_peers (cf_dev st))" using inv by (simp add: conf_inv_def)
  have psk: "conf_inv sd dev (st\<lparr>cf_dev := set_preshared_key (cf_dev st) p k\<rparr>)" for k
    by (intro conf_inv_step(1) [OF inv step.preshared_key [OF p]]) simp
  have ep: "conf_inv sd dev (st\<lparr>cf_dev := snd (apply_endpoint gai p val (cf_dev st))\<rparr>)"
    using conf_inv_step(1) [OF inv step.endpoint [OF p]] inv by (auto simp: apply_endpoint_def split: option.splits)
  have ms: "conf_inv sd dev (st\<lparr>cf_dev := upd_peer p (\<lambda>q. q\<lparr>p_persistent_keepalive_ms := ms\<rparr>) (cf_dev st)\<rparr>)" for ms
    by (intro conf_inv_step(1) [OF inv step.keepalive_ms [OF p]]) (simp add: upd_peer_def)
  have ips: "conf_inv sd dev (fold (\<lambda>tok. apply_allowed_ip oks p (trim tok)) toks (st\<lparr>cf_dups := n\<rparr>))" for toks n
    by (rule allowed_ips_inv [OF conf_inv_flags(1) [OF inv]]) (simp add: Some)
  show ?thesis
    using Some psk ep ms ips inv conf_inv_flags(1) [OF inv] conf_public_key_inv [OF inv] by (simp add: conf_peer_def Let_def split: option.splits)
qed

lemma conf_loop_inv: "conf_inv sd dev st \<Longrightarrow> conf_inv sd dev (conf_loop sd gai oks dup_ok lines st)"
proof (induction lines arbitrary: st)
  case (Cons line lines)
  have s: "conf_inv sd dev (conf_section_line sec st)" for sec
    using conf_inv_flags [OF Cons.prems] by (simp add: conf_section_line_def split: conf_section.splits)
  have "conf_inv sd dev (snd (case cf_section st of SEC_INTERFACE \<Rightarrow> conf_interface sd key val st
      | SEC_PEER \<Rightarrow> conf_peer sd gai oks dup_ok key val st | SEC_NONE \<Rightarrow> (True, st)))" for key val
    using conf_interface_inv [OF Cons.prems] conf_peer_inv [OF Cons.prems] Cons.prems by (simp split: conf_section.splits)
  then show ?case using Cons s by (auto simp: Let_def split: conf_line.splits prod.splits) (metis snd_conv)+
qed simp

lemma start_keepalive_steps:
  assumes "(step sd)\<^sup>*\<^sup>* dev D" "set ps \<subseteq> set (d_peers D)"
  shows "(step sd)\<^sup>*\<^sup>* dev (fold start_keepalive ps D)"
  using assms
proof (induction ps arbitrary: D)
  case (Cons p ps)
  have peers: "d_peers (timers_persistent_keepalive_set D p) = d_peers D" by (rule keeps_peers [OF config_keeps(6) [where X = "{}"]])
  have "step sd D (timers_persistent_keepalive_set D p)" by (rule step.keepalive_start) (use Cons.prems(2) in simp)
  then have "(step sd)\<^sup>*\<^sup>* dev (start_keepalive p D)" "d_peers (start_keepalive p D) = d_peers D"
    using Cons.prems(1) peers by (auto simp: start_keepalive_def intro: rtranclp.rtrancl_into_rtrancl)
  then show ?case using Cons by simp
qed simp

lemma load_steps: "(step sd)\<^sup>*\<^sup>* dev (snd (load_wg_config sd gai oks dup_ok dev file))"
proof -
  define s0 where "s0 = \<lparr>cf_dev = dev, cf_section = SEC_NONE, cf_peer = None, cf_ok = False, cf_inserts = 0, cf_dups = 0\<rparr>"
  have "conf_inv sd dev s0" by (simp add: conf_inv_def s0_def)
  then have "conf_inv sd dev (conf_loop sd gai oks dup_ok lines s0)" for lines by (rule conf_loop_inv)
  then have "(step sd)\<^sup>*\<^sup>* dev (cf_dev (conf_loop sd gai oks dup_ok lines s0))" for lines by (simp add: conf_inv_def)
  then show ?thesis
    unfolding load_wg_config_def s0_def [symmetric] by (auto simp: Let_def start_keepalive_steps split: option.splits)
qed

section \<open>The name server list stays in its buffer\<close>

lemma take_server_bound: "length (cd_csv st) < n \<Longrightarrow> length (cd_csv (take_server n tok st)) < n"
  by (auto simp: take_server_def strncat_def Let_def split: option.splits)

lemma dns_line_bound: "length (cd_csv st) < n \<Longrightarrow> length (cd_csv (dns_line dup_ok n line st)) < n"
proof -
  have "length (cd_csv (fold (take_server n) toks st)) < n" if "length (cd_csv st) < n" for toks st
    using that by (induction toks arbitrary: st) (auto intro: take_server_bound)
  then show "length (cd_csv st) < n \<Longrightarrow> length (cd_csv (dns_line dup_ok n line st)) < n"
    by (simp add: dns_line_def Let_def split: conf_line.splits)
qed

section \<open>Files of plain lines\<close>

definition plain_line :: "string \<Rightarrow> bool" where
  "plain_line l \<longleftrightarrow> newline \<notin> set l \<and> nul \<notin> set l \<and> length l \<le> 510"

definition file_of :: "string list \<Rightarrow> string" where
  "file_of ls = concat (map (\<lambda>l. l @ [newline]) ls)"

lemma fgets_line:
  assumes "plain_line l"
  shows "fgets (l @ newline # r) = (l @ [newline], r)"
proof -
  have t: "take 511 (l @ newline # r) = l @ newline # take (510 - length l) r" using assms by (simp add: plain_line_def take_Cons')
  have "takeWhile (\<lambda>c. c \<noteq> newline) (l @ newline # x) = l" for x using assms by (simp add: plain_line_def takeWhile_append)
  then show ?thesis unfolding fgets_def t by (simp add: Let_def)
qed

lemma file_lines_of:
  assumes "\<And>l. l \<in> set ls \<Longrightarrow> plain_line l"
  shows "file_lines (file_of ls) = map (\<lambda>l. l @ [newline]) ls"
  using assms
proof (induction ls)
  case Nil
  then show ?case by (simp add: file_of_def file_lines.simps)
next
  case (Cons l ls)
  have "file_of (l # ls) = l @ newline # file_of ls" by (simp add: file_of_def)
  moreover have "c_str (l @ [newline]) = l @ [newline]" using Cons.prems [of l] by (auto simp: c_str_def plain_line_def takeWhile_eq_all_conv)
  ultimately show ?case using Cons fgets_line [of l "file_of ls"] by (subst file_lines.simps) simp
qed

definition tight :: "string \<Rightarrow> bool" where
  "tight s \<longleftrightarrow> s \<noteq> [] \<and> \<not> isspace (hd s) \<and> \<not> isspace (last s)"

lemma trim_tight: "tight s \<Longrightarrow> trim s = s" "tight s \<Longrightarrow> trim (s @ [newline]) = s"
proof -
  have n: "isspace newline" by (simp add: isspace_def code_def)
  assume s: "tight s"
  then have "dropWhile isspace (s @ r) = s @ r" for r by (cases s) (simp_all add: tight_def)
  moreover have "dropWhile isspace (rev s) = rev s" using s by (cases s rule: rev_cases) (simp_all add: tight_def)
  ultimately show "trim s = s" "trim (s @ [newline]) = s" using n by (simp_all add: trim_def) (metis append_Nil2 rev_rev_ident)
qed

lemma conf_line_setting:
  assumes "tight key" "tight val" "CHR ''='' \<notin> set key" "hd key \<noteq> CHR ''#''" "hd key \<noteq> CHR ''[''"
  shows "conf_line_of ((key @ ''='' @ val) @ [newline]) = Setting key val"
proof -
  have "tight (key @ ''='' @ val)" using assms(1,2) by (simp add: tight_def)
  then show ?thesis
    unfolding conf_line_of_def trim_tight(2) [OF \<open>tight (key @ ''='' @ val)\<close>] using assms by (simp add: Let_def tight_def trim_tight(1))
qed

lemma sections:
  "conf_line_of (''[Interface]'' @ [newline]) = Section ''Interface''" "section_of ''Interface'' = SEC_INTERFACE"
  "conf_line_of (''[Peer]'' @ [newline]) = Section ''Peer''" "section_of ''Peer'' = SEC_PEER"
  by code_simp+

lemma base64_text:
  assumes "bs \<noteq> []"
  shows "tight (base64_encode bs)" "newline \<notin> set (base64_encode bs)" "nul \<notin> set (base64_encode bs)"
    "length (base64_encode bs) \<le> 2 * length bs + 4"
proof -
  define xs where "xs = sextets (concat (map (bits_of 8) bs))"
  define cs where "cs = map (\<lambda>x. b64_alphabet ! bits_val x) xs"
  have e: "base64_encode bs = cs @ replicate ((4 - length cs mod 4) mod 4) (CHR ''='')" by (simp add: base64_encode_def cs_def xs_def)
  have six: "length x = 6" if "x \<in> set xs" for x using sextets_six that unfolding xs_def .
  have al: "length b64_alphabet = 64" "list_all (\<lambda>c. \<not> isspace c \<and> c \<noteq> newline \<and> c \<noteq> nul) (CHR ''='' # b64_alphabet)"
    by (simp_all add: b64_alphabet_def isspace_def code_def)
  have "c \<in> set b64_alphabet" if c: "c \<in> set cs" for c
  proof -
    obtain x where "x \<in> set xs" "c = b64_alphabet ! bits_val x" using c by (auto simp: cs_def)
    then show ?thesis using bits_val_bits [OF six, of x] al(1) by simp
  qed
  then have all: "\<not> isspace c \<and> c \<noteq> newline \<and> c \<noteq> nul" if "c \<in> set (base64_encode bs)" for c
    using that al(2) unfolding e list_all_iff by (auto split: if_splits)
  then show "newline \<notin> set (base64_encode bs)" "nul \<notin> set (base64_encode bs)" by blast+
  obtain k where k: "k < 6" "concat xs = concat (map (bits_of 8) bs) @ replicate k False" using concat_sextets unfolding xs_def by blast
  then have l: "6 * length cs = 8 * length bs + k" using length_concat_six [of xs] six by (simp add: cs_def length_concat_bytes)
  then have ne: "cs \<noteq> []" using assms by auto
  then have "base64_encode bs \<noteq> []" by (simp add: e)
  then show "tight (base64_encode bs)" using all by (simp add: tight_def)
  have "(4 - length cs mod 4) mod 4 < 4" by simp
  then have "length (base64_encode bs) \<le> length cs + 3" by (simp add: e)
  moreover have "1 \<le> length bs" using assms by (cases bs) auto
  ultimately show "length (base64_encode bs) \<le> 2 * length bs + 4" using l k(1) by linarith
qed

lemma base64_key_encode: "length bs = n \<Longrightarrow> base64_key (base64_encode bs) n = Some bs"
  using base64_encode_decode [of bs n] by (simp add: base64_key_def)

text \<open>A file with the keys of the device and of one peer.\<close>

definition keys_file :: "bytes \<Rightarrow> string \<Rightarrow> string" where
  "keys_file priv peer_key =
     file_of [''[Interface]'', ''PrivateKey'' @ ''='' @ base64_encode priv, ''[Peer]'', ''PublicKey'' @ ''='' @ peer_key]"

lemma keys_file_lines:
  assumes "length priv = 32" "newline \<notin> set key" "nul \<notin> set key" "length key \<le> 100"
  shows "file_lines (keys_file priv key) = map (\<lambda>l. l @ [newline]) [''[Interface]'', ''PrivateKey'' @ ''='' @ base64_encode priv, ''[Peer]'', ''PublicKey'' @ ''='' @ key]"
proof -
  have "priv \<noteq> []" using assms(1) by auto
  from base64_text [OF this] show ?thesis
    unfolding keys_file_def using assms by (intro file_lines_of) (auto simp: plain_line_def)
qed

lemma keys_loop:
  assumes "length priv = 32" "tight key" "newline \<notin> set key" "nul \<notin> set key" "length key \<le> 100"
  shows "conf_loop sd gai oks dup_ok (file_lines (keys_file priv key)) st =
    snd (conf_public_key sd key (st\<lparr>cf_dev := install_static_key sd (cf_dev st) priv, cf_ok := True, cf_section := SEC_PEER, cf_peer := None\<rparr>))"
proof -
  have ne: "priv \<noteq> []" using assms(1) by auto
  have 1: "conf_line_of ((''PrivateKey'' @ ''='' @ base64_encode priv) @ [newline]) = Setting ''PrivateKey'' (base64_encode priv)"
    by (rule conf_line_setting) (use base64_text(1) [OF ne] in \<open>simp_all add: tight_def isspace_def code_def\<close>)
  have 2: "conf_line_of ((''PublicKey'' @ ''='' @ key) @ [newline]) = Setting ''PublicKey'' key"
    by (rule conf_line_setting) (use assms(2) in \<open>simp_all add: tight_def isspace_def code_def\<close>)
  have "base64_key (base64_encode priv) 32 = Some priv" by (rule base64_key_encode [OF assms(1)])
  then show ?thesis
    unfolding keys_file_lines [OF assms(1,3,4,5)] list.map conf_loop.simps 1 2 sections
    by (auto simp add: conf_section_line_def sections conf_interface_def conf_peer_def strcasecmp_eq_def split: prod.splits)
qed

lemma install_static_key_fields: "d_private_key (install_static_key sd dev priv) = priv" "d_peers (install_static_key sd dev priv) = d_peers dev"
  "e_calloc (install_static_key sd dev priv) = e_calloc dev"
proof -
  have "d_private_key (fold (\<lambda>p d. noise_precompute_static_static sd d p) L D) = d_private_key D \<and>
      e_calloc (fold (\<lambda>p d. noise_precompute_static_static sd d p) L D) = e_calloc D" for L D
    by (induction L arbitrary: D) (simp_all add: noise_precompute_static_static_def upd_hs_def upd_peer_def Let_def)
  then show "d_private_key (install_static_key sd dev priv) = priv" "e_calloc (install_static_key sd dev priv) = e_calloc dev"
    by (simp_all add: install_static_key_def noise_set_static_key_def Let_def)
  show "d_peers (install_static_key sd dev priv) = d_peers dev" by (rule keeps_peers [OF config_keeps(1) [where X = "{}"]])
qed

text \<open>A peer key that is not a key: the loader stops at it and reports success.\<close>

lemma conf_bad_peer_key:
  assumes "length priv = 32" "tight key" "newline \<notin> set key" "nul \<notin> set key" "length key \<le> 100" "base64_key key 32 = None" "d_peers dev = []"
  shows "fst (load_wg_config sd gai oks dup_ok dev (Some (keys_file priv key))) = 0 \<and>
    d_peers (snd (load_wg_config sd gai oks dup_ok dev (Some (keys_file priv key)))) = []"
  using assms(6,7) by (simp add: load_wg_config_def keys_loop [OF assms(1-5)] conf_public_key_def install_static_key_fields)

section \<open>Properties\<close>

text \<open>\<^bold>\<open>C38\<close>. Base64: a key that is encoded as RFC 4648 says is decoded to itself, for every length that fits the buffer, and whatever
  the decoder accepts, the bytes it returns are the bits of the characters in order, with less than a byte left over.\<close>

theorem conf_base64_rfc4648:
  "(length bs \<le> n \<longrightarrow> base64_decode (base64_encode bs) n = Some bs) \<and>
   (\<forall>s n r. base64_decode s n = Some r \<longrightarrow>
      (\<exists>rest. concat (map char_bits (strip_pad s)) = concat (map (bits_of 8) r) @ rest \<and> length rest < 8))"
  using base64_encode_decode base64_decode_bits by blast


text \<open>The keys of a file reach the device: loading a file with the base64 text of a private key and of one peer's public key
  into a device without peers succeeds, installs exactly the private key, and adds exactly one peer with exactly that key.\<close>

theorem conf_keys_loaded:
  assumes "length priv = 32" "length pk = 32" "d_peers dev = []" "e_calloc dev 0"
  shows "\<exists>dev' p. load_wg_config sd getaddrinfo oks dup_ok dev (Some (keys_file priv (base64_encode pk))) = (0, dev') \<and>
    d_private_key dev' = priv \<and> d_peers dev' = [p] \<and> p_public_key (peer_at dev' p) = pk"
proof -
  let ?D = "install_static_key sd dev priv"
  have ne: "pk \<noteq> []" using assms(2) by auto
  define r D where "r = fst (device_add_peer sd ?D pk)" and "D = snd (device_add_peer sd ?D pk)"
  have find: "device_find_peer sd ?D pk = None" by (simp add: device_find_peer_def install_static_key_fields assms(3))
  have D: "d_private_key D = priv" "d_peers D = [e_brk ?D]" "p_public_key (peer_at D (e_brk ?D)) = pk"
    "p_persistent_keepalive_ms (peer_at D (e_brk ?D)) = 0"
    using assms(3,4) find by (simp_all add: D_def device_add_peer_def calloc_def install_static_key_fields timers_init_def
      noise_precompute_static_static_def upd_hs_def upd_peer_def peer_at_def peer_zero_def Let_def)
  have enc: "tight (base64_encode pk)" "newline \<notin> set (base64_encode pk)" "nul \<notin> set (base64_encode pk)" "length (base64_encode pk) \<le> 100"
    using base64_text [OF ne] assms(2) by simp_all
  have "load_wg_config sd getaddrinfo oks dup_ok dev (Some (keys_file priv (base64_encode pk))) = (0, fold start_keepalive (d_peers D) D)"
    using base64_key_encode [OF assms(2)] find
    by (simp add: load_wg_config_def keys_loop [OF assms(1) enc] conf_public_key_def D_def split: prod.splits)
  then show ?thesis using D by (auto simp: start_keepalive_def)
qed

text \<open>The list of name servers never outgrows the caller's buffer: with its terminator it fits into the length passed in.\<close>

theorem conf_dns_bounded:
  assumes "0 < n"
  shows "length (snd (load_wg_config_dns dup_ok file n)) + 1 \<le> n"
proof -
  have "length (cd_csv (fold (dns_line dup_ok n) ls st)) < n" if "length (cd_csv st) < n" for ls st
    using that by (induction ls arbitrary: st) (auto intro: dns_line_bound)
  then show ?thesis using assms by (auto simp: load_wg_config_dns_def Let_def Suc_le_eq split: option.splits)
qed

section \<open>Witnesses\<close>

theorem conf_base64_rfc4648_witness:
  "base64_decode (base64_encode [1, 2, 3, 4]) 4 = Some [1, 2, 3, 4]"
  using conf_base64_rfc4648 [of "[1, 2, 3, 4]" 4] by simp

theorem conf_keys_loaded_witness:
  "fst (load_wg_config sodium_example (\<lambda>_ _. None) (\<lambda>_ _. True) (\<lambda>_. True) device_zero (Some (keys_file (zeros 32) (base64_encode (zeros 32))))) = 0"
proof -
  have "\<exists>dev' p. load_wg_config sodium_example (\<lambda>_ _. None) (\<lambda>_ _. True) (\<lambda>_. True) device_zero (Some (keys_file (zeros 32) (base64_encode (zeros 32)))) = (0, dev') \<and>
    d_private_key dev' = zeros 32 \<and> d_peers dev' = [p] \<and> p_public_key (peer_at dev' p) = zeros 32"
    by (rule conf_keys_loaded) (simp_all add: device_zero_def)
  then show ?thesis by auto
qed

theorem conf_dns_bounded_witness: "length (snd (load_wg_config_dns (\<lambda>_. True) (Some (file_of [''[Interface]'', ''DNS=10.0.0.1''])) 64)) + 1 \<le> 64"
  by (rule conf_dns_bounded) simp

end
