(* ===== verification/Tcp_Wire.thy ===== *)
theory Tcp_Wire
  imports Timers
begin

text \<open>
  The wire side of the userspace TCP stack (\<^verbatim>\<open>src/src/tcpstack.c\<close>, \<^verbatim>\<open>src/src/tcpstack.h\<close>): sequence
  arithmetic, Internet checksums, the connection record, the segments the stack emits and the
  header fields it reads from an arriving packet.
\<close>

section \<open>Constants and data\<close>

datatype tcp_state = TCPS_CLOSED | TCPS_SYN_RECEIVED | TCPS_SYN_SENT | TCPS_ESTABLISHED | TCPS_FIN_WAIT | TCPS_CLOSE_WAIT | TCPS_LAST_ACK

definition WG_TCP_MSS :: nat where "WG_TCP_MSS = 1380"
definition WG_TCP_WINDOW :: u32 where "WG_TCP_WINDOW = 65535"
definition WG_TCP_WINDOW_SCALE :: nat where "WG_TCP_WINDOW_SCALE = 4"
definition WG_TCP_SENDBUF_INITIAL_SIZE :: nat where "WG_TCP_SENDBUF_INITIAL_SIZE = 32 * 1024"
definition WG_TCP_SENDBUF_SIZE :: nat where "WG_TCP_SENDBUF_SIZE = 256 * 1024"
definition WG_TCP_RECV_OOO_SIZE :: nat where "WG_TCP_RECV_OOO_SIZE = 2 * 1024 * 1024"
definition WG_TCP_DELAYED_ACK_MS :: u64 where "WG_TCP_DELAYED_ACK_MS = 15"
definition WG_TCP_DELAYED_ACK_SEGMENTS :: nat where "WG_TCP_DELAYED_ACK_SEGMENTS = 2"
definition WG_TCP_MAX_SACK_BLOCKS :: nat where "WG_TCP_MAX_SACK_BLOCKS = 3"
definition WG_TCP_RETRANSMIT_MS :: u64 where "WG_TCP_RETRANSMIT_MS = 500"
definition WG_TCP_RETRANSMIT_MAX_MS :: u64 where "WG_TCP_RETRANSMIT_MAX_MS = 8000"
definition WG_TCP_MAX_RETRANSMIT :: nat where "WG_TCP_MAX_RETRANSMIT = 6"
definition WG_TCP_CONN_BUCKETS :: nat where "WG_TCP_CONN_BUCKETS = 1024"

definition TCPF_FIN :: u8 where "TCPF_FIN = 0x01"
definition TCPF_SYN :: u8 where "TCPF_SYN = 0x02"
definition TCPF_RST :: u8 where "TCPF_RST = 0x04"
definition TCPF_PSH :: u8 where "TCPF_PSH = 0x08"
definition TCPF_ACK :: u8 where "TCPF_ACK = 0x10"

lemmas tcpf_defs = TCPF_FIN_def TCPF_SYN_def TCPF_RST_def TCPF_PSH_def TCPF_ACK_def

text \<open>An out-of-order segment; its \<^verbatim>\<open>len\<close> is the length of the data it still holds.\<close>

record tcp_ooo_seg =
  os_seq :: u32
  os_data :: bytes

definition os_len :: "tcp_ooo_seg \<Rightarrow> nat" where
  "os_len seg = length (os_data seg)"

type_synonym conn_ref = nat
type_synonym fptr = nat

text \<open>Addresses of family \<^verbatim>\<open>AF_INET\<close> are 32-bit values in network byte order, that is, loaded from
  memory as they are; \<^verbatim>\<open>in6_addr\<close> is its 16 bytes. Callbacks are function pointers, null or not; the
  buffer sizes are bounded by \<^verbatim>\<open>WG_TCP_SENDBUF_SIZE\<close> and \<^verbatim>\<open>WG_TCP_RECV_OOO_SIZE\<close> and are natural numbers here.\<close>

record tcp_conn =
  c_family :: nat
  c_local_ip :: u32
  c_remote_ip :: u32
  c_local_ip6 :: bytes
  c_remote_ip6 :: bytes
  c_local_port :: u16
  c_remote_port :: u16
  c_state :: tcp_state
  c_iss :: u32
  c_snd_una :: u32
  c_snd_nxt :: u32
  c_snd_wnd :: u32
  c_snd_mss :: u32
  c_snd_wscale :: u8
  c_rcv_nxt :: u32
  c_rcv_ooo :: "tcp_ooo_seg list"
  c_rcv_ooo_len :: nat
  c_sendbuf :: bytes
  c_sendbuf_cap :: nat
  c_sendbuf_head :: nat
  c_sendbuf_len :: nat
  c_retransmit_timer :: uv_timer
  c_ack_timer :: uv_timer
  c_retransmit_count :: nat
  c_timer_initialized :: bool
  c_ack_timer_initialized :: bool
  c_close_pending :: nat
  c_delayed_ack_segments :: u32
  c_delayed_ack_bytes :: u32
  c_being_freed :: bool
  c_close_notified :: bool
  c_flush_queued :: bool
  c_on_connect :: "fptr option"
  c_on_data :: "fptr option"
  c_on_close :: "fptr option"
  c_on_writeable :: "fptr option"
  c_on_recv_window :: "fptr option"
  c_userdata :: nat

text \<open>A connection fresh from \<^verbatim>\<open>calloc\<close>.\<close>

definition conn_zero :: tcp_conn where
  "conn_zero = \<lparr>c_family = 0, c_local_ip = 0, c_remote_ip = 0, c_local_ip6 = zeros 16, c_remote_ip6 = zeros 16,
     c_local_port = 0, c_remote_port = 0, c_state = TCPS_CLOSED, c_iss = 0, c_snd_una = 0, c_snd_nxt = 0, c_snd_wnd = 0, c_snd_mss = 0,
     c_snd_wscale = 0, c_rcv_nxt = 0, c_rcv_ooo = [], c_rcv_ooo_len = 0, c_sendbuf = [], c_sendbuf_cap = 0, c_sendbuf_head = 0,
     c_sendbuf_len = 0, c_retransmit_timer = timer_zero, c_ack_timer = timer_zero, c_retransmit_count = 0, c_timer_initialized = False,
     c_ack_timer_initialized = False, c_close_pending = 0, c_delayed_ack_segments = 0, c_delayed_ack_bytes = 0, c_being_freed = False,
     c_close_notified = False, c_flush_queued = False, c_on_connect = None, c_on_data = None, c_on_close = None, c_on_writeable = None,
     c_on_recv_window = None, c_userdata = 0\<rparr>"

section \<open>Sequence arithmetic\<close>

definition seq_lt :: "u32 \<Rightarrow> u32 \<Rightarrow> bool" where "seq_lt a b \<longleftrightarrow> sint (a - b) < 0"
definition seq_le :: "u32 \<Rightarrow> u32 \<Rightarrow> bool" where "seq_le a b \<longleftrightarrow> sint (a - b) \<le> 0"
definition seq_gt :: "u32 \<Rightarrow> u32 \<Rightarrow> bool" where "seq_gt a b \<longleftrightarrow> sint (a - b) > 0"

section \<open>Hashing\<close>

definition hash_addr32 :: "bytes \<Rightarrow> u32" where
  "hash_addr32 buf = foldl (\<lambda>h b. (h * 33) XOR ucast b) 0 buf"

definition conn_hash :: "nat \<Rightarrow> bytes \<Rightarrow> bytes \<Rightarrow> u16 \<Rightarrow> u16 \<Rightarrow> nat" where
  "conn_hash family local_addr remote_addr local_port remote_port =
     (let h = of_nat family XOR push_bit 16 (ucast local_port) XOR ucast remote_port;
          h = (if family = AF_INET then h XOR (of_le local_addr XOR of_le remote_addr)
               else h XOR hash_addr32 local_addr XOR hash_addr32 remote_addr) :: u32;
          h = h XOR drop_bit 16 h
      in unat (h AND (of_nat WG_TCP_CONN_BUCKETS - 1)))"

section \<open>Checksums\<close>

fun cksum_add :: "bytes \<Rightarrow> u32 \<Rightarrow> u32" where
  "cksum_add (a # b # data) acc = cksum_add data (acc + (push_bit 8 (ucast a) OR ucast b))"
| "cksum_add [a] acc = acc + push_bit 8 (ucast a)"
| "cksum_add [] acc = acc"

lemma carry_step: "unat ((acc AND 0xffff) + drop_bit 16 acc) = unat acc mod 65536 + unat (acc :: u32) div 65536"
proof -
  let ?n = "unat acc"
  have a: "unat (acc AND 0xffff) = ?n mod 65536"
    using unat_take_bit [of 16 acc] take_bit_eq_mask [of 16 acc] by (simp add: mask_eq_exp_minus_1)
  have d: "unat (drop_bit 16 acc) = ?n div 65536" by (simp add: unat_drop_bit)
  define q r where "q = ?n div 65536" and "r = ?n mod 65536"
  have "r + q * 65536 = ?n" unfolding q_def r_def by simp
  moreover have "?n < 2 ^ 32" using unat_lt2p [of acc] by simp
  ultimately have "r + q < 2 ^ 32" by linarith
  then show ?thesis using a d by (simp add: unat_word_ariths q_def r_def)
qed

lemma fold_decreases: "drop_bit 16 acc \<noteq> 0 \<Longrightarrow> unat ((acc AND 0xffff) + drop_bit 16 acc) < unat (acc :: u32)"
proof -
  assume n: "drop_bit 16 acc \<noteq> 0"
  define q r where "q = unat acc div 65536" and "r = unat acc mod 65536"
  have "unat (drop_bit 16 acc) = q" by (simp add: unat_drop_bit q_def)
  then have "q > 0" using n by (metis gr0I unat_eq_zero)
  moreover have "r + q * 65536 = unat acc" unfolding q_def r_def by simp
  ultimately have "r + q < unat acc" by linarith
  then show ?thesis unfolding carry_step q_def r_def .
qed

function (sequential) cksum_carry :: "u32 \<Rightarrow> u32" where
  "cksum_carry acc = (if drop_bit 16 acc \<noteq> 0 then cksum_carry ((acc AND 0xffff) + drop_bit 16 acc) else acc)"
  by pat_completeness auto
termination by (relation "measure unat") (use fold_decreases in auto)

declare cksum_carry.simps [simp del]

definition htons :: "u16 \<Rightarrow> u16" where
  "htons w = of_le (be16 w)"

definition cksum_fold :: "u32 \<Rightarrow> u16" where
  "cksum_fold acc = htons (NOT (ucast (cksum_carry acc)))"

definition ip4_checksum :: "bytes \<Rightarrow> u16" where
  "ip4_checksum hdr = cksum_fold (cksum_add hdr 0)"

definition tcp4_pseudo :: "u32 \<Rightarrow> u32 \<Rightarrow> nat \<Rightarrow> bytes" where
  "tcp4_pseudo src_ip dst_ip tcp_len = le32 src_ip @ le32 dst_ip @ [0, 6] @ be16 (of_nat tcp_len)"

definition tcp4_checksum :: "u32 \<Rightarrow> u32 \<Rightarrow> bytes \<Rightarrow> u16" where
  "tcp4_checksum src_ip dst_ip tcp_seg =
     cksum_fold (cksum_add tcp_seg (cksum_add (tcp4_pseudo src_ip dst_ip (length tcp_seg)) 0))"

definition tcp6_pseudo :: "bytes \<Rightarrow> bytes \<Rightarrow> nat \<Rightarrow> bytes" where
  "tcp6_pseudo src_ip dst_ip tcp_len = src_ip @ dst_ip @ be32 (of_nat tcp_len) @ [0, 0, 0, 6]"

definition tcp6_checksum :: "bytes \<Rightarrow> bytes \<Rightarrow> bytes \<Rightarrow> u16" where
  "tcp6_checksum src_ip dst_ip tcp_seg =
     cksum_fold (cksum_add tcp_seg (cksum_add (tcp6_pseudo src_ip dst_ip (length tcp_seg)) 0))"

definition generate_isn :: "u64 \<Rightarrow> u64 \<Rightarrow> u64 \<Rightarrow> u32" where
  "generate_isn tv_sec tv_nsec stack_addr = ucast (tv_nsec XOR tv_sec * 1000000000) XOR ucast stack_addr"

section \<open>Segments out\<close>

definition flag :: "u8 \<Rightarrow> u8 \<Rightarrow> bool" where
  "flag flags f \<longleftrightarrow> flags AND f \<noteq> 0"

definition sack_segs :: "tcp_conn \<Rightarrow> u8 \<Rightarrow> bytes \<Rightarrow> tcp_ooo_seg list" where
  "sack_segs conn flags data =
     (if \<not> flag flags TCPF_SYN \<and> data = [] \<and> flag flags TCPF_ACK then take WG_TCP_MAX_SACK_BLOCKS (c_rcv_ooo conn) else [])"

definition syn_options :: bytes where
  "syn_options = [2, 4] @ be16 (of_nat WG_TCP_MSS) @ [4, 2, 1, 3, 3, of_nat WG_TCP_WINDOW_SCALE, 1, 1]"

definition sack_options :: "tcp_ooo_seg list \<Rightarrow> bytes" where
  "sack_options segs = [1, 1, 5, of_nat (2 + length segs * 8)] @
     concat (map (\<lambda>seg. be32 (os_seq seg) @ be32 (os_seq seg + of_nat (os_len seg))) segs)"

definition tcp_options :: "tcp_conn \<Rightarrow> u8 \<Rightarrow> bytes \<Rightarrow> bytes" where
  "tcp_options conn flags data =
     (if flag flags TCPF_SYN then syn_options
      else if sack_segs conn flags data \<noteq> [] then sack_options (sack_segs conn flags data) else [])"

text \<open>The window to advertise; \<open>recv_window\<close> is what the callback \<^verbatim>\<open>on_recv_window\<close> returned, if there is one.\<close>

definition advertised_window :: "u8 \<Rightarrow> u64 option \<Rightarrow> u32" where
  "advertised_window flags recv_window =
     (if flag flags TCPF_SYN then WG_TCP_WINDOW
      else
        let actual = (case recv_window of None \<Rightarrow> push_bit WG_TCP_WINDOW_SCALE WG_TCP_WINDOW | Some w \<Rightarrow> ucast w);
            scale = push_bit WG_TCP_WINDOW_SCALE 1;
            adv = (if actual = 0 then 0 else (actual + scale - 1) div scale)
        in if adv > WG_TCP_WINDOW then WG_TCP_WINDOW else adv)"

text \<open>The TCP header with its options, for a given checksum field.\<close>

definition tcp_header :: "tcp_conn \<Rightarrow> u8 \<Rightarrow> u32 \<Rightarrow> u32 \<Rightarrow> u32 \<Rightarrow> bytes \<Rightarrow> u16 \<Rightarrow> bytes" where
  "tcp_header conn flags seq ack win opts ck =
     be16 (c_local_port conn) @ be16 (c_remote_port conn) @ be32 seq @
     be32 (if flag flags TCPF_ACK then ack else 0) @
     [push_bit 4 (of_nat ((20 + length opts) div 4)), flags] @ be16 (ucast win) @ le16 ck @ [0, 0] @ opts"

definition ip4_header :: "u32 \<Rightarrow> u32 \<Rightarrow> nat \<Rightarrow> u16 \<Rightarrow> bytes" where
  "ip4_header src dst ip_total ck =
     [0x45, 0] @ be16 (of_nat ip_total) @ [0, 0] @ be16 0x4000 @ [64, 6] @ le16 ck @ le32 src @ le32 dst"

definition ip6_header :: "bytes \<Rightarrow> bytes \<Rightarrow> nat \<Rightarrow> bytes" where
  "ip6_header src dst plen = be32 (push_bit 28 6) @ be16 (of_nat plen) @ [6, 64] @ src @ dst"

text \<open>The packet that \<^verbatim>\<open>send_segment\<close> builds and hands to \<^verbatim>\<open>device_send_ip_packet\<close>.\<close>

definition segment_packet :: "tcp_conn \<Rightarrow> u64 option \<Rightarrow> u8 \<Rightarrow> u32 \<Rightarrow> u32 \<Rightarrow> bytes \<Rightarrow> bytes" where
  "segment_packet conn recv_window flags seq ack data =
     (let opts = tcp_options conn flags data;
          win = advertised_window flags recv_window;
          ip6 = (c_family conn = AF_INET6);
          tcp = (\<lambda>ck. tcp_header conn flags seq ack win opts ck @ data);
          tcp_ck = (if ip6 then tcp6_checksum (c_local_ip6 conn) (c_remote_ip6 conn) (tcp 0)
                    else tcp4_checksum (c_local_ip conn) (c_remote_ip conn) (tcp 0));
          seg_len = 20 + length opts + length data;
          ip = (if ip6 then ip6_header (c_local_ip6 conn) (c_remote_ip6 conn) seg_len
                else ip4_header (c_local_ip conn) (c_remote_ip conn) (20 + seg_len)
                       (ip4_checksum (ip4_header (c_local_ip conn) (c_remote_ip conn) (20 + seg_len) 0)))
      in ip @ tcp tcp_ck)"

section \<open>Segments in\<close>

text \<open>What \<^verbatim>\<open>tcpstack_input\<close> reads from the packet before it looks for a connection.\<close>

record tcp_segment =
  sg_family :: nat
  sg_src :: bytes
  sg_dst :: bytes
  sg_src_port :: u16
  sg_dst_port :: u16
  sg_seq :: u32
  sg_ack :: u32
  sg_window :: u16
  sg_flags :: u8
  sg_options :: bytes
  sg_payload :: bytes

text \<open>The TCP part: \<open>tcp\<close> is the \<^verbatim>\<open>tcp_len\<close> bytes after the IP header.\<close>

datatype parse_result = Drop | Overread | Segment tcp_segment

definition parse_tcp :: "nat \<Rightarrow> bytes \<Rightarrow> bytes \<Rightarrow> bytes \<Rightarrow> parse_result" where
  "parse_tcp family src dst tcp =
     (let data_off = unat (drop_bit 4 (tcp ! 12)) * 4
      in if data_off < 20 \<or> data_off > length tcp then Drop
      else Segment \<lparr>sg_family = family, sg_src = src, sg_dst = dst, sg_src_port = of_be (slice 0 2 tcp), sg_dst_port = of_be (slice 2 2 tcp),
        sg_seq = of_be (slice 4 4 tcp), sg_ack = of_be (slice 8 4 tcp), sg_window = of_be (slice 14 2 tcp), sg_flags = tcp ! 13,
        sg_options = slice 20 (data_off - 20) tcp, sg_payload = drop data_off tcp\<rparr>)"

text \<open>The guards and the IP part. In the IPv4 branch \<^verbatim>\<open>ip_total - ihl\<close> is an \<^verbatim>\<open>int\<close> converted to \<^verbatim>\<open>size_t\<close>: when it
  is negative the length wraps to a huge one, the test \<^verbatim>\<open>tcp_len < 20\<close> lets it pass, and the code goes on to
  read behind the packet. That outcome is the value \<open>Overread\<close>.\<close>

definition parse_packet :: "u32 \<Rightarrow> bytes option \<Rightarrow> bytes \<Rightarrow> parse_result" where
  "parse_packet local_ip local_ip6 ip_pkt =
     (if length ip_pkt < 40 then Drop
      else if drop_bit 4 (ip_pkt ! 0) = 6 then
        (if length ip_pkt < 60 then Drop
         else if ip_pkt ! 6 \<noteq> 6 then Drop
         else
           let tcp_len = unat (of_be (slice 4 2 ip_pkt) :: u16)
           in if 40 + tcp_len > length ip_pkt \<or> tcp_len < 20 then Drop
           else if local_ip6 \<noteq> Some (slice 24 16 ip_pkt) then Drop
           else parse_tcp AF_INET6 (slice 8 16 ip_pkt) (slice 24 16 ip_pkt) (slice 40 tcp_len ip_pkt))
      else if drop_bit 4 (ip_pkt ! 0) = 4 then
        (let ihl = unat (ip_pkt ! 0 AND 0x0f) * 4
         in if ihl < 20 \<or> ihl > length ip_pkt then Drop
         else if ip_pkt ! 9 \<noteq> 6 then Drop
         else
           let ip_total = unat (of_be (slice 2 2 ip_pkt) :: u16)
           in if ip_total > length ip_pkt then Drop
           else if of_le (slice 16 4 ip_pkt) \<noteq> local_ip then Drop
           else if ip_total < ihl then Overread
           else if ip_total - ihl < 20 then Drop
           else parse_tcp AF_INET (slice 12 4 ip_pkt) (slice 16 4 ip_pkt) (slice ihl (ip_total - ihl) ip_pkt))
      else Drop)"

text \<open>The loop over the options of a SYN: the maximum segment size and the window scale it sets.\<close>

function (sequential) syn_option_loop :: "bytes \<Rightarrow> u32 \<times> u8 \<Rightarrow> u32 \<times> u8" where
  "syn_option_loop [] acc = acc"
| "syn_option_loop (k # rest) (mss, wscale) =
     (if k = 0 then (mss, wscale)
      else if k = 1 then syn_option_loop rest (mss, wscale)
      else case rest of [] \<Rightarrow> (mss, wscale)
      | optlen # _ \<Rightarrow>
        if optlen < 2 \<or> unat optlen > length (k # rest) then (mss, wscale)
        else
          let body = take (unat optlen) (k # rest);
              rmss = of_be (slice 2 2 body) :: u16;
              mss' = (if k = 2 \<and> optlen = 4 \<and> rmss > 0 \<and> unat rmss < WG_TCP_MSS then ucast rmss else mss);
              wscale' = (if k = 3 \<and> optlen = 3 then (if body ! 2 > 14 then 14 else body ! 2) else wscale)
          in syn_option_loop (drop (unat optlen) (k # rest)) (mss', wscale'))"
  by pat_completeness auto
termination
  by (relation "measure (\<lambda>(opt, _). length opt)") (auto simp: word_less_nat_alt)

definition parse_syn_options :: "bytes \<Rightarrow> tcp_conn \<Rightarrow> tcp_conn" where
  "parse_syn_options opts conn =
     (let (mss, wscale) = syn_option_loop opts (of_nat WG_TCP_MSS, 0)
      in conn\<lparr>c_snd_mss := mss, c_snd_wscale := wscale\<rparr>)"

section \<open>Sizes\<close>

lemma length_sack_options: "length (sack_options segs) = 4 + 8 * length segs"
  by (induction segs) (simp_all add: sack_options_def)

lemma length_tcp_options: "length (tcp_options conn flags data) \<in> {0, 12, 20, 28}"
proof -
  have "length (sack_segs conn flags data) \<le> 3" by (simp add: sack_segs_def WG_TCP_MAX_SACK_BLOCKS_def)
  moreover have "n \<le> 3 \<Longrightarrow> n \<noteq> 0 \<Longrightarrow> n = 1 \<or> n = 2 \<or> n = 3" for n :: nat by arith
  ultimately have "sack_segs conn flags data \<noteq> [] \<Longrightarrow> length (sack_segs conn flags data) \<in> {1, 2, 3}" by fastforce
  then show ?thesis by (auto simp: tcp_options_def length_sack_options syn_options_def)
qed

lemma tcp_options_data: "data \<noteq> [] \<Longrightarrow> \<not> flag flags TCPF_SYN \<Longrightarrow> tcp_options conn flags data = []"
  by (simp add: tcp_options_def sack_segs_def)

lemma length_tcp_header [simp]: "length (tcp_header conn flags seq ack win opts ck) = 20 + length opts"
  by (simp add: tcp_header_def)

lemma length_ip4_header [simp]: "length (ip4_header src dst n ck) = 20"
  by (simp add: ip4_header_def)

lemma length_ip6_header: "length src = 16 \<Longrightarrow> length dst = 16 \<Longrightarrow> length (ip6_header src dst n) = 40"
  by (simp add: ip6_header_def)

section \<open>Parsing what was sent\<close>

lemma data_off_byte: "n \<in> {0, 12, 20, 28} \<Longrightarrow> unat (drop_bit 4 (push_bit 4 (of_nat ((20 + n) div 4)) :: u8)) * 4 = 20 + n"
  by auto

lemma parse_tcp_header:
  assumes "length opts \<in> {0, 12, 20, 28}"
  shows "parse_tcp family src dst (tcp_header conn flags seq ack win opts ck @ data) =
    Segment \<lparr>sg_family = family, sg_src = src, sg_dst = dst, sg_src_port = c_local_port conn, sg_dst_port = c_remote_port conn,
      sg_seq = seq, sg_ack = (if flag flags TCPF_ACK then ack else 0), sg_window = ucast win, sg_flags = flags,
      sg_options = opts, sg_payload = data\<rparr>"
proof -
  let ?h = "tcp_header conn flags seq ack win opts ck @ data"
  let ?a = "be16 (c_local_port conn)" and ?b = "be16 (c_remote_port conn)" and ?c = "be32 seq"
    and ?d = "be32 (if flag flags TCPF_ACK then ack else 0)" and ?w = "be16 (ucast win)" and ?k = "le16 ck"
  have 12: "?h ! 12 = push_bit 4 (of_nat ((20 + length opts) div 4))" and 13: "?h ! 13 = flags"
    by (simp_all add: tcp_header_def nth_append)
  have off: "unat (drop_bit 4 (?h ! 12)) * 4 = 20 + length opts" unfolding 12 by (rule data_off_byte [OF assms])
  have "slice 0 2 ?h = ?a" "slice 2 2 ?h = ?b" "slice 4 4 ?h = ?c" "slice 8 4 ?h = ?d" "slice 14 2 ?h = ?w"
      "slice 20 (length opts) ?h = opts"
    by (simp_all add: tcp_header_def slice_def)
  moreover have "drop (20 + length opts) ?h = data" by simp
  ultimately show ?thesis using off 13 by (simp add: parse_tcp_def)
qed

lemma of_be_16_32 [simp]: "n < 65536 \<Longrightarrow> unat (of_be (be16 (of_nat n)) :: u16) = n"
  by (simp add: unat_of_nat)

section \<open>Checksum arithmetic\<close>

fun wsum :: "bytes \<Rightarrow> nat" where
  "wsum (a # b # r) = unat a * 256 + unat b + wsum r"
| "wsum [a] = unat a * 256"
| "wsum [] = 0"

lemma wsum_append: "even (length xs) \<Longrightarrow> wsum (xs @ ys) = wsum xs + wsum ys"
  by (induction xs rule: wsum.induct) auto

lemma wsum_le: "wsum xs \<le> 65535 * ((length xs + 1) div 2)"
proof (induction xs rule: wsum.induct)
  case (1 a b r)
  have "unat a \<le> 255" "unat b \<le> 255" using unat_lt2p [of a] unat_lt2p [of b] by simp_all
  moreover have "(length (a # b # r) + 1) div 2 = Suc ((length r + 1) div 2)" by simp
  ultimately show ?case using 1 by simp
next
  case (2 a)
  have "unat a \<le> 255" using unat_lt2p [of a] by simp
  then show ?case by simp
qed simp

lemma unat_ucast_8_32: "unat (ucast (b::u8) :: u32) = unat b"
  using unat_lt2p [of b] by (simp add: unsigned_ucast_eq take_bit_nat_def)

lemma unat_pair: "unat (push_bit 8 (ucast (a::u8)) OR ucast (b::u8) :: u32) = unat a * 256 + unat b"
proof -
  have "push_bit 8 (ucast a) OR ucast b = (push_bit 8 (ucast a) + ucast b :: u32)"
  proof (rule disjunctive_add [symmetric])
    fix n show "\<not> bit (push_bit 8 (ucast a) :: u32) n \<or> \<not> bit (ucast b :: u32) n"
      by (auto simp: bit_simps dest: bit_imp_le_length)
  qed
  moreover have "unat (push_bit 8 (ucast a) :: u32) = unat a * 256"
    using unat_lt2p [of a] by (simp add: push_bit_eq_mult unat_word_ariths unat_ucast_8_32)
  moreover have "unat (ucast b :: u32) = unat b" by (simp add: unat_ucast_8_32)
  moreover have "unat a < 256" "unat b < 256" using unat_lt2p [of a] unat_lt2p [of b] by simp_all
  ultimately show ?thesis by (simp add: unat_word_ariths)
qed

lemma unat_cksum_add: "unat acc + wsum xs < 2 ^ 32 \<Longrightarrow> unat (cksum_add xs acc) = unat acc + wsum xs"
proof (induction xs acc rule: cksum_add.induct)
  case (1 a b data acc)
  have "unat (acc + (push_bit 8 (ucast a) OR ucast b)) = unat acc + (unat a * 256 + unat b)"
    using 1(2) by (simp add: unat_word_ariths unat_pair)
  then show ?case using 1 by simp
next
  case (2 a acc)
  then show ?case using unat_pair [of a 0] by (simp add: unat_word_ariths)
qed simp

lemma cksum_carry_spec:
  "unat (cksum_carry acc) < 65536 \<and> unat (cksum_carry acc) mod 65535 = unat acc mod 65535 \<and> (cksum_carry acc = 0 \<longleftrightarrow> acc = 0)"
proof (induction acc rule: cksum_carry.induct)
  case (1 acc)
  let ?n = "unat acc"
  define q r where "q = ?n div 65536" and "r = ?n mod 65536"
  have d: "unat (drop_bit 16 acc) = q" by (simp add: unat_drop_bit q_def)
  have n: "?n = r + q * 65536" unfolding q_def r_def by simp
  have z: "acc = 0 \<longleftrightarrow> ?n = 0" by (simp add: unat_eq_zero)
  show ?case
  proof (cases "drop_bit 16 acc = 0")
    case True
    then have "q = 0" using d by simp
    moreover have "r < 65536" unfolding r_def by simp
    ultimately show ?thesis using True n by (simp add: cksum_carry.simps [of acc])
  next
    case False
    let ?m = "(acc AND 0xffff) + drop_bit 16 acc"
    have m: "unat ?m = r + q" unfolding carry_step q_def r_def ..
    have "(r + q) + q * 65535 = ?n" using n by simp
    then have "(r + q) mod 65535 = ?n mod 65535" using mod_mult_self1 [of "r + q" q 65535] by (simp only:)
    moreover have "q \<noteq> 0" using False d by (metis unat_eq_zero)
    then have "?m \<noteq> 0" "acc \<noteq> 0" using m n by (auto simp: unat_eq_zero [symmetric])
    moreover have "cksum_carry acc = cksum_carry ?m" using False by (simp add: cksum_carry.simps [of acc])
    ultimately show ?thesis using 1 [OF False] m by simp
  qed
qed

lemma le16_htons [simp]: "le16 (htons w) = be16 w"
proof -
  have "le_bytes (length (be16 w)) (of_le (be16 w) :: u16) = be16 w" by (rule le_bytes_of_le) simp
  then show ?thesis by (simp add: htons_def le16_def)
qed

lemma wsum_be16 [simp]: "wsum (be16 w) = unat w"
proof -
  have "be16 w = [byte_of w 1, byte_of w 0]" by (simp add: be16_def le16_def le_bytes_def numeral_2_eq_2)
  moreover have "unat (byte_of w 1) = unat w div 256" "unat (byte_of w 0) = unat w mod 256"
    using unat_lt2p [of w] by (simp_all add: byte_of_def unsigned_ucast_eq unat_drop_bit take_bit_nat_def)
  ultimately show ?thesis by simp
qed

lemma unat_numeral_65535: "unat (65535 :: u32) = 65535"
  by simp

text \<open>Writing the folded sum into a 16-bit field that was zero makes the sum of the whole verify.\<close>

lemma cksum_verifies:
  assumes s: "unat s0 + wsum (xs @ [0, 0] @ ys) = S" and S: "0 < S" "S + 65535 < 2 ^ 32" and e: "even (length xs)"
    and ck: "ck = cksum_fold (cksum_add (xs @ [0, 0] @ ys) s0)"
  shows "cksum_fold (cksum_add (xs @ le16 ck @ ys) s0) = 0"
proof -
  let ?c = "cksum_carry (cksum_add (xs @ [0, 0] @ ys) s0)"
  define k where "k = (NOT (ucast ?c) :: u16)"
  have sum0: "unat (cksum_add (xs @ [0, 0] @ ys) s0) = S" using unat_cksum_add [of s0 "xs @ [0, 0] @ ys"] s S by simp
  have c: "unat ?c < 65536" "unat ?c mod 65535 = S mod 65535" "?c \<noteq> 0"
    using cksum_carry_spec [of "cksum_add (xs @ [0, 0] @ ys) s0"] sum0 S(1) by (auto simp: unat_eq_zero [symmetric])
  have uc: "unat (ucast ?c :: u16) = unat ?c" using c(1) by (simp add: unsigned_ucast_eq take_bit_nat_def)
  have "NOT x = - 1 - x" for x :: u16 by (simp add: not_eq_complement algebra_simps)
  then have k: "unat k = 65535 - unat ?c"
    unfolding k_def using uc unat_sub_le [of "ucast ?c" "- 1 :: u16"] by (simp add: unsigned_minus_1_eq_mask mask_eq_exp_minus_1)
  have "wsum (xs @ le16 ck @ ys) = wsum (xs @ [0, 0] @ ys) + unat k"
    using e unfolding ck cksum_fold_def k_def [symmetric] le16_htons by (simp add: wsum_append)
  then have sum1: "unat (cksum_add (xs @ le16 ck @ ys) s0) = S + unat k"
    using unat_cksum_add [of s0 "xs @ le16 ck @ ys"] s S(2) k by simp
  let ?d = "cksum_carry (cksum_add (xs @ le16 ck @ ys) s0)"
  have d: "unat ?d < 65536" "unat ?d mod 65535 = (S + unat k) mod 65535" "?d \<noteq> 0"
    using cksum_carry_spec [of "cksum_add (xs @ le16 ck @ ys) s0"] sum1 S(1) by (auto simp: unat_eq_zero [symmetric])
  have "(S + unat k) mod 65535 = (unat ?c + unat k) mod 65535" using c(2) by (metis mod_add_left_eq)
  also have "\<dots> = 0" using k c(1) by simp
  finally have "unat ?d mod 65535 = 0" using d(2) by simp
  moreover have "unat ?d \<noteq> 0" using d(3) by (simp add: unat_eq_zero)
  ultimately have "unat ?d = 65535" using d(1) by (auto simp: mod_eq_0_iff_dvd dvd_def)
  then have "?d = 65535" by (metis unat_numeral_65535 word_unat_eq_iff)
  then have "cksum_fold (cksum_add (xs @ le16 ck @ ys) s0) = htons (NOT (ucast (65535 :: u32)))" by (simp only: cksum_fold_def)
  also have "\<dots> = 0" by code_simp
  finally show ?thesis .
qed

lemma wsum_pos: "x \<in> set xs \<Longrightarrow> x \<noteq> 0 \<Longrightarrow> 0 < wsum xs"
  by (induction xs rule: wsum.induct) (auto simp: unat_gt_0)

section \<open>Addresses of a connection\<close>

definition addresses_ok :: "tcp_conn \<Rightarrow> bool" where
  "addresses_ok conn \<longleftrightarrow> (c_family conn = AF_INET \<or> c_family conn = AF_INET6) \<and> length (c_local_ip6 conn) = 16 \<and> length (c_remote_ip6 conn) = 16"

definition local_addr :: "tcp_conn \<Rightarrow> bytes" where
  "local_addr conn = (if c_family conn = AF_INET6 then c_local_ip6 conn else le32 (c_local_ip conn))"

definition remote_addr :: "tcp_conn \<Rightarrow> bytes" where
  "remote_addr conn = (if c_family conn = AF_INET6 then c_remote_ip6 conn else le32 (c_remote_ip conn))"

lemma segment_packet_length:
  assumes "addresses_ok conn"
  shows "length (segment_packet conn w flags seq ack data) =
    (if c_family conn = AF_INET6 then 40 else 20) + 20 + length (tcp_options conn flags data) + length data"
  using assms by (auto simp: segment_packet_def Let_def addresses_ok_def length_ip6_header)

lemma segment_packet_v4:
  assumes "c_family conn = AF_INET"
  shows "\<exists>ick ck. segment_packet conn w flags seq ack data =
    ip4_header (c_local_ip conn) (c_remote_ip conn)
      (20 + length (tcp_header conn flags seq ack (advertised_window flags w) (tcp_options conn flags data) ck @ data)) ick @
    tcp_header conn flags seq ack (advertised_window flags w) (tcp_options conn flags data) ck @ data"
  unfolding segment_packet_def Let_def using assms by (intro exI) (simp add: AF_INET_def AF_INET6_def add.assoc)

lemma segment_packet_v6:
  assumes "c_family conn = AF_INET6"
  shows "\<exists>ck. segment_packet conn w flags seq ack data =
    ip6_header (c_local_ip6 conn) (c_remote_ip6 conn)
      (length (tcp_header conn flags seq ack (advertised_window flags w) (tcp_options conn flags data) ck @ data)) @
    tcp_header conn flags seq ack (advertised_window flags w) (tcp_options conn flags data) ck @ data"
  unfolding segment_packet_def Let_def using assms by (intro exI) simp

lemma parse_ip4:
  assumes "20 \<le> length tcp" "20 + length tcp < 65536"
  shows "parse_packet ip ip6 (ip4_header src ip (20 + length tcp) ick @ tcp) = parse_tcp AF_INET (le32 src) (le32 ip) tcp"
proof -
  define n where "n = 20 + length tcp"
  define p where "p = ip4_header src ip n ick @ tcp"
  have "n < 65536" using assms(2) by (simp add: n_def)
  then have n: "length p = n" "40 \<le> n" "unat (of_nat n :: u16) = n" using assms by (simp add: n_def p_def, simp add: n_def, simp add: unat_of_nat)
  have s: "of_be (slice 2 2 p) = (of_nat n :: u16)" "slice 12 4 p = le32 src" "slice 16 4 p = le32 ip" "slice 20 (n - 20) p = tcp"
    by (simp_all add: p_def ip4_header_def slice_def n_def)
  have b: "p ! 0 = 0x45" "p ! 9 = 6" by (simp_all add: p_def ip4_header_def nth_append)
  have "parse_packet ip ip6 p = parse_tcp AF_INET (le32 src) (le32 ip) tcp"
    unfolding parse_packet_def b s using n s(4) diff_le_mono [OF n(2), of 20] by (simp add: Let_def)
  then show ?thesis by (simp add: p_def n_def)
qed

lemma parse_ip6:
  assumes "20 \<le> length tcp" "length tcp < 65536" "length src = 16" "length dst = 16"
  shows "parse_packet ip (Some dst) (ip6_header src dst (length tcp) @ tcp) = parse_tcp AF_INET6 src dst tcp"
proof -
  define n where "n = length tcp"
  define p where "p = ip6_header src dst n @ tcp"
  have n: "length p = 40 + n" "20 \<le> n" "unat (of_nat n :: u16) = n" using assms by (simp_all add: n_def p_def unat_of_nat length_ip6_header)
  have s: "of_be (slice 4 2 p) = (of_nat n :: u16)" "slice 8 16 p = src" "slice 24 16 p = dst" "slice 40 n p = tcp"
    using assms(3,4) by (simp_all add: p_def ip6_header_def slice_def n_def)
  have "be32 (push_bit 28 6) = [0x60, 0, 0, 0]" by code_simp
  then have b: "p ! 0 = 0x60" "p ! 6 = 6" by (simp_all add: p_def ip6_header_def nth_append)
  have "parse_packet ip (Some dst) p = parse_tcp AF_INET6 src dst tcp"
    unfolding parse_packet_def b s using n s(4) by (simp add: Let_def)
  then show ?thesis by (simp add: p_def n_def)
qed

lemma parse_segment:
  assumes "addresses_ok conn" "length data \<le> WG_TCP_MSS"
  shows "parse_packet (c_remote_ip conn) (Some (c_remote_ip6 conn)) (segment_packet conn w flags seq ack data) =
    Segment \<lparr>sg_family = c_family conn, sg_src = local_addr conn, sg_dst = remote_addr conn, sg_src_port = c_local_port conn,
      sg_dst_port = c_remote_port conn, sg_seq = seq, sg_ack = (if flag flags TCPF_ACK then ack else 0),
      sg_window = ucast (advertised_window flags w), sg_flags = flags, sg_options = tcp_options conn flags data, sg_payload = data\<rparr>"
proof -
  let ?o = "tcp_options conn flags data"
  let ?t = "\<lambda>ck. tcp_header conn flags seq ack (advertised_window flags w) ?o ck @ data"
  have o: "length ?o \<in> {0, 12, 20, 28}" by (rule length_tcp_options)
  have n: "20 \<le> length (?t ck)" "20 + length (?t ck) < 65536" "length (?t ck) = 20 + length ?o + length data" for ck
    using o assms(2) by (auto simp: WG_TCP_MSS_def)
  consider (4) "c_family conn = AF_INET" | (6) "c_family conn = AF_INET6" "length (c_local_ip6 conn) = 16" "length (c_remote_ip6 conn) = 16"
    using assms(1) by (auto simp: addresses_ok_def)
  then show ?thesis
  proof cases
    case 4
    obtain ick ck where "segment_packet conn w flags seq ack data = ip4_header (c_local_ip conn) (c_remote_ip conn) (20 + length (?t ck)) ick @ ?t ck"
      using segment_packet_v4 [OF 4, of w flags seq ack data] by blast
    then show ?thesis using 4
      by (simp only: parse_ip4 [OF n(1,2)] parse_tcp_header [OF o]) (simp add: local_addr_def remote_addr_def AF_INET_def AF_INET6_def)
  next
    case 6
    obtain ck where "segment_packet conn w flags seq ack data = ip6_header (c_local_ip6 conn) (c_remote_ip6 conn) (length (?t ck)) @ ?t ck"
      using segment_packet_v6 [OF 6(1), of w flags seq ack data] by blast
    then show ?thesis using 6 n(2) [of ck]
      by (simp only: parse_ip6 [OF n(1) _ 6(2,3)] parse_tcp_header [OF o]) (simp add: local_addr_def remote_addr_def)
  qed
qed

lemma ip4_header_verifies: "ip4_checksum (ip4_header src dst n (ip4_checksum (ip4_header src dst n 0))) = 0"
proof -
  let ?x = "[0x45, 0] @ be16 (of_nat n) @ [0, 0] @ be16 0x4000 @ [64, 6]" and ?y = "le32 src @ le32 dst"
  have z: "le16 0 = [0, 0]" by code_simp
  have h: "ip4_header src dst n ck = ?x @ le16 ck @ ?y" for ck by (simp add: ip4_header_def)
  have "wsum (?x @ [0, 0] @ ?y) \<le> 65535 * ((length (?x @ [0, 0] @ ?y) + 1) div 2)" by (rule wsum_le)
  then have b: "wsum (?x @ [0, 0] @ ?y) \<le> 65535 * 10" by simp
  have p: "0 < wsum (?x @ [0, 0] @ ?y)" by (rule wsum_pos [where x = 69]) simp_all
  show ?thesis
    unfolding ip4_checksum_def h z
    by (rule cksum_verifies [where S = "wsum (?x @ [0, 0] @ ?y)"]) (use b p in simp_all)
qed

text \<open>The same for the TCP segment under a pseudo header \<open>ps\<close>.\<close>

lemma tcp_header_verifies:
  assumes len: "length ps \<le> 40" "length opts \<le> 28" "length data \<le> WG_TCP_MSS" and six: "even (length ps)" "6 \<in> set ps"
    and seg: "seg = (\<lambda>ck. tcp_header conn flags seq ack win opts ck @ data)"
  shows "cksum_fold (cksum_add (seg (cksum_fold (cksum_add (seg 0) (cksum_add ps 0)))) (cksum_add ps 0)) = 0"
proof -
  let ?x = "be16 (c_local_port conn) @ be16 (c_remote_port conn) @ be32 seq @ be32 (if flag flags TCPF_ACK then ack else 0) @
     [push_bit 4 (of_nat ((20 + length opts) div 4)), flags] @ be16 (ucast win)" and ?y = "[0, 0] @ opts @ data"
  have z: "le16 0 = [0, 0]" by code_simp
  have h: "seg ck = ?x @ le16 ck @ ?y" for ck by (simp add: seg tcp_header_def)
  have "wsum ps \<le> 65535 * ((length ps + 1) div 2)" by (rule wsum_le)
  also have "\<dots> \<le> 65535 * 20" using div_le_mono [of "length ps + 1" 41 2] len(1) by simp
  finally have p: "wsum ps \<le> 65535 * 20" .
  have "wsum (?x @ [0, 0] @ ?y) \<le> 65535 * ((length (?x @ [0, 0] @ ?y) + 1) div 2)" by (rule wsum_le)
  also have "\<dots> \<le> 65535 * 720"
    using div_le_mono [of "length (?x @ [0, 0] @ ?y) + 1" 1440 2] len(2,3) by (simp add: WG_TCP_MSS_def)
  finally have q: "wsum (?x @ [0, 0] @ ?y) \<le> 65535 * 720" .
  have u: "unat (cksum_add ps 0) = wsum ps" using unat_cksum_add [of 0 ps] p by simp
  have "0 < wsum ps" by (rule wsum_pos [OF six(2)]) simp
  then show ?thesis
    unfolding h z
    by (intro cksum_verifies [where S = "wsum ps + wsum (?x @ [0, 0] @ ?y)"]) (use p q u in simp_all)
qed

section \<open>Properties\<close>

text \<open>\<^bold>\<open>C28\<close>. Wire round trip: the packet the stack builds for a segment, IPv4 or IPv6, with or without options, is read
  back by \<^verbatim>\<open>tcpstack_input\<close> of the addressed stack as exactly that segment: ports, sequence and acknowledgement
  numbers, window, flags, options and payload.\<close>

theorem tcp_segment_roundtrip:
  assumes "addresses_ok conn" "length data \<le> WG_TCP_MSS"
  shows "parse_packet (c_remote_ip conn) (Some (c_remote_ip6 conn)) (segment_packet conn w flags seq ack data) =
    Segment \<lparr>sg_family = c_family conn, sg_src = local_addr conn, sg_dst = remote_addr conn, sg_src_port = c_local_port conn,
      sg_dst_port = c_remote_port conn, sg_seq = seq, sg_ack = (if flag flags TCPF_ACK then ack else 0),
      sg_window = ucast (advertised_window flags w), sg_flags = flags, sg_options = tcp_options conn flags data, sg_payload = data\<rparr>"
  using assms by (rule parse_segment)


text \<open>\<^bold>\<open>C30\<close>. Sizes: a segment the stack sends (data of at most \<^verbatim>\<open>WG_TCP_MSS\<close> bytes, none on a SYN) fits the stack buffer
  \<^verbatim>\<open>pkt\<close>; over IPv4 it fits the tunnel MTU. Over IPv6 the same maximum segment size makes a packet longer than the MTU
  as soon as it carries more than 1360 bytes.\<close>

theorem tcp_segment_size:
  assumes "addresses_ok conn" "length data \<le> WG_TCP_MSS" "data = [] \<or> \<not> flag flags TCPF_SYN"
  shows "let n = length (segment_packet conn w flags seq ack data)
    in n \<le> 40 + 24 + WG_TCP_MSS \<and> (c_family conn = AF_INET \<longrightarrow> n \<le> WG_DEFAULT_MTU) \<and>
       (c_family conn = AF_INET6 \<longrightarrow> length data > 1360 \<longrightarrow> n > WG_DEFAULT_MTU)"
proof -
  have "data \<noteq> [] \<Longrightarrow> tcp_options conn flags data = []" using assms(3) tcp_options_data by blast
  moreover have "length (tcp_options conn flags data) \<le> 28" using length_tcp_options [of conn flags data] by auto
  ultimately show ?thesis
    using assms(2) by (cases "data = []") (auto simp: segment_packet_length [OF assms(1)] Let_def WG_TCP_MSS_def WG_DEFAULT_MTU_def AF_INET_def AF_INET6_def)
qed

definition syn_ok :: "u32 \<times> u8 \<Rightarrow> bool" where
  "syn_ok acc \<longleftrightarrow> 0 < fst acc \<and> unat (fst acc) \<le> WG_TCP_MSS \<and> snd acc \<le> 14"

lemma unat_ucast_16_32: "unat (ucast (x::u16) :: u32) = unat x"
  using unat_lt2p [of x] by (simp add: unsigned_ucast_eq take_bit_nat_def)

lemma syn_option_loop_bounds: "syn_ok acc \<Longrightarrow> syn_ok (syn_option_loop opt acc)"
proof (induction "length opt" arbitrary: opt acc rule: less_induct)
  case less
  obtain mss wscale where acc: "acc = (mss, wscale)" by (cases acc)
  show ?case
  proof (cases opt)
    case Nil
    then show ?thesis using less.prems by simp
  next
    case (Cons k rest)
    have one: "syn_ok (syn_option_loop rest acc)" using less.hyps [of rest acc] less.prems Cons by simp
    show ?thesis
    proof (cases rest)
      case Nil
      then show ?thesis using less.prems Cons one acc by simp
    next
      case r: (Cons optlen tail)
      let ?body = "take (unat optlen) (k # rest)"
      let ?rmss = "of_be (slice 2 2 ?body) :: u16"
      define mss' where "mss' = (if k = 2 \<and> optlen = 4 \<and> ?rmss > 0 \<and> unat ?rmss < WG_TCP_MSS then ucast ?rmss else mss)"
      define ws' where "ws' = (if k = 3 \<and> optlen = 3 then (if ?body ! 2 > 14 then 14 else ?body ! 2) else wscale)"
      have "0 < mss' \<and> unat mss' \<le> WG_TCP_MSS"
        using less.prems unat_ucast_16_32 [of ?rmss] by (auto simp: mss'_def syn_ok_def acc word_less_nat_alt)
      then have "syn_ok (mss', ws')" using less.prems by (auto simp: ws'_def syn_ok_def acc)
      then have two: "syn_ok (syn_option_loop (drop (unat optlen) opt) (mss', ws'))" if "optlen \<ge> 2"
        using less.hyps [of "drop (unat optlen) opt"] that Cons by (simp add: word_le_nat_alt)
      have "syn_option_loop opt acc = (if k = 0 then acc else if k = 1 then syn_option_loop rest acc
          else if optlen < 2 \<or> unat optlen > length opt then acc else syn_option_loop (drop (unat optlen) opt) (mss', ws'))"
        unfolding acc Cons syn_option_loop.simps Let_def r list.case mss'_def ws'_def by simp
      then show ?thesis using less.prems one two by (simp add: not_less)
    qed
  qed
qed

text \<open>Whatever bytes a peer puts into the options of its SYN, the maximum segment size taken from it is positive and
  at most \<^verbatim>\<open>WG_TCP_MSS\<close>, the window scale is at most 14, and scaling a 16-bit window by it loses no bits.\<close>

theorem parse_syn_options_bounds:
  "let c = parse_syn_options opts conn
   in 0 < c_snd_mss c \<and> unat (c_snd_mss c) \<le> WG_TCP_MSS \<and> c_snd_wscale c \<le> 14 \<and>
      unat (push_bit (unat (c_snd_wscale c)) (ucast (window :: u16)) :: u32) = unat window * 2 ^ unat (c_snd_wscale c)"
proof -
  let ?r = "syn_option_loop opts (of_nat WG_TCP_MSS, 0)"
  have b: "0 < fst ?r" "unat (fst ?r) \<le> WG_TCP_MSS" "snd ?r \<le> 14"
    using syn_option_loop_bounds [of "(of_nat WG_TCP_MSS, 0)" opts] by (simp_all add: syn_ok_def WG_TCP_MSS_def)
  have c: "c_snd_mss (parse_syn_options opts conn) = fst ?r" "c_snd_wscale (parse_syn_options opts conn) = snd ?r"
    by (simp_all add: parse_syn_options_def split: prod.splits)
  have "unat (snd ?r) \<le> 14" using b(3) by (simp add: word_le_nat_alt)
  then have "(2::nat) ^ unat (snd ?r) \<le> 2 ^ 14" by (rule power_increasing) simp
  moreover have "unat window < 2 ^ 16" using unat_lt2p [of window] by simp
  ultimately have l: "unat window * 2 ^ unat (snd ?r) < 2 ^ 32"
    using mult_less_le_imp_less [of "unat window" "2 ^ 16" "2 ^ unat (snd ?r)" "2 ^ 14 :: nat"] by simp
  have "unat (2 ^ k :: u32) = 2 ^ k mod 2 ^ 32" for k using unat_of_nat [of "2 ^ k", where 'a = 32] by simp
  moreover have "(2::nat) ^ unat (snd ?r) < 2 ^ 32" using \<open>2 ^ unat (snd ?r) \<le> 2 ^ 14\<close> by simp
  ultimately have "unat (2 ^ unat (snd ?r) :: u32) = 2 ^ unat (snd ?r)" by simp
  then have "unat (push_bit (unat (snd ?r)) (ucast window) :: u32) = unat window * 2 ^ unat (snd ?r)"
    using l by (simp add: push_bit_eq_mult unat_word_ariths unat_ucast_16_32)
  then show ?thesis using b c by (simp add: Let_def)
qed

section \<open>Witnesses\<close>

definition conn_example6 :: tcp_conn where
  "conn_example6 = conn_zero\<lparr>c_family := AF_INET6, c_local_ip6 := replicate 16 1, c_remote_ip6 := replicate 16 2,
     c_local_port := 40000, c_remote_port := 443\<rparr>"

definition conn_example4 :: tcp_conn where
  "conn_example4 = conn_zero\<lparr>c_family := AF_INET, c_local_ip := 0x0100000A, c_remote_ip := 0x0200000A, c_local_port := 40000, c_remote_port := 80\<rparr>"

lemma examples_ok: "addresses_ok conn_example6" "addresses_ok conn_example4"
  by (simp_all add: addresses_ok_def conn_example6_def conn_example4_def conn_zero_def)

theorem tcp_segment_roundtrip_witness:
  "\<exists>sg. parse_packet (c_remote_ip conn_example6) (Some (c_remote_ip6 conn_example6)) (segment_packet conn_example6 None 0x18 7 9 [1, 2, 3]) = Segment sg \<and>
     sg_payload sg = [1, 2, 3] \<and> sg_seq sg = 7"
  using tcp_segment_roundtrip [OF examples_ok(1), of "[1, 2, 3]" None "0x18" 7 9] by (simp add: WG_TCP_MSS_def)


theorem tcp_segment_size_witness:
  "length (segment_packet conn_example4 None 0x18 7 9 [1, 2, 3]) \<le> WG_DEFAULT_MTU \<and>
   length (segment_packet conn_example6 None 0x18 7 9 (replicate 1361 0)) > WG_DEFAULT_MTU"
proof -
  have "c_family conn_example4 = AF_INET" "c_family conn_example6 = AF_INET6" by (simp_all add: conn_example4_def conn_example6_def)
  moreover have "\<not> flag 0x18 TCPF_SYN" by code_simp
  ultimately show ?thesis
    using tcp_segment_size [OF examples_ok(2), of "[1, 2, 3]" "0x18" None 7 9]
      tcp_segment_size [OF examples_ok(1), of "replicate 1361 0" "0x18" None 7 9]
    by (simp add: WG_TCP_MSS_def Let_def)
qed

end
