(* ===== verification/Tcp_Buf.thy ===== *)
theory Tcp_Buf
  imports Tcp_Wire Fifo
begin

text \<open>
  The two buffers of a TCP connection (\<^verbatim>\<open>src/src/tcpstack.c\<close>): the circular send buffer and the queue
  of out-of-order segments, with the lists they stand for.
\<close>

section \<open>Send buffer\<close>

text \<open>The doubling loop of \<^verbatim>\<open>sendbuf_grow\<close>; it starts from a capacity that is not 0.\<close>

function (sequential) grow_cap :: "nat \<Rightarrow> nat \<Rightarrow> nat" where
  "grow_cap need c = (if c \<noteq> 0 \<and> c < need \<and> c < WG_TCP_SENDBUF_SIZE then grow_cap need (c * 2) else c)"
  by pat_completeness auto
termination by (relation "measure (\<lambda>(need, c). need - c)") auto

declare grow_cap.simps [simp del]

text \<open>\<open>ok\<close> says whether \<^verbatim>\<open>malloc\<close> succeeds; the bytes it does not overwrite are not initialised.\<close>

definition sendbuf_grow :: "bool \<Rightarrow> nat \<Rightarrow> tcp_conn \<Rightarrow> int \<times> tcp_conn" where
  "sendbuf_grow ok need conn =
     (if need \<le> c_sendbuf_cap conn then (0, conn)
      else
        let new_cap = grow_cap need (if c_sendbuf_cap conn \<noteq> 0 then c_sendbuf_cap conn else WG_TCP_SENDBUF_INITIAL_SIZE);
            new_cap = (if new_cap > WG_TCP_SENDBUF_SIZE then WG_TCP_SENDBUF_SIZE else new_cap)
        in if new_cap < need then (-1, conn)
        else if \<not> ok then (-1, conn)
        else
          let nb = zeros new_cap;
              nb = (if c_sendbuf_len conn \<noteq> 0
                    then put 0 (ring_get (c_sendbuf conn) (c_sendbuf_cap conn) (c_sendbuf_head conn) (c_sendbuf_len conn)) nb
                    else nb)
          in (0, conn\<lparr>c_sendbuf := nb, c_sendbuf_cap := new_cap, c_sendbuf_head := 0\<rparr>))"

definition sendbuf_append :: "bytes \<Rightarrow> tcp_conn \<Rightarrow> tcp_conn" where
  "sendbuf_append data conn =
     (let tail = (c_sendbuf_head conn + c_sendbuf_len conn) mod c_sendbuf_cap conn
      in conn\<lparr>c_sendbuf := ring_put (c_sendbuf_cap conn) tail data (c_sendbuf conn), c_sendbuf_len := c_sendbuf_len conn + length data\<rparr>)"

definition sendbuf_copy_out :: "tcp_conn \<Rightarrow> nat \<Rightarrow> nat \<Rightarrow> bytes" where
  "sendbuf_copy_out conn off len =
     ring_get (c_sendbuf conn) (c_sendbuf_cap conn) ((c_sendbuf_head conn + off) mod c_sendbuf_cap conn) len"

definition sendbuf_consume :: "nat \<Rightarrow> tcp_conn \<Rightarrow> tcp_conn" where
  "sendbuf_consume len conn =
     (if len \<ge> c_sendbuf_len conn then conn\<lparr>c_sendbuf_head := 0, c_sendbuf_len := 0\<rparr>
      else conn\<lparr>c_sendbuf_head := (c_sendbuf_head conn + len) mod c_sendbuf_cap conn, c_sendbuf_len := c_sendbuf_len conn - len\<rparr>)"

text \<open>The bytes the send buffer holds, and when its fields fit together.\<close>

definition unacked :: "tcp_conn \<Rightarrow> bytes" where
  "unacked conn = ring (c_sendbuf_cap conn) ((!) (c_sendbuf conn)) (c_sendbuf_head conn) (c_sendbuf_len conn)"

definition sendbuf_inv :: "tcp_conn \<Rightarrow> bool" where
  "sendbuf_inv conn \<longleftrightarrow> 0 < c_sendbuf_cap conn \<and> c_sendbuf_cap conn \<le> WG_TCP_SENDBUF_SIZE \<and> length (c_sendbuf conn) = c_sendbuf_cap conn \<and>
     c_sendbuf_head conn < c_sendbuf_cap conn \<and> c_sendbuf_len conn \<le> c_sendbuf_cap conn"

lemma length_unacked [simp]: "length (unacked conn) = c_sendbuf_len conn"
  by (simp add: unacked_def)

lemma unacked_Nil: "c_sendbuf_len conn = 0 \<Longrightarrow> unacked conn = []"
  by (simp add: unacked_def)

lemma grow_cap_bounds: "c \<noteq> 0 \<Longrightarrow> c \<le> grow_cap need c \<and> (need \<le> grow_cap need c \<or> WG_TCP_SENDBUF_SIZE \<le> grow_cap need c)"
proof (induction need c rule: grow_cap.induct)
  case (1 need c)
  show ?case
  proof (cases "c < need \<and> c < WG_TCP_SENDBUF_SIZE")
    case True
    then have "grow_cap need c = grow_cap need (c * 2)" using 1(2) by (simp add: grow_cap.simps [of need c])
    moreover have "c * 2 \<le> grow_cap need (c * 2) \<and> (need \<le> grow_cap need (c * 2) \<or> WG_TCP_SENDBUF_SIZE \<le> grow_cap need (c * 2))"
      using 1 True by simp
    ultimately show ?thesis by linarith
  next
    case False
    then have "grow_cap need c = c" by (auto simp: grow_cap.simps [of need c])
    then show ?thesis using False by auto
  qed
qed

lemma sendbuf_self: "\<exists>b c h. conn = conn\<lparr>c_sendbuf := b, c_sendbuf_cap := c, c_sendbuf_head := h\<rparr>"
  by (intro exI [of _ "c_sendbuf conn"] exI [of _ "c_sendbuf_cap conn"] exI [of _ "c_sendbuf_head conn"]) simp

lemma sendbuf_grow_spec:
  assumes "sendbuf_inv conn" "need \<le> WG_TCP_SENDBUF_SIZE"
  shows "\<exists>r conn'. sendbuf_grow ok need conn = (r, conn') \<and> (r = 0 \<or> r = -1 \<and> conn' = conn \<and> \<not> ok) \<and> sendbuf_inv conn' \<and>
    unacked conn' = unacked conn \<and> (r = 0 \<longrightarrow> need \<le> c_sendbuf_cap conn') \<and>
    (\<exists>b c h. conn' = conn\<lparr>c_sendbuf := b, c_sendbuf_cap := c, c_sendbuf_head := h\<rparr>)"
proof (cases "need \<le> c_sendbuf_cap conn")
  case True
  then have "sendbuf_grow ok need conn = (0, conn)" by (simp add: sendbuf_grow_def)
  then show ?thesis using True assms(1) sendbuf_self [of conn] by blast
next
  case False
  have i: "0 < c_sendbuf_cap conn" "c_sendbuf_cap conn \<le> WG_TCP_SENDBUF_SIZE" "length (c_sendbuf conn) = c_sendbuf_cap conn"
      "c_sendbuf_head conn < c_sendbuf_cap conn" "c_sendbuf_len conn \<le> c_sendbuf_cap conn"
    using assms(1) by (simp_all add: sendbuf_inv_def)
  define nc where "nc = (if grow_cap need (c_sendbuf_cap conn) > WG_TCP_SENDBUF_SIZE then WG_TCP_SENDBUF_SIZE else grow_cap need (c_sendbuf_cap conn))"
  have nc: "need \<le> nc" "nc \<le> WG_TCP_SENDBUF_SIZE" "c_sendbuf_cap conn \<le> nc"
    using grow_cap_bounds [of "c_sendbuf_cap conn" need] i assms(2) by (auto simp: nc_def)
  define nb where "nb = (if c_sendbuf_len conn \<noteq> 0 then put 0 (unacked conn) (zeros nc) else zeros nc)"
  have g: "ring_get (c_sendbuf conn) (c_sendbuf_cap conn) (c_sendbuf_head conn) (c_sendbuf_len conn) = unacked conn"
    unfolding unacked_def by (rule ring_get_ring [OF i(4,5,3)])
  have nbl: "length nb = nc" "take (c_sendbuf_len conn) nb = unacked conn"
    using nc i unacked_Nil [of conn] by (auto simp: nb_def put_def)
  have r: "sendbuf_grow ok need conn = (if ok then (0, conn\<lparr>c_sendbuf := nb, c_sendbuf_cap := nc, c_sendbuf_head := 0\<rparr>) else (-1, conn))"
    using False i(1) nc(1) by (simp add: sendbuf_grow_def Let_def g nb_def nc_def [symmetric])
  let ?c = "conn\<lparr>c_sendbuf := nb, c_sendbuf_cap := nc, c_sendbuf_head := 0\<rparr>"
  have "ring nc ((!) nb) 0 (c_sendbuf_len conn) = take (c_sendbuf_len conn) nb"
    using nbl(1) nc i by (intro nth_equalityI) (simp_all add: nth_ring)
  then have "unacked ?c = unacked conn" by (simp add: unacked_def [of ?c] nbl(2))
  moreover have "sendbuf_inv ?c" using i nc nbl(1) by (simp add: sendbuf_inv_def)
  ultimately have yes: "ok \<Longrightarrow> ?thesis" unfolding r using nc(1) by fastforce
  have no: "\<not> ok \<Longrightarrow> ?thesis" unfolding r using assms(1) sendbuf_self [of conn] by simp
  show ?thesis using yes no by blast
qed

lemma sendbuf_append_spec:
  assumes "sendbuf_inv conn" "c_sendbuf_len conn + length data \<le> c_sendbuf_cap conn"
  shows "sendbuf_inv (sendbuf_append data conn)" "unacked (sendbuf_append data conn) = unacked conn @ data"
proof -
  have i: "0 < c_sendbuf_cap conn" "length (c_sendbuf conn) = c_sendbuf_cap conn" "c_sendbuf_head conn < c_sendbuf_cap conn"
    using assms(1) by (simp_all add: sendbuf_inv_def)
  have l: "length (ring_put (c_sendbuf_cap conn) ((c_sendbuf_head conn + c_sendbuf_len conn) mod c_sendbuf_cap conn) data (c_sendbuf conn)) = c_sendbuf_cap conn"
    by (rule length_ring_put) (use i assms(2) in simp_all)
  then show "sendbuf_inv (sendbuf_append data conn)" using assms by (simp add: sendbuf_inv_def sendbuf_append_def Let_def)
  show "unacked (sendbuf_append data conn) = unacked conn @ data"
    using ring_put_ring [OF i(3,2) assms(2)] by (simp add: unacked_def sendbuf_append_def Let_def)
qed

lemma sendbuf_copy_out_spec:
  assumes "sendbuf_inv conn" "off + len \<le> c_sendbuf_len conn"
  shows "sendbuf_copy_out conn off len = take len (drop off (unacked conn))"
proof -
  have i: "0 < c_sendbuf_cap conn" "length (c_sendbuf conn) = c_sendbuf_cap conn" "len \<le> c_sendbuf_cap conn"
    using assms by (simp_all add: sendbuf_inv_def)
  have "sendbuf_copy_out conn off len = ring (c_sendbuf_cap conn) ((!) (c_sendbuf conn)) ((c_sendbuf_head conn + off) mod c_sendbuf_cap conn) len"
    unfolding sendbuf_copy_out_def by (rule ring_get_ring) (use i in simp_all)
  then show ?thesis using ring_slice [OF assms(2)] by (simp add: unacked_def)
qed

lemma sendbuf_consume_spec:
  assumes "sendbuf_inv conn"
  shows "sendbuf_inv (sendbuf_consume n conn)" "unacked (sendbuf_consume n conn) = drop n (unacked conn)"
  using assms ring_drop [of n "c_sendbuf_len conn" "c_sendbuf_cap conn" "(!) (c_sendbuf conn)" "c_sendbuf_head conn"]
  by (auto simp: sendbuf_inv_def sendbuf_consume_def unacked_def)

section \<open>Out-of-order queue\<close>

definition tcp_ooo_free :: "tcp_conn \<Rightarrow> tcp_conn" where
  "tcp_ooo_free conn = conn\<lparr>c_rcv_ooo := [], c_rcv_ooo_len := 0\<rparr>"

definition seg_end :: "tcp_ooo_seg \<Rightarrow> u32" where
  "seg_end seg = os_seq seg + of_nat (os_len seg)"

text \<open>The loop that removes or trims the queued segments that begin before \<open>e\<close>; it also gives the
  number of queued bytes that are left.\<close>

fun ooo_absorb :: "u32 \<Rightarrow> tcp_ooo_seg list \<Rightarrow> nat \<Rightarrow> tcp_ooo_seg list \<times> nat" where
  "ooo_absorb e [] n = ([], n)"
| "ooo_absorb e (cur # rest) n =
     (if seq_lt (os_seq cur) e then
        if seq_le (seg_end cur) e then ooo_absorb e rest (n - os_len cur)
        else
          let trim = unat (e - os_seq cur)
          in (cur\<lparr>os_seq := os_seq cur + of_nat trim, os_data := drop trim (os_data cur)\<rparr> # rest, n - trim)
      else (cur # rest, n))"

text \<open>The part of the new segment that the first queued segment behind \<open>start\<close> already covers.\<close>

definition ooo_overlap :: "u32 \<Rightarrow> tcp_ooo_seg list \<Rightarrow> nat" where
  "ooo_overlap start rest =
     (case rest of [] \<Rightarrow> 0
      | seg # _ \<Rightarrow> if seq_le (os_seq seg) start \<and> seq_gt (seg_end seg) start then unat (seg_end seg - start) else 0)"

text \<open>The second half of \<^verbatim>\<open>tcp_ooo_queue\<close>, for data that begins at \<open>start\<close>, not before \<^verbatim>\<open>rcv_nxt\<close>.\<close>

definition ooo_insert :: "bool \<Rightarrow> u32 \<Rightarrow> bytes \<Rightarrow> tcp_conn \<Rightarrow> tcp_conn" where
  "ooo_insert ok start data conn =
     (let before = takeWhile (\<lambda>seg. seq_le (seg_end seg) start) (c_rcv_ooo conn);
          rest = dropWhile (\<lambda>seg. seq_le (seg_end seg) start) (c_rcv_ooo conn);
          trim = ooo_overlap start rest
      in if trim > 0 \<and> trim \<ge> length data then conn
      else
        let start = start + of_nat trim;
            data = drop trim data;
            (rest, n) = ooo_absorb (start + of_nat (length data)) rest (c_rcv_ooo_len conn)
        in if n + length data > WG_TCP_RECV_OOO_SIZE \<or> \<not> ok then conn\<lparr>c_rcv_ooo := before @ rest, c_rcv_ooo_len := n\<rparr>
           else conn\<lparr>c_rcv_ooo := before @ \<lparr>os_seq = start, os_data = data\<rparr> # rest, c_rcv_ooo_len := n + length data\<rparr>)"

definition tcp_ooo_queue :: "bool \<Rightarrow> u32 \<Rightarrow> bytes \<Rightarrow> tcp_conn \<Rightarrow> tcp_conn" where
  "tcp_ooo_queue ok seq data conn =
     (if data = [] then conn
      else if seq_le (seq + of_nat (length data)) (c_rcv_nxt conn) then conn
      else if seq_lt seq (c_rcv_nxt conn)
      then ooo_insert ok (c_rcv_nxt conn) (drop (unat (c_rcv_nxt conn - seq)) data) conn
      else ooo_insert ok seq data conn)"

lemma ooo_insert_cases:
  obtains "ooo_insert ok start data conn = conn"
  | before rest rest' m u where "c_rcv_ooo conn = before @ rest" "u = 0 \<or> u < length data"
    "ooo_absorb (start + of_nat u + of_nat (length (drop u data))) rest (c_rcv_ooo_len conn) = (rest', m)"
    "ooo_insert ok start data conn = conn\<lparr>c_rcv_ooo := before @ rest', c_rcv_ooo_len := m\<rparr> \<or>
     m + length (drop u data) \<le> WG_TCP_RECV_OOO_SIZE \<and>
     ooo_insert ok start data conn = conn\<lparr>c_rcv_ooo := before @ \<lparr>os_seq = start + of_nat u, os_data = drop u data\<rparr> # rest',
       c_rcv_ooo_len := m + length (drop u data)\<rparr>"
proof -
  define before rest where "before = takeWhile (\<lambda>seg. seq_le (seg_end seg) start) (c_rcv_ooo conn)"
    and "rest = dropWhile (\<lambda>seg. seq_le (seg_end seg) start) (c_rcv_ooo conn)"
  define u where "u = ooo_overlap start rest"
  note folds = before_def [symmetric] rest_def [symmetric] u_def [symmetric]
  show ?thesis
  proof (cases "u > 0 \<and> u \<ge> length data")
    case True
    then have "ooo_insert ok start data conn = conn" unfolding ooo_insert_def Let_def folds by (rule if_P)
    then show ?thesis by (rule that(1))
  next
    case False
    obtain rest' m where a: "ooo_absorb (start + of_nat u + of_nat (length (drop u data))) rest (c_rcv_ooo_len conn) = (rest', m)" by fastforce
    have "ooo_insert ok start data conn = (if m + length (drop u data) > WG_TCP_RECV_OOO_SIZE \<or> \<not> ok
        then conn\<lparr>c_rcv_ooo := before @ rest', c_rcv_ooo_len := m\<rparr>
        else conn\<lparr>c_rcv_ooo := before @ \<lparr>os_seq = start + of_nat u, os_data = drop u data\<rparr> # rest', c_rcv_ooo_len := m + length (drop u data)\<rparr>)"
      unfolding ooo_insert_def Let_def folds if_not_P [OF False] a by (simp only: prod.case)
    then show ?thesis using False a by (intro that(2) [of before rest u rest' m]) (auto simp: before_def rest_def)
  qed
qed

section \<open>Sequence numbers as offsets\<close>

text \<open>Below \<open>2 ^ 31\<close>, comparing sequence numbers is comparing the offsets from a common base.\<close>

lemma sint_diff_offsets:
  assumes "x < 2 ^ 31" "y < 2 ^ 31"
  shows "sint ((b + of_nat x) - (b + of_nat y) :: u32) = int x - int y"
proof -
  have "(b + of_nat x) - (b + of_nat y) = (of_int (int x - int y) :: u32)" by simp
  moreover have "signed_take_bit 31 (int x - int y) = int x - int y"
    using assms by (intro signed_take_bit_int_eq_self) simp_all
  ultimately show ?thesis by (simp only: signed_of_int) simp
qed

lemma seq_offsets:
  assumes "x < 2 ^ 31" "y < 2 ^ 31"
  shows "seq_lt (b + of_nat x) (b + of_nat y) \<longleftrightarrow> x < y"
    "seq_le (b + of_nat x) (b + of_nat y) \<longleftrightarrow> x \<le> y"
    "seq_gt (b + of_nat x) (b + of_nat y) \<longleftrightarrow> x > y"
  by (simp_all only: seq_lt_def seq_le_def seq_gt_def sint_diff_offsets [OF assms]) simp_all

lemma diff_offsets:
  assumes "y \<le> x" "x < 2 ^ 32"
  shows "unat ((b + of_nat x) - (b + of_nat y) :: u32) = x - y"
proof -
  have "(b + of_nat x) - (b + of_nat y) = (of_nat (x - y) :: u32)" using assms(1) by (simp add: of_nat_diff)
  then show ?thesis using assms(2) by (simp add: unat_of_nat)
qed

lemma offset_inj:
  assumes "(b + of_nat x :: u32) = b + of_nat y" "x < 2 ^ 32" "y < 2 ^ 32"
  shows "x = y"
proof -
  have "(of_nat x :: u32) = of_nat y" using assms(1) by simp
  then have "unat (of_nat x :: u32) = unat (of_nat y :: u32)" by simp
  then show ?thesis using assms(2,3) by (simp add: unat_of_nat)
qed

section \<open>Queued segments are pieces of the stream\<close>

text \<open>\<open>S\<close> is the byte stream of the remote side and \<open>b\<close> the sequence number of its first byte.\<close>

definition genuine :: "u32 \<Rightarrow> bytes \<Rightarrow> u32 \<Rightarrow> bytes \<Rightarrow> bool" where
  "genuine b S seq data \<longleftrightarrow> (\<exists>off. seq = b + of_nat off \<and> off + length data \<le> length S \<and> data = take (length data) (drop off S))"

definition genuine_queue :: "u32 \<Rightarrow> bytes \<Rightarrow> tcp_ooo_seg list \<Rightarrow> bool" where
  "genuine_queue b S segs \<longleftrightarrow> (\<forall>seg \<in> set segs. genuine b S (os_seq seg) (os_data seg))"

lemma genuine_drop:
  assumes "genuine b S seq data" "t \<le> length data"
  shows "genuine b S (seq + of_nat t) (drop t data)"
proof -
  obtain off where o: "seq = b + of_nat off" "off + length data \<le> length S" "data = take (length data) (drop off S)"
    using assms(1) by (auto simp: genuine_def)
  have "drop t data = take (length data - t) (drop (off + t) S)"
    by (subst o(3)) (simp add: drop_take add.commute)
  then show ?thesis unfolding genuine_def using o(1,2) assms(2) by (intro exI [of _ "off + t"]) simp
qed

lemma genuine_trim:
  assumes g: "genuine b S (os_seq cur) (os_data cur)" and e: "e = b + of_nat x" "x \<le> length S" and S: "length S < 2 ^ 31"
    and c: "seq_lt (os_seq cur) e" "\<not> seq_le (seg_end cur) e"
  shows "unat (e - os_seq cur) \<le> os_len cur"
proof -
  obtain off where o: "os_seq cur = b + of_nat off" "off + os_len cur \<le> length S"
    using g by (auto simp: genuine_def os_len_def)
  have s: "seg_end cur = b + of_nat (off + os_len cur)" by (simp add: seg_end_def o(1))
  have "off < x" "x < off + os_len cur" using c o e S unfolding s o(1) e(1) by (auto simp: seq_offsets simp del: of_nat_add)
  then show ?thesis using diff_offsets [of off x b] e(2) S by (simp add: o(1) e(1))
qed

lemma genuine_absorb:
  assumes "e = b + of_nat x" "x \<le> length S" "length S < 2 ^ 31"
  shows "genuine_queue b S segs \<Longrightarrow> genuine_queue b S (fst (ooo_absorb e segs n))"
proof (induction segs arbitrary: n)
  case (Cons cur rest)
  have g: "genuine b S (os_seq cur) (os_data cur)" "genuine_queue b S rest" using Cons.prems by (simp_all add: genuine_queue_def)
  let ?t = "unat (e - os_seq cur)"
  have t: "os_seq cur + of_nat ?t = e" by simp
  have "genuine b S e (drop ?t (os_data cur))" if "seq_lt (os_seq cur) e" "\<not> seq_le (seg_end cur) e"
    using genuine_drop [OF g(1) genuine_trim [OF g(1) assms that, unfolded os_len_def]] unfolding t .
  then show ?case using Cons.IH [OF g(2)] g Cons.prems by (simp add: genuine_queue_def Let_def)
qed (simp add: genuine_queue_def)

lemma genuine_insert:
  assumes q: "genuine_queue b S (c_rcv_ooo conn)" and S: "length S < 2 ^ 31" and g: "genuine b S start data"
  shows "genuine_queue b S (c_rcv_ooo (ooo_insert ok start data conn))"
proof (cases rule: ooo_insert_cases [of ok start data conn])
  case 1
  then show ?thesis using q by simp
next
  case (2 before rest rest' m u)
  have br: "genuine_queue b S before" "genuine_queue b S rest" using q 2(1) by (simp_all add: genuine_queue_def)
  have g2: "genuine b S (start + of_nat u) (drop u data)" using 2(2) g genuine_drop [OF g] by auto
  then obtain off where o: "start + of_nat u = b + of_nat off" "off + length (drop u data) \<le> length S" by (auto simp: genuine_def)
  have "genuine_queue b S (fst (ooo_absorb (start + of_nat u + of_nat (length (drop u data))) rest (c_rcv_ooo_len conn)))"
    by (rule genuine_absorb [OF _ o(2) S br(2)]) (simp add: o(1) add.assoc)
  then have "genuine_queue b S rest'" by (simp only: 2(3) fst_conv)
  then show ?thesis using 2(4) br(1) g2 by (auto simp: genuine_queue_def)
qed

lemma genuine_queue_insert:
  assumes q: "genuine_queue b S (c_rcv_ooo conn)" and S: "length S < 2 ^ 31"
    and nxt: "c_rcv_nxt conn = b + of_nat n" "n \<le> length S" and g: "genuine b S seq data"
  shows "genuine_queue b S (c_rcv_ooo (tcp_ooo_queue ok seq data conn))"
proof -
  obtain off where o: "seq = b + of_nat off" "off + length data \<le> length S" using g by (auto simp: genuine_def)
  have "genuine b S (c_rcv_nxt conn) (drop (unat (c_rcv_nxt conn - seq)) data)"
    if c: "seq_lt seq (c_rcv_nxt conn)" "\<not> seq_le (seq + of_nat (length data)) (c_rcv_nxt conn)"
  proof -
    have e: "seq + of_nat (length data) = b + of_nat (off + length data)" by (simp add: o(1))
    have "seq_lt (b + of_nat off) (b + of_nat n)" "\<not> seq_le (b + of_nat (off + length data)) (b + of_nat n)"
      using c unfolding e nxt(1) by (simp_all only: o(1) simp_thms)
    then have "off < n" "n < off + length data"
      using seq_offsets(1) [of off n b] seq_offsets(2) [of "off + length data" n b] o(2) nxt(2) S by simp_all
    then have t: "unat (c_rcv_nxt conn - seq) \<le> length data" using diff_offsets [of off n b] nxt S by (simp add: o(1))
    have "seq + of_nat (unat (c_rcv_nxt conn - seq)) = c_rcv_nxt conn" by simp
    then show ?thesis using genuine_drop [OF g t] by (simp only:)
  qed
  then show ?thesis using q g genuine_insert [OF q S] by (simp add: tcp_ooo_queue_def)
qed

section \<open>The queue is bounded and its length field exact\<close>

definition ooo_bytes :: "tcp_ooo_seg list \<Rightarrow> nat" where
  "ooo_bytes segs = sum_list (map os_len segs)"

definition ooo_inv :: "tcp_conn \<Rightarrow> bool" where
  "ooo_inv conn \<longleftrightarrow> c_rcv_ooo_len conn = ooo_bytes (c_rcv_ooo conn) \<and> c_rcv_ooo_len conn \<le> WG_TCP_RECV_OOO_SIZE"

lemma ooo_bytes_simps [simp]: "ooo_bytes [] = 0" "ooo_bytes (seg # segs) = os_len seg + ooo_bytes segs"
  "ooo_bytes (xs @ ys) = ooo_bytes xs + ooo_bytes ys"
  by (simp_all add: ooo_bytes_def)

lemma signed_take_bit_below: "- (2 ^ 32) \<le> k \<Longrightarrow> k < - (2 ^ 31) \<Longrightarrow> signed_take_bit 31 (k::int) = k + 2 ^ 32"
proof -
  assume a: "- (2 ^ 32) \<le> k" "k < - (2 ^ 31)"
  have "signed_take_bit 31 (k + 2 ^ 32) = k + 2 ^ 32" using a by (intro signed_take_bit_int_eq_self) simp_all
  moreover have "take_bit 32 (k + 2 ^ 32) = take_bit 32 k" by (simp add: take_bit_eq_mod)
  then have "signed_take_bit 31 (k + 2 ^ 32) = signed_take_bit 31 k"
    by (simp add: signed_take_bit_eq_iff_take_bit_eq)
  ultimately show ?thesis by simp
qed

text \<open>What is cut off the front of a queued segment is less than the segment, wherever \<open>e\<close> lies.\<close>

lemma absorb_trim:
  assumes "os_len cur < 2 ^ 31" "seq_lt (os_seq cur) e" "\<not> seq_le (seg_end cur) e"
  shows "unat (e - os_seq cur) < os_len cur"
proof -
  define x where "x = unat (e - os_seq cur)"
  have e: "e = os_seq cur + of_nat x" by (simp add: x_def)
  have x: "x < 2 ^ 32" using unat_lt2p [of "e - os_seq cur"] by (simp add: x_def)
  have "sint (os_seq cur - e) = signed_take_bit 31 (- int x)"
    using signed_of_int [where 'b = 32 and 'a = int, of "- int x"] by (simp add: e)
  then have lt: "signed_take_bit 31 (- int x) < 0" using assms(2) by (simp add: seq_lt_def)
  have "seg_end cur - e = of_int (int (os_len cur) - int x)" by (simp add: e seg_end_def)
  then have le: "signed_take_bit 31 (int (os_len cur) - int x) > 0"
    using assms(3) signed_of_int [where 'b = 32 and 'a = int, of "int (os_len cur) - int x"] by (simp add: seq_le_def)
  have "x \<le> 2 ^ 31"
  proof (rule ccontr)
    assume "\<not> x \<le> 2 ^ 31"
    then have "signed_take_bit 31 (- int x) = - int x + 2 ^ 32" using x by (intro signed_take_bit_below) simp_all
    then show False using lt x by simp
  qed
  then have "signed_take_bit 31 (int (os_len cur) - int x) = int (os_len cur) - int x"
    using assms(1) by (intro signed_take_bit_int_eq_self) simp_all
  then have "int x < int (os_len cur)" using le by linarith
  then show ?thesis by (simp only: x_def of_nat_less_iff)
qed

lemma absorb_bytes:
  assumes "ooo_bytes segs < 2 ^ 31" "n = a + ooo_bytes segs" "ooo_absorb e segs n = (segs', n')"
  shows "n' = a + ooo_bytes segs' \<and> ooo_bytes segs' \<le> ooo_bytes segs"
  using assms
proof (induction segs arbitrary: n)
  case (Cons cur rest)
  show ?case
  proof (cases "seq_lt (os_seq cur) e \<and> \<not> seq_le (seg_end cur) e")
    case True
    have "unat (e - os_seq cur) < os_len cur" by (rule absorb_trim) (use True Cons.prems in simp_all)
    then show ?thesis using True Cons.prems by (auto simp: Let_def os_len_def)
  next
    case False
    then show ?thesis using Cons.prems Cons.IH [of "n - os_len cur"] by (auto split: if_splits)
  qed
qed simp

lemma ooo_inv_insert:
  assumes "ooo_inv conn"
  shows "ooo_inv (ooo_insert ok start data conn)"
proof (cases rule: ooo_insert_cases [of ok start data conn])
  case 1
  then show ?thesis using assms by simp
next
  case (2 before rest rest' m u)
  have i: "c_rcv_ooo_len conn = ooo_bytes before + ooo_bytes rest" "c_rcv_ooo_len conn \<le> WG_TCP_RECV_OOO_SIZE"
    using assms 2(1) by (simp_all add: ooo_inv_def)
  then have "m = ooo_bytes before + ooo_bytes rest' \<and> ooo_bytes rest' \<le> ooo_bytes rest"
    by (intro absorb_bytes [OF _ _ 2(3)]) (simp_all add: WG_TCP_RECV_OOO_SIZE_def)
  then show ?thesis using 2(4) i by (auto simp: ooo_inv_def os_len_def)
qed

lemma ooo_inv_queue: "ooo_inv conn \<Longrightarrow> ooo_inv (tcp_ooo_queue ok seq data conn)"
  by (simp add: tcp_ooo_queue_def ooo_inv_insert)

lemma ooo_queue_frame:
  "\<exists>q n. tcp_ooo_queue ok seq data conn = conn\<lparr>c_rcv_ooo := q, c_rcv_ooo_len := n\<rparr>"
proof -
  have self: "\<exists>q n. conn = conn\<lparr>c_rcv_ooo := q, c_rcv_ooo_len := n\<rparr>"
    by (intro exI [of _ "c_rcv_ooo conn"] exI [of _ "c_rcv_ooo_len conn"]) simp
  have "\<exists>q n. ooo_insert ok start data conn = conn\<lparr>c_rcv_ooo := q, c_rcv_ooo_len := n\<rparr>" for start data
    by (cases rule: ooo_insert_cases [of ok start data conn]) (use self in \<open>auto\<close>)
  then show ?thesis using self by (simp add: tcp_ooo_queue_def)
qed

end
