(* ===== verification/Tcp_Stack.thy ===== *)
theory Tcp_Stack
  imports Tcp_Buf
begin

text \<open>
  The userspace TCP stack (\<^verbatim>\<open>src/src/tcpstack.c\<close>): the table of connections, sending and
  retransmission, the life of a connection and the processing of arriving segments.
\<close>

section \<open>State\<close>

record tcp_listener =
  ln_family :: nat
  ln_local_port :: u16
  ln_on_accept :: fptr
  ln_userdata :: nat

text \<open>The callbacks the stack has made, in order: the trace by which the behaviour towards the
  application is stated. No code reads it.\<close>

datatype tcp_event = Connected conn_ref int | Data conn_ref bytes | Closed conn_ref | Writeable conn_ref | Accepted conn_ref

text \<open>The singly linked lists are lists of addresses; \<^verbatim>\<open>flush_tail\<close> is the end of \<open>ts_flush\<close>. \<open>ts_malloc\<close>, \<open>ts_isn\<close>
  (clock readings and the address of the local variable) and \<open>ts_now\<close> come from the environment; \<open>ts_out\<close> is what
  was handed to \<^verbatim>\<open>device_send_ip_packet\<close>.\<close>

record tcpstack =
  ts_local_ip :: u32
  ts_local_ip6 :: "bytes option"
  ts_conns :: "conn_ref list"
  ts_buckets :: "nat \<Rightarrow> conn_ref list"
  ts_listeners :: "tcp_listener list"
  ts_flush :: "conn_ref list"
  ts_flush_check :: bool
  ts_flush_check_initialized :: bool
  ts_flush_check_closing :: bool
  ts_next_port :: u16
  conn_mem :: "conn_ref \<Rightarrow> tcp_conn option"
  ts_brk :: nat
  ts_now :: u64
  ts_malloc :: "nat \<Rightarrow> bool"
  ts_isn :: "nat \<Rightarrow> u64 \<times> u64 \<times> u64"
  ts_out :: "bytes list"
  ts_events :: "tcp_event list"

text \<open>The application behind the function pointers.\<close>

record 'a tcp_app =
  app_connect :: "fptr \<Rightarrow> conn_ref \<Rightarrow> int \<Rightarrow> 'a tcpstack_scheme \<Rightarrow> 'a tcpstack_scheme"
  app_data :: "fptr \<Rightarrow> conn_ref \<Rightarrow> bytes \<Rightarrow> 'a tcpstack_scheme \<Rightarrow> 'a tcpstack_scheme"
  app_close :: "fptr \<Rightarrow> conn_ref \<Rightarrow> 'a tcpstack_scheme \<Rightarrow> 'a tcpstack_scheme"
  app_writeable :: "fptr \<Rightarrow> conn_ref \<Rightarrow> 'a tcpstack_scheme \<Rightarrow> 'a tcpstack_scheme"
  app_accept :: "fptr \<Rightarrow> conn_ref \<Rightarrow> nat \<Rightarrow> 'a tcpstack_scheme \<Rightarrow> 'a tcpstack_scheme"
  app_window :: "fptr \<Rightarrow> conn_ref \<Rightarrow> 'a tcpstack_scheme \<Rightarrow> u64"

definition conn_at :: "'a tcpstack_scheme \<Rightarrow> conn_ref \<Rightarrow> tcp_conn" where
  "conn_at st c = the (conn_mem st c)"

definition upd_conn :: "conn_ref \<Rightarrow> (tcp_conn \<Rightarrow> tcp_conn) \<Rightarrow> 'a tcpstack_scheme \<Rightarrow> 'a tcpstack_scheme" where
  "upd_conn c f st = st\<lparr>conn_mem := (conn_mem st)(c := map_option f (conn_mem st c))\<rparr>"

definition ts_alloc :: "'a tcpstack_scheme \<Rightarrow> bool \<times> 'a tcpstack_scheme" where
  "ts_alloc st = (ts_malloc st 0, st\<lparr>ts_malloc := \<lambda>i. ts_malloc st (i + 1)\<rparr>)"

definition ts_generate_isn :: "'a tcpstack_scheme \<Rightarrow> u32 \<times> 'a tcpstack_scheme" where
  "ts_generate_isn st = (case ts_isn st 0 of (sec, nsec, addr) \<Rightarrow> (generate_isn sec nsec addr, st\<lparr>ts_isn := \<lambda>i. ts_isn st (i + 1)\<rparr>))"

definition ts_event :: "tcp_event \<Rightarrow> 'a tcpstack_scheme \<Rightarrow> 'a tcpstack_scheme" where
  "ts_event e st = st\<lparr>ts_events := ts_events st @ [e]\<rparr>"

text \<open>Calls through the function pointers of a connection.\<close>

definition call_connect :: "'a tcp_app \<Rightarrow> conn_ref \<Rightarrow> int \<Rightarrow> 'a tcpstack_scheme \<Rightarrow> 'a tcpstack_scheme" where
  "call_connect app c status st =
     (case c_on_connect (conn_at st c) of None \<Rightarrow> st | Some f \<Rightarrow> app_connect app f c status (ts_event (Connected c status) st))"

definition call_data :: "'a tcp_app \<Rightarrow> conn_ref \<Rightarrow> bytes \<Rightarrow> 'a tcpstack_scheme \<Rightarrow> 'a tcpstack_scheme" where
  "call_data app c data st =
     (case c_on_data (conn_at st c) of None \<Rightarrow> st | Some f \<Rightarrow> app_data app f c data (ts_event (Data c data) st))"

definition call_close :: "'a tcp_app \<Rightarrow> conn_ref \<Rightarrow> 'a tcpstack_scheme \<Rightarrow> 'a tcpstack_scheme" where
  "call_close app c st =
     (case c_on_close (conn_at st c) of None \<Rightarrow> st | Some f \<Rightarrow> app_close app f c (ts_event (Closed c) st))"

definition call_writeable :: "'a tcp_app \<Rightarrow> conn_ref \<Rightarrow> 'a tcpstack_scheme \<Rightarrow> 'a tcpstack_scheme" where
  "call_writeable app c st =
     (case c_on_writeable (conn_at st c) of None \<Rightarrow> st | Some f \<Rightarrow> app_writeable app f c (ts_event (Writeable c) st))"

text \<open>\<^verbatim>\<open>if (!conn->close_notified) { conn->close_notified = 1; if (conn->on_close) conn->on_close(conn); }\<close>\<close>

definition notify_close :: "'a tcp_app \<Rightarrow> conn_ref \<Rightarrow> 'a tcpstack_scheme \<Rightarrow> 'a tcpstack_scheme" where
  "notify_close app c st =
     (if c_close_notified (conn_at st c) then st
      else call_close app c (upd_conn c (\<lambda>x. x\<lparr>c_close_notified := True\<rparr>) st))"

section \<open>Tables\<close>

definition conn_bucket :: "tcp_conn \<Rightarrow> nat" where
  "conn_bucket conn = conn_hash (c_family conn) (local_addr conn) (remote_addr conn) (c_local_port conn) (c_remote_port conn)"

definition bucket_insert :: "conn_ref \<Rightarrow> 'a tcpstack_scheme \<Rightarrow> 'a tcpstack_scheme" where
  "bucket_insert c st =
     (let b = conn_bucket (conn_at st c) in st\<lparr>ts_buckets := (ts_buckets st)(b := c # ts_buckets st b)\<rparr>)"

definition bucket_remove :: "conn_ref \<Rightarrow> 'a tcpstack_scheme \<Rightarrow> 'a tcpstack_scheme" where
  "bucket_remove c st =
     (let b = conn_bucket (conn_at st c) in st\<lparr>ts_buckets := (ts_buckets st)(b := remove1 c (ts_buckets st b))\<rparr>)"

definition flush_remove :: "conn_ref \<Rightarrow> 'a tcpstack_scheme \<Rightarrow> 'a tcpstack_scheme" where
  "flush_remove c st =
     (if \<not> c_flush_queued (conn_at st c) then st
      else
        let fl = remove1 c (ts_flush st);
            st = (if c \<in> set (ts_flush st)
                  then st\<lparr>ts_flush := fl, ts_flush_check := (if fl = [] then False else ts_flush_check st)\<rparr> else st)
        in upd_conn c (\<lambda>x. x\<lparr>c_flush_queued := False\<rparr>) st)"

definition conn_matches :: "nat \<Rightarrow> bytes \<Rightarrow> bytes \<Rightarrow> u16 \<Rightarrow> u16 \<Rightarrow> tcp_conn \<Rightarrow> bool" where
  "conn_matches family la ra lp rp conn \<longleftrightarrow>
     \<not> c_being_freed conn \<and> c_family conn = family \<and> c_local_port conn = lp \<and> c_remote_port conn = rp \<and>
     (if family = AF_INET6 then c_local_ip6 conn = la \<and> c_remote_ip6 conn = ra
      else c_local_ip conn = of_le la \<and> c_remote_ip conn = of_le ra)"

definition bucket_lookup :: "'a tcpstack_scheme \<Rightarrow> nat \<Rightarrow> bytes \<Rightarrow> bytes \<Rightarrow> u16 \<Rightarrow> u16 \<Rightarrow> conn_ref option" where
  "bucket_lookup st family la ra lp rp =
     find (\<lambda>c. conn_matches family la ra lp rp (conn_at st c)) (ts_buckets st (conn_hash family la ra lp rp))"

definition listener_lookup :: "'a tcpstack_scheme \<Rightarrow> nat \<Rightarrow> u16 \<Rightarrow> tcp_listener option" where
  "listener_lookup st family port = find (\<lambda>l. ln_family l = family \<and> ln_local_port l = port) (ts_listeners st)"

section \<open>Sending\<close>

definition send_segment :: "'a tcp_app \<Rightarrow> conn_ref \<Rightarrow> u8 \<Rightarrow> u32 \<Rightarrow> u32 \<Rightarrow> bytes \<Rightarrow> 'a tcpstack_scheme \<Rightarrow> 'a tcpstack_scheme" where
  "send_segment app c flags seq ack data st =
     (let conn = conn_at st c;
          recv_window = (if flag flags TCPF_SYN then None else map_option (\<lambda>f. app_window app f c st) (c_on_recv_window conn))
      in st\<lparr>ts_out := ts_out st @ [segment_packet conn recv_window flags seq ack data]\<rparr>)"

definition conn_mss :: "tcp_conn \<Rightarrow> nat" where
  "conn_mss conn = (if c_snd_mss conn \<noteq> 0 then unat (c_snd_mss conn) else WG_TCP_MSS)"

lemma conn_mss_pos: "0 < conn_mss conn"
  by (simp add: conn_mss_def WG_TCP_MSS_def unat_gt_0)

text \<open>The loop of \<^verbatim>\<open>tcp_flush_pending\<close>: the offsets and lengths of the segments it sends, from \<open>in_flight\<close> on.\<close>

function (sequential) flush_plan :: "tcp_conn \<Rightarrow> nat \<Rightarrow> (nat \<times> nat) list" where
  "flush_plan conn in_flight =
     (if in_flight < c_sendbuf_len conn then
        let budget = (if unat (c_snd_wnd conn) > in_flight then unat (c_snd_wnd conn) - in_flight else 0)
        in if budget = 0 then []
        else
          let seg_len = min (min (c_sendbuf_len conn - in_flight) (conn_mss conn)) budget
          in if seg_len = 0 then [] else (in_flight, seg_len) # flush_plan conn (in_flight + seg_len)
      else [])"
  by pat_completeness auto
termination by (relation "measure (\<lambda>(conn, in_flight). c_sendbuf_len conn - in_flight)") (auto split: if_splits)

declare flush_plan.simps [simp del]

definition send_plan :: "'a tcp_app \<Rightarrow> conn_ref \<Rightarrow> (nat \<times> nat \<Rightarrow> u8) \<Rightarrow> (nat \<times> nat) list \<Rightarrow> 'a tcpstack_scheme \<Rightarrow> 'a tcpstack_scheme" where
  "send_plan app c fl plan st =
     fold (\<lambda>(off, len) st. send_segment app c (fl (off, len)) (c_snd_una (conn_at st c) + of_nat off) (c_rcv_nxt (conn_at st c))
       (sendbuf_copy_out (conn_at st c) off len) st) plan st"

definition tcp_flush_pending :: "'a tcp_app \<Rightarrow> conn_ref \<Rightarrow> 'a tcpstack_scheme \<Rightarrow> 'a tcpstack_scheme" where
  "tcp_flush_pending app c st =
     (if c_being_freed (conn_at st c) \<or> c_state (conn_at st c) \<noteq> TCPS_ESTABLISHED then st
      else
        let conn = conn_at st c;
            in_flight = unat (c_snd_nxt conn - c_snd_una conn);
            plan = flush_plan conn in_flight;
            st = send_plan app c (\<lambda>_. TCPF_ACK OR TCPF_PSH) plan st;
            in_flight = in_flight + sum_list (map snd plan);
            st = upd_conn c (\<lambda>x. x\<lparr>c_snd_nxt := c_snd_una conn + of_nat in_flight\<rparr>) st
        in if c_sendbuf_len conn > 0 \<and> \<not> uv_is_active (c_retransmit_timer conn)
           then upd_conn c (\<lambda>x. x\<lparr>c_retransmit_count := 0,
                  c_retransmit_timer := uv_timer_start (ts_now st) WG_TCP_RETRANSMIT_MS (c_retransmit_timer x)\<rparr>) st
           else st)"

definition flush_check_cb :: "'a tcp_app \<Rightarrow> 'a tcpstack_scheme \<Rightarrow> 'a tcpstack_scheme" where
  "flush_check_cb app st =
     fold (\<lambda>c st. let st = upd_conn c (\<lambda>x. x\<lparr>c_flush_queued := False\<rparr>) st
                  in if c_being_freed (conn_at st c) then st else tcp_flush_pending app c st)
       (ts_flush st) (st\<lparr>ts_flush := [], ts_flush_check := False\<rparr>)"

definition schedule_flush :: "conn_ref \<Rightarrow> 'a tcpstack_scheme \<Rightarrow> 'a tcpstack_scheme" where
  "schedule_flush c st =
     (if c_being_freed (conn_at st c) \<or> c_flush_queued (conn_at st c) then st
      else
        let st = upd_conn c (\<lambda>x. x\<lparr>c_flush_queued := True\<rparr>) st
        in st\<lparr>ts_flush := ts_flush st @ [c], ts_flush_check := True\<rparr>)"

definition tcp_ack_now :: "'a tcp_app \<Rightarrow> conn_ref \<Rightarrow> 'a tcpstack_scheme \<Rightarrow> 'a tcpstack_scheme" where
  "tcp_ack_now app c st =
     (if c_being_freed (conn_at st c) then st
      else
        let st = (if c_ack_timer_initialized (conn_at st c)
                  then upd_conn c (\<lambda>x. x\<lparr>c_ack_timer := uv_timer_stop (c_ack_timer x)\<rparr>) st else st);
            st = upd_conn c (\<lambda>x. x\<lparr>c_delayed_ack_segments := 0, c_delayed_ack_bytes := 0\<rparr>) st
        in send_segment app c TCPF_ACK (c_snd_nxt (conn_at st c)) (c_rcv_nxt (conn_at st c)) [] st)"

definition tcp_ack_data :: "'a tcp_app \<Rightarrow> conn_ref \<Rightarrow> nat \<Rightarrow> bool \<Rightarrow> 'a tcpstack_scheme \<Rightarrow> 'a tcpstack_scheme" where
  "tcp_ack_data app c len immediate st =
     (if c_being_freed (conn_at st c) then st
      else if immediate then tcp_ack_now app c st
      else
        let st = upd_conn c (\<lambda>x. x\<lparr>c_delayed_ack_segments := c_delayed_ack_segments x + 1,
                   c_delayed_ack_bytes := c_delayed_ack_bytes x + of_nat len\<rparr>) st;
            conn = conn_at st c
        in if unat (c_delayed_ack_segments conn) \<ge> WG_TCP_DELAYED_ACK_SEGMENTS \<or>
              unat (c_delayed_ack_bytes conn) \<ge> WG_TCP_MSS * WG_TCP_DELAYED_ACK_SEGMENTS
           then tcp_ack_now app c st
           else if c_ack_timer_initialized conn \<and> \<not> uv_is_active (c_ack_timer conn)
           then upd_conn c (\<lambda>x. x\<lparr>c_ack_timer := uv_timer_start (ts_now st) WG_TCP_DELAYED_ACK_MS (c_ack_timer x)\<rparr>) st
           else st)"

definition delayed_ack_cb :: "'a tcp_app \<Rightarrow> conn_ref \<Rightarrow> 'a tcpstack_scheme \<Rightarrow> 'a tcpstack_scheme" where
  "delayed_ack_cb app c st =
     (if c_being_freed (conn_at st c) \<or> c_delayed_ack_segments (conn_at st c) = 0 then st else tcp_ack_now app c st)"

section \<open>The end of a connection\<close>

definition conn_free :: "conn_ref \<Rightarrow> 'a tcpstack_scheme \<Rightarrow> 'a tcpstack_scheme" where
  "conn_free c st = st\<lparr>conn_mem := (conn_mem st)(c := None)\<rparr>"

definition timer_close_cb :: "'a tcp_app \<Rightarrow> conn_ref \<Rightarrow> 'a tcpstack_scheme \<Rightarrow> 'a tcpstack_scheme" where
  "timer_close_cb app c st =
     (let n = c_close_pending (conn_at st c) - 1;
          st = upd_conn c (\<lambda>x. x\<lparr>c_close_pending := n\<rparr>) st
      in if n > 0 then st else conn_free c (notify_close app c st))"

definition close_timers :: "tcp_conn \<Rightarrow> tcp_conn" where
  "close_timers x =
     (let x = (if c_timer_initialized x
               then x\<lparr>c_retransmit_timer := uv_close (uv_timer_stop (c_retransmit_timer x)), c_close_pending := c_close_pending x + 1\<rparr> else x)
      in if c_ack_timer_initialized x
         then x\<lparr>c_ack_timer := uv_close (uv_timer_stop (c_ack_timer x)), c_close_pending := c_close_pending x + 1\<rparr> else x)"

definition conn_destroy :: "'a tcp_app \<Rightarrow> conn_ref \<Rightarrow> 'a tcpstack_scheme \<Rightarrow> 'a tcpstack_scheme" where
  "conn_destroy app c st =
     (if c_being_freed (conn_at st c) then st
      else
        let st = upd_conn c (\<lambda>x. x\<lparr>c_being_freed := True\<rparr>) st;
            st = st\<lparr>ts_conns := remove1 c (ts_conns st)\<rparr>;
            st = bucket_remove c st;
            st = flush_remove c st;
            st = upd_conn c close_timers st
        in if c_close_pending (conn_at st c) = 0 then conn_free c (notify_close app c st) else st)"

section \<open>Retransmission\<close>

function (sequential) retransmit_plan :: "tcp_conn \<Rightarrow> nat \<Rightarrow> (nat \<times> nat) list" where
  "retransmit_plan conn off =
     (if off < c_sendbuf_len conn then
        let seg = min (c_sendbuf_len conn - off) (conn_mss conn)
        in (off, seg) # retransmit_plan conn (off + seg)
      else [])"
  by pat_completeness auto
termination
proof (relation "measure (\<lambda>(conn, off). c_sendbuf_len conn - off)")
  fix conn off seg
  assume "off < c_sendbuf_len conn" "seg = min (c_sendbuf_len conn - off) (conn_mss conn)"
  then have "0 < seg" "off < c_sendbuf_len conn" using conn_mss_pos [of conn] by auto
  then show "((conn, off + seg), conn, off) \<in> measure (\<lambda>(conn, off). c_sendbuf_len conn - off)" by simp
qed simp

declare retransmit_plan.simps [simp del]

definition finishing :: "tcp_conn \<Rightarrow> bool" where
  "finishing conn \<longleftrightarrow> c_state conn = TCPS_FIN_WAIT \<or> c_state conn = TCPS_LAST_ACK"

definition retransmit_cb :: "'a tcp_app \<Rightarrow> conn_ref \<Rightarrow> 'a tcpstack_scheme \<Rightarrow> 'a tcpstack_scheme" where
  "retransmit_cb app c st =
     (if c_being_freed (conn_at st c) then st
      else
        let st = upd_conn c (\<lambda>x. x\<lparr>c_retransmit_count := c_retransmit_count x + 1\<rparr>) st;
            conn = conn_at st c
        in if c_retransmit_count conn > WG_TCP_MAX_RETRANSMIT then
             let st = upd_conn c (\<lambda>x. x\<lparr>c_state := TCPS_CLOSED\<rparr>) st;
                 st = (if c_close_notified conn then st
                       else
                         let st = upd_conn c (\<lambda>x. x\<lparr>c_close_notified := True\<rparr>) st
                         in if c_on_connect conn \<noteq> None \<and> c_snd_una conn = c_iss conn then call_connect app c (-1) st
                            else call_close app c st)
             in conn_destroy app c st
           else
             let st = (if c_state conn = TCPS_SYN_SENT then send_segment app c TCPF_SYN (c_iss conn) 0 [] st
                       else if c_state conn = TCPS_SYN_RECEIVED then send_segment app c (TCPF_SYN OR TCPF_ACK) (c_iss conn) (c_rcv_nxt conn) [] st
                       else if c_state conn = TCPS_ESTABLISHED \<or> c_state conn = TCPS_CLOSE_WAIT \<or> finishing conn then
                         if c_sendbuf_len conn > 0 then
                           send_plan app c (\<lambda>(off, len). if off + len = c_sendbuf_len conn \<and> finishing conn
                             then TCPF_ACK OR TCPF_PSH OR TCPF_FIN else TCPF_ACK OR TCPF_PSH) (retransmit_plan conn 0) st
                         else if finishing conn then send_segment app c (TCPF_FIN OR TCPF_ACK) (c_snd_nxt conn - 1) (c_rcv_nxt conn) [] st
                         else st
                       else st);
                 backoff = push_bit (c_retransmit_count conn) WG_TCP_RETRANSMIT_MS;
                 backoff = (if backoff > WG_TCP_RETRANSMIT_MAX_MS then WG_TCP_RETRANSMIT_MAX_MS else backoff)
             in upd_conn c (\<lambda>x. x\<lparr>c_retransmit_timer := uv_timer_start (ts_now st) backoff (c_retransmit_timer x)\<rparr>) st)"

section \<open>Public interface\<close>

definition tcpstack_init :: "u32 \<Rightarrow> bytes option \<Rightarrow> 'a tcpstack_scheme \<Rightarrow> 'a tcpstack_scheme" where
  "tcpstack_init local_ip local_ip6 st =
     st\<lparr>ts_local_ip := local_ip, ts_local_ip6 := local_ip6, ts_conns := [], ts_buckets := \<lambda>_. [], ts_listeners := [],
        ts_flush := [], ts_flush_check := False, ts_flush_check_initialized := True, ts_flush_check_closing := False, ts_next_port := 32768\<rparr>"

definition tcpstack_free :: "'a tcp_app \<Rightarrow> 'a tcpstack_scheme \<Rightarrow> 'a tcpstack_scheme" where
  "tcpstack_free app st =
     (let st = (if ts_flush_check_initialized st \<and> \<not> ts_flush_check_closing st
                then st\<lparr>ts_flush_check := False, ts_flush_check_closing := True\<rparr> else st);
          st = fold (conn_destroy app) (ts_conns st) st
      in st\<lparr>ts_conns := [], ts_listeners := []\<rparr>)"

text \<open>\<open>on_accept\<close> is the function pointer, \<^verbatim>\<open>None\<close> when null.\<close>

definition tcpstack_listen :: "nat \<Rightarrow> u16 \<Rightarrow> fptr option \<Rightarrow> nat \<Rightarrow> 'a tcpstack_scheme \<Rightarrow> int \<times> 'a tcpstack_scheme" where
  "tcpstack_listen family port on_accept ud st =
     (case on_accept of None \<Rightarrow> (-1, st)
      | Some f \<Rightarrow>
        if port = 0 then (-1, st)
        else if family \<noteq> AF_INET \<and> family \<noteq> AF_INET6 then (-1, st)
        else if family = AF_INET6 \<and> ts_local_ip6 st = None then (-1, st)
        else if listener_lookup st family port \<noteq> None then (-1, st)
        else case ts_alloc st of
          (False, st) \<Rightarrow> (-1, st)
        | (True, st) \<Rightarrow>
          (0, st\<lparr>ts_listeners := \<lparr>ln_family = family, ln_local_port = port, ln_on_accept = f, ln_userdata = ud\<rparr> # ts_listeners st\<rparr>))"

text \<open>Both timers of a new connection, its place in the list and its bucket.\<close>

definition conn_link :: "conn_ref \<Rightarrow> 'a tcpstack_scheme \<Rightarrow> 'a tcpstack_scheme" where
  "conn_link c st =
     (let st = upd_conn c (\<lambda>x. x\<lparr>c_retransmit_timer := uv_timer_init, c_timer_initialized := True,
                 c_ack_timer := uv_timer_init, c_ack_timer_initialized := True\<rparr>) st
      in bucket_insert c (st\<lparr>ts_conns := c # ts_conns st\<rparr>))"

definition start_retransmit_timer :: "conn_ref \<Rightarrow> 'a tcpstack_scheme \<Rightarrow> 'a tcpstack_scheme" where
  "start_retransmit_timer c st =
     upd_conn c (\<lambda>x. x\<lparr>c_retransmit_timer := uv_timer_start (ts_now st) WG_TCP_RETRANSMIT_MS (c_retransmit_timer x)\<rparr>) st"

definition tcpstack_connect ::
  "'a tcp_app \<Rightarrow> nat \<Rightarrow> bytes \<Rightarrow> u16 \<Rightarrow> fptr option \<Rightarrow> fptr option \<Rightarrow> fptr option \<Rightarrow> nat \<Rightarrow> 'a tcpstack_scheme \<Rightarrow> conn_ref option \<times> 'a tcpstack_scheme" where
  "tcpstack_connect app family remote port on_connect on_data on_close ud st =
     (case ts_alloc st of
        (False, st) \<Rightarrow> (None, st)
      | (True, st) \<Rightarrow>
        if family = AF_INET6 \<and> ts_local_ip6 st = None then (None, st)
        else if family \<noteq> AF_INET6 \<and> family \<noteq> AF_INET then (None, st)
        else
          let conn = conn_zero\<lparr>c_family := family\<rparr>;
              conn = (if family = AF_INET6 then conn\<lparr>c_local_ip6 := the (ts_local_ip6 st), c_remote_ip6 := remote\<rparr>
                      else conn\<lparr>c_local_ip := ts_local_ip st, c_remote_ip := of_le remote\<rparr>);
              conn = conn\<lparr>c_remote_port := port, c_on_connect := on_connect, c_on_data := on_data, c_on_close := on_close, c_userdata := ud,
                c_snd_wnd := of_nat WG_TCP_MSS, c_snd_mss := of_nat WG_TCP_MSS, c_snd_wscale := 0, c_sendbuf_cap := WG_TCP_SENDBUF_INITIAL_SIZE\<rparr>
          in case ts_alloc st of
            (False, st) \<Rightarrow> (None, st)
          | (True, st) \<Rightarrow>
            let conn = conn\<lparr>c_sendbuf := zeros WG_TCP_SENDBUF_INITIAL_SIZE, c_local_port := ts_next_port st\<rparr>;
                np = ts_next_port st + 1;
                st = st\<lparr>ts_next_port := (if np \<ge> 60000 then 32768 else np)\<rparr>;
                (isn, st) = ts_generate_isn st;
                conn = conn\<lparr>c_iss := isn, c_snd_una := isn, c_snd_nxt := isn\<rparr>;
                c = ts_brk st;
                st = conn_link c (st\<lparr>conn_mem := (conn_mem st)(c \<mapsto> conn), ts_brk := c + 1\<rparr>);
                st = upd_conn c (\<lambda>x. x\<lparr>c_state := TCPS_SYN_SENT\<rparr>) st;
                st = send_segment app c TCPF_SYN isn 0 [] st;
                st = upd_conn c (\<lambda>x. x\<lparr>c_snd_nxt := isn + 1\<rparr>) st
            in (Some c, start_retransmit_timer c st))"

definition tcp_send_available :: "tcp_conn \<Rightarrow> nat" where
  "tcp_send_available conn =
     (if c_being_freed conn \<or> c_state conn \<noteq> TCPS_ESTABLISHED then 0 else WG_TCP_SENDBUF_SIZE - c_sendbuf_len conn)"

definition tcp_set_recv_window_cb :: "conn_ref \<Rightarrow> fptr option \<Rightarrow> 'a tcpstack_scheme \<Rightarrow> 'a tcpstack_scheme" where
  "tcp_set_recv_window_cb c cb st =
     (if c_being_freed (conn_at st c) then st else upd_conn c (\<lambda>x. x\<lparr>c_on_recv_window := cb\<rparr>) st)"

definition tcp_update_recv_window :: "'a tcp_app \<Rightarrow> conn_ref \<Rightarrow> 'a tcpstack_scheme \<Rightarrow> 'a tcpstack_scheme" where
  "tcp_update_recv_window app c st =
     (if c_being_freed (conn_at st c) \<or> c_state (conn_at st c) \<noteq> TCPS_ESTABLISHED then st else tcp_ack_now app c st)"

definition tcp_send :: "'a tcp_app \<Rightarrow> conn_ref \<Rightarrow> bytes \<Rightarrow> 'a tcpstack_scheme \<Rightarrow> int \<times> 'a tcpstack_scheme" where
  "tcp_send app c data st =
     (if c_being_freed (conn_at st c) then (-1, st)
      else if c_state (conn_at st c) \<noteq> TCPS_ESTABLISHED then (-1, st)
      else if data = [] then (0, st)
      else if length data > 2 ^ 32 - 1 then (-1, st)
      else if c_sendbuf_len (conn_at st c) + length data > WG_TCP_SENDBUF_SIZE then (-1, st)
      else
        let need = c_sendbuf_len (conn_at st c) + length data;
            (ok, st) = (if need \<le> c_sendbuf_cap (conn_at st c) then (True, st) else ts_alloc st);
            (ret, conn) = sendbuf_grow ok need (conn_at st c)
        in if ret < 0 then (-1, st)
           else
             let st = upd_conn c (\<lambda>_. sendbuf_append data conn) st
             in (0, if length data \<ge> WG_TCP_MSS \<or> c_sendbuf_len (conn_at st c) \<ge> WG_TCP_MSS then tcp_flush_pending app c st
                    else schedule_flush c st))"

text \<open>\<^verbatim>\<open>FIN\<close> with the current numbers, then \<^verbatim>\<open>snd_nxt++\<close>.\<close>

definition send_fin :: "'a tcp_app \<Rightarrow> conn_ref \<Rightarrow> 'a tcpstack_scheme \<Rightarrow> 'a tcpstack_scheme" where
  "send_fin app c st =
     upd_conn c (\<lambda>x. x\<lparr>c_snd_nxt := c_snd_nxt x + 1\<rparr>)
       (send_segment app c (TCPF_FIN OR TCPF_ACK) (c_snd_nxt (conn_at st c)) (c_rcv_nxt (conn_at st c)) [] st)"

definition tcp_close :: "'a tcp_app \<Rightarrow> conn_ref \<Rightarrow> 'a tcpstack_scheme \<Rightarrow> 'a tcpstack_scheme" where
  "tcp_close app c st =
     (if c_being_freed (conn_at st c) then st
      else if c_state (conn_at st c) = TCPS_ESTABLISHED then send_fin app c (upd_conn c (\<lambda>x. x\<lparr>c_state := TCPS_FIN_WAIT\<rparr>) st)
      else if c_state (conn_at st c) = TCPS_CLOSE_WAIT then send_fin app c (upd_conn c (\<lambda>x. x\<lparr>c_state := TCPS_LAST_ACK\<rparr>) st)
      else if c_state (conn_at st c) = TCPS_SYN_SENT then
        let st = upd_conn c (\<lambda>x. x\<lparr>c_state := TCPS_CLOSED\<rparr>) st
        in conn_destroy app c (send_segment app c TCPF_RST (c_snd_nxt (conn_at st c)) 0 [] st)
      else conn_destroy app c st)"

section \<open>Arriving segments\<close>

text \<open>The loop of \<^verbatim>\<open>tcp_ooo_drain\<close>. Each round takes one segment off the queue, and callbacks cannot add one (only
  \<^verbatim>\<open>tcpstack_input\<close> does), so the length of the queue bounds the rounds.\<close>

fun ooo_drain_loop :: "'a tcp_app \<Rightarrow> conn_ref \<Rightarrow> nat \<Rightarrow> nat \<Rightarrow> 'a tcpstack_scheme \<Rightarrow> nat \<times> 'a tcpstack_scheme" where
  "ooo_drain_loop app c 0 got st = (got, st)"
| "ooo_drain_loop app c (Suc fuel) got st =
     (if c_being_freed (conn_at st c) then (got, st)
      else case c_rcv_ooo (conn_at st c) of
        [] \<Rightarrow> (got, st)
      | seg # rest \<Rightarrow>
        if os_seq seg \<noteq> c_rcv_nxt (conn_at st c) then (got, st)
        else
          let st = upd_conn c (\<lambda>x. x\<lparr>c_rcv_ooo := rest, c_rcv_ooo_len := c_rcv_ooo_len x - os_len seg,
                     c_rcv_nxt := c_rcv_nxt x + of_nat (os_len seg)\<rparr>) st
          in ooo_drain_loop app c fuel (got + os_len seg) (call_data app c (os_data seg) st))"

definition tcp_ooo_drain :: "'a tcp_app \<Rightarrow> conn_ref \<Rightarrow> 'a tcpstack_scheme \<Rightarrow> nat \<times> 'a tcpstack_scheme" where
  "tcp_ooo_drain app c st = ooo_drain_loop app c (length (c_rcv_ooo (conn_at st c))) 0 st"

text \<open>In-order data: \<^verbatim>\<open>rcv_nxt += len; on_data(...); drained = tcp_ooo_drain(conn); tcp_ack_data(...)\<close>.\<close>

definition accept_data :: "'a tcp_app \<Rightarrow> conn_ref \<Rightarrow> bytes \<Rightarrow> bool \<Rightarrow> 'a tcpstack_scheme \<Rightarrow> 'a tcpstack_scheme" where
  "accept_data app c payload immediate st =
     (let st = upd_conn c (\<lambda>x. x\<lparr>c_rcv_nxt := c_rcv_nxt x + of_nat (length payload)\<rparr>) st;
          st = call_data app c payload st;
          (got, st) = tcp_ooo_drain app c st
      in tcp_ack_data app c (length payload + got) (immediate \<or> got > 0) st)"

text \<open>The delivery of the payload in the established state.\<close>

definition receive_payload :: "'a tcp_app \<Rightarrow> conn_ref \<Rightarrow> u32 \<Rightarrow> bytes \<Rightarrow> 'a tcpstack_scheme \<Rightarrow> 'a tcpstack_scheme" where
  "receive_payload app c seq payload st =
     (let rcv_nxt = c_rcv_nxt (conn_at st c)
      in if payload = [] then st
      else if seq = rcv_nxt then accept_data app c payload False st
      else if seq_gt seq rcv_nxt then
        let (ok, st) = ts_alloc st
        in tcp_ack_now app c (upd_conn c (tcp_ooo_queue ok seq payload) st)
      else if seq_lt seq rcv_nxt then
        let already = unat (rcv_nxt - seq)
        in if already < length payload then accept_data app c (drop already payload) True st
           else tcp_ack_now app c st
      else st)"

definition stop_retransmit :: "conn_ref \<Rightarrow> 'a tcpstack_scheme \<Rightarrow> 'a tcpstack_scheme" where
  "stop_retransmit c st =
     upd_conn c (\<lambda>x. x\<lparr>c_retransmit_timer := uv_timer_stop (c_retransmit_timer x), c_retransmit_count := 0\<rparr>) st"

text \<open>\<^verbatim>\<open>seq_gt(ack, snd_una) && seq_le(ack, snd_nxt)\<close>\<close>

definition ack_advances :: "tcp_conn \<Rightarrow> u32 \<Rightarrow> bool" where
  "ack_advances conn ack \<longleftrightarrow> seq_gt ack (c_snd_una conn) \<and> seq_le ack (c_snd_nxt conn)"

definition established_ack :: "'a tcp_app \<Rightarrow> conn_ref \<Rightarrow> u32 \<Rightarrow> 'a tcpstack_scheme \<Rightarrow> 'a tcpstack_scheme" where
  "established_ack app c ack st =
     (if \<not> ack_advances (conn_at st c) ack then st
      else
        let st = upd_conn c (\<lambda>x. let acked = unat (ack - c_snd_una x);
                                     x = (if acked \<le> c_sendbuf_len x then sendbuf_consume acked x else x)
                                 in x\<lparr>c_snd_una := ack\<rparr>) st;
            st = (if c_sendbuf_len (conn_at st c) = 0 then stop_retransmit c st else tcp_flush_pending app c st)
        in if c_sendbuf_len (conn_at st c) < WG_TCP_SENDBUF_SIZE div 4 then call_writeable app c st else st)"

definition established_fin :: "'a tcp_app \<Rightarrow> conn_ref \<Rightarrow> 'a tcpstack_scheme \<Rightarrow> 'a tcpstack_scheme" where
  "established_fin app c st =
     (let st = upd_conn c (\<lambda>x. x\<lparr>c_rcv_nxt := c_rcv_nxt x + 1, c_state := TCPS_CLOSE_WAIT\<rparr>) st;
          st = send_segment app c TCPF_ACK (c_snd_nxt (conn_at st c)) (c_rcv_nxt (conn_at st c)) [] st;
          st = notify_close app c st;
          st = upd_conn c (\<lambda>x. x\<lparr>c_state := TCPS_LAST_ACK\<rparr>) st
      in send_fin app c st)"

definition scaled_window :: "tcp_conn \<Rightarrow> u16 \<Rightarrow> u32" where
  "scaled_window conn w = push_bit (unat (c_snd_wscale conn)) (ucast w)"

text \<open>A SYN to a listening port, when no connection matches.\<close>

definition accept_syn :: "'a tcp_app \<Rightarrow> tcp_listener \<Rightarrow> tcp_segment \<Rightarrow> 'a tcpstack_scheme \<Rightarrow> 'a tcpstack_scheme" where
  "accept_syn app l sg st =
     (case ts_alloc st of
        (False, st) \<Rightarrow> st
      | (True, st) \<Rightarrow>
        let conn = conn_zero\<lparr>c_family := sg_family sg\<rparr>;
            conn = (if sg_family sg = AF_INET6 then conn\<lparr>c_local_ip6 := sg_dst sg, c_remote_ip6 := sg_src sg\<rparr>
                    else conn\<lparr>c_local_ip := of_le (sg_dst sg), c_remote_ip := of_le (sg_src sg)\<rparr>);
            conn = conn\<lparr>c_local_port := sg_dst_port sg, c_remote_port := sg_src_port sg\<rparr>;
            (isn, st) = ts_generate_isn st;
            conn = conn\<lparr>c_iss := isn, c_snd_una := isn, c_snd_nxt := isn + 1, c_rcv_nxt := sg_seq sg + 1,
              c_snd_wnd := ucast (sg_window sg), c_snd_mss := of_nat WG_TCP_MSS, c_sendbuf_cap := WG_TCP_SENDBUF_INITIAL_SIZE\<rparr>
        in case ts_alloc st of
          (False, st) \<Rightarrow> st
        | (True, st) \<Rightarrow>
          let conn = parse_syn_options (sg_options sg) (conn\<lparr>c_sendbuf := zeros WG_TCP_SENDBUF_INITIAL_SIZE\<rparr>);
              conn = conn\<lparr>c_snd_wnd := scaled_window conn (sg_window sg)\<rparr>;
              c = ts_brk st;
              st = conn_link c (st\<lparr>conn_mem := (conn_mem st)(c \<mapsto> conn), ts_brk := c + 1\<rparr>);
              st = upd_conn c (\<lambda>x. x\<lparr>c_state := TCPS_SYN_RECEIVED\<rparr>) st;
              st = send_segment app c (TCPF_SYN OR TCPF_ACK) isn (c_rcv_nxt conn) [] st;
              st = start_retransmit_timer c st
          in app_accept app (ln_on_accept l) c (ln_userdata l) (ts_event (Accepted c) st))"

text \<open>The state machine, for the connection the segment belongs to.\<close>

definition conn_segment :: "'a tcp_app \<Rightarrow> conn_ref \<Rightarrow> tcp_segment \<Rightarrow> 'a tcpstack_scheme \<Rightarrow> 'a tcpstack_scheme" where
  "conn_segment app c sg st =
     (let flags = sg_flags sg; seq = sg_seq sg; ack = sg_ack sg; payload = sg_payload sg
      in if flag flags TCPF_RST then conn_destroy app c (upd_conn c (\<lambda>x. x\<lparr>c_state := TCPS_CLOSED\<rparr>) st)
      else
        let st = upd_conn c (\<lambda>x. x\<lparr>c_snd_wnd := (if c_state x = TCPS_SYN_SENT then ucast (sg_window sg) else scaled_window x (sg_window sg))\<rparr>) st;
            conn = conn_at st c
        in case c_state conn of
          TCPS_SYN_RECEIVED \<Rightarrow>
            if flag flags TCPF_ACK \<and> ack = c_snd_nxt conn then
              let st = stop_retransmit c (upd_conn c (\<lambda>x. x\<lparr>c_snd_una := ack, c_state := TCPS_ESTABLISHED\<rparr>) st)
              in if payload \<noteq> [] \<and> seq = c_rcv_nxt conn then accept_data app c payload False st else st
            else st
        | TCPS_SYN_SENT \<Rightarrow>
            if flag flags TCPF_SYN \<and> flag flags TCPF_ACK then
              if \<not> seq_gt ack (c_snd_una conn) \<or> seq_gt ack (c_snd_nxt conn) then st
              else
                let st = stop_retransmit c (upd_conn c (\<lambda>x. x\<lparr>c_snd_una := ack, c_rcv_nxt := seq + 1, c_state := TCPS_ESTABLISHED\<rparr>) st);
                    st = upd_conn c (\<lambda>x. let x = parse_syn_options (sg_options sg) x in x\<lparr>c_snd_wnd := scaled_window x (sg_window sg)\<rparr>) st
                in call_connect app c 0 (tcp_ack_now app c st)
            else st
        | TCPS_ESTABLISHED \<Rightarrow>
            let st = (if flag flags TCPF_ACK then established_ack app c ack st else st);
                st = receive_payload app c seq payload st
            in if flag flags TCPF_FIN then established_fin app c st else st
        | TCPS_FIN_WAIT \<Rightarrow>
            let st = (if flag flags TCPF_ACK \<and> ack_advances conn ack then
                        let st = upd_conn c (\<lambda>x. x\<lparr>c_snd_una := ack\<rparr>) st
                        in if ack = c_snd_nxt conn then stop_retransmit c st else st
                      else st)
            in if flag flags TCPF_FIN then
                 let st = upd_conn c (\<lambda>x. x\<lparr>c_rcv_nxt := c_rcv_nxt x + 1\<rparr>) st;
                     st = send_segment app c TCPF_ACK (c_snd_nxt (conn_at st c)) (c_rcv_nxt (conn_at st c)) [] st
                 in conn_destroy app c (upd_conn c (\<lambda>x. x\<lparr>c_state := TCPS_CLOSED\<rparr>) st)
               else st
        | TCPS_LAST_ACK \<Rightarrow>
            if flag flags TCPF_ACK \<and> ack = c_snd_nxt conn then
              conn_destroy app c (upd_conn c (\<lambda>x. x\<lparr>c_retransmit_timer := uv_timer_stop (c_retransmit_timer x), c_state := TCPS_CLOSED\<rparr>) st)
            else st
        | _ \<Rightarrow> st)"

definition segment_arrives :: "'a tcp_app \<Rightarrow> tcp_segment \<Rightarrow> 'a tcpstack_scheme \<Rightarrow> 'a tcpstack_scheme" where
  "segment_arrives app sg st =
     (case bucket_lookup st (sg_family sg) (sg_dst sg) (sg_src sg) (sg_dst_port sg) (sg_src_port sg) of
        None \<Rightarrow>
          (case listener_lookup st (sg_family sg) (sg_dst_port sg) of
             None \<Rightarrow> st
           | Some l \<Rightarrow> if \<not> flag (sg_flags sg) TCPF_SYN \<or> flag (sg_flags sg) TCPF_ACK then st else accept_syn app l sg st)
      | Some c \<Rightarrow> conn_segment app c sg st)"

text \<open>\<^verbatim>\<open>None\<close> stands for the read behind the packet, after which nothing is known.\<close>

definition tcpstack_input :: "'a tcp_app \<Rightarrow> 'a tcpstack_scheme \<Rightarrow> bytes \<Rightarrow> 'a tcpstack_scheme option" where
  "tcpstack_input app st ip_pkt =
     (case parse_packet (ts_local_ip st) (ts_local_ip6 st) ip_pkt of
        Drop \<Rightarrow> Some st
      | Overread \<Rightarrow> None
      | Segment sg \<Rightarrow> Some (segment_arrives app sg st))"

end
