(* ===== verification/Tcp_Reassembly.thy ===== *)
theory Tcp_Reassembly
  imports Tcp_Stack
begin

text \<open>
  The receive side of the TCP stack: whatever order the segments of a stream arrive in, with gaps,
  overlaps and duplicates, the application is given a prefix of the stream.
\<close>

section \<open>What the receive side consists of\<close>

definition rcv_view :: "tcp_conn \<Rightarrow> u32 \<times> tcp_ooo_seg list \<times> nat \<times> bool \<times> bool" where
  "rcv_view x = (c_rcv_nxt x, c_rcv_ooo x, c_rcv_ooo_len x, c_on_data x = None, c_timer_initialized x)"

text \<open>\<open>x'\<close> has the receive side of \<open>x\<close> and has not gone back to the state before the first segment.\<close>

definition rcv_same :: "tcp_conn \<Rightarrow> tcp_conn \<Rightarrow> bool" where
  "rcv_same x x' \<longleftrightarrow> rcv_view x' = rcv_view x \<and> (c_state x' = TCPS_SYN_SENT \<longrightarrow> c_state x = TCPS_SYN_SENT)"

lemmas rcv_defs = rcv_same_def rcv_view_def

lemma rcv_same_refl [simp]: "rcv_same x x"
  by (simp add: rcv_same_def)

lemma rcv_same_trans: "rcv_same x y \<Longrightarrow> rcv_same y z \<Longrightarrow> rcv_same x z"
  by (simp add: rcv_same_def)

fun data_event :: "conn_ref \<Rightarrow> tcp_event \<Rightarrow> bytes" where
  "data_event c (Data c' d) = (if c' = c then d else [])"
| "data_event c _ = []"

definition delivered :: "conn_ref \<Rightarrow> 'a tcpstack_scheme \<Rightarrow> bytes" where
  "delivered c st = concat (map (data_event c) (ts_events st))"

text \<open>\<open>keeps_rcv c st st'\<close>: the receive side of \<open>c\<close> is the same in both states, and nothing was delivered to it.\<close>

definition keeps_rcv :: "conn_ref \<Rightarrow> 'a tcpstack_scheme \<Rightarrow> 'a tcpstack_scheme \<Rightarrow> bool" where
  "keeps_rcv c st st' \<longleftrightarrow> (\<forall>x. conn_mem st c = Some x \<longrightarrow> (\<exists>x'. conn_mem st' c = Some x' \<and> rcv_same x x')) \<and>
     delivered c st' = delivered c st"

text \<open>Applications whose callbacks leave the receive side alone, as those made of \<^verbatim>\<open>tcp_send\<close>, \<^verbatim>\<open>tcp_close\<close> and the
  other calls of the interface do (lemmas below).\<close>

definition polite :: "'a tcp_app \<Rightarrow> conn_ref \<Rightarrow> bool" where
  "polite app c \<longleftrightarrow> (\<forall>f d s e st. conn_mem st c \<noteq> None \<and> c_timer_initialized (conn_at st c) \<longrightarrow>
     keeps_rcv c st (app_connect app f d s st) \<and> (\<forall>data. keeps_rcv c st (app_data app f d data st)) \<and>
     keeps_rcv c st (app_close app f d st) \<and> keeps_rcv c st (app_writeable app f d st) \<and> keeps_rcv c st (app_accept app f d e st))"

lemma keeps_rcv_refl [simp]: "keeps_rcv c st st"
  by (simp add: keeps_rcv_def)

lemma keeps_rcv_trans: "keeps_rcv c a b \<Longrightarrow> keeps_rcv c b d \<Longrightarrow> keeps_rcv c a d"
  unfolding keeps_rcv_def by (metis rcv_same_trans)

lemma keeps_rcv_upd: "(\<And>x. rcv_same x (f x)) \<Longrightarrow> keeps_rcv c st (upd_conn d f st)"
  by (auto simp: keeps_rcv_def upd_conn_def delivered_def)

lemma keeps_rcv_same: "conn_mem st' = conn_mem st \<Longrightarrow> ts_events st' = ts_events st \<Longrightarrow> keeps_rcv c st st'"
  by (simp add: keeps_rcv_def delivered_def)

lemma conn_mem_upd [simp]: "conn_mem (upd_conn c f st) d = (if d = c then map_option f (conn_mem st c) else conn_mem st d)"
  by (simp add: upd_conn_def)

lemma upd_conn_frame [simp]: "ts_events (upd_conn c f st) = ts_events st" "ts_now (upd_conn c f st) = ts_now st"
  "ts_out (upd_conn c f st) = ts_out st"
  by (simp_all add: upd_conn_def)

lemma conn_at_eq: "conn_mem st c = Some x \<Longrightarrow> conn_at st c = x"
  by (simp add: conn_at_def)

lemma send_segment_frame [simp]: "conn_mem (send_segment app c fl s a d st) = conn_mem st" "ts_events (send_segment app c fl s a d st) = ts_events st"
  "ts_now (send_segment app c fl s a d st) = ts_now st"
  by (simp_all add: send_segment_def Let_def)

lemma keeps_rcv_send: "keeps_rcv c st (send_segment app d fl s a data st)"
  by (simp add: keeps_rcv_same)

lemma send_plan_frame [simp]: "conn_mem (send_plan app c fl plan st) = conn_mem st" "ts_events (send_plan app c fl plan st) = ts_events st"
  "ts_now (send_plan app c fl plan st) = ts_now st"
  unfolding send_plan_def by (induction plan arbitrary: st) (auto split: prod.splits)

lemma keeps_rcv_flush: "keeps_rcv c st (tcp_flush_pending app d st)"
proof -
  let ?s = "send_plan app d (\<lambda>_. TCPF_ACK OR TCPF_PSH) (flush_plan (conn_at st d) (unat (c_snd_nxt (conn_at st d) - c_snd_una (conn_at st d)))) st"
  have a: "keeps_rcv c st (upd_conn d f ?s)" if "\<And>x. rcv_same x (f x)" for f
    by (rule keeps_rcv_trans [OF keeps_rcv_same keeps_rcv_upd [OF that]]) simp_all
  have b: "keeps_rcv c st (upd_conn d g (upd_conn d f ?s))"
    if "\<And>x. rcv_same x (f x)" "\<And>x. rcv_same x (g x)" for f g
    by (rule keeps_rcv_trans [OF a [OF that(1)] keeps_rcv_upd [OF that(2)]])
  show ?thesis
    unfolding tcp_flush_pending_def Let_def by (simp add: a b rcv_defs)
qed

lemma keeps_rcv_ack_now: "keeps_rcv c st (tcp_ack_now app d st)"
proof -
  have a: "keeps_rcv c st (send_segment app d fl s k [] (upd_conn d f E))"
    if "keeps_rcv c st E" "\<And>x. rcv_same x (f x)" for f E fl s k
    by (rule keeps_rcv_trans [OF keeps_rcv_trans [OF that(1) keeps_rcv_upd [OF that(2)]] keeps_rcv_send])
  show ?thesis
    unfolding tcp_ack_now_def Let_def by (simp add: a keeps_rcv_upd rcv_defs)
qed

lemma keeps_rcv_ack_data: "keeps_rcv c st (tcp_ack_data app d n imm st)"
proof -
  let ?u = "upd_conn d (\<lambda>x. x\<lparr>c_delayed_ack_segments := c_delayed_ack_segments x + 1, c_delayed_ack_bytes := c_delayed_ack_bytes x + of_nat n\<rparr>) st"
  have u: "keeps_rcv c st ?u" by (rule keeps_rcv_upd) (simp add: rcv_defs)
  have t: "keeps_rcv c st (upd_conn d (\<lambda>x. x\<lparr>c_ack_timer := g x\<rparr>) ?u)" for g
    by (rule keeps_rcv_trans [OF u keeps_rcv_upd]) (simp add: rcv_defs)
  show ?thesis
    unfolding tcp_ack_data_def Let_def by (simp add: u t keeps_rcv_ack_now keeps_rcv_trans [OF u keeps_rcv_ack_now])
qed

lemma keeps_rcv_stop: "keeps_rcv c st (stop_retransmit d st)"
  unfolding stop_retransmit_def by (rule keeps_rcv_upd) (simp add: rcv_defs)

lemma keeps_rcv_event: "\<not> (\<exists>x. e = Data c x) \<Longrightarrow> keeps_rcv c st (ts_event e st)"
  by (cases e) (auto simp: keeps_rcv_def ts_event_def delivered_def)

section \<open>Callbacks\<close>

definition alive :: "conn_ref \<Rightarrow> 'a tcpstack_scheme \<Rightarrow> bool" where
  "alive c st \<longleftrightarrow> (\<exists>x. conn_mem st c = Some x \<and> c_timer_initialized x)"

lemma keeps_alive: "keeps_rcv c st st' \<Longrightarrow> alive c st \<Longrightarrow> alive c st'"
  by (fastforce simp: keeps_rcv_def alive_def rcv_defs)

lemma politeD:
  assumes "polite app c" "alive c st"
  shows "keeps_rcv c st (app_connect app f d s st)" "keeps_rcv c st (app_data app f d data st)"
    "keeps_rcv c st (app_close app f d st)" "keeps_rcv c st (app_writeable app f d st)" "keeps_rcv c st (app_accept app f d e st)"
  using assms unfolding polite_def alive_def conn_at_def by fastforce+

lemma keeps_then: "keeps_rcv c st a \<Longrightarrow> alive c st \<Longrightarrow> (alive c a \<Longrightarrow> keeps_rcv c a b) \<Longrightarrow> keeps_rcv c st b"
  using keeps_alive keeps_rcv_trans by blast

lemma keeps_rcv_calls:
  assumes "polite app c" "alive c st"
  shows "keeps_rcv c st (call_connect app d s st)" "keeps_rcv c st (call_close app d st)" "keeps_rcv c st (call_writeable app d st)"
    "keeps_rcv c st (notify_close app d st)"
proof -
  have cl: "keeps_rcv c st (call_close app d st)" if "alive c st" for st
    unfolding call_close_def using keeps_then [OF keeps_rcv_event that politeD(3) [OF assms(1)]] by (auto split: option.splits)
  show "keeps_rcv c st (call_close app d st)" by (rule cl [OF assms(2)])
  show "keeps_rcv c st (call_connect app d s st)" "keeps_rcv c st (call_writeable app d st)"
    unfolding call_connect_def call_writeable_def
    using keeps_then [OF keeps_rcv_event assms(2) politeD(1) [OF assms(1)]] keeps_then [OF keeps_rcv_event assms(2) politeD(4) [OF assms(1)]]
    by (auto split: option.splits)
  show "keeps_rcv c st (notify_close app d st)"
    unfolding notify_close_def using keeps_then [OF keeps_rcv_upd assms(2) cl] by (simp add: rcv_defs)
qed

lemma rcv_view_close_timers: "rcv_same x (close_timers x)" "c_timer_initialized x \<Longrightarrow> c_close_pending (close_timers x) > 0"
  by (simp_all add: close_timers_def rcv_defs Let_def)

lemma bucket_frame [simp]: "conn_mem (bucket_remove c st) = conn_mem st" "ts_events (bucket_remove c st) = ts_events st"
  "conn_mem (bucket_insert c st) = conn_mem st" "ts_events (bucket_insert c st) = ts_events st"
  by (simp_all add: bucket_remove_def bucket_insert_def Let_def)

lemma keeps_rcv_flush_remove: "keeps_rcv c st (flush_remove d st)"
proof -
  have "keeps_rcv c st (upd_conn d (\<lambda>x. x\<lparr>c_flush_queued := False\<rparr>) E)" if "conn_mem E = conn_mem st" "ts_events E = ts_events st" for E
    by (rule keeps_rcv_trans [OF keeps_rcv_same [OF that] keeps_rcv_upd]) (simp add: rcv_defs)
  then show ?thesis by (simp add: flush_remove_def Let_def)
qed

text \<open>Up to the point where the connection may be freed at once.\<close>

definition unlink :: "conn_ref \<Rightarrow> 'a tcpstack_scheme \<Rightarrow> 'a tcpstack_scheme" where
  "unlink d st =
     (let st = upd_conn d (\<lambda>x. x\<lparr>c_being_freed := True\<rparr>) st; st = st\<lparr>ts_conns := remove1 d (ts_conns st)\<rparr>
      in upd_conn d close_timers (flush_remove d (bucket_remove d st)))"

lemma conn_destroy_unlink:
  "conn_destroy app d st = (if c_being_freed (conn_at st d) then st
     else if c_close_pending (conn_at (unlink d st) d) = 0 then conn_free d (notify_close app d (unlink d st)) else unlink d st)"
  by (simp add: conn_destroy_def unlink_def Let_def)

lemma keeps_rcv_unlink: "keeps_rcv c st (unlink d st)"
proof -
  have "keeps_rcv c st (bucket_remove d ((upd_conn d (\<lambda>x. x\<lparr>c_being_freed := True\<rparr>) st)\<lparr>ts_conns := l\<rparr>))" for l
    by (rule keeps_rcv_trans [OF keeps_rcv_upd [of "\<lambda>x. x\<lparr>c_being_freed := True\<rparr>"] keeps_rcv_same]) (simp_all add: rcv_defs)
  then show ?thesis
    unfolding unlink_def Let_def
    by (rule keeps_rcv_trans [OF keeps_rcv_trans [OF _ keeps_rcv_flush_remove] keeps_rcv_upd]) (rule rcv_view_close_timers)
qed

lemma conn_mem_unlink: "conn_mem st d = Some x \<Longrightarrow> \<exists>y. conn_mem (unlink d st) d = Some (close_timers y) \<and> c_timer_initialized y = c_timer_initialized x"
  by (auto simp: unlink_def Let_def flush_remove_def)

lemma keeps_rcv_destroy:
  assumes "polite app c" "alive c st"
  shows "keeps_rcv c st (conn_destroy app d st)"
proof -
  have a: "alive c (unlink d st)" by (rule keeps_alive [OF keeps_rcv_unlink assms(2)])
  have "keeps_rcv c st (conn_free d (notify_close app d (unlink d st)))" if "c_close_pending (conn_at (unlink d st) d) = 0"
  proof -
    have "d \<noteq> c"
    proof
      assume "d = c"
      then obtain x where x: "conn_mem st d = Some x" "c_timer_initialized x" using assms(2) by (auto simp: alive_def)
      from conn_mem_unlink [OF x(1)] x(2) that show False using rcv_view_close_timers(2) by (fastforce simp: conn_at_def)
    qed
    then have "keeps_rcv c E (conn_free d E)" for E by (simp add: keeps_rcv_def conn_free_def delivered_def)
    then show ?thesis
      by (rule keeps_rcv_trans [OF keeps_rcv_trans [OF keeps_rcv_unlink keeps_rcv_calls(4) [OF assms(1) a]]])
  qed
  then show ?thesis by (simp add: conn_destroy_unlink keeps_rcv_unlink)
qed

section \<open>The interface leaves the receive side alone\<close>

lemma keeps_rcv_alloc: "keeps_rcv c st (snd (ts_alloc st))"
  by (rule keeps_rcv_same) (simp_all add: ts_alloc_def)

lemma rcv_view_sendbuf:
  "rcv_same x (snd (sendbuf_grow ok need x))" "rcv_same y x \<Longrightarrow> rcv_same y (sendbuf_append data x)" "rcv_same x (sendbuf_consume n x)"
  by (simp_all add: rcv_defs sendbuf_grow_def sendbuf_append_def sendbuf_consume_def Let_def)

lemma keeps_rcv_replace:
  assumes "conn_mem E d = conn_mem st d" "rcv_same (conn_at st d) y" "keeps_rcv c st E"
  shows "keeps_rcv c st (upd_conn d (\<lambda>_. y) E)"
  using assms by (auto simp: keeps_rcv_def conn_at_def delivered_def)

lemma tcp_send_keeps_rcv: "keeps_rcv c st (snd (tcp_send app d data st))"
proof (rule postD [of "\<lambda>r. keeps_rcv c st (snd r)"])
  let ?need = "c_sendbuf_len (conn_at st d) + length data"
  let ?E = "snd (if ?need \<le> c_sendbuf_cap (conn_at st d) then (True, st) else ts_alloc st)"
  have E: "keeps_rcv c st ?E" "conn_mem ?E = conn_mem st" by (simp_all add: keeps_rcv_alloc) (simp add: ts_alloc_def)
  have U: "keeps_rcv c st (upd_conn d (\<lambda>_. sendbuf_append data y) ?E)" if "y = snd (sendbuf_grow ok n (conn_at ?E d))" for y ok n
    by (rule keeps_rcv_replace) (use E that in \<open>simp_all add: rcv_view_sendbuf conn_at_def\<close>)
  have F: "keeps_rcv c X (schedule_flush d X)" for X :: "'a tcpstack_scheme"
    unfolding schedule_flush_def Let_def
    using keeps_rcv_trans [OF keeps_rcv_upd [of "\<lambda>x. x\<lparr>c_flush_queued := True\<rparr>" c X d] keeps_rcv_same] by (simp add: rcv_defs)
  have G: "keeps_rcv c st (tcp_flush_pending app d X)" "keeps_rcv c st (schedule_flush d X)" if "keeps_rcv c st X" for X
    by (rule keeps_rcv_trans [OF that keeps_rcv_flush], rule keeps_rcv_trans [OF that F])
  show "post (\<lambda>r. keeps_rcv c st (snd r)) (tcp_send app d data st)"
    unfolding tcp_send_def post_def
    using E(1) U G
    by (auto simp: Let_def split: prod.splits if_splits) (metis fst_conv snd_conv)+
qed

lemma tcp_close_keeps_rcv:
  assumes "polite app c" "alive c st"
  shows "keeps_rcv c st (tcp_close app d st)"
proof -
  have f: "keeps_rcv c X (send_fin app d X)" for X
    unfolding send_fin_def by (rule keeps_rcv_trans [OF keeps_rcv_send keeps_rcv_upd]) (simp add: rcv_defs)
  have u: "keeps_rcv c st (upd_conn d (\<lambda>x. x\<lparr>c_state := s\<rparr>) st)" if "s \<noteq> TCPS_SYN_SENT" for s
    using that by (intro keeps_rcv_upd) (simp add: rcv_defs)
  have r: "keeps_rcv c st (conn_destroy app d (send_segment app d fl q a [] (upd_conn d (\<lambda>x. x\<lparr>c_state := TCPS_CLOSED\<rparr>) st)))" for fl q a
    by (rule keeps_then [OF keeps_rcv_trans [OF u keeps_rcv_send] assms(2) keeps_rcv_destroy [OF assms(1)]]) simp
  show ?thesis
    unfolding tcp_close_def Let_def
    using keeps_rcv_trans [OF u f] keeps_rcv_destroy [OF assms] r by simp
qed

section \<open>Reassembly\<close>

text \<open>The application has been given the first \<open>n\<close> bytes of the stream \<open>S\<close>, and the queue holds pieces of it.\<close>

definition rx :: "u32 \<Rightarrow> bytes \<Rightarrow> conn_ref \<Rightarrow> nat \<Rightarrow> 'a tcpstack_scheme \<Rightarrow> bool" where
  "rx b S c n st \<longleftrightarrow> (\<exists>x. conn_mem st c = Some x \<and> c_rcv_nxt x = b + of_nat n \<and> n \<le> length S \<and> genuine_queue b S (c_rcv_ooo x) \<and>
     c_on_data x \<noteq> None \<and> c_state x \<noteq> TCPS_SYN_SENT \<and> c_timer_initialized x \<and> delivered c st = take n S)"

lemma rx_alive: "rx b S c n st \<Longrightarrow> alive c st"
  by (auto simp: rx_def alive_def)

lemma rx_keeps: "rx b S c n st \<Longrightarrow> keeps_rcv c st st' \<Longrightarrow> rx b S c n st'"
  by (fastforce simp: rx_def keeps_rcv_def rcv_defs)

text \<open>Advancing \<^verbatim>\<open>rcv_nxt\<close> over genuine data and handing it to the application.\<close>

lemma rx_accept:
  assumes app: "polite app c" and r: "rx b S c n st" and x: "conn_mem st c = Some x"
    and g: "genuine b S (b + of_nat n) data" and S: "length S < 2 ^ 31"
    and f: "c_rcv_nxt (f x) = b + of_nat n + of_nat (length data)" "genuine_queue b S (c_rcv_ooo (f x))"
      "c_on_data (f x) = c_on_data x" "c_state (f x) = c_state x" "c_timer_initialized (f x) = c_timer_initialized x"
  shows "rx b S c (n + length data) (call_data app c data (upd_conn c f st))"
proof -
  obtain off where o: "b + of_nat n = b + of_nat off" "off + length data \<le> length S" "data = take (length data) (drop off S)"
    using g by (auto simp: genuine_def)
  have n: "n \<le> length S" "delivered c st = take n S" "c_on_data x \<noteq> None" "c_state x \<noteq> TCPS_SYN_SENT" "c_timer_initialized x"
    using r x by (auto simp: rx_def)
  have "off = n" using offset_inj [OF o(1)] o(2) n(1) S by simp
  then have d: "take n S @ data = take (n + length data) S" "n + length data \<le> length S" using o(2,3) by (simp_all add: take_add)
  obtain h where h: "c_on_data x = Some h" using n(3) by blast
  let ?E = "ts_event (Data c data) (upd_conn c f st)"
  have c: "call_data app c data (upd_conn c f st) = app_data app h c data ?E"
    using x h f(3) by (simp add: call_data_def conn_at_def)
  have "rx b S c (n + length data) ?E"
    using x f n d h by (auto simp: rx_def ts_event_def delivered_def)
  then show ?thesis unfolding c by (rule rx_keeps) (rule politeD(2) [OF app rx_alive], fact)
qed

lemma rx_drain_loop:
  assumes "polite app c" "length S < 2 ^ 31"
  shows "rx b S c n st \<Longrightarrow> \<exists>n' \<ge> n. rx b S c n' (snd (ooo_drain_loop app c fuel got st))"
proof (induction fuel arbitrary: n got st)
  case (Suc fuel)
  obtain x where x: "conn_mem st c = Some x" "c_rcv_nxt x = b + of_nat n" "genuine_queue b S (c_rcv_ooo x)"
    using Suc.prems by (auto simp: rx_def)
  have c: "conn_at st c = x" using x(1) by (rule conn_at_eq)
  show ?case
  proof (cases "c_being_freed x \<or> c_rcv_ooo x = [] \<or> os_seq (hd (c_rcv_ooo x)) \<noteq> c_rcv_nxt x")
    case True
    then show ?thesis using Suc.prems by (auto simp: c split: list.splits)
  next
    case False
    then obtain seg rest where q: "c_rcv_ooo x = seg # rest" "os_seq seg = c_rcv_nxt x" by (cases "c_rcv_ooo x") auto
    let ?f = "\<lambda>x. x\<lparr>c_rcv_ooo := rest, c_rcv_ooo_len := c_rcv_ooo_len x - os_len seg, c_rcv_nxt := c_rcv_nxt x + of_nat (os_len seg)\<rparr>"
    have "rx b S c (n + length (os_data seg)) (call_data app c (os_data seg) (upd_conn c ?f st))"
      by (rule rx_accept [OF assms(1) Suc.prems x(1) _ assms(2)]) (use x q in \<open>auto simp: genuine_queue_def os_len_def\<close>)
    from Suc.IH [OF this, of "got + os_len seg"] obtain n' where "n + length (os_data seg) \<le> n'"
      "rx b S c n' (snd (ooo_drain_loop app c fuel (got + os_len seg) (call_data app c (os_data seg) (upd_conn c ?f st))))" by blast
    then show ?thesis using False q by (intro exI [of _ n']) (simp add: c Let_def)
  qed
qed auto

lemma rx_accept_data:
  assumes "polite app c" "length S < 2 ^ 31" "rx b S c n st" "genuine b S (b + of_nat n) data"
  shows "\<exists>n' \<ge> n + length data. rx b S c n' (accept_data app c data imm st)"
proof -
  obtain x where x: "conn_mem st c = Some x" "c_rcv_nxt x = b + of_nat n" "genuine_queue b S (c_rcv_ooo x)"
    using assms(3) by (auto simp: rx_def)
  let ?D = "call_data app c data (upd_conn c (\<lambda>x. x\<lparr>c_rcv_nxt := c_rcv_nxt x + of_nat (length data)\<rparr>) st)"
  have D: "rx b S c (n + length data) ?D"
    by (rule rx_accept [OF assms(1,3) x(1) assms(4,2)]) (use x in simp_all)
  obtain n' where n: "n + length data \<le> n'" "rx b S c n' (snd (tcp_ooo_drain app c ?D))"
    using rx_drain_loop [OF assms(1,2) D] unfolding tcp_ooo_drain_def by blast
  then have "rx b S c n' (tcp_ack_data app c m i (snd (tcp_ooo_drain app c ?D)))" for m i
    by (blast intro: rx_keeps keeps_rcv_ack_data)
  then show ?thesis using n(1) unfolding accept_data_def Let_def by (auto split: prod.splits)
qed

lemma rx_receive_payload:
  assumes "polite app c" "length S < 2 ^ 31" "rx b S c n st"
    and seq: "seq = b + of_nat off" "off + length payload \<le> length S" "payload = take (length payload) (drop off S)"
  shows "\<exists>n' \<ge> n. rx b S c n' (receive_payload app c seq payload st) \<and> (off \<le> n \<longrightarrow> off + length payload \<le> n')"
proof -
  obtain x where x: "conn_mem st c = Some x" "c_rcv_nxt x = b + of_nat n" "n \<le> length S" "genuine_queue b S (c_rcv_ooo x)"
    using assms(3) by (auto simp: rx_def)
  have c: "c_rcv_nxt (conn_at st c) = b + of_nat n" using x by (simp add: conn_at_eq)
  have g: "genuine b S seq payload" using seq by (auto simp: genuine_def)
  have lt: "off < 2 ^ 31" "n < 2 ^ 31" using assms(2) seq(2) x(3) by simp_all
  note cmp = seq_offsets [OF lt, of b]
  consider "payload = []" | "payload \<noteq> []" "off = n" | "payload \<noteq> []" "n < off" | "payload \<noteq> []" "off < n" by linarith
  then show ?thesis
  proof cases
    case 1
    then show ?thesis using assms(3) by (auto simp: receive_payload_def)
  next
    case 2
    obtain n' where "n + length payload \<le> n'" "rx b S c n' (accept_data app c payload False st)"
      using rx_accept_data [OF assms(1-3), of payload False] g 2(2) seq(1) by auto
    then show ?thesis using 2 c seq(1) by (intro exI [of _ n']) (simp add: receive_payload_def Let_def)
  next
    case 3
    then have neq: "seq \<noteq> b + of_nat n" using offset_inj [of b off n] lt seq(1) by auto
    have "rx b S c n (upd_conn c (tcp_ooo_queue ok seq payload) (snd (ts_alloc st)))" for ok
    proof -
      have gq: "genuine_queue b S (c_rcv_ooo (tcp_ooo_queue ok seq payload x))" by (rule genuine_queue_insert [OF x(4) assms(2) x(2,3) g])
      obtain q m where q: "tcp_ooo_queue ok seq payload x = x\<lparr>c_rcv_ooo := q, c_rcv_ooo_len := m\<rparr>" using ooo_queue_frame by blast
      show ?thesis using assms(3) x(1) gq unfolding rx_def by (auto simp: q ts_alloc_def delivered_def)
    qed
    then have "rx b S c n (tcp_ack_now app c (upd_conn c (tcp_ooo_queue ok seq payload) (snd (ts_alloc st))))" for ok
      by (rule rx_keeps [OF _ keeps_rcv_ack_now])
    then show ?thesis using 3 neq cmp(3) seq(1) c by (auto simp: receive_payload_def Let_def split: prod.splits)
  next
    case 4
    then have neq: "seq \<noteq> b + of_nat n" using offset_inj [of b off n] lt seq(1) by auto
    have gt: "\<not> seq_gt seq (b + of_nat n)" "seq_lt seq (b + of_nat n)" using 4 cmp(1,3) seq(1) by simp_all
    have al: "unat (b + of_nat n - seq) = n - off" using diff_offsets [of off n b] 4 lt seq(1) by simp
    have k: "rx b S c n (tcp_ack_now app c st)" by (rule rx_keeps [OF assms(3) keeps_rcv_ack_now])
    show ?thesis
    proof (cases "n - off < length payload")
      case True
      have "genuine b S (seq + of_nat (n - off)) (drop (n - off) payload)" by (rule genuine_drop [OF g]) (use True in simp)
      moreover have "seq + of_nat (n - off) = b + of_nat n" using 4 seq(1) by (simp add: of_nat_diff)
      ultimately have "genuine b S (b + of_nat n) (drop (n - off) payload)" by (simp only:)
      from rx_accept_data [OF assms(1-3) this, of True] obtain n' where
        "n' \<ge> n + length (drop (n - off) payload)" "rx b S c n' (accept_data app c (drop (n - off) payload) True st)" by blast
      moreover have "off + length payload = n + length (drop (n - off) payload)" using True 4 by simp
      ultimately show ?thesis using True 4 neq gt al c by (intro exI [of _ n']) (simp add: receive_payload_def Let_def)
    next
      case False
      then have "off + length payload \<le> n" using 4 by linarith
      then show ?thesis using False 4 neq gt al c k by (intro exI [of _ n]) (simp add: receive_payload_def Let_def)
    qed
  qed
qed

lemma keeps_rcv_established_ack:
  assumes "polite app c" "alive c st"
  shows "keeps_rcv c st (established_ack app d ack st)"
proof -
  let ?f = "\<lambda>x. let acked = unat (ack - c_snd_una x); x = (if acked \<le> c_sendbuf_len x then sendbuf_consume acked x else x) in x\<lparr>c_snd_una := ack\<rparr>"
  have a: "keeps_rcv c st (upd_conn d ?f st)"
    by (rule keeps_rcv_upd) (simp add: rcv_defs Let_def sendbuf_consume_def)
  have b: "keeps_rcv c st (if q then stop_retransmit d (upd_conn d ?f st) else tcp_flush_pending app d (upd_conn d ?f st))" for q
    using keeps_rcv_trans [OF a keeps_rcv_stop] keeps_rcv_trans [OF a keeps_rcv_flush] by simp
  have "keeps_rcv c st (call_writeable app d E)" if "keeps_rcv c st E" for E
    by (rule keeps_then [OF that assms(2) keeps_rcv_calls(3) [OF assms(1)]])
  then show ?thesis using b unfolding established_ack_def Let_def by simp
qed

text \<open>Every segment without \<^verbatim>\<open>FIN\<close>, in every state of the connection after the handshake began.\<close>

lemma rx_conn_segment:
  assumes "polite app c" "length S < 2 ^ 31" "rx b S c n st" "\<not> flag (sg_flags sg) TCPF_FIN"
    and "sg_payload sg = [] \<or> genuine b S (sg_seq sg) (sg_payload sg)"
  shows "\<exists>n' \<ge> n. rx b S c n' (conn_segment app c sg st)"
proof (cases "flag (sg_flags sg) TCPF_RST")
  case True
  have "keeps_rcv c st (upd_conn c (\<lambda>x. x\<lparr>c_state := TCPS_CLOSED\<rparr>) st)" by (rule keeps_rcv_upd) (simp add: rcv_defs)
  then have "keeps_rcv c st (conn_destroy app c (upd_conn c (\<lambda>x. x\<lparr>c_state := TCPS_CLOSED\<rparr>) st))"
    by (rule keeps_then [OF _ rx_alive [OF assms(3)] keeps_rcv_destroy [OF assms(1)]])
  then show ?thesis using True rx_keeps [OF assms(3)] by (auto simp: conn_segment_def)
next
  case False
  define E where "E = upd_conn c (\<lambda>x. x\<lparr>c_snd_wnd := (if c_state x = TCPS_SYN_SENT then ucast (sg_window sg) else scaled_window x (sg_window sg))\<rparr>) st"
  have E: "rx b S c n E" unfolding E_def by (rule rx_keeps [OF assms(3) keeps_rcv_upd]) (simp add: rcv_defs)
  obtain x where x: "conn_mem E c = Some x" "c_rcv_nxt x = b + of_nat n" "c_state x \<noteq> TCPS_SYN_SENT" using E by (auto simp: rx_def)
  have u: "rx b S c n (upd_conn c f D)" if "rx b S c n D" "\<And>x. rcv_same x (f x)" for f D
    by (rule rx_keeps [OF that(1) keeps_rcv_upd [OF that(2)]])
  have s: "rx b S c n (stop_retransmit c D)" if "rx b S c n D" for D by (rule rx_keeps [OF that keeps_rcv_stop])
  have d: "rx b S c n (conn_destroy app c D)" if "rx b S c n D" for D
    by (rule rx_keeps [OF that keeps_rcv_destroy [OF assms(1) rx_alive [OF that]]])
  have step: "conn_segment app c sg st = (case c_state x of
      TCPS_SYN_RECEIVED \<Rightarrow>
        if flag (sg_flags sg) TCPF_ACK \<and> sg_ack sg = c_snd_nxt x then
          let D = stop_retransmit c (upd_conn c (\<lambda>x. x\<lparr>c_snd_una := sg_ack sg, c_state := TCPS_ESTABLISHED\<rparr>) E)
          in if sg_payload sg \<noteq> [] \<and> sg_seq sg = c_rcv_nxt x then accept_data app c (sg_payload sg) False D else D
        else E
    | TCPS_ESTABLISHED \<Rightarrow> receive_payload app c (sg_seq sg) (sg_payload sg) (if flag (sg_flags sg) TCPF_ACK then established_ack app c (sg_ack sg) E else E)
    | TCPS_FIN_WAIT \<Rightarrow>
        if flag (sg_flags sg) TCPF_ACK \<and> ack_advances x (sg_ack sg) then
          let D = upd_conn c (\<lambda>x. x\<lparr>c_snd_una := sg_ack sg\<rparr>) E in if sg_ack sg = c_snd_nxt x then stop_retransmit c D else D
        else E
    | TCPS_LAST_ACK \<Rightarrow>
        if flag (sg_flags sg) TCPF_ACK \<and> sg_ack sg = c_snd_nxt x then
          conn_destroy app c (upd_conn c (\<lambda>x. x\<lparr>c_retransmit_timer := uv_timer_stop (c_retransmit_timer x), c_state := TCPS_CLOSED\<rparr>) E)
        else E
    | _ \<Rightarrow> E)"
    using False assms(4) x(3) conn_at_eq [OF x(1)]
    by (simp add: conn_segment_def Let_def E_def [symmetric] split: tcp_state.splits)
  show ?thesis
  proof (cases "c_state x")
    case TCPS_SYN_RECEIVED
    let ?D = "stop_retransmit c (upd_conn c (\<lambda>x. x\<lparr>c_snd_una := sg_ack sg, c_state := TCPS_ESTABLISHED\<rparr>) E)"
    have D: "rx b S c n ?D" by (intro s u E) (simp add: rcv_defs)
    have "\<exists>n' \<ge> n. rx b S c n' (accept_data app c (sg_payload sg) False ?D)" if "sg_payload sg \<noteq> []" "sg_seq sg = c_rcv_nxt x"
      using rx_accept_data [OF assms(1,2) D, of "sg_payload sg" False] that assms(5) x(2) by (auto intro: order_trans [OF le_add1])
    then show ?thesis using E D unfolding step TCPS_SYN_RECEIVED by (auto simp: Let_def)
  next
    case TCPS_ESTABLISHED
    let ?A = "if flag (sg_flags sg) TCPF_ACK then established_ack app c (sg_ack sg) E else E"
    have A: "rx b S c n ?A" using E rx_keeps [OF E keeps_rcv_established_ack [OF assms(1) rx_alive [OF E]]] by simp
    have "\<exists>n' \<ge> n. rx b S c n' (receive_payload app c (sg_seq sg) (sg_payload sg) ?A)"
    proof (cases "sg_payload sg = []")
      case True
      then show ?thesis using A by (auto simp: receive_payload_def)
    next
      case False
      then obtain off where "sg_seq sg = b + of_nat off" "off + length (sg_payload sg) \<le> length S" "sg_payload sg = take (length (sg_payload sg)) (drop off S)"
        using assms(5) by (auto simp: genuine_def)
      then show ?thesis using rx_receive_payload [OF assms(1,2) A] by blast
    qed
    then show ?thesis unfolding step TCPS_ESTABLISHED by simp
  next
    case TCPS_FIN_WAIT
    have D: "rx b S c n (upd_conn c (\<lambda>x. x\<lparr>c_snd_una := sg_ack sg\<rparr>) E)" by (intro u E) (simp add: rcv_defs)
    then show ?thesis using E s [OF D] unfolding step TCPS_FIN_WAIT by (auto simp: Let_def)
  next
    case TCPS_LAST_ACK
    have "rx b S c n (conn_destroy app c (upd_conn c (\<lambda>x. x\<lparr>c_retransmit_timer := uv_timer_stop (c_retransmit_timer x), c_state := TCPS_CLOSED\<rparr>) E))"
      by (intro d u E) (simp add: rcv_defs)
    then show ?thesis using E unfolding step TCPS_LAST_ACK by auto
  qed (use E x(3) in \<open>auto simp: step\<close>)
qed

lemma rx_segments:
  assumes "polite app c" "length S < 2 ^ 31"
    and "\<And>sg. sg \<in> set sgs \<Longrightarrow> \<not> flag (sg_flags sg) TCPF_FIN \<and> (sg_payload sg = [] \<or> genuine b S (sg_seq sg) (sg_payload sg))"
  shows "rx b S c n st \<Longrightarrow> \<exists>n' \<ge> n. rx b S c n' (fold (conn_segment app c) sgs st)"
  using assms(3)
proof (induction sgs arbitrary: n st)
  case (Cons sg sgs)
  obtain m where m: "n \<le> m" "rx b S c m (conn_segment app c sg st)"
    using rx_conn_segment [OF assms(1,2) Cons.prems(1), of sg] Cons.prems(2) [of sg] by auto
  obtain n' where "m \<le> n'" "rx b S c n' (fold (conn_segment app c) sgs (conn_segment app c sg st))"
    using Cons.IH [OF m(2)] Cons.prems(2) by auto
  then show ?case using m(1) by (intro exI [of _ n']) simp
qed auto

lemma rx_segment_progress:
  assumes "polite app c" "length S < 2 ^ 31" "rx b S c n st" "c_state (conn_at st c) = TCPS_ESTABLISHED"
    and "\<not> flag (sg_flags sg) TCPF_RST" "\<not> flag (sg_flags sg) TCPF_FIN"
    and seq: "sg_seq sg = b + of_nat off" "off + length (sg_payload sg) \<le> length S" "sg_payload sg = take (length (sg_payload sg)) (drop off S)" "off \<le> n"
  shows "\<exists>n' \<ge> n. rx b S c n' (conn_segment app c sg st) \<and> off + length (sg_payload sg) \<le> n'"
proof -
  define E where "E = upd_conn c (\<lambda>x. x\<lparr>c_snd_wnd := (if c_state x = TCPS_SYN_SENT then ucast (sg_window sg) else scaled_window x (sg_window sg))\<rparr>) st"
  have E: "rx b S c n E" unfolding E_def by (rule rx_keeps [OF assms(3) keeps_rcv_upd]) (simp add: rcv_defs)
  have ce: "c_state (conn_at E c) = TCPS_ESTABLISHED" using assms(3,4) by (auto simp: E_def rx_def conn_at_def)
  let ?A = "if flag (sg_flags sg) TCPF_ACK then established_ack app c (sg_ack sg) E else E"
  have A: "rx b S c n ?A" using E rx_keeps [OF E keeps_rcv_established_ack [OF assms(1) rx_alive [OF E]]] by simp
  have "conn_segment app c sg st = receive_payload app c (sg_seq sg) (sg_payload sg) ?A"
    unfolding conn_segment_def Let_def E_def [symmetric] using assms(5,6) ce by simp
  then show ?thesis using rx_receive_payload [OF assms(1,2) A seq(1-3)] seq(4) by auto
qed

section \<open>Properties\<close>

text \<open>\<^bold>\<open>C25\<close>. Reassembly is safe. Take the byte stream \<open>S\<close> of the remote side (shorter than \<open>2 ^ 31\<close>), its first byte having sequence
  number \<open>b\<close>, and let segments without \<^verbatim>\<open>FIN\<close> arrive whose payloads are pieces of \<open>S\<close>: in any order, any number of times, with
  gaps and overlaps, and with allocations of the out-of-order queue failing as they may. Then what the application is handed,
  over all its \<^verbatim>\<open>on_data\<close> calls, is a prefix of \<open>S\<close>, and \<^verbatim>\<open>rcv_nxt\<close> (hence every acknowledgement) stands exactly behind it.
  The callbacks may use the interface of the stack as they like.\<close>

theorem tcp_reassembly_safe:
  assumes "polite app c" "length S < 2 ^ 31"
    and "conn_mem st c = Some x" "c_rcv_nxt x = b" "c_rcv_ooo x = []" "c_on_data x \<noteq> None" "c_state x \<noteq> TCPS_SYN_SENT"
      "c_timer_initialized x" "delivered c st = []"
    and "\<And>sg. sg \<in> set sgs \<Longrightarrow> \<not> flag (sg_flags sg) TCPF_FIN \<and> (sg_payload sg = [] \<or> genuine b S (sg_seq sg) (sg_payload sg))"
  shows "\<exists>n \<le> length S. delivered c (fold (conn_segment app c) sgs st) = take n S \<and>
    c_rcv_nxt (conn_at (fold (conn_segment app c) sgs st) c) = b + of_nat n"
proof -
  have "rx b S c 0 st" using assms(3-9) by (auto simp: rx_def genuine_queue_def)
  from rx_segments [OF assms(1,2,10) this] obtain n where "rx b S c n (fold (conn_segment app c) sgs st)" by auto
  then show ?thesis by (auto simp: rx_def conn_at_def)
qed


text \<open>The out-of-order queue is bounded whatever arrives: for any sequence number and payload, \<^verbatim>\<open>tcp_ooo_queue\<close> keeps
  \<^verbatim>\<open>rcv_ooo_len\<close> equal to the number of bytes queued (so the 32-bit subtractions never wrap) and at most
  \<^verbatim>\<open>WG_TCP_RECV_OOO_SIZE\<close>.\<close>

theorem tcp_ooo_bounded:
  assumes "c_rcv_ooo_len conn = sum_list (map os_len (c_rcv_ooo conn))" "c_rcv_ooo_len conn \<le> WG_TCP_RECV_OOO_SIZE"
  shows "let conn' = fold (\<lambda>(ok, seq, data). tcp_ooo_queue ok seq data) arrivals conn
    in c_rcv_ooo_len conn' = sum_list (map os_len (c_rcv_ooo conn')) \<and> c_rcv_ooo_len conn' \<le> WG_TCP_RECV_OOO_SIZE"
proof -
  have "ooo_inv conn \<Longrightarrow> ooo_inv (fold (\<lambda>(ok, seq, data). tcp_ooo_queue ok seq data) arrivals conn)"
    by (induction arrivals arbitrary: conn) (auto simp: ooo_inv_queue)
  then show ?thesis using assms by (simp add: ooo_inv_def ooo_bytes_def Let_def)
qed

text \<open>Queuing a segment can lose data that was queued already: a queued segment that overlaps the beginning of the new
  one is cut off the new one, and then removed from the queue itself, because the loop that absorbs covered segments
  starts at it. The bytes in front of the overlap are in neither afterwards, although they may have been acknowledged
  selectively.\<close>

theorem tcp_ooo_overlap_loses_data:
  assumes "c_rcv_nxt conn = b" "c_rcv_ooo conn = [\<lparr>os_seq = b + of_nat x, os_data = old\<rparr>]" "c_rcv_ooo_len conn = length old"
    and "0 < x" "x < y" "y < x + length old" "x + length old < y + length data" "y + length data \<le> WG_TCP_RECV_OOO_SIZE"
  shows "c_rcv_ooo (tcp_ooo_queue True (b + of_nat y) data conn) =
    [\<lparr>os_seq = b + of_nat (x + length old), os_data = drop (x + length old - y) data\<rparr>]"
proof -
  let ?seg = "\<lparr>os_seq = b + of_nat x, os_data = old\<rparr>"
  have small: "y + length data < 2 ^ 31" using assms(8) by (simp add: WG_TCP_RECV_OOO_SIZE_def)
  have e: "seg_end ?seg = b + of_nat (x + length old)" by (simp add: seg_end_def os_len_def)
  have cmp: "seq_le (b + of_nat i) (b + of_nat j) \<longleftrightarrow> i \<le> j" "seq_lt (b + of_nat i) (b + of_nat j) \<longleftrightarrow> i < j"
      "seq_gt (b + of_nat i) (b + of_nat j) \<longleftrightarrow> i > j" if "i \<le> y + length data" "j \<le> y + length data" for i j
    using seq_offsets [of i j b] that small by simp_all
  have z: "\<not> seq_le (b + of_nat y + of_nat (length data)) b" "\<not> seq_lt (b + of_nat y) b"
    using cmp(1) [of "y + length data" 0] cmp(2) [of y 0] assms by (simp_all add: add.assoc)
  have nskip: "\<not> seq_le (seg_end ?seg) (b + of_nat y)" unfolding e using cmp(1) [of "x + length old" y] assms by simp
  have ov: "ooo_overlap (b + of_nat y) [?seg] = x + length old - y"
    using cmp(1) [of x y] cmp(3) [of "x + length old" y] diff_offsets [of y "x + length old" b] assms small unfolding ooo_overlap_def by (simp add: e)
  have st: "b + of_nat y + of_nat (x + length old - y) = b + of_nat (x + length old)" using assms(6) by (simp add: of_nat_diff)
  have en: "b + of_nat (x + length old) + of_nat (length data - (x + length old - y)) = b + of_nat (y + length data)"
  proof -
    have "x + length old + (length data - (x + length old - y)) = y + length data" using assms(6,7) by simp
    then show ?thesis by (simp only: add.assoc flip: of_nat_add)
  qed
  have ab: "ooo_absorb (b + of_nat (y + length data)) [?seg] (length old) = ([], 0)"
    using cmp(2) [of x "y + length data"] cmp(1) [of "x + length old" "y + length data"] assms unfolding ooo_absorb.simps by (simp add: e os_len_def)
  have sz: "\<not> (WG_TCP_RECV_OOO_SIZE < 0 + (length data - (x + length old - y)) \<or> \<not> True)" using assms(8) by simp
  have c: "\<not> (0 < x + length old - y \<and> length data \<le> x + length old - y)" using assms(6,7) by linarith
  have "ooo_insert True (b + of_nat y) data conn = conn\<lparr>c_rcv_ooo := [] @ [\<lparr>os_seq = b + of_nat (x + length old),
      os_data = drop (x + length old - y) data\<rparr>], c_rcv_ooo_len := 0 + (length data - (x + length old - y))\<rparr>"
    unfolding ooo_insert_def Let_def assms(2,3) dropWhile.simps takeWhile.simps if_not_P [OF nskip] ov if_not_P [OF c] st length_drop en ab prod.case
      if_not_P [OF sz] ..
  moreover have "data \<noteq> []" using assms(6,7) by auto
  ultimately show ?thesis using z unfolding tcp_ooo_queue_def assms(1) by simp
qed

section \<open>Witnesses\<close>

text \<open>An application that sends back what it receives.\<close>

definition quiet_app :: "'a tcp_app" where
  "quiet_app = \<lparr>app_connect = \<lambda>_ _ _ st. st, app_data = \<lambda>_ _ _ st. st, app_close = \<lambda>_ _ st. st, app_writeable = \<lambda>_ _ st. st,
     app_accept = \<lambda>_ _ _ st. st, app_window = \<lambda>_ _ _. 65536\<rparr>"

definition echo_app :: "'a tcp_app" where
  "echo_app = quiet_app\<lparr>app_data := \<lambda>f d data st. snd (tcp_send quiet_app d data st)\<rparr>"

lemma echo_polite: "polite echo_app c"
  by (simp add: polite_def echo_app_def quiet_app_def tcp_send_keeps_rcv)

definition stack_zero :: tcpstack where
  "stack_zero = \<lparr>ts_local_ip = 0x0100000A, ts_local_ip6 = None, ts_conns = [], ts_buckets = \<lambda>_. [], ts_listeners = [], ts_flush = [],
     ts_flush_check = False, ts_flush_check_initialized = False, ts_flush_check_closing = False, ts_next_port = 32768, conn_mem = Map.empty,
     ts_brk = 0, ts_now = 0, ts_malloc = \<lambda>_. True, ts_isn = \<lambda>_. (0, 0, 0), ts_out = [], ts_events = []\<rparr>"

definition conn_open :: tcp_conn where
  "conn_open = conn_example4\<lparr>c_state := TCPS_ESTABLISHED, c_rcv_nxt := 1000, c_on_data := Some 1, c_timer_initialized := True,
     c_snd_mss := 1380, c_snd_wnd := 65535, c_sendbuf := zeros 32768, c_sendbuf_cap := 32768\<rparr>"

definition stack_open :: tcpstack where
  "stack_open = stack_zero\<lparr>conn_mem := [0 \<mapsto> conn_open]\<rparr>"

definition seg_in :: "u32 \<Rightarrow> bytes \<Rightarrow> tcp_segment" where
  "seg_in seq data = \<lparr>sg_family = AF_INET, sg_src = le32 0x0200000A, sg_dst = le32 0x0100000A, sg_src_port = 80, sg_dst_port = 40000,
     sg_seq = seq, sg_ack = 0, sg_window = 1000, sg_flags = TCPF_PSH, sg_options = [], sg_payload = data\<rparr>"

lemma conn_open_simps:
  "c_rcv_nxt conn_open = 1000" "c_rcv_ooo conn_open = []" "c_on_data conn_open \<noteq> None" "c_state conn_open = TCPS_ESTABLISHED" "c_timer_initialized conn_open"
  "conn_mem stack_open 0 = Some conn_open" "delivered 0 stack_open = []"
  by (simp_all add: conn_open_def conn_example4_def conn_zero_def stack_open_def stack_zero_def delivered_def)

lemma genuine_examples: "genuine 1000 [1, 2, 3, 4, 5] 1003 [4, 5]" "genuine 1000 [1, 2, 3, 4, 5] 1000 [1, 2, 3]"
  unfolding genuine_def by (rule exI [of _ 3], simp) (rule exI [of _ 0], simp)

lemma no_flags: "\<not> flag TCPF_PSH TCPF_FIN" "\<not> flag TCPF_PSH TCPF_RST"
  by (code_simp, code_simp)

theorem tcp_reassembly_safe_witness:
  "\<exists>n \<le> length [1, 2, 3, 4, 5 :: u8].
     delivered 0 (fold (conn_segment echo_app 0) [seg_in 1003 [4, 5], seg_in 1000 [1, 2, 3]] stack_open) = take n [1, 2, 3, 4, 5] \<and>
     c_rcv_nxt (conn_at (fold (conn_segment echo_app 0) [seg_in 1003 [4, 5], seg_in 1000 [1, 2, 3]] stack_open) 0) = 1000 + of_nat n"
proof (rule tcp_reassembly_safe [OF echo_polite _ conn_open_simps(6,1,2,3) _ conn_open_simps(5,7)])
  show "\<not> flag (sg_flags sg) TCPF_FIN \<and> (sg_payload sg = [] \<or> genuine 1000 [1, 2, 3, 4, 5] (sg_seq sg) (sg_payload sg))"
    if "sg \<in> set [seg_in 1003 [4, 5], seg_in 1000 [1, 2, 3]]" for sg
    using that genuine_examples no_flags by (auto simp: seg_in_def)
qed (simp_all add: conn_open_simps(4))


theorem tcp_ooo_bounded_witness:
  "c_rcv_ooo_len (fold (\<lambda>(ok, seq, data). tcp_ooo_queue ok seq data) [(True, 1003, [4, 5]), (True, 1001, [2])] conn_open) \<le> WG_TCP_RECV_OOO_SIZE"
proof -
  have "c_rcv_ooo_len conn_open = 0" by (simp add: conn_open_def conn_example4_def conn_zero_def)
  then show ?thesis
    using tcp_ooo_bounded [of conn_open "[(True, 1003, [4, 5]), (True, 1001, [2])]"] conn_open_simps(2) by (simp only: Let_def) simp
qed

theorem tcp_ooo_overlap_loses_data_witness:
  "c_rcv_ooo (tcp_ooo_queue True (1000 + of_nat 12) [3, 4, 5, 6] (conn_open\<lparr>c_rcv_ooo := [\<lparr>os_seq = 1000 + of_nat 10, os_data = [1, 2, 3]\<rparr>], c_rcv_ooo_len := 3\<rparr>))
   = [\<lparr>os_seq = 1000 + of_nat (10 + 3), os_data = [4, 5, 6]\<rparr>]"
  using tcp_ooo_overlap_loses_data [of "conn_open\<lparr>c_rcv_ooo := [\<lparr>os_seq = 1000 + of_nat 10, os_data = [1, 2, 3]\<rparr>], c_rcv_ooo_len := 3\<rparr>" 1000 10 "[1, 2, 3]" 12 "[3, 4, 5, 6]"]
    conn_open_simps(1) by (simp add: WG_TCP_RECV_OOO_SIZE_def)

end
