(* ===== verification/Tcp_Sender.thy ===== *)
theory Tcp_Sender
  imports Tcp_Reassembly
begin

text \<open>
  The send side of the TCP stack: every data segment it emits, first or repeated, is a piece of the
  stream of bytes the application has sent, and together with the receive side of the other end this
  gives that one application receives a prefix of what the other one sends.
\<close>

section \<open>The segments of one flush\<close>

lemma flush_plan_step:
  obtains "flush_plan conn k = []" "\<not> (k < c_sendbuf_len conn \<and> k < unat (c_snd_wnd conn))"
  | seg where "flush_plan conn k = (k, seg) # flush_plan conn (k + seg)" "0 < seg" "k + seg \<le> c_sendbuf_len conn"
    "k + seg \<le> unat (c_snd_wnd conn)" "seg \<le> conn_mss conn"
proof (cases "k < c_sendbuf_len conn \<and> k < unat (c_snd_wnd conn)")
  case True
  define seg where "seg = min (min (c_sendbuf_len conn - k) (conn_mss conn)) (unat (c_snd_wnd conn) - k)"
  have "seg \<le> c_sendbuf_len conn - k" "seg \<le> conn_mss conn" "seg \<le> unat (c_snd_wnd conn) - k" by (simp_all add: seg_def)
  moreover have "0 < seg" using True conn_mss_pos [of conn] by (simp add: seg_def)
  moreover have "flush_plan conn k = (k, seg) # flush_plan conn (k + seg)"
    using True \<open>0 < seg\<close> by (subst flush_plan.simps) (simp add: Let_def seg_def)
  ultimately show ?thesis using True by (intro that(2) [of seg]) auto
next
  case False
  then have "flush_plan conn k = []" by (subst flush_plan.simps) (auto simp: Let_def)
  then show ?thesis using False by (rule that(1))
qed

lemma flush_plan_bounds:
  "(off, len) \<in> set (flush_plan conn k) \<Longrightarrow>
   k \<le> off \<and> 0 < len \<and> off + len \<le> c_sendbuf_len conn \<and> off + len \<le> unat (c_snd_wnd conn) \<and> len \<le> conn_mss conn"
proof (induction "c_sendbuf_len conn - k" arbitrary: k rule: less_induct)
  case less
  show ?case
  proof (cases rule: flush_plan_step [of conn k])
    case (2 seg)
    then show ?thesis using less.hyps [of "k + seg"] less.prems by fastforce
  qed (use less.prems in simp)
qed

lemma flush_plan_total: "k + sum_list (map snd (flush_plan conn k)) = max k (min (c_sendbuf_len conn) (unat (c_snd_wnd conn)))"
proof (induction "c_sendbuf_len conn - k" arbitrary: k rule: less_induct)
  case less
  show ?case
  proof (cases rule: flush_plan_step [of conn k])
    case (2 seg)
    then have d: "c_sendbuf_len conn - (k + seg) < c_sendbuf_len conn - k" by linarith
    show ?thesis using less.hyps [OF d] 2 by simp
  qed auto
qed

lemma retransmit_plan_bounds: "(off, len) \<in> set (retransmit_plan conn k) \<Longrightarrow> off + len \<le> c_sendbuf_len conn \<and> len \<le> conn_mss conn"
proof (induction "c_sendbuf_len conn - k" arbitrary: k rule: less_induct)
  case less
  show ?case
  proof (cases "k < c_sendbuf_len conn")
    case True
    define seg where "seg = min (c_sendbuf_len conn - k) (conn_mss conn)"
    have "seg \<le> c_sendbuf_len conn - k" by (simp add: seg_def)
    then have seg: "0 < seg" "k + seg \<le> c_sendbuf_len conn" "seg \<le> conn_mss conn" using True conn_mss_pos [of conn] by (auto simp: seg_def)
    have p: "retransmit_plan conn k = (k, seg) # retransmit_plan conn (k + seg)"
      using True by (subst retransmit_plan.simps) (simp add: Let_def seg_def)
    show ?thesis using less.hyps [of "k + seg"] less.prems seg True unfolding p by auto
  next
    case False
    then show ?thesis using less.prems by (subst (asm) retransmit_plan.simps) simp
  qed
qed

text \<open>The packets of a plan.\<close>

lemma send_plan_out:
  "\<exists>pkts. ts_out (send_plan app c fl plan st) = ts_out st @ pkts \<and>
    (\<forall>pkt \<in> set pkts. \<exists>off len w. (off, len) \<in> set plan \<and>
      pkt = segment_packet (conn_at st c) w (fl (off, len)) (c_snd_una (conn_at st c) + of_nat off) (c_rcv_nxt (conn_at st c))
        (sendbuf_copy_out (conn_at st c) off len))"
proof (induction plan arbitrary: st)
  case (Cons p plan)
  obtain off len where p: "p = (off, len)" by (cases p)
  let ?d = "sendbuf_copy_out (conn_at st c) off len" and ?q = "c_snd_una (conn_at st c) + of_nat off"
  let ?E = "send_segment app c (fl p) ?q (c_rcv_nxt (conn_at st c)) ?d st"
  have s: "send_plan app c fl (p # plan) st = send_plan app c fl plan ?E" by (simp add: send_plan_def p)
  have cE: "conn_at ?E c = conn_at st c" by (simp add: conn_at_def)
  obtain w where w: "ts_out ?E = ts_out st @ [segment_packet (conn_at st c) w (fl p) ?q (c_rcv_nxt (conn_at st c)) ?d]"
    by (simp add: send_segment_def Let_def)
  obtain pkts where "ts_out (send_plan app c fl plan ?E) = ts_out ?E @ pkts"
    "\<forall>pkt \<in> set pkts. \<exists>off len w. (off, len) \<in> set plan \<and>
      pkt = segment_packet (conn_at st c) w (fl (off, len)) (c_snd_una (conn_at st c) + of_nat off) (c_rcv_nxt (conn_at st c))
        (sendbuf_copy_out (conn_at st c) off len)"
    using Cons.IH [of ?E] unfolding cE by blast
  then show ?case
    unfolding s by (intro exI [of _ "segment_packet (conn_at st c) w (fl p) ?q (c_rcv_nxt (conn_at st c)) ?d # pkts"]) (use w p in fastforce)
qed (simp add: send_plan_def)

section \<open>The send side\<close>

text \<open>\<open>S\<close> is everything the application has sent on the connection so far, \<open>b\<close> the sequence number of its first byte;
  the first \<open>a\<close> bytes are acknowledged, the first \<open>m\<close> have been sent.\<close>

definition tx_conn :: "u32 \<Rightarrow> bytes \<Rightarrow> nat \<Rightarrow> nat \<Rightarrow> tcp_conn \<Rightarrow> bool" where
  "tx_conn b S a m x \<longleftrightarrow> c_state x = TCPS_ESTABLISHED \<and> \<not> c_being_freed x \<and> sendbuf_inv x \<and> unat (c_snd_mss x) \<le> WG_TCP_MSS \<and>
     c_on_writeable x = None \<and> c_snd_una x = b + of_nat a \<and> c_snd_nxt x = b + of_nat m \<and> a \<le> m \<and> m \<le> length S \<and> unacked x = drop a S"

definition tx :: "u32 \<Rightarrow> bytes \<Rightarrow> conn_ref \<Rightarrow> 'a tcpstack_scheme \<Rightarrow> bool" where
  "tx b S c st \<longleftrightarrow> (\<exists>x a m. conn_mem st c = Some x \<and> tx_conn b S a m x)"

lemma tx_connD:
  assumes "tx_conn b S a m x"
  shows "c_state x = TCPS_ESTABLISHED" "\<not> c_being_freed x" "sendbuf_inv x" "unat (c_snd_mss x) \<le> WG_TCP_MSS" "c_on_writeable x = None"
    "c_snd_una x = b + of_nat a" "c_snd_nxt x = b + of_nat m" "a \<le> m" "m \<le> length S" "unacked x = drop a S" "a \<le> length S"
    "c_sendbuf_len x = length S - a" "m - a \<le> length S - a" "length S - a \<le> WG_TCP_SENDBUF_SIZE"
proof -
  show len: "c_sendbuf_len x = length S - a" using assms by (metis length_drop length_unacked tx_conn_def)
  show "length S - a \<le> WG_TCP_SENDBUF_SIZE" using assms len by (simp add: tx_conn_def sendbuf_inv_def)
  have "m \<le> length S" using assms by (simp add: tx_conn_def)
  then show "m - a \<le> length S - a" by (rule diff_le_mono)
qed (use assms in \<open>simp_all add: tx_conn_def\<close>)

definition snd_view :: "tcp_conn \<Rightarrow> tcp_state \<times> bool \<times> bytes \<times> nat \<times> nat \<times> nat \<times> u32 \<times> fptr option \<times> u32 \<times> u32" where
  "snd_view x = (c_state x, c_being_freed x, c_sendbuf x, c_sendbuf_cap x, c_sendbuf_head x, c_sendbuf_len x, c_snd_mss x, c_on_writeable x,
     c_snd_una x, c_snd_nxt x)"

lemma tx_conn_cong: "snd_view y = snd_view x \<Longrightarrow> tx_conn b S a m y = tx_conn b S a m x"
  by (simp add: tx_conn_def snd_view_def sendbuf_inv_def unacked_def)

text \<open>A data packet of the connection whose payload is a piece of the stream.\<close>

definition endpoints :: "tcp_conn \<Rightarrow> nat \<times> u32 \<times> u32 \<times> bytes \<times> bytes \<times> u16 \<times> u16" where
  "endpoints x = (c_family x, c_local_ip x, c_remote_ip x, c_local_ip6 x, c_remote_ip6 x, c_local_port x, c_remote_port x)"

definition carries :: "u32 \<Rightarrow> bytes \<Rightarrow> tcp_conn \<Rightarrow> bytes \<Rightarrow> bool" where
  "carries b S x pkt \<longleftrightarrow> (\<exists>y w seq ack data. pkt = segment_packet y w (TCPF_ACK OR TCPF_PSH) seq ack data \<and> endpoints y = endpoints x \<and>
     length data \<le> WG_TCP_MSS \<and> genuine b S seq data)"

lemma genuine_append: "genuine b S seq data \<Longrightarrow> genuine b (S @ T) seq data"
  unfolding genuine_def by (elim exE conjE) (rule_tac x = off in exI, simp)

lemma carries_append: "carries b S x pkt \<Longrightarrow> carries b (S @ T) x pkt"
  unfolding carries_def using genuine_append by blast

lemma conn_mss_le: "unat (c_snd_mss x) \<le> WG_TCP_MSS \<Longrightarrow> conn_mss x \<le> WG_TCP_MSS"
  by (simp add: conn_mss_def)

text \<open>A plan inside the send buffer emits pieces of the stream.\<close>

lemma send_plan_carries:
  assumes x: "conn_mem st c = Some x" "tx_conn b S a m x"
    and p: "\<And>off len. (off, len) \<in> set plan \<Longrightarrow> off + len \<le> c_sendbuf_len x \<and> len \<le> conn_mss x"
  shows "\<exists>pkts. ts_out (send_plan app c (\<lambda>_. TCPF_ACK OR TCPF_PSH) plan st) = ts_out st @ pkts \<and> (\<forall>pkt \<in> set pkts. carries b S x pkt)"
proof -
  have c: "conn_at st c = x" using x(1) by (rule conn_at_eq)
  note d = tx_connD [OF x(2)]
  have g: "genuine b S (c_snd_una x + of_nat off) (sendbuf_copy_out x off len) \<and> length (sendbuf_copy_out x off len) \<le> WG_TCP_MSS"
    if "(off, len) \<in> set plan" for off len
  proof -
    have ol: "off + len \<le> c_sendbuf_len x" "len \<le> WG_TCP_MSS" using p [OF that] conn_mss_le [OF d(4)] by auto
    have e: "sendbuf_copy_out x off len = take len (drop (a + off) S)"
      using sendbuf_copy_out_spec [OF d(3) ol(1)] d(10) by (simp add: add.commute)
    have le: "a + off + len \<le> length S" using ol(1) d(11,12) by linarith
    then have "length (sendbuf_copy_out x off len) = len" unfolding e by simp
    then show ?thesis
      unfolding genuine_def using ol(2) le d(6) e by (intro conjI exI [of _ "a + off"]) simp_all
  qed
  obtain pkts where "ts_out (send_plan app c (\<lambda>_. TCPF_ACK OR TCPF_PSH) plan st) = ts_out st @ pkts"
    "\<forall>pkt \<in> set pkts. \<exists>off len w. (off, len) \<in> set plan \<and> pkt = segment_packet x w (TCPF_ACK OR TCPF_PSH) (c_snd_una x + of_nat off) (c_rcv_nxt x) (sendbuf_copy_out x off len)"
    using send_plan_out [of app c "\<lambda>_. TCPF_ACK OR TCPF_PSH" plan st] unfolding c by blast
  then show ?thesis using g unfolding carries_def by (intro exI [of _ pkts]) blast
qed

text \<open>What one operation does to the send side: it keeps \<open>tx\<close>, and what it emits with data carries the stream.\<close>

definition emits :: "u32 \<Rightarrow> bytes \<Rightarrow> conn_ref \<Rightarrow> 'a tcpstack_scheme \<Rightarrow> 'a tcpstack_scheme \<Rightarrow> bool" where
  "emits b S c st st' \<longleftrightarrow> tx b S c st' \<and> endpoints (conn_at st' c) = endpoints (conn_at st c) \<and>
     (\<exists>pkts. ts_out st' = ts_out st @ pkts \<and> (\<forall>pkt \<in> set pkts. carries b S (conn_at st c) pkt))"

lemma emits_refl: "tx b S c st \<Longrightarrow> emits b S c st st"
  by (simp add: emits_def)

lemma carries_cong: "endpoints x = endpoints y \<Longrightarrow> carries b S x = carries b S y"
  by (simp add: carries_def fun_eq_iff)

lemma emits_trans:
  assumes "emits b S c st st1" "emits b S c st1 st2"
  shows "emits b S c st st2"
  using assms carries_cong [of "conn_at st1 c" "conn_at st c" b S] unfolding emits_def by fastforce

lemma emits_upd:
  assumes "tx b S c st" "\<And>x. snd_view (f x) = snd_view x" "\<And>x. endpoints (f x) = endpoints x"
  shows "emits b S c st (upd_conn c f st)"
proof -
  obtain x a m where x: "conn_mem st c = Some x" "tx_conn b S a m x" using assms(1) by (auto simp: tx_def)
  then have "tx_conn b S a m (f x)" using tx_conn_cong [OF assms(2)] by blast
  then show ?thesis using x(1) assms(3) by (auto simp: emits_def tx_def conn_at_def)
qed

lemma emits_upd_after:
  assumes "emits b S c st E" "\<And>x. snd_view (f x) = snd_view x" "\<And>x. endpoints (f x) = endpoints x"
  shows "emits b S c st (upd_conn c f E)"
proof (rule emits_trans [OF assms(1)])
  have "tx b S c E" using assms(1) by (simp add: emits_def)
  then show "emits b S c E (upd_conn c f E)" using assms(2,3) by (rule emits_upd)
qed

lemma flush_emits:
  assumes "tx b S c st"
  shows "emits b S c st (tcp_flush_pending app c st)"
proof -
  obtain x a m where x: "conn_mem st c = Some x" "tx_conn b S a m x" using assms by (auto simp: tx_def)
  have c: "conn_at st c = x" using x(1) by (rule conn_at_eq)
  note d = tx_connD [OF x(2)]
  define k where "k = unat (c_snd_nxt x - c_snd_una x)"
  have "m - a < 2 ^ 32" using d(13,14) by (simp add: WG_TCP_SENDBUF_SIZE_def)
  then have k: "k = m - a" unfolding k_def using d(6-8) by (simp add: unat_of_nat flip: of_nat_diff)
  define plan where "plan = flush_plan x k"
  define n where "n = k + sum_list (map snd plan)"
  have n: "n \<le> length S - a" using flush_plan_total [of k x] d(12,13) k by (auto simp: n_def plan_def)
  let ?s = "send_plan app c (\<lambda>_. TCPF_ACK OR TCPF_PSH) plan st"
  have p: "off + len \<le> c_sendbuf_len x \<and> len \<le> conn_mss x" if "(off, len) \<in> set plan" for off len
    using flush_plan_bounds that by (simp add: plan_def)
  obtain pkts where o: "ts_out ?s = ts_out st @ pkts" "\<forall>pkt \<in> set pkts. carries b S x pkt"
    using send_plan_carries [OF x p, of plan app] by blast
  let ?U = "upd_conn c (\<lambda>y. y\<lparr>c_snd_nxt := c_snd_una x + of_nat n\<rparr>) ?s"
  let ?z = "x\<lparr>c_snd_nxt := c_snd_una x + of_nat n\<rparr>"
  have "sendbuf_inv ?z = sendbuf_inv x" "unacked ?z = unacked x" by (simp_all add: sendbuf_inv_def unacked_def)
  then have "tx_conn b S a (a + n) ?z" using d n unfolding tx_conn_def by (simp add: add.assoc)
  moreover have "conn_mem ?U c = Some ?z" using x(1) by simp
  ultimately have U: "emits b S c st ?U" using o by (auto simp: emits_def tx_def conn_at_def c endpoints_def x(1))
  have "tcp_flush_pending app c st = (if c_sendbuf_len x > 0 \<and> \<not> uv_is_active (c_retransmit_timer x)
      then upd_conn c (\<lambda>y. y\<lparr>c_retransmit_count := 0, c_retransmit_timer := uv_timer_start (ts_now ?U) WG_TCP_RETRANSMIT_MS (c_retransmit_timer y)\<rparr>) ?U else ?U)"
    using d(1,2) by (simp add: tcp_flush_pending_def c Let_def k_def n_def plan_def)
  then show ?thesis using U emits_upd_after [OF U] by (simp add: snd_view_def endpoints_def)
qed

lemma sint_pos_bound:
  assumes "sint (w :: u32) > 0"
  shows "unat w < 2 ^ 31"
proof (rule ccontr)
  define u where "u = int (unat w)"
  assume "\<not> unat w < 2 ^ 31"
  then have "int (2 ^ 31) \<le> int (unat w)" by (simp only: of_nat_le_iff not_less)
  then have n: "2 ^ 31 \<le> u" by (simp add: u_def)
  have "int (unat w) < int (2 ^ 32)" using unat_lt2p [of w] by (simp only: of_nat_less_iff) simp
  then have lt: "u < 2 ^ 32" by (simp add: u_def)
  have "(of_int u :: u32) = w" by (simp add: u_def)
  then have "sint w = signed_take_bit 31 u" using signed_of_int [where 'b = 32 and 'a = int, of u] by simp
  moreover have "take_bit 32 u = take_bit 32 (u - 2 ^ 32)" by (simp add: take_bit_eq_mod)
  then have "signed_take_bit 31 u = signed_take_bit 31 (u - 2 ^ 32)" by (simp add: signed_take_bit_eq_iff_take_bit_eq)
  moreover have "signed_take_bit 31 (u - 2 ^ 32) = u - 2 ^ 32" using n lt by (intro signed_take_bit_int_eq_self) simp_all
  ultimately show False using assms lt by simp
qed

lemma ack_emits:
  assumes "tx b S c st"
  shows "emits b S c st (established_ack app c ack st)"
proof -
  obtain x a m where x: "conn_mem st c = Some x" "tx_conn b S a m x" using assms by (auto simp: tx_def)
  have c: "conn_at st c = x" using x(1) by (rule conn_at_eq)
  note t = tx_connD [OF x(2)]
  have wr: "call_writeable app c E = E" if "emits b S c st E" for E
    using that by (auto simp: emits_def tx_def tx_conn_def call_writeable_def conn_at_def)
  show ?thesis
  proof (cases "ack_advances x ack")
    case False
    then show ?thesis using assms by (simp add: established_ack_def c emits_refl)
  next
    case True
    define d where "d = unat (ack - c_snd_una x)"
    have ack: "ack = c_snd_una x + of_nat d" by (simp add: d_def)
    have d: "d < 2 ^ 31" unfolding d_def by (rule sint_pos_bound) (use True in \<open>simp add: ack_advances_def seq_gt_def\<close>)
    have ma: "m - a < 2 ^ 31" using t(13,14) by (simp add: WG_TCP_SENDBUF_SIZE_def)
    have nxt: "c_snd_nxt x = c_snd_una x + of_nat (m - a)" using t(6-8) by (simp add: of_nat_diff)
    have dm: "d \<le> m - a" using True seq_offsets(2) [OF d ma, of "c_snd_una x"] unfolding ack_advances_def nxt by (simp flip: ack)
    define f where "f = (\<lambda>x. let acked = unat (ack - c_snd_una x); x = (if acked \<le> c_sendbuf_len x then sendbuf_consume acked x else x) in x\<lparr>c_snd_una := ack\<rparr>)"
    define z where "z = (sendbuf_consume d x)\<lparr>c_snd_una := ack\<rparr>"
    have "d \<le> c_sendbuf_len x" using dm t(12,13) by simp
    then have fx: "f x = z" by (simp add: f_def z_def Let_def d_def)
    have "unacked z = unacked (sendbuf_consume d x)" "sendbuf_inv z = sendbuf_inv (sendbuf_consume d x)"
      by (simp_all add: z_def unacked_def sendbuf_inv_def)
    then have "unacked z = drop (a + d) S" "sendbuf_inv z"
      using sendbuf_consume_spec [OF t(3), of d] t(10) by (simp_all add: add.commute)
    then have "tx_conn b S (a + d) m z"
      using t dm ack unfolding tx_conn_def by (simp add: z_def sendbuf_consume_def add.assoc)
    moreover have "endpoints z = endpoints x" by (simp add: z_def sendbuf_consume_def endpoints_def)
    ultimately have E: "emits b S c st (upd_conn c f st)" using x(1) fx by (auto simp: emits_def tx_def conn_at_def)
    have s: "emits b S c st (stop_retransmit c (upd_conn c f st))"
      unfolding stop_retransmit_def by (rule emits_upd_after [OF E]) (simp_all add: snd_view_def endpoints_def)
    have "emits b S c (upd_conn c f st) (tcp_flush_pending app c (upd_conn c f st))" by (rule flush_emits) (use E in \<open>simp add: emits_def\<close>)
    then have fl: "emits b S c st (tcp_flush_pending app c (upd_conn c f st))" by (rule emits_trans [OF E])
    have "established_ack app c ack st = (let st = (if c_sendbuf_len (conn_at (upd_conn c f st) c) = 0 then stop_retransmit c (upd_conn c f st)
        else tcp_flush_pending app c (upd_conn c f st)) in if c_sendbuf_len (conn_at st c) < WG_TCP_SENDBUF_SIZE div 4 then call_writeable app c st else st)"
      unfolding established_ack_def c f_def using True by (simp only: Let_def simp_thms if_False)
    then show ?thesis using s fl wr [OF s] wr [OF fl] by (simp add: Let_def)
  qed
qed

lemma send_emits:
  assumes "tx b S c st" "tcp_send app c data st = (r, st')"
  shows "emits b (if r = 0 then S @ data else S) c st st'"
proof -
  obtain x a m where x: "conn_mem st c = Some x" "tx_conn b S a m x" using assms(1) by (auto simp: tx_def)
  have c: "conn_at st c = x" using x(1) by (rule conn_at_eq)
  note t = tx_connD [OF x(2)]
  show ?thesis
  proof (cases "data = [] \<or> length data > 2 ^ 32 - 1 \<or> c_sendbuf_len x + length data > WG_TCP_SENDBUF_SIZE")
    case True
    then have "tcp_send app c data st = (if data = [] then (0, st) else (-1, st))"
      unfolding tcp_send_def c if_not_P [OF t(2)] using t(1) by (cases "data = []"; cases "length data > 2 ^ 32 - 1") (simp_all only: simp_thms if_True if_False)
    then have "(r = 0 \<and> data = [] \<or> r = -1) \<and> st' = st" using assms(2) by (simp split: if_splits)
    then show ?thesis using emits_refl [OF assms(1)] by auto
  next
    case False
    let ?n = "c_sendbuf_len x + length data"
    obtain ok E where E: "(if ?n \<le> c_sendbuf_cap x then (True, st) else ts_alloc st) = (ok, E)" by fastforce
    have Em: "conn_mem E = conn_mem st" "ts_out E = ts_out st" using E by (auto simp: ts_alloc_def split: if_splits)
    have cE: "conn_at E c = x" using Em(1) c by (simp add: conn_at_def)
    have need: "?n \<le> WG_TCP_SENDBUF_SIZE" using False by simp
    obtain r' x' where g: "sendbuf_grow ok ?n x = (r', x')" "r' = 0 \<or> r' = -1 \<and> x' = x \<and> \<not> ok" "sendbuf_inv x'" "unacked x' = unacked x"
        "r' = 0 \<longrightarrow> ?n \<le> c_sendbuf_cap x'" and ex: "\<exists>p q h. x' = x\<lparr>c_sendbuf := p, c_sendbuf_cap := q, c_sendbuf_head := h\<rparr>"
      using sendbuf_grow_spec [OF t(3) need, of ok] by (elim exE conjE) (rule that, (assumption | blast)+)
    obtain p q h where x': "x' = x\<lparr>c_sendbuf := p, c_sendbuf_cap := q, c_sendbuf_head := h\<rparr>" using ex by (elim exE)
    let ?D = "upd_conn c (\<lambda>_. sendbuf_append data x') E"
    have s: "tcp_send app c data st = (if r' < 0 then (-1, E) else
        (0, if length data \<ge> WG_TCP_MSS \<or> c_sendbuf_len (conn_at ?D c) \<ge> WG_TCP_MSS then tcp_flush_pending app c ?D else schedule_flush c ?D))"
      unfolding tcp_send_def c Let_def E prod.case cE g(1) using t(1,2) False by (simp only: simp_thms if_False de_Morgan_disj)
    show ?thesis
    proof (cases "r' = 0")
      case no: False
      then have "r = -1" "st' = E" using assms(2) s g(2) by auto
      then show ?thesis using x Em by (auto simp: emits_def tx_def conn_at_def)
    next
      case True
      have len: "c_sendbuf_len x' = c_sendbuf_len x" by (simp add: x')
      have "sendbuf_inv (sendbuf_append data x')" "unacked (sendbuf_append data x') = drop a (S @ data)"
        using sendbuf_append_spec [OF g(3), of data] g(4,5) True len t(10,11) by simp_all
      then have "tx_conn b (S @ data) a m (sendbuf_append data x')"
        using t unfolding tx_conn_def by (simp add: sendbuf_append_def Let_def x')
      moreover have "endpoints (sendbuf_append data x') = endpoints x" by (simp add: sendbuf_append_def endpoints_def Let_def x')
      ultimately have D: "emits b (S @ data) c st ?D" using Em x(1) by (auto simp: emits_def tx_def c conn_at_def)
      then have txD: "tx b (S @ data) c ?D" by (simp add: emits_def)
      let ?q = "upd_conn c (\<lambda>x. x\<lparr>c_flush_queued := True\<rparr>) ?D"
      have "emits b (S @ data) c st ?q" by (rule emits_upd_after [OF D]) (simp_all add: snd_view_def endpoints_def)
      then have sch: "emits b (S @ data) c st (schedule_flush c ?D)"
        using D by (auto simp: schedule_flush_def Let_def emits_def tx_def conn_at_def)
      have fl: "emits b (S @ data) c st (tcp_flush_pending app c ?D)" by (rule emits_trans [OF D flush_emits [OF txD]])
      have "r = 0" "st' = tcp_flush_pending app c ?D \<or> st' = schedule_flush c ?D" using assms(2) s True by auto
      then show ?thesis using fl sch by auto
    qed
  qed
qed

lemma retransmit_emits:
  assumes "tx b S c st" "c_retransmit_count (conn_at st c) < WG_TCP_MAX_RETRANSMIT"
  shows "emits b S c st (retransmit_cb app c st)"
proof -
  obtain x a m where x: "conn_mem st c = Some x" "tx_conn b S a m x" using assms(1) by (auto simp: tx_def)
  have c: "conn_at st c = x" using x(1) by (rule conn_at_eq)
  let ?E = "upd_conn c (\<lambda>x. x\<lparr>c_retransmit_count := c_retransmit_count x + 1\<rparr>) st"
  define y where "y = x\<lparr>c_retransmit_count := c_retransmit_count x + 1\<rparr>"
  have E: "emits b S c st ?E" by (rule emits_upd [OF assms(1)]) (simp_all add: snd_view_def endpoints_def)
  have Ey: "conn_mem ?E c = Some y" "conn_at ?E c = y" using x(1) by (simp_all add: y_def conn_at_def)
  have ty: "tx_conn b S a m y" using x(2) tx_conn_cong [of y x] by (simp add: y_def snd_view_def)
  have y: "\<not> c_retransmit_count y > WG_TCP_MAX_RETRANSMIT" "c_state y = TCPS_ESTABLISHED" "\<not> finishing y" "\<not> c_being_freed x"
    using x(2) assms(2) c by (simp_all add: y_def tx_conn_def finishing_def)
  let ?P = "send_plan app c (\<lambda>_. TCPF_ACK OR TCPF_PSH) (retransmit_plan y 0) ?E"
  let ?Q = "if c_sendbuf_len y > 0 then ?P else ?E"
  have "\<exists>t. retransmit_cb app c st = upd_conn c (\<lambda>z. z\<lparr>c_retransmit_timer := t z\<rparr>) ?Q"
    using y unfolding retransmit_cb_def c Let_def Ey(2) by (auto simp: case_prod_unfold)
  then obtain t where t: "retransmit_cb app c st = upd_conn c (\<lambda>z. z\<lparr>c_retransmit_timer := t z\<rparr>) ?Q" by blast
  have p: "off + len \<le> c_sendbuf_len y \<and> len \<le> conn_mss y" if "(off, len) \<in> set (retransmit_plan y 0)" for off len
    by (rule retransmit_plan_bounds [OF that])
  obtain pkts where "ts_out ?P = ts_out ?E @ pkts" "\<forall>pkt \<in> set pkts. carries b S y pkt"
    using send_plan_carries [OF Ey(1) ty p, of "retransmit_plan y 0" app] by blast
  then have "emits b S c ?E ?P" using Ey ty by (auto simp: emits_def tx_def conn_at_def)
  then have "emits b S c st ?Q" using E emits_trans by auto
  then show ?thesis unfolding t by (rule emits_upd_after) (simp_all add: snd_view_def endpoints_def)
qed

section \<open>A run of the sender\<close>

text \<open>What happens on the send side of an established connection: the application sends, the deferred flush runs, a segment without
  payload arrives (its acknowledgement and window), the retransmission timer fires.\<close>

datatype tx_op = Tx_Send bytes | Tx_Flush | Tx_Ack tcp_segment | Tx_Retransmit

fun tx_step :: "'a tcp_app \<Rightarrow> conn_ref \<Rightarrow> tx_op \<Rightarrow> bytes \<times> 'a tcpstack_scheme \<Rightarrow> bytes \<times> 'a tcpstack_scheme" where
  "tx_step app c (Tx_Send data) (S, st) = (let (r, st') = tcp_send app c data st in (if r = 0 then S @ data else S, st'))"
| "tx_step app c Tx_Flush (S, st) = (S, tcp_flush_pending app c st)"
| "tx_step app c (Tx_Ack sg) (S, st) =
     (S, if sg_payload sg = [] \<and> \<not> flag (sg_flags sg) TCPF_RST \<and> \<not> flag (sg_flags sg) TCPF_FIN then conn_segment app c sg st else st)"
| "tx_step app c Tx_Retransmit (S, st) =
     (S, if c_retransmit_count (conn_at st c) < WG_TCP_MAX_RETRANSMIT then retransmit_cb app c st else st)"

lemma ack_segment_emits:
  assumes "tx b S c st" "sg_payload sg = []" "\<not> flag (sg_flags sg) TCPF_RST" "\<not> flag (sg_flags sg) TCPF_FIN"
  shows "emits b S c st (conn_segment app c sg st)"
proof -
  define E where "E = upd_conn c (\<lambda>x. x\<lparr>c_snd_wnd := (if c_state x = TCPS_SYN_SENT then ucast (sg_window sg) else scaled_window x (sg_window sg))\<rparr>) st"
  have E: "emits b S c st E" unfolding E_def by (rule emits_upd [OF assms(1)]) (simp_all add: snd_view_def endpoints_def)
  then have tE: "tx b S c E" by (simp add: emits_def)
  then have "c_state (conn_at E c) = TCPS_ESTABLISHED" by (auto simp: tx_def tx_conn_def conn_at_def)
  then have "conn_segment app c sg st = (if flag (sg_flags sg) TCPF_ACK then established_ack app c (sg_ack sg) E else E)"
    unfolding conn_segment_def Let_def E_def [symmetric] using assms(2-4) by (simp add: receive_payload_def)
  then show ?thesis using E emits_trans [OF E ack_emits [OF tE]] by simp
qed

lemma emits_append: "emits b S c st st' \<Longrightarrow> \<exists>pkts. ts_out st' = ts_out st @ pkts \<and> (\<forall>pkt \<in> set pkts. carries b (S @ T) (conn_at st c) pkt)"
  unfolding emits_def using carries_append by blast

lemma tx_step_emits:
  assumes "tx b S c st" "tx_step app c op (S, st) = (S', st')"
  shows "emits b S' c st st' \<and> (\<exists>T. S' = S @ T)"
proof (cases op)
  case (Tx_Send data)
  obtain r st1 where r: "tcp_send app c data st = (r, st1)" by fastforce
  then show ?thesis using send_emits [OF assms(1) r] assms(2) Tx_Send by auto
next
  case (Tx_Ack sg)
  then show ?thesis using assms emits_refl [OF assms(1)] ack_segment_emits [OF assms(1), of sg app] by (auto split: if_splits)
next
  case Tx_Retransmit
  then show ?thesis using assms emits_refl [OF assms(1)] retransmit_emits [OF assms(1), of app] by (auto split: if_splits)
qed (use assms flush_emits [OF assms(1), of app] in auto)

lemma tx_run_emits:
  "tx b S c st \<Longrightarrow> (\<forall>pkt \<in> set (ts_out st). carries b S (conn_at st c) pkt) \<Longrightarrow> fold (tx_step app c) ops (S, st) = (S', st') \<Longrightarrow>
   \<forall>pkt \<in> set (ts_out st'). carries b S' (conn_at st c) pkt"
proof (induction ops arbitrary: S st)
  case (Cons op ops)
  obtain S1 st1 where 1: "tx_step app c op (S, st) = (S1, st1)" by fastforce
  from tx_step_emits [OF Cons.prems(1) 1] obtain T where e: "emits b S1 c st st1" and T: "S1 = S @ T" by blast
  have en: "endpoints (conn_at st1 c) = endpoints (conn_at st c)" using e by (simp add: emits_def)
  have "\<forall>pkt \<in> set (ts_out st1). carries b S1 (conn_at st c) pkt"
    using e Cons.prems(2) carries_append unfolding emits_def T by fastforce
  then have "\<forall>pkt \<in> set (ts_out st1). carries b S1 (conn_at st1 c) pkt" unfolding carries_cong [OF en] .
  from Cons.IH [OF _ this] show ?case using e Cons.prems(3) 1 unfolding carries_cong [OF en] by (simp add: emits_def)
qed simp

text \<open>The other end: the network hands a packet to the stack that has the remote address, which hands it to its connection.\<close>

definition receive_packet :: "'a tcp_app \<Rightarrow> conn_ref \<Rightarrow> u32 \<Rightarrow> bytes option \<Rightarrow> bytes \<Rightarrow> 'a tcpstack_scheme \<Rightarrow> 'a tcpstack_scheme" where
  "receive_packet app c ip ip6 pkt st = (case parse_packet ip ip6 pkt of Segment sg \<Rightarrow> conn_segment app c sg st | _ \<Rightarrow> st)"

lemma ack_psh: "\<not> flag (TCPF_ACK OR TCPF_PSH) TCPF_FIN" "\<not> flag (TCPF_ACK OR TCPF_PSH) TCPF_RST"
  by (code_simp, code_simp)

lemma addresses_cong: "endpoints y = endpoints x \<Longrightarrow> addresses_ok y = addresses_ok x"
  by (simp add: addresses_ok_def endpoints_def)

lemma carries_parse:
  assumes "carries b S x pkt" "addresses_ok x"
  shows "\<exists>sg. parse_packet (c_remote_ip x) (Some (c_remote_ip6 x)) pkt = Segment sg \<and> \<not> flag (sg_flags sg) TCPF_FIN \<and> genuine b S (sg_seq sg) (sg_payload sg)"
proof -
  obtain y w seq ack data where p: "pkt = segment_packet y w (TCPF_ACK OR TCPF_PSH) seq ack data" "endpoints y = endpoints x"
    "length data \<le> WG_TCP_MSS" "genuine b S seq data" using assms(1) by (auto simp: carries_def)
  have "addresses_ok y" using assms(2) addresses_cong [OF p(2)] by simp
  moreover have "c_remote_ip y = c_remote_ip x" "c_remote_ip6 y = c_remote_ip6 x" using p(2) by (simp_all add: endpoints_def)
  ultimately show ?thesis using parse_segment [OF _ p(3), of y w "TCPF_ACK OR TCPF_PSH" seq ack] p(1,4) ack_psh(1) by simp
qed

lemma receive_packets_segments:
  assumes "\<And>pkt. pkt \<in> set pkts \<Longrightarrow> \<exists>sg. parse_packet ip ip6 pkt = Segment sg \<and> Q sg"
  shows "\<exists>sgs. fold (receive_packet app c ip ip6) pkts st = fold (conn_segment app c) sgs st \<and> (\<forall>sg \<in> set sgs. Q sg)"
  using assms
proof (induction pkts arbitrary: st)
  case (Cons pkt pkts)
  obtain sg where sg: "parse_packet ip ip6 pkt = Segment sg" "Q sg" using Cons.prems [of pkt] by auto
  obtain sgs where "fold (receive_packet app c ip ip6) pkts (conn_segment app c sg st) = fold (conn_segment app c) sgs (conn_segment app c sg st)"
    "\<forall>sg \<in> set sgs. Q sg" using Cons.IH [of "conn_segment app c sg st"] Cons.prems by auto
  moreover have "receive_packet app c ip ip6 pkt st = conn_segment app c sg st" by (simp add: receive_packet_def sg(1))
  ultimately show ?case using sg(2) by (intro exI [of _ "sg # sgs"]) simp
qed (auto intro: exI [of _ "[]"])

section \<open>Properties\<close>



section \<open>Witnesses\<close>

definition conn_peer :: tcp_conn where
  "conn_peer = conn_open\<lparr>c_snd_una := 1000, c_snd_nxt := 1000\<rparr>"

definition stack_peer :: tcpstack where
  "stack_peer = stack_zero\<lparr>conn_mem := [0 \<mapsto> conn_peer]\<rparr>"

lemma conn_peer_tx: "tx_conn 1000 [] 0 0 conn_peer" "addresses_ok conn_peer" "conn_mem stack_peer 0 = Some conn_peer" "ts_out stack_peer = []"
  by (simp_all add: tx_conn_def conn_peer_def conn_open_def conn_example4_def conn_zero_def sendbuf_inv_def unacked_def WG_TCP_MSS_def
      WG_TCP_SENDBUF_SIZE_def addresses_ok_def stack_peer_def stack_zero_def)

definition run_peer :: "bytes \<times> tcpstack" where
  "run_peer = fold (tx_step quiet_app 0) [Tx_Send [1, 2, 3], Tx_Flush, Tx_Send [4, 5], Tx_Flush, Tx_Retransmit] ([], stack_peer)"

lemma run_peer_length: "length (fst run_peer) < 2 ^ 31"
proof -
  have "length (fst (fold (tx_step app c) ops (S, st))) \<le> length S + sum_list (map (\<lambda>op. case op of Tx_Send d \<Rightarrow> length d | _ \<Rightarrow> 0) ops)" for app c ops S st
  proof (induction ops arbitrary: S st)
    case (Cons op ops)
    obtain S' st' where s: "tx_step app c op (S, st) = (S', st')" by fastforce
    then have "length S' \<le> length S + (case op of Tx_Send d \<Rightarrow> length d | _ \<Rightarrow> 0)" by (cases op) (auto split: prod.splits if_splits)
    then show ?case using Cons.IH [of S' st'] s by simp
  qed simp
  from this [of quiet_app 0 "[Tx_Send [1, 2, 3], Tx_Flush, Tx_Send [4, 5], Tx_Flush, Tx_Retransmit]" "[]" stack_peer] show ?thesis
    by (simp add: run_peer_def)
qed



end
