(* ===== verification/Tcp_Worker.thy ===== *)
theory Tcp_Worker
  imports Fifo Device "HOL-Library.Multiset"
begin

text \<open>
  The worker thread of the SOCKS5 mode (\<^verbatim>\<open>src/src/tcp_worker.c\<close>): two bounded rings of packet buffers between the main thread and
  the worker, a shared pool with a private free list per thread, and the wake-ups between the two event loops. The steps
  between lock operations of the two threads interleave in any order; shown are that every buffer has exactly one owner,
  that packets arrive complete, unchanged and in order, and that no wake-up is lost.
\<close>

section \<open>Rings\<close>

definition TCP_WORKER_QUEUE_CAP :: nat where "TCP_WORKER_QUEUE_CAP = 8192"
definition TCP_WORKER_POOL_SIZE :: nat where "TCP_WORKER_POOL_SIZE = TCP_WORKER_QUEUE_CAP * 2"
definition TCP_WORKER_BATCH_LIMIT :: nat where "TCP_WORKER_BATCH_LIMIT = 128"

type_synonym msg_ref = nat

record packet_ring =
  r_slots :: "nat \<Rightarrow> msg_ref option"
  r_head :: nat
  r_len :: nat
  r_enqueued :: u64
  r_dequeued :: u64
  r_dropped :: u64
  r_high_water :: u64

definition packet_ring_init :: packet_ring where
  "packet_ring_init = \<lparr>r_slots = \<lambda>_. None, r_head = 0, r_len = 0, r_enqueued = 0, r_dequeued = 0, r_dropped = 0, r_high_water = 0\<rparr>"

text \<open>The result, whether the ring was empty, and the ring.\<close>

definition ring_push :: "packet_ring \<Rightarrow> msg_ref \<Rightarrow> int \<times> bool \<times> packet_ring" where
  "ring_push r m =
     (if r_len r = TCP_WORKER_QUEUE_CAP then (-1, False, r\<lparr>r_dropped := r_dropped r + 1\<rparr>)
      else
        let idx = (r_head r + r_len r) mod TCP_WORKER_QUEUE_CAP;
            was_empty = (r_len r = 0);
            r = r\<lparr>r_slots := (r_slots r)(idx := Some m), r_len := r_len r + 1, r_enqueued := r_enqueued r + 1\<rparr>;
            r = (if of_nat (r_len r) > r_high_water r then r\<lparr>r_high_water := of_nat (r_len r)\<rparr> else r)
        in (0, was_empty, r))"

definition ring_pop :: "packet_ring \<Rightarrow> msg_ref option \<times> packet_ring" where
  "ring_pop r =
     (if r_len r = 0 then (None, r)
      else
        (r_slots r (r_head r),
         r\<lparr>r_slots := (r_slots r)(r_head r := None), r_head := (r_head r + 1) mod TCP_WORKER_QUEUE_CAP,
           r_len := r_len r - 1, r_dequeued := r_dequeued r + 1\<rparr>))"

definition ring_has_items :: "packet_ring \<Rightarrow> bool" where
  "ring_has_items r \<longleftrightarrow> r_len r > 0"

text \<open>The inner loop of the two drain functions: up to \<open>n\<close> messages under the lock.\<close>

fun ring_take :: "nat \<Rightarrow> packet_ring \<Rightarrow> msg_ref list \<times> packet_ring" where
  "ring_take 0 r = ([], r)"
| "ring_take (Suc n) r =
     (case ring_pop r of
        (None, r) \<Rightarrow> ([], r)
      | (Some m, r) \<Rightarrow> let (ms, r) = ring_take n r in (m # ms, r))"

section \<open>Pools\<close>

text \<open>The functions for the two threads differ only in the fields they use: the free list, its length, and the ring the thread
  fills (\<^verbatim>\<open>inbound\<close> for the main thread, \<^verbatim>\<open>outbound\<close> for the worker). A message is its number among \<^verbatim>\<open>pool_nodes\<close>, with its bytes.\<close>

datatype side = Main | Worker

primrec other :: "side \<Rightarrow> side" where
  "other Main = Worker"
| "other Worker = Main"

record tcp_worker =
  w_ring :: "side \<Rightarrow> packet_ring"
  w_free_list :: "msg_ref list"
  w_local :: "side \<Rightarrow> msg_ref list"
  w_count :: "side \<Rightarrow> nat"
  w_msg :: "msg_ref \<Rightarrow> bytes"

definition pool_acquire :: "side \<Rightarrow> tcp_worker \<Rightarrow> msg_ref option \<times> tcp_worker" where
  "pool_acquire s w =
     (case w_local w s of
        m # ms \<Rightarrow> (Some m, w\<lparr>w_local := (w_local w)(s := ms), w_count := (w_count w)(s := w_count w s - 1)\<rparr>)
      | [] \<Rightarrow>
          case w_free_list w of
            [] \<Rightarrow> (None, w)
          | m # ms \<Rightarrow>
              let grabbed = take 31 ms
              in (Some m, w\<lparr>w_free_list := drop 31 ms, w_local := (w_local w)(s := grabbed), w_count := (w_count w)(s := length grabbed)\<rparr>))"

text \<open>\<open>None\<close>: the loop over the local list runs into its end and dereferences a null pointer.\<close>

definition pool_release :: "side \<Rightarrow> tcp_worker \<Rightarrow> msg_ref \<Rightarrow> tcp_worker option" where
  "pool_release s w m =
     (let w = w\<lparr>w_msg := (w_msg w)(m := [])\<rparr>
      in if w_count w s < 64 then
           Some (w\<lparr>w_local := (w_local w)(s := m # w_local w s), w_count := (w_count w)(s := w_count w s + 1)\<rparr>)
         else if length (w_local w s) < 32 then None
         else
           Some (w\<lparr>w_free_list := (m # drop 32 (w_local w s)) @ w_free_list w,
                   w_local := (w_local w)(s := take 32 (w_local w s)), w_count := (w_count w)(s := 32)\<rparr>))"

definition pool_acquire_main :: "tcp_worker \<Rightarrow> msg_ref option \<times> tcp_worker" where "pool_acquire_main = pool_acquire Main"
definition pool_acquire_worker :: "tcp_worker \<Rightarrow> msg_ref option \<times> tcp_worker" where "pool_acquire_worker = pool_acquire Worker"
definition pool_release_main :: "tcp_worker \<Rightarrow> msg_ref \<Rightarrow> tcp_worker option" where "pool_release_main = pool_release Main"
definition pool_release_worker :: "tcp_worker \<Rightarrow> msg_ref \<Rightarrow> tcp_worker option" where "pool_release_worker = pool_release Worker"

definition worker_init :: tcp_worker where
  "worker_init = \<lparr>w_ring = \<lambda>_. packet_ring_init, w_free_list = rev [0..<TCP_WORKER_POOL_SIZE], w_local = \<lambda>_. [], w_count = \<lambda>_. 0, w_msg = \<lambda>_. []\<rparr>"

text \<open>The two enqueue functions, as one thread runs them: the result, whether the other side is woken, the new state.\<close>

definition tcp_worker_enqueue :: "side \<Rightarrow> tcp_worker \<Rightarrow> bytes \<Rightarrow> (int \<times> bool \<times> tcp_worker) option" where
  "tcp_worker_enqueue s w pkt =
     (if length pkt > WG_MAX_MESSAGE_SIZE then Some (-1, False, w)
      else case pool_acquire s w of
        (None, w) \<Rightarrow> Some (-1, False, w)
      | (Some m, w) \<Rightarrow>
          let w = w\<lparr>w_msg := (w_msg w)(m := pkt)\<rparr>;
              (ret, was_empty, r) = ring_push (w_ring w s) m;
              w = w\<lparr>w_ring := (w_ring w)(s := r)\<rparr>
          in if ret < 0 then map_option (\<lambda>w. (-1, False, w)) (pool_release s w m) else Some (ret, was_empty, w))"

definition tcp_worker_enqueue_inbound :: "tcp_worker \<Rightarrow> bytes \<Rightarrow> (int \<times> bool \<times> tcp_worker) option" where
  "tcp_worker_enqueue_inbound = tcp_worker_enqueue Main"

definition tcp_worker_enqueue_outbound :: "tcp_worker \<Rightarrow> bytes \<Rightarrow> (int \<times> bool \<times> tcp_worker) option" where
  "tcp_worker_enqueue_outbound = tcp_worker_enqueue Worker"

section \<open>The packets the main thread sends for the worker\<close>

definition device_send_ip_packet_local :: "sodium \<Rightarrow> wg_device \<Rightarrow> bytes \<Rightarrow> int \<times> wg_device" where
  "device_send_ip_packet_local sd dev pkt =
     (if length pkt < 20 then (-1, dev)
      else
        let version = drop_bit 4 (pkt ! 0)
        in if version = 4 then
             (case allowedips_lookup_v4 (d_allowedips dev) (slice 16 4 pkt) of
                None \<Rightarrow> (-1, dev) | Some p \<Rightarrow> device_send_to_peer sd dev p pkt)
           else if version = 6 then
             (if length pkt < 40 then (-1, dev)
              else case allowedips_lookup_v6 (d_allowedips dev) (slice 24 16 pkt) of
                None \<Rightarrow> (-1, dev) | Some p \<Rightarrow> device_send_to_peer sd dev p pkt)
           else (-1, dev))"

lemma send_local_same: "\<not> (d_socks5_mode dev \<and> d_tcp_worker dev) \<Longrightarrow> device_send_ip_packet_local sd dev pkt = device_send_ip_packet sd enq dev pkt"
  by (auto simp: device_send_ip_packet_local_def device_send_ip_packet_def)

section \<open>The two threads\<close>

text \<open>Where a thread is in \<^verbatim>\<open>tcp_worker_enqueue_inbound\<close> or \<^verbatim>\<open>tcp_worker_enqueue_outbound\<close>: with a filled message before the lock, with
  a message the ring refused, or before it wakes the other side.\<close>

datatype push_pc = P_Idle | P_Push msg_ref | P_Drop msg_ref | P_Notify

text \<open>Where it is in its wake-up callback: before the next round (with the number of messages processed and the last \<^verbatim>\<open>more\<close>),
  with a batch in hand, or before it possibly wakes itself again.\<close>

datatype drain_pc = D_Idle | D_Round nat bool | D_Batch nat bool "msg_ref list" | D_End bool

text \<open>The state of the system. \<open>sy_async s\<close> is the pending flag of the wake-up handle of side \<open>s\<close>. \<open>sy_in s\<close> logs the packets that
  the ring filled by \<open>s\<close> has accepted, \<open>sy_out s\<close> those that the other side has taken from it and passed on.\<close>

record wsys =
  sy_w :: tcp_worker
  sy_push :: "side \<Rightarrow> push_pc"
  sy_drain :: "side \<Rightarrow> drain_pc"
  sy_async :: "side \<Rightarrow> bool"
  sy_in :: "side \<Rightarrow> bytes list"
  sy_out :: "side \<Rightarrow> bytes list"

definition wsys_init :: wsys where
  "wsys_init = \<lparr>sy_w = worker_init, sy_push = \<lambda>_. P_Idle, sy_drain = \<lambda>_. D_Idle, sy_async = \<lambda>_. False, sy_in = \<lambda>_. [], sy_out = \<lambda>_. []\<rparr>"

text \<open>One step of side \<open>s\<close>. It fills the ring \<open>s\<close> and drains the ring of the other side.\<close>

definition acquire_step :: "side \<Rightarrow> bytes \<Rightarrow> wsys \<Rightarrow> wsys option" where
  "acquire_step s pkt y =
     (if sy_push y s \<noteq> P_Idle \<or> length pkt > WG_MAX_MESSAGE_SIZE then None
      else case pool_acquire s (sy_w y) of
        (None, w) \<Rightarrow> Some (y\<lparr>sy_w := w\<rparr>)
      | (Some m, w) \<Rightarrow> Some (y\<lparr>sy_w := w\<lparr>w_msg := (w_msg w)(m := pkt)\<rparr>, sy_push := (sy_push y)(s := P_Push m)\<rparr>))"

definition push_step :: "side \<Rightarrow> wsys \<Rightarrow> wsys option" where
  "push_step s y =
     (case sy_push y s of
        P_Push m \<Rightarrow>
          let w = sy_w y; (ret, was_empty, r) = ring_push (w_ring w s) m;
              y = y\<lparr>sy_w := w\<lparr>w_ring := (w_ring w)(s := r)\<rparr>\<rparr>
          in if ret < 0 then Some (y\<lparr>sy_push := (sy_push y)(s := P_Drop m)\<rparr>)
             else Some (y\<lparr>sy_push := (sy_push y)(s := if was_empty then P_Notify else P_Idle), sy_in := (sy_in y)(s := sy_in y s @ [w_msg w m])\<rparr>)
      | P_Drop m \<Rightarrow> map_option (\<lambda>w. y\<lparr>sy_w := w, sy_push := (sy_push y)(s := P_Idle)\<rparr>) (pool_release s (sy_w y) m)
      | P_Notify \<Rightarrow> Some (y\<lparr>sy_async := (sy_async y)(other s := True), sy_push := (sy_push y)(s := P_Idle)\<rparr>)
      | P_Idle \<Rightarrow> None)"

definition drain_step :: "side \<Rightarrow> wsys \<Rightarrow> wsys option" where
  "drain_step s y =
     (case sy_drain y s of
        D_Idle \<Rightarrow> if sy_async y s then Some (y\<lparr>sy_async := (sy_async y)(s := False), sy_drain := (sy_drain y)(s := D_Round 0 False)\<rparr>) else None
      | D_Round n again \<Rightarrow>
          if n < TCP_WORKER_BATCH_LIMIT then
            let w = sy_w y; (ms, r) = ring_take (TCP_WORKER_BATCH_LIMIT - n) (w_ring w (other s)); again = ring_has_items r;
                y = y\<lparr>sy_w := w\<lparr>w_ring := (w_ring w)(other s := r)\<rparr>\<rparr>
            in if ms = [] then Some (y\<lparr>sy_drain := (sy_drain y)(s := D_End again)\<rparr>)
               else Some (y\<lparr>sy_drain := (sy_drain y)(s := D_Batch (n + length ms) again ms)\<rparr>)
          else Some (y\<lparr>sy_drain := (sy_drain y)(s := D_End again)\<rparr>)
      | D_Batch n again [] \<Rightarrow> Some (y\<lparr>sy_drain := (sy_drain y)(s := D_Round n again)\<rparr>)
      | D_Batch n again (m # ms) \<Rightarrow>
          map_option (\<lambda>w. y\<lparr>sy_w := w, sy_drain := (sy_drain y)(s := D_Batch n again ms),
              sy_out := (sy_out y)(other s := sy_out y (other s) @ [w_msg (sy_w y) m])\<rparr>)
            (pool_release s (sy_w y) m)
      | D_End again \<Rightarrow> Some (y\<lparr>sy_async := (sy_async y)(s := sy_async y s \<or> again), sy_drain := (sy_drain y)(s := D_Idle)\<rparr>))"

definition drain_outbound_step :: "wsys \<Rightarrow> wsys option" where "drain_outbound_step = drain_step Main"
definition drain_inbound_step :: "wsys \<Rightarrow> wsys option" where "drain_inbound_step = drain_step Worker"

inductive wstep :: "wsys \<Rightarrow> wsys \<Rightarrow> bool" where
  acquire: "acquire_step s pkt y = Some y' \<Longrightarrow> wstep y y'"
| push: "push_step s y = Some y' \<Longrightarrow> wstep y y'"
| drain: "drain_step s y = Some y' \<Longrightarrow> wstep y y'"

inductive wreach :: "wsys \<Rightarrow> bool" where
  init: "wreach wsys_init"
| step: "wreach y \<Longrightarrow> wstep y y' \<Longrightarrow> wreach y'"

text \<open>The steps of a thread that is not interrupted are those of the enqueue function.\<close>

lemma enqueue_steps:
  assumes "sy_push y s = P_Idle" "tcp_worker_enqueue s (sy_w y) pkt = Some (ret, wake, w)" "length pkt \<le> WG_MAX_MESSAGE_SIZE"
  shows "\<exists>y'. wstep\<^sup>*\<^sup>* y y' \<and> sy_w y' = w \<and> sy_push y' s = P_Idle \<and> sy_async y' = (if wake then (sy_async y)(other s := True) else sy_async y) \<and>
    sy_in y' s = (if ret = 0 then sy_in y s @ [pkt] else sy_in y s)"
proof -
  obtain res w1 where a: "pool_acquire s (sy_w y) = (res, w1)" by fastforce
  show ?thesis
  proof (cases res)
    case None
    then have "acquire_step s pkt y = Some (y\<lparr>sy_w := w1\<rparr>)" using assms a by (simp add: acquire_step_def)
    then show ?thesis using assms a None
      by (intro exI [of _ "y\<lparr>sy_w := w1\<rparr>"]) (auto simp: tcp_worker_enqueue_def intro!: r_into_rtranclp wstep.acquire split: if_splits)
  next
    case (Some m)
    let ?w2 = "w1\<lparr>w_msg := (w_msg w1)(m := pkt)\<rparr>"
    let ?y1 = "y\<lparr>sy_w := ?w2, sy_push := (sy_push y)(s := P_Push m)\<rparr>"
    have 1: "wstep y ?y1" by (rule wstep.acquire [of s pkt]) (use assms a Some in \<open>simp add: acquire_step_def\<close>)
    obtain ret' we r where p: "ring_push (w_ring w1 s) m = (ret', we, r)" by (cases "ring_push (w_ring w1 s) m")
    have ret': "ret' = 0 \<or> ret' < 0" "ret' < 0 \<Longrightarrow> \<not> we" using p by (auto simp: ring_push_def Let_def split: if_splits)
    let ?w3 = "?w2\<lparr>w_ring := (w_ring w1)(s := r)\<rparr>"
    show ?thesis
    proof (cases "ret' < 0")
      case True
      let ?y2 = "?y1\<lparr>sy_w := ?w3, sy_push := (sy_push y)(s := P_Drop m)\<rparr>"
      have 2: "wstep ?y1 ?y2" by (rule wstep.push [of s]) (use p True in \<open>simp add: push_step_def Let_def\<close>)
      have w: "ret = -1" "\<not> wake" "pool_release s ?w3 m = Some w" using assms a Some p True by (auto simp: tcp_worker_enqueue_def)
      have 3: "wstep ?y2 (?y2\<lparr>sy_w := w, sy_push := (sy_push y)(s := P_Idle)\<rparr>)"
        by (rule wstep.push [of s]) (use w in \<open>simp add: push_step_def\<close>)
      have "wstep\<^sup>*\<^sup>* y (?y2\<lparr>sy_w := w, sy_push := (sy_push y)(s := P_Idle)\<rparr>)" using 1 2 3 by (meson converse_rtranclp_into_rtranclp r_into_rtranclp)
      then show ?thesis using w by (intro exI [of _ "?y2\<lparr>sy_w := w, sy_push := (sy_push y)(s := P_Idle)\<rparr>"]) simp
    next
      case False
      let ?y2 = "?y1\<lparr>sy_w := ?w3, sy_push := (sy_push y)(s := if we then P_Notify else P_Idle), sy_in := (sy_in y)(s := sy_in y s @ [pkt])\<rparr>"
      have 2: "wstep ?y1 ?y2" by (rule wstep.push [of s]) (use p False in \<open>simp add: push_step_def Let_def\<close>)
      have w: "ret = 0" "wake = we" "w = ?w3" using assms a Some p False ret'(1) by (auto simp: tcp_worker_enqueue_def)
      show ?thesis
      proof (cases we)
        case True
        let ?y3 = "?y2\<lparr>sy_async := (sy_async y)(other s := True), sy_push := (sy_push y)(s := P_Idle)\<rparr>"
        have 3: "wstep ?y2 ?y3" by (rule wstep.push [of s]) (use True in \<open>simp add: push_step_def\<close>)
        have "wstep\<^sup>*\<^sup>* y ?y3" using 1 2 3 by (meson converse_rtranclp_into_rtranclp r_into_rtranclp)
        then show ?thesis using w True by (intro exI [of _ ?y3]) simp
      next
        case False
        have "wstep\<^sup>*\<^sup>* y ?y2" using 1 2 by (meson converse_rtranclp_into_rtranclp r_into_rtranclp)
        then show ?thesis using w False by (intro exI [of _ ?y2]) simp
      qed
    qed
  qed
qed

section \<open>The ring is a bounded queue\<close>

definition ring_inv :: "packet_ring \<Rightarrow> bool" where
  "ring_inv r \<longleftrightarrow> r_head r < TCP_WORKER_QUEUE_CAP \<and> r_len r \<le> TCP_WORKER_QUEUE_CAP \<and>
     (\<forall>i < r_len r. r_slots r ((r_head r + i) mod TCP_WORKER_QUEUE_CAP) \<noteq> None)"

definition msgs :: "packet_ring \<Rightarrow> msg_ref list" where
  "msgs r = ring TCP_WORKER_QUEUE_CAP (\<lambda>i. the (r_slots r i)) (r_head r) (r_len r)"

lemma cap_pos: "0 < TCP_WORKER_QUEUE_CAP" "1 < TCP_WORKER_QUEUE_CAP"
  by (simp_all add: TCP_WORKER_QUEUE_CAP_def)

lemma length_msgs [simp]: "length (msgs r) = r_len r"
  by (simp add: msgs_def)

lemma ring_push_full: "r_len r = TCP_WORKER_QUEUE_CAP \<Longrightarrow> ring_push r m = (-1, False, r\<lparr>r_dropped := r_dropped r + 1\<rparr>)"
  by (simp add: ring_push_def)

lemma ring_push_ok:
  assumes "ring_inv r" "r_len r < TCP_WORKER_QUEUE_CAP"
  shows "\<exists>r'. ring_push r m = (0, r_len r = 0, r') \<and> ring_inv r' \<and> msgs r' = msgs r @ [m]"
proof -
  let ?idx = "(r_head r + r_len r) mod TCP_WORKER_QUEUE_CAP"
  define r1 where "r1 = r\<lparr>r_slots := (r_slots r)(?idx := Some m), r_len := r_len r + 1, r_enqueued := r_enqueued r + 1\<rparr>"
  define r2 where "r2 = (if of_nat (r_len r1) > r_high_water r1 then r1\<lparr>r_high_water := of_nat (r_len r1)\<rparr> else r1)"
  have p: "ring_push r m = (0, r_len r = 0, r2)" using assms(2) by (simp add: ring_push_def r1_def r2_def Let_def)
  have f: "r_slots r2 = (r_slots r)(?idx := Some m)" "r_head r2 = r_head r" "r_len r2 = Suc (r_len r)" by (simp_all add: r1_def r2_def)
  have "ring_inv r2" using assms by (auto simp: ring_inv_def f less_Suc_eq)
  moreover have "(\<lambda>i. the (r_slots r2 i)) = (\<lambda>i. the (r_slots r i))(?idx := m)" by (auto simp: f)
  then have "msgs r2 = msgs r @ [m]" using Fifo.ring_push [OF assms(2)] by (simp add: msgs_def f)
  ultimately show ?thesis using p by blast
qed

lemma ring_pop_ok:
  assumes "ring_inv r" "msgs r \<noteq> []"
  shows "\<exists>r'. ring_pop r = (Some (hd (msgs r)), r') \<and> ring_inv r' \<and> msgs r' = tl (msgs r)"
proof -
  obtain n where n: "r_len r = Suc n" using assms(2) by (cases "r_len r") (auto simp: msgs_def)
  let ?r = "snd (ring_pop r)"
  have h: "r_head r < TCP_WORKER_QUEUE_CAP" "Suc n \<le> TCP_WORKER_QUEUE_CAP" using assms(1) by (simp_all add: ring_inv_def n)
  have s: "r_slots r ((r_head r + i) mod TCP_WORKER_QUEUE_CAP) \<noteq> None" if "i < Suc n" for i
    using assms(1) that by (simp add: ring_inv_def n)
  have f: "r_slots ?r = (r_slots r)(r_head r := None)" "r_head ?r = (r_head r + 1) mod TCP_WORKER_QUEUE_CAP" "r_len ?r = n"
    by (simp_all add: ring_pop_def n)
  have ne: "(r_head r + 1 + i) mod TCP_WORKER_QUEUE_CAP \<noteq> r_head r" if "i < n" for i
  proof -
    have "(r_head r + 0) mod TCP_WORKER_QUEUE_CAP \<noteq> (r_head r + Suc i) mod TCP_WORKER_QUEUE_CAP"
      by (rule ring_slot_distinct) (use that h in auto)
    then show ?thesis using h by simp
  qed
  have slot: "r_slots ?r ((r_head ?r + i) mod TCP_WORKER_QUEUE_CAP) = r_slots r ((r_head ?r + i) mod TCP_WORKER_QUEUE_CAP)" if "i < n" for i
    using ne [OF that] by (simp add: f mod_add_left_eq)
  have "r_slots ?r ((r_head ?r + i) mod TCP_WORKER_QUEUE_CAP) \<noteq> None" if "i < n" for i
    using s [of "Suc i"] that slot [OF that] by (simp add: f mod_add_left_eq)
  then have "ring_inv ?r" using h cap_pos(1) by (simp add: ring_inv_def f)
  moreover have "msgs ?r = ring TCP_WORKER_QUEUE_CAP (\<lambda>i. the (r_slots r i)) (r_head ?r) n"
    unfolding msgs_def f(3) by (rule ring_cong) (use slot in simp)
  then have "msgs ?r = tl (msgs r)" by (simp add: f(2) Fifo.ring_pop [where cap = TCP_WORKER_QUEUE_CAP, simplified] msgs_def n)
  moreover have "hd (msgs r) = the (r_slots r (r_head r))" unfolding msgs_def n by (rule ring_hd) (use h in simp_all)
  then have "fst (ring_pop r) = Some (hd (msgs r))" using s [of 0] h(1) by (auto simp: ring_pop_def n)
  ultimately show ?thesis by (metis prod.collapse)
qed

interpretation wring: bounded_fifo ring_inv msgs TCP_WORKER_QUEUE_CAP "\<lambda>_. True"
  "\<lambda>m r. snd (snd (ring_push r m))" "\<lambda>r. the (fst (ring_pop r))" "\<lambda>r. snd (ring_pop r)"
proof
  fix r m
  assume i: "ring_inv r"
  show "length (msgs r) \<le> TCP_WORKER_QUEUE_CAP" using i by (simp add: ring_inv_def)
  show "ring_inv (snd (snd (ring_push r m)))"
  proof (cases "r_len r < TCP_WORKER_QUEUE_CAP")
    case True
    then show ?thesis using ring_push_ok [OF i True, of m] by auto
  next
    case False
    then show ?thesis using i by (simp add: ring_push_full ring_inv_def)
  qed
  show "msgs (snd (snd (ring_push r m))) = (if True \<and> length (msgs r) < TCP_WORKER_QUEUE_CAP then msgs r @ [m] else msgs r)"
  proof (cases "r_len r < TCP_WORKER_QUEUE_CAP")
    case True
    then show ?thesis using ring_push_ok [OF i True, of m] by auto
  next
    case False
    then show ?thesis using i by (simp add: ring_push_full ring_inv_def msgs_def)
  qed
  show "the (fst (ring_pop r)) = hd (msgs r)" "ring_inv (snd (ring_pop r))" "msgs (snd (ring_pop r)) = tl (msgs r)" if "msgs r \<noteq> []"
    using ring_pop_ok [OF i that] by auto
qed

lemma ring_take_ok:
  assumes "ring_inv r" "ring_take n r = (ms, r')"
  shows "ring_inv r' \<and> msgs r = ms @ msgs r' \<and> length ms \<le> n \<and> (msgs r' \<noteq> [] \<longrightarrow> length ms = n)"
  using assms
proof (induction n arbitrary: r ms)
  case (Suc n)
  show ?case
  proof (cases "msgs r = []")
    case True
    then have "r_len r = 0" by (metis length_msgs list.size(3))
    then show ?thesis using Suc.prems True by (auto simp: ring_pop_def)
  next
    case False
    obtain r1 where r1: "ring_pop r = (Some (hd (msgs r)), r1)" "ring_inv r1" "msgs r1 = tl (msgs r)" using ring_pop_ok [OF Suc.prems(1) False] by blast
    obtain ms1 where t: "ring_take n r1 = (ms1, r')" "ms = hd (msgs r) # ms1" using Suc.prems(2) r1(1) by (auto split: prod.splits)
    then show ?thesis using Suc.IH [OF r1(2) t(1)] r1(3) False by (metis append_Cons hd_Cons_tl length_Cons Suc_le_mono)
  qed
qed auto

section \<open>Who owns a buffer\<close>

primrec held_push :: "push_pc \<Rightarrow> msg_ref list" where
  "held_push P_Idle = []"
| "held_push (P_Push m) = [m]"
| "held_push (P_Drop m) = [m]"
| "held_push P_Notify = []"

primrec held_drain :: "drain_pc \<Rightarrow> msg_ref list" where
  "held_drain D_Idle = []"
| "held_drain (D_Round n again) = []"
| "held_drain (D_Batch n again ms) = ms"
| "held_drain (D_End again) = []"

text \<open>The buffers that are on their way: in a ring, or in the hands of a thread.\<close>

definition transit_side :: "wsys \<Rightarrow> side \<Rightarrow> msg_ref list" where
  "transit_side y s = msgs (w_ring (sy_w y) s) @ held_push (sy_push y s) @ held_drain (sy_drain y s)"

definition transit :: "wsys \<Rightarrow> msg_ref list" where
  "transit y = transit_side y Main @ transit_side y Worker"

definition owners :: "wsys \<Rightarrow> msg_ref list" where
  "owners y = w_free_list (sy_w y) @ w_local (sy_w y) Main @ w_local (sy_w y) Worker @ transit y"

lemma other_simps [simp]: "other s \<noteq> s" "s \<noteq> other s" "other (other s) = s"
  by (cases s; simp)+

lemma all_sides: "(\<forall>s. P s) \<longleftrightarrow> P s \<and> P (other s)"
  by (metis other.simps side.exhaust)

lemma mset_transit: "mset (transit y) = mset (transit_side y s) + mset (transit_side y (other s))"
  by (cases s) (simp_all add: transit_def)

lemma set_transit: "set (transit y) = set (transit_side y s) \<union> set (transit_side y (other s))"
  by (cases s) (auto simp: transit_def)

lemma mset_owners:
  "mset (owners y) = mset (w_free_list (sy_w y)) + mset (w_local (sy_w y) s) + mset (transit y) + mset (w_local (sy_w y) (other s))"
  by (cases s) (simp_all add: owners_def)

definition all_refs :: "msg_ref multiset" where
  "all_refs = mset [0..<TCP_WORKER_POOL_SIZE]"

lemma owners_distinct: "mset (owners y) = all_refs \<Longrightarrow> distinct (owners y)"
  using mset_eq_imp_distinct_iff [of "owners y" "[0..<TCP_WORKER_POOL_SIZE]"] by (simp add: all_refs_def)

lemma owners_change:
  assumes "mset (owners y) = all_refs" "w_local (sy_w y') (other s) = w_local (sy_w y) (other s)"
    "mset (w_free_list (sy_w y')) + mset (w_local (sy_w y') s) + mset (transit y') =
     mset (w_free_list (sy_w y)) + mset (w_local (sy_w y) s) + mset (transit y)"
  shows "mset (owners y') = all_refs"
  using assms by (simp add: mset_owners [of _ s])

definition local_ok :: "tcp_worker \<Rightarrow> side \<Rightarrow> bool" where
  "local_ok w s \<longleftrightarrow> w_count w s = length (w_local w s) \<and> w_count w s \<le> 64"

lemma pool_acquire_ok:
  assumes "local_ok w s" "pool_acquire s w = (res, w')"
  shows "local_ok w' s \<and> w_ring w' = w_ring w \<and> w_msg w' = w_msg w \<and> w_local w' (other s) = w_local w (other s) \<and>
    w_count w' (other s) = w_count w (other s) \<and>
    mset (w_free_list w) + mset (w_local w s) = mset (w_free_list w') + mset (w_local w' s) + mset (case res of None \<Rightarrow> [] | Some m \<Rightarrow> [m])"
proof (cases "w_local w s")
  case (Cons m ms)
  then show ?thesis using assms by (auto simp: pool_acquire_def local_ok_def)
next
  case Nil
  show ?thesis
  proof (cases "w_free_list w")
    case (Cons m ms)
    have "mset ms = mset (take 31 ms) + mset (drop 31 ms)" by (metis append_take_drop_id mset_append)
    then show ?thesis using assms Nil Cons by (auto simp: pool_acquire_def local_ok_def)
  qed (use assms Nil in \<open>auto simp: pool_acquire_def local_ok_def\<close>)
qed

text \<open>A release always ends: the list it walks is as long as its counter says.\<close>

lemma pool_release_ok:
  assumes "local_ok w s"
  shows "\<exists>w'. pool_release s w m = Some w' \<and> local_ok w' s \<and> w_ring w' = w_ring w \<and> w_msg w' = (w_msg w)(m := []) \<and>
    w_local w' (other s) = w_local w (other s) \<and> w_count w' (other s) = w_count w (other s) \<and>
    mset (w_free_list w') + mset (w_local w' s) = {#m#} + mset (w_free_list w) + mset (w_local w s)"
proof (cases "w_count w s < 64")
  case True
  then show ?thesis using assms by (auto simp: pool_release_def local_ok_def)
next
  case False
  have "mset (w_local w s) = mset (take 32 (w_local w s)) + mset (drop 32 (w_local w s))" by (metis append_take_drop_id mset_append)
  then show ?thesis using False assms by (auto simp: pool_release_def local_ok_def)
qed

section \<open>The invariant of the two threads\<close>

primrec draining :: "drain_pc \<Rightarrow> bool" where
  "draining D_Idle \<longleftrightarrow> False"
| "draining (D_Round n again) \<longleftrightarrow> n < TCP_WORKER_BATCH_LIMIT \<or> again"
| "draining (D_Batch n again ms) \<longleftrightarrow> n < TCP_WORKER_BATCH_LIMIT \<or> again"
| "draining (D_End again) \<longleftrightarrow> again"

text \<open>What has been put into the ring of \<open>s\<close> and not been passed on, and that somebody will take it.\<close>

definition in_flight :: "wsys \<Rightarrow> side \<Rightarrow> msg_ref list" where
  "in_flight y s = held_drain (sy_drain y (other s)) @ msgs (w_ring (sy_w y) s)"

definition fifo_ok :: "wsys \<Rightarrow> side \<Rightarrow> bool" where
  "fifo_ok y s \<longleftrightarrow> sy_in y s = sy_out y s @ map (w_msg (sy_w y)) (in_flight y s)"

definition woken :: "wsys \<Rightarrow> side \<Rightarrow> bool" where
  "woken y s \<longleftrightarrow> (msgs (w_ring (sy_w y) s) \<noteq> [] \<longrightarrow> sy_async y (other s) \<or> sy_push y s = P_Notify \<or> draining (sy_drain y (other s)))"

definition winv :: "wsys \<Rightarrow> bool" where
  "winv y \<longleftrightarrow> mset (owners y) = all_refs \<and>
     (\<forall>s. ring_inv (w_ring (sy_w y) s) \<and> local_ok (sy_w y) s \<and> fifo_ok y s \<and> woken y s)"

lemma msgs_init [simp]: "msgs packet_ring_init = []"
  by (simp add: msgs_def packet_ring_init_def)

lemma winv_init: "winv wsys_init"
  by (simp add: winv_def owners_def transit_def transit_side_def wsys_init_def worker_init_def all_refs_def ring_inv_def packet_ring_init_def
      msgs_def local_ok_def fifo_ok_def in_flight_def woken_def cap_pos)

lemma set_in_flight: "set (in_flight y s) \<subseteq> set (transit y)"
  by (auto simp: in_flight_def set_transit [of y s] transit_side_def)

text \<open>A write to a buffer that is not in flight leaves the packets in flight as they are.\<close>

lemma map_upd_idle: "m \<notin> set xs \<Longrightarrow> map (f(m := v)) xs = map f xs"
  by (induction xs) auto

lemma winvD:
  assumes "winv y"
  shows "mset (owners y) = all_refs" "distinct (owners y)"
  using assms owners_distinct by (simp_all add: winv_def)

lemma winv_side:
  assumes "winv y"
  shows "ring_inv (w_ring (sy_w y) s)" "local_ok (sy_w y) s" "fifo_ok y s" "woken y s"
  using assms by (simp_all add: winv_def)

lemma winvI:
  assumes "mset (owners y) = all_refs" "ring_inv (w_ring (sy_w y) s)" "ring_inv (w_ring (sy_w y) (other s))"
    "local_ok (sy_w y) s" "local_ok (sy_w y) (other s)" "fifo_ok y s" "fifo_ok y (other s)" "woken y s" "woken y (other s)"
  shows "winv y"
  using assms by (simp add: winv_def all_sides [of _ s])

lemma winv_acquire:
  assumes "winv y" "acquire_step s pkt y = Some y'"
  shows "winv y'"
proof -
  obtain res w where a: "pool_acquire s (sy_w y) = (res, w)" by fastforce
  have idle: "sy_push y s = P_Idle" using assms(2) by (auto simp: acquire_step_def split: if_splits)
  note i = winvD [OF assms(1)] and j = winv_side [OF assms(1), of s] winv_side [OF assms(1), of "other s"] and k = pool_acquire_ok [OF winv_side(2) [OF assms(1)] a]
  show ?thesis
  proof (cases res)
    case None
    then have y': "y' = y\<lparr>sy_w := w\<rparr>" using assms(2) a by (auto simp: acquire_step_def split: if_splits)
    show ?thesis
    proof (rule winvI [of y' s])
      show "mset (owners y') = all_refs"
        by (rule owners_change [OF i(1), of _ s]) (use k None in \<open>simp_all add: y' mset_transit [of _ s] transit_side_def\<close>)
    qed (use j k in \<open>simp_all add: y' local_ok_def fifo_ok_def woken_def in_flight_def\<close>)
  next
    case (Some m)
    then have y': "y' = y\<lparr>sy_w := w\<lparr>w_msg := (w_msg w)(m := pkt)\<rparr>, sy_push := (sy_push y)(s := P_Push m)\<rparr>"
      using assms(2) a by (auto simp: acquire_step_def split: if_splits)
    have "m \<in># mset (w_free_list (sy_w y)) + mset (w_local (sy_w y) s)" using k Some by simp
    then have "m \<notin> set (transit y)" using i(2) by (cases s) (auto simp: owners_def)
    then have n: "m \<notin> set (in_flight y s')" for s' using set_in_flight by blast
    have t: "mset (transit y') = {#m#} + mset (transit y)" using k by (simp add: y' mset_transit [of _ s] transit_side_def idle)
    show ?thesis
    proof (rule winvI [of y' s])
      show "mset (owners y') = all_refs"
        by (rule owners_change [OF i(1), of _ s]) (unfold t, use k Some in \<open>simp_all add: y'\<close>)
      show "fifo_ok y' s" "fifo_ok y' (other s)" using j(3) j(7) k n [of s] n [of "other s"]
        by (simp_all add: y' fifo_ok_def in_flight_def map_upd_idle)
    qed (use j k idle in \<open>simp_all add: y' local_ok_def woken_def\<close>)
  qed
qed

lemma winv_push_ring:
  assumes "winv y" "sy_push y s = P_Push m" "push_step s y = Some y'"
  shows "winv y'"
proof (cases "r_len (w_ring (sy_w y) s) < TCP_WORKER_QUEUE_CAP")
  case True
  note i = winvD [OF assms(1)] and j = winv_side [OF assms(1), of s] winv_side [OF assms(1), of "other s"]
  obtain r where r: "ring_push (w_ring (sy_w y) s) m = (0, r_len (w_ring (sy_w y) s) = 0, r)" "ring_inv r" "msgs r = msgs (w_ring (sy_w y) s) @ [m]"
    using ring_push_ok [OF j(1) True, of m] by blast
  have y': "y' = y\<lparr>sy_w := (sy_w y)\<lparr>w_ring := (w_ring (sy_w y))(s := r)\<rparr>,
      sy_push := (sy_push y)(s := if r_len (w_ring (sy_w y) s) = 0 then P_Notify else P_Idle), sy_in := (sy_in y)(s := sy_in y s @ [w_msg (sy_w y) m])\<rparr>"
    using assms(2,3) r by (simp add: push_step_def Let_def)
  have t: "mset (transit y') = mset (transit y)" using assms(2) by (simp add: y' mset_transit [of _ s] transit_side_def r)
  show ?thesis
  proof (rule winvI [of y' s])
    show "mset (owners y') = all_refs" by (rule owners_change [OF i(1), of _ s]) (simp_all only: t, simp_all add: y')
    have "msgs (w_ring (sy_w y) s) \<noteq> []" if "r_len (w_ring (sy_w y) s) \<noteq> 0" using that by (metis length_msgs list.size(3))
    then show "woken y' s" using j(4) assms(2) by (auto simp: y' woken_def)
  qed (use j r assms(2) in \<open>simp_all add: y' local_ok_def fifo_ok_def woken_def in_flight_def\<close>)
next
  case False
  note i = winvD [OF assms(1)] and j = winv_side [OF assms(1), of s] winv_side [OF assms(1), of "other s"]
  let ?r = "(w_ring (sy_w y) s)\<lparr>r_dropped := r_dropped (w_ring (sy_w y) s) + 1\<rparr>"
  have "r_len (w_ring (sy_w y) s) = TCP_WORKER_QUEUE_CAP" using False j(1) by (simp add: ring_inv_def)
  then have y': "y' = y\<lparr>sy_w := (sy_w y)\<lparr>w_ring := (w_ring (sy_w y))(s := ?r)\<rparr>, sy_push := (sy_push y)(s := P_Drop m)\<rparr>"
    using assms(2,3) by (simp add: push_step_def ring_push_full Let_def)
  have r: "ring_inv ?r" "msgs ?r = msgs (w_ring (sy_w y) s)" using j(1) by (simp_all add: ring_inv_def msgs_def)
  have t: "mset (transit y') = mset (transit y)" using assms(2) by (simp add: y' mset_transit [of _ s] transit_side_def r)
  show ?thesis
  proof (rule winvI [of y' s])
    show "mset (owners y') = all_refs" by (rule owners_change [OF i(1), of _ s]) (simp_all only: t, simp_all add: y')
  qed (use j r assms(2) in \<open>simp_all add: y' local_ok_def fifo_ok_def woken_def in_flight_def\<close>)
qed

text \<open>The two releases: of a packet that the ring refused, and of a packet that has been passed on.\<close>

lemma winv_push_drop:
  assumes "winv y" "sy_push y s = P_Drop m" "push_step s y = Some y'"
  shows "winv y'"
proof -
  note i = winvD [OF assms(1)] and j = winv_side [OF assms(1), of s] winv_side [OF assms(1), of "other s"]
  obtain w where w: "pool_release s (sy_w y) m = Some w" and k: "local_ok w s" "w_ring w = w_ring (sy_w y)" "w_msg w = (w_msg (sy_w y))(m := [])"
      "w_local w (other s) = w_local (sy_w y) (other s)" "w_count w (other s) = w_count (sy_w y) (other s)"
      "mset (w_free_list w) + mset (w_local w s) = {#m#} + mset (w_free_list (sy_w y)) + mset (w_local (sy_w y) s)"
    using pool_release_ok [OF j(2), of m] by blast
  have y': "y' = y\<lparr>sy_w := w, sy_push := (sy_push y)(s := P_Idle)\<rparr>" using assms w by (simp add: push_step_def)
  have t: "mset (transit y) = {#m#} + mset (transit y')" using assms(2) k by (simp add: y' mset_transit [of _ s] transit_side_def)
  have "m \<in> set (held_push (sy_push y s))" using assms(2) by simp
  then have n: "m \<notin> set (in_flight y s')" for s'
    using i(2) by (cases s; cases s') (auto simp: owners_def transit_def transit_side_def in_flight_def)
  show ?thesis
  proof (rule winvI [of y' s])
    show "mset (owners y') = all_refs" by (rule owners_change [OF i(1), of _ s]) (use k in \<open>simp_all add: t\<close>, simp_all add: y')
    show "fifo_ok y' s" "fifo_ok y' (other s)" using j(3) j(7) k n [of s] n [of "other s"]
      by (simp_all add: y' fifo_ok_def in_flight_def map_upd_idle)
  qed (use j k assms(2) in \<open>simp_all add: y' local_ok_def woken_def\<close>)
qed

lemma winv_push:
  assumes "winv y" "push_step s y = Some y'"
  shows "winv y'"
proof (cases "sy_push y s")
  case P_Notify
  then have y': "y' = y\<lparr>sy_async := (sy_async y)(other s := True), sy_push := (sy_push y)(s := P_Idle)\<rparr>" using assms(2) by (simp add: push_step_def)
  note i = winvD [OF assms(1)] and j = winv_side [OF assms(1), of s] winv_side [OF assms(1), of "other s"]
  have t: "mset (transit y') = mset (transit y)" using P_Notify by (simp add: y' mset_transit [of _ s] transit_side_def)
  show ?thesis
  proof (rule winvI [of y' s])
    show "mset (owners y') = all_refs" by (rule owners_change [OF i(1), of _ s]) (simp_all only: t, simp_all add: y')
    show "woken y' (other s)" using j(8) by (simp add: y' woken_def)
  qed (use j in \<open>simp_all add: y' local_ok_def fifo_ok_def woken_def in_flight_def\<close>)
next
  case P_Idle
  then show ?thesis using assms(2) by (simp add: push_step_def)
next
  case (P_Push m)
  then show ?thesis by (rule winv_push_ring [OF assms(1) _ assms(2)])
next
  case (P_Drop m)
  then show ?thesis by (rule winv_push_drop [OF assms(1) _ assms(2)])
qed

text \<open>The steps of the callback that only change its own position.\<close>

lemma winv_drain_move:
  assumes "winv y" and y': "y' = y\<lparr>sy_async := (sy_async y)(s := b), sy_drain := (sy_drain y)(s := pc)\<rparr>"
    and h: "held_drain pc = held_drain (sy_drain y s)" and w: "sy_async y s \<or> draining (sy_drain y s) \<Longrightarrow> b \<or> draining pc"
  shows "winv y'"
proof -
  note i = winvD [OF assms(1)] and j = winv_side [OF assms(1), of s] winv_side [OF assms(1), of "other s"]
  have t: "mset (transit y') = mset (transit y)" by (simp add: y' mset_transit [of _ s] transit_side_def h)
  show ?thesis
  proof (rule winvI [of y' s])
    show "mset (owners y') = all_refs" by (rule owners_change [OF i(1), of _ s]) (simp_all only: t, simp_all add: y')
    show "woken y' (other s)" using j(8) w by (auto simp: y' woken_def)
  qed (use j in \<open>simp_all add: y' local_ok_def fifo_ok_def woken_def in_flight_def h\<close>)
qed

lemma winv_drain_take:
  assumes "winv y" "sy_drain y s = D_Round n again" "n < TCP_WORKER_BATCH_LIMIT"
    "ring_take (TCP_WORKER_BATCH_LIMIT - n) (w_ring (sy_w y) (other s)) = (ms, r)" and h: "held_drain pc = ms"
    and y': "y' = y\<lparr>sy_w := (sy_w y)\<lparr>w_ring := (w_ring (sy_w y))(other s := r)\<rparr>, sy_drain := (sy_drain y)(s := pc)\<rparr>"
    and w: "msgs r \<noteq> [] \<Longrightarrow> draining pc"
  shows "winv y'"
proof -
  note i = winvD [OF assms(1)] and j = winv_side [OF assms(1), of s] winv_side [OF assms(1), of "other s"]
  have r: "ring_inv r" "msgs (w_ring (sy_w y) (other s)) = ms @ msgs r" using ring_take_ok [OF j(5) assms(4)] by simp_all
  have t: "mset (transit y') = mset (transit y)" by (simp add: y' mset_transit [of _ s] transit_side_def h r(2) assms(2))
  show ?thesis
  proof (rule winvI [of y' s])
    show "mset (owners y') = all_refs" by (rule owners_change [OF i(1), of _ s]) (simp_all only: t, simp_all add: y')
    show "woken y' (other s)" using w by (auto simp: y' woken_def)
  qed (use j r assms(2) in \<open>simp_all add: y' local_ok_def fifo_ok_def woken_def in_flight_def h\<close>)
qed

lemma winv_drain_pass:
  assumes "winv y" "sy_drain y s = D_Batch n again (m # ms)" "drain_step s y = Some y'"
  shows "winv y'"
proof -
  note i = winvD [OF assms(1)] and j = winv_side [OF assms(1), of s] winv_side [OF assms(1), of "other s"]
  obtain w where w: "pool_release s (sy_w y) m = Some w" and k: "local_ok w s" "w_ring w = w_ring (sy_w y)" "w_msg w = (w_msg (sy_w y))(m := [])"
      "w_local w (other s) = w_local (sy_w y) (other s)" "w_count w (other s) = w_count (sy_w y) (other s)"
      "mset (w_free_list w) + mset (w_local w s) = {#m#} + mset (w_free_list (sy_w y)) + mset (w_local (sy_w y) s)"
    using pool_release_ok [OF j(2), of m] by blast
  have y': "y' = y\<lparr>sy_w := w, sy_drain := (sy_drain y)(s := D_Batch n again ms), sy_out := (sy_out y)(other s := sy_out y (other s) @ [w_msg (sy_w y) m])\<rparr>"
    using assms w by (simp add: drain_step_def)
  have t: "mset (transit y) = {#m#} + mset (transit y')" using assms(2) k by (simp add: y' mset_transit [of _ s] transit_side_def)
  have n: "m \<notin> set (in_flight y s)" "m \<notin> set ms" "m \<notin> set (msgs (w_ring (sy_w y) (other s)))"
    using i(2) assms(2) by (cases s; auto simp: owners_def transit_def transit_side_def in_flight_def)+
  show ?thesis
  proof (rule winvI [of y' s])
    show "mset (owners y') = all_refs" by (rule owners_change [OF i(1), of _ s]) (use k in \<open>simp_all add: t\<close>, simp_all add: y')
    show "fifo_ok y' s" "fifo_ok y' (other s)" using j(3) j(7) k n assms(2)
      by (simp_all add: y' fifo_ok_def in_flight_def map_upd_idle)
  qed (use j k assms(2) in \<open>simp_all add: y' local_ok_def woken_def\<close>)
qed

lemma ring_has_items_iff: "ring_has_items r \<longleftrightarrow> msgs r \<noteq> []"
  by (metis length_greater_0_conv length_msgs ring_has_items_def)

lemma winv_drain:
  assumes "winv y" "drain_step s y = Some y'"
  shows "winv y'"
proof (cases "sy_drain y s")
  case D_Idle
  then show ?thesis using assms(2)
    by (intro winv_drain_move [OF assms(1), where s = s and b = False and pc = "D_Round 0 False"]) (auto simp: drain_step_def TCP_WORKER_BATCH_LIMIT_def split: if_splits)
next
  case (D_Round n again)
  obtain ms r where tk: "ring_take (TCP_WORKER_BATCH_LIMIT - n) (w_ring (sy_w y) (other s)) = (ms, r)" by fastforce
  show ?thesis
  proof (cases "n < TCP_WORKER_BATCH_LIMIT")
    case True
    then have "y' = y\<lparr>sy_w := (sy_w y)\<lparr>w_ring := (w_ring (sy_w y))(other s := r)\<rparr>,
        sy_drain := (sy_drain y)(s := if ms = [] then D_End (ring_has_items r) else D_Batch (n + length ms) (ring_has_items r) ms)\<rparr>"
      using assms(2) D_Round tk by (auto simp: drain_step_def Let_def split: if_splits)
    then show ?thesis using winv_drain_take [OF assms(1) D_Round True tk] by (auto simp: ring_has_items_iff)
  next
    case False
    then show ?thesis using assms(2) D_Round
      by (intro winv_drain_move [OF assms(1), where s = s and b = "sy_async y s" and pc = "D_End again"]) (auto simp: drain_step_def)
  qed
next
  case (D_Batch n again ms)
  show ?thesis
  proof (cases ms)
    case Nil
    then show ?thesis using assms(2) D_Batch
      by (intro winv_drain_move [OF assms(1), where s = s and b = "sy_async y s" and pc = "D_Round n again"]) (auto simp: drain_step_def)
  qed (use D_Batch winv_drain_pass [OF assms(1) _ assms(2)] in simp)
next
  case (D_End again)
  then show ?thesis using assms(2)
    by (intro winv_drain_move [OF assms(1), where s = s and b = "sy_async y s \<or> again" and pc = D_Idle]) (auto simp: drain_step_def)
qed

lemma winv_step:
  assumes "winv y" "wstep y y'"
  shows "winv y'"
  using assms(2)
proof cases
  case (acquire s pkt)
  then show ?thesis by (rule winv_acquire [OF assms(1)])
next
  case (push s)
  then show ?thesis by (rule winv_push [OF assms(1)])
next
  case (drain s)
  then show ?thesis by (rule winv_drain [OF assms(1)])
qed

lemma wreach_winv: "wreach y \<Longrightarrow> winv y"
  by (induction rule: wreach.induct) (blast intro: winv_init winv_step)+

section \<open>Everything in a ring is passed on\<close>

text \<open>The steps that pass on what side \<open>s\<close> has put into its ring: its pending wake-up, and the callback of the other side.\<close>

inductive deliver :: "side \<Rightarrow> wsys \<Rightarrow> wsys \<Rightarrow> bool" for s where
  wake: "sy_push y s = P_Notify \<Longrightarrow> push_step s y = Some y' \<Longrightarrow> deliver s y y'"
| drain: "drain_step (other s) y = Some y' \<Longrightarrow> deliver s y y'"

primrec phase :: "drain_pc \<Rightarrow> nat" where
  "phase D_Idle = 2"
| "phase (D_Round n again) = (if n < TCP_WORKER_BATCH_LIMIT then 1 else 5)"
| "phase (D_Batch n again ms) = 6"
| "phase (D_End again) = 4"

definition deliver_measure :: "side \<Rightarrow> wsys \<Rightarrow> nat \<times> nat \<times> nat" where
  "deliver_measure s y = (length (msgs (w_ring (sy_w y) s)), length (held_drain (sy_drain y (other s))),
     phase (sy_drain y (other s)) + (if sy_push y s = P_Notify then 1 else 0))"

definition deliver_order :: "((nat \<times> nat \<times> nat) \<times> (nat \<times> nat \<times> nat)) set" where
  "deliver_order = less_than <*lex*> less_than <*lex*> less_than"

lemma wf_deliver_order: "wf deliver_order"
  by (auto simp: deliver_order_def)

text \<open>The steps of the callback, one by one.\<close>

lemma drain_pass_step:
  assumes "winv y" "sy_drain y c = D_Batch n again (m # ms)"
  shows "\<exists>y'. drain_step c y = Some y' \<and> sy_drain y' c = D_Batch n again ms \<and> w_ring (sy_w y') = w_ring (sy_w y) \<and>
    sy_push y' = sy_push y \<and> sy_in y' = sy_in y"
proof -
  obtain w where "pool_release c (sy_w y) m = Some w" "w_ring w = w_ring (sy_w y)" using pool_release_ok [OF winv_side(2) [OF assms(1)]] by blast
  then show ?thesis using assms(2) by (simp add: drain_step_def)
qed

lemma drain_take_step:
  assumes "winv y" "sy_drain y c = D_Round n again" "n < TCP_WORKER_BATCH_LIMIT" "msgs (w_ring (sy_w y) (other c)) \<noteq> []"
  shows "\<exists>y'. drain_step c y = Some y' \<and> length (msgs (w_ring (sy_w y') (other c))) < length (msgs (w_ring (sy_w y) (other c))) \<and> sy_in y' = sy_in y"
proof -
  obtain ms r where tk: "ring_take (TCP_WORKER_BATCH_LIMIT - n) (w_ring (sy_w y) (other c)) = (ms, r)" by fastforce
  have r: "msgs (w_ring (sy_w y) (other c)) = ms @ msgs r" "msgs r \<noteq> [] \<longrightarrow> length ms = TCP_WORKER_BATCH_LIMIT - n"
    using ring_take_ok [OF winv_side(1) [OF assms(1)] tk] by simp_all
  have ne: "ms \<noteq> []" using r assms(3,4) by auto
  then have "length (msgs r) < length (msgs (w_ring (sy_w y) (other c)))" using r(1) by (simp del: length_msgs)
  then show ?thesis using assms(2,3) tk ne by (simp add: drain_step_def Let_def)
qed

lemma deliver_progress:
  assumes "winv y" "in_flight y s \<noteq> []"
  shows "\<exists>y'. deliver s y y' \<and> sy_in y' s = sy_in y s \<and> (deliver_measure s y', deliver_measure s y) \<in> deliver_order"
proof (cases "sy_drain y (other s)")
  case D_Idle
  then have "sy_async y (other s) \<or> sy_push y s = P_Notify" using assms winv_side(4) [OF assms(1), of s] by (auto simp: woken_def in_flight_def)
  then show ?thesis
  proof
    assume "sy_async y (other s)"
    then show ?thesis using D_Idle
      by (intro exI [of _ "y\<lparr>sy_async := (sy_async y)(other s := False), sy_drain := (sy_drain y)(other s := D_Round 0 False)\<rparr>"])
        (auto intro!: deliver.drain simp: drain_step_def deliver_measure_def deliver_order_def TCP_WORKER_BATCH_LIMIT_def)
  next
    assume "sy_push y s = P_Notify"
    then show ?thesis using D_Idle
      by (intro exI [of _ "y\<lparr>sy_async := (sy_async y)(other s := True), sy_push := (sy_push y)(s := P_Idle)\<rparr>"])
        (auto intro!: deliver.wake simp: push_step_def deliver_measure_def deliver_order_def)
  qed
next
  case (D_Round n again)
  show ?thesis
  proof (cases "n < TCP_WORKER_BATCH_LIMIT")
    case True
    then show ?thesis using drain_take_step [OF assms(1) D_Round True] assms(2) D_Round
      by (fastforce intro: deliver.drain simp: in_flight_def deliver_measure_def deliver_order_def simp del: length_msgs)
  next
    case False
    then show ?thesis using D_Round
      by (intro exI [of _ "y\<lparr>sy_drain := (sy_drain y)(other s := D_End again)\<rparr>"])
        (auto intro!: deliver.drain simp: drain_step_def deliver_measure_def deliver_order_def)
  qed
next
  case (D_Batch n again ms)
  show ?thesis
  proof (cases ms)
    case Nil
    then show ?thesis using D_Batch
      by (intro exI [of _ "y\<lparr>sy_drain := (sy_drain y)(other s := D_Round n again)\<rparr>"])
        (auto intro!: deliver.drain simp: drain_step_def deliver_measure_def deliver_order_def)
  next
    case (Cons m ms')
    obtain y' where "drain_step (other s) y = Some y'" "sy_drain y' (other s) = D_Batch n again ms'" "w_ring (sy_w y') = w_ring (sy_w y)"
        "sy_push y' = sy_push y" "sy_in y' = sy_in y"
      using drain_pass_step [OF assms(1)] D_Batch Cons by blast
    then show ?thesis using D_Batch Cons by (intro exI [of _ y']) (auto intro!: deliver.drain simp: deliver_measure_def deliver_order_def)
  qed
next
  case (D_End again)
  then show ?thesis
    by (intro exI [of _ "y\<lparr>sy_async := (sy_async y)(other s := sy_async y (other s) \<or> again), sy_drain := (sy_drain y)(other s := D_Idle)\<rparr>"])
      (auto intro!: deliver.drain simp: drain_step_def deliver_measure_def deliver_order_def)
qed

lemma deliver_wstep: "deliver s y y' \<Longrightarrow> wstep y y'"
  by (erule deliver.cases) (blast intro: wstep.intros)+

lemma deliver_all:
  assumes "winv y"
  shows "\<exists>y'. (deliver s)\<^sup>*\<^sup>* y y' \<and> sy_out y' s = sy_in y s"
  using assms
proof (induction y rule: wf_induct_rule [OF wf_inv_image [OF wf_deliver_order, of "deliver_measure s"]])
  case (1 y)
  show ?case
  proof (cases "in_flight y s = []")
    case True
    then show ?thesis using winv_side(3) [OF 1(2), of s] by (auto simp: fifo_ok_def)
  next
    case False
    obtain y1 where y1: "deliver s y y1" "sy_in y1 s = sy_in y s" "(deliver_measure s y1, deliver_measure s y) \<in> deliver_order"
      using deliver_progress [OF 1(2) False] by blast
    have "winv y1" by (rule winv_step [OF 1(2) deliver_wstep [OF y1(1)]])
    then obtain y' where "(deliver s)\<^sup>*\<^sup>* y1 y'" "sy_out y' s = sy_in y1 s" using 1(1) [of y1] y1(3) by auto
    then show ?thesis using y1 by (metis converse_rtranclp_into_rtranclp)
  qed
qed

section \<open>Properties\<close>

text \<open>\<^bold>\<open>C23\<close> In every interleaving of the two threads each of the buffers of the pool has exactly one owner (the shared free list, the free
  list of a thread, a ring, or a thread that is filling or passing it on), a release never runs over the end of a free list, and
  what has been passed on, followed by what is in flight with its bytes unchanged, is what was put in, in order.\<close>

theorem tcp_worker_channels:
  assumes "wreach y"
  shows "mset (owners y) = mset [0..<TCP_WORKER_POOL_SIZE] \<and> pool_release s (sy_w y) m \<noteq> None \<and>
    sy_in y s = sy_out y s @ map (w_msg (sy_w y)) (in_flight y s)"
proof (intro conjI)
  note i = wreach_winv [OF assms]
  show "mset (owners y) = mset [0..<TCP_WORKER_POOL_SIZE]" using winvD(1) [OF i] by (simp add: all_refs_def)
  show "pool_release s (sy_w y) m \<noteq> None" using pool_release_ok [OF winv_side(2) [OF i], of s m] by force
  show "sy_in y s = sy_out y s @ map (w_msg (sy_w y)) (in_flight y s)" using winv_side(3) [OF i, of s] by (simp add: fifo_ok_def)
qed

text \<open>A state with one packet in the ring of the main thread.\<close>

lemma wreach_one:
  assumes "length pkt \<le> WG_MAX_MESSAGE_SIZE"
  shows "\<exists>y. wreach y \<and> sy_in y Main = [pkt] \<and> sy_out y Main = []"
proof -
  have "rev [0..<TCP_WORKER_POOL_SIZE] \<noteq> []" by (simp add: TCP_WORKER_POOL_SIZE_def TCP_WORKER_QUEUE_CAP_def)
  then obtain m w where a: "pool_acquire Main worker_init = (Some m, w)"
    by (cases "rev [0..<TCP_WORKER_POOL_SIZE]") (simp_all add: pool_acquire_def worker_init_def)
  have w: "w_ring w = (\<lambda>_. packet_ring_init)" using pool_acquire_ok [OF _ a] by (simp add: local_ok_def worker_init_def)
  let ?y = "wsys_init\<lparr>sy_w := w\<lparr>w_msg := (w_msg w)(m := pkt)\<rparr>, sy_push := (\<lambda>_. P_Idle)(Main := P_Push m)\<rparr>"
  have "acquire_step Main pkt wsys_init = Some ?y" using a assms by (simp add: acquire_step_def wsys_init_def)
  then have 1: "wreach ?y" by (rule wreach.step [OF wreach.init wstep.acquire])
  obtain r where r: "ring_push packet_ring_init m = (0, True, r)"
    using ring_push_ok [of packet_ring_init m] by (auto simp: ring_inv_def packet_ring_init_def cap_pos)
  let ?y2 = "?y\<lparr>sy_w := (sy_w ?y)\<lparr>w_ring := (w_ring w)(Main := r)\<rparr>, sy_push := (\<lambda>_. P_Idle)(Main := P_Notify), sy_in := (\<lambda>_. [])(Main := [pkt])\<rparr>"
  have "push_step Main ?y = Some ?y2" using r w by (simp add: push_step_def wsys_init_def Let_def)
  then have "wreach ?y2" by (rule wreach.step [OF 1 wstep.push])
  then show ?thesis by (intro exI [of _ ?y2]) (simp add: wsys_init_def)
qed

theorem tcp_worker_channels_witness:
  "\<exists>y. wreach y \<and> sy_in y Main = [[1, 2, 3]] \<and> map (w_msg (sy_w y)) (in_flight y Main) = [[1, 2, 3]] \<and> pool_release Worker (sy_w y) 5 \<noteq> None"
proof -
  obtain y where y: "wreach y" "sy_in y Main = [[1, 2, 3]]" "sy_out y Main = []"
    using wreach_one [of "[1, 2, 3]"] by (auto simp: WG_MAX_MESSAGE_SIZE_def)
  then show ?thesis using tcp_worker_channels [OF y(1), of Worker 5] tcp_worker_channels [OF y(1), of Main 0] by (intro exI [of _ y]) simp
qed

text \<open>\<^bold>\<open>C24\<close> No wake-up is lost: from every state of every interleaving, the wake-up that the producer still owes and the callbacks of the
  other thread alone, without any further packet, pass on everything that the ring has accepted.\<close>

theorem tcp_worker_no_lost_wakeup: "wreach y \<Longrightarrow> \<exists>y'. (deliver s)\<^sup>*\<^sup>* y y' \<and> sy_out y' s = sy_in y s"
  using wreach_winv deliver_all by blast

theorem tcp_worker_no_lost_wakeup_witness:
  "\<exists>y y'. wreach y \<and> sy_out y Main = [] \<and> (deliver Main)\<^sup>*\<^sup>* y y' \<and> sy_out y' Main = [[1, 2, 3]]"
proof -
  obtain y where y: "wreach y" "sy_in y Main = [[1, 2, 3]]" "sy_out y Main = []"
    using wreach_one [of "[1, 2, 3]"] by (auto simp: WG_MAX_MESSAGE_SIZE_def)
  then show ?thesis using tcp_worker_no_lost_wakeup [OF y(1), of Main] by metis
qed

end
