(* ===== verification/Socks5.thy ===== *)
theory Socks5
  imports Tcp_Reassembly
begin

text \<open>
  The SOCKS5 proxy (\<^verbatim>\<open>src/src/socks5.c\<close>, \<^verbatim>\<open>socks5.h\<close>): clients on libuv streams on one side, connections of the TCP stack on the
  other. The state of the proxy extends the record of the stack, so that the callbacks of the proxy are an application of the stack and
  the calls of the proxy into the stack are the functions of \<open>Tcp_Stack\<close>.
\<close>

section \<open>Constants and data\<close>

definition S5_VER :: u8 where "S5_VER = 5"
definition S5_AUTH_NONE :: u8 where "S5_AUTH_NONE = 0"
definition S5_AUTH_USERPASS :: u8 where "S5_AUTH_USERPASS = 2"
definition S5_AUTH_NO_ACCEPTABLE :: u8 where "S5_AUTH_NO_ACCEPTABLE = 0xff"
definition S5_USERPASS_VER :: u8 where "S5_USERPASS_VER = 1"
definition S5_CMD_CONNECT :: u8 where "S5_CMD_CONNECT = 1"
definition S5_ATYP_IPV4 :: u8 where "S5_ATYP_IPV4 = 1"
definition S5_ATYP_DOMAIN :: u8 where "S5_ATYP_DOMAIN = 3"
definition S5_ATYP_IPV6 :: u8 where "S5_ATYP_IPV6 = 4"
definition S5_REP_OK :: u8 where "S5_REP_OK = 0"
definition S5_REP_FAIL :: u8 where "S5_REP_FAIL = 1"
definition S5_REP_NOCONN :: u8 where "S5_REP_NOCONN = 5"
definition SOCKS5_DNS_TTL_MS :: u64 where "SOCKS5_DNS_TTL_MS = 30 * 1000"
definition SOCKS5_DNS_CACHE_SIZE :: nat where "SOCKS5_DNS_CACHE_SIZE = 64"
definition SOCKS5_READ_BUFSIZE :: nat where "SOCKS5_READ_BUFSIZE = 16384"
definition SOCKS5_PENDING_LIMIT :: nat where "SOCKS5_PENDING_LIMIT = 512 * 1024"
definition SOCKS5_CLIENT_OUTBUF_LIMIT :: nat where "SOCKS5_CLIENT_OUTBUF_LIMIT = 2 * 1024 * 1024"
definition SOCKS5_CLIENT_OUTBUF_RESUME :: nat where "SOCKS5_CLIENT_OUTBUF_RESUME = SOCKS5_CLIENT_OUTBUF_LIMIT div 2"
definition RXBUF_SIZE :: nat where "RXBUF_SIZE = 512"

lemmas s5_consts = S5_VER_def S5_AUTH_NONE_def S5_AUTH_USERPASS_def S5_AUTH_NO_ACCEPTABLE_def S5_USERPASS_VER_def S5_CMD_CONNECT_def
  S5_ATYP_IPV4_def S5_ATYP_DOMAIN_def S5_ATYP_IPV6_def S5_REP_OK_def S5_REP_FAIL_def S5_REP_NOCONN_def

datatype socks5_state = S5_INIT | S5_USERPASS | S5_AUTH | S5_RESOLVING | S5_CONNECTING | S5_ESTABLISHED | S5_CLOSING

datatype socks5_write_state = S5W_IDLE | S5W_QUEUED | S5W_WRITING | S5W_CLOSED

text \<open>Addresses of clients and of queries; 0 is the null pointer.\<close>

type_synonym sc_ref = nat
type_synonym query_ref = nat

text \<open>\<open>s_rxbuf\<close>, \<open>s_outbuf\<close> and \<open>s_write_buf\<close> are the used parts of the buffers, with their capacities where the code has them;
  \<open>s_pending_data\<close> is the whole circular buffer. Addresses are the bytes in memory. \<open>s_reading\<close> and \<open>s_closing\<close> are the state of the libuv handle;
  \<open>s_written\<close> is what \<^verbatim>\<open>uv_write\<close> has accepted, which no code reads.\<close>

record socks5_conn =
  s_wg_conn :: "conn_ref option"
  s_state :: socks5_state
  s_rxbuf :: bytes
  s_target_family :: nat
  s_target_ip :: bytes
  s_target_ip6 :: bytes
  s_target_port :: u16
  s_pending_data :: bytes
  s_pending_cap :: nat
  s_pending_head :: nat
  s_pending_len :: nat
  s_outbuf :: bytes
  s_outbuf_cap :: nat
  s_write_buf :: bytes
  s_write_buf_cap :: nat
  s_resolve_req :: "query_ref option"
  s_write_state :: socks5_write_state
  s_client_paused :: bool
  s_throttled :: bool
  s_reading :: bool
  s_closing :: bool
  s_written :: bytes

definition socks5_conn_zero :: socks5_conn where
  "socks5_conn_zero = \<lparr>s_wg_conn = None, s_state = S5_INIT, s_rxbuf = [], s_target_family = 0, s_target_ip = zeros 4, s_target_ip6 = zeros 16,
     s_target_port = 0, s_pending_data = [], s_pending_cap = 0, s_pending_head = 0, s_pending_len = 0, s_outbuf = [], s_outbuf_cap = 0,
     s_write_buf = [], s_write_buf_cap = 0, s_resolve_req = None, s_write_state = S5W_IDLE, s_client_paused = False, s_throttled = False,
     s_reading = False, s_closing = False, s_written = []\<rparr>"

record dns_cache_entry =
  de_valid :: bool
  de_ip :: bytes
  de_expires_at_ms :: u64
  de_last_used_ms :: u64
  de_domain :: bytes

text \<open>A pending query with the clients that wait for it; \<open>q_cares\<close> is \<^verbatim>\<open>backend\<close>.\<close>

record resolve_req =
  q_ref :: query_ref
  q_waiters :: "sc_ref list"
  q_domain :: bytes
  q_cares :: bool

text \<open>The linked list of clients with unsent output is a list, \<^verbatim>\<open>flush_tail\<close> its end; likewise the list of queries.\<close>

record socks5_server =
  sv_flush :: "sc_ref list"
  sv_flush_check :: bool
  sv_dns_cache_enabled :: bool
  sv_dns_cache :: "dns_cache_entry list"
  sv_dns_using_cares :: bool
  sv_dns_shutting_down :: bool
  sv_dns_queries :: "resolve_req list"
  sv_auth_required :: bool
  sv_auth_user :: bytes
  sv_auth_pass :: bytes

text \<open>The proxy and the stack below it. \<open>w_uv\<close> are the results of the coming calls of libuv that can fail, \<open>w_ares\<close> says for the coming
  queries whether c-ares answers at once, and how: a status and the addresses with their families.\<close>

type_synonym addrinfo = "(nat \<times> bytes) list"

record world = tcpstack +
  w_server :: socks5_server
  w_conns :: "sc_ref \<Rightarrow> socks5_conn option"
  w_sbrk :: nat
  w_qbrk :: nat
  w_uv :: "nat \<Rightarrow> int"
  w_ares :: "nat \<Rightarrow> (int \<times> addrinfo) option"

definition sc_at :: "world \<Rightarrow> sc_ref \<Rightarrow> socks5_conn" where
  "sc_at w k = the (w_conns w k)"

definition upd_sc :: "sc_ref \<Rightarrow> (socks5_conn \<Rightarrow> socks5_conn) \<Rightarrow> world \<Rightarrow> world" where
  "upd_sc k f w = w\<lparr>w_conns := (w_conns w)(k := map_option f (w_conns w k))\<rparr>"

definition upd_server :: "(socks5_server \<Rightarrow> socks5_server) \<Rightarrow> world \<Rightarrow> world" where
  "upd_server f w = w\<lparr>w_server := f (w_server w)\<rparr>"

definition uv_result :: "world \<Rightarrow> int \<times> world" where
  "uv_result w = (w_uv w 0, w\<lparr>w_uv := \<lambda>i. w_uv w (i + 1)\<rparr>)"

section \<open>The DNS cache\<close>

text \<open>Expired entries are invalidated on the way. The address found, and the cache.\<close>

fun cache_find :: "u64 \<Rightarrow> bytes \<Rightarrow> dns_cache_entry list \<Rightarrow> bytes option \<times> dns_cache_entry list" where
  "cache_find now domain [] = (None, [])"
| "cache_find now domain (e # es) =
     (if \<not> de_valid e then let (r, es) = cache_find now domain es in (r, e # es)
      else if de_expires_at_ms e \<le> now then let (r, es) = cache_find now domain es in (r, e\<lparr>de_valid := False\<rparr> # es)
      else if de_domain e \<noteq> domain then let (r, es) = cache_find now domain es in (r, e # es)
      else (Some (de_ip e), e\<lparr>de_last_used_ms := now\<rparr> # es))"

definition dns_cache_lookup :: "socks5_server \<Rightarrow> bytes \<Rightarrow> u64 \<Rightarrow> bytes option \<times> socks5_server" where
  "dns_cache_lookup srv domain now =
     (if \<not> sv_dns_cache_enabled srv then (None, srv)
      else let (r, es) = cache_find now domain (sv_dns_cache srv) in (r, srv\<lparr>sv_dns_cache := es\<rparr>))"

text \<open>The search for a slot: the position of the first free or matching entry, or else of the least recently used one (\<open>oldest\<close>, starting
  from entry 0), and the cache with the expired entries before it invalidated.\<close>

fun cache_slot :: "u64 \<Rightarrow> bytes \<Rightarrow> nat \<Rightarrow> nat \<times> u64 \<Rightarrow> dns_cache_entry list \<Rightarrow> nat \<times> dns_cache_entry list" where
  "cache_slot now domain i oldest [] = (fst oldest, [])"
| "cache_slot now domain i oldest (e # es) =
     (let e = (if de_valid e \<and> de_expires_at_ms e \<le> now then e\<lparr>de_valid := False\<rparr> else e)
      in if \<not> de_valid e \<or> de_domain e = domain then (i, e # es)
         else
           let oldest = (if de_last_used_ms e < snd oldest then (i, de_last_used_ms e) else oldest);
               (slot, es) = cache_slot now domain (i + 1) oldest es
           in (slot, e # es))"

definition dns_cache_store :: "socks5_server \<Rightarrow> bytes \<Rightarrow> bytes \<Rightarrow> u64 \<Rightarrow> socks5_server" where
  "dns_cache_store srv domain ip now =
     (if \<not> sv_dns_cache_enabled srv then srv
      else
        let (slot, es) = cache_slot now domain 0 (0, de_last_used_ms (sv_dns_cache srv ! 0)) (sv_dns_cache srv)
        in srv\<lparr>sv_dns_cache := es[slot := \<lparr>de_valid = True, de_ip = ip, de_expires_at_ms = now + SOCKS5_DNS_TTL_MS,
               de_last_used_ms = now, de_domain = take 255 domain\<rparr>]\<rparr>)"

section \<open>Pending queries\<close>

definition dns_query_find :: "socks5_server \<Rightarrow> bytes \<Rightarrow> resolve_req option" where
  "dns_query_find srv domain = find (\<lambda>q. q_domain q = domain) (sv_dns_queries srv)"

definition dns_query_at :: "socks5_server \<Rightarrow> query_ref \<Rightarrow> resolve_req option" where
  "dns_query_at srv q = find (\<lambda>c. q_ref c = q) (sv_dns_queries srv)"

definition dns_query_insert :: "resolve_req \<Rightarrow> socks5_server \<Rightarrow> socks5_server" where
  "dns_query_insert ctx srv = srv\<lparr>sv_dns_queries := ctx # sv_dns_queries srv\<rparr>"

definition dns_query_unlink :: "query_ref \<Rightarrow> socks5_server \<Rightarrow> socks5_server" where
  "dns_query_unlink q srv = srv\<lparr>sv_dns_queries := filter (\<lambda>c. q_ref c \<noteq> q) (sv_dns_queries srv)\<rparr>"

definition upd_query :: "query_ref \<Rightarrow> (resolve_req \<Rightarrow> resolve_req) \<Rightarrow> socks5_server \<Rightarrow> socks5_server" where
  "upd_query q f srv = srv\<lparr>sv_dns_queries := map (\<lambda>c. if q_ref c = q then f c else c) (sv_dns_queries srv)\<rparr>"

definition dns_query_add_waiter :: "query_ref \<Rightarrow> sc_ref \<Rightarrow> world \<Rightarrow> world" where
  "dns_query_add_waiter q k w =
     upd_server (upd_query q (\<lambda>c. c\<lparr>q_waiters := k # q_waiters c\<rparr>)) (upd_sc k (\<lambda>x. x\<lparr>s_resolve_req := Some q\<rparr>) w)"

text \<open>The cancellation of a query without waiters only makes libuv report it with an error later.\<close>

definition dns_query_remove_waiter :: "query_ref \<Rightarrow> sc_ref \<Rightarrow> world \<Rightarrow> world" where
  "dns_query_remove_waiter q k w =
     upd_sc k (\<lambda>x. x\<lparr>s_resolve_req := None\<rparr>) (upd_server (upd_query q (\<lambda>c. c\<lparr>q_waiters := remove1 k (q_waiters c)\<rparr>)) w)"

section \<open>The calls into the stack\<close>

definition WG_ON_CONNECT :: fptr where "WG_ON_CONNECT = 1"
definition WG_ON_DATA :: fptr where "WG_ON_DATA = 2"
definition WG_ON_CLOSE :: fptr where "WG_ON_CLOSE = 3"
definition WG_ON_WRITEABLE :: fptr where "WG_ON_WRITEABLE = 4"
definition WG_RECV_WINDOW :: fptr where "WG_RECV_WINDOW = 5"

definition client_buffered_to_browser :: "socks5_conn \<Rightarrow> nat" where
  "client_buffered_to_browser x = length (s_outbuf x) + length (s_write_buf x)"

text \<open>\<^verbatim>\<open>conn->userdata\<close>; the stack passes connections that exist.\<close>

definition conn_user :: "conn_ref \<Rightarrow> world \<Rightarrow> sc_ref" where
  "conn_user c w = (case conn_mem w c of None \<Rightarrow> 0 | Some y \<Rightarrow> c_userdata y)"

text \<open>The client behind a connection, if \<^verbatim>\<open>userdata\<close> is not null and the client is not closed.\<close>

definition client_of :: "conn_ref \<Rightarrow> world \<Rightarrow> sc_ref option" where
  "client_of c w =
     (let k = conn_user c w in if k = 0 \<or> s_write_state (sc_at w k) = S5W_CLOSED then None else Some k)"

definition wg_recv_window :: "conn_ref \<Rightarrow> world \<Rightarrow> u64" where
  "wg_recv_window c w =
     (case client_of c w of None \<Rightarrow> 0
      | Some k \<Rightarrow>
        let buffered = client_buffered_to_browser (sc_at w k)
        in if buffered \<ge> SOCKS5_CLIENT_OUTBUF_LIMIT then 0 else of_nat (SOCKS5_CLIENT_OUTBUF_LIMIT - buffered))"

text \<open>What the stack calls while the proxy is inside one of its functions: \<^verbatim>\<open>wg_recv_window\<close> for the segments it sends. It could also report a
  close, but only of a connection the proxy has detached (\<^verbatim>\<open>userdata\<close> null), and then \<^verbatim>\<open>wg_on_close\<close> does nothing.\<close>

definition inner_app :: "unit world_ext tcp_app" where
  "inner_app = \<lparr>app_connect = \<lambda>_ _ _ w. w, app_data = \<lambda>_ _ _ w. w, app_close = \<lambda>_ _ w. w, app_writeable = \<lambda>_ _ w. w,
     app_accept = \<lambda>_ _ _ w. w, app_window = \<lambda>_ c w. wg_recv_window c w\<rparr>"

section \<open>Closing a client\<close>

definition s5_flush_remove :: "sc_ref \<Rightarrow> world \<Rightarrow> world" where
  "s5_flush_remove k w =
     (if s_write_state (sc_at w k) \<noteq> S5W_QUEUED then w
      else
        let fl = remove1 k (sv_flush (w_server w));
            w = (if k \<in> set (sv_flush (w_server w))
                 then upd_server (\<lambda>srv. srv\<lparr>sv_flush := fl, sv_flush_check := (if fl = [] then False else sv_flush_check srv)\<rparr>) w else w)
        in upd_sc k (\<lambda>x. x\<lparr>s_write_state := S5W_IDLE\<rparr>) w)"

definition detach_wg :: "conn_ref \<Rightarrow> world \<Rightarrow> world" where
  "detach_wg c w = upd_conn c (\<lambda>x. x\<lparr>c_userdata := 0, c_on_recv_window := None, c_on_writeable := None\<rparr>) w"

definition close_wg :: "sc_ref \<Rightarrow> world \<Rightarrow> world" where
  "close_wg k w =
     (case s_wg_conn (sc_at w k) of None \<Rightarrow> w
      | Some c \<Rightarrow> upd_sc k (\<lambda>x. x\<lparr>s_wg_conn := None\<rparr>) (tcp_close inner_app c (detach_wg c w)))"

definition socks5_conn_close :: "sc_ref \<Rightarrow> world \<Rightarrow> world" where
  "socks5_conn_close k w =
     (if s_write_state (sc_at w k) = S5W_CLOSED then w
      else
        let w = upd_sc k (\<lambda>x. x\<lparr>s_write_state := S5W_CLOSED\<rparr>) (s5_flush_remove k w);
            w = close_wg k w;
            w = (case s_resolve_req (sc_at w k) of None \<Rightarrow> w | Some q \<Rightarrow> dns_query_remove_waiter q k w)
        in if s_closing (sc_at w k) then w else upd_sc k (\<lambda>x. x\<lparr>s_reading := False, s_closing := True\<rparr>) w)"

definition client_close_cb :: "sc_ref \<Rightarrow> world \<Rightarrow> world" where
  "client_close_cb k w = (let w = close_wg k w in w\<lparr>w_conns := (w_conns w)(k := None)\<rparr>)"

section \<open>Output to the client\<close>

function (sequential) double_cap :: "nat \<Rightarrow> nat \<Rightarrow> nat" where
  "double_cap need c = (if c \<noteq> 0 \<and> c < need then double_cap need (c * 2) else c)"
  by pat_completeness auto
termination by (relation "measure (\<lambda>(need, c). need - c)") auto

declare double_cap.simps [simp del]

text \<open>The new capacity, \<open>None\<close> when \<^verbatim>\<open>realloc\<close> fails.\<close>

definition reserve_buf :: "nat \<Rightarrow> nat \<Rightarrow> world \<Rightarrow> nat option \<times> world" where
  "reserve_buf cap need w =
     (if cap \<ge> need then (Some cap, w)
      else
        let new_cap = double_cap need (if cap \<noteq> 0 then cap else 1024);
            (ok, w) = ts_alloc w
        in (if ok then Some new_cap else None, w))"

definition schedule_client_flush :: "sc_ref \<Rightarrow> world \<Rightarrow> world" where
  "schedule_client_flush k w =
     (if s_write_state (sc_at w k) \<noteq> S5W_IDLE then w
      else upd_server (\<lambda>srv. srv\<lparr>sv_flush := sv_flush srv @ [k], sv_flush_check := True\<rparr>)
             (upd_sc k (\<lambda>x. x\<lparr>s_write_state := S5W_QUEUED\<rparr>) w))"

definition client_flush :: "sc_ref \<Rightarrow> world \<Rightarrow> world" where
  "client_flush k w =
     (let x = sc_at w k
      in if s_write_state x = S5W_CLOSED \<or> s_write_state x = S5W_WRITING \<or> s_outbuf x = [] then w
         else
           let w = upd_sc k (\<lambda>x. x\<lparr>s_write_buf := s_outbuf x, s_write_buf_cap := s_outbuf_cap x, s_outbuf := [],
                     s_outbuf_cap := s_write_buf_cap x, s_write_state := S5W_WRITING\<rparr>) w;
               (ret, w) = uv_result w
           in if ret < 0 then socks5_conn_close k (upd_sc k (\<lambda>x. x\<lparr>s_write_state := S5W_IDLE\<rparr>) w)
              else upd_sc k (\<lambda>x. x\<lparr>s_written := s_written x @ s_write_buf x\<rparr>) w)"

definition update_wg_recv_window_state :: "sc_ref \<Rightarrow> world \<Rightarrow> world" where
  "update_wg_recv_window_state k w =
     (let x = sc_at w k
      in case s_wg_conn x of None \<Rightarrow> w
         | Some c \<Rightarrow>
           if s_write_state x = S5W_CLOSED then w
           else if client_buffered_to_browser x \<ge> SOCKS5_CLIENT_OUTBUF_RESUME then upd_sc k (\<lambda>x. x\<lparr>s_throttled := True\<rparr>) w
           else if s_throttled x then tcp_update_recv_window inner_app c (upd_sc k (\<lambda>x. x\<lparr>s_throttled := False\<rparr>) w)
           else w)"

definition client_write :: "sc_ref \<Rightarrow> bytes \<Rightarrow> world \<Rightarrow> world" where
  "client_write k data w =
     (if s_write_state (sc_at w k) = S5W_CLOSED \<or> data = [] then w
      else
        case reserve_buf (s_outbuf_cap (sc_at w k)) (length (s_outbuf (sc_at w k)) + length data) w of
          (None, w) \<Rightarrow> w
        | (Some cap, w) \<Rightarrow>
            let w = upd_sc k (\<lambda>x. x\<lparr>s_outbuf := s_outbuf x @ data, s_outbuf_cap := cap\<rparr>) w;
                w = update_wg_recv_window_state k w
            in if length (s_outbuf (sc_at w k)) \<ge> 8192 then client_flush k (s5_flush_remove k w)
               else schedule_client_flush k w)"

definition write_done_cb :: "sc_ref \<Rightarrow> int \<Rightarrow> world \<Rightarrow> world" where
  "write_done_cb k status w =
     (let w = upd_sc k (\<lambda>x. x\<lparr>s_write_state := S5W_IDLE, s_write_buf := []\<rparr>) w;
          w = (if s_outbuf_cap (sc_at w k) < s_write_buf_cap (sc_at w k) \<and> s_outbuf (sc_at w k) = []
               then upd_sc k (\<lambda>x. x\<lparr>s_outbuf_cap := s_write_buf_cap x, s_write_buf_cap := s_outbuf_cap x\<rparr>) w else w)
      in if status < 0 then socks5_conn_close k w
         else
           let w = update_wg_recv_window_state k w
           in if s_outbuf (sc_at w k) \<noteq> [] then schedule_client_flush k w else w)"

definition s5_flush_check_cb :: "world \<Rightarrow> world" where
  "s5_flush_check_cb w =
     fold (\<lambda>k w. client_flush k (upd_sc k (\<lambda>x. if s_write_state x = S5W_QUEUED then x\<lparr>s_write_state := S5W_IDLE\<rparr> else x) w))
       (sv_flush (w_server w)) (upd_server (\<lambda>srv. srv\<lparr>sv_flush := [], sv_flush_check := False\<rparr>) w)"

definition send_reply :: "sc_ref \<Rightarrow> u8 \<Rightarrow> world \<Rightarrow> world" where
  "send_reply k rep w = client_write k [S5_VER, rep, 0, S5_ATYP_IPV4, 0, 0, 0, 0, 0, 0] w"

section \<open>Input that waits for the connection\<close>

function (sequential) pending_new_cap :: "nat \<Rightarrow> nat \<Rightarrow> nat" where
  "pending_new_cap need c = (if c \<noteq> 0 \<and> c < need \<and> c < SOCKS5_PENDING_LIMIT then pending_new_cap need (c * 2) else c)"
  by pat_completeness auto
termination by (relation "measure (\<lambda>(need, c). need - c)") auto

declare pending_new_cap.simps [simp del]

definition pending_grow :: "bool \<Rightarrow> nat \<Rightarrow> socks5_conn \<Rightarrow> int \<times> socks5_conn" where
  "pending_grow ok need x =
     (if need \<le> s_pending_cap x then (0, x)
      else
        let new_cap = pending_new_cap need (if s_pending_cap x \<noteq> 0 then s_pending_cap x else SOCKS5_READ_BUFSIZE);
            new_cap = (if new_cap > SOCKS5_PENDING_LIMIT then SOCKS5_PENDING_LIMIT else new_cap)
        in if new_cap < need then (-1, x)
        else if \<not> ok then (-1, x)
        else
          let nb = zeros new_cap;
              nb = (if s_pending_len x \<noteq> 0
                    then put 0 (ring_get (s_pending_data x) (s_pending_cap x) (s_pending_head x) (s_pending_len x)) nb else nb)
          in (0, x\<lparr>s_pending_data := nb, s_pending_cap := new_cap, s_pending_head := 0\<rparr>))"

definition pending_append :: "bool \<Rightarrow> bytes \<Rightarrow> socks5_conn \<Rightarrow> int \<times> socks5_conn" where
  "pending_append ok data x =
     (if data = [] then (0, x)
      else if s_pending_len x + length data > SOCKS5_PENDING_LIMIT then (-1, x)
      else
        let (ret, x) = pending_grow ok (s_pending_len x + length data) x
        in if ret < 0 then (-1, x)
           else
             let tail = (s_pending_head x + s_pending_len x) mod s_pending_cap x
             in (0, x\<lparr>s_pending_data := ring_put (s_pending_cap x) tail data (s_pending_data x), s_pending_len := s_pending_len x + length data\<rparr>))"

text \<open>The call on a client: \<^verbatim>\<open>malloc\<close> is only asked when the buffer must grow.\<close>

definition sc_pending_append :: "sc_ref \<Rightarrow> bytes \<Rightarrow> world \<Rightarrow> int \<times> world" where
  "sc_pending_append k data w =
     (let x = sc_at w k; need = s_pending_len x + length data;
          (ok, w) = (if data = [] \<or> need > SOCKS5_PENDING_LIMIT \<or> need \<le> s_pending_cap x then (True, w) else ts_alloc w);
          (ret, x) = pending_append ok data x
      in (ret, upd_sc k (\<lambda>_. x) w))"

definition pending_contiguous_len :: "socks5_conn \<Rightarrow> nat" where
  "pending_contiguous_len x = (if s_pending_len x = 0 then 0 else min (s_pending_cap x - s_pending_head x) (s_pending_len x))"

definition pending_consume :: "nat \<Rightarrow> socks5_conn \<Rightarrow> socks5_conn" where
  "pending_consume n x =
     (if n \<ge> s_pending_len x then x\<lparr>s_pending_head := 0, s_pending_len := 0\<rparr>
      else x\<lparr>s_pending_head := (s_pending_head x + n) mod s_pending_cap x, s_pending_len := s_pending_len x - n\<rparr>)"

text \<open>The loop of \<^verbatim>\<open>flush_pending_to_wg\<close>. Each round consumes at least one byte, so the number of pending bytes bounds the rounds.\<close>

fun flush_pending_loop :: "nat \<Rightarrow> sc_ref \<Rightarrow> conn_ref \<Rightarrow> world \<Rightarrow> world" where
  "flush_pending_loop 0 k c w = w"
| "flush_pending_loop (Suc fuel) k c w =
     (let x = sc_at w k; avail = tcp_send_available (conn_at w c)
      in if s_pending_len x = 0 \<or> avail = 0 then w
         else
           let send_len = min (pending_contiguous_len x) avail;
               (ret, w) = tcp_send inner_app c (slice (s_pending_head x) send_len (s_pending_data x)) w
           in if ret < 0 then w else flush_pending_loop fuel k c (upd_sc k (pending_consume send_len) w))"

definition flush_pending_to_wg :: "sc_ref \<Rightarrow> world \<Rightarrow> world" where
  "flush_pending_to_wg k w =
     (case s_wg_conn (sc_at w k) of None \<Rightarrow> w
      | Some c \<Rightarrow>
        if s_state (sc_at w k) \<noteq> S5_ESTABLISHED \<or> s_pending_len (sc_at w k) = 0 then w
        else
          let w = flush_pending_loop (s_pending_len (sc_at w k)) k c w
          in if s_pending_len (sc_at w k) = 0 then
               let w = upd_sc k (\<lambda>x. x\<lparr>s_pending_data := [], s_pending_cap := 0, s_pending_head := 0\<rparr>) w
               in if s_client_paused (sc_at w k) \<and> s_write_state (sc_at w k) \<noteq> S5W_CLOSED
                  then upd_sc k (\<lambda>x. x\<lparr>s_client_paused := False, s_reading := True\<rparr>) w else w
             else w)"

section \<open>The callbacks of the stack\<close>

definition wg_on_connect :: "conn_ref \<Rightarrow> int \<Rightarrow> world \<Rightarrow> world" where
  "wg_on_connect c status w =
     (case client_of c w of None \<Rightarrow> w
      | Some k \<Rightarrow>
        if status < 0 then socks5_conn_close k (send_reply k S5_REP_NOCONN w)
        else
          let w = send_reply k S5_REP_OK (upd_sc k (\<lambda>x. x\<lparr>s_state := S5_ESTABLISHED\<rparr>) w)
          in if s_pending_cap (sc_at w k) \<noteq> 0 \<and> s_pending_len (sc_at w k) \<noteq> 0 then flush_pending_to_wg k w else w)"

definition wg_on_data :: "conn_ref \<Rightarrow> bytes \<Rightarrow> world \<Rightarrow> world" where
  "wg_on_data c data w = (case client_of c w of None \<Rightarrow> w | Some k \<Rightarrow> client_write k data w)"

definition wg_on_close :: "conn_ref \<Rightarrow> world \<Rightarrow> world" where
  "wg_on_close c w =
     (let k = conn_user c w
      in if k = 0 then w else socks5_conn_close k (upd_sc k (\<lambda>x. x\<lparr>s_wg_conn := None\<rparr>) (detach_wg c w)))"

definition wg_on_writeable :: "conn_ref \<Rightarrow> world \<Rightarrow> world" where
  "wg_on_writeable c w =
     (case client_of c w of None \<Rightarrow> w
      | Some k \<Rightarrow>
        let w = flush_pending_to_wg k w
        in if s_client_paused (sc_at w k) \<and> s_pending_len (sc_at w k) = 0 \<and> s_write_state (sc_at w k) \<noteq> S5W_CLOSED
           then upd_sc k (\<lambda>x. x\<lparr>s_client_paused := False, s_reading := True\<rparr>) w else w)"

text \<open>The application that the proxy is for the stack.\<close>

definition s5_app :: "unit world_ext tcp_app" where
  "s5_app = \<lparr>app_connect = \<lambda>_ c status w. wg_on_connect c status w, app_data = \<lambda>_ c data w. wg_on_data c data w,
     app_close = \<lambda>_ c w. wg_on_close c w, app_writeable = \<lambda>_ c w. wg_on_writeable c w,
     app_accept = \<lambda>_ _ _ w. w, app_window = \<lambda>_ c w. wg_recv_window c w\<rparr>"

section \<open>Connecting to the target\<close>

definition AF_UNSPEC :: nat where "AF_UNSPEC = 0"

definition do_connect :: "sc_ref \<Rightarrow> world \<Rightarrow> world" where
  "do_connect k w =
     (let x = sc_at w k;
          (r, w) = tcpstack_connect inner_app (s_target_family x) (if s_target_family x = AF_INET6 then s_target_ip6 x else s_target_ip x)
            (s_target_port x) (Some WG_ON_CONNECT) (Some WG_ON_DATA) (Some WG_ON_CLOSE) k w;
          w = upd_sc k (\<lambda>x. x\<lparr>s_wg_conn := r\<rparr>) w
      in case r of
           None \<Rightarrow> socks5_conn_close k (send_reply k S5_REP_FAIL w)
         | Some c \<Rightarrow> tcp_set_recv_window_cb c (Some WG_RECV_WINDOW) (upd_conn c (\<lambda>y. y\<lparr>c_on_writeable := Some WG_ON_WRITEABLE\<rparr>) w))"

definition resolve_complete :: "sc_ref \<Rightarrow> bytes \<Rightarrow> int \<Rightarrow> nat \<Rightarrow> bytes \<Rightarrow> bytes \<Rightarrow> world \<Rightarrow> world" where
  "resolve_complete k domain status family ip ip6 w =
     (if s_write_state (sc_at w k) = S5W_CLOSED then w
      else if status < 0 \<or> family = AF_UNSPEC then socks5_conn_close k (send_reply k S5_REP_FAIL w)
      else
        let w = upd_sc k (\<lambda>x. x\<lparr>s_target_family := family\<rparr>) w
        in if family = AF_INET then
             let w = upd_sc k (\<lambda>x. x\<lparr>s_target_ip := ip\<rparr>) w;
                 w = upd_server (\<lambda>srv. dns_cache_store srv domain ip (ts_now w)) w
             in do_connect k (upd_sc k (\<lambda>x. x\<lparr>s_state := S5_CONNECTING\<rparr>) w)
           else if family = AF_INET6 then
             let w = upd_sc k (\<lambda>x. x\<lparr>s_target_ip := zeros 4, s_target_ip6 := ip6\<rparr>) w
             in if ts_local_ip6 w = None then socks5_conn_close k (send_reply k S5_REP_FAIL w)
                else do_connect k (upd_sc k (\<lambda>x. x\<lparr>s_state := S5_CONNECTING\<rparr>) w)
           else do_connect k (upd_sc k (\<lambda>x. x\<lparr>s_state := S5_CONNECTING\<rparr>) w))"

definition dns_query_finish :: "query_ref \<Rightarrow> int \<Rightarrow> nat \<Rightarrow> bytes \<Rightarrow> bytes \<Rightarrow> world \<Rightarrow> world" where
  "dns_query_finish q status family ip ip6 w =
     (case dns_query_at (w_server w) q of None \<Rightarrow> w
      | Some ctx \<Rightarrow>
        let w = upd_server (dns_query_unlink q) w;
            w = (if status \<ge> 0 \<and> family = AF_INET then upd_server (\<lambda>srv. dns_cache_store srv (q_domain ctx) ip (ts_now w)) w else w)
        in fold (\<lambda>k w. let w = upd_sc k (\<lambda>x. x\<lparr>s_resolve_req := None\<rparr>) w
                       in if sv_dns_shutting_down (w_server w) then socks5_conn_close k w
                          else resolve_complete k (q_domain ctx) status family ip ip6 w) (q_waiters ctx) w)"

text \<open>The first address of each family; IPv4 is preferred.\<close>

definition first_of :: "nat \<Rightarrow> addrinfo \<Rightarrow> bytes option" where
  "first_of family res = map_option snd (find (\<lambda>(f, _). f = family) res)"

definition pick_address :: "int \<Rightarrow> int \<Rightarrow> addrinfo \<Rightarrow> int \<times> nat \<times> bytes \<times> bytes" where
  "pick_address status none res =
     (case first_of AF_INET res of
        Some ip \<Rightarrow> (status, AF_INET, ip, zeros 16)
      | None \<Rightarrow> (case first_of AF_INET6 res of Some ip6 \<Rightarrow> (status, AF_INET6, zeros 4, ip6) | None \<Rightarrow> (none, AF_UNSPEC, zeros 4, zeros 16)))"

definition UV_EAI_NONAME :: int where "UV_EAI_NONAME = -3008"
definition ARES_SUCCESS :: int where "ARES_SUCCESS = 0"
definition ARES_ENODATA :: int where "ARES_ENODATA = 1"

text \<open>\<open>res\<close> is \<open>[]\<close> for a null pointer.\<close>

definition on_resolved :: "query_ref \<Rightarrow> int \<Rightarrow> addrinfo \<Rightarrow> world \<Rightarrow> world" where
  "on_resolved q status res w =
     (let (status, family, ip, ip6) =
            (if status \<ge> 0 \<and> res \<noteq> [] then pick_address status UV_EAI_NONAME res else (status, AF_UNSPEC, zeros 4, zeros 16))
      in dns_query_finish q status family ip ip6 w)"

definition cares_addrinfo_cb :: "query_ref \<Rightarrow> int \<Rightarrow> addrinfo \<Rightarrow> world \<Rightarrow> world" where
  "cares_addrinfo_cb q status res w =
     (let (status, family, ip, ip6) =
            (if status = ARES_SUCCESS \<and> res \<noteq> [] then pick_address 0 ARES_ENODATA res else (status, AF_UNSPEC, zeros 4, zeros 16));
          status = (if status \<noteq> ARES_SUCCESS then -1 else status)
      in dns_query_finish q status family ip ip6 w)"

definition dns_start_query :: "sc_ref \<Rightarrow> bytes \<Rightarrow> world \<Rightarrow> int \<times> world" where
  "dns_start_query k domain w =
     (case dns_query_find (w_server w) domain of
        Some ctx \<Rightarrow> (0, dns_query_add_waiter (q_ref ctx) k w)
      | None \<Rightarrow>
        case ts_alloc w of
          (False, w) \<Rightarrow> (-1, w)
        | (True, w) \<Rightarrow>
          let q = w_qbrk w; cares = sv_dns_using_cares (w_server w);
              ctx = \<lparr>q_ref = q, q_waiters = [], q_domain = take 255 domain, q_cares = cares\<rparr>;
              w = dns_query_add_waiter q k (upd_server (dns_query_insert ctx) (w\<lparr>w_qbrk := q + 1\<rparr>))
          in if cares then
               let answer = w_ares w 0; w = w\<lparr>w_ares := \<lambda>i. w_ares w (i + 1)\<rparr>
               in (0, case answer of None \<Rightarrow> w | Some (status, res) \<Rightarrow> cares_addrinfo_cb q status res w)
             else
               let (ret, w) = uv_result w
               in if ret < 0 then (-1, upd_sc k (\<lambda>x. x\<lparr>s_resolve_req := None\<rparr>) (upd_server (dns_query_unlink q) w)) else (0, w))"

section \<open>The handshake\<close>

definition consume_rx :: "nat \<Rightarrow> sc_ref \<Rightarrow> world \<Rightarrow> world" where
  "consume_rx n k w = upd_sc k (\<lambda>x. x\<lparr>s_rxbuf := drop n (s_rxbuf x)\<rparr>) w"

definition process_auth_request :: "sc_ref \<Rightarrow> world \<Rightarrow> world" where
  "process_auth_request k w =
     (let rx = s_rxbuf (sc_at w k)
      in if length rx < 2 then w
         else
           let nmethods = unat (rx ! 1)
           in if length rx < 2 + nmethods then w
              else
                let methods = slice 2 nmethods rx;
                    has_no_auth = S5_AUTH_NONE \<in> set methods; has_userpass = S5_AUTH_USERPASS \<in> set methods;
                    (selected, next_state) =
                      (if sv_auth_required (w_server w) then
                         if has_userpass then (S5_AUTH_USERPASS, S5_USERPASS) else (S5_AUTH_NO_ACCEPTABLE, S5_INIT)
                       else if has_no_auth then (S5_AUTH_NONE, S5_AUTH) else (S5_AUTH_NO_ACCEPTABLE, S5_INIT));
                    w = client_write k [S5_VER, selected] w
                in if selected = S5_AUTH_NO_ACCEPTABLE then socks5_conn_close k w
                   else consume_rx (2 + nmethods) k (upd_sc k (\<lambda>x. x\<lparr>s_state := next_state\<rparr>) w))"

definition process_userpass_auth :: "sc_ref \<Rightarrow> world \<Rightarrow> world" where
  "process_userpass_auth k w =
     (let rx = s_rxbuf (sc_at w k); reject = (\<lambda>w. socks5_conn_close k (client_write k [S5_USERPASS_VER, 1] w))
      in if length rx < 2 then w
         else if rx ! 0 \<noteq> S5_USERPASS_VER then reject w
         else
           let ulen = unat (rx ! 1)
           in if ulen = 0 then reject w
              else if length rx < 2 + ulen + 1 then w
              else
                let plen = unat (rx ! (2 + ulen))
                in if length rx < 3 + ulen + plen then w
                   else
                     let user = slice 2 ulen rx; pass = slice (3 + ulen) plen rx;
                         ok = (length (sv_auth_user (w_server w)) = ulen \<and> length (sv_auth_pass (w_server w)) = plen \<and>
                               user = sv_auth_user (w_server w) \<and> pass = sv_auth_pass (w_server w))
                     in if \<not> ok then reject w
                        else
                          let w = client_write k [S5_USERPASS_VER, 0] w
                          in consume_rx (3 + ulen + plen) k (upd_sc k (\<lambda>x. x\<lparr>s_state := S5_AUTH\<rparr>) w))"

text \<open>A C string in a buffer.\<close>

definition c_string :: "bytes \<Rightarrow> bytes" where
  "c_string bs = takeWhile (\<lambda>b. b \<noteq> 0) bs"

definition process_connect_request :: "sc_ref \<Rightarrow> world \<Rightarrow> world" where
  "process_connect_request k w =
     (let rx = s_rxbuf (sc_at w k); reject = (\<lambda>w. socks5_conn_close k (send_reply k S5_REP_FAIL w))
      in if length rx < 4 then w
         else if rx ! 0 \<noteq> S5_VER \<or> rx ! 1 \<noteq> S5_CMD_CONNECT then reject w
         else
           let atyp = rx ! 3
           in if atyp \<noteq> S5_ATYP_IPV4 \<and> atyp \<noteq> S5_ATYP_DOMAIN \<and> atyp \<noteq> S5_ATYP_IPV6 then reject w
              else if atyp = S5_ATYP_DOMAIN \<and> length rx < 5 then w
              else
                let needed = (if atyp = S5_ATYP_IPV4 then 4 + 4 + 2 else if atyp = S5_ATYP_DOMAIN then 4 + 1 + unat (rx ! 4) + 2 else 4 + 16 + 2)
                in if length rx < needed then w
                   else
                     let w = upd_sc k (\<lambda>x. x\<lparr>s_target_port := of_be (slice (needed - 2) 2 rx)\<rparr>) w
                     in if atyp = S5_ATYP_IPV4 then
                          do_connect k (upd_sc k (\<lambda>x. x\<lparr>s_target_family := AF_INET, s_target_ip := slice 4 4 rx, s_state := S5_CONNECTING\<rparr>) w)
                        else if atyp = S5_ATYP_DOMAIN then
                          let domain = c_string (slice 5 (unat (rx ! 4)) rx);
                              w = upd_sc k (\<lambda>x. x\<lparr>s_state := S5_RESOLVING\<rparr>) w;
                              (cached, srv) = dns_cache_lookup (w_server w) domain (ts_now w);
                              w = w\<lparr>w_server := srv\<rparr>
                          in case cached of
                               Some ip \<Rightarrow> resolve_complete k domain 0 AF_INET ip (zeros 16) w
                             | None \<Rightarrow> let (ret, w) = dns_start_query k domain w in if ret < 0 then reject w else w
                        else if ts_local_ip6 w = None then reject w
                        else do_connect k (upd_sc k (\<lambda>x. x\<lparr>s_target_family := AF_INET6, s_target_ip6 := slice 4 16 rx, s_state := S5_CONNECTING\<rparr>) w))"

section \<open>Input from the client\<close>

definition client_read_established :: "sc_ref \<Rightarrow> bytes \<Rightarrow> world \<Rightarrow> world" where
  "client_read_established k data w =
     (if s_state (sc_at w k) = S5_RESOLVING \<or> s_state (sc_at w k) = S5_CONNECTING then
        let (ret, w) = sc_pending_append k data w in if ret < 0 then socks5_conn_close k w else w
      else if s_state (sc_at w k) = S5_ESTABLISHED then
        (case s_wg_conn (sc_at w k) of None \<Rightarrow> w
         | Some c \<Rightarrow>
           let send_len = min (length data) (tcp_send_available (conn_at w c));
               (ret, w) = (if send_len > 0 then tcp_send inner_app c (take send_len data) w else (0, w));
               send_len = (if ret < 0 then 0 else send_len);
               (ret, w) = (if send_len < length data then sc_pending_append k (drop send_len data) w else (0, w))
           in if ret < 0 then socks5_conn_close k w
              else if s_pending_len (sc_at w k) > 0 \<or> c_sendbuf_len (conn_at w c) > WG_TCP_SENDBUF_SIZE * 3 div 4
              then upd_sc k (\<lambda>x. x\<lparr>s_reading := False, s_client_paused := True\<rparr>) w else w)
      else w)"

definition UV_EAGAIN :: int where "UV_EAGAIN = -11"

definition on_client_read :: "sc_ref \<Rightarrow> int \<Rightarrow> bytes \<Rightarrow> world \<Rightarrow> world" where
  "on_client_read k nread buf w =
     (if nread \<le> 0 then if nread \<noteq> UV_EAGAIN then socks5_conn_close k w else w
      else
        let data = take (nat nread) buf; st = s_state (sc_at w k)
        in if st = S5_ESTABLISHED \<or> st = S5_CONNECTING \<or> st = S5_RESOLVING then client_read_established k data w
           else
             let w = upd_sc k (\<lambda>x. x\<lparr>s_rxbuf := s_rxbuf x @ take (RXBUF_SIZE - length (s_rxbuf x)) data\<rparr>) w;
                 connect = (\<lambda>w. if s_state (sc_at w k) = S5_AUTH \<and> length (s_rxbuf (sc_at w k)) \<ge> 4 then process_connect_request k w else w)
             in if st = S5_INIT then
                  let w = process_auth_request k w;
                      w = (if s_state (sc_at w k) = S5_USERPASS then process_userpass_auth k w else w)
                  in connect w
                else if st = S5_USERPASS then connect (process_userpass_auth k w)
                else if st = S5_AUTH then process_connect_request k w
                else w)"

text \<open>\<open>accepted\<close> is the outcome of \<^verbatim>\<open>uv_accept\<close>.\<close>

definition on_connection :: "int \<Rightarrow> bool \<Rightarrow> world \<Rightarrow> world" where
  "on_connection status accepted w =
     (if status < 0 then w
      else case ts_alloc w of
        (False, w) \<Rightarrow> w
      | (True, w) \<Rightarrow>
        let k = w_sbrk w
        in w\<lparr>w_sbrk := k + 1,
             w_conns := (w_conns w)(k \<mapsto> socks5_conn_zero\<lparr>s_reading := accepted, s_closing := \<not> accepted\<rparr>)\<rparr>)"

section \<open>Start and stop of the server\<close>

text \<open>The fields set before the calls of c-ares and libuv; \<open>cache_env\<close> is the environment variable, \<open>cares\<close> whether c-ares could be initialised.\<close>

definition socks5_start :: "bytes option \<Rightarrow> bytes option \<Rightarrow> bytes option \<Rightarrow> bool \<Rightarrow> socks5_server" where
  "socks5_start auth_user auth_pass cache_env cares =
     (let auth = (case auth_user of None \<Rightarrow> False | Some u \<Rightarrow> c_string u \<noteq> [])
      in \<lparr>sv_flush = [], sv_flush_check = False, sv_dns_cache_enabled = (cache_env \<noteq> Some [48]),
          sv_dns_cache = replicate SOCKS5_DNS_CACHE_SIZE \<lparr>de_valid = False, de_ip = zeros 4, de_expires_at_ms = 0, de_last_used_ms = 0, de_domain = []\<rparr>,
          sv_dns_using_cares = cares, sv_dns_shutting_down = False, sv_dns_queries = [], sv_auth_required = auth,
          sv_auth_user = (if auth then take 255 (c_string (the auth_user)) else []),
          sv_auth_pass = (if auth then take 255 (c_string (case auth_pass of None \<Rightarrow> [] | Some p \<Rightarrow> p)) else [])\<rparr>)"

definition ARES_ECANCELLED :: int where "ARES_ECANCELLED = 24"

text \<open>\<^verbatim>\<open>ares_cancel\<close> reports every pending query as cancelled.\<close>

definition socks5_stop :: "world \<Rightarrow> world" where
  "socks5_stop w =
     (let w = (if sv_dns_using_cares (w_server w) then
                 let w = upd_server (\<lambda>srv. srv\<lparr>sv_dns_shutting_down := True\<rparr>) w;
                     w = fold (\<lambda>q w. cares_addrinfo_cb q ARES_ECANCELLED [] w) (map q_ref (sv_dns_queries (w_server w))) w
                 in upd_server (\<lambda>srv. srv\<lparr>sv_dns_using_cares := False\<rparr>) w
               else w)
      in upd_server (\<lambda>srv. srv\<lparr>sv_flush_check := False\<rparr>) w)"

end
