(* ===== verification/Socks5_Buf.thy ===== *)
theory Socks5_Buf
  imports Socks5
begin

text \<open>
  The buffers of a client of the proxy: the circular buffer of bytes that wait for the connection, the output buffers and the handshake buffer,
  with what it takes for their accesses to stay inside the memory they have.
\<close>

section \<open>The buffer of pending bytes\<close>

definition pending :: "socks5_conn \<Rightarrow> bytes" where
  "pending x = ring (s_pending_cap x) ((!) (s_pending_data x)) (s_pending_head x) (s_pending_len x)"

definition pending_wf :: "socks5_conn \<Rightarrow> bool" where
  "pending_wf x \<longleftrightarrow> length (s_pending_data x) = s_pending_cap x \<and> s_pending_len x \<le> s_pending_cap x \<and> s_pending_cap x \<le> SOCKS5_PENDING_LIMIT \<and>
     (if s_pending_cap x = 0 then s_pending_head x = 0 else s_pending_head x < s_pending_cap x)"

lemma length_pending [simp]: "length (pending x) = s_pending_len x"
  by (simp add: pending_def)

lemma pending_Nil: "pending x = [] \<longleftrightarrow> s_pending_len x = 0"
  by (metis length_0_conv length_pending)

lemma pending_new_cap_bounds: "c \<noteq> 0 \<Longrightarrow> c \<le> pending_new_cap need c \<and> (need \<le> pending_new_cap need c \<or> SOCKS5_PENDING_LIMIT \<le> pending_new_cap need c)"
proof (induction need c rule: pending_new_cap.induct)
  case (1 need c)
  show ?case
  proof (cases "c < need \<and> c < SOCKS5_PENDING_LIMIT")
    case True
    then have "pending_new_cap need c = pending_new_cap need (c * 2)" using 1(2) by (simp add: pending_new_cap.simps [of need c])
    moreover have "c * 2 \<le> pending_new_cap need (c * 2) \<and> (need \<le> pending_new_cap need (c * 2) \<or> SOCKS5_PENDING_LIMIT \<le> pending_new_cap need (c * 2))"
      using 1 True by simp
    ultimately show ?thesis by linarith
  next
    case False
    then have "pending_new_cap need c = c" by (auto simp: pending_new_cap.simps [of need c])
    then show ?thesis using False by auto
  qed
qed

text \<open>Nothing but the buffer of pending bytes is different.\<close>

definition pending_only :: "socks5_conn \<Rightarrow> socks5_conn \<Rightarrow> bool" where
  "pending_only x x' \<longleftrightarrow> x'\<lparr>s_pending_data := [], s_pending_cap := 0, s_pending_head := 0, s_pending_len := 0\<rparr> =
     x\<lparr>s_pending_data := [], s_pending_cap := 0, s_pending_head := 0, s_pending_len := 0\<rparr>"

lemma pending_only_simps [simp]: "pending_only x x" "pending_only x (x\<lparr>s_pending_data := b, s_pending_cap := c, s_pending_head := h\<rparr>)"
  "pending_only x (x\<lparr>s_pending_head := h, s_pending_len := n\<rparr>)"
  "pending_only x (x\<lparr>s_pending_data := b, s_pending_cap := c, s_pending_head := h, s_pending_len := n\<rparr>)"
  by (simp_all add: pending_only_def)

lemma pending_onlyD: "pending_only x x' \<Longrightarrow> s_wg_conn x' = s_wg_conn x \<and> s_state x' = s_state x \<and> s_write_state x' = s_write_state x \<and> s_client_paused x' = s_client_paused x"
  by (cases x; cases x') (simp add: pending_only_def)

lemma pending_only_trans: "pending_only x y \<Longrightarrow> pending_only y z \<Longrightarrow> pending_only x z"
  by (simp add: pending_only_def)

text \<open>Growing fails only without memory, and keeps the bytes.\<close>

lemma pending_grow_spec:
  assumes "pending_wf x" "need \<le> SOCKS5_PENDING_LIMIT"
  shows "pending_grow ok need x = (-1, x) \<and> \<not> ok \<or>
    (\<exists>x'. pending_grow ok need x = (0, x') \<and> need \<le> s_pending_cap x' \<and> pending_wf x' \<and> pending x' = pending x \<and> s_pending_len x' = s_pending_len x \<and> pending_only x x')"
proof (cases "need \<le> s_pending_cap x")
  case True
  then show ?thesis using assms(1) by (simp add: pending_grow_def)
next
  case False
  let ?c = "if s_pending_cap x \<noteq> 0 then s_pending_cap x else SOCKS5_READ_BUFSIZE"
  define nc where "nc = (if pending_new_cap need ?c > SOCKS5_PENDING_LIMIT then SOCKS5_PENDING_LIMIT else pending_new_cap need ?c)"
  have w: "length (s_pending_data x) = s_pending_cap x" "s_pending_len x \<le> s_pending_cap x" "s_pending_cap x \<le> SOCKS5_PENDING_LIMIT"
      "s_pending_len x \<noteq> 0 \<Longrightarrow> s_pending_head x < s_pending_cap x" using assms(1) by (auto simp: pending_wf_def split: if_splits)
  have "?c \<noteq> 0" by (simp add: SOCKS5_READ_BUFSIZE_def)
  then have nc: "need \<le> nc" "nc \<le> SOCKS5_PENDING_LIMIT" "s_pending_cap x \<le> nc" "0 < nc"
    using pending_new_cap_bounds [of ?c need] w(3) assms(2) False by (auto simp: nc_def)
  define nb where "nb = (if s_pending_len x \<noteq> 0 then put 0 (pending x) (zeros nc) else zeros nc)"
  have g: "ring_get (s_pending_data x) (s_pending_cap x) (s_pending_head x) (s_pending_len x) = pending x" if "s_pending_len x \<noteq> 0"
    unfolding pending_def by (rule ring_get_ring [OF w(4) [OF that] w(2,1)])
  have nb: "length nb = nc" "take (s_pending_len x) nb = pending x" using nc w(2) pending_Nil [of x] by (auto simp: nb_def put_def)
  let ?x = "x\<lparr>s_pending_data := nb, s_pending_cap := nc, s_pending_head := 0\<rparr>"
  have r: "pending_grow ok need x = (if ok then (0, ?x) else (-1, x))"
    unfolding pending_grow_def Let_def nc_def [symmetric] using False nc(1) g by (cases "s_pending_len x = 0") (simp_all add: nb_def)
  have "ring nc ((!) nb) 0 (s_pending_len x) = take (s_pending_len x) nb" using nb(1) nc w(2) by (intro nth_equalityI) (simp_all add: nth_ring)
  then have "pending ?x = pending x" by (simp add: pending_def [of ?x] nb(2))
  moreover have "pending_wf ?x" using nc nb(1) w(2) by (simp add: pending_wf_def)
  ultimately show ?thesis unfolding r using nc(1) by simp
qed

text \<open>Appending fails only without memory or above the limit; it changes no other field.\<close>

lemma pending_append_spec:
  assumes "pending_wf x"
  shows "pending_append ok d x = (-1, x) \<and> (\<not> ok \<or> s_pending_len x + length d > SOCKS5_PENDING_LIMIT) \<or>
    (\<exists>x'. pending_append ok d x = (0, x') \<and> pending_wf x' \<and> pending x' = pending x @ d \<and> pending_only x x')"
proof -
  consider "d = []" | "d \<noteq> []" "s_pending_len x + length d > SOCKS5_PENDING_LIMIT" | "d \<noteq> []" "s_pending_len x + length d \<le> SOCKS5_PENDING_LIMIT"
    by linarith
  then show ?thesis
  proof cases
    case 1
    then show ?thesis using assms by (simp add: pending_append_def)
  next
    case 2
    then show ?thesis by (simp add: pending_append_def)
  next
    case 3
    show ?thesis
    proof (cases "pending_grow ok (s_pending_len x + length d) x = (-1, x) \<and> \<not> ok")
      case True
      then have "pending_grow ok (s_pending_len x + length d) x = (-1, x)" by blast
      then have "pending_append ok d x = (-1, x)" using 3 by (simp add: pending_append_def)
      then show ?thesis using True by blast
    next
      case False
      then obtain y where g: "pending_grow ok (s_pending_len x + length d) x = (0, y)" "s_pending_len x + length d \<le> s_pending_cap y" "pending_wf y"
          "pending y = pending x" "s_pending_len y = s_pending_len x" "pending_only x y"
        using pending_grow_spec [OF assms 3(2), of ok] by blast
      let ?c = "s_pending_cap y" and ?h = "s_pending_head y"
      have c: "?h < ?c" "length (s_pending_data y) = ?c" "?c \<le> SOCKS5_PENDING_LIMIT" using g(2,3) 3(1) by (auto simp: pending_wf_def split: if_splits)
      let ?b = "ring_put ?c ((?h + s_pending_len x) mod ?c) d (s_pending_data y)"
      let ?x = "y\<lparr>s_pending_data := ?b, s_pending_len := s_pending_len x + length d\<rparr>"
      have r: "pending_append ok d x = (0, ?x)" using 3 g(1,5) by (simp add: pending_append_def Let_def)
      have l: "length ?b = ?c" by (rule length_ring_put) (use c g(2) in simp_all)
      have "pending ?x = ring ?c ((!) (s_pending_data y)) ?h (s_pending_len x) @ d" using ring_put_ring [OF c(1,2) g(2)] by (simp add: pending_def)
      also have "ring ?c ((!) (s_pending_data y)) ?h (s_pending_len x) = pending x" using g(4,5) by (simp add: pending_def)
      finally have "pending ?x = pending x @ d" .
      moreover have "pending_wf ?x" using c l g(2) by (simp add: pending_wf_def)
      moreover have "pending_only x ?x" using g(6) by (simp add: pending_only_def)
      ultimately show ?thesis using r by blast
    qed
  qed
qed

lemma pending_consume_spec:
  assumes "pending_wf x" "n \<le> s_pending_len x"
  shows "pending_wf (pending_consume n x)" "pending (pending_consume n x) = drop n (pending x)"
    "pending_only x (pending_consume n x)"
proof -
  show "pending_wf (pending_consume n x)" using assms by (auto simp: pending_wf_def pending_consume_def)
  show "pending (pending_consume n x) = drop n (pending x)"
    using assms by (simp add: pending_consume_def pending_def ring_drop)
  show "pending_only x (pending_consume n x)" by (simp add: pending_consume_def)
qed

text \<open>The next contiguous bytes are the front of the stream.\<close>

lemma pending_front:
  assumes "pending_wf x" "n \<le> pending_contiguous_len x"
  shows "slice (s_pending_head x) n (s_pending_data x) = take n (pending x)" "n \<le> s_pending_len x"
proof -
  show "n \<le> s_pending_len x" using assms(2) by (auto simp: pending_contiguous_len_def split: if_splits)
  show "slice (s_pending_head x) n (s_pending_data x) = take n (pending x)"
    using assms by (intro nth_equalityI) (auto simp: pending_wf_def pending_contiguous_len_def pending_def slice_def nth_ring split: if_splits)
qed

section \<open>Well-formed clients and servers\<close>

definition buffers_wf :: "socks5_conn \<Rightarrow> bool" where
  "buffers_wf x \<longleftrightarrow> pending_wf x \<and> length (s_outbuf x) \<le> s_outbuf_cap x \<and> length (s_write_buf x) \<le> s_write_buf_cap x"

definition client_wf :: "socks5_conn \<Rightarrow> bool" where
  "client_wf x \<longleftrightarrow> length (s_rxbuf x) \<le> RXBUF_SIZE \<and> buffers_wf x"

text \<open>The table of 64 entries, and the arrays of 256 bytes for names, user name and password, which end with a zero.\<close>

definition server_wf :: "socks5_server \<Rightarrow> bool" where
  "server_wf srv \<longleftrightarrow> length (sv_dns_cache srv) = SOCKS5_DNS_CACHE_SIZE \<and> (\<forall>e \<in> set (sv_dns_cache srv). length (de_domain e) < 256) \<and>
     (\<forall>q \<in> set (sv_dns_queries srv). length (q_domain q) < 256) \<and> length (sv_auth_user srv) < 256 \<and> length (sv_auth_pass srv) < 256"

lemma buffers_wf_fields [simp]:
  "buffers_wf (x\<lparr>s_wg_conn := a1\<rparr>) = buffers_wf x" "buffers_wf (x\<lparr>s_state := a2\<rparr>) = buffers_wf x" "buffers_wf (x\<lparr>s_rxbuf := a3\<rparr>) = buffers_wf x"
  "buffers_wf (x\<lparr>s_target_family := a4\<rparr>) = buffers_wf x" "buffers_wf (x\<lparr>s_target_ip := a5\<rparr>) = buffers_wf x" "buffers_wf (x\<lparr>s_target_ip6 := a6\<rparr>) = buffers_wf x"
  "buffers_wf (x\<lparr>s_target_port := a7\<rparr>) = buffers_wf x" "buffers_wf (x\<lparr>s_resolve_req := a8\<rparr>) = buffers_wf x" "buffers_wf (x\<lparr>s_write_state := a9\<rparr>) = buffers_wf x"
  "buffers_wf (x\<lparr>s_client_paused := b1\<rparr>) = buffers_wf x" "buffers_wf (x\<lparr>s_throttled := b2\<rparr>) = buffers_wf x" "buffers_wf (x\<lparr>s_reading := b3\<rparr>) = buffers_wf x"
  "buffers_wf (x\<lparr>s_closing := b4\<rparr>) = buffers_wf x" "buffers_wf (x\<lparr>s_written := b5\<rparr>) = buffers_wf x"
  by (simp_all add: buffers_wf_def pending_wf_def)

lemma double_cap_enough: "c \<noteq> 0 \<Longrightarrow> need \<le> double_cap need c"
proof (induction need c rule: double_cap.induct)
  case (1 need c)
  then show ?case by (subst double_cap.simps) auto
qed

lemma reserve_enough: "reserve_buf cap need w = (Some c, w') \<Longrightarrow> need \<le> c"
  by (auto simp: reserve_buf_def Let_def double_cap_enough split: if_splits prod.splits)

lemma consume_wf: "pending_wf x \<Longrightarrow> pending_wf (pending_consume n x)"
  by (auto simp: pending_wf_def pending_consume_def)

lemma consume_buffers: "buffers_wf x \<Longrightarrow> buffers_wf (pending_consume n x)"
  using consume_wf [of x n] by (auto simp: buffers_wf_def pending_consume_def)

lemma append_buffers: "buffers_wf x \<Longrightarrow> buffers_wf (snd (pending_append ok d x))"
proof -
  assume b: "buffers_wf x"
  then have "pending_wf (snd (pending_append ok d x))" using pending_append_spec [of x ok d] by (auto simp: buffers_wf_def)
  moreover have "s_outbuf (snd (pending_append ok d x)) = s_outbuf x" "s_outbuf_cap (snd (pending_append ok d x)) = s_outbuf_cap x"
      "s_write_buf (snd (pending_append ok d x)) = s_write_buf x" "s_write_buf_cap (snd (pending_append ok d x)) = s_write_buf_cap x"
    by (simp_all add: pending_append_def pending_grow_def Let_def split: prod.splits)
  ultimately show ?thesis using b by (simp add: buffers_wf_def)
qed

lemma slot_table:
  assumes "\<forall>e \<in> set es. P (de_domain e)"
  shows "length (snd (cache_slot now d i oldest es)) = length es \<and> (\<forall>e \<in> set (snd (cache_slot now d i oldest es)). P (de_domain e))"
  using assms by (induction es arbitrary: i oldest) (simp_all add: Let_def case_prod_beta)

lemma find_table:
  assumes "\<forall>e \<in> set es. P (de_domain e)"
  shows "length (snd (cache_find now d es)) = length es \<and> (\<forall>e \<in> set (snd (cache_find now d es)). P (de_domain e))"
  using assms by (induction es) (auto simp: case_prod_beta)

lemma store_wf: "server_wf srv \<Longrightarrow> server_wf (dns_cache_store srv d ip n)"
proof -
  assume s: "server_wf srv"
  let ?r = "cache_slot n d 0 (0, de_last_used_ms (sv_dns_cache srv ! 0)) (sv_dns_cache srv)"
  have t: "length (snd ?r) = SOCKS5_DNS_CACHE_SIZE" "\<forall>e \<in> set (snd ?r). length (de_domain e) < 256"
    using slot_table [of "sv_dns_cache srv" "\<lambda>b. length b < 256"] s by (simp_all add: server_wf_def)
  have "length (de_domain e) < 256" if "e \<in> set ((snd ?r)[j := z])" "de_domain z = take 255 d" for e j z
    using that t(2) set_update_subset_insert [of "snd ?r" j z] by auto
  then show ?thesis using s t(1) unfolding dns_cache_store_def case_prod_beta Let_def by (auto simp: server_wf_def)
qed

lemma lookup_wf: "server_wf srv \<Longrightarrow> dns_cache_lookup srv d n = (r, srv') \<Longrightarrow> server_wf srv'"
  using find_table [of "sv_dns_cache srv" "\<lambda>b. length b < 256" n d]
  by (auto simp: dns_cache_lookup_def server_wf_def split: if_splits prod.splits)

end
