(* ===== verification/Tcp_Client.thy ===== *)
theory Tcp_Client
  imports Tcp_Reassembly
begin

text \<open>
  The contract between the TCP stack and the programs on top of it: what an invariant of such a program must survive so that every entry point
  of the stack preserves it. The stack only changes its own fields of a connection, creates connections without an owner, frees them, and calls
  back. \<open>stack_caller\<close> covers the functions a program calls, which can only call back to report a close; \<open>stack_client\<close> adds the
  callbacks of arriving segments and covers the rest.
\<close>

definition owner :: "tcp_conn \<Rightarrow> nat \<times> fptr option \<times> fptr option \<times> fptr option \<times> fptr option \<times> fptr option" where
  "owner y = (c_userdata y, c_on_connect y, c_on_data y, c_on_close y, c_on_writeable y, c_on_recv_window y)"

text \<open>The fields the stack may change.\<close>

lemma owner_upds [simp]:
  "owner (y\<lparr>c_state := v0\<rparr>) = owner y" "owner (y\<lparr>c_snd_una := v1\<rparr>) = owner y" "owner (y\<lparr>c_snd_nxt := v2\<rparr>) = owner y"
  "owner (y\<lparr>c_snd_wnd := v3\<rparr>) = owner y" "owner (y\<lparr>c_rcv_nxt := v4\<rparr>) = owner y" "owner (y\<lparr>c_retransmit_timer := v5\<rparr>) = owner y"
  "owner (y\<lparr>c_retransmit_count := v6\<rparr>) = owner y" "owner (y\<lparr>c_ack_timer := v7\<rparr>) = owner y" "owner (y\<lparr>c_delayed_ack_segments := v8\<rparr>) = owner y"
  "owner (y\<lparr>c_delayed_ack_bytes := v9\<rparr>) = owner y" "owner (y\<lparr>c_being_freed := v10\<rparr>) = owner y" "owner (y\<lparr>c_close_notified := v11\<rparr>) = owner y"
  "owner (y\<lparr>c_close_pending := v12\<rparr>) = owner y" "owner (y\<lparr>c_flush_queued := v13\<rparr>) = owner y" "owner (y\<lparr>c_rcv_ooo := v14\<rparr>) = owner y"
  "owner (y\<lparr>c_rcv_ooo_len := v15\<rparr>) = owner y" "owner (y\<lparr>c_timer_initialized := v16\<rparr>) = owner y" "owner (y\<lparr>c_ack_timer_initialized := v17\<rparr>) = owner y"
  by (simp_all add: owner_def)

lemma owner_close_timers [simp]: "owner (close_timers y) = owner y"
  by (simp add: owner_def close_timers_def Let_def)

lemma owner_sendbuf [simp]: "owner (sendbuf_append d y) = owner y" "owner (sendbuf_consume n y) = owner y" "owner (snd (sendbuf_grow ok n y)) = owner y"
  by (simp_all add: owner_def sendbuf_append_def sendbuf_consume_def sendbuf_grow_def Let_def)

lemma owner_ooo [simp]: "owner (tcp_ooo_queue ok s d y) = owner y"
  by (simp add: owner_def tcp_ooo_queue_def ooo_insert_def Let_def split: prod.splits)

lemma owner_syn_options [simp]: "owner (parse_syn_options opts y) = owner y"
  by (simp add: owner_def parse_syn_options_def Let_def split: prod.splits)

locale stack_caller =
  fixes app :: "'a tcp_app"
    and P :: "'a tcpstack_scheme \<Rightarrow> bool"
  assumes upd: "P st \<Longrightarrow> (\<And>y. owner (f y) = owner y) \<Longrightarrow> P (upd_conn c f st)"
    and frame: "P st \<Longrightarrow> conn_mem st' = conn_mem st \<Longrightarrow> ts_events st' = ts_events st \<Longrightarrow> tcpstack.more st' = tcpstack.more st \<Longrightarrow> P st'"
    and new: "P st \<Longrightarrow> c_userdata y = 0 \<Longrightarrow> P (st\<lparr>conn_mem := (conn_mem st)(c \<mapsto> y)\<rparr>)"
    and free: "P st \<Longrightarrow> P (conn_free c st)"
    and on_close: "P st \<Longrightarrow> P (app_close app p c (ts_event (Closed c) st))"
begin

lemma replace: "P st \<Longrightarrow> owner z = owner (conn_at st c) \<Longrightarrow> P (upd_conn c (\<lambda>_. z) st)"
proof -
  assume "P st" "owner z = owner (conn_at st c)"
  then have "P (upd_conn c (\<lambda>y. if y = conn_at st c then z else y) st)" by (intro upd) auto
  moreover have "upd_conn c (\<lambda>y. if y = conn_at st c then z else y) st = upd_conn c (\<lambda>_. z) st"
    by (cases "conn_mem st c") (simp_all add: upd_conn_def conn_at_def)
  ultimately show "P (upd_conn c (\<lambda>_. z) st)" by simp
qed

lemma segment: "P st \<Longrightarrow> P (send_segment app' c fl s a d st)"
  by (erule frame) (simp_all add: send_segment_def Let_def)

lemma plan: "P st \<Longrightarrow> P (send_plan app' c fl pl st)"
  unfolding send_plan_def by (induction pl arbitrary: st) (auto intro: segment)

lemma alloc: "P st \<Longrightarrow> P (snd (ts_alloc st))"
  by (erule frame) (simp_all add: ts_alloc_def)

lemma isn: "P st \<Longrightarrow> P (snd (ts_generate_isn st))"
  by (erule frame) (simp_all add: ts_generate_isn_def split: prod.splits)

lemma flush: "P st \<Longrightarrow> P (tcp_flush_pending app' c st)"
  unfolding tcp_flush_pending_def Let_def by (simp add: upd plan)

lemma schedule: "P st \<Longrightarrow> P (schedule_flush c st)"
proof -
  assume "P st"
  then have "P (upd_conn c (\<lambda>x. x\<lparr>c_flush_queued := True\<rparr>) st)" by (rule upd) simp
  then show ?thesis using \<open>P st\<close> unfolding schedule_flush_def Let_def by (auto intro: frame)
qed

lemma ack_now: "P st \<Longrightarrow> P (tcp_ack_now app' c st)"
  unfolding tcp_ack_now_def Let_def by (simp add: upd segment)

lemma ack_data: "P st \<Longrightarrow> P (tcp_ack_data app' c n imm st)"
  unfolding tcp_ack_data_def Let_def by (simp add: upd ack_now)

lemma call_closed: "P st \<Longrightarrow> P (call_close app c st)"
  unfolding call_close_def by (auto split: option.splits intro: on_close)

lemma notify: "P st \<Longrightarrow> P (notify_close app c st)"
  unfolding notify_close_def by (simp add: call_closed upd)

lemma unlink: "P st \<Longrightarrow> P (unlink c st)"
proof -
  assume "P st"
  then have "P (upd_conn c (\<lambda>x. x\<lparr>c_being_freed := True\<rparr>) st)" by (rule upd) simp
  then have b: "P (bucket_remove c ((upd_conn c (\<lambda>x. x\<lparr>c_being_freed := True\<rparr>) st)\<lparr>ts_conns := l\<rparr>))" for l
    by (rule frame) (simp_all add: bucket_remove_def Let_def)
  have f: "P (flush_remove c E)" if "P E" for E
  proof -
    have "P (E\<lparr>ts_flush := a, ts_flush_check := b\<rparr>)" for a b by (rule frame [OF that]) simp_all
    then show ?thesis using that unfolding flush_remove_def Let_def by (simp add: upd)
  qed
  show ?thesis unfolding unlink_def Let_def by (intro upd f b) simp
qed

lemma destroy: "P st \<Longrightarrow> P (conn_destroy app c st)"
  by (simp add: conn_destroy_unlink unlink notify free)

lemma timer_close: "P st \<Longrightarrow> P (timer_close_cb app c st)"
  unfolding timer_close_cb_def Let_def by (simp add: upd free notify)

lemma delayed_ack: "P st \<Longrightarrow> P (delayed_ack_cb app c st)"
  unfolding delayed_ack_cb_def by (simp add: ack_now)

lemma flush_check: "P st \<Longrightarrow> P (flush_check_cb app st)"
proof -
  assume "P st"
  have s: "P (let st = upd_conn c (\<lambda>x. x\<lparr>c_flush_queued := False\<rparr>) st in if c_being_freed (conn_at st c) then st else tcp_flush_pending app c st)"
    if "P st" for c st using that unfolding Let_def by (simp add: upd flush)
  have f: "P (fold (\<lambda>c st. let st = upd_conn c (\<lambda>x. x\<lparr>c_flush_queued := False\<rparr>) st in if c_being_freed (conn_at st c) then st else tcp_flush_pending app c st) cs E)"
    if "P E" for cs E using that by (induction cs arbitrary: E) (auto intro: s)
  show ?thesis unfolding flush_check_cb_def by (rule f [OF frame [OF \<open>P st\<close>]]) simp_all
qed

lemma stack_free: "P st \<Longrightarrow> P (tcpstack_free app st)"
proof -
  assume "P st"
  have c: "P (st\<lparr>ts_flush_check := a, ts_flush_check_closing := b\<rparr>)" for a b by (rule frame [OF \<open>P st\<close>]) simp_all
  have "P (fold (conn_destroy app) cs E)" if "P E" for cs E using that by (induction cs arbitrary: E) (auto intro: destroy)
  then have "P (fold (conn_destroy app) cs E\<lparr>ts_conns := [], ts_listeners := []\<rparr>)" if "P E" for cs E by (rule frame [OF _ _ _]) (use that in simp_all)
  then show ?thesis unfolding tcpstack_free_def Let_def using c \<open>P st\<close> by simp
qed

lemma send: "P st \<Longrightarrow> P (snd (tcp_send app' c d st))"
proof (rule postD [of "\<lambda>r. P (snd r)"])
  assume "P st"
  let ?E = "snd (if c_sendbuf_len (conn_at st c) + length d \<le> c_sendbuf_cap (conn_at st c) then (True, st) else ts_alloc st)"
  have E: "P ?E" using \<open>P st\<close> alloc by simp
  then have U: "P (upd_conn c (\<lambda>_. sendbuf_append d z) ?E)" if "z = snd (sendbuf_grow ok n (conn_at ?E c))" for z ok n
    by (rule replace) (simp add: that)
  show "post (\<lambda>r. P (snd r)) (tcp_send app' c d st)"
    unfolding tcp_send_def post_def using \<open>P st\<close> E U flush schedule
    by (auto simp: Let_def split: prod.splits if_splits) (metis fst_conv snd_conv)+
qed

lemma fin: "P st \<Longrightarrow> P (send_fin app' c st)"
  unfolding send_fin_def by (simp add: upd segment)

lemma close: "P st \<Longrightarrow> P (tcp_close app c st)"
  unfolding tcp_close_def Let_def by (simp add: upd fin destroy segment)

lemma update_window: "P st \<Longrightarrow> P (tcp_update_recv_window app' c st)"
  unfolding tcp_update_recv_window_def by (simp add: ack_now)

lemma link: "P st \<Longrightarrow> P (conn_link c st)"
proof -
  assume "P st"
  then have "P (upd_conn c (\<lambda>x. x\<lparr>c_retransmit_timer := uv_timer_init, c_timer_initialized := True, c_ack_timer := uv_timer_init, c_ack_timer_initialized := True\<rparr>) st)"
    by (rule upd) simp
  then show ?thesis unfolding conn_link_def Let_def by (rule frame) (simp_all add: bucket_insert_def Let_def)
qed

text \<open>A new connection without an owner, as an arriving SYN makes one.\<close>

lemma create: "P st \<Longrightarrow> c_userdata y = 0 \<Longrightarrow> P (st\<lparr>conn_mem := (conn_mem st)(c \<mapsto> y), ts_brk := b\<rparr>)"
  by (rule frame [OF new]) simp_all

text \<open>A connection that a program opens: owned by it from the start.\<close>

lemma connect:
  assumes "P st" "\<And>E c y. P E \<Longrightarrow> c_userdata y = ud \<Longrightarrow> P (E\<lparr>conn_mem := (conn_mem E)(c \<mapsto> y)\<rparr>)"
  shows "P (snd (tcpstack_connect app' fam rem port oc od ocl ud st))"
proof -
  have a: "P E'" if "ts_alloc E = (ok, E')" "P E" for ok E E' using alloc [OF that(2)] that(1) by simp
  have i: "P E'" if "ts_generate_isn (E\<lparr>ts_next_port := q\<rparr>) = (m, E')" "P E" for m q E E'
    using isn [of "E\<lparr>ts_next_port := q\<rparr>"] frame [OF that(2), of "E\<lparr>ts_next_port := q\<rparr>"] that(1) by simp
  have n: "P (E\<lparr>conn_mem := (conn_mem E)(c \<mapsto> y), ts_brk := b\<rparr>)" if "P E" "c_userdata y = ud" for E c y b
    by (rule frame [OF assms(2) [OF that]]) simp_all
  show ?thesis unfolding tcpstack_connect_def start_retransmit_timer_def using assms(1)
    by (auto simp: Let_def split: prod.splits bool.splits if_splits dest!: a i intro!: upd segment link n)
qed

end

text \<open>A whole program: it is also called with data, with room in the send buffer, and with new connections.\<close>

locale stack_client = stack_caller +
  assumes on_connect: "P st \<Longrightarrow> P (app_connect app p c status (ts_event (Connected c status) st))"
    and on_data: "P st \<Longrightarrow> P (app_data app p c data (ts_event (Data c data) st))"
    and on_writeable: "P st \<Longrightarrow> P (app_writeable app p c (ts_event (Writeable c) st))"
    and on_accept: "P st \<Longrightarrow> (\<And>y. conn_mem st c = Some y \<Longrightarrow> c_userdata y = 0) \<Longrightarrow> P (app_accept app p c u (ts_event (Accepted c) st))"
begin

lemma calls: "P st \<Longrightarrow> P (call_connect app c s st)" "P st \<Longrightarrow> P (call_data app c d st)" "P st \<Longrightarrow> P (call_writeable app c st)"
  unfolding call_connect_def call_data_def call_writeable_def
  by (auto split: option.splits intro: on_connect on_data on_writeable)

lemma retransmit: "P st \<Longrightarrow> P (retransmit_cb app c st)"
  unfolding retransmit_cb_def Let_def by (simp add: upd destroy calls call_closed segment plan)

lemma drain_loop: "P st \<Longrightarrow> P (snd (ooo_drain_loop app c n got st))"
  by (induction n arbitrary: got st) (auto simp: Let_def upd calls split: list.splits)

lemma accept: "P st \<Longrightarrow> P (accept_data app c p imm st)"
proof -
  assume "P st"
  then have "P (call_data app c p (upd_conn c (\<lambda>x. x\<lparr>c_rcv_nxt := c_rcv_nxt x + of_nat (length p)\<rparr>) st))" by (intro calls upd) simp_all
  then have "P (snd (tcp_ooo_drain app c (call_data app c p (upd_conn c (\<lambda>x. x\<lparr>c_rcv_nxt := c_rcv_nxt x + of_nat (length p)\<rparr>) st))))"
    unfolding tcp_ooo_drain_def by (rule drain_loop)
  then show ?thesis unfolding accept_data_def Let_def case_prod_beta by (rule ack_data)
qed

lemma payload: "P st \<Longrightarrow> P (receive_payload app c s p st)"
  unfolding receive_payload_def Let_def using alloc [of st] by (auto simp: accept upd ack_now split: prod.splits)

lemma acked: "P st \<Longrightarrow> P (established_ack app c a st)"
  unfolding established_ack_def stop_retransmit_def Let_def by (auto intro!: calls flush upd)

lemma finished: "P st \<Longrightarrow> P (established_fin app c st)"
  unfolding established_fin_def Let_def by (intro fin upd notify segment) simp_all

lemma accept_syn: "P st \<Longrightarrow> P (accept_syn app l sg st)"
proof -
  assume "P st"
  have a: "P E'" if "ts_alloc E = (ok, E')" "P E" for ok E E' using alloc [OF that(2)] that(1) by simp
  have i: "P E'" if "ts_generate_isn E = (n, E')" "P E" for n E E' using isn [OF that(2)] that(1) by simp
  have acc: "P (app_accept app p c u (ts_event (Accepted c) (upd_conn c f (send_segment app c fl s q d (upd_conn c g (conn_link c (E\<lparr>conn_mem := (conn_mem E)(c \<mapsto> z), ts_brk := b\<rparr>)))))))"
    if "P E" "c_userdata z = 0" "\<And>y. owner (f y) = owner y" "\<And>y. owner (g y) = owner y" for p c u f fl s q d g E z b
  proof (rule on_accept)
    show "P (upd_conn c f (send_segment app c fl s q d (upd_conn c g (conn_link c (E\<lparr>conn_mem := (conn_mem E)(c \<mapsto> z), ts_brk := b\<rparr>)))))"
      using that by (intro upd segment link create) auto
    fix y assume "conn_mem (upd_conn c f (send_segment app c fl s q d (upd_conn c g (conn_link c (E\<lparr>conn_mem := (conn_mem E)(c \<mapsto> z), ts_brk := b\<rparr>))))) c = Some y"
    then have "y = f (g (z\<lparr>c_retransmit_timer := uv_timer_init, c_timer_initialized := True, c_ack_timer := uv_timer_init, c_ack_timer_initialized := True\<rparr>))"
      by (simp add: conn_link_def bucket_insert_def Let_def)
    then have "owner y = owner z" using that(3,4) by simp
    then show "c_userdata y = 0" using that(2) by (simp add: owner_def)
  qed
  show ?thesis unfolding accept_syn_def start_retransmit_timer_def using \<open>P st\<close>
    by (auto simp: Let_def conn_zero_def parse_syn_options_def split: prod.splits bool.splits intro!: acc dest!: a i)
qed

lemma conn_segment: "P st \<Longrightarrow> P (conn_segment app c sg st)"
proof -
  assume "P st"
  define E where "E = upd_conn c (\<lambda>x. x\<lparr>c_snd_wnd := (if c_state x = TCPS_SYN_SENT then ucast (sg_window sg) else scaled_window x (sg_window sg))\<rparr>) st"
  have E: "P E" unfolding E_def by (rule upd [OF \<open>P st\<close>]) simp
  have s: "P (stop_retransmit c D)" if "P D" for D unfolding stop_retransmit_def by (rule upd [OF that]) simp
  have o: "owner ((parse_syn_options opts y)\<lparr>c_snd_wnd := v\<rparr>) = owner y" for opts y v
    by simp
  have r: "P (conn_destroy app c (upd_conn c (\<lambda>x. x\<lparr>c_state := TCPS_CLOSED\<rparr>) D))" if "P D" for D
    by (intro destroy upd that) simp
  show ?thesis
  proof (cases "c_state (conn_at E c)")
    case TCPS_ESTABLISHED
    then show ?thesis using \<open>P st\<close> E unfolding conn_segment_def Let_def E_def [symmetric] by (simp add: r finished payload acked)
  next
    case TCPS_SYN_SENT
    then show ?thesis using \<open>P st\<close> E unfolding conn_segment_def Let_def E_def [symmetric] by (auto simp: o intro!: r calls ack_now upd s)
  next
    case TCPS_SYN_RECEIVED
    then show ?thesis using \<open>P st\<close> E unfolding conn_segment_def Let_def E_def [symmetric] by (auto intro!: r accept upd s)
  next
    case TCPS_FIN_WAIT
    then show ?thesis using \<open>P st\<close> E unfolding conn_segment_def Let_def E_def [symmetric] by (auto intro!: r segment upd s)
  next
    case TCPS_LAST_ACK
    then show ?thesis using \<open>P st\<close> E unfolding conn_segment_def Let_def E_def [symmetric] by (auto intro!: r destroy upd)
  qed (use \<open>P st\<close> E in \<open>auto simp: conn_segment_def Let_def E_def [symmetric] intro!: r\<close>)
qed

lemma input: "P st \<Longrightarrow> tcpstack_input app st pkt = Some st' \<Longrightarrow> P st'"
  by (auto simp: tcpstack_input_def segment_arrives_def accept_syn conn_segment split: parse_result.splits option.splits if_splits)

end

end
