(* ===== verification/Socks5_Auth.thy ===== *)
theory Socks5_Auth
  imports Socks5_Buf Tcp_Client
begin

text \<open>
  The proxy as a step relation over its events and those of the stack, and that it enforces the user name and password it was given: no client
  gets a connection into the tunnel unless the bytes it sent contain them, in any run and with any number of other clients.
\<close>

section \<open>Invariants of the proxy\<close>

text \<open>A change of the server that neither touches the credentials nor adds a waiting client, and keeps the server well-formed.\<close>

definition server_le :: "socks5_server \<Rightarrow> socks5_server \<Rightarrow> bool" where
  "server_le srv' srv \<longleftrightarrow> sv_auth_required srv' = sv_auth_required srv \<and> sv_auth_user srv' = sv_auth_user srv \<and> sv_auth_pass srv' = sv_auth_pass srv \<and>
     (\<forall>q \<in> set (sv_dns_queries srv'). \<exists>q' \<in> set (sv_dns_queries srv). set (q_waiters q) \<subseteq> set (q_waiters q')) \<and> (server_wf srv \<longrightarrow> server_wf srv')"

lemma server_le_same: "sv_auth_required srv' = sv_auth_required srv \<Longrightarrow> sv_auth_user srv' = sv_auth_user srv \<Longrightarrow> sv_auth_pass srv' = sv_auth_pass srv \<Longrightarrow>
  sv_dns_queries srv' = sv_dns_queries srv \<Longrightarrow> sv_dns_cache srv' = sv_dns_cache srv \<Longrightarrow> server_le srv' srv"
  by (auto simp: server_le_def server_wf_def)

lemma server_le_remove: "server_le (upd_query q (\<lambda>c. c\<lparr>q_waiters := remove1 k (q_waiters c)\<rparr>) srv) srv"
  unfolding server_le_def upd_query_def server_wf_def using set_remove1_subset by fastforce

lemma server_le_unlink: "server_le (dns_query_unlink q srv) srv"
  unfolding server_le_def dns_query_unlink_def server_wf_def by auto

lemma cache_store_frame [simp]: "sv_dns_queries (dns_cache_store srv d ip n) = sv_dns_queries srv" "sv_auth_required (dns_cache_store srv d ip n) = sv_auth_required srv"
  "sv_auth_user (dns_cache_store srv d ip n) = sv_auth_user srv" "sv_auth_pass (dns_cache_store srv d ip n) = sv_auth_pass srv"
  by (simp_all add: dns_cache_store_def split: prod.splits)

lemma server_le_store: "server_le (dns_cache_store srv d ip n) srv"
  by (auto simp: server_le_def store_wf)

lemma fold_inv:
  assumes "I a" and "\<And>k b. k \<in> set ks \<and> I b \<Longrightarrow> I (g k b)"
  shows "I (fold g ks a)"
  using assms by (induction ks arbitrary: a) auto

lemma owner_user: "owner y = owner z \<Longrightarrow> c_userdata y = c_userdata z"
  by (simp add: owner_def)

text \<open>A change of a client outside its handshake state that keeps its buffers well-formed.\<close>

definition client_le :: "socks5_conn \<Rightarrow> socks5_conn \<Rightarrow> bool" where
  "client_le x' x \<longleftrightarrow> s_state x' = s_state x \<and> s_rxbuf x' = s_rxbuf x \<and> (buffers_wf x \<longrightarrow> buffers_wf x')"

lemma client_le_fields [simp]:
  "client_le (x\<lparr>s_wg_conn := a1\<rparr>) x" "client_le (x\<lparr>s_resolve_req := a2\<rparr>) x" "client_le (x\<lparr>s_write_state := a3\<rparr>) x" "client_le (x\<lparr>s_throttled := a4\<rparr>) x"
  "client_le (x\<lparr>s_written := a5\<rparr>) x" "client_le (x\<lparr>s_target_family := a6\<rparr>) x" "client_le (x\<lparr>s_target_ip := a7\<rparr>) x" "client_le (x\<lparr>s_target_port := a8\<rparr>) x"
  "client_le (x\<lparr>s_reading := b1, s_closing := b2\<rparr>) x" "client_le (x\<lparr>s_client_paused := b3, s_reading := b1\<rparr>) x"
  "client_le (x\<lparr>s_reading := b1, s_client_paused := b3\<rparr>) x" "client_le (x\<lparr>s_target_ip := a7, s_target_ip6 := a9\<rparr>) x" "client_le x x"
  by (simp_all add: client_le_def)

lemma client_le_output:
  "client_le (x\<lparr>s_write_buf := s_outbuf x, s_write_buf_cap := s_outbuf_cap x, s_outbuf := [], s_outbuf_cap := s_write_buf_cap x, s_write_state := S5W_WRITING\<rparr>) x"
  "client_le (x\<lparr>s_write_state := S5W_IDLE, s_write_buf := []\<rparr>) x"
  "s_outbuf x = [] \<Longrightarrow> s_write_buf x = [] \<Longrightarrow> client_le (x\<lparr>s_outbuf_cap := n, s_write_buf_cap := m\<rparr>) x"
  "length (s_outbuf x @ d) \<le> n \<Longrightarrow> client_le (x\<lparr>s_outbuf := s_outbuf x @ d, s_outbuf_cap := n\<rparr>) x"
  "s_pending_len x = 0 \<Longrightarrow> client_le (x\<lparr>s_pending_data := [], s_pending_cap := 0, s_pending_head := 0\<rparr>) x"
  by (simp_all add: client_le_def buffers_wf_def pending_wf_def)

lemma sc_at_upd: "w_conns w k = Some x \<Longrightarrow> sc_at (upd_sc k f w) k = f x"
  by (simp add: sc_at_def upd_sc_def)

lemma client_le_consume: "client_le (pending_consume n x) x"
  using consume_buffers by (auto simp: client_le_def pending_consume_def)

lemma client_le_append: "client_le (snd (pending_append ok d x)) x"
proof -
  have "s_state (snd (pending_append ok d x)) = s_state x \<and> s_rxbuf (snd (pending_append ok d x)) = s_rxbuf x"
    by (simp add: pending_append_def pending_grow_def Let_def split: prod.splits)
  then show ?thesis using append_buffers by (auto simp: client_le_def)
qed

text \<open>What the operations that move data and close clients do: they change clients outside their handshake state, let go of connections and
  waiting clients, and go through the stack.\<close>

locale proxy_invariant =
  fixes Q :: "world \<Rightarrow> bool"
  assumes conn: "Q w \<Longrightarrow> (\<And>y. c_userdata (f y) = c_userdata y \<or> c_userdata (f y) = 0) \<Longrightarrow> Q (upd_conn c f w)"
    and frame: "Q w \<Longrightarrow> conn_mem w' = conn_mem w \<Longrightarrow> tcpstack.more w' = tcpstack.more w \<Longrightarrow> Q w'"
    and new: "Q w \<Longrightarrow> c_userdata y = 0 \<Longrightarrow> Q (w\<lparr>conn_mem := (conn_mem w)(c \<mapsto> y)\<rparr>)"
    and free: "Q w \<Longrightarrow> Q (conn_free c w)"
    and sc: "Q w \<Longrightarrow> (\<And>x. w_conns w k = Some x \<Longrightarrow> client_le (f' x) x) \<Longrightarrow> Q (upd_sc k f' w)"
    and server: "Q w \<Longrightarrow> (\<And>srv. server_le (g srv) srv) \<Longrightarrow> Q (upd_server g w)"
    and env: "Q w \<Longrightarrow> Q (w\<lparr>w_uv := v\<rparr>)"

sublocale proxy_invariant \<subseteq> inner: stack_caller inner_app Q
  by unfold_locales (auto simp: inner_app_def ts_event_def intro: conn frame new free dest: owner_user)

context proxy_invariant
begin

lemma uv: "Q w \<Longrightarrow> Q (snd (uv_result w))"
  by (simp add: uv_result_def env)

lemma flush_remove: "Q w \<Longrightarrow> Q (s5_flush_remove k w)"
proof -
  assume i: "Q w"
  have "Q (upd_server (\<lambda>srv. srv\<lparr>sv_flush := a, sv_flush_check := (if b then False else sv_flush_check srv)\<rparr>) w)" for a b
    by (rule server [OF i]) (rule server_le_same; simp)
  then show ?thesis using i unfolding s5_flush_remove_def Let_def by (auto intro!: sc)
qed

lemma detach: "Q w \<Longrightarrow> Q (close_wg k w)"
  unfolding close_wg_def detach_wg_def by (auto split: option.splits intro!: sc inner.close conn)

lemma remove_waiter: "Q w \<Longrightarrow> Q (dns_query_remove_waiter q k w)"
  unfolding dns_query_remove_waiter_def by (intro sc server) (simp_all add: server_le_remove)

lemma conn_close: "Q w \<Longrightarrow> Q (socks5_conn_close k w)"
  unfolding socks5_conn_close_def Let_def
  by (auto split: option.splits intro!: sc detach flush_remove remove_waiter)

lemma schedule_flush: "Q w \<Longrightarrow> Q (schedule_client_flush k w)"
  unfolding schedule_client_flush_def by (auto intro!: server sc server_le_same)

lemma client_flush: "Q w \<Longrightarrow> Q (client_flush k w)"
  unfolding client_flush_def Let_def case_prod_beta by (auto intro!: conn_close sc uv client_le_output)

lemma window: "Q w \<Longrightarrow> Q (update_wg_recv_window_state k w)"
  unfolding update_wg_recv_window_state_def Let_def by (auto split: option.splits intro!: inner.update_window sc)

lemma reserve: "Q w \<Longrightarrow> Q (snd (reserve_buf cap need w))"
  unfolding reserve_buf_def Let_def case_prod_beta by (simp add: inner.alloc)

lemma client_out: "Q w \<Longrightarrow> Q (client_write k d w)"
proof -
  assume i: "Q w"
  let ?x = "sc_at w k"
  obtain r w' where a: "reserve_buf (s_outbuf_cap ?x) (length (s_outbuf ?x) + length d) w = (r, w')" by fastforce
  have q: "Q w'" using reserve [OF i] a by (metis snd_conv)
  have "w_conns w' = w_conns w" using a by (auto simp: reserve_buf_def ts_alloc_def Let_def split: if_splits)
  then have "Q (upd_sc k (\<lambda>x. x\<lparr>s_outbuf := s_outbuf x @ d, s_outbuf_cap := c\<rparr>) w')" if "r = Some c" for c
    using reserve_enough a that by (intro sc [OF q] client_le_output) (fastforce simp: sc_at_def)
  then show ?thesis unfolding client_write_def Let_def a using i q
    by (auto split: option.splits intro!: client_flush flush_remove schedule_flush window)
qed

lemma reply: "Q w \<Longrightarrow> Q (send_reply k r w)"
  unfolding send_reply_def by (rule client_out)

lemma write_done: "Q w \<Longrightarrow> Q (write_done_cb k s w)"
proof -
  assume i: "Q w"
  let ?A = "upd_sc k (\<lambda>x. x\<lparr>s_write_state := S5W_IDLE, s_write_buf := []\<rparr>) w"
  have a: "Q ?A" by (intro sc i client_le_output)
  have "Q (upd_sc k (\<lambda>x. x\<lparr>s_outbuf_cap := s_write_buf_cap x, s_write_buf_cap := s_outbuf_cap x\<rparr>) ?A)" if "s_outbuf (sc_at ?A k) = []"
    using that by (intro sc a client_le_output) (auto simp: sc_at_def upd_sc_def)
  then show ?thesis unfolding write_done_cb_def Let_def using a by (auto intro!: conn_close schedule_flush window)
qed

lemma check: "Q w \<Longrightarrow> Q (s5_flush_check_cb w)"
proof -
  assume i: "Q w"
  have s: "Q (upd_server (\<lambda>srv. srv\<lparr>sv_flush := [], sv_flush_check := False\<rparr>) w)"
    by (rule server [OF i]) (rule server_le_same; simp)
  show ?thesis unfolding s5_flush_check_cb_def by (rule fold_inv [where I = Q, OF s]) (intro client_flush sc; simp)
qed

lemma pending: "Q w \<Longrightarrow> Q (snd (sc_pending_append k d w))"
proof -
  assume i: "Q w"
  have "Q (upd_sc k (\<lambda>_. snd (pending_append ok d (sc_at w k))) E)"
    if "Q E" "w_conns E = w_conns w" for ok E
  proof -
    have e: "upd_sc k (\<lambda>_. snd (pending_append ok d (sc_at w k))) E = upd_sc k (\<lambda>x. snd (pending_append ok d x)) E"
      using that(2) by (cases "w_conns w k") (simp_all add: upd_sc_def sc_at_def)
    show ?thesis unfolding e by (rule sc [OF that(1)]) (rule client_le_append)
  qed
  moreover have "w_conns (snd (ts_alloc w)) = w_conns w" by (simp add: ts_alloc_def)
  ultimately show ?thesis using i inner.alloc [OF i] unfolding sc_pending_append_def Let_def case_prod_beta by simp
qed

lemma flush_loop: "Q w \<Longrightarrow> Q (flush_pending_loop n k c w)"
proof (induction n arbitrary: w)
  case (Suc n)
  show ?case using Suc.prems inner.send [OF Suc.prems]
    by (simp add: Let_def case_prod_beta) (intro impI Suc.IH sc client_le_consume)
qed simp

lemma flush_pending: "Q w \<Longrightarrow> Q (flush_pending_to_wg k w)"
  unfolding flush_pending_to_wg_def Let_def by (auto simp: sc_at_def split: option.splits intro!: sc flush_loop client_le_output)

lemma data: "Q w \<Longrightarrow> Q (wg_on_data c d w)"
  unfolding wg_on_data_def by (simp add: client_out split: option.splits)

lemma closed: "Q w \<Longrightarrow> Q (wg_on_close c w)"
  unfolding wg_on_close_def detach_wg_def Let_def by (auto intro!: conn_close sc conn)

lemma writeable: "Q w \<Longrightarrow> Q (wg_on_writeable c w)"
  unfolding wg_on_writeable_def Let_def by (auto split: option.splits intro!: sc flush_pending)

end

section \<open>What a client has to send\<close>

definition greeting :: "bytes \<Rightarrow> bool" where
  "greeting g \<longleftrightarrow> 2 \<le> length g \<and> length g = 2 + unat (g ! 1) \<and> S5_AUTH_USERPASS \<in> set (drop 2 g)"

text \<open>RFC 1928 and RFC 1929: a greeting that offers the method, then version, user name and password with their lengths.\<close>

definition credentials :: "bytes \<Rightarrow> bytes \<Rightarrow> bytes \<Rightarrow> bool" where
  "credentials user pass bs \<longleftrightarrow>
     (\<exists>g ul pl rest. greeting g \<and> bs = g @ [S5_USERPASS_VER, ul] @ user @ [pl] @ pass @ rest \<and> unat ul = length user \<and> unat pl = length pass)"

lemma credentials_append: "credentials user pass bs \<Longrightarrow> credentials user pass (bs @ bs1)"
  unfolding credentials_def by (metis append.assoc)

section \<open>Steps\<close>

text \<open>The handshake bytes that a read puts into the buffer.\<close>

definition taken :: "socks5_conn \<Rightarrow> int \<Rightarrow> bytes \<Rightarrow> bytes" where
  "taken x nread buf =
     (if nread \<le> 0 \<or> s_state x \<in> {S5_ESTABLISHED, S5_CONNECTING, S5_RESOLVING} then []
      else take (RXBUF_SIZE - length (s_rxbuf x)) (take (nat nread) buf))"

text \<open>Beside the world, the handshake bytes each client has sent so far.\<close>

inductive s5_step :: "world \<times> (sc_ref \<Rightarrow> bytes) \<Rightarrow> world \<times> (sc_ref \<Rightarrow> bytes) \<Rightarrow> bool" where
  accept: "s5_step (w, h) (on_connection status accepted w, h)"
| read: "w_conns w k = Some x \<Longrightarrow> s5_step (w, h) (on_client_read k nread buf w, h(k := h k @ taken x nread buf))"
| written: "s5_step (w, h) (write_done_cb k status w, h)"
| closed: "s5_step (w, h) (client_close_cb k w, h)"
| check: "s5_step (w, h) (s5_flush_check_cb w, h)"
| resolved: "s5_step (w, h) (on_resolved q status res w, h)"
| cares: "s5_step (w, h) (cares_addrinfo_cb q status res w, h)"
| stop: "s5_step (w, h) (socks5_stop w, h)"
| packet: "tcpstack_input s5_app w pkt = Some w' \<Longrightarrow> s5_step (w, h) (w', h)"
| retransmit: "s5_step (w, h) (retransmit_cb s5_app c w, h)"
| delayed_ack: "s5_step (w, h) (delayed_ack_cb s5_app c w, h)"
| conn_closed: "s5_step (w, h) (timer_close_cb s5_app c w, h)"
| stack_check: "s5_step (w, h) (flush_check_cb s5_app w, h)"
| stack_freed: "s5_step (w, h) (tcpstack_free s5_app w, h)"
| clock: "s5_step (w, h) (w\<lparr>ts_now := t\<rparr>, h)"

text \<open>The proxy after its start: no client, no connection, no query.\<close>

definition s5_init :: "bytes \<Rightarrow> bytes \<Rightarrow> world \<Rightarrow> bool" where
  "s5_init user pass w \<longleftrightarrow> conn_mem w = (\<lambda>_. None) \<and> w_conns w = (\<lambda>_. None) \<and> 0 < w_sbrk w \<and>
     (\<exists>cache_env cares. w_server w = socks5_start (Some user) (Some pass) cache_env cares)"

section \<open>The invariant\<close>

definition stage :: "bytes \<Rightarrow> bytes \<Rightarrow> bytes \<Rightarrow> socks5_conn \<Rightarrow> bool" where
  "stage u p hk x \<longleftrightarrow>
     (case s_state x of
        S5_INIT \<Rightarrow> hk = s_rxbuf x
      | S5_USERPASS \<Rightarrow> \<exists>g. greeting g \<and> hk = g @ s_rxbuf x
      | _ \<Rightarrow> credentials u p hk)"

definition waiters_ok :: "bytes \<Rightarrow> bytes \<Rightarrow> (sc_ref \<Rightarrow> bytes) \<Rightarrow> socks5_server \<Rightarrow> bool" where
  "waiters_ok u p h srv \<longleftrightarrow> sv_auth_required srv \<and> sv_auth_user srv = u \<and> sv_auth_pass srv = p \<and>
     (\<forall>q \<in> set (sv_dns_queries srv). \<forall>k \<in> set (q_waiters q). credentials u p (h k))"

definition auth_inv :: "bytes \<Rightarrow> bytes \<Rightarrow> (sc_ref \<Rightarrow> bytes) \<Rightarrow> world \<Rightarrow> bool" where
  "auth_inv u p h w \<longleftrightarrow> waiters_ok u p h (w_server w) \<and>
     (\<forall>c y. conn_mem w c = Some y \<longrightarrow> c_userdata y \<noteq> 0 \<longrightarrow> credentials u p (h (c_userdata y))) \<and>
     (\<forall>k x. w_conns w k = Some x \<longrightarrow> k < w_sbrk w \<and> stage u p (h k) x) \<and> (\<forall>k \<ge> w_sbrk w. h k = [])"

lemma inv_conn:
  assumes "auth_inv u p h w" "\<And>y. c_userdata (f y) = c_userdata y \<or> c_userdata (f y) = 0"
  shows "auth_inv u p h (upd_conn c f w)"
proof -
  have "credentials u p (h (c_userdata z))" if a: "conn_mem (upd_conn c f w) d = Some z" and n: "c_userdata z \<noteq> 0" for d z
  proof -
    obtain y where "conn_mem w d = Some y" "c_userdata z = c_userdata y" using a n assms(2) by (fastforce split: if_splits)
    then show ?thesis using assms(1) n by (simp add: auth_inv_def)
  qed
  then show ?thesis using assms(1) by (simp add: auth_inv_def upd_conn_def)
qed

lemma inv_frame: "auth_inv u p h w \<Longrightarrow> conn_mem w' = conn_mem w \<Longrightarrow> tcpstack.more w' = tcpstack.more w \<Longrightarrow> auth_inv u p h w'"
  by (cases w; cases w') (simp add: auth_inv_def)

lemma inv_upd_sc:
  assumes "auth_inv u p h w" "\<And>x. w_conns w k = Some x \<Longrightarrow> stage u p (h k) x \<Longrightarrow> stage u p (h k) (f x)"
  shows "auth_inv u p h (upd_sc k f w)"
  using assms unfolding auth_inv_def upd_sc_def by auto

lemma stage_le: "client_le x' x \<Longrightarrow> stage u p b x \<Longrightarrow> stage u p b x'"
  by (simp add: client_le_def stage_def split: socks5_state.splits)

lemma inv_sc: "auth_inv u p h w \<Longrightarrow> (\<And>x. s_state (f x) = s_state x \<and> s_rxbuf (f x) = s_rxbuf x) \<Longrightarrow> auth_inv u p h (upd_sc k f w)"
  by (rule inv_upd_sc) (simp_all add: stage_def split: socks5_state.splits)

lemma inv_state:
  "auth_inv u p h w \<Longrightarrow> credentials u p (h k) \<Longrightarrow> (\<And>x. s_state (f x) \<noteq> S5_INIT \<and> s_state (f x) \<noteq> S5_USERPASS) \<Longrightarrow> auth_inv u p h (upd_sc k f w)"
  by (rule inv_upd_sc) (auto simp: stage_def split: socks5_state.splits)

lemma inv_server: "auth_inv u p h w \<Longrightarrow> (\<And>srv. waiters_ok u p h srv \<Longrightarrow> waiters_ok u p h (f srv)) \<Longrightarrow> auth_inv u p h (upd_server f w)"
  unfolding auth_inv_def upd_server_def by auto

lemma waiters_le: "waiters_ok u p h srv \<Longrightarrow> server_le srv' srv \<Longrightarrow> waiters_ok u p h srv'"
  unfolding waiters_ok_def server_le_def by (metis subsetD)

lemma inv_owner: "auth_inv u p h w \<Longrightarrow> conn_user c w \<noteq> 0 \<Longrightarrow> credentials u p (h (conn_user c w))"
  unfolding auth_inv_def conn_user_def by (auto split: option.splits)

lemma inv_new:
  "auth_inv u p h w \<Longrightarrow> c_userdata y \<noteq> 0 \<longrightarrow> credentials u p (h (c_userdata y)) \<Longrightarrow> auth_inv u p h (w\<lparr>conn_mem := (conn_mem w)(c \<mapsto> y)\<rparr>)"
  unfolding auth_inv_def by auto

lemma inv_free: "auth_inv u p h w \<Longrightarrow> auth_inv u p h (conn_free c w)"
  unfolding auth_inv_def conn_free_def by auto

interpretation auth: proxy_invariant "auth_inv u p h" for u p h
proof (unfold_locales, goal_cases)
  case 1 then show ?case by (rule inv_conn)
next
  case 2 then show ?case by (rule inv_frame)
next
  case 3 then show ?case by (simp add: inv_new)
next
  case 4 then show ?case by (rule inv_free)
next
  case (5 w k f) show ?case by (rule inv_upd_sc [OF 5(1)]) (rule stage_le [OF 5(2)])
next
  case (6 w g) then show ?case by (intro inv_server waiters_le [OF _ 6(2)])
next
  case 7 then show ?case by (simp add: auth_inv_def)
qed

text \<open>The handshake state of the clients, which these operations leave alone.\<close>

definition hs_view :: "world \<Rightarrow> sc_ref \<Rightarrow> (socks5_state \<times> bytes) option" where
  "hs_view w k = map_option (\<lambda>x. (s_state x, s_rxbuf x)) (w_conns w k)"

interpretation hs: proxy_invariant "\<lambda>w. hs_view w = v" for v
proof
  fix w w' :: world and f :: "tcp_conn \<Rightarrow> tcp_conn" and f' k c g y and u
  assume h: "hs_view w = v"
  show "hs_view (upd_conn c f w) = v" "hs_view (w\<lparr>conn_mem := (conn_mem w)(c \<mapsto> y)\<rparr>) = v" "hs_view (conn_free c w) = v"
    "hs_view (upd_server g w) = v" "hs_view (w\<lparr>w_uv := u\<rparr>) = v"
    using h by (auto simp: hs_view_def fun_eq_iff upd_conn_def conn_free_def upd_server_def)
  show "hs_view w' = v" if "tcpstack.more w' = tcpstack.more w"
    using h that by (cases w; cases w') (auto simp: hs_view_def fun_eq_iff)
  show "hs_view (upd_sc k f' w) = v" if "\<And>x. w_conns w k = Some x \<Longrightarrow> client_le (f' x) x"
    unfolding h [symmetric] using that by (cases "w_conns w k") (auto simp: hs_view_def fun_eq_iff upd_sc_def client_le_def)
qed

section \<open>The callbacks\<close>

lemma waiters_add: "waiters_ok u p h srv \<Longrightarrow> credentials u p (h k) \<Longrightarrow> waiters_ok u p h (upd_query q (\<lambda>c. c\<lparr>q_waiters := k # q_waiters c\<rparr>) srv)"
  unfolding waiters_ok_def upd_query_def by auto

lemma waiters_insert: "waiters_ok u p h srv \<Longrightarrow> q_waiters c = [] \<Longrightarrow> waiters_ok u p h (dns_query_insert c srv)"
  unfolding waiters_ok_def dns_query_insert_def by simp

lemma client_of_user: "client_of c w = Some k \<Longrightarrow> k = conn_user c w \<and> k \<noteq> 0"
  by (auto simp: client_of_def Let_def split: if_splits)

lemma inv_on_connect: "auth_inv u p h w \<Longrightarrow> auth_inv u p h (wg_on_connect c s w)"
proof (cases "client_of c w")
  case (Some k)
  assume i: "auth_inv u p h w"
  have "credentials u p (h k)" using inv_owner [OF i, of c] client_of_user [OF Some] by simp
  then have "auth_inv u p h (upd_sc k (\<lambda>x. x\<lparr>s_state := S5_ESTABLISHED\<rparr>) w)" by (intro inv_state [OF i]) simp_all
  then show ?thesis using Some i unfolding wg_on_connect_def Let_def by (simp add: auth.conn_close auth.reply auth.flush_pending)
qed (simp add: wg_on_connect_def)

lemma inv_event: "auth_inv u p h w \<Longrightarrow> auth_inv u p h (ts_event e w)"
  by (erule inv_frame) (simp_all add: ts_event_def)

interpretation s5: stack_client s5_app "auth_inv u p h" for u p h
  by unfold_locales
    (auto simp: s5_app_def intro: inv_conn inv_frame inv_new inv_free inv_on_connect inv_event auth.data auth.closed auth.writeable dest: owner_user)

section \<open>Connecting\<close>

lemma inv_connect: "auth_inv u p h w \<Longrightarrow> credentials u p (h k) \<Longrightarrow> auth_inv u p h (do_connect k w)"
proof -
  assume i: "auth_inv u p h w" and c: "credentials u p (h k)"
  have t: "auth_inv u p h (snd (tcpstack_connect inner_app fam rem port oc od ocl k w))" for fam rem port oc od ocl
    by (rule auth.inner.connect [OF i]) (simp add: inv_new c)
  have u: "c_userdata (f y) = c_userdata y \<Longrightarrow> c_userdata (f y) = c_userdata y \<or> c_userdata (f y) = 0" for f y by simp
  show ?thesis unfolding do_connect_def Let_def case_prod_beta tcp_set_recv_window_cb_def
    by (auto split: option.splits intro!: auth.conn_close auth.reply inv_conn inv_sc t)
qed

lemma inv_store: "auth_inv u p h w \<Longrightarrow> auth_inv u p h (upd_server (\<lambda>srv. dns_cache_store srv d ip n) w)"
  by (erule inv_server) (erule waiters_le, rule server_le_store)

lemma inv_go: "auth_inv u p h w \<Longrightarrow> credentials u p (h k) \<Longrightarrow> auth_inv u p h (do_connect k (upd_sc k (\<lambda>x. x\<lparr>s_state := S5_CONNECTING\<rparr>) w))"
  by (intro inv_connect inv_state) simp_all

lemma inv_resolve: "auth_inv u p h w \<Longrightarrow> credentials u p (h k) \<Longrightarrow> auth_inv u p h (resolve_complete k d s f ip ip6 w)"
  unfolding resolve_complete_def Let_def by (simp add: auth.conn_close auth.reply inv_go inv_sc inv_store)

lemma inv_finish: "auth_inv u p h w \<Longrightarrow> auth_inv u p h (dns_query_finish q s f ip ip6 w)"
proof (cases "dns_query_at (w_server w) q")
  case (Some ctx)
  assume i: "auth_inv u p h w"
  have "ctx \<in> set (sv_dns_queries (w_server w))" using Some by (auto simp: dns_query_at_def find_Some_iff)
  then have c: "credentials u p (h k)" if "k \<in> set (q_waiters ctx)" for k using i that by (simp add: auth_inv_def waiters_ok_def)
  have un: "auth_inv u p h (upd_server (dns_query_unlink q) w)" by (intro inv_server i waiters_le [OF _ server_le_unlink])
  show ?thesis unfolding dns_query_finish_def Let_def Some option.case
    using un by (intro fold_inv [of "auth_inv u p h"]) (auto intro!: auth.conn_close inv_resolve inv_sc inv_store c)
qed (simp add: dns_query_finish_def)

lemma inv_resolved: "auth_inv u p h w \<Longrightarrow> auth_inv u p h (on_resolved q s res w)"
  unfolding on_resolved_def by (simp add: inv_finish split: prod.splits)

lemma inv_cares: "auth_inv u p h w \<Longrightarrow> auth_inv u p h (cares_addrinfo_cb q s res w)"
  unfolding cares_addrinfo_cb_def Let_def by (simp add: inv_finish split: prod.splits)

lemma inv_start_query: "auth_inv u p h w \<Longrightarrow> credentials u p (h k) \<Longrightarrow> auth_inv u p h (snd (dns_start_query k d w))"
proof -
  assume i: "auth_inv u p h w" and c: "credentials u p (h k)"
  have add: "auth_inv u p h (dns_query_add_waiter q k E)" if "auth_inv u p h E" for q E
    unfolding dns_query_add_waiter_def using that c by (auto intro!: inv_server inv_sc waiters_add)
  have ins: "auth_inv u p h (upd_server (dns_query_insert ctx) (E\<lparr>w_qbrk := n\<rparr>))" if "auth_inv u p h E" "q_waiters ctx = []" for ctx E n
    using that by (auto simp: auth_inv_def upd_server_def waiters_insert)
  have ares: "auth_inv u p h (E\<lparr>w_ares := f\<rparr>)" if "auth_inv u p h E" for E f using that by (simp add: auth_inv_def)
  have un: "auth_inv u p h (upd_server (dns_query_unlink q) E)" if "auth_inv u p h E" for q E by (intro inv_server that waiters_le [OF _ server_le_unlink])
  have al: "auth_inv u p h E" if "ts_alloc w = (ok, E)" for ok E using auth.inner.alloc [OF i] that by simp
  have uv: "auth_inv u p h E'" if "uv_result E = (r, E')" "auth_inv u p h E" for r E E' using auth.uv [OF that(2)] that(1) by simp
  show ?thesis unfolding dns_start_query_def Let_def using i
    by (auto split: option.splits prod.splits bool.splits intro!: add inv_cares ares ins inv_sc un dest: al uv [OF _ add [OF ins]])
qed

section \<open>The handshake\<close>

lemma stage_append:
  assumes "auth_inv u p h w" "w_conns w k = Some x" "s_state x \<notin> {S5_ESTABLISHED, S5_CONNECTING, S5_RESOLVING}"
  shows "auth_inv u p (h(k := h k @ d)) (upd_sc k (\<lambda>x. x\<lparr>s_rxbuf := s_rxbuf x @ d\<rparr>) w)"
proof -
  have k: "k < w_sbrk w" "stage u p (h k) x" using assms(1,2) by (simp_all add: auth_inv_def)
  have c: "credentials u p ((h(k := h k @ d)) j)" if "credentials u p (h j)" for j using that by (auto intro: credentials_append)
  have "stage u p (h k @ d) (x\<lparr>s_rxbuf := s_rxbuf x @ d\<rparr>)" using k(2) credentials_append by (auto simp: stage_def split: socks5_state.splits)
  moreover have "\<forall>j \<ge> w_sbrk w. (h(k := h k @ d)) j = []" using assms(1) k(1) by (auto simp: auth_inv_def)
  ultimately show ?thesis using assms(1,2) c unfolding auth_inv_def waiters_ok_def upd_sc_def by auto
qed

lemma hs_viewD: "hs_view w k = Some (s, rb) \<Longrightarrow> \<exists>x. w_conns w k = Some x \<and> s_state x = s \<and> s_rxbuf x = rb"
  by (auto simp: hs_view_def)

lemma sc_view: "w_conns w k = Some x \<Longrightarrow> hs_view w k = Some (s_state (sc_at w k), s_rxbuf (sc_at w k))"
  by (simp add: hs_view_def sc_at_def)

lemma inv_stage: "auth_inv u p h w \<Longrightarrow> w_conns w k = Some x \<Longrightarrow> stage u p (h k) x"
  by (simp add: auth_inv_def)

text \<open>The first message: an accepted greeting offers the method.\<close>

lemma inv_auth_request:
  assumes i: "auth_inv u p h w" and x: "w_conns w k = Some x" "s_state x = S5_INIT"
  shows "auth_inv u p h (process_auth_request k w)"
proof -
  let ?rx = "s_rxbuf (sc_at w k)"
  let ?n = "unat (?rx ! 1)"
  have hk: "h k = ?rx" using inv_stage [OF i x(1)] x by (simp add: stage_def sc_at_def)
  have req: "sv_auth_required (w_server w)" using i by (simp add: auth_inv_def waiters_ok_def)
  have go: "auth_inv u p h (consume_rx (2 + ?n) k (upd_sc k (\<lambda>x. x\<lparr>s_state := S5_USERPASS\<rparr>) (client_write k m w)))"
    if g: "2 + ?n \<le> length ?rx" "S5_AUTH_USERPASS \<in> set (slice 2 ?n ?rx)" for m
  proof -
    let ?E = "client_write k m w"
    have E: "auth_inv u p h ?E" by (rule auth.client_out [OF i])
    have "hs_view ?E k = Some (S5_INIT, ?rx)" using hs.client_out [of w "hs_view w" k m] sc_view [OF x(1)] x by (simp add: sc_at_def)
    then obtain y where y: "w_conns ?E k = Some y" "s_rxbuf y = ?rx" using hs_viewD by blast
    have "greeting (take (2 + ?n) ?rx)" using g by (auto simp: greeting_def slice_def min_def take_drop ac_simps)
    then have "\<exists>g. greeting g \<and> h k = g @ drop (2 + ?n) ?rx" using hk by (intro exI [of _ "take (2 + ?n) ?rx"]) simp
    then have s: "stage u p (h k) (y\<lparr>s_state := S5_USERPASS, s_rxbuf := drop (2 + ?n) ?rx\<rparr>)" by (simp add: stage_def)
    show ?thesis using E y s unfolding consume_rx_def auth_inv_def upd_sc_def by auto
  qed
  show ?thesis
    unfolding process_auth_request_def Let_def using i req go by (auto simp: s5_consts intro!: auth.conn_close auth.client_out)
qed

text \<open>The second message: only the right name and password lead on.\<close>

lemma list_split: "n \<le> length xs \<Longrightarrow> xs = take n xs @ drop n xs"
  by simp

lemma userpass_split:
  assumes "3 + ul + pl \<le> length rb" "rb ! 0 = v" "rb ! 1 = a" "rb ! (2 + ul) = b"
  shows "rb = [v, a] @ slice 2 ul rb @ [b] @ slice (3 + ul) pl rb @ drop (3 + ul + pl) rb"
proof -
  have "rb = take 2 rb @ take ul (drop 2 rb) @ take 1 (drop (2 + ul) rb) @ take pl (drop (3 + ul) rb) @ drop (3 + ul + pl) rb"
    using append_take_drop_id [of 2 rb] append_take_drop_id [of ul "drop 2 rb"] append_take_drop_id [of 1 "drop (2 + ul) rb"]
      append_take_drop_id [of pl "drop (3 + ul) rb"] by (simp add: ac_simps numeral_3_eq_3)
  moreover have "take 2 rb = [v, a]" using assms by (cases rb; cases "tl rb") auto
  moreover have "take 1 (drop (2 + ul) rb) = [b]" using assms by (simp add: take_Suc_conv_app_nth)
  ultimately show ?thesis by (simp add: slice_def)
qed

lemma inv_userpass:
  assumes i: "auth_inv u p h w" and x: "w_conns w k = Some x" "s_state x = S5_USERPASS"
  shows "auth_inv u p h (process_userpass_auth k w)"
proof -
  let ?rb = "s_rxbuf (sc_at w k)"
  let ?u = "unat (?rb ! 1)" let ?p = "unat (?rb ! (2 + ?u))"
  obtain g where g: "greeting g" "h k = g @ ?rb" using inv_stage [OF i x(1)] x by (auto simp: stage_def sc_at_def)
  have srv: "sv_auth_user (w_server w) = u" "sv_auth_pass (w_server w) = p" using i by (simp_all add: auth_inv_def waiters_ok_def)
  have go: "auth_inv u p h (consume_rx n k (upd_sc k (\<lambda>x. x\<lparr>s_state := S5_AUTH\<rparr>) (client_write k m w)))"
    if l: "3 + ?u + ?p \<le> length ?rb" "?rb ! 0 = S5_USERPASS_VER" "slice 2 ?u ?rb = u" "slice (3 + ?u) ?p ?rb = p" for n m
  proof -
    have "length u = ?u" "length p = ?p" using l by (auto simp: slice_def)
    then have "credentials u p (h k)" unfolding credentials_def g(2)
      using g(1) userpass_split [OF l(1) l(2) refl refl] l(3,4)
      by (intro exI [of _ g] exI [of _ "?rb ! 1"] exI [of _ "?rb ! (2 + ?u)"] exI [of _ "drop (3 + ?u + ?p) ?rb"]) simp
    then have "auth_inv u p h (upd_sc k (\<lambda>x. x\<lparr>s_state := S5_AUTH, s_rxbuf := drop n (s_rxbuf x)\<rparr>) (client_write k m w))"
      by (intro inv_state auth.client_out [OF i]) simp_all
    then show ?thesis by (simp add: consume_rx_def upd_sc_def option.map_comp comp_def)
  qed
  show ?thesis unfolding process_userpass_auth_def Let_def using i go
    by (auto simp: srv intro!: auth.conn_close auth.client_out)
qed

text \<open>The third message.\<close>

lemma lookup_frame: "waiters_ok u p h srv \<Longrightarrow> dns_cache_lookup srv d n = (r, srv') \<Longrightarrow> waiters_ok u p h srv'"
  by (auto simp: dns_cache_lookup_def waiters_ok_def split: if_splits prod.splits)

lemma inv_lookup: "auth_inv u p h w \<Longrightarrow> dns_cache_lookup (w_server w) d n = (r, srv) \<Longrightarrow> auth_inv u p h (w\<lparr>w_server := srv\<rparr>)"
  using lookup_frame [of u p h "w_server w" d n r srv] by (simp add: auth_inv_def)

lemma inv_if: "(b \<Longrightarrow> auth_inv u p h x) \<Longrightarrow> (\<not> b \<Longrightarrow> auth_inv u p h y) \<Longrightarrow> auth_inv u p h (if b then x else y)"
  by simp

lemma inv_connect_request:
  assumes i: "auth_inv u p h w" and c: "credentials u p (h k)"
  shows "auth_inv u p h (process_connect_request k w)"
proof -
  let ?rb = "s_rxbuf (sc_at w k)"
  have rej: "auth_inv u p h (socks5_conn_close k (send_reply k r E))" if "auth_inv u p h E" for r E by (intro auth.conn_close auth.reply that)
  have port: "auth_inv u p h (upd_sc k (\<lambda>x. x\<lparr>s_target_port := v\<rparr>) w)" for v by (rule inv_sc [OF i]) simp
  have dir: "auth_inv u p h (do_connect k (upd_sc k (\<lambda>x. x\<lparr>s_target_family := f, s_target_ip := a, s_state := S5_CONNECTING\<rparr>) E))"
    "auth_inv u p h (do_connect k (upd_sc k (\<lambda>x. x\<lparr>s_target_family := f, s_target_ip6 := a, s_state := S5_CONNECTING\<rparr>) E))"
    if "auth_inv u p h E" for f a E using that c by (auto intro!: inv_connect inv_state)
  have dom: "auth_inv u p h
      (case dns_cache_lookup (w_server E) d n of (cached, srv) \<Rightarrow>
         case cached of Some ip \<Rightarrow> resolve_complete k d 0 AF_INET ip z (E\<lparr>w_server := srv\<rparr>)
         | None \<Rightarrow> case dns_start_query k d (E\<lparr>w_server := srv\<rparr>) of (ret, F) \<Rightarrow> if ret < 0 then socks5_conn_close k (send_reply k rep F) else F)"
    if "auth_inv u p h E" for E d n z rep
  proof -
    obtain r srv where l: "dns_cache_lookup (w_server E) d n = (r, srv)" by fastforce
    have F: "auth_inv u p h (E\<lparr>w_server := srv\<rparr>)" by (rule inv_lookup [OF that l])
    show ?thesis using inv_resolve [OF F c] inv_start_query [OF F c, of d] rej by (auto simp: l split: option.splits prod.splits)
  qed
  have st: "auth_inv u p h (upd_sc k (\<lambda>x. x\<lparr>s_state := S5_RESOLVING\<rparr>) E)" if "auth_inv u p h E" for E
    using that c by (intro inv_state) simp_all
  have n: "ts_now (upd_sc k f E) = ts_now E" for f E by (simp add: upd_sc_def)
  show ?thesis unfolding process_connect_request_def Let_def
    by (intro inv_if i rej port dir dom st)
qed

section \<open>Steps keep the invariant\<close>

lemma inv_snd: "auth_inv u p h w \<Longrightarrow> auth_inv u p h (snd (r, w))"
  "(b \<Longrightarrow> auth_inv u p h (snd x)) \<Longrightarrow> (\<not> b \<Longrightarrow> auth_inv u p h (snd y)) \<Longrightarrow> auth_inv u p h (snd (if b then x else y))"
  by simp_all

lemma inv_read_established: "auth_inv u p h w \<Longrightarrow> auth_inv u p h (client_read_established k d w)"
  unfolding client_read_established_def Let_def case_prod_beta
  by (cases "s_wg_conn (sc_at w k)"; simp only: option.case; intro inv_if inv_snd auth.conn_close inv_sc auth.pending auth.inner.send) simp_all

interpretation live: proxy_invariant "\<lambda>w. w_conns w k \<noteq> None" for k
proof (unfold_locales, goal_cases)
  case (2 w w') then show ?case by (cases w; cases w') auto
qed (auto simp: upd_conn_def conn_free_def upd_sc_def upd_server_def)

lemma live_upd_sc: "w_conns w k \<noteq> None \<Longrightarrow> w_conns (upd_sc j f w) k \<noteq> None"
  by (auto simp: upd_sc_def)

lemma live_if: "(b \<Longrightarrow> w_conns x k \<noteq> None) \<Longrightarrow> (\<not> b \<Longrightarrow> w_conns y k \<noteq> None) \<Longrightarrow> w_conns (if b then x else y) k \<noteq> None"
  by simp

lemma process_keeps_client:
  assumes "w_conns w k \<noteq> None"
  shows "w_conns (process_auth_request k w) k \<noteq> None" "w_conns (process_userpass_auth k w) k \<noteq> None"
  unfolding process_auth_request_def process_userpass_auth_def consume_rx_def Let_def case_prod_beta
  by (intro live_if assms live.conn_close live.client_out live_upd_sc)+

lemma inv_then_connect:
  assumes "auth_inv u p h w" "w_conns w k \<noteq> None"
  shows "auth_inv u p h (if s_state (sc_at w k) = S5_AUTH \<and> 4 \<le> length (s_rxbuf (sc_at w k)) then process_connect_request k w else w)"
proof -
  obtain x where x: "w_conns w k = Some x" using assms(2) by blast
  have "credentials u p (h k)" if "s_state x = S5_AUTH" using inv_stage [OF assms(1) x] that by (simp add: stage_def)
  then show ?thesis using assms(1) inv_connect_request [OF assms(1)] x by (simp add: sc_at_def)
qed

lemma inv_then_userpass:
  assumes "auth_inv u p h w" "w_conns w k \<noteq> None"
  shows "auth_inv u p h (if s_state (sc_at w k) = S5_USERPASS then process_userpass_auth k w else w)"
    "w_conns (if s_state (sc_at w k) = S5_USERPASS then process_userpass_auth k w else w) k \<noteq> None"
proof -
  obtain x where x: "w_conns w k = Some x" using assms(2) by blast
  show "auth_inv u p h (if s_state (sc_at w k) = S5_USERPASS then process_userpass_auth k w else w)"
    using assms(1) inv_userpass [OF assms(1) x] x by (simp add: sc_at_def)
  show "w_conns (if s_state (sc_at w k) = S5_USERPASS then process_userpass_auth k w else w) k \<noteq> None"
    using process_keeps_client(2) [OF assms(2)] assms(2) by simp
qed

lemma inv_read:
  assumes i: "auth_inv u p h w" and x: "w_conns w k = Some x"
  shows "auth_inv u p (h(k := h k @ taken x nread buf)) (on_client_read k nread buf w)"
proof -
  let ?d = "take (RXBUF_SIZE - length (s_rxbuf x)) (take (nat nread) buf)"
  let ?E = "upd_sc k (\<lambda>x. x\<lparr>s_rxbuf := s_rxbuf x @ take (RXBUF_SIZE - length (s_rxbuf x)) (take (nat nread) buf)\<rparr>) w"
  let ?h = "h(k := h k @ ?d)"
  have at: "sc_at w k = x" using x by (simp add: sc_at_def)
  consider (none) "nread \<le> 0" | (data) "0 < nread" "s_state x \<in> {S5_ESTABLISHED, S5_CONNECTING, S5_RESOLVING}"
    | (hs) "0 < nread" "s_state x \<notin> {S5_ESTABLISHED, S5_CONNECTING, S5_RESOLVING}" by fastforce
  then show ?thesis
  proof cases
    case hs
    have eq: "?E = upd_sc k (\<lambda>x. x\<lparr>s_rxbuf := s_rxbuf x @ ?d\<rparr>) w" using x by (simp add: upd_sc_def)
    have E: "auth_inv u p ?h ?E" unfolding eq by (rule stage_append [OF i x hs(2)])
    have xE: "w_conns ?E k = Some (x\<lparr>s_rxbuf := s_rxbuf x @ ?d\<rparr>)" using x by (simp add: upd_sc_def)
    have t: "taken x nread buf = ?d" using hs by (simp add: taken_def)
    have nE: "w_conns ?E k \<noteq> None" using xE by simp
    show ?thesis
    proof (cases "s_state x")
      case S5_INIT
      have A: "auth_inv u p ?h (process_auth_request k ?E)" by (rule inv_auth_request [OF E xE]) (simp add: S5_INIT)
      have e: "on_client_read k nread buf w =
          (let w = process_auth_request k ?E; w = (if s_state (sc_at w k) = S5_USERPASS then process_userpass_auth k w else w)
           in if s_state (sc_at w k) = S5_AUTH \<and> 4 \<le> length (s_rxbuf (sc_at w k)) then process_connect_request k w else w)"
        unfolding on_client_read_def at Let_def using hs S5_INIT by (simp split del: if_split)
      show ?thesis unfolding t e Let_def by (rule inv_then_connect [OF inv_then_userpass [OF A process_keeps_client(1) [OF nE]]])
    next
      case S5_USERPASS
      have A: "auth_inv u p ?h (process_userpass_auth k ?E)" by (rule inv_userpass [OF E xE]) (simp add: S5_USERPASS)
      have e: "on_client_read k nread buf w =
          (let w = process_userpass_auth k ?E in if s_state (sc_at w k) = S5_AUTH \<and> 4 \<le> length (s_rxbuf (sc_at w k)) then process_connect_request k w else w)"
        unfolding on_client_read_def at Let_def using hs S5_USERPASS by (simp split del: if_split)
      show ?thesis unfolding t e Let_def by (rule inv_then_connect [OF A process_keeps_client(2) [OF nE]])
    next
      case S5_AUTH
      have "credentials u p (?h k)" using inv_stage [OF E xE] by (simp add: stage_def S5_AUTH)
      then have "auth_inv u p ?h (process_connect_request k ?E)" by (rule inv_connect_request [OF E])
      then show ?thesis using hs S5_AUTH unfolding t on_client_read_def Let_def at by simp
    qed (use hs E in \<open>simp_all add: t on_client_read_def at\<close>)
  qed (use i in \<open>auto simp: taken_def on_client_read_def at inv_read_established auth.conn_close\<close>)
qed

lemma inv_client_closed: "auth_inv u p h w \<Longrightarrow> auth_inv u p h (client_close_cb k w)"
proof -
  assume "auth_inv u p h w"
  then have "auth_inv u p h (close_wg k w)" by (rule auth.detach)
  then show ?thesis by (simp add: client_close_cb_def Let_def auth_inv_def)
qed

lemma inv_accept: "auth_inv u p h w \<Longrightarrow> auth_inv u p h (on_connection s a w)"
proof -
  assume i: "auth_inv u p h w"
  have "auth_inv u p h (E\<lparr>w_sbrk := w_sbrk E + 1, w_conns := (w_conns E)(w_sbrk E \<mapsto> socks5_conn_zero\<lparr>s_reading := a, s_closing := b\<rparr>)\<rparr>)"
    if "auth_inv u p h E" for E b using that by (auto simp: auth_inv_def stage_def socks5_conn_zero_def less_Suc_eq)
  then show ?thesis using i auth.inner.alloc [OF i] unfolding on_connection_def Let_def by (auto split: prod.splits bool.splits)
qed

lemma inv_stop: "auth_inv u p h w \<Longrightarrow> auth_inv u p h (socks5_stop w)"
proof -
  assume i: "auth_inv u p h w"
  have sv: "auth_inv u p h (upd_server (\<lambda>srv. srv\<lparr>sv_dns_shutting_down := b\<rparr>) E)" "auth_inv u p h (upd_server (\<lambda>srv. srv\<lparr>sv_dns_using_cares := b\<rparr>) E)"
    "auth_inv u p h (upd_server (\<lambda>srv. srv\<lparr>sv_flush_check := b\<rparr>) E)" if "auth_inv u p h E" for b E
    by (rule auth.server [OF that], rule server_le_same; simp)+
  have "auth_inv u p h (fold (\<lambda>q w. cares_addrinfo_cb q ARES_ECANCELLED [] w) qs E)" if "auth_inv u p h E" for qs E
    by (rule fold_inv [where I = "auth_inv u p h", OF that]) (auto intro: inv_cares)
  then show ?thesis unfolding socks5_stop_def Let_def using i sv by simp
qed

lemma inv_step: "s5_step (w, h) (w', h') \<Longrightarrow> auth_inv u p h w \<Longrightarrow> auth_inv u p h' w'"
proof (induction "(w, h)" "(w', h')" rule: s5_step.induct)
  case read
  then show ?case using inv_read by blast
next
  case packet
  then show ?case using s5.input by blast
next
  case clock
  then show ?case by (auto simp: auth_inv_def)
qed (auto intro: inv_accept inv_client_closed inv_resolved inv_cares inv_stop auth.write_done auth.check s5.retransmit s5.delayed_ack s5.timer_close s5.flush_check s5.stack_free)

lemma inv_init:
  assumes "s5_init user pass w" "c_string user = user" "user \<noteq> []" "length user \<le> 255" "c_string pass = pass" "length pass \<le> 255"
  shows "auth_inv user pass (\<lambda>_. []) w"
  using assms by (auto simp: s5_init_def auth_inv_def waiters_ok_def socks5_start_def Let_def)

lemma inv_run: "s5_step\<^sup>*\<^sup>* a b \<Longrightarrow> auth_inv u p (snd a) (fst a) \<Longrightarrow> auth_inv u p (snd b) (fst b)"
proof (induction rule: rtranclp_induct)
  case (step b c)
  then show ?case using inv_step [of "fst b" "snd b" "fst c" "snd c" u p] by simp
qed

section \<open>Property\<close>

text \<open>\<^bold>\<open>C6\<close> Authentication cannot be bypassed: in every run of the proxy that was started with a user name and a password, over any interleaving of
  client reads, packets from the tunnel, timers, name resolution and closing, a client that is past the authentication, and a client that owns a
  connection into the tunnel, has sent a greeting that offers the method followed by exactly this name and password.\<close>

theorem socks5_auth_enforced:
  assumes "s5_init user pass w0" "c_string user = user" "user \<noteq> []" "length user \<le> 255" "c_string pass = pass" "length pass \<le> 255"
    and "s5_step\<^sup>*\<^sup>* (w0, \<lambda>_. []) (w, h)"
    and "(\<exists>x. w_conns w k = Some x \<and> s_state x \<notin> {S5_INIT, S5_USERPASS}) \<or> (\<exists>c y. conn_mem w c = Some y \<and> c_userdata y = k \<and> k \<noteq> 0)"
  shows "credentials user pass (h k)"
proof -
  have i: "auth_inv user pass h w" using inv_run [OF assms(7)] inv_init [OF assms(1-6)] by simp
  show ?thesis using assms(8)
  proof
    assume "\<exists>x. w_conns w k = Some x \<and> s_state x \<notin> {S5_INIT, S5_USERPASS}"
    then obtain x where x: "w_conns w k = Some x" "s_state x \<notin> {S5_INIT, S5_USERPASS}" by blast
    then show ?thesis using inv_stage [OF i x(1)] by (auto simp: stage_def split: socks5_state.splits)
  next
    assume "\<exists>c y. conn_mem w c = Some y \<and> c_userdata y = k \<and> k \<noteq> 0"
    then show ?thesis using i by (auto simp: auth_inv_def)
  qed
qed

text \<open>A client that sends the first two messages at once.\<close>

definition s5_world0 :: world where
  "s5_world0 = tcpstack.extend (tcpstack_init 0 None stack_zero)
     (world.fields (socks5_start (Some [97]) (Some [98]) None False) (\<lambda>_. None) 1 1 (\<lambda>_. 0) (\<lambda>_. None))"

definition s5_request :: bytes where
  "s5_request = [5, 1, 2, 1, 1, 97, 1, 98]"

definition s5_world1 :: world where "s5_world1 = on_connection 0 True s5_world0"
definition s5_world2 :: world where "s5_world2 = on_client_read 1 8 s5_request s5_world1"

lemma s5_worlds: "map_option s_state (w_conns s5_world1 1) = Some S5_INIT" "map_option s_rxbuf (w_conns s5_world1 1) = Some []"
  "map_option s_state (w_conns s5_world2 1) = Some S5_AUTH"
  by code_simp+

lemma s5_world0_init: "s5_init [97] [98] s5_world0"
  by (simp add: s5_init_def s5_world0_def tcpstack.defs world.defs tcpstack_init_def stack_zero_def) blast

theorem socks5_auth_enforced_witness: "\<exists>w h. s5_step\<^sup>*\<^sup>* (s5_world0, \<lambda>_. []) (w, h) \<and> map_option s_state (w_conns w 1) = Some S5_AUTH \<and> credentials [97] [98] (h 1)"
proof -
  obtain x where x: "w_conns s5_world1 1 = Some x" using s5_worlds(1) by auto
  let ?h = "(\<lambda>_. [])(1 := [] @ taken x 8 s5_request)"
  have 1: "s5_step (s5_world0, \<lambda>_. []) (s5_world1, \<lambda>_. [])" unfolding s5_world1_def by (rule s5_step.accept)
  have 2: "s5_step (s5_world1, \<lambda>_. []) (s5_world2, ?h)" unfolding s5_world2_def by (rule s5_step.read [OF x])
  have run: "s5_step\<^sup>*\<^sup>* (s5_world0, \<lambda>_. []) (s5_world2, ?h)" using 1 2 by (meson converse_rtranclp_into_rtranclp r_into_rtranclp)
  obtain y where y: "w_conns s5_world2 1 = Some y" "s_state y = S5_AUTH" using s5_worlds(3) by auto
  have "credentials [97] [98] (?h 1)"
    using socks5_auth_enforced [of "[97]" "[98]" s5_world0 s5_world2 ?h 1] s5_world0_init run y by (simp add: c_string_def)
  then show ?thesis using run s5_worlds(3) by blast
qed

end
