(* ===== verification/Socks5_Data.thy ===== *)
theory Socks5_Data
  imports Socks5_Auth Tcp_Sender
begin

text \<open>
  The data path of the proxy in both directions, the end of a client, and the DNS cache.
\<close>

section \<open>Output and the end of a client\<close>

text \<open>What the stack does inside its own functions leaves the proxy alone.\<close>

interpretation proxy_part: stack_caller inner_app "\<lambda>w. tcpstack.more w = m" for m
  by unfold_locales (simp_all add: inner_app_def upd_conn_def conn_free_def ts_event_def)

lemma more_proxy:
  assumes "tcpstack.more w' = tcpstack.more (w :: world)"
  shows "w_conns w' = w_conns w" "w_server w' = w_server w"
  using assms by (cases w; cases w'; simp)+

lemmas stack_frame = more_proxy [OF proxy_part.close [OF refl]] more_proxy [OF proxy_part.update_window [OF refl]]
  more_proxy [OF proxy_part.alloc [OF refl]] more_proxy [OF proxy_part.send [OF refl]] more_proxy [OF proxy_part.ack_data [OF refl]]
  more_proxy [OF proxy_part.segment [OF refl]] more_proxy [OF proxy_part.fin [OF refl]]

lemma event_proxy [simp]: "w_conns (ts_event e w) = w_conns w" "w_server (ts_event e w) = w_server w"
  by (simp_all add: ts_event_def)

lemma upd_conn_proxy [simp]: "w_conns (upd_conn c f w) = w_conns w" "w_server (upd_conn c f w) = w_server w"
  by (simp_all add: upd_conn_def)

lemma upd_sc_conns [simp]: "w_conns (upd_sc k f w) j = (if j = k then map_option f (w_conns w k) else w_conns w j)"
  "w_server (upd_sc k f w) = w_server w" "conn_mem (upd_sc k f w) = conn_mem w"
  by (simp_all add: upd_sc_def)

lemma upd_server_conns [simp]: "w_conns (upd_server f w) = w_conns w" "w_server (upd_server f w) = f (w_server w)" "conn_mem (upd_server f w) = conn_mem w"
  by (simp_all add: upd_server_def)

lemma sc_at_eq: "w_conns w k = Some x \<Longrightarrow> sc_at w k = x"
  by (simp add: sc_at_def)

lemma flush_remove_client:
  assumes "w_conns w k = Some x"
  shows "w_conns (s5_flush_remove k w) k = Some (if s_write_state x = S5W_QUEUED then x\<lparr>s_write_state := S5W_IDLE\<rparr> else x)"
  using assms by (simp add: s5_flush_remove_def sc_at_def Let_def)

lemma close_wg_client:
  assumes "w_conns w k = Some x"
  shows "w_conns (close_wg k w) k = Some (x\<lparr>s_wg_conn := None\<rparr>)"
  using assms by (cases "s_wg_conn x") (simp_all add: close_wg_def sc_at_def detach_wg_def stack_frame)

lemma conn_close_client:
  assumes "w_conns w k = Some x" "s_write_state x \<noteq> S5W_CLOSED"
  shows "w_conns (socks5_conn_close k w) k =
    Some (x\<lparr>s_write_state := S5W_CLOSED, s_wg_conn := None, s_resolve_req := None, s_reading := s_reading x \<and> s_closing x, s_closing := True\<rparr>)"
proof -
  let ?A = "upd_sc k (\<lambda>x. x\<lparr>s_write_state := S5W_CLOSED\<rparr>) (s5_flush_remove k w)"
  have "w_conns ?A k = Some (x\<lparr>s_write_state := S5W_CLOSED\<rparr>)" using flush_remove_client [OF assms(1)] by simp
  then have B: "w_conns (close_wg k ?A) k = Some (x\<lparr>s_write_state := S5W_CLOSED, s_wg_conn := None\<rparr>)" by (simp add: close_wg_client)
  then have C: "w_conns (case s_resolve_req (sc_at (close_wg k ?A) k) of None \<Rightarrow> close_wg k ?A | Some q \<Rightarrow> dns_query_remove_waiter q k (close_wg k ?A)) k =
      Some (x\<lparr>s_write_state := S5W_CLOSED, s_wg_conn := None, s_resolve_req := None\<rparr>)"
    by (cases "s_resolve_req x") (simp_all add: sc_at_def dns_query_remove_waiter_def)
  show ?thesis using assms C unfolding socks5_conn_close_def Let_def
    by (cases "s_closing x") (simp_all add: sc_at_def)
qed

lemma window_client:
  assumes "w_conns w k = Some x"
  shows "\<exists>b. w_conns (update_wg_recv_window_state k w) k = Some (x\<lparr>s_throttled := b\<rparr>)"
proof (cases "s_wg_conn x = None \<or> s_write_state x = S5W_CLOSED \<or> client_buffered_to_browser x < SOCKS5_CLIENT_OUTBUF_RESUME \<and> \<not> s_throttled x")
  case True
  then have "update_wg_recv_window_state k w = w" using assms by (auto simp: update_wg_recv_window_state_def sc_at_eq Let_def split: option.splits)
  then show ?thesis using assms by (intro exI [of _ "s_throttled x"]) simp
next
  case False
  then show ?thesis using assms
    by (intro exI [of _ "client_buffered_to_browser x \<ge> SOCKS5_CLIENT_OUTBUF_RESUME"])
      (auto simp: update_wg_recv_window_state_def sc_at_eq Let_def stack_frame split: option.splits)
qed

text \<open>A short piece of output is only queued.\<close>

lemma short_write:
  assumes "w_conns w k = Some x" "s_write_state x \<noteq> S5W_CLOSED" "length (s_outbuf x) + length data < 8192"
  shows "\<exists>x'. w_conns (client_write k data w) k = Some x' \<and> s_written x' = s_written x \<and> s_write_state x' \<noteq> S5W_CLOSED \<and> s_wg_conn x' = s_wg_conn x \<and>
    (\<not> s_throttled x \<longrightarrow> conn_mem (client_write k data w) = conn_mem w)"
proof (cases "data = []")
  case False
  obtain r w1 where r: "reserve_buf (s_outbuf_cap x) (length (s_outbuf x) + length data) w = (r, w1)" by fastforce
  have "w_conns (snd (reserve_buf (s_outbuf_cap x) (length (s_outbuf x) + length data) w)) = w_conns w"
    by (simp add: reserve_buf_def Let_def case_prod_beta stack_frame)
  then have w1: "w_conns w1 k = Some x" using r assms(1) by simp
  have m1: "conn_mem w1 = conn_mem w" using r by (auto simp: reserve_buf_def ts_alloc_def Let_def split: if_splits)
  show ?thesis
  proof (cases r)
    case None
    then show ?thesis using assms False r w1 m1 by (auto simp: client_write_def sc_at_eq)
  next
    case (Some cap)
    let ?E = "upd_sc k (\<lambda>x. x\<lparr>s_outbuf := s_outbuf x @ data, s_outbuf_cap := cap\<rparr>) w1"
    obtain b where b: "w_conns (update_wg_recv_window_state k ?E) k = Some (x\<lparr>s_outbuf := s_outbuf x @ data, s_outbuf_cap := cap, s_throttled := b\<rparr>)"
      using window_client [of ?E k] w1 by auto
    have "client_write k data w = schedule_client_flush k (update_wg_recv_window_state k ?E)"
      using assms False r Some b by (simp add: client_write_def sc_at_eq Let_def)
    moreover have "conn_mem (update_wg_recv_window_state k ?E) = conn_mem w" if "\<not> s_throttled x"
      using that w1 m1 by (auto simp: update_wg_recv_window_state_def sc_at_eq Let_def split: option.splits)
    ultimately show ?thesis using b assms(2) by (auto simp: schedule_client_flush_def sc_at_eq)
  qed
qed (use assms in \<open>simp add: client_write_def\<close>)

text \<open>Output followed by a close is not written: this is how every error reply ends, and data that the close of the connection follows.\<close>

lemma write_then_close:
  assumes "w_conns w k = Some x" "s_write_state x \<noteq> S5W_CLOSED" "length (s_outbuf x) + length data < 8192"
  shows "\<exists>x'. w_conns (socks5_conn_close k (client_write k data w)) k = Some x' \<and> s_written x' = s_written x \<and> s_write_state x' = S5W_CLOSED"
proof -
  obtain x1 where x1: "w_conns (client_write k data w) k = Some x1" "s_written x1 = s_written x" "s_write_state x1 \<noteq> S5W_CLOSED"
    using short_write [OF assms] by blast
  show ?thesis using conn_close_client [OF x1(1,3)] x1(2) by simp
qed

lemma error_reply_lost:
  assumes "w_conns w k = Some x" "s_write_state x \<noteq> S5W_CLOSED" "length (s_outbuf x) < 8182"
  shows "\<exists>x'. w_conns (socks5_conn_close k (send_reply k rep w)) k = Some x' \<and> s_written x' = s_written x \<and> s_write_state x' = S5W_CLOSED"
  unfolding send_reply_def by (rule write_then_close [OF assms(1,2)]) (use assms(3) in simp)

text \<open>A read of 0 bytes, with which libuv reports that there is nothing to read for now, closes the client.\<close>

lemma empty_read_closes: "on_client_read k 0 buf w = socks5_conn_close k w"
  by (simp add: on_client_read_def UV_EAGAIN_def)

text \<open>\<^bold>\<open>C9\<close> A client that is closed while a write is under way and more output waits is freed but stays in the list of clients to flush. When the write was
  complete, \<^verbatim>\<open>uv_close\<close> still reports it with status 0, \<^verbatim>\<open>write_done_cb\<close> then takes the closed client for an idle one and queues it again, and the next flush
  check reads the freed memory.\<close>

theorem socks5_close_dangles:
  assumes "w_conns w k = Some x" "s_write_state x = S5W_WRITING" "s_outbuf x \<noteq> []"
  shows "let w' = client_close_cb k (write_done_cb k 0 (socks5_conn_close k w))
    in w_conns w' k = None \<and> k \<in> set (sv_flush (w_server w')) \<and> sv_flush_check (w_server w')"
proof -
  let ?C = "socks5_conn_close k w"
  obtain y where y: "w_conns ?C k = Some y" "s_wg_conn y = None" "s_outbuf y \<noteq> []"
    using conn_close_client [OF assms(1)] assms(2,3) by simp
  obtain D z where D: "write_done_cb k 0 ?C = schedule_client_flush k D" "w_conns D k = Some z" "s_write_state z = S5W_IDLE" "s_wg_conn z = None"
    using y by (fastforce simp: write_done_cb_def sc_at_def Let_def update_wg_recv_window_state_def)
  then have "k \<in> set (sv_flush (w_server (schedule_client_flush k D)))" "sv_flush_check (w_server (schedule_client_flush k D))"
      "s_wg_conn (sc_at (schedule_client_flush k D) k) = None"
    by (simp_all add: schedule_client_flush_def sc_at_def)
  then show ?thesis unfolding D(1) by (simp add: client_close_cb_def close_wg_def Let_def)
qed

text \<open>A client with a write under way, and more output behind it.\<close>

definition s5_writing :: world where
  "s5_writing = s5_world1\<lparr>w_conns := (w_conns s5_world1)(1 \<mapsto> socks5_conn_zero\<lparr>s_state := S5_ESTABLISHED, s_write_state := S5W_WRITING, s_write_buf := [1],
     s_outbuf := [2], s_outbuf_cap := 1024\<rparr>)\<rparr>"

theorem socks5_close_dangles_witness:
  "w_conns (client_close_cb 1 (write_done_cb 1 0 (socks5_conn_close 1 s5_writing))) 1 = None \<and>
   1 \<in> set (sv_flush (w_server (client_close_cb 1 (write_done_cb 1 0 (socks5_conn_close 1 s5_writing)))))"
  using socks5_close_dangles [of s5_writing 1] by (simp add: s5_writing_def Let_def)

section \<open>The end of the connection\<close>

lemma conn_close_mem:
  assumes "w_conns w k = Some x" "s_wg_conn x = None"
  shows "conn_mem (socks5_conn_close k w) = conn_mem w"
  using assms by (auto simp: socks5_conn_close_def close_wg_def s5_flush_remove_def dns_query_remove_waiter_def sc_at_def Let_def split: option.splits)

lemma ack_data_conn:
  assumes "conn_mem w c = Some y"
  shows "\<exists>z. conn_mem (tcp_ack_data app c n imm w) c = Some z \<and> owner z = owner y \<and> c_rcv_nxt z = c_rcv_nxt y \<and> c_close_notified z = c_close_notified y"
  using assms by (auto simp: tcp_ack_data_def tcp_ack_now_def Let_def conn_at_def)

text \<open>The calls of the stack into the proxy.\<close>

lemma call_data_client:
  assumes "conn_mem w c = Some y" "c_on_data y = Some p" "c_userdata y = k" "k \<noteq> 0" "w_conns w k = Some x" "s_write_state x \<noteq> S5W_CLOSED"
  shows "call_data s5_app c d w = client_write k d (ts_event (Data c d) w)"
proof -
  have "client_of c (ts_event (Data c d) w) = Some k" using assms by (simp add: client_of_def conn_user_def sc_at_def ts_event_def)
  then show ?thesis using assms(1,2) by (simp add: call_data_def conn_at_eq s5_app_def wg_on_data_def)
qed

lemma notify_close_client:
  assumes "conn_mem w c = Some y" "\<not> c_close_notified y" "c_on_close y = Some p" "c_userdata y = k" "k \<noteq> 0"
  shows "notify_close s5_app c w =
    socks5_conn_close k (upd_sc k (\<lambda>x. x\<lparr>s_wg_conn := None\<rparr>) (detach_wg c (ts_event (Closed c) (upd_conn c (\<lambda>x. x\<lparr>c_close_notified := True\<rparr>) w))))"
proof -
  define E where "E = upd_conn c (\<lambda>x. x\<lparr>c_close_notified := True\<rparr>) w"
  have "conn_mem E c = Some (y\<lparr>c_close_notified := True\<rparr>)" using assms(1) by (simp add: E_def)
  then have "conn_at E c = y\<lparr>c_close_notified := True\<rparr>" "conn_user c (ts_event (Closed c) E) = k"
    using assms(4) by (simp_all add: conn_at_eq conn_user_def ts_event_def)
  moreover have "notify_close s5_app c w = call_close s5_app c E" using assms(1,2) by (simp add: notify_close_def conn_at_eq E_def)
  ultimately show ?thesis unfolding E_def [symmetric] using assms(3,5) by (simp add: call_close_def s5_app_def wg_on_close_def Let_def)
qed

text \<open>The end of a connection closes the client at once.\<close>

lemma fin_closes:
  assumes "conn_mem w c = Some y" "\<not> c_close_notified y" "c_userdata y = k" "k \<noteq> 0" "c_on_close y = Some p"
    and "w_conns w k = Some x" "s_write_state x \<noteq> S5W_CLOSED"
  shows "\<exists>x' y'. w_conns (established_fin s5_app c w) k = Some x' \<and> s_write_state x' = S5W_CLOSED \<and> s_written x' = s_written x \<and>
    conn_mem (established_fin s5_app c w) c = Some y' \<and> c_rcv_nxt y' = c_rcv_nxt y + 1"
proof -
  let ?y = "y\<lparr>c_rcv_nxt := c_rcv_nxt y + 1, c_state := TCPS_CLOSE_WAIT\<rparr>"
  let ?A = "send_segment s5_app c TCPF_ACK (c_snd_nxt ?y) (c_rcv_nxt ?y) [] (upd_conn c (\<lambda>x. x\<lparr>c_rcv_nxt := c_rcv_nxt x + 1, c_state := TCPS_CLOSE_WAIT\<rparr>) w)"
  let ?B = "ts_event (Closed c) (upd_conn c (\<lambda>x. x\<lparr>c_close_notified := True\<rparr>) ?A)"
  let ?D = "upd_sc k (\<lambda>x. x\<lparr>s_wg_conn := None\<rparr>) (detach_wg c ?B)"
  have A: "conn_mem ?A c = Some ?y" "w_conns ?A = w_conns w" using assms(1) by (simp_all add: stack_frame)
  have B: "conn_mem ?B c = Some (?y\<lparr>c_close_notified := True\<rparr>)" "w_conns ?B = w_conns w" using assms(1) by (simp_all add: ts_event_def stack_frame)
  have D: "w_conns ?D k = Some (x\<lparr>s_wg_conn := None\<rparr>)" "conn_mem ?D c = Some (?y\<lparr>c_close_notified := True, c_userdata := 0, c_on_recv_window := None, c_on_writeable := None\<rparr>)"
    using B assms(6) by (simp_all add: detach_wg_def)
  have n: "notify_close s5_app c ?A = socks5_conn_close k ?D" by (rule notify_close_client [OF A(1)]) (use assms in simp_all)
  have F: "established_fin s5_app c w = send_fin s5_app c (upd_conn c (\<lambda>x. x\<lparr>c_state := TCPS_LAST_ACK\<rparr>) (socks5_conn_close k ?D))"
    unfolding established_fin_def Let_def using n assms(1) by (simp add: conn_at_def)
  have "w_conns (socks5_conn_close k ?D) k = Some (x\<lparr>s_write_state := S5W_CLOSED, s_wg_conn := None, s_resolve_req := None, s_reading := s_reading x \<and> s_closing x, s_closing := True\<rparr>)"
    using conn_close_client [OF D(1)] assms(7) by simp
  moreover have "conn_mem (socks5_conn_close k ?D) = conn_mem ?D" by (rule conn_close_mem [OF D(1)]) simp
  ultimately show ?thesis unfolding F using D(2) by (simp add: send_fin_def stack_frame conn_at_def)
qed

text \<open>\<^bold>\<open>C31\<close> The end of a download is cut off: when the last data of a stream arrive in order in the segment with the FIN (less than the 8192 bytes that are
  written at once), the stack takes them, moves its receive position behind the FIN and acknowledges it, but the proxy only buffers them and then closes
  the client, whose output has not grown: the last bytes are lost.\<close>

theorem socks5_fin_truncates:
  assumes "conn_mem w c = Some y" "c_state y = TCPS_ESTABLISHED" "\<not> c_close_notified y" "c_rcv_ooo y = []"
    and "c_userdata y = k" "k \<noteq> 0" "c_on_data y \<noteq> None" "c_on_close y \<noteq> None"
    and "w_conns w k = Some x" "s_write_state x \<noteq> S5W_CLOSED" "\<not> s_throttled x" "length (s_outbuf x) + length (sg_payload sg) < 8192"
    and "flag (sg_flags sg) TCPF_FIN" "\<not> flag (sg_flags sg) TCPF_RST" "sg_ack sg = c_snd_una y" "sg_seq sg = c_rcv_nxt y" "sg_payload sg \<noteq> []"
  shows "\<exists>x' y'. w_conns (conn_segment s5_app c sg w) k = Some x' \<and> s_write_state x' = S5W_CLOSED \<and> s_written x' = s_written x \<and>
    conn_mem (conn_segment s5_app c sg w) c = Some y' \<and> c_rcv_nxt y' = c_rcv_nxt y + of_nat (length (sg_payload sg)) + 1"
proof -
  obtain p q where f: "c_on_data y = Some p" "c_on_close y = Some q" using assms(7,8) by blast
  let ?d = "sg_payload sg"
  define E where "E = upd_conn c (\<lambda>x. x\<lparr>c_snd_wnd := (if c_state x = TCPS_SYN_SENT then ucast (sg_window sg) else scaled_window x (sg_window sg))\<rparr>) w"
  define y1 where "y1 = y\<lparr>c_snd_wnd := scaled_window y (sg_window sg)\<rparr>"
  define F where "F = upd_conn c (\<lambda>x. x\<lparr>c_rcv_nxt := c_rcv_nxt x + of_nat (length ?d)\<rparr>) E"
  define y2 where "y2 = y1\<lparr>c_rcv_nxt := c_rcv_nxt y + of_nat (length ?d)\<rparr>"
  define G where "G = client_write k ?d (ts_event (Data c ?d) F)"
  define H where "H = tcp_ack_data s5_app c (length ?d) False G"
  have E: "conn_mem E c = Some y1" "w_conns E k = Some x" using assms(1,2,9) by (simp_all add: E_def y1_def)
  then have F: "conn_mem F c = Some y2" "w_conns F k = Some x" by (simp_all add: F_def y1_def y2_def)
  have y2: "c_rcv_ooo y2 = []" "c_on_data y2 = Some p" "c_on_close y2 = Some q" "c_userdata y2 = k" "\<not> c_close_notified y2"
      "c_rcv_nxt y2 = c_rcv_nxt y + of_nat (length ?d)" using assms f by (simp_all add: y1_def y2_def)
  have "w_conns (ts_event (Data c ?d) F) k = Some x" "conn_mem (ts_event (Data c ?d) F) = conn_mem F" using F(2) by (simp_all add: ts_event_def)
  then obtain x1 where x1: "w_conns G k = Some x1" "s_written x1 = s_written x" "s_write_state x1 \<noteq> S5W_CLOSED" and "conn_mem G = conn_mem F"
    using short_write [OF _ assms(10,12), of "ts_event (Data c ?d) F" k] assms(11) by (auto simp: G_def)
  then have G: "conn_mem G c = Some y2" using F(1) by simp
  have data: "call_data s5_app c ?d F = G" unfolding G_def by (rule call_data_client [OF F(1) y2(2,4) assms(6) F(2) assms(10)])
  have drain: "tcp_ooo_drain s5_app c G = (0, G)" using G y2(1) by (simp add: tcp_ooo_drain_def conn_at_eq)
  have "accept_data s5_app c ?d False E = H" unfolding accept_data_def Let_def F_def [symmetric] data drain by (simp add: H_def)
  then have pay: "receive_payload s5_app c (sg_seq sg) ?d E = H" using E(1) assms(16,17) by (simp add: receive_payload_def conn_at_eq y1_def)
  obtain z where z: "conn_mem H c = Some z" "owner z = owner y2" "c_rcv_nxt z = c_rcv_nxt y2" "c_close_notified z = c_close_notified y2"
    using ack_data_conn [OF G] unfolding H_def by blast
  have H: "w_conns H k = Some x1" using x1(1) by (simp add: H_def stack_frame)
  have "\<not> ack_advances y1 (sg_ack sg)" "c_state y1 = TCPS_ESTABLISHED" using assms(2,15) by (simp_all add: y1_def ack_advances_def seq_gt_def)
  then have "conn_segment s5_app c sg w = established_fin s5_app c H"
    using assms(13,14) E(1) pay unfolding conn_segment_def Let_def E_def [symmetric] by (simp add: conn_at_eq established_ack_def)
  moreover have "c_userdata z = k" "c_on_close z = Some q" "\<not> c_close_notified z" using z y2 by (auto simp: owner_def)
  ultimately show ?thesis using fin_closes [OF z(1) _ _ assms(6) _ H x1(3)] z(3) x1(2) y2(6) by fastforce
qed

text \<open>The last three bytes of a stream.\<close>

definition s5_ending :: world where
  "s5_ending = s5_world1\<lparr>conn_mem := [7 \<mapsto> conn_zero\<lparr>c_state := TCPS_ESTABLISHED, c_rcv_nxt := 100, c_on_data := Some WG_ON_DATA, c_on_close := Some WG_ON_CLOSE,
     c_userdata := 1\<rparr>], w_conns := [1 \<mapsto> socks5_conn_zero\<lparr>s_state := S5_ESTABLISHED, s_wg_conn := Some 7, s_written := [9]\<rparr>]\<rparr>"

definition s5_last_segment :: tcp_segment where
  "s5_last_segment = \<lparr>sg_family = AF_INET, sg_src = [], sg_dst = [], sg_src_port = 80, sg_dst_port = 40000, sg_seq = 100, sg_ack = 0, sg_window = 1000,
     sg_flags = TCPF_FIN OR TCPF_ACK, sg_options = [], sg_payload = [1, 2, 3]\<rparr>"

theorem socks5_fin_truncates_witness:
  "\<exists>x' y'. w_conns (conn_segment s5_app 7 s5_last_segment s5_ending) 1 = Some x' \<and> s_write_state x' = S5W_CLOSED \<and> s_written x' = [9] \<and>
    conn_mem (conn_segment s5_app 7 s5_last_segment s5_ending) 7 = Some y' \<and> c_rcv_nxt y' = 104"
proof -
  let ?y = "conn_zero\<lparr>c_state := TCPS_ESTABLISHED, c_rcv_nxt := 100, c_on_data := Some WG_ON_DATA, c_on_close := Some WG_ON_CLOSE, c_userdata := 1\<rparr>"
  let ?x = "socks5_conn_zero\<lparr>s_state := S5_ESTABLISHED, s_wg_conn := Some 7, s_written := [9]\<rparr>"
  have "\<exists>x' y'. w_conns (conn_segment s5_app 7 s5_last_segment s5_ending) 1 = Some x' \<and> s_write_state x' = S5W_CLOSED \<and> s_written x' = s_written ?x \<and>
      conn_mem (conn_segment s5_app 7 s5_last_segment s5_ending) 7 = Some y' \<and> c_rcv_nxt y' = c_rcv_nxt ?y + of_nat (length (sg_payload s5_last_segment)) + 1"
    by (rule socks5_fin_truncates) (simp_all add: s5_ending_def s5_last_segment_def socks5_conn_zero_def conn_zero_def flag_def tcpf_defs)
  then show ?thesis by (simp add: s5_last_segment_def)
qed

section \<open>The DNS cache\<close>

text \<open>A use of the cache: a store of an address, or a lookup.\<close>

definition dns_use :: "bytes \<times> bytes option \<times> u64 \<Rightarrow> socks5_server \<Rightarrow> socks5_server" where
  "dns_use u srv = (case u of (d, Some ip, t) \<Rightarrow> dns_cache_store srv d ip t | (d, None, t) \<Rightarrow> snd (dns_cache_lookup srv d t))"

text \<open>Every valid entry goes back to a store.\<close>

definition stored :: "(bytes \<times> bytes option \<times> u64) set \<Rightarrow> dns_cache_entry \<Rightarrow> bool" where
  "stored H e \<longleftrightarrow> (de_valid e \<longrightarrow> (\<exists>d t. (d, Some (de_ip e), t) \<in> H \<and> de_domain e = take 255 d \<and> de_expires_at_ms e = t + SOCKS5_DNS_TTL_MS))"

lemma stored_mono: "stored H e \<Longrightarrow> H \<subseteq> K \<Longrightarrow> stored K e"
  unfolding stored_def by blast

lemma stored_upd [simp]: "stored H (e\<lparr>de_valid := False\<rparr>)" "stored H (e\<lparr>de_last_used_ms := n\<rparr>) = stored H e"
  by (simp_all add: stored_def)

lemma find_stored: "\<forall>e \<in> set es. stored H e \<Longrightarrow> cache_find now d es = (r, es') \<Longrightarrow> (\<forall>e \<in> set es'. stored H e) \<and> length es' = length es"
  by (induction es arbitrary: r es') (auto split: if_splits prod.splits)

lemma find_hit: "cache_find now d es = (Some ip, es') \<Longrightarrow> \<exists>e \<in> set es. de_valid e \<and> now < de_expires_at_ms e \<and> de_domain e = d \<and> de_ip e = ip"
  by (induction es arbitrary: es') (auto split: if_splits prod.splits)

lemma find_at:
  assumes "n < length es" "\<forall>j < n. \<not> (de_valid (es ! j) \<and> de_domain (es ! j) = d)"
    and "de_valid (es ! n)" "de_domain (es ! n) = d" "now < de_expires_at_ms (es ! n)"
  shows "fst (cache_find now d es) = Some (de_ip (es ! n))"
  using assms
proof (induction es arbitrary: n)
  case (Cons e es)
  show ?case
  proof (cases n)
    case 0
    then show ?thesis using Cons.prems by auto
  next
    case (Suc m)
    have "\<forall>j < m. \<not> (de_valid (es ! j) \<and> de_domain (es ! j) = d)" using Cons.prems(2) Suc by (auto dest: spec [of _ "Suc _"])
    then have "fst (cache_find now d es) = Some (de_ip (es ! m))" using Cons.IH [of m] Cons.prems Suc by simp
    moreover have "\<not> (de_valid e \<and> de_domain e = d)" using Cons.prems(2) Suc by auto
    ultimately show ?thesis using Suc by (auto split: prod.splits)
  qed
qed simp

lemma slot_spec:
  assumes "cache_slot now d i old es = (slot, es')"
  shows "length es' = length es \<and> (slot = fst old \<or> i \<le> slot \<and> slot < i + length es) \<and>
    (\<forall>j < length es'. i + j < slot \<longrightarrow> \<not> (de_valid (es' ! j) \<and> de_domain (es' ! j) = d)) \<and> ((\<forall>e \<in> set es. stored H e) \<longrightarrow> (\<forall>e \<in> set es'. stored H e))"
  using assms
proof (induction now d i old es arbitrary: slot es' rule: cache_slot.induct)
  case (2 now d i old e es)
  define e1 where "e1 = (if de_valid e \<and> de_expires_at_ms e \<le> now then e\<lparr>de_valid := False\<rparr> else e)"
  define o1 where "o1 = (if de_last_used_ms e1 < snd old then (i, de_last_used_ms e1) else old)"
  have s: "stored H e \<Longrightarrow> stored H e1" by (simp add: e1_def)
  show ?case
  proof (cases "\<not> de_valid e1 \<or> de_domain e1 = d")
    case True
    then have "slot = i" "es' = e1 # es" using 2(2) by (simp_all add: e1_def [symmetric] Let_def)
    then show ?thesis using s by auto
  next
    case False
    obtain sl es1 where r: "cache_slot now d (i + 1) o1 es = (sl, es1)" by fastforce
    have e: "slot = sl" "es' = e1 # es1" using 2(2) False r unfolding o1_def e1_def by (simp_all add: Let_def)
    have ih: "length es1 = length es \<and> (sl = fst o1 \<or> i + 1 \<le> sl \<and> sl < i + 1 + length es) \<and>
        (\<forall>j < length es1. i + 1 + j < sl \<longrightarrow> \<not> (de_valid (es1 ! j) \<and> de_domain (es1 ! j) = d)) \<and> ((\<forall>e \<in> set es. stored H e) \<longrightarrow> (\<forall>e \<in> set es1. stored H e))"
      using False r unfolding o1_def e1_def by (intro 2(1)) (simp_all add: Let_def)
    have o: "fst o1 = i \<or> fst o1 = fst old" by (simp add: o1_def)
    have "\<not> (de_valid ((e1 # es1) ! j) \<and> de_domain ((e1 # es1) ! j) = d)" if "j < Suc (length es1)" "i + j < sl" for j
      using that ih False by (cases j) simp_all
    moreover have "sl = fst old \<or> i \<le> sl \<and> sl < i + Suc (length es)" using ih o by linarith
    ultimately show ?thesis using ih s unfolding e by simp
  qed
qed simp

lemma store_cache:
  assumes "sv_dns_cache_enabled srv" "length (sv_dns_cache srv) = SOCKS5_DNS_CACHE_SIZE"
  obtains slot es where "dns_cache_store srv d ip t = srv\<lparr>sv_dns_cache := es[slot := \<lparr>de_valid = True, de_ip = ip, de_expires_at_ms = t + SOCKS5_DNS_TTL_MS,
      de_last_used_ms = t, de_domain = take 255 d\<rparr>]\<rparr>"
    "length es = SOCKS5_DNS_CACHE_SIZE" "slot < SOCKS5_DNS_CACHE_SIZE" "\<forall>j < slot. \<not> (de_valid (es ! j) \<and> de_domain (es ! j) = d)"
    "(\<forall>e \<in> set (sv_dns_cache srv). stored H e) \<longrightarrow> (\<forall>e \<in> set es. stored H e)"
proof -
  obtain slot es where r: "cache_slot t d 0 (0, de_last_used_ms (sv_dns_cache srv ! 0)) (sv_dns_cache srv) = (slot, es)" by fastforce
  have 0: "0 < SOCKS5_DNS_CACHE_SIZE" by (simp add: SOCKS5_DNS_CACHE_SIZE_def)
  have "dns_cache_store srv d ip t = srv\<lparr>sv_dns_cache := es[slot := \<lparr>de_valid = True, de_ip = ip, de_expires_at_ms = t + SOCKS5_DNS_TTL_MS,
      de_last_used_ms = t, de_domain = take 255 d\<rparr>]\<rparr>" using assms(1) r by (simp add: dns_cache_store_def)
  then show thesis using that [of es slot] slot_spec [OF r, of H] assms(2) 0 by auto
qed

lemma dns_run:
  assumes "srv = fold dns_use ops (socks5_start u p env cares)"
  shows "length (sv_dns_cache srv) = SOCKS5_DNS_CACHE_SIZE \<and> sv_dns_cache_enabled srv = (env \<noteq> Some [48]) \<and> (\<forall>e \<in> set (sv_dns_cache srv). stored (set ops) e)"
  using assms
proof (induction ops arbitrary: srv rule: rev_induct)
  case Nil
  then show ?case by (simp add: socks5_start_def Let_def stored_def)
next
  case (snoc o1 ops)
  let ?s = "fold dns_use ops (socks5_start u p env cares)"
  obtain d v t where o: "o1 = (d, v, t)" by (cases o1)
  have i: "length (sv_dns_cache ?s) = SOCKS5_DNS_CACHE_SIZE" "sv_dns_cache_enabled ?s = (env \<noteq> Some [48])" "\<forall>e \<in> set (sv_dns_cache ?s). stored (set (ops @ [o1])) e"
    using snoc.IH [OF refl] by (auto intro: stored_mono)
  have srv: "srv = dns_use o1 ?s" using snoc.prems by simp
  show ?case
  proof (cases v)
    case None
    then show ?thesis using i find_stored [OF i(3), of t d] unfolding srv o by (auto simp: dns_use_def dns_cache_lookup_def split: prod.splits)
  next
    case (Some ip)
    show ?thesis
    proof (cases "sv_dns_cache_enabled ?s")
      case True
      obtain slot es where s: "dns_cache_store ?s d ip t = ?s\<lparr>sv_dns_cache := es[slot := \<lparr>de_valid = True, de_ip = ip, de_expires_at_ms = t + SOCKS5_DNS_TTL_MS,
          de_last_used_ms = t, de_domain = take 255 d\<rparr>]\<rparr>" "length es = SOCKS5_DNS_CACHE_SIZE" "\<forall>e \<in> set es. stored (set (ops @ [o1])) e"
        using store_cache [OF True i(1), of d ip t "set (ops @ [o1])"] i(3) by metis
      have "stored (set (ops @ [o1])) \<lparr>de_valid = True, de_ip = ip, de_expires_at_ms = t + SOCKS5_DNS_TTL_MS, de_last_used_ms = t, de_domain = take 255 d\<rparr>"
        using Some o by (auto simp: stored_def)
      then show ?thesis using i(2) s Some unfolding srv o using set_update_subset_insert [of es slot]
        by (fastforce simp: dns_use_def)
    next
      case False
      then show ?thesis using i Some unfolding srv o by (simp add: dns_use_def dns_cache_store_def)
    qed
  qed
qed

text \<open>\<^bold>\<open>C32\<close> The DNS cache answers with nothing else than what was stored: after any sequence of stores and lookups on a started server, an address that
  a lookup returns was stored for this name less than the lifetime of an entry ago, and right after an address has been stored, whichever entry was
  replaced, a lookup within the lifetime returns it.\<close>

theorem socks5_dns_cache:
  assumes "srv = fold dns_use ops (socks5_start u p env cares)"
  shows "(\<forall>ip. fst (dns_cache_lookup srv d now) = Some ip \<longrightarrow> (\<exists>d' t. (d', Some ip, t) \<in> set ops \<and> take 255 d' = d \<and> now < t + SOCKS5_DNS_TTL_MS)) \<and>
    (\<forall>ip t. env \<noteq> Some [48] \<and> length d \<le> 255 \<and> now < t + SOCKS5_DNS_TTL_MS \<longrightarrow> fst (dns_cache_lookup (dns_cache_store srv d ip t) d now) = Some ip)"
proof (intro conjI allI impI)
  have i: "length (sv_dns_cache srv) = SOCKS5_DNS_CACHE_SIZE" "sv_dns_cache_enabled srv = (env \<noteq> Some [48])" "\<forall>e \<in> set (sv_dns_cache srv). stored (set ops) e"
    using dns_run [OF assms] by simp_all
  show "\<exists>d' t. (d', Some ip, t) \<in> set ops \<and> take 255 d' = d \<and> now < t + SOCKS5_DNS_TTL_MS" if h: "fst (dns_cache_lookup srv d now) = Some ip" for ip
  proof -
    obtain es where "cache_find now d (sv_dns_cache srv) = (Some ip, es)" using h
      by (cases "cache_find now d (sv_dns_cache srv)") (auto simp: dns_cache_lookup_def split: if_splits)
    from find_hit [OF this] obtain e where "e \<in> set (sv_dns_cache srv)" "de_valid e" "now < de_expires_at_ms e" "de_domain e = d" "de_ip e = ip" by blast
    then show ?thesis using i(3) unfolding stored_def by metis
  qed
  show "fst (dns_cache_lookup (dns_cache_store srv d ip t) d now) = Some ip" if h: "env \<noteq> Some [48] \<and> length d \<le> 255 \<and> now < t + SOCKS5_DNS_TTL_MS" for ip t
  proof -
    have en: "sv_dns_cache_enabled srv" using i(2) h by simp
    let ?e = "\<lparr>de_valid = True, de_ip = ip, de_expires_at_ms = t + SOCKS5_DNS_TTL_MS, de_last_used_ms = t, de_domain = take 255 d\<rparr>"
    obtain slot es where s: "dns_cache_store srv d ip t = srv\<lparr>sv_dns_cache := es[slot := ?e]\<rparr>" "length es = SOCKS5_DNS_CACHE_SIZE" "slot < SOCKS5_DNS_CACHE_SIZE"
        "\<forall>j < slot. \<not> (de_valid (es ! j) \<and> de_domain (es ! j) = d)"
      using store_cache [OF en i(1), of d ip t "set ops"] by metis
    have "fst (cache_find now d (es[slot := ?e])) = Some (de_ip (es[slot := ?e] ! slot))" by (rule find_at) (use s h in auto)
    then show ?thesis using s en by (simp add: dns_cache_lookup_def case_prod_beta)
  qed
qed

theorem socks5_dns_cache_witness:
  "fst (dns_cache_lookup (fold dns_use [([97], Some [10, 0, 0, 1], 5), ([98], None, 6)] (socks5_start None None None False)) [97] 7) = Some [10, 0, 0, 1] \<and>
   (\<exists>d' t. (d', Some [10, 0, 0, 1], t) \<in> set [([97 :: u8], Some [10, 0, 0, 1 :: u8], 5), ([98], None, 6)] \<and> take 255 d' = [97] \<and> 7 < t + SOCKS5_DNS_TTL_MS) \<and>
   fst (dns_cache_lookup (dns_cache_store (fold dns_use [([97], Some [10, 0, 0, 1], 5), ([98], None, 6)] (socks5_start None None None False)) [98] [10, 0, 0, 2] 8) [98] 9) =
     Some [10, 0, 0, 2]"
proof -
  have l: "fst (dns_cache_lookup (fold dns_use [([97], Some [10, 0, 0, 1], 5), ([98], None, 6)] (socks5_start None None None False)) [97] 7) = Some [10, 0, 0, 1]"
    by code_simp
  show ?thesis using l socks5_dns_cache [OF refl, of "[([97], Some [10, 0, 0, 1], 5), ([98], None, 6)]" None None None False "[97]" 7]
      socks5_dns_cache [OF refl, of "[([97], Some [10, 0, 0, 1], 5), ([98], None, 6)]" None None None False "[98]" 9]
    by (simp add: SOCKS5_DNS_TTL_MS_def)
qed

end
