(* ===== verification/Socks5_Upload.thy ===== *)
theory Socks5_Upload
  imports Socks5_Data
begin

text \<open>
  The upload direction of the proxy: what a client sends goes through the circular buffer of pending bytes into the send buffer of its
  connection. The stream is the content of the two buffers, in the order in which the tunnel will carry it.
\<close>

section \<open>Handing bytes to the stack\<close>

text \<open>A connection that takes data, and the part of it that matters for that.\<close>

definition sending :: "tcp_conn \<Rightarrow> bool" where
  "sending y \<longleftrightarrow> sendbuf_inv y \<and> c_state y = TCPS_ESTABLISHED \<and> \<not> c_being_freed y"

definition send_view :: "tcp_conn \<Rightarrow> tcp_state \<times> bool \<times> bytes \<times> nat \<times> nat \<times> nat" where
  "send_view y = (c_state y, c_being_freed y, c_sendbuf y, c_sendbuf_cap y, c_sendbuf_head y, c_sendbuf_len y)"

lemma send_viewD: "send_view z = send_view y \<Longrightarrow> sending z = sending y \<and> unacked z = unacked y \<and> c_sendbuf_len z = c_sendbuf_len y"
  by (simp add: send_view_def sending_def sendbuf_inv_def unacked_def)

lemma send_plan_upload [simp]: "conn_mem (send_plan app c fl pl w) = conn_mem w" "ts_malloc (send_plan app c fl pl w) = ts_malloc w"
  unfolding send_plan_def by (induction pl arbitrary: w) (auto simp: send_segment_def Let_def)

lemma upd_conn_malloc [simp]: "ts_malloc (upd_conn c f w) = ts_malloc w"
  by (simp add: upd_conn_def)

lemma flush_view:
  assumes "conn_mem w c = Some y"
  shows "\<exists>z. conn_mem (tcp_flush_pending app c w) c = Some z \<and> send_view z = send_view y" "ts_malloc (tcp_flush_pending app c w) = ts_malloc w"
    "\<exists>z. conn_mem (schedule_flush c w) c = Some z \<and> send_view z = send_view y" "ts_malloc (schedule_flush c w) = ts_malloc w"
  using assms by (auto simp: tcp_flush_pending_def schedule_flush_def Let_def send_view_def)

text \<open>What \<^verbatim>\<open>tcp_send\<close> takes goes behind the bytes in the send buffer; it fails only without memory.\<close>

lemma send_spec:
  assumes "conn_mem w c = Some y" "sending y" "d \<noteq> []" "length d \<le> tcp_send_available y" "tcp_send app c d w = (r, w')"
  shows "r = -1 \<and> conn_mem w' c = Some y \<and> \<not> (\<forall>i. ts_malloc w i) \<or>
    r = 0 \<and> (\<exists>z. conn_mem w' c = Some z \<and> sending z \<and> unacked z = unacked y @ d) \<and> ((\<forall>i. ts_malloc w i) \<longrightarrow> (\<forall>i. ts_malloc w' i))"
proof -
  have y: "sendbuf_inv y" "c_state y = TCPS_ESTABLISHED" "\<not> c_being_freed y" using assms(2) by (simp_all add: sending_def)
  let ?n = "c_sendbuf_len y + length d"
  have n: "?n \<le> WG_TCP_SENDBUF_SIZE" "length d \<le> 2 ^ 32 - 1" using assms(4) y by (auto simp: tcp_send_available_def sendbuf_inv_def WG_TCP_SENDBUF_SIZE_def)
  obtain ok E where E: "(if ?n \<le> c_sendbuf_cap y then (True, w) else ts_alloc w) = (ok, E)" by fastforce
  have e: "conn_mem E = conn_mem w" "(\<forall>i. ts_malloc w i) \<Longrightarrow> ok \<and> (\<forall>i. ts_malloc E i)" using E by (auto simp: ts_alloc_def split: if_splits)
  obtain r' z where g: "sendbuf_grow ok ?n y = (r', z)" "r' = 0 \<or> r' = -1 \<and> z = y \<and> \<not> ok" "sendbuf_inv z" "unacked z = unacked y" "r' = 0 \<longrightarrow> ?n \<le> c_sendbuf_cap z"
      "\<exists>b c h. z = y\<lparr>c_sendbuf := b, c_sendbuf_cap := c, c_sendbuf_head := h\<rparr>"
    using sendbuf_grow_spec [OF y(1) n(1), of ok] by blast
  let ?D = "upd_conn c (\<lambda>_. sendbuf_append d z) E"
  have s: "tcp_send app c d w = (if r' < 0 then (-1, E) else
      (0, if length d \<ge> WG_TCP_MSS \<or> c_sendbuf_len (conn_at ?D c) \<ge> WG_TCP_MSS then tcp_flush_pending app c ?D else schedule_flush c ?D))"
    unfolding tcp_send_def conn_at_eq [OF assms(1)] Let_def E using y n assms(1,3) e(1) g(1) by (simp add: conn_at_def)
  show ?thesis
  proof (cases "r' = 0")
    case False
    then show ?thesis using g(2) s assms(1,5) e by auto
  next
    case True
    have len: "c_sendbuf_len z = c_sendbuf_len y" using g(6) by auto
    have a: "sending (sendbuf_append d z)" "unacked (sendbuf_append d z) = unacked y @ d"
      using sendbuf_append_spec [OF g(3), of d] g(4-6) True len y by (auto simp: sending_def sendbuf_append_def Let_def)
    have D: "conn_mem ?D c = Some (sendbuf_append d z)" using assms(1) e(1) by simp
    have "w' = tcp_flush_pending app c ?D \<or> w' = schedule_flush c ?D" "r = 0" using assms(5) s True by (auto split: if_splits)
    moreover from this(1) obtain v where "conn_mem w' c = Some v" "send_view v = send_view (sendbuf_append d z)" "ts_malloc w' = ts_malloc E"
      using flush_view(1,2) [OF D, of app] flush_view(3,4) [OF D] by auto
    ultimately show ?thesis using a e(2) send_viewD by metis
  qed
qed

section \<open>The loop\<close>

lemma pending_loop_spec:
  assumes "w_conns w k = Some x" "pending_wf x" "conn_mem w c = Some y" "sending y" "s_pending_len x \<le> fuel"
  shows "\<exists>x' y'. w_conns (flush_pending_loop fuel k c w) k = Some x' \<and> pending_wf x' \<and> pending_only x x' \<and> conn_mem (flush_pending_loop fuel k c w) c = Some y' \<and>
    sending y' \<and> unacked y' @ pending x' = unacked y @ pending x \<and> ((\<forall>i. ts_malloc w i) \<longrightarrow> s_pending_len x' = 0 \<or> tcp_send_available y' = 0)"
  using assms
proof (induction fuel arbitrary: w x y)
  case (Suc fuel)
  note at = sc_at_eq [OF Suc.prems(1)] conn_at_eq [OF Suc.prems(3)]
  show ?case
  proof (cases "s_pending_len x = 0 \<or> tcp_send_available y = 0")
    case True
    then have "flush_pending_loop (Suc fuel) k c w = w" by (simp add: at)
    then show ?thesis using Suc.prems True by (intro exI [of _ x] exI [of _ y]) auto
  next
    case False
    define n where "n = min (pending_contiguous_len x) (tcp_send_available y)"
    let ?d = "slice (s_pending_head x) n (s_pending_data x)"
    have n: "n \<le> pending_contiguous_len x" "n \<le> tcp_send_available y" "0 < n"
      using False Suc.prems(2) by (auto simp: n_def pending_contiguous_len_def pending_wf_def split: if_splits)
    have d: "?d = take n (pending x)" "n \<le> s_pending_len x" using pending_front [OF Suc.prems(2) n(1)] by simp_all
    then have dn: "?d \<noteq> []" "length ?d \<le> tcp_send_available y" using n(2,3) False by (auto simp: pending_Nil)
    obtain r w1 where s: "tcp_send inner_app c ?d w = (r, w1)" by fastforce
    have w1: "w_conns w1 = w_conns w" using stack_frame(7) [of inner_app c ?d w] s by simp
    have loop: "flush_pending_loop (Suc fuel) k c w = (if r < 0 then w1 else flush_pending_loop fuel k c (upd_sc k (pending_consume n) w1))"
      using False s by (simp add: at n_def [symmetric] Let_def)
    from send_spec [OF Suc.prems(3,4) dn s] show ?thesis
    proof
      assume a: "r = -1 \<and> conn_mem w1 c = Some y \<and> \<not> (\<forall>i. ts_malloc w i)"
      then show ?thesis using Suc.prems w1 unfolding loop by (intro exI [of _ x] exI [of _ y]) auto
    next
      assume a: "r = 0 \<and> (\<exists>z. conn_mem w1 c = Some z \<and> sending z \<and> unacked z = unacked y @ ?d) \<and> ((\<forall>i. ts_malloc w i) \<longrightarrow> (\<forall>i. ts_malloc w1 i))"
      then obtain z where z: "conn_mem w1 c = Some z" "sending z" "unacked z = unacked y @ ?d" by blast
      let ?E = "upd_sc k (pending_consume n) w1" and ?x = "pending_consume n x"
      note c = pending_consume_spec [OF Suc.prems(2) d(2)]
      have E: "w_conns ?E k = Some ?x" "conn_mem ?E c = Some z" "ts_malloc ?E = ts_malloc w1" using Suc.prems(1) w1 z(1) by (simp_all add: upd_sc_def)
      have "length (pending ?x) = s_pending_len x - n" unfolding c(2) by simp
      then have f: "s_pending_len ?x \<le> fuel" using Suc.prems(5) n(3) by simp
      have "unacked z @ pending ?x = unacked y @ pending x" unfolding z(3) c(2) d(1) by simp
      then show ?thesis unfolding loop using Suc.IH [OF E(1) c(1) E(2) z(2) f] a E(3) pending_only_trans [OF c(3)] by fastforce
    qed
  qed
qed auto

text \<open>A client with its connection, both fit for sending; the bytes on their way, in order.\<close>

definition uplink :: "sc_ref \<Rightarrow> conn_ref \<Rightarrow> world \<Rightarrow> bool" where
  "uplink k c w \<longleftrightarrow> (\<exists>x y. w_conns w k = Some x \<and> s_wg_conn x = Some c \<and> s_state x = S5_ESTABLISHED \<and> pending_wf x \<and> conn_mem w c = Some y \<and> sending y)"

definition upstream :: "sc_ref \<Rightarrow> conn_ref \<Rightarrow> world \<Rightarrow> bytes" where
  "upstream k c w = unacked (conn_at w c) @ pending (sc_at w k)"

lemma uplinkI: "w_conns w k = Some x \<Longrightarrow> s_wg_conn x = Some c \<Longrightarrow> s_state x = S5_ESTABLISHED \<Longrightarrow> pending_wf x \<Longrightarrow> conn_mem w c = Some y \<Longrightarrow> sending y \<Longrightarrow> uplink k c w"
  by (auto simp: uplink_def)

lemma flush_upstream:
  assumes "uplink k c w"
  shows "uplink k c (flush_pending_to_wg k w) \<and> upstream k c (flush_pending_to_wg k w) = upstream k c w \<and>
    ((\<forall>i. ts_malloc w i) \<longrightarrow> s_pending_len (sc_at (flush_pending_to_wg k w) k) = 0 \<or> tcp_send_available (conn_at (flush_pending_to_wg k w) c) = 0)"
proof -
  obtain x y where x: "w_conns w k = Some x" "s_wg_conn x = Some c" "s_state x = S5_ESTABLISHED" "pending_wf x" and y: "conn_mem w c = Some y" "sending y"
    using assms by (auto simp: uplink_def)
  show ?thesis
  proof (cases "s_pending_len x = 0")
    case True
    then have "flush_pending_to_wg k w = w" using x by (simp add: flush_pending_to_wg_def sc_at_eq)
    then show ?thesis using assms True x(1) by (simp add: sc_at_eq)
  next
    case False
    let ?L = "flush_pending_loop (s_pending_len x) k c w"
    obtain x' y' where l: "w_conns ?L k = Some x'" "pending_wf x'" "pending_only x x'" "conn_mem ?L c = Some y'" "sending y'"
        "unacked y' @ pending x' = unacked y @ pending x" "(\<forall>i. ts_malloc w i) \<longrightarrow> s_pending_len x' = 0 \<or> tcp_send_available y' = 0"
      using pending_loop_spec [OF x(1,4) y order_refl] by blast
    have o: "s_wg_conn x' = Some c" "s_state x' = S5_ESTABLISHED" using pending_onlyD [OF l(3)] x by simp_all
    have u: "upstream k c w = unacked y @ pending x" using x(1) y(1) by (simp add: upstream_def sc_at_eq conn_at_eq)
    define F where "F = flush_pending_to_wg k w"
    have "\<exists>x2. w_conns F k = Some x2 \<and> s_wg_conn x2 = Some c \<and> s_state x2 = S5_ESTABLISHED \<and> pending_wf x2 \<and> pending x2 = pending x' \<and> s_pending_len x2 = s_pending_len x'"
      using l(1,2) o x False unfolding F_def flush_pending_to_wg_def
      by (auto simp: sc_at_eq Let_def pending_wf_def pending_def)
    then obtain x2 where x2: "w_conns F k = Some x2" "s_wg_conn x2 = Some c" "s_state x2 = S5_ESTABLISHED" "pending_wf x2" "pending x2 = pending x'" "s_pending_len x2 = s_pending_len x'" by blast
    have m: "conn_mem F c = Some y'" using l(4) x False unfolding F_def flush_pending_to_wg_def by (simp add: sc_at_eq Let_def)
    show ?thesis unfolding F_def [symmetric] u using uplinkI [OF x2(1-4) m l(5)] x2 m l(6,7) by (simp add: upstream_def sc_at_eq conn_at_eq)
  qed
qed

section \<open>Reading from the client\<close>

lemma append_client:
  assumes "w_conns w k = Some x" "pending_wf x" "\<forall>i. ts_malloc w i" "s_pending_len x + length d \<le> SOCKS5_PENDING_LIMIT"
  shows "\<exists>w' x'. sc_pending_append k d w = (0, w') \<and> conn_mem w' = conn_mem w \<and> w_conns w' k = Some x' \<and> pending_wf x' \<and> pending x' = pending x @ d \<and> pending_only x x'"
proof -
  obtain ok E where E: "(if d = [] \<or> s_pending_len x + length d > SOCKS5_PENDING_LIMIT \<or> s_pending_len x + length d \<le> s_pending_cap x then (True, w) else ts_alloc w) = (ok, E)"
    by fastforce
  then have e: "ok" "conn_mem E = conn_mem w" "w_conns E = w_conns w" using assms(3) by (auto simp: ts_alloc_def split: if_splits)
  obtain x' where a: "pending_append ok d x = (0, x')" "pending_wf x'" "pending x' = pending x @ d" "pending_only x x'"
    using pending_append_spec [OF assms(2), of ok d] e(1) assms(4) by auto
  have "sc_pending_append k d w = (0, upd_sc k (\<lambda>_. x') E)" using E a(1) assms(1) by (simp add: sc_pending_append_def sc_at_eq Let_def)
  then show ?thesis using a e assms(1) by auto
qed

text \<open>Where new bytes go: as many as fit into the send buffer, the rest behind the pending ones.\<close>

lemma read_upstream:
  assumes x: "w_conns w k = Some x" "s_wg_conn x = Some c" "s_state x = S5_ESTABLISHED" "pending_wf x" and y: "conn_mem w c = Some y" "sending y"
    and m: "\<forall>i. ts_malloc w i" "s_pending_len x + length d \<le> SOCKS5_PENDING_LIMIT"
  shows "uplink k c (client_read_established k d w) \<and>
    upstream k c (client_read_established k d w) = unacked y @ take (tcp_send_available y) d @ pending x @ drop (tcp_send_available y) d"
proof -
  define n where "n = min (length d) (tcp_send_available y)"
  have td: "take (tcp_send_available y) d = take n d" "drop (tcp_send_available y) d = drop n d" by (auto simp: n_def min_def)
  obtain r A where A: "(if n > 0 then tcp_send inner_app c (take n d) w else (0, w)) = (r, A)" by fastforce
  have "w_conns A = w_conns w" using A stack_frame(7) [of inner_app c "take n d" w] by (auto split: if_splits)
  then have xA: "w_conns A k = Some x" using x(1) by simp
  have "r = 0 \<and> (\<exists>z. conn_mem A c = Some z \<and> sending z \<and> unacked z = unacked y @ take n d) \<and> (\<forall>i. ts_malloc A i)"
  proof (cases "n > 0")
    case True
    then show ?thesis using send_spec [OF y, of "take n d" inner_app r A] A m(1) by (auto simp: n_def)
  qed (use A y m in auto)
  then obtain z where z: "r = 0" "conn_mem A c = Some z" "sending z" "unacked z = unacked y @ take n d" and mA: "\<forall>i. ts_malloc A i" by blast
  have l: "s_pending_len x + length (drop n d) \<le> SOCKS5_PENDING_LIMIT" using m(2) by simp
  obtain B x' where B: "sc_pending_append k (drop n d) A = (0, B)" "conn_mem B = conn_mem A" "w_conns B k = Some x'" "pending_wf x'" "pending x' = pending x @ drop n d" "pending_only x x'"
    using append_client [OF xA x(4) mA l] by blast
  define D where "D = (if n < length d then B else A)"
  have D: "\<exists>x2. w_conns D k = Some x2 \<and> pending_wf x2 \<and> pending x2 = pending x @ drop n d \<and> pending_only x x2" "conn_mem D c = Some z"
    using B xA x(4) z(2) by (auto simp: D_def)
  have rd: "client_read_established k d w = (if s_pending_len (sc_at D k) > 0 \<or> c_sendbuf_len (conn_at D c) > WG_TCP_SENDBUF_SIZE * 3 div 4
      then upd_sc k (\<lambda>x. x\<lparr>s_reading := False, s_client_paused := True\<rparr>) D else D)"
    unfolding client_read_established_def sc_at_eq [OF x(1)] x(2,3) option.case conn_at_eq [OF y(1)] n_def [symmetric] Let_def A prod.case z(1)
    using B(1) by (simp add: D_def)
  obtain x2 where x2: "w_conns D k = Some x2" "pending_wf x2" "pending x2 = pending x @ drop n d" "pending_only x x2" using D(1) by blast
  have o: "s_wg_conn x2 = Some c" "s_state x2 = S5_ESTABLISHED" using pending_onlyD [OF x2(4)] x by simp_all
  have p: "pending_wf (x2\<lparr>s_reading := False, s_client_paused := True\<rparr>)" "pending (x2\<lparr>s_reading := False, s_client_paused := True\<rparr>) = pending x2"
    using x2(2) by (simp_all add: pending_wf_def pending_def)
  have u: "uplink k c D" "upstream k c D = unacked y @ take n d @ pending x @ drop n d"
    using uplinkI [OF x2(1) o x2(2) D(2) z(3)] x2(1,3) D(2) z(4) by (simp_all add: upstream_def sc_at_eq conn_at_eq)
  let ?P = "upd_sc k (\<lambda>x. x\<lparr>s_reading := False, s_client_paused := True\<rparr>) D"
  have P: "w_conns ?P k = Some (x2\<lparr>s_reading := False, s_client_paused := True\<rparr>)" "conn_mem ?P c = Some z" using x2(1) D(2) by simp_all
  then have "uplink k c ?P" "upstream k c ?P = unacked y @ take n d @ pending x @ drop n d"
    using uplinkI [OF P(1) _ _ p(1) P(2) z(3)] o p(2) x2(3) z(4) by (simp_all add: upstream_def sc_at_eq conn_at_eq)
  then show ?thesis unfolding rd td using u by simp
qed

text \<open>New bytes overtake the pending ones when there are such and the send buffer has room. This happens after the client has sent more than the send buffer
  holds before the connection was there: the flush on connecting then leaves bytes pending without pausing the client.\<close>

lemma upload_overtakes:
  assumes "w_conns w k = Some x" "s_wg_conn x = Some c" "s_state x = S5_ESTABLISHED" "pending_wf x" "conn_mem w c = Some y" "sending y"
    and "\<forall>i. ts_malloc w i" "s_pending_len x + length d \<le> SOCKS5_PENDING_LIMIT" "length d \<le> tcp_send_available y"
  shows "upstream k c (client_read_established k d w) = unacked y @ d @ pending x"
  using read_upstream [OF assms(1-8)] assms(9) by simp

section \<open>Property\<close>

text \<open>\<^bold>\<open>C7\<close> Upload in order: flushing the pending bytes of a client into its connection neither loses nor reorders a byte, and, when no allocation fails, ends
  with nothing pending or with a full send buffer; bytes that the client sends while nothing is pending, or while the send buffer is full, go to the end
  of the stream.\<close>

theorem socks5_upload_order:
  assumes "uplink k c w"
  shows "upstream k c (flush_pending_to_wg k w) = upstream k c w \<and>
    ((\<forall>i. ts_malloc w i) \<longrightarrow> s_pending_len (sc_at (flush_pending_to_wg k w) k) = 0 \<or> tcp_send_available (conn_at (flush_pending_to_wg k w) c) = 0) \<and>
    ((\<forall>i. ts_malloc w i) \<and> s_pending_len (sc_at w k) + length d \<le> SOCKS5_PENDING_LIMIT \<and> (s_pending_len (sc_at w k) = 0 \<or> tcp_send_available (conn_at w c) = 0) \<longrightarrow>
       upstream k c (client_read_established k d w) = upstream k c w @ d)"
proof (intro conjI impI)
  show "s_pending_len (sc_at (flush_pending_to_wg k w) k) = 0 \<or> tcp_send_available (conn_at (flush_pending_to_wg k w) c) = 0" if "\<forall>i. ts_malloc w i"
    using flush_upstream [OF assms] that by simp
  show "upstream k c (flush_pending_to_wg k w) = upstream k c w" using flush_upstream [OF assms] by simp
  assume h: "(\<forall>i. ts_malloc w i) \<and> s_pending_len (sc_at w k) + length d \<le> SOCKS5_PENDING_LIMIT \<and> (s_pending_len (sc_at w k) = 0 \<or> tcp_send_available (conn_at w c) = 0)"
  obtain x y where x: "w_conns w k = Some x" "s_wg_conn x = Some c" "s_state x = S5_ESTABLISHED" "pending_wf x" and y: "conn_mem w c = Some y" "sending y"
    using assms by (auto simp: uplink_def)
  have "pending x = [] \<or> tcp_send_available y = 0" using h x(1) y(1) by (simp add: sc_at_eq conn_at_eq pending_Nil)
  then show "upstream k c (client_read_established k d w) = upstream k c w @ d"
    using read_upstream [OF x y, of d] h x(1) y(1) by (auto simp: upstream_def sc_at_eq conn_at_eq)
qed

text \<open>A client with two pending bytes, whose connection has two bytes in its send buffer.\<close>

definition s5_uploading :: world where
  "s5_uploading = s5_world1\<lparr>ts_malloc := \<lambda>_. True,
     conn_mem := [7 \<mapsto> conn_zero\<lparr>c_state := TCPS_ESTABLISHED, c_userdata := 1, c_sendbuf := [1, 2, 0, 0], c_sendbuf_cap := 4, c_sendbuf_len := 2\<rparr>],
     w_conns := [1 \<mapsto> socks5_conn_zero\<lparr>s_state := S5_ESTABLISHED, s_wg_conn := Some 7, s_pending_data := [4, 3], s_pending_cap := 2, s_pending_head := 1, s_pending_len := 2\<rparr>]\<rparr>"

theorem socks5_upload_order_witness: "upstream 1 7 (flush_pending_to_wg 1 s5_uploading) = [1, 2, 3, 4]"
proof -
  have "uplink 1 7 s5_uploading"
    by (simp add: uplink_def s5_uploading_def pending_wf_def sending_def sendbuf_inv_def SOCKS5_PENDING_LIMIT_def WG_TCP_SENDBUF_SIZE_def conn_zero_def)
  then have "upstream 1 7 (flush_pending_to_wg 1 s5_uploading) = upstream 1 7 s5_uploading" using socks5_upload_order by blast
  also have "upstream 1 7 s5_uploading = [1, 2, 3, 4]"
    by (simp add: upstream_def s5_uploading_def conn_at_def sc_at_def unacked_def pending_def ring_def numeral_2_eq_2 conn_zero_def)
  finally show ?thesis .
qed

end
