(* ===== verification/Forward.thy ===== *)
theory Forward
  imports Socks5_Upload
begin

text \<open>
  The port forwarder (\<^verbatim>\<open>src/src/forward.c\<close>): connections that arrive through the tunnel are joined to TCP connections to a local target. Like the
  proxy it extends the state of the stack and is an application of it.
\<close>

section \<open>Constants and data\<close>

definition FORWARD_READ_BUFSIZE :: nat where "FORWARD_READ_BUFSIZE = 16384"
definition FORWARD_PENDING_LIMIT :: nat where "FORWARD_PENDING_LIMIT = 512 * 1024"

type_synonym fc_ref = nat

text \<open>\<open>f_pending_wg\<close> and \<open>f_pending_local\<close> are the used parts of the buffers. \<open>f_reading\<close> is the state of the libuv stream, \<open>f_written\<close> what
  \<^verbatim>\<open>uv_write\<close> has accepted, which no code reads.\<close>

record forward_conn =
  f_wg_conn :: "conn_ref option"
  f_target :: nat
  f_pending_wg :: bytes
  f_pending_wg_cap :: nat
  f_pending_local :: bytes
  f_pending_local_cap :: nat
  f_local_connected :: bool
  f_local_read_paused :: bool
  f_local_closing :: bool
  f_local_closed :: bool
  f_wg_closed :: bool
  f_closing :: bool
  f_reading :: bool
  f_written :: bytes

definition forward_conn_zero :: forward_conn where
  "forward_conn_zero = \<lparr>f_wg_conn = None, f_target = 0, f_pending_wg = [], f_pending_wg_cap = 0, f_pending_local = [], f_pending_local_cap = 0,
     f_local_connected = False, f_local_read_paused = False, f_local_closing = False, f_local_closed = False, f_wg_closed = False, f_closing = False,
     f_reading = False, f_written = []\<rparr>"

text \<open>\<open>fw_uv\<close> are the results of the coming calls of libuv that can fail.\<close>

record forward_world = tcpstack +
  fw_conns :: "fc_ref \<Rightarrow> forward_conn option"
  fw_brk :: nat
  fw_uv :: "nat \<Rightarrow> int"

definition fc_at :: "forward_world \<Rightarrow> fc_ref \<Rightarrow> forward_conn" where
  "fc_at w k = the (fw_conns w k)"

definition upd_fc :: "fc_ref \<Rightarrow> (forward_conn \<Rightarrow> forward_conn) \<Rightarrow> forward_world \<Rightarrow> forward_world" where
  "upd_fc k f w = w\<lparr>fw_conns := (fw_conns w)(k := map_option f (fw_conns w k))\<rparr>"

definition fw_uv_result :: "forward_world \<Rightarrow> int \<times> forward_world" where
  "fw_uv_result w = (fw_uv w 0, w\<lparr>fw_uv := \<lambda>i. fw_uv w (i + 1)\<rparr>)"

definition fc_user :: "conn_ref \<Rightarrow> forward_world \<Rightarrow> fc_ref" where
  "fc_user c w = (case conn_mem w c of None \<Rightarrow> 0 | Some y \<Rightarrow> c_userdata y)"

section \<open>Closing\<close>

definition forward_free_if_done :: "fc_ref \<Rightarrow> forward_world \<Rightarrow> forward_world" where
  "forward_free_if_done k w =
     (if f_local_closed (fc_at w k) \<and> f_wg_closed (fc_at w k) then w\<lparr>fw_conns := (fw_conns w)(k := None)\<rparr> else w)"

definition forward_local_close_cb :: "fc_ref \<Rightarrow> forward_world \<Rightarrow> forward_world" where
  "forward_local_close_cb k w = forward_free_if_done k (upd_fc k (\<lambda>f. f\<lparr>f_local_closed := True\<rparr>) w)"

definition forward_close_local :: "fc_ref \<Rightarrow> forward_world \<Rightarrow> forward_world" where
  "forward_close_local k w =
     (if f_local_closing (fc_at w k) \<or> f_local_closed (fc_at w k) then w
      else upd_fc k (\<lambda>f. f\<lparr>f_local_closing := True, f_reading := False\<rparr>) w)"

definition forward_wg_on_close :: "conn_ref \<Rightarrow> forward_world \<Rightarrow> forward_world" where
  "forward_wg_on_close c w =
     (let k = fc_user c w
      in if k = 0 then w
         else forward_free_if_done k (forward_close_local k (upd_fc k (\<lambda>f. f\<lparr>f_wg_closed := True, f_wg_conn := None\<rparr>) w)))"

text \<open>What the stack may call while the forwarder is inside one of its functions.\<close>

definition fw_inner :: "unit forward_world_ext tcp_app" where
  "fw_inner = \<lparr>app_connect = \<lambda>_ _ _ w. w, app_data = \<lambda>_ _ _ w. w, app_close = \<lambda>_ c w. forward_wg_on_close c w, app_writeable = \<lambda>_ _ w. w,
     app_accept = \<lambda>_ _ _ w. w, app_window = \<lambda>_ _ _. 0\<rparr>"

definition forward_close :: "fc_ref \<Rightarrow> forward_world \<Rightarrow> forward_world" where
  "forward_close k w =
     (if f_closing (fc_at w k) then w
      else
        let w = upd_fc k (\<lambda>f. f\<lparr>f_closing := True\<rparr>) w;
            w = (case f_wg_conn (fc_at w k) of None \<Rightarrow> w | Some c \<Rightarrow> if f_wg_closed (fc_at w k) then w else tcp_close fw_inner c w)
        in forward_close_local k w)"

section \<open>Buffers\<close>

text \<open>The loop doubles the capacity as that of \<^verbatim>\<open>reserve_buf\<close> does. The two functions differ in the buffer.\<close>

definition forward_pending_append :: "fc_ref \<Rightarrow> bytes \<Rightarrow> forward_world \<Rightarrow> int \<times> forward_world" where
  "forward_pending_append k data w =
     (let f = fc_at w k; need = length (f_pending_wg f) + length data
      in if length data > FORWARD_PENDING_LIMIT - length (f_pending_wg f) then (-1, w)
         else if need > f_pending_wg_cap f then
           let cap = double_cap need (if f_pending_wg_cap f \<noteq> 0 then f_pending_wg_cap f else 4096);
               (ok, w) = ts_alloc w
           in if \<not> ok then (-1, w)
              else (0, upd_fc k (\<lambda>f. f\<lparr>f_pending_wg := f_pending_wg f @ data, f_pending_wg_cap := cap\<rparr>) w)
         else (0, upd_fc k (\<lambda>f. f\<lparr>f_pending_wg := f_pending_wg f @ data\<rparr>) w))"

definition forward_pending_local_append :: "fc_ref \<Rightarrow> bytes \<Rightarrow> forward_world \<Rightarrow> int \<times> forward_world" where
  "forward_pending_local_append k data w =
     (let f = fc_at w k; need = length (f_pending_local f) + length data
      in if length data > FORWARD_PENDING_LIMIT - length (f_pending_local f) then (-1, w)
         else if need > f_pending_local_cap f then
           let cap = double_cap need (if f_pending_local_cap f \<noteq> 0 then f_pending_local_cap f else 4096);
               (ok, w) = ts_alloc w
           in if \<not> ok then (-1, w)
              else (0, upd_fc k (\<lambda>f. f\<lparr>f_pending_local := f_pending_local f @ data, f_pending_local_cap := cap\<rparr>) w)
         else (0, upd_fc k (\<lambda>f. f\<lparr>f_pending_local := f_pending_local f @ data\<rparr>) w))"

text \<open>The loop of \<^verbatim>\<open>forward_flush_pending_local\<close>; each round sends at least one byte, so the number of pending bytes bounds the rounds. The
  result says whether the end of the loop was reached, and not the \<^verbatim>\<open>return\<close> inside.\<close>

fun fw_flush_loop :: "nat \<Rightarrow> fc_ref \<Rightarrow> forward_world \<Rightarrow> bool \<times> forward_world" where
  "fw_flush_loop 0 k w = (True, w)"
| "fw_flush_loop (Suc fuel) k w =
     (case f_wg_conn (fc_at w k) of None \<Rightarrow> (True, w)
      | Some c \<Rightarrow>
        let pend = f_pending_local (fc_at w k); avail = tcp_send_available (conn_at w c)
        in if pend = [] \<or> avail = 0 then (True, w)
           else
             let send_len = min (length pend) avail;
                 (ret, w) = tcp_send fw_inner c (take send_len pend) w
             in if ret < 0 then (False, forward_close k w)
                else fw_flush_loop fuel k (upd_fc k (\<lambda>f. f\<lparr>f_pending_local := drop send_len (f_pending_local f)\<rparr>) w))"

definition forward_flush_pending_local :: "fc_ref \<Rightarrow> forward_world \<Rightarrow> forward_world" where
  "forward_flush_pending_local k w =
     (case fw_flush_loop (length (f_pending_local (fc_at w k))) k w of
        (False, w) \<Rightarrow> w
      | (True, w) \<Rightarrow>
        let f = fc_at w k
        in if f_pending_local f = [] \<and> f_local_read_paused f \<and> f_local_connected f \<and> \<not> f_local_closing f \<and> \<not> f_local_closed f then
             let (ret, w) = fw_uv_result (upd_fc k (\<lambda>f. f\<lparr>f_local_read_paused := False\<rparr>) w)
             in if ret < 0 then forward_close k w else upd_fc k (\<lambda>f. f\<lparr>f_reading := True\<rparr>) w
           else w)"

definition forward_write_done :: "fc_ref \<Rightarrow> int \<Rightarrow> forward_world \<Rightarrow> forward_world" where
  "forward_write_done k status w = (if status < 0 \<and> k \<noteq> 0 then forward_close k w else w)"

definition forward_write_local :: "fc_ref \<Rightarrow> bytes \<Rightarrow> forward_world \<Rightarrow> int \<times> forward_world" where
  "forward_write_local k data w =
     (let (ok, w) = ts_alloc w
      in if \<not> ok then (-1, w)
         else
           let (ret, w) = fw_uv_result w
           in if ret < 0 then (-1, w) else (0, upd_fc k (\<lambda>f. f\<lparr>f_written := f_written f @ data\<rparr>) w))"

definition forward_flush_pending_wg :: "fc_ref \<Rightarrow> forward_world \<Rightarrow> forward_world" where
  "forward_flush_pending_wg k w =
     (if \<not> f_local_connected (fc_at w k) \<or> f_pending_wg (fc_at w k) = [] then w
      else
        let (ret, w) = forward_write_local k (f_pending_wg (fc_at w k)) w
        in if ret < 0 then forward_close k w else upd_fc k (\<lambda>f. f\<lparr>f_pending_wg := []\<rparr>) w)"

section \<open>Callbacks\<close>

definition forward_local_read :: "fc_ref \<Rightarrow> int \<Rightarrow> bytes \<Rightarrow> forward_world \<Rightarrow> forward_world" where
  "forward_local_read k nread buf w =
     (if nread \<le> 0 then if nread \<noteq> UV_EAGAIN then forward_close k w else w
      else
        let data = take (nat nread) buf;
            pause = (\<lambda>w. upd_fc k (\<lambda>f. f\<lparr>f_reading := False, f_local_read_paused := True\<rparr>) w)
        in case f_wg_conn (fc_at w k) of None \<Rightarrow> forward_close k w
           | Some c \<Rightarrow>
             if f_pending_local (fc_at w k) \<noteq> [] then
               let (ret, w) = forward_pending_local_append k data w in if ret < 0 then forward_close k w else w
             else
               let avail = tcp_send_available (conn_at w c)
               in if avail = 0 then
                    let (ret, w) = forward_pending_local_append k data w in if ret < 0 then forward_close k w else pause w
                  else
                    let send_len = min (length data) avail;
                        (ret, w) = (if send_len > 0 then tcp_send fw_inner c (take send_len data) w else (0, w))
                    in if ret < 0 then forward_close k w
                       else if send_len < length data then
                         let (ret, w) = forward_pending_local_append k (drop send_len data) w in if ret < 0 then forward_close k w else pause w
                       else w)"

definition forward_wg_on_writeable :: "conn_ref \<Rightarrow> forward_world \<Rightarrow> forward_world" where
  "forward_wg_on_writeable c w =
     (let k = fc_user c w in if k = 0 \<or> f_closing (fc_at w k) then w else forward_flush_pending_local k w)"

definition forward_connect_cb :: "fc_ref \<Rightarrow> int \<Rightarrow> forward_world \<Rightarrow> forward_world" where
  "forward_connect_cb k status w =
     (if status < 0 then forward_close k w
      else
        let (ret, w) = fw_uv_result (upd_fc k (\<lambda>f. f\<lparr>f_local_connected := True\<rparr>) w)
        in if ret < 0 then forward_close k w
           else forward_flush_pending_wg k (upd_fc k (\<lambda>f. f\<lparr>f_reading := True\<rparr>) w))"

definition forward_wg_on_data :: "conn_ref \<Rightarrow> bytes \<Rightarrow> forward_world \<Rightarrow> forward_world" where
  "forward_wg_on_data c data w =
     (let k = fc_user c w
      in if k = 0 \<or> f_closing (fc_at w k) then w
         else if \<not> f_local_connected (fc_at w k) then
           let (ret, w) = forward_pending_append k data w in if ret < 0 then forward_close k w else w
         else
           let (ret, w) = forward_write_local k data (forward_flush_pending_local k w)
           in if ret < 0 then forward_close k w else w)"

definition FW_ON_DATA :: fptr where "FW_ON_DATA = 1"
definition FW_ON_CLOSE :: fptr where "FW_ON_CLOSE = 2"
definition FW_ON_WRITEABLE :: fptr where "FW_ON_WRITEABLE = 3"

text \<open>\<open>target\<close> is the \<^verbatim>\<open>userdata\<close> of the listener. The conversion of the target address and \<^verbatim>\<open>uv_tcp_connect\<close> each have a result.\<close>

definition forward_on_accept :: "conn_ref \<Rightarrow> nat \<Rightarrow> forward_world \<Rightarrow> forward_world" where
  "forward_on_accept c target w =
     (let (ok, w) = ts_alloc w
      in if \<not> ok then tcp_close fw_inner c w
         else
           let k = fw_brk w;
               w = w\<lparr>fw_brk := k + 1, fw_conns := (fw_conns w)(k \<mapsto> forward_conn_zero\<lparr>f_wg_conn := Some c, f_target := target\<rparr>)\<rparr>;
               w = upd_conn c (\<lambda>x. x\<lparr>c_userdata := k, c_on_data := Some FW_ON_DATA, c_on_close := Some FW_ON_CLOSE, c_on_writeable := Some FW_ON_WRITEABLE\<rparr>) w;
               (ret, w) = fw_uv_result w
           in if ret < 0 then forward_close k w
              else let (ret, w) = fw_uv_result w in if ret < 0 then forward_close k w else w)"

definition fw_app :: "unit forward_world_ext tcp_app" where
  "fw_app = \<lparr>app_connect = \<lambda>_ _ _ w. w, app_data = \<lambda>_ c data w. forward_wg_on_data c data w, app_close = \<lambda>_ c w. forward_wg_on_close c w,
     app_writeable = \<lambda>_ c w. forward_wg_on_writeable c w, app_accept = \<lambda>_ c ud w. forward_on_accept c ud w, app_window = \<lambda>_ _ _. 0\<rparr>"

end
