(* ===== verification/Forward_Stream.thy ===== *)
theory Forward_Stream
  imports Forward
begin

text \<open>
  The forwarder in every run: what it hands to the local connection, together with what it holds back until that is there, is exactly what the
  stack has delivered. And its two ends: the upload keeps its order, and the memory of a connection is freed once, by the end that closes last.
\<close>

section \<open>Invariants of the forwarder\<close>

text \<open>The data delivered on a connection since it was accepted.\<close>

definition received :: "conn_ref \<Rightarrow> tcp_event list \<Rightarrow> bytes" where
  "received c evs = foldl (\<lambda>acc e. case e of Accepted d \<Rightarrow> if d = c then [] else acc | Data d b \<Rightarrow> if d = c then acc @ b else acc | _ \<Rightarrow> acc) [] evs"

lemma received_event [simp]:
  "received c (evs @ [Closed d]) = received c evs" "received c (evs @ [Writeable d]) = received c evs" "received c (evs @ [Connected d s]) = received c evs"
  "received c (evs @ [Data d b]) = (if d = c then received c evs @ b else received c evs)"
  "received c (evs @ [Accepted d]) = (if d = c then [] else received c evs)"
  by (simp_all add: received_def)

text \<open>The fields of a connection of the forwarder that say what went to the local side.\<close>

definition down :: "forward_conn \<Rightarrow> bytes \<times> bytes \<times> bool" where
  "down f = (f_written f, f_pending_wg f, f_local_connected f)"

definition still :: "(forward_conn \<Rightarrow> forward_conn) \<Rightarrow> bool" where
  "still g \<longleftrightarrow> (\<forall>f. down (g f) = down f \<and> (f_closing f \<longrightarrow> f_closing (g f)))"

lemma still_upds [simp]:
  "still (\<lambda>f. f\<lparr>f_local_closed := b\<rparr>)" "still (\<lambda>f. f\<lparr>f_local_closing := b, f_reading := b'\<rparr>)" "still (\<lambda>f. f\<lparr>f_wg_closed := b, f_wg_conn := v\<rparr>)"
  "still (\<lambda>f. f\<lparr>f_closing := True\<rparr>)" "still (\<lambda>f. f\<lparr>f_pending_local := p f, f_pending_local_cap := n\<rparr>)" "still (\<lambda>f. f\<lparr>f_pending_local := p f\<rparr>)"
  "still (\<lambda>f. f)" "still (\<lambda>f. f\<lparr>f_local_read_paused := b\<rparr>)" "still (\<lambda>f. f\<lparr>f_reading := b\<rparr>)" "still (\<lambda>f. f\<lparr>f_reading := b, f_local_read_paused := b'\<rparr>)"
  by (simp_all add: still_def down_def)

text \<open>What the operations keep that do not write to the local side.\<close>

locale forward_invariant =
  fixes Q :: "forward_world \<Rightarrow> bool"
  assumes conn: "Q w \<Longrightarrow> (\<And>y. owner (f y) = owner y) \<Longrightarrow> Q (upd_conn c f w)"
    and frame: "Q w \<Longrightarrow> conn_mem w' = conn_mem w \<Longrightarrow> (\<And>c. received c (ts_events w') = received c (ts_events w)) \<Longrightarrow>
      fw_conns w' = fw_conns w \<Longrightarrow> fw_brk w' = fw_brk w \<Longrightarrow> Q w'"
    and new: "Q w \<Longrightarrow> c_userdata y = 0 \<Longrightarrow> Q (w\<lparr>conn_mem := (conn_mem w)(c \<mapsto> y)\<rparr>)"
    and free: "Q w \<Longrightarrow> Q (conn_free c w)"
    and fc: "Q w \<Longrightarrow> still g \<Longrightarrow> Q (upd_fc k g w)"
    and drop: "Q w \<Longrightarrow> Q (w\<lparr>fw_conns := (fw_conns w)(k := None)\<rparr>)"
begin

lemma free_if_done: "Q w \<Longrightarrow> Q (forward_free_if_done k w)"
  by (simp add: forward_free_if_done_def drop)

lemma close_local: "Q w \<Longrightarrow> Q (forward_close_local k w)"
  by (simp add: forward_close_local_def fc)

lemma local_closed: "Q w \<Longrightarrow> Q (forward_local_close_cb k w)"
  by (simp add: forward_local_close_cb_def free_if_done fc)

lemma wg_closed: "Q w \<Longrightarrow> Q (forward_wg_on_close c w)"
  by (simp add: forward_wg_on_close_def Let_def free_if_done close_local fc)

lemma event_closed: "Q w \<Longrightarrow> Q (ts_event (Closed c) w)"
  by (erule frame) (simp_all add: ts_event_def)

end

lemma more_forward:
  assumes "tcpstack.more w' = tcpstack.more (w :: forward_world)"
  shows "fw_conns w' = fw_conns w" "fw_brk w' = fw_brk w"
  using assms by (cases w; cases w'; simp)+

sublocale forward_invariant \<subseteq> inner: stack_caller fw_inner Q
proof unfold_locales
  fix w w' :: forward_world
  show "Q w'" if "Q w" "conn_mem w' = conn_mem w" "ts_events w' = ts_events w" "tcpstack.more w' = tcpstack.more w"
    using that more_forward [OF that(4)] by (intro frame [OF that(1)]) simp_all
qed (auto simp: fw_inner_def intro: conn new free wg_closed event_closed)

context forward_invariant
begin

lemma q_if: "(b \<Longrightarrow> Q x) \<Longrightarrow> (\<not> b \<Longrightarrow> Q y) \<Longrightarrow> Q (if b then x else y)"
  "(b \<Longrightarrow> Q (snd x')) \<Longrightarrow> (\<not> b \<Longrightarrow> Q (snd y')) \<Longrightarrow> Q (snd (if b then x' else y'))" "Q w \<Longrightarrow> Q (snd (r, w))"
  by simp_all

lemma uv: "Q w \<Longrightarrow> Q (snd (fw_uv_result w))"
  by (erule frame) (simp_all add: fw_uv_result_def)

lemma close: "Q w \<Longrightarrow> Q (forward_close k w)"
  unfolding forward_close_def Let_def by (auto split: option.splits intro!: close_local inner.close fc)

lemma local_append: "Q w \<Longrightarrow> Q (snd (forward_pending_local_append k d w))"
  unfolding forward_pending_local_append_def Let_def using inner.alloc [of w] by (auto split: prod.splits intro!: fc)

lemma flush_loop: "Q w \<Longrightarrow> Q (snd (fw_flush_loop n k w))"
proof (induction n arbitrary: w)
  case (Suc n)
  have "Q (snd (tcp_send fw_inner c d w))" for c d by (rule inner.send [OF Suc.prems])
  then show ?case using Suc by (auto simp: Let_def split: option.splits prod.splits intro!: close Suc.IH fc) (metis snd_conv)+
qed simp

lemma flush_local: "Q w \<Longrightarrow> Q (forward_flush_pending_local k w)"
proof -
  assume "Q w"
  then have l: "Q (snd (fw_flush_loop (length (f_pending_local (fc_at w k))) k w))" by (rule flush_loop)
  obtain b E where E: "fw_flush_loop (length (f_pending_local (fc_at w k))) k w = (b, E)" by fastforce
  then have "Q E" using l by simp
  then have "b \<Longrightarrow> Q (let f = fc_at E k
        in if f_pending_local f = [] \<and> f_local_read_paused f \<and> f_local_connected f \<and> \<not> f_local_closing f \<and> \<not> f_local_closed f then
             let (ret, w) = fw_uv_result (upd_fc k (\<lambda>f. f\<lparr>f_local_read_paused := False\<rparr>) E)
             in if ret < 0 then forward_close k w else upd_fc k (\<lambda>f. f\<lparr>f_reading := True\<rparr>) w
           else E)"
    unfolding Let_def case_prod_beta by (intro q_if close fc uv) simp_all
  then show ?thesis unfolding forward_flush_pending_local_def E using \<open>Q E\<close> by (cases b) simp_all
qed

lemma local_read: "Q w \<Longrightarrow> Q (forward_local_read k n buf w)"
proof (cases "f_wg_conn (fc_at w k)")
  case None
  assume "Q w"
  then show ?thesis using None unfolding forward_local_read_def by (simp add: Let_def close)
next
  case (Some c)
  assume q: "Q w"
  have p: "Q (upd_fc k (\<lambda>f. f\<lparr>f_reading := False, f_local_read_paused := True\<rparr>) E)" if "Q E" for E using that by (rule fc) simp
  show ?thesis unfolding forward_local_read_def Let_def case_prod_beta Some option.case
    by (intro q_if close q local_append p inner.send)
qed

lemma write_done: "Q w \<Longrightarrow> Q (forward_write_done k s w)"
  by (simp add: forward_write_done_def close)

lemma writeable: "Q w \<Longrightarrow> Q (forward_wg_on_writeable c w)"
  by (simp add: forward_wg_on_writeable_def Let_def flush_local)

end

section \<open>The download stream\<close>

text \<open>What a connection of the forwarder must have done, given what was delivered.\<close>

definition fc_ok :: "bytes \<Rightarrow> forward_conn \<Rightarrow> bool" where
  "fc_ok b f \<longleftrightarrow> f_closing f \<or> f_written f @ f_pending_wg f = b \<and> (f_local_connected f \<longrightarrow> f_pending_wg f = [])"

text \<open>\<open>E\<close> is what was delivered on each connection of the stack, \<open>R\<close> what has been handed on; they differ only inside a callback.\<close>

definition fw_inv :: "(conn_ref \<Rightarrow> bytes) \<Rightarrow> (conn_ref \<Rightarrow> bytes) \<Rightarrow> forward_world \<Rightarrow> bool" where
  "fw_inv E R w \<longleftrightarrow> (\<forall>c. received c (ts_events w) = E c) \<and> 0 < fw_brk w \<and> (\<forall>k \<ge> fw_brk w. fw_conns w k = None) \<and> (\<forall>c. fc_user c w < fw_brk w) \<and>
     (\<forall>c d. fc_user c w = fc_user d w \<longrightarrow> fc_user c w = 0 \<or> c = d) \<and>
     (\<forall>c f. fc_user c w \<noteq> 0 \<longrightarrow> fw_conns w (fc_user c w) = Some f \<longrightarrow> fc_ok (R c) f)"

lemma fw_invD:
  assumes "fw_inv E R w"
  shows "received c (ts_events w) = E c" "0 < fw_brk w" "k \<ge> fw_brk w \<Longrightarrow> fw_conns w k = None" "fc_user c w < fw_brk w"
    "fc_user c w = fc_user d w \<Longrightarrow> fc_user c w = 0 \<or> c = d" "fc_user c w \<noteq> 0 \<Longrightarrow> fw_conns w (fc_user c w) = Some f \<Longrightarrow> fc_ok (R c) f"
  using assms unfolding fw_inv_def by blast+

lemma fc_ok_still: "fc_ok b f \<Longrightarrow> still g \<Longrightarrow> fc_ok b (g f)"
  unfolding fc_ok_def still_def down_def by (metis prod.inject)

text \<open>Fewer owners and fewer connections of the forwarder do no harm.\<close>

lemma fw_inv_less:
  assumes "fw_inv E R w" "\<And>c. received c (ts_events w') = received c (ts_events w)" "fw_brk w' = fw_brk w"
    and "\<And>k. fw_conns w' k = fw_conns w k \<or> fw_conns w' k = None" "\<And>c. fc_user c w' = fc_user c w \<or> fc_user c w' = 0"
  shows "fw_inv E R w'"
  unfolding fw_inv_def
proof (intro conjI allI impI)
  note i = fw_invD [OF assms(1)]
  fix c d k f
  show "received c (ts_events w') = E c" "0 < fw_brk w'" using i(1,2) assms(2,3) by simp_all
  show "fc_user c w' < fw_brk w'" using i(2) i(4) [of c] assms(3) assms(5) [of c] by auto
  show "fw_conns w' k = None" if "fw_brk w' \<le> k" using i(3) [of k] assms(3) assms(4) [of k] that by auto
  show "fc_user c w' = 0 \<or> c = d" if "fc_user c w' = fc_user d w'" using i(5) [of c d] assms(5) [of c] assms(5) [of d] that by auto
  show "fc_ok (R c) f" if "fc_user c w' \<noteq> 0" "fw_conns w' (fc_user c w') = Some f"
    using i(6) [of c f] assms(5) [of c] assms(4) [of "fc_user c w'"] that by auto
qed

lemma fc_user_upd: "(\<And>y. owner (f y) = owner y) \<Longrightarrow> fc_user d (upd_conn c f w) = fc_user d w"
  by (auto simp: fc_user_def upd_conn_def owner_def split: option.splits)

lemma upd_fc_sel [simp]: "conn_mem (upd_fc k g w) = conn_mem w" "ts_events (upd_fc k g w) = ts_events w" "fw_brk (upd_fc k g w) = fw_brk w"
  "fw_uv (upd_fc k g w) = fw_uv w" "ts_malloc (upd_fc k g w) = ts_malloc w"
  "fc_user c (upd_fc k g w) = fc_user c w" "fw_conns (upd_fc k g w) j = (if j = k then map_option g (fw_conns w k) else fw_conns w j)"
  by (simp_all add: upd_fc_def fc_user_def)

text \<open>A change of one connection of the forwarder, for new expectations.\<close>

lemma fw_inv_fc:
  assumes "fw_inv E R w" "\<And>c f. fc_user c w \<noteq> 0 \<Longrightarrow> fc_user c w \<noteq> k \<Longrightarrow> fc_ok (R c) f \<Longrightarrow> fc_ok (R' c) f"
    and "\<And>c f. fc_user c w = k \<Longrightarrow> k \<noteq> 0 \<Longrightarrow> fw_conns w k = Some f \<Longrightarrow> fc_ok (R c) f \<Longrightarrow> fc_ok (R' c) (g f)"
  shows "fw_inv E R' (upd_fc k g w)"
  unfolding fw_inv_def
proof (intro conjI allI impI)
  note i = fw_invD [OF assms(1)]
  fix c d j f
  show "received c (ts_events (upd_fc k g w)) = E c" "0 < fw_brk (upd_fc k g w)" "fc_user c (upd_fc k g w) < fw_brk (upd_fc k g w)" using i by simp_all
  show "fw_conns (upd_fc k g w) j = None" if "fw_brk (upd_fc k g w) \<le> j" using i(3) [of j] that by auto
  show "fc_user c (upd_fc k g w) = 0 \<or> c = d" if "fc_user c (upd_fc k g w) = fc_user d (upd_fc k g w)" using i(5) [of c d] that by simp
  show "fc_ok (R' c) f" if "fc_user c (upd_fc k g w) \<noteq> 0" "fw_conns (upd_fc k g w) (fc_user c (upd_fc k g w)) = Some f"
    using i(6) [of c] assms(2) [of c] assms(3) [of c] that by (auto split: if_splits)
qed

interpretation stream: forward_invariant "fw_inv E R" for E R
proof (unfold_locales, goal_cases)
  case 1 then show ?case by (intro fw_inv_less [OF 1(1)]) (simp_all add: fc_user_upd, simp_all add: upd_conn_def)
next
  case 2 then show ?case by (intro fw_inv_less [OF 2(1)]) (simp_all add: fc_user_def)
next
  case 3 then show ?case by (intro fw_inv_less [OF 3(1)]) (simp_all add: fc_user_def)
next
  case 4 then show ?case by (intro fw_inv_less [OF 4(1)]) (simp_all add: fc_user_def conn_free_def)
next
  case 5 then show ?case by (intro fw_inv_fc [OF 5(1)]) (simp_all add: fc_ok_still)
next
  case 6 then show ?case by (intro fw_inv_less [OF 6(1)]) (simp_all add: fc_user_def)
qed

text \<open>The connection \<open>c\<close> of the stack is the one that belongs to \<open>k\<close>.\<close>

definition owns :: "conn_ref \<Rightarrow> fc_ref \<Rightarrow> forward_world \<Rightarrow> bool" where
  "owns c k w \<longleftrightarrow> (\<forall>d. fc_user d w \<noteq> 0 \<longrightarrow> (d = c \<longleftrightarrow> fc_user d w = k))"

lemma owns_less: "owns c k w \<Longrightarrow> (\<And>d. fc_user d w' = fc_user d w \<or> fc_user d w' = 0) \<Longrightarrow> owns c k w'"
  unfolding owns_def by metis

interpretation own: forward_invariant "owns c k" for c k
proof (unfold_locales, goal_cases)
  case 1 then show ?case by (intro owns_less [OF 1(1)]) (simp add: fc_user_upd)
next
  case 2 then show ?case by (intro owns_less [OF 2(1)]) (simp add: fc_user_def)
next
  case 3 then show ?case by (intro owns_less [OF 3(1)]) (simp add: fc_user_def)
next
  case 4 then show ?case by (intro owns_less [OF 4(1)]) (simp add: fc_user_def conn_free_def)
next
  case 5 then show ?case by (intro owns_less [OF 5(1)]) simp
next
  case 6 then show ?case by (intro owns_less [OF 6(1)]) (simp add: fc_user_def)
qed

text \<open>Nothing is held back for the local side.\<close>

definition drained :: "fc_ref \<Rightarrow> forward_world \<Rightarrow> bool" where
  "drained k w \<longleftrightarrow> (\<forall>f. fw_conns w k = Some f \<longrightarrow> f_pending_wg f = [] \<and> f_local_connected f)"

interpretation drained: forward_invariant "drained k" for k
proof (unfold_locales, goal_cases)
  case (5 w g j) then show ?case by (auto simp: drained_def still_def down_def)
qed (simp_all add: drained_def upd_conn_def conn_free_def)

section \<open>Callbacks\<close>

text \<open>A connection that is being closed owes nothing.\<close>

lemma close_settles:
  assumes "fw_inv E R w" "owns c k w"
  shows "fw_inv E (R(c := b)) (forward_close k w)"
proof -
  have u: "fw_inv E (R(c := b)) (upd_fc k (\<lambda>f. f\<lparr>f_closing := True\<rparr>) w)"
    using assms(2) by (intro fw_inv_fc [OF assms(1)]) (auto simp: owns_def fc_ok_def)
  show ?thesis
  proof (cases "f_closing (fc_at w k)")
    case True
    then have e: "forward_close k w = w" by (simp add: forward_close_def)
    have "upd_fc k (\<lambda>f. f) w = w" by (simp add: upd_fc_def option.map_ident)
    moreover have "fw_inv E (R(c := b)) (upd_fc k (\<lambda>f. f) w)"
      using assms(2) True by (intro fw_inv_fc [OF assms(1)]) (auto simp: owns_def fc_ok_def fc_at_def)
    ultimately show ?thesis unfolding e by simp
  next
    case False
    then show ?thesis unfolding forward_close_def Let_def
      using u by (auto split: option.splits intro!: stream.close_local stream.inner.close)
  qed
qed

text \<open>Output to the local connection settles what was delivered.\<close>

lemma write_settles:
  assumes "fw_inv E R w" "owns c k w" "drained k w" "forward_write_local k d w = (r, w')"
  shows "if r < 0 then fw_inv E R w' \<and> owns c k w' else fw_inv E (R(c := R c @ d)) w'"
proof -
  obtain ok A where A: "ts_alloc w = (ok, A)" by fastforce
  obtain v B where B: "fw_uv_result A = (v, B)" by fastforce
  have iA: "fw_inv E R A" "owns c k A" "drained k A"
    using stream.inner.alloc [OF assms(1)] own.inner.alloc [OF assms(2)] drained.inner.alloc [OF assms(3)] A by simp_all
  then have iB: "fw_inv E R B" "owns c k B" "drained k B" using stream.uv [OF iA(1)] own.uv [OF iA(2)] drained.uv [OF iA(3)] B by simp_all
  have "fw_inv E (R(c := R c @ d)) (upd_fc k (\<lambda>f. f\<lparr>f_written := f_written f @ d\<rparr>) B)"
    using iB(2,3) by (intro fw_inv_fc [OF iB(1)]) (auto simp: owns_def drained_def fc_ok_def)
  then show ?thesis using assms(4) A B iA iB by (auto simp: forward_write_local_def Let_def split: if_splits)
qed

lemma append_settles:
  assumes "fw_inv E R w" "owns c k w" "\<not> f_local_connected (fc_at w k)" "forward_pending_append k d w = (r, w')"
  shows "if r < 0 then fw_inv E R w' \<and> owns c k w' else fw_inv E (R(c := R c @ d)) w'"
proof -
  obtain ok A where A: "ts_alloc w = (ok, A)" by fastforce
  have iA: "fw_inv E R A" "owns c k A" using stream.inner.alloc [OF assms(1)] own.inner.alloc [OF assms(2)] A by simp_all
  have fA: "fw_conns A = fw_conns w" using A by (auto simp: ts_alloc_def)
  have c: "\<not> f_local_connected f" if "fw_conns w k = Some f" for f using that assms(3) by (simp add: fc_at_def)
  have "fw_inv E (R(c := R c @ d)) (upd_fc k (\<lambda>f. f\<lparr>f_pending_wg := f_pending_wg f @ d, f_pending_wg_cap := n\<rparr>) A)" for n
    using iA(2) c fA by (intro fw_inv_fc [OF iA(1)]) (auto simp: owns_def fc_ok_def)
  moreover have "fw_inv E (R(c := R c @ d)) (upd_fc k (\<lambda>f. f\<lparr>f_pending_wg := f_pending_wg f @ d\<rparr>) w)"
    using assms(2) c by (intro fw_inv_fc [OF assms(1)]) (auto simp: owns_def fc_ok_def)
  ultimately show ?thesis using assms(1,2,4) A iA by (auto simp: forward_pending_append_def Let_def split: if_splits)
qed

lemma fw_inv_expect:
  assumes "fw_inv E R w" "\<And>f. fc_user c w \<noteq> 0 \<Longrightarrow> fw_conns w (fc_user c w) = Some f \<Longrightarrow> fc_ok b f"
  shows "fw_inv E (R(c := b)) w"
  using assms by (auto simp: fw_inv_def)

lemma user_owns: "fw_inv E R w \<Longrightarrow> owns c (fc_user c w) w"
  unfolding owns_def using fw_invD(5) by metis

text \<open>\<^verbatim>\<open>forward_wg_on_data\<close>\<close>

lemma data_settles:
  assumes "fw_inv E R w"
  shows "fw_inv E (R(c := R c @ d)) (forward_wg_on_data c d w)"
proof -
  define k where "k = fc_user c w"
  consider (none) "k = 0 \<or> f_closing (fc_at w k)" | (early) "k \<noteq> 0" "\<not> f_closing (fc_at w k)" "\<not> f_local_connected (fc_at w k)"
    | (late) "k \<noteq> 0" "\<not> f_closing (fc_at w k)" "f_local_connected (fc_at w k)" by blast
  then show ?thesis
  proof cases
    case none
    then have "forward_wg_on_data c d w = w" by (auto simp: forward_wg_on_data_def k_def Let_def)
    then show ?thesis using none assms by (auto simp: k_def fc_ok_def fc_at_def intro!: fw_inv_expect)
  next
    case early
    have o: "owns c k w" unfolding k_def by (rule user_owns [OF assms])
    obtain r A where A: "forward_pending_append k d w = (r, A)" by fastforce
    have "forward_wg_on_data c d w = (if r < 0 then forward_close k A else A)" using early A by (simp add: forward_wg_on_data_def k_def Let_def)
    then show ?thesis using append_settles [OF assms o early(3) A] close_settles by (auto split: if_splits)
  next
    case late
    have o: "owns c k w" unfolding k_def by (rule user_owns [OF assms])
    have dr: "drained k w" using fw_invD(6) [OF assms, of c] late by (auto simp: drained_def k_def fc_ok_def fc_at_def)
    let ?B = "forward_flush_pending_local k w"
    obtain r A where A: "forward_write_local k d ?B = (r, A)" by fastforce
    have "forward_wg_on_data c d w = (if r < 0 then forward_close k A else A)" using late A by (simp add: forward_wg_on_data_def k_def Let_def)
    then show ?thesis using write_settles [OF stream.flush_local [OF assms] own.flush_local [OF o] drained.flush_local [OF dr] A] close_settles by (auto split: if_splits)
  qed
qed

text \<open>A connection of the forwarder set aside, and put back.\<close>

definition aside :: "fc_ref \<Rightarrow> forward_world \<Rightarrow> forward_world" where
  "aside k w = w\<lparr>fw_conns := (fw_conns w)(k := None)\<rparr>"

lemma aside_upd [simp]: "aside k (upd_fc k g w) = aside k w"
  by (simp add: aside_def upd_fc_def)

lemma aside_frame:
  assumes "fw_inv E R (aside k w)"
  shows "fw_inv E R (aside k (snd (ts_alloc w)))" "fw_inv E R (aside k (snd (fw_uv_result w)))"
  by (rule stream.frame [OF assms]; simp add: aside_def ts_alloc_def fw_uv_result_def)+

lemma put_back:
  assumes "fw_inv E R (aside k w)" "fw_conns w k = Some f" "k < fw_brk w" "\<And>c. fc_user c w = k \<Longrightarrow> k \<noteq> 0 \<Longrightarrow> fc_ok (R c) f"
  shows "fw_inv E R w"
proof -
  have s: "fc_user c (aside k w) = fc_user c w" "fw_brk (aside k w) = fw_brk w" "ts_events (aside k w) = ts_events w"
      "fw_conns (aside k w) j = (if j = k then None else fw_conns w j)" for c j by (simp_all add: aside_def fc_user_def)
  note i = fw_invD [OF assms(1), unfolded s]
  show ?thesis unfolding fw_inv_def
  proof (intro conjI allI impI)
    fix c d j f'
    show "received c (ts_events w) = E c" "0 < fw_brk w" "fc_user c w < fw_brk w" using i(1,2,4) by simp_all
    show "fw_conns w j = None" if "fw_brk w \<le> j" using i(3) [of j] that assms(3) by (auto split: if_splits)
    show "fc_user c w = 0 \<or> c = d" if "fc_user c w = fc_user d w" using i(5) that by blast
    show "fc_ok (R c) f'" if "fc_user c w \<noteq> 0" "fw_conns w (fc_user c w) = Some f'" using i(6) [of c f'] assms(2,4) that by (cases "fc_user c w = k") auto
  qed
qed

lemma close_back:
  assumes "fw_inv E R (aside k w)" "fw_conns w k = Some f" "k < fw_brk w"
  shows "fw_inv E R (forward_close k w)"
proof (cases "f_closing f")
  case True
  then have "forward_close k w = w" using assms(2) by (simp add: forward_close_def fc_at_def)
  then show ?thesis using put_back [OF assms] True by (simp add: fc_ok_def)
next
  case False
  have "fw_inv E R (upd_fc k (\<lambda>f. f\<lparr>f_closing := True\<rparr>) w)"
    by (rule put_back [where f = "f\<lparr>f_closing := True\<rparr>"]) (use assms in \<open>simp_all add: fc_ok_def\<close>)
  then show ?thesis using False assms(2) unfolding forward_close_def Let_def by (auto simp: fc_at_def split: option.splits intro!: stream.close_local stream.inner.close)
qed

text \<open>\<^verbatim>\<open>forward_connect_cb\<close>: what was held back goes out first.\<close>

lemma flush_wg_back:
  assumes "fw_inv E R (aside k w)" "fw_conns w k = Some f" "k < fw_brk w" "f_local_connected f"
    and "\<And>c. fc_user c w = k \<Longrightarrow> k \<noteq> 0 \<Longrightarrow> f_closing f \<or> f_written f @ f_pending_wg f = R c"
  shows "fw_inv E R (forward_flush_pending_wg k w)"
proof (cases "f_pending_wg f = []")
  case True
  then have "forward_flush_pending_wg k w = w" using assms(2) by (simp add: forward_flush_pending_wg_def fc_at_def)
  moreover have "fw_inv E R w" by (rule put_back [OF assms(1-3)]) (use True assms(5) in \<open>auto simp: fc_ok_def\<close>)
  ultimately show ?thesis by simp
next
  case False
  obtain ok A where A: "ts_alloc w = (ok, A)" by fastforce
  obtain v B where B: "fw_uv_result A = (v, B)" by fastforce
  have iA: "fw_inv E R (aside k A)" using aside_frame(1) [OF assms(1)] A by simp
  then have iB: "fw_inv E R (aside k B)" using aside_frame(2) [OF iA] B by simp
  have s: "fw_conns A = fw_conns w" "fw_brk A = fw_brk w" "fw_conns B = fw_conns w" "fw_brk B = fw_brk w" "fc_user c B = fc_user c w" for c
    using A B by (auto simp: ts_alloc_def fw_uv_result_def fc_user_def)
  have "fw_inv E R (upd_fc k (\<lambda>f. f\<lparr>f_pending_wg := []\<rparr>) (upd_fc k (\<lambda>g. g\<lparr>f_written := f_written g @ f_pending_wg f\<rparr>) B))"
    by (rule put_back) (use iB s assms in \<open>auto simp: fc_ok_def\<close>)
  then show ?thesis using False assms(2-4) A B close_back [OF iA] close_back [OF iB] s
    by (auto simp: forward_flush_pending_wg_def forward_write_local_def fc_at_def Let_def)
qed

lemma connect_keeps:
  assumes "fw_inv E R w" "fw_conns w k = Some f"
  shows "fw_inv E R (forward_connect_cb k s w)"
proof (cases "s < 0")
  case True
  then show ?thesis by (simp add: forward_connect_cb_def stream.close [OF assms(1)])
next
  case False
  obtain v B where B: "fw_uv_result (upd_fc k (\<lambda>f. f\<lparr>f_local_connected := True\<rparr>) w) = (v, B)" by fastforce
  have "fw_inv E R (aside k w)" using stream.drop [OF assms(1)] by (simp add: aside_def)
  then have iB: "fw_inv E R (aside k B)" using aside_frame(2) [of E R k "upd_fc k (\<lambda>f. f\<lparr>f_local_connected := True\<rparr>) w"] B by simp
  have s: "fw_conns B k = Some (f\<lparr>f_local_connected := True\<rparr>)" "fw_brk B = fw_brk w" "fc_user c B = fc_user c w" for c
    using B assms(2) by (auto simp: fw_uv_result_def fc_user_def)
  have k: "k < fw_brk w" using fw_invD(3) [OF assms(1), of k] assms(2) by (cases "k < fw_brk w") simp_all
  have r: "f_closing f \<or> f_written f @ f_pending_wg f = R c" if "fc_user c w = k" "k \<noteq> 0" for c
    using fw_invD(6) [OF assms(1), of c f] that assms(2) by (auto simp: fc_ok_def)
  have "fw_inv E R (forward_flush_pending_wg k (upd_fc k (\<lambda>f. f\<lparr>f_reading := True\<rparr>) B))"
    by (rule flush_wg_back [where f = "f\<lparr>f_local_connected := True, f_reading := True\<rparr>"]) (use iB s k r in auto)
  then show ?thesis using False B close_back [OF iB s(1)] k s(2) by (simp add: forward_connect_cb_def)
qed

text \<open>\<^verbatim>\<open>forward_on_accept\<close>: a new connection of the stack gets a new connection of the forwarder.\<close>

lemma accept_settles:
  assumes "fw_inv E R w" "fc_user c w = 0" "E c = []"
  shows "fw_inv E (R(c := [])) (forward_on_accept c target w)"
proof -
  obtain ok A where A: "ts_alloc w = (ok, A)" by fastforce
  have u: "fc_user d A = fc_user d w" for d using A by (auto simp: ts_alloc_def fc_user_def)
  have "fw_inv E R A" using stream.inner.alloc [OF assms(1)] A by simp
  then have iA: "fw_inv E (R(c := [])) A" by (rule fw_inv_expect) (simp add: u assms(2))
  note i = fw_invD [OF iA]
  let ?k = "fw_brk A"
  let ?f = "forward_conn_zero\<lparr>f_wg_conn := Some c, f_target := target\<rparr>"
  define B where "B = upd_conn c (\<lambda>x. x\<lparr>c_userdata := ?k, c_on_data := Some FW_ON_DATA, c_on_close := Some FW_ON_CLOSE, c_on_writeable := Some FW_ON_WRITEABLE\<rparr>)
     (A\<lparr>fw_brk := ?k + 1, fw_conns := (fw_conns A)(?k \<mapsto> ?f)\<rparr>)"
  have ub: "fc_user d B = (if d = c \<and> conn_mem A c \<noteq> None then ?k else fc_user d A)" for d by (auto simp: B_def fc_user_def upd_conn_def)
  have s: "fw_conns B = (fw_conns A)(?k \<mapsto> ?f)" "fw_brk B = ?k + 1" "ts_events B = ts_events A" by (simp_all add: B_def upd_conn_def)
  have iB: "fw_inv E (R(c := [])) B"
    unfolding fw_inv_def s
  proof (intro conjI allI impI)
    fix d d' j f
    show "received d (ts_events A) = E d" "0 < fw_brk A + 1" using i(1) by simp_all
    show "fc_user d B < fw_brk A + 1" using i(4) [of d] by (auto simp: ub)
    show "((fw_conns A)(?k \<mapsto> ?f)) j = None" if "fw_brk A + 1 \<le> j" using i(3) [of j] that by simp
    show "fc_user d B = 0 \<or> d = d'" if "fc_user d B = fc_user d' B" using i(5) [of d d'] i(4) [of d] i(4) [of d'] that by (auto simp: ub split: if_splits)
    show "fc_ok ((R(c := [])) d) f" if "fc_user d B \<noteq> 0" "((fw_conns A)(?k \<mapsto> ?f)) (fc_user d B) = Some f"
      using i(6) [of d f] i(4) [of d] that assms(2) by (auto simp: ub u fc_ok_def forward_conn_zero_def split: if_splits)
  qed
  obtain r1 C where C: "fw_uv_result B = (r1, C)" by fastforce
  obtain r2 D where D: "fw_uv_result C = (r2, D)" by fastforce
  have iC: "fw_inv E (R(c := [])) C" using stream.uv [OF iB] C by simp
  then have iD: "fw_inv E (R(c := [])) D" using stream.uv [OF iC] D by simp
  have "forward_on_accept c target w = (if \<not> ok then tcp_close fw_inner c A else if r1 < 0 then forward_close ?k C else if r2 < 0 then forward_close ?k D else D)"
    using A C D unfolding forward_on_accept_def by (simp add: Let_def B_def)
  then show ?thesis using stream.inner.close [OF iA] stream.close [OF iC] stream.close [OF iD] iD by simp
qed

section \<open>Runs\<close>

text \<open>Nothing is owed.\<close>

definition settled :: "forward_world \<Rightarrow> bool" where
  "settled w \<longleftrightarrow> fw_inv (\<lambda>c. received c (ts_events w)) (\<lambda>c. received c (ts_events w)) w"

lemma settledI: "fw_inv E E w \<Longrightarrow> settled w"
proof -
  assume i: "fw_inv E E w"
  then have "(\<lambda>c. received c (ts_events w)) = E" using fw_invD(1) by blast
  then show ?thesis using i by (simp add: settled_def)
qed

lemma settledE: "settled w \<Longrightarrow> \<exists>E. fw_inv E E w"
  by (auto simp: settled_def)

lemma inv_other_event:
  assumes "fw_inv E R w" "\<And>c. received c (ts_events w @ [e]) = received c (ts_events w)"
  shows "fw_inv E R (ts_event e w)"
  by (rule stream.frame [OF assms(1)]) (use assms(2) in \<open>simp_all add: ts_event_def\<close>)

lemma inv_events:
  assumes "fw_inv E R w"
  shows "fw_inv (E(c := E c @ d)) R (ts_event (Data c d) w)" "fw_inv (E(c := [])) R (ts_event (Accepted c) w)"
  using assms unfolding fw_inv_def by (simp_all add: ts_event_def fc_user_def)

interpretation fw: stack_client fw_app settled
proof (unfold_locales, goal_cases)
  case 1 then show ?case by (blast dest!: settledE intro: settledI stream.conn)
next
  case (2 st st')
  then obtain E where "fw_inv E E st" by (blast dest: settledE)
  then have "fw_inv E E st'" by (rule stream.inner.frame) (use 2 in simp_all)
  then show ?case by (rule settledI)
next
  case 3 then show ?case by (blast dest!: settledE intro: settledI stream.new)
next
  case 4 then show ?case by (blast dest!: settledE intro: settledI stream.free)
next
  case (5 st p c)
  then obtain E where "fw_inv E E st" by (blast dest: settledE)
  then have "fw_inv E E (ts_event (Closed c) st)" by (rule stream.event_closed)
  then show ?case by (auto simp: fw_app_def intro: settledI stream.wg_closed)
next
  case (6 st p c s)
  then obtain E where "fw_inv E E st" by (blast dest: settledE)
  then have "fw_inv E E (ts_event (Connected c s) st)" by (rule inv_other_event) simp
  then show ?case by (auto simp: fw_app_def intro: settledI)
next
  case (7 st p c d)
  then obtain E where "fw_inv E E st" by (blast dest: settledE)
  then have "fw_inv (E(c := E c @ d)) E (ts_event (Data c d) st)" by (rule inv_events)
  from data_settles [OF this, of c d] show ?case by (auto simp: fw_app_def intro: settledI)
next
  case (8 st p c)
  then obtain E where "fw_inv E E st" by (blast dest: settledE)
  then have "fw_inv E E (ts_event (Writeable c) st)" by (rule inv_other_event) simp
  then show ?case by (auto simp: fw_app_def intro: settledI stream.writeable)
next
  case (9 st c p u)
  then obtain E where i: "fw_inv E E st" by (blast dest: settledE)
  have "fc_user c (ts_event (Accepted c) st) = 0" using 9(2) by (auto simp: fc_user_def ts_event_def split: option.splits)
  from accept_settles [OF inv_events(2) [OF i] this] show ?case by (auto simp: fw_app_def intro: settledI)
qed

text \<open>The events of the event loop: of libuv for the local connections, and of the stack.\<close>

inductive fw_step :: "forward_world \<Rightarrow> forward_world \<Rightarrow> bool" where
  local_read: "fw_conns w k = Some f \<Longrightarrow> fw_step w (forward_local_read k nread buf w)"
| local_connected: "fw_conns w k = Some f \<Longrightarrow> fw_step w (forward_connect_cb k status w)"
| local_written: "fw_conns w k = Some f \<Longrightarrow> fw_step w (forward_write_done k status w)"
| local_closed: "fw_conns w k = Some f \<Longrightarrow> fw_step w (forward_local_close_cb k w)"
| packet: "tcpstack_input fw_app w pkt = Some w' \<Longrightarrow> fw_step w w'"
| retransmit: "fw_step w (retransmit_cb fw_app c w)"
| delayed_ack: "fw_step w (delayed_ack_cb fw_app c w)"
| conn_closed: "fw_step w (timer_close_cb fw_app c w)"
| stack_check: "fw_step w (flush_check_cb fw_app w)"
| stack_freed: "fw_step w (tcpstack_free fw_app w)"
| clock: "fw_step w (w\<lparr>ts_now := t\<rparr>)"

lemma step_settled: "fw_step w w' \<Longrightarrow> settled w \<Longrightarrow> settled w'"
proof (induction rule: fw_step.induct)
  case (local_read w k f n buf)
  then show ?case by (blast dest!: settledE intro: settledI stream.local_read)
next
  case (local_connected w k f s)
  then show ?case by (blast dest!: settledE intro: settledI connect_keeps)
next
  case (local_written w k f s)
  then show ?case by (blast dest!: settledE intro: settledI stream.write_done)
next
  case (local_closed w k f)
  then show ?case by (blast dest!: settledE intro: settledI stream.local_closed)
next
  case (clock w t)
  then show ?case by (rule fw.frame) simp_all
qed (auto intro: fw.input fw.retransmit fw.delayed_ack fw.timer_close fw.flush_check fw.stack_free)

definition fw_init :: "forward_world \<Rightarrow> bool" where
  "fw_init w \<longleftrightarrow> conn_mem w = (\<lambda>_. None) \<and> fw_conns w = (\<lambda>_. None) \<and> 0 < fw_brk w"

lemma run_settled: "fw_step\<^sup>*\<^sup>* w0 w \<Longrightarrow> fw_init w0 \<Longrightarrow> settled w"
proof (induction rule: rtranclp_induct)
  case base
  then show ?case by (simp add: settled_def fw_inv_def fw_init_def fc_user_def)
qed (rule step_settled)

section \<open>Properties\<close>

text \<open>\<^bold>\<open>C8\<close> The forwarder hands on what arrives, all of it and in order: in every run, over any interleaving of packets, timers and events of the local connections, a
  connection that is not being closed has written to its local side, or holds back until that is connected, exactly the bytes that the stack has delivered
  on its connection, and once the local side is connected nothing is held back.\<close>

theorem forward_download_exact:
  assumes "fw_init w0" "fw_step\<^sup>*\<^sup>* w0 w" "fc_user c w = k" "k \<noteq> 0" "fw_conns w k = Some f" "\<not> f_closing f"
  shows "f_written f @ f_pending_wg f = received c (ts_events w) \<and> (f_local_connected f \<longrightarrow> f_written f = received c (ts_events w))"
proof -
  have "settled w" by (rule run_settled [OF assms(2,1)])
  then have "fc_ok (received c (ts_events w)) f" unfolding settled_def using fw_invD(6) [of _ _ w c f] assms(3-5) by blast
  then show ?thesis using assms(6) by (auto simp: fc_ok_def)
qed

definition fw_world0 :: forward_world where
  "fw_world0 = tcpstack.extend (stack_zero\<lparr>ts_listeners := [\<lparr>ln_family = AF_INET, ln_local_port = 80, ln_on_accept = 0, ln_userdata = 5\<rparr>]\<rparr>)
     (forward_world.fields (\<lambda>_. None) 1 (\<lambda>_. 0))"

text \<open>A SYN to the listening port, then the acknowledgement with three bytes.\<close>

definition fw_peer :: tcp_conn where
  "fw_peer = conn_zero\<lparr>c_family := AF_INET, c_local_ip := 0x0200000A, c_remote_ip := 0x0100000A, c_local_port := 40000, c_remote_port := 80\<rparr>"

definition fw_syn :: bytes where "fw_syn = segment_packet fw_peer None TCPF_SYN 1000 0 []"
definition fw_ack :: bytes where "fw_ack = segment_packet fw_peer None (TCPF_ACK OR TCPF_PSH) 1001 1 [7, 8, 9]"

definition fw_syn_segment :: tcp_segment where
  "fw_syn_segment = \<lparr>sg_family = AF_INET, sg_src = [10, 0, 0, 2], sg_dst = [10, 0, 0, 1], sg_src_port = 40000, sg_dst_port = 80, sg_seq = 1000, sg_ack = 0,
     sg_window = 65535, sg_flags = TCPF_SYN, sg_options = [2, 4, 5, 100, 4, 2, 1, 3, 3, 4, 1, 1], sg_payload = []\<rparr>"

definition fw_ack_segment :: tcp_segment where
  "fw_ack_segment = \<lparr>sg_family = AF_INET, sg_src = [10, 0, 0, 2], sg_dst = [10, 0, 0, 1], sg_src_port = 40000, sg_dst_port = 80, sg_seq = 1001, sg_ack = 1,
     sg_window = 65535, sg_flags = TCPF_ACK OR TCPF_PSH, sg_options = [], sg_payload = [7, 8, 9]\<rparr>"

lemma fw_parse: "parse_packet 0x0100000A None fw_syn = Segment fw_syn_segment" "parse_packet 0x0100000A None fw_ack = Segment fw_ack_segment"
  by (code_simp, code_simp)

definition fw_world1 :: forward_world where "fw_world1 = segment_arrives fw_app fw_syn_segment fw_world0"

lemma fw_world1_step: "fw_step fw_world0 fw_world1"
  by (rule fw_step.packet [of _ fw_syn])
    (simp add: tcpstack_input_def fw_world0_def tcpstack.defs stack_zero_def fw_parse fw_world1_def)

lemma fw_world0_sel: "ts_buckets fw_world0 b = []" "ts_listeners fw_world0 = [\<lparr>ln_family = AF_INET, ln_local_port = 80, ln_on_accept = 0, ln_userdata = 5\<rparr>]"
  "ts_alloc fw_world0 = (True, fw_world0)" "conn_mem fw_world0 = Map.empty" "fw_brk fw_world0 = 1" "fw_conns fw_world0 = Map.empty" "ts_brk fw_world0 = 0"
  "ts_generate_isn fw_world0 = (0, fw_world0)" "fw_uv fw_world0 = (\<lambda>_. 0)" "ts_now fw_world0 = 0"
  by (simp_all add: fw_world0_def tcpstack.defs forward_world.defs stack_zero_def ts_alloc_def ts_generate_isn_def generate_isn_def)

lemma accept_ok:
  assumes "ts_malloc w 0" "fw_uv w = (\<lambda>_. 0)" "conn_mem w c = Some y"
  shows "conn_mem (forward_on_accept c t w) c = Some (y\<lparr>c_userdata := fw_brk w, c_on_data := Some FW_ON_DATA, c_on_close := Some FW_ON_CLOSE, c_on_writeable := Some FW_ON_WRITEABLE\<rparr>)"
    "fw_conns (forward_on_accept c t w) = (fw_conns w)(fw_brk w \<mapsto> forward_conn_zero\<lparr>f_wg_conn := Some c, f_target := t\<rparr>)"
    "ts_events (forward_on_accept c t w) = ts_events w" "ts_buckets (forward_on_accept c t w) = ts_buckets w"
    "ts_malloc (forward_on_accept c t w) = (\<lambda>i. ts_malloc w (i + 1))" "ts_local_ip (forward_on_accept c t w) = ts_local_ip w"
    "ts_local_ip6 (forward_on_accept c t w) = ts_local_ip6 w"
  using assms by (simp_all add: forward_on_accept_def ts_alloc_def fw_uv_result_def Let_def upd_conn_def)

definition fw_accepting :: forward_world where
  "fw_accepting = (let conn = parse_syn_options (sg_options fw_syn_segment) (conn_zero\<lparr>c_family := AF_INET, c_local_ip := 0x0100000A, c_remote_ip := 0x0200000A,
       c_local_port := 80, c_remote_port := 40000, c_iss := 0, c_snd_una := 0, c_snd_nxt := 1, c_rcv_nxt := 1001, c_snd_wnd := 65535, c_snd_mss := of_nat WG_TCP_MSS,
       c_sendbuf_cap := WG_TCP_SENDBUF_INITIAL_SIZE, c_sendbuf := zeros WG_TCP_SENDBUF_INITIAL_SIZE\<rparr>);
     conn = conn\<lparr>c_snd_wnd := scaled_window conn 65535\<rparr>
   in ts_event (Accepted 0) (start_retransmit_timer 0 (send_segment fw_app 0 (TCPF_SYN OR TCPF_ACK) 0 (c_rcv_nxt conn) [] (upd_conn 0 (\<lambda>x. x\<lparr>c_state := TCPS_SYN_RECEIVED\<rparr>)
     (conn_link 0 (fw_world0\<lparr>conn_mem := [0 \<mapsto> conn], ts_brk := 1\<rparr>))))))"

lemma fw_world1_accept: "fw_world1 = forward_on_accept 0 5 fw_accepting"
proof -
  have l: "bucket_lookup fw_world0 f a b p q = None" for f a b p q by (simp add: bucket_lookup_def fw_world0_sel)
  have "app_accept fw_app = (\<lambda>_ c ud w. forward_on_accept c ud w)" by (simp add: fw_app_def)
  then show ?thesis unfolding fw_world1_def segment_arrives_def l
    by (simp add: listener_lookup_def fw_world0_sel fw_syn_segment_def flag_def tcpf_defs accept_syn_def fw_accepting_def Let_def AF_INET_def AF_INET6_def)
qed

lemma fw_accepting_sel: "ts_malloc fw_accepting = (\<lambda>_. True)" "fw_uv fw_accepting = (\<lambda>_. 0)" "fw_brk fw_accepting = 1" "fw_conns fw_accepting = Map.empty"
  "ts_events fw_accepting = [Accepted 0]" "ts_local_ip fw_accepting = 0x0100000A" "ts_local_ip6 fw_accepting = None"
  by (simp_all add: fw_accepting_def Let_def ts_event_def start_retransmit_timer_def send_segment_def conn_link_def bucket_insert_def upd_conn_def
      fw_world0_def tcpstack.defs forward_world.defs stack_zero_def)

lemma fw_accepting_conn: "\<exists>y. conn_mem fw_accepting 0 = Some y \<and> c_state y = TCPS_SYN_RECEIVED \<and> c_snd_nxt y = 1 \<and> c_rcv_nxt y = 1001 \<and> c_rcv_ooo y = [] \<and>
    \<not> c_being_freed y \<and> conn_matches AF_INET [10, 0, 0, 1] [10, 0, 0, 2] 80 40000 y"
  by (simp add: fw_accepting_def Let_def ts_event_def start_retransmit_timer_def conn_link_def bucket_insert_def parse_syn_options_def conn_zero_def conn_matches_def
      AF_INET_def AF_INET6_def split: prod.splits)

lemma fw_accepting_bucket: "ts_buckets fw_accepting (conn_hash AF_INET [10, 0, 0, 1] [10, 0, 0, 2] 80 40000) = [0]"
proof -
  have a: "le32 0x0100000A = [10, 0, 0, 1]" "le32 0x0200000A = [10, 0, 0, 2]" by code_simp+
  show ?thesis
    by (simp add: fw_accepting_def Let_def ts_event_def start_retransmit_timer_def send_segment_def conn_link_def bucket_insert_def upd_conn_def conn_at_def conn_bucket_def
      parse_syn_options_def conn_zero_def local_addr_def remote_addr_def a AF_INET_def AF_INET6_def fw_world0_sel split: prod.splits)
qed

lemma ack_data_forward [simp]: "fw_conns (tcp_ack_data app c n imm w) = fw_conns w" "ts_events (tcp_ack_data app c n imm w) = ts_events w"
  by (simp_all add: tcp_ack_data_def tcp_ack_now_def send_segment_def upd_conn_def Let_def)

lemma early_data:
  assumes "conn_mem w c = Some y" "c_userdata y = k" "k \<noteq> 0" "fw_conns w k = Some f" "\<not> f_closing f" "\<not> f_local_connected f" "f_pending_wg f = []" "f_pending_wg_cap f = 0"
    and "ts_malloc w 0" "d \<noteq> []" "length d \<le> FORWARD_PENDING_LIMIT"
  shows "conn_mem (forward_wg_on_data c d w) = conn_mem w" "ts_events (forward_wg_on_data c d w) = ts_events w"
    "fw_conns (forward_wg_on_data c d w) k = Some (f\<lparr>f_pending_wg := d, f_pending_wg_cap := double_cap (length d) 4096\<rparr>)"
  using assms by (simp_all add: forward_wg_on_data_def fc_user_def fc_at_def forward_pending_append_def ts_alloc_def Let_def)

definition fw_world2 :: forward_world where "fw_world2 = segment_arrives fw_app fw_ack_segment fw_world1"

lemma fw_world2_step: "fw_step fw_world1 fw_world2"
proof (rule fw_step.packet [of _ fw_ack])
  obtain y where y: "conn_mem fw_accepting 0 = Some y" using fw_accepting_conn by blast
  have "ts_local_ip fw_world1 = 0x0100000A" "ts_local_ip6 fw_world1 = None"
    unfolding fw_world1_accept using accept_ok(6,7) [OF _ fw_accepting_sel(2) y] by (simp_all add: fw_accepting_sel)
  then show "tcpstack_input fw_app fw_world1 fw_ack = Some fw_world2" by (simp add: tcpstack_input_def fw_parse fw_world2_def)
qed

lemma fw_world2_sel: "\<exists>y f. conn_mem fw_world2 0 = Some y \<and> c_userdata y = 1 \<and> fw_conns fw_world2 1 = Some f \<and> \<not> f_closing f \<and> f_pending_wg f = [7, 8, 9]"
proof -
  obtain y where y: "conn_mem fw_accepting 0 = Some y" "c_state y = TCPS_SYN_RECEIVED" "c_snd_nxt y = 1" "c_rcv_nxt y = 1001" "c_rcv_ooo y = []" "\<not> c_being_freed y"
      "conn_matches AF_INET [10, 0, 0, 1] [10, 0, 0, 2] 80 40000 y" using fw_accepting_conn by blast
  define y1 where "y1 = y\<lparr>c_userdata := 1, c_on_data := Some FW_ON_DATA, c_on_close := Some FW_ON_CLOSE, c_on_writeable := Some FW_ON_WRITEABLE\<rparr>"
  note a = accept_ok [OF _ fw_accepting_sel(2) y(1), of 5, unfolded fw_world1_accept [symmetric] fw_accepting_sel, simplified]
  have w1: "conn_mem fw_world1 0 = Some y1" "fw_conns fw_world1 1 = Some (forward_conn_zero\<lparr>f_wg_conn := Some 0, f_target := 5\<rparr>)" "ts_malloc fw_world1 = (\<lambda>_. True)"
    using a by (simp_all add: y1_def)
  have "conn_matches AF_INET [10, 0, 0, 1] [10, 0, 0, 2] 80 40000 y1" using y(7) by (simp add: y1_def conn_matches_def)
  then have "bucket_lookup fw_world1 AF_INET [10, 0, 0, 1] [10, 0, 0, 2] 80 40000 = Some 0"
    using a(4) fw_accepting_bucket w1(1) by (simp add: bucket_lookup_def conn_at_def)
  then have w2: "fw_world2 = conn_segment fw_app 0 fw_ack_segment fw_world1" by (simp add: fw_world2_def segment_arrives_def fw_ack_segment_def)
  define A where "A = upd_conn 0 (\<lambda>x. x\<lparr>c_snd_wnd := (if c_state x = TCPS_SYN_SENT then ucast (65535 :: u16) else scaled_window x 65535)\<rparr>) fw_world1"
  define B where "B = stop_retransmit 0 (upd_conn 0 (\<lambda>x. x\<lparr>c_snd_una := 1, c_state := TCPS_ESTABLISHED\<rparr>) A)"
  define D where "D = upd_conn 0 (\<lambda>x. x\<lparr>c_rcv_nxt := c_rcv_nxt x + of_nat (length [7 :: u8, 8, 9])\<rparr>) B"
  define F where "F = ts_event (Data 0 [7, 8, 9]) D"
  define G where "G = forward_wg_on_data 0 [7, 8, 9] F"
  have A: "conn_mem A 0 = Some (y1\<lparr>c_snd_wnd := scaled_window y1 65535\<rparr>)" using w1(1) y(2) by (simp add: A_def y1_def)
  have "\<exists>z. conn_mem D 0 = Some z \<and> c_userdata z = 1 \<and> c_on_data z = Some FW_ON_DATA \<and> c_rcv_ooo z = []"
    using A y(5) by (simp add: D_def B_def stop_retransmit_def y1_def)
  then obtain z where z: "conn_mem D 0 = Some z" "c_userdata z = 1" "c_on_data z = Some FW_ON_DATA" "c_rcv_ooo z = []" by blast
  have f: "conn_mem F 0 = Some z" "fw_conns F 1 = Some (forward_conn_zero\<lparr>f_wg_conn := Some 0, f_target := 5\<rparr>)" "ts_malloc F 0"
    using z(1) w1(2,3) by (simp_all add: F_def ts_event_def) (simp_all add: D_def B_def A_def stop_retransmit_def upd_conn_def)
  obtain n where G: "conn_mem G 0 = Some z" "fw_conns G 1 = Some (forward_conn_zero\<lparr>f_wg_conn := Some 0, f_target := 5, f_pending_wg := [7, 8, 9], f_pending_wg_cap := n\<rparr>)"
    using early_data [OF f(1) z(2) _ f(2), of "[7, 8, 9]"] f(1,3) unfolding G_def by (auto simp: forward_conn_zero_def FORWARD_PENDING_LIMIT_def)
  have "call_data fw_app 0 [7, 8, 9] D = G" using z by (simp add: call_data_def conn_at_eq fw_app_def G_def F_def)
  moreover have "tcp_ooo_drain fw_app 0 G = (0, G)" using G(1) z(4) by (simp add: tcp_ooo_drain_def conn_at_eq)
  ultimately have "accept_data fw_app 0 [7, 8, 9] False B = tcp_ack_data fw_app 0 3 False G" unfolding accept_data_def Let_def D_def [symmetric] by (simp add: numeral_3_eq_3)
  moreover have "conn_segment fw_app 0 fw_ack_segment fw_world1 = accept_data fw_app 0 [7, 8, 9] False B"
  proof -
    have sg: "sg_flags fw_ack_segment = TCPF_ACK OR TCPF_PSH" "sg_seq fw_ack_segment = 1001" "sg_ack fw_ack_segment = 1" "sg_payload fw_ack_segment = [7, 8, 9]"
        "sg_window fw_ack_segment = 65535" by (simp_all add: fw_ack_segment_def)
    have fl: "\<not> flag (TCPF_ACK OR TCPF_PSH) TCPF_RST" "flag (TCPF_ACK OR TCPF_PSH) TCPF_ACK" by (simp_all add: flag_def tcpf_defs)
    have at: "c_state (conn_at A 0) = TCPS_SYN_RECEIVED" "c_snd_nxt (conn_at A 0) = 1" "c_rcv_nxt (conn_at A 0) = 1001" using A y(2-4) by (simp_all add: conn_at_eq y1_def)
    show ?thesis unfolding conn_segment_def Let_def sg A_def [symmetric] by (simp add: fl at B_def)
  qed
  ultimately have e: "fw_world2 = tcp_ack_data fw_app 0 3 False G" using w2 by simp
  show ?thesis unfolding e using ack_data_conn [OF G(1), of fw_app 3 False] G(2) z(2) by (auto simp: owner_def forward_conn_zero_def)
qed

theorem forward_download_exact_witness: "\<exists>w f. fw_step\<^sup>*\<^sup>* fw_world0 w \<and> fw_conns w 1 = Some f \<and> f_pending_wg f = [7, 8, 9] \<and> f_written f @ f_pending_wg f = received 0 (ts_events w)"
proof -
  obtain y f where f: "conn_mem fw_world2 0 = Some y" "c_userdata y = 1" "fw_conns fw_world2 1 = Some f" "\<not> f_closing f" "f_pending_wg f = [7, 8, 9]" using fw_world2_sel by blast
  have run: "fw_step\<^sup>*\<^sup>* fw_world0 fw_world2" using fw_world1_step fw_world2_step by (meson converse_rtranclp_into_rtranclp r_into_rtranclp)
  have "fw_init fw_world0" by (simp add: fw_init_def fw_world0_sel)
  from forward_download_exact [OF this run, of 0 1 f] f run show ?thesis by (auto simp: fc_user_def)
qed

section \<open>The upload stream\<close>

interpretation fw_part: stack_caller "fw_inner\<lparr>app_close := \<lambda>_ _ w. w\<rparr>" "\<lambda>w. tcpstack.more w = m" for m
  by unfold_locales (simp_all add: fw_inner_def upd_conn_def conn_free_def ts_event_def)

lemma more_uv: "tcpstack.more w' = tcpstack.more (w :: forward_world) \<Longrightarrow> fw_uv w' = fw_uv w"
  by (cases w; cases w') simp

lemmas send_forward = more_forward [OF fw_part.send [OF refl]] more_uv [OF fw_part.send [OF refl]]

text \<open>The loop sends the pending bytes in order, until none is left or the send buffer is full.\<close>

lemma fw_loop_spec:
  assumes "fw_conns w k = Some f" "f_wg_conn f = Some c" "conn_mem w c = Some y" "sending y" "length (f_pending_local f) \<le> fuel" "\<forall>i. ts_malloc w i"
  shows "\<exists>w' p z. fw_flush_loop fuel k w = (True, w') \<and> fw_conns w' k = Some (f\<lparr>f_pending_local := p\<rparr>) \<and> conn_mem w' c = Some z \<and> sending z \<and>
    unacked z @ p = unacked y @ f_pending_local f \<and> (p = [] \<or> tcp_send_available z = 0) \<and> (\<forall>i. ts_malloc w' i) \<and> fw_uv w' = fw_uv w"
  using assms
proof (induction fuel arbitrary: w f y)
  case 0
  then show ?case by (intro exI [of _ w] exI [of _ "[]"] exI [of _ y]) auto
next
  case (Suc fuel)
  have at: "fc_at w k = f" "conn_at w c = y" using Suc.prems(1,3) by (simp_all add: fc_at_def conn_at_eq)
  show ?case
  proof (cases "f_pending_local f = [] \<or> tcp_send_available y = 0")
    case True
    then have "fw_flush_loop (Suc fuel) k w = (True, w)" using Suc.prems(2) by (simp add: at)
    then show ?thesis using Suc.prems True by (intro exI [of _ w] exI [of _ "f_pending_local f"] exI [of _ y]) auto
  next
    case False
    define n where "n = min (length (f_pending_local f)) (tcp_send_available y)"
    let ?d = "take n (f_pending_local f)"
    have d: "?d \<noteq> []" "length ?d \<le> tcp_send_available y" "0 < n" using False by (auto simp: n_def)
    obtain r w1 where s: "tcp_send fw_inner c ?d w = (r, w1)" by fastforce
    then obtain z where z: "r = 0" "conn_mem w1 c = Some z" "sending z" "unacked z = unacked y @ ?d" "\<forall>i. ts_malloc w1 i"
      using send_spec [OF Suc.prems(3,4) d(1,2) s] Suc.prems(6) by auto
    have w1: "fw_conns w1 k = Some f" "fw_uv w1 = fw_uv w" using send_forward(1,3) [of fw_inner c ?d w] s Suc.prems(1) by simp_all
    let ?E = "upd_fc k (\<lambda>f. f\<lparr>f_pending_local := drop n (f_pending_local f)\<rparr>) w1" and ?f = "f\<lparr>f_pending_local := drop n (f_pending_local f)\<rparr>"
    have loop: "fw_flush_loop (Suc fuel) k w = fw_flush_loop fuel k ?E" using False Suc.prems(2) s z(1) by (simp add: at n_def [symmetric] Let_def)
    have E: "fw_conns ?E k = Some ?f" "conn_mem ?E c = Some z" "\<forall>i. ts_malloc ?E i" "fw_uv ?E = fw_uv w" using w1 z(2,5) by simp_all
    have "\<exists>w' p z'. fw_flush_loop fuel k ?E = (True, w') \<and> fw_conns w' k = Some (?f\<lparr>f_pending_local := p\<rparr>) \<and> conn_mem w' c = Some z' \<and> sending z' \<and>
        unacked z' @ p = unacked z @ f_pending_local ?f \<and> (p = [] \<or> tcp_send_available z' = 0) \<and> (\<forall>i. ts_malloc w' i) \<and> fw_uv w' = fw_uv ?E"
      by (rule Suc.IH [OF E(1) _ E(2) z(3) _ E(3)]) (use Suc.prems(2,5) d(3) in simp_all)
    then show ?thesis unfolding loop using E(4) z(4) by simp
  qed
qed

text \<open>The bytes on their way into the tunnel.\<close>

definition fw_up :: "fc_ref \<Rightarrow> conn_ref \<Rightarrow> forward_world \<Rightarrow> bytes" where
  "fw_up k c w = unacked (conn_at w c) @ f_pending_local (fc_at w k)"

lemma flush_up:
  assumes "fw_conns w k = Some f" "f_wg_conn f = Some c" "conn_mem w c = Some y" "sending y" "\<forall>i. ts_malloc w i" "\<forall>i. 0 \<le> fw_uv w i"
  shows "fw_up k c (forward_flush_pending_local k w) = fw_up k c w"
    "f_pending_local (fc_at (forward_flush_pending_local k w) k) = [] \<or> tcp_send_available (conn_at (forward_flush_pending_local k w) c) = 0"
proof -
  obtain w' p z where l: "fw_flush_loop (length (f_pending_local f)) k w = (True, w')" "fw_conns w' k = Some (f\<lparr>f_pending_local := p\<rparr>)" "conn_mem w' c = Some z"
      "unacked z @ p = unacked y @ f_pending_local f" "p = [] \<or> tcp_send_available z = 0" "fw_uv w' = fw_uv w"
    using fw_loop_spec [OF assms(1-4) order_refl assms(5)] by blast
  define F where "F = forward_flush_pending_local k w"
  have "conn_mem F c = Some z \<and> (\<exists>g. fw_conns F k = Some g \<and> f_pending_local g = p)"
    using l(1-3,6) assms(1,6) by (simp add: F_def forward_flush_pending_local_def fc_at_def fw_uv_result_def Let_def not_less [symmetric])
  then have F: "conn_at F c = z" "f_pending_local (fc_at F k) = p" by (auto simp: conn_at_eq fc_at_def)
  show "fw_up k c (forward_flush_pending_local k w) = fw_up k c w" unfolding F_def [symmetric] using F l(4) assms(1,3) by (simp add: fw_up_def fc_at_def conn_at_eq)
  show "f_pending_local (fc_at (forward_flush_pending_local k w) k) = [] \<or> tcp_send_available (conn_at (forward_flush_pending_local k w) c) = 0"
    unfolding F_def [symmetric] using F l(5) by simp
qed

lemma local_append_up:
  assumes "fw_conns w k = Some f" "\<forall>i. ts_malloc w i" "length (f_pending_local f) + length d \<le> FORWARD_PENDING_LIMIT"
  shows "\<exists>w' g. forward_pending_local_append k d w = (0, w') \<and> conn_mem w' = conn_mem w \<and> fw_conns w' k = Some g \<and> f_pending_local g = f_pending_local f @ d"
proof -
  obtain ok E where E: "ts_alloc w = (ok, E)" by fastforce
  then have e: "ok" "conn_mem E = conn_mem w" "fw_conns E = fw_conns w" using assms(2) by (auto simp: ts_alloc_def)
  let ?need = "length (f_pending_local f) + length d"
  let ?cap = "double_cap ?need (if f_pending_local_cap f \<noteq> 0 then f_pending_local_cap f else 4096)"
  have n: "\<not> FORWARD_PENDING_LIMIT - length (f_pending_local f) < length d" using assms(3) by simp
  have r: "forward_pending_local_append k d w =
      (0, if ?need > f_pending_local_cap f then upd_fc k (\<lambda>f. f\<lparr>f_pending_local := f_pending_local f @ d, f_pending_local_cap := ?cap\<rparr>) E
          else upd_fc k (\<lambda>f. f\<lparr>f_pending_local := f_pending_local f @ d\<rparr>) w)"
    using E e(1) n assms(1) by (simp add: forward_pending_local_append_def fc_at_def Let_def)
  show ?thesis unfolding r using e assms(1) by (cases "?need > f_pending_local_cap f") auto
qed

text \<open>What the local side sends goes to the end of the stream, whatever is pending: unlike the proxy, the forwarder never lets new bytes overtake older ones.\<close>

lemma forward_upload_order:
  assumes "fw_conns w k = Some f" "f_wg_conn f = Some c" "conn_mem w c = Some y" "sending y" "\<forall>i. ts_malloc w i"
    and "0 < nread" "length (f_pending_local f) + length (take (nat nread) buf) \<le> FORWARD_PENDING_LIMIT"
  shows "fw_up k c (forward_local_read k nread buf w) = fw_up k c w @ take (nat nread) buf"
proof -
  define d where "d = take (nat nread) buf"
  let ?pause = "\<lambda>w. upd_fc k (\<lambda>f. f\<lparr>f_reading := False, f_local_read_paused := True\<rparr>) w"
  have at: "fc_at w k = f" "conn_at w c = y" using assms(1,3) by (simp_all add: fc_at_def conn_at_eq)
  have up: "fw_up k c w = unacked y @ f_pending_local f" by (simp add: fw_up_def at)
  have upE: "fw_up k c E = unacked z @ p" "fw_up k c (?pause E) = unacked z @ p" if "conn_mem E c = Some z" "fw_conns E k = Some g" "f_pending_local g = p" for E z g p
    using that by (simp_all add: fw_up_def fc_at_def conn_at_def)
  obtain w' g where a: "forward_pending_local_append k d w = (0, w')" "conn_mem w' = conn_mem w" "fw_conns w' k = Some g" "f_pending_local g = f_pending_local f @ d"
    using local_append_up [OF assms(1,5,7)] unfolding d_def by blast
  have up': "fw_up k c w' = fw_up k c w @ d" "fw_up k c (?pause w') = fw_up k c w @ d" using upE [of w' y g] a(2-4) assms(3) by (simp_all add: up)
  show ?thesis
  proof (cases "f_pending_local f \<noteq> [] \<or> tcp_send_available y = 0")
    case True
    have "forward_local_read k nread buf w = w' \<or> forward_local_read k nread buf w = ?pause w'"
      using True assms(2,6) a(1) unfolding forward_local_read_def Let_def at d_def [symmetric] by (auto simp: at)
    then show ?thesis using up' unfolding d_def by auto
  next
    case False
    define m where "m = min (length d) (tcp_send_available y)"
    obtain r E where E: "(if m > 0 then tcp_send fw_inner c (take m d) w else (0, w)) = (r, E)" by fastforce
    have "fw_conns E = fw_conns w" using E send_forward(1) [of fw_inner c "take m d" w] by (auto split: if_splits)
    then have fE: "fw_conns E k = Some f" using assms(1) by simp
    have "r = 0 \<and> (\<exists>z. conn_mem E c = Some z \<and> unacked z = unacked y @ take m d) \<and> (\<forall>i. ts_malloc E i)"
    proof (cases "m > 0")
      case True
      then show ?thesis using send_spec [OF assms(3,4), of "take m d" fw_inner r E] E assms(5) by (auto simp: m_def)
    qed (use E assms(3,5) in auto)
    then obtain z where z: "r = 0" "conn_mem E c = Some z" "unacked z = unacked y @ take m d" "\<forall>i. ts_malloc E i" by blast
    have "length (f_pending_local f) + length (drop m d) \<le> FORWARD_PENDING_LIMIT" using assms(7) by (simp add: d_def)
    then obtain w2 g2 where b: "forward_pending_local_append k (drop m d) E = (0, w2)" "conn_mem w2 = conn_mem E" "fw_conns w2 k = Some g2"
        "f_pending_local g2 = f_pending_local f @ drop m d"
      using local_append_up [OF fE z(4)] by blast
    have "forward_local_read k nread buf w = (if m < length d then ?pause w2 else E)"
      unfolding forward_local_read_def Let_def at(1) assms(2) option.case at(2) d_def [symmetric] m_def [symmetric] E prod.case z(1)
      using False assms(6) b(1) by simp
    moreover have "fw_up k c (?pause w2) = fw_up k c w @ d" using upE(2) [of w2 z g2] b(2-4) z(2,3) False by (simp add: up)
    moreover have "fw_up k c E = fw_up k c w @ d" if "\<not> m < length d" using upE(1) [of E z f] fE z(2,3) that False by (simp add: up)
    ultimately show ?thesis unfolding d_def by simp
  qed
qed

section \<open>The end of a connection\<close>

text \<open>The two ends close in either order; the first leaves the memory in place, the second frees it.\<close>

lemma forward_freed_last:
  assumes "fw_conns w k = Some f" "fc_user c w = k" "k \<noteq> 0" "\<not> f_local_closed f" "\<not> f_wg_closed f"
  shows "fw_conns (forward_wg_on_close c w) k \<noteq> None" "fw_conns (forward_local_close_cb k (forward_wg_on_close c w)) k = None"
    "fw_conns (forward_local_close_cb k w) k \<noteq> None" "fw_conns (forward_wg_on_close c (forward_local_close_cb k w)) k = None"
proof -
  have c: "\<exists>g. fw_conns (forward_wg_on_close c w) k = Some g \<and> f_wg_closed g"
    using assms by (simp add: forward_wg_on_close_def forward_free_if_done_def forward_close_local_def fc_at_def Let_def)
  then show "fw_conns (forward_wg_on_close c w) k \<noteq> None" by auto
  show "fw_conns (forward_local_close_cb k (forward_wg_on_close c w)) k = None"
    using c by (auto simp: forward_local_close_cb_def forward_free_if_done_def fc_at_def)
  show "fw_conns (forward_local_close_cb k w) k \<noteq> None" "fw_conns (forward_wg_on_close c (forward_local_close_cb k w)) k = None"
    using assms by (simp_all add: forward_local_close_cb_def forward_wg_on_close_def forward_free_if_done_def forward_close_local_def fc_at_def Let_def)
qed

text \<open>Bytes that wait for the local connection when the tunnel side ends are not written any more.\<close>

lemma forward_fin_discards:
  assumes "fw_conns w k = Some f" "fc_user c w = k" "k \<noteq> 0" "\<not> f_local_closing f" "\<not> f_local_closed f" "f_pending_wg f \<noteq> []"
  shows "\<exists>g. fw_conns (forward_wg_on_close c w) k = Some g \<and> f_local_closing g \<and> f_written g = f_written f \<and> f_pending_wg g \<noteq> []"
  using assms by (simp add: forward_wg_on_close_def forward_free_if_done_def forward_close_local_def fc_at_def Let_def)

end
