(* ===== verification/Spec2Isabelle.thy ===== *)
theory Spec2Isabelle
  imports Replay Tai64n Allowedips Blake2s Crypto Cookie Handshake Pool Conf Tcp_Sender Tcp_Worker Forward_Stream
begin

text \<open>
  wgx is a WireGuard tunnel that runs in user space: one event loop (libuv) owns the UDP sockets, the TUN device, the timers and a
  configuration socket. In SOCKS5 mode the TUN device is replaced by a TCP stack of its own, which runs in a second thread.
  This development models the program from its C sources under \<^verbatim>\<open>src/src\<close> and proves what makes its parts correct.

  \<^bold>\<open>Parts and theories.\<close> Each theory keeps the names of the C functions; a C struct is a record, a tagged union a datatype.

  \<^item> \<open>Prelude\<close>: C integers as words, byte buffers as lists, byte orders, and the lemma collections the other theories share.
  \<^item> \<open>Replay\<close> (\<^verbatim>\<open>replay.c\<close>): the bitmap ring that rejects repeated packet counters. It refines an abstract sliding window over the set of
    accepted counters; the contract is the locale \<open>anti_replay\<close>.
  \<^item> \<open>Tai64n\<close> (\<^verbatim>\<open>tai64n.c\<close>): timestamps whose byte order is the order in time.
  \<^item> \<open>Allowedips\<close> (\<^verbatim>\<open>allowedips.c\<close>): two tries with path compression. Both refine the finite map from prefixes to peers (locale
    \<open>route_table\<close>), lookup is the longest-prefix match, and a failed allocation changes nothing.
  \<^item> \<open>Blake2s\<close>, \<open>Crypto\<close> (\<^verbatim>\<open>blake2s.c\<close>, \<^verbatim>\<open>crypto.c\<close>): the streaming hash equals RFC 7693, HMAC RFC 2104, the key derivation RFC 5869.
    libsodium is not part of the sources: it is the record \<open>sodium\<close>, an argument of every function that calls it, and the few laws the
    handshake relies on are the predicate \<open>sodium_laws\<close>, which is shown to be satisfiable.
  \<^item> \<open>Wg\<close>, \<open>Messages\<close>, \<open>Index_Table\<close>, \<open>Cookie\<close>, \<open>Noise\<close>, \<open>Handshake\<close> (\<^verbatim>\<open>wg.h\<close>, \<^verbatim>\<open>noise.h\<close>, \<^verbatim>\<open>noise.c\<close>): the data model, the packed
    messages with their round trips, the table of session indices (locale \<open>index_store\<close>), MACs and cookies, and Noise IKpsk2. The
    handshake theorem runs initiator and responder against each other and ends with mirrored keypairs.
  \<^item> \<open>Pool\<close>, \<open>Timers\<close>, \<open>Device\<close> (\<^verbatim>\<open>device.c\<close>, \<^verbatim>\<open>timers.c\<close> and the timer calls of libuv): buffer pools (locale \<open>buffer_pool\<close>), the timers of
    a peer, and every callback of the event loop on an explicit store: peers and keypairs have addresses, so that use after free,
    double free and leaks can be stated.
  \<^item> \<open>Device_Inv\<close>, \<open>Device_Safe\<close>, \<open>Event_Loop\<close>: the memory-safety invariant, its preservation by each callback, and the event loop as a
    step relation in which libuv runs the callbacks that are due in any order.
  \<^item> \<open>Fifo\<close>, \<open>Staged\<close>, \<open>Transport\<close>, \<open>Sessions\<close>: circular queues (locale \<open>bounded_fifo\<close>), packets staged during a handshake, the data path
    between two devices, and that no session accepts a counter twice in any run.
  \<^item> \<open>Uapi\<close>, \<open>Uapi_Request\<close>, \<open>Conf\<close> over \<open>Cstring\<close> (\<^verbatim>\<open>uapi.c\<close>, \<^verbatim>\<open>conf.c\<close>, libc): the configuration protocol and the configuration file,
    from their bytes on. Both refine sequences of steps of the event loop, so that every device state they produce is one the invariant covers.
  \<^item> \<open>Tcp_Wire\<close>, \<open>Tcp_Buf\<close>, \<open>Tcp_Stack\<close>, \<open>Tcp_Reassembly\<close>, \<open>Tcp_Sender\<close> (\<^verbatim>\<open>tcpstack.c\<close>): segments and checksums, the send buffer and the
    out-of-order queue, the state machine, and the composition of a sender with a receiver: one application gets a prefix of what
    the other sends.
  \<^item> \<open>Tcp_Worker\<close> (\<^verbatim>\<open>tcp_worker.c\<close>): the rings and buffer pools between the two threads, with every interleaving of their critical sections.
  \<^item> \<open>Socks5\<close> (\<^verbatim>\<open>socks5.c\<close>): the SOCKS5 proxy, an application of the TCP stack. Its state extends the record of the stack, so that the proxy calls the
    functions of the stack and the stack calls the proxy. What the stack keeps of a predicate of its application is proved once, in the locales
    \<open>stack_caller\<close> and \<open>stack_client\<close> of \<open>Tcp_Client\<close>; what the operations of the proxy keep, in the locale \<open>proxy_invariant\<close> of \<open>Socks5_Auth\<close>, which also holds the step relation
    over the events of both and shows that the proxy enforces its user name and password. \<open>Socks5_Data\<close> has the end of a client and of its connection and
    the DNS cache, \<open>Socks5_Upload\<close> the stream from a client through the two circular buffers into its connection. The loop that flushes pending bytes has their
    number as its fuel; that this is enough is part of its theorem.
  \<^item> \<open>Forward\<close>, \<open>Forward_Stream\<close> (\<^verbatim>\<open>forward.c\<close>): the port forwarder, another application of the stack, and that in every run it hands on exactly what the
    stack delivers. Its own contract is the locale \<open>forward_invariant\<close>. The loop that sends pending bytes has their number as its fuel.

  \<^bold>\<open>What comes from outside.\<close> Random bytes, clock readings, the outcome of each allocation, the results of \<^verbatim>\<open>getaddrinfo\<close>, the initial
  contents of buffers the code does not clear, the applications behind the callbacks of the TCP stack, and whatever arrives from the
  network are inputs of the functions or of the steps; nothing is assumed about them except where a theorem says so.

  \<^bold>\<open>Loops and bounds.\<close> Loops are recursive functions with a termination proof. The one loop of the program that may run forever, the flush
  of the staged packets, is a partial function, whose termination under a usable keypair and divergence under an expired one are both
  theorems. The retry loop of the index table and the drain of the out-of-order queue are bounded by the counts the code has
  (the number of slots, the length of the queue). Reads behind an array are values the functions return as errors (\<open>None\<close>), never
  arbitrary list elements. Integers have the width of the C types wherever they can wrap.

  \<^bold>\<open>What the proofs found.\<close> Some theorems state defects of the code: the flush loop that hangs (\<open>flush_staged_hangs\<close>), the segment that the
  out-of-order queue loses (\<open>tcp_ooo_overlap_loses_data\<close>), the IPv6 segments above the MTU (\<open>tcp_segment_size\<close>), the route to a removed peer
  (\<open>uapi_removed_peer_routed\<close>), the write behind the response buffer (\<open>uapi_get_response\<close>). In the proxy: the closed client that stays queued (\<open>socks5_close_dangles\<close>), the end of a download that is cut off (\<open>socks5_fin_truncates\<close>), error
  replies that are never written (\<open>error_reply_lost\<close>), and new bytes that overtake pending ones (\<open>upload_overtakes\<close>); in the forwarder, early data that a FIN discards (\<open>forward_fin_discards\<close>).

  \<^bold>\<open>Not modelled.\<close> Socket set-up and tear-down (\<^verbatim>\<open>device_start\<close>, \<^verbatim>\<open>device_stop\<close>, \<^verbatim>\<open>uapi_start\<close> and the like) and the creation of the worker thread,
  which are sequences of calls of the operating system and of libuv; the TUN device (\<^verbatim>\<open>tun.c\<close>), whose packets are inputs and outputs of the device
  model; the command line (\<^verbatim>\<open>main.c\<close>); logging; the polling of the c-ares sockets and its timer, whose answers are inputs of the proxy; the front ends for Android, Apple and Windows,
  which carry copies of these sources, and the libraries they bundle.
\<close>

end
